(* ===== verification/KB_Prelude.thy ===== *)
theory KB_Prelude
  imports Main "HOL-Library.Word"
begin

text \<open>
  Shared vocabulary of the development: names for the fixed-width types of the C++ sources, the
  fragment of \<^verbatim>\<open>std::from_chars\<close> and \<^verbatim>\<open>printf("%08x")\<close> that the sources use, conversions
  between octets and characters, and generic lemmas on lists, results and numerals.

  Conventions used by every theory.
  \<^item> \<^verbatim>\<open>std::expected<T, E>\<close> is the sum type \<open>E + T\<close>: \<open>Inl\<close> is the error, \<open>Inr\<close> the value.
  \<^item> \<^verbatim>\<open>std::byte\<close> is an \<open>8 word\<close>; fields whose bits are inspected are words of their width.
  \<^item> Sizes and offsets (\<^verbatim>\<open>std::size_t\<close>, \<^verbatim>\<open>std::uint64_t\<close> counters) are \<open>nat\<close> where the source
    checks the range before it computes; the check is written with the maximum \<open>u64_max\<close>.
  \<^item> \<^verbatim>\<open>std::string\<close> is a \<open>string\<close>, one \<open>char\<close> per octet.
\<close>

unbundle bit_operations_syntax

type_synonym byte = "8 word"
type_synonym u16 = "16 word"
type_synonym u32 = "32 word"
type_synonym u64 = "64 word"

named_theorems outcome_splits \<open>case splits on the result of an operation that is known to hold\<close>

declare if_split_asm [outcome_splits] sum.split_asm [outcome_splits] option.split_asm [outcome_splits]
  prod.split_asm [outcome_splits]

lemma find_SomeD: "find P xs = Some x \<Longrightarrow> x \<in> set xs \<and> P x"
  by (induction xs) (auto split: if_splits)

abbreviation u64_max :: nat where
  "u64_max \<equiv> 18446744073709551615"

abbreviation u32_max :: nat where
  "u32_max \<equiv> 4294967295"

section \<open>Octets and characters\<close>

definition char_of_byte :: "byte \<Rightarrow> char" where
  "char_of_byte b = char_of (unat b)"

definition byte_of_char :: "char \<Rightarrow> byte" where
  "byte_of_char c = word_of_nat (of_char c)"

definition string_bytes :: "string \<Rightarrow> byte list" where
  "string_bytes s = map byte_of_char s"

section \<open>Spans\<close>

text \<open>
  A callee that is given the part of a buffer from \<open>start\<close> on stores \<open>data\<close> at its beginning; what
  does not fit is not stored.
\<close>

definition write_span :: "byte list \<Rightarrow> nat \<Rightarrow> byte list \<Rightarrow> byte list" where
  "write_span buffer start data =
     take start buffer @ take (length buffer - start) data @ drop (start + length data) buffer"

section \<open>Polling a stop token\<close>

text \<open>
  A cancellable routine polls a \<^verbatim>\<open>std::stop_token\<close>. The token is a function \<open>stop\<close>: whether the poll
  with a given number sees the stop request. Routines count their polls, so that a request can
  arrive between any two of them.
\<close>

type_synonym stop_token = "nat \<Rightarrow> bool"
type_synonym ('e, 'a) polled = "nat \<Rightarrow> ('e + 'a) \<times> nat"

definition never_stop :: stop_token where
  "never_stop t = False"

definition preturn :: "'a \<Rightarrow> ('e, 'a) polled" where
  "preturn x = (\<lambda>t. (Inr x, t))"

definition pfail :: "'e \<Rightarrow> ('e, 'a) polled" where
  "pfail e = (\<lambda>t. (Inl e, t))"

definition pbind :: "('e, 'a) polled \<Rightarrow> ('a \<Rightarrow> ('e, 'b) polled) \<Rightarrow> ('e, 'b) polled" where
  "pbind m f = (\<lambda>t. case m t of (Inl e, t') \<Rightarrow> (Inl e, t') | (Inr x, t') \<Rightarrow> f x t')"

definition poll :: "stop_token \<Rightarrow> 'e \<Rightarrow> ('e, unit) polled" where
  "poll stop e = (\<lambda>t. (if stop t then Inl e else Inr (), Suc t))"

definition pguard :: "bool \<Rightarrow> 'e \<Rightarrow> ('e, unit) polled" where
  "pguard ok e = (if ok then preturn () else pfail e)"

text \<open>A step that does not poll.\<close>

definition plift :: "'e + 'a \<Rightarrow> ('e, 'a) polled" where
  "plift r = (case r of Inl e \<Rightarrow> pfail e | Inr x \<Rightarrow> preturn x)"

section \<open>Number parsing: the fragment of \<^verbatim>\<open>std::from_chars\<close> in use\<close>

text \<open>
  \<^verbatim>\<open>std::from_chars\<close> for unsigned integers skips no white space and accepts no sign. It matches the
  longest prefix of digits of the base; an empty match is \<open>Errc_invalid_argument\<close>, a value above
  the maximum of the type is \<open>Errc_result_out_of_range\<close>, and in both cases the output variable
  keeps its value. The model returns the error code, the number (\<open>0\<close>, the initial value of every
  output variable in the sources, on an error) and the characters behind the returned pointer.
\<close>

datatype errc = Errc_ok | Errc_invalid_argument | Errc_result_out_of_range

definition digit_value :: "char \<Rightarrow> nat option" where
  "digit_value c =
     (let n = (of_char c :: nat) in
      if 48 \<le> n \<and> n \<le> 57 then Some (n - 48)
      else if 97 \<le> n \<and> n \<le> 122 then Some (n - 87)
      else if 65 \<le> n \<and> n \<le> 90 then Some (n - 55)
      else None)"

definition is_digit :: "nat \<Rightarrow> char \<Rightarrow> bool" where
  "is_digit base c = (case digit_value c of None \<Rightarrow> False | Some d \<Rightarrow> d < base)"

definition digit :: "char \<Rightarrow> nat" where
  "digit c = (case digit_value c of None \<Rightarrow> 0 | Some d \<Rightarrow> d)"

fun digits_value :: "nat \<Rightarrow> nat \<Rightarrow> string \<Rightarrow> nat" where
  "digits_value base acc [] = acc"
| "digits_value base acc (c # cs) = digits_value base (acc * base + digit c) cs"

definition from_chars :: "nat \<Rightarrow> nat \<Rightarrow> string \<Rightarrow> errc \<times> nat \<times> string" where
  "from_chars maximum base s =
     (let ds = takeWhile (is_digit base) s; rest = dropWhile (is_digit base) s in
      if ds = [] then (Errc_invalid_argument, 0, s)
      else if digits_value base 0 ds > maximum then (Errc_result_out_of_range, 0, rest)
      else (Errc_ok, digits_value base 0 ds, rest))"

section \<open>Number printing: \<^verbatim>\<open>printf("%08x")\<close>\<close>

definition hex_digit :: "nat \<Rightarrow> char" where
  "hex_digit d = (if d < 10 then char_of (48 + d) else char_of (87 + d))"

fun hex_fixed :: "nat \<Rightarrow> nat \<Rightarrow> string" where
  "hex_fixed 0 n = []"
| "hex_fixed (Suc w) n = hex_fixed w (n div 16) @ [hex_digit (n mod 16)]"

text \<open>For a 32-bit argument the conversion never needs more than eight digits.\<close>

definition format_08x :: "nat \<Rightarrow> string" where
  "format_08x n = hex_fixed 8 n"

section \<open>Lemmas\<close>

lemma char_of_byte_of_char [simp]: "char_of_byte (byte_of_char c) = c"
proof -
  have "(of_char c :: nat) < 256" by (cases c) (simp add: of_char_def horner_sum_simps)
  then show ?thesis
    by (simp add: char_of_byte_def byte_of_char_def unat_of_nat)
qed

lemma byte_of_char_of_byte [simp]: "byte_of_char (char_of_byte b) = b"
proof -
  have "unat b < 256" using unsigned_less [of b, where ?'a = nat] by simp
  then show ?thesis
    by (simp add: char_of_byte_def byte_of_char_def)
qed

lemma map_char_of_string_bytes [simp]: "map char_of_byte (string_bytes s) = s"
  by (simp add: string_bytes_def comp_def)

lemma length_string_bytes [simp]: "length (string_bytes s) = length s"
  by (simp add: string_bytes_def)

text \<open>Two adjacent reads of a list are one longer read.\<close>

lemma take_drop_append: "take n (drop i xs) @ drop (i + n) xs = drop i xs"
  by (metis add.commute append_take_drop_id drop_drop)

lemma take_drop_split:
  assumes "i + n \<le> k"
  shows "take n (drop i xs) @ take (k - (i + n)) (drop (i + n) xs) = take (k - i) (drop i xs)"
proof -
  have "k - i = n + (k - (i + n))" using assms by simp
  then show ?thesis by (metis take_add drop_drop add.commute)
qed

lemma length_hex_fixed [simp]: "length (hex_fixed w n) = w"
  by (induction w arbitrary: n) auto

lemma length_format_08x [simp]: "length (format_08x n) = 8"
  by (simp add: format_08x_def)

lemma digit_value_hex_digit [simp]: "d < 16 \<Longrightarrow> digit_value (hex_digit d) = Some d"
  by (simp add: digit_value_def hex_digit_def Let_def)

lemma is_digit_hex_digit [simp]: "d < 16 \<Longrightarrow> is_digit 16 (hex_digit d)"
  by (simp add: is_digit_def)

lemma digit_hex_digit [simp]: "d < 16 \<Longrightarrow> digit (hex_digit d) = d"
  by (simp add: digit_def)

lemma digits_value_append:
  "digits_value base acc (xs @ ys) = digits_value base (digits_value base acc xs) ys"
  by (induction xs arbitrary: acc) auto

lemma digits_value_acc:
  "digits_value base acc xs = acc * base ^ length xs + digits_value base 0 xs"
proof (induction xs arbitrary: acc)
  case Nil
  then show ?case by simp
next
  case (Cons x xs)
  from Cons [of "acc * base + digit x"] Cons [of "digit x"]
  show ?case by (simp add: algebra_simps)
qed

lemma digits_value_hex_fixed:
  "n < 16 ^ w \<Longrightarrow> digits_value 16 0 (hex_fixed w n) = n"
proof (induction w arbitrary: n)
  case 0
  then show ?case by simp
next
  case (Suc w)
  then have "n div 16 < 16 ^ w" by (simp add: less_mult_imp_div_less)
  with Suc.IH [of "n div 16"] show ?case by (simp add: digits_value_append)
qed

lemma hex_fixed_digits: "c \<in> set (hex_fixed w n) \<Longrightarrow> is_digit 16 c"
  by (induction w arbitrary: n) auto

lemma digits_value_bound:
  assumes "\<forall>c \<in> set s. is_digit base c" and "0 < base"
  shows "digits_value base 0 s < base ^ length s"
  using assms(1)
proof (induction s)
  case Nil
  then show ?case by simp
next
  case (Cons c s)
  then have "digit c + 1 \<le> base"
    by (auto simp: is_digit_def digit_def split: option.splits)
  then have "(digit c + 1) * base ^ length s \<le> base * base ^ length s"
    by (rule mult_right_mono) simp
  with Cons show ?case
    using digits_value_acc [of base "digit c" s] by (simp add: algebra_simps)
qed

lemma from_chars_all_digits:
  assumes "s \<noteq> []" and "\<forall>c \<in> set s. is_digit base c" and "digits_value base 0 s \<le> maximum"
  shows "from_chars maximum base s = (Errc_ok, digits_value base 0 s, [])"
proof -
  have "takeWhile (is_digit base) s = s" and "dropWhile (is_digit base) s = []"
    using assms(2) by auto
  with assms show ?thesis by (simp only: from_chars_def Let_def) auto
qed

text \<open>A complete match: the caller's test that the returned pointer is the end of the input.\<close>

lemma from_chars_complete_iff:
  "from_chars maximum base s = (Errc_ok, v, []) \<longleftrightarrow>
     s \<noteq> [] \<and> (\<forall>c \<in> set s. is_digit base c) \<and> v = digits_value base 0 s \<and> v \<le> maximum"
proof
  assume *: "from_chars maximum base s = (Errc_ok, v, [])"
  then have "\<forall>c \<in> set s. is_digit base c"
    by (auto simp: from_chars_def Let_def split: if_splits)
  moreover from this have "takeWhile (is_digit base) s = s" by auto
  ultimately show "s \<noteq> [] \<and> (\<forall>c \<in> set s. is_digit base c) \<and> v = digits_value base 0 s \<and> v \<le> maximum"
    using * by (simp only: from_chars_def Let_def) (auto split: if_splits)
qed (auto simp: from_chars_all_digits)

lemma from_chars_format_08x:
  assumes "n \<le> u32_max"
  shows "from_chars u32_max 16 (format_08x n) = (Errc_ok, n, [])"
proof -
  have "n < 16 ^ 8" using assms by simp
  then have v: "digits_value 16 0 (format_08x n) = n"
    by (simp add: format_08x_def digits_value_hex_fixed del: hex_fixed.simps)
  have "format_08x n \<noteq> []"
    using length_format_08x [of n] by (metis list.size(3) zero_neq_numeral)
  moreover have "\<forall>c \<in> set (format_08x n). is_digit 16 c"
    using hex_fixed_digits by (auto simp only: format_08x_def)
  ultimately show ?thesis
    using v assms by (simp add: from_chars_complete_iff)
qed

section \<open>Scanning strings\<close>

text \<open>The offset after a run of characters that satisfy \<open>P\<close>.\<close>

definition skip_while :: "(char \<Rightarrow> bool) \<Rightarrow> string \<Rightarrow> nat \<Rightarrow> nat" where
  "skip_while P s offset = offset + length (takeWhile P (drop offset s))"

text \<open>The first offset from \<open>offset\<close> on with a given character.\<close>

definition find_char :: "char \<Rightarrow> string \<Rightarrow> nat \<Rightarrow> nat option" where
  "find_char c s offset =
     (let i = skip_while (\<lambda>x. x \<noteq> c) s offset in if i < length s then Some i else None)"

lemma skip_while_ge: "offset \<le> skip_while P s offset"
  by (simp add: skip_while_def)

lemma skip_while_le: "offset \<le> length s \<Longrightarrow> skip_while P s offset \<le> length s"
  using length_takeWhile_le [of P "drop offset s"] by (simp add: skip_while_def)

lemma skip_while_stops:
  assumes "skip_while P s offset < length s"
  shows "\<not> P (s ! skip_while P s offset)" and "offset \<le> skip_while P s offset"
proof -
  have "length (takeWhile P (drop offset s)) < length (drop offset s)"
    using assms by (simp add: skip_while_def)
  from nth_length_takeWhile [OF this] assms show "\<not> P (s ! skip_while P s offset)"
    by (simp add: skip_while_def)
qed (rule skip_while_ge)

lemma skip_while_moves:
  assumes "offset < length s" and "P (s ! offset)"
  shows "offset < skip_while P s offset"
  using assms Cons_nth_drop_Suc [OF assms(1)] by (auto simp: skip_while_def simp flip: Cons_nth_drop_Suc)

lemma find_char_Some: "find_char c s offset = Some i \<Longrightarrow> offset \<le> i \<and> i < length s \<and> s ! i = c"
  using skip_while_stops [of "\<lambda>x. x \<noteq> c" s offset] by (auto simp: find_char_def Let_def split: if_splits)

section \<open>Lemmas on spans and polled routines\<close>

lemma length_write_span [simp]: "length (write_span buffer start data) = length buffer"
  by (auto simp: write_span_def)

lemma take_write_span:
  assumes "k \<le> length data" and "start + k \<le> length buffer"
  shows "take (start + k) (write_span buffer start data) = take start buffer @ take k data"
  using assms by (simp add: write_span_def)

lemma pbind_Inr [simp]:
  "pbind m f t = (Inr y, t') \<longleftrightarrow> (\<exists>x t1. m t = (Inr x, t1) \<and> f x t1 = (Inr y, t'))"
  by (auto simp: pbind_def split: prod.splits sum.splits)

lemma pguard_Inr [simp]: "pguard ok e t = (Inr u, t') \<longleftrightarrow> ok \<and> t' = t"
  by (auto simp: pguard_def preturn_def pfail_def)

lemma poll_Inr [simp]: "poll stop e t = (Inr u, t') \<longleftrightarrow> \<not> stop t \<and> t' = Suc t"
  by (auto simp: poll_def)

lemma preturn_Inr [simp]: "preturn x t = (Inr y, t') \<longleftrightarrow> y = x \<and> t' = t"
  by (auto simp: preturn_def)

lemma pfail_Inr [simp]: "pfail e t \<noteq> (Inr y, t')"
  by (simp add: pfail_def)

lemma plift_Inr [simp]: "plift r t = (Inr x, t') \<longleftrightarrow> r = Inr x \<and> t' = t"
  by (auto simp: plift_def split: sum.split)

text \<open>
  Two routines agree up to cancellation: whatever the token does, the first ends like the second or
  with an error that \<open>cancelled\<close> recognises.
\<close>

definition agrees_unless :: "('e \<Rightarrow> bool) \<Rightarrow> ('e, 'a) polled \<Rightarrow> ('e, 'a) polled \<Rightarrow> bool" where
  "agrees_unless cancelled m m0 \<longleftrightarrow>
     (\<forall>t t0. fst (m t) = fst (m0 t0) \<or> (\<exists>e. fst (m t) = Inl e \<and> cancelled e))"

lemma agrees_unless_simps [simp]:
  "agrees_unless cancelled (preturn x) (preturn x)"
  "agrees_unless cancelled (pfail e) (pfail e)"
  "agrees_unless cancelled (pguard ok e) (pguard ok e)"
  "agrees_unless cancelled (plift r) (plift r)"
  "cancelled e \<Longrightarrow> agrees_unless cancelled (poll stop e) (poll never_stop e)"
  by (auto simp: agrees_unless_def preturn_def pfail_def pguard_def plift_def poll_def never_stop_def
      split: sum.splits)

lemma agrees_unless_bind:
  assumes "agrees_unless cancelled m m0"
    and "\<And>x t u. m0 t = (Inr x, u) \<Longrightarrow> agrees_unless cancelled (f x) (f0 x)"
  shows "agrees_unless cancelled (pbind m f) (pbind m0 f0)"
  unfolding agrees_unless_def
proof (intro allI)
  fix t t0
  obtain r t1 r0 t01 where m: "m t = (r, t1)" "m0 t0 = (r0, t01)" by fastforce
  from assms(1) m have "r = r0 \<or> (\<exists>e. r = Inl e \<and> cancelled e)"
    unfolding agrees_unless_def by (metis fst_conv)
  then show "fst (pbind m f t) = fst (pbind m0 f0 t0) \<or>
      (\<exists>e. fst (pbind m f t) = Inl e \<and> cancelled e)"
  proof
    assume "r = r0"
    with m show ?thesis
      using assms(2) [of t0 "projr r" t01, unfolded agrees_unless_def, rule_format, of t1 t01]
      by (cases r) (auto simp: pbind_def)
  next
    assume "\<exists>e. r = Inl e \<and> cancelled e"
    with m show ?thesis by (auto simp: pbind_def)
  qed
qed

lemma pbind_cong_result:
  assumes "m = m'" and "\<And>x t t'. m' t = (Inr x, t') \<Longrightarrow> f x = f' x"
  shows "pbind m f = pbind m' f'"
  using assms by (auto simp: pbind_def fun_eq_iff split: prod.split sum.split)

lemma pbind_cong [fundef_cong]:
  assumes "m = m'" and "\<And>x. f x = f' x"
  shows "pbind m f = pbind m' f'"
  using assms by (rule pbind_cong_result)

lemma agrees_unless_if:
  "(b \<Longrightarrow> agrees_unless cancelled m m0) \<Longrightarrow> (\<not> b \<Longrightarrow> agrees_unless cancelled n n0) \<Longrightarrow>
   agrees_unless cancelled (if b then m else n) (if b then m0 else n0)"
  by simp

lemma agrees_unless_option:
  "(x = None \<Longrightarrow> agrees_unless cancelled m m0) \<Longrightarrow>
   (\<And>y. x = Some y \<Longrightarrow> agrees_unless cancelled (f y) (f0 y)) \<Longrightarrow>
   agrees_unless cancelled (case x of None \<Rightarrow> m | Some y \<Rightarrow> f y) (case x of None \<Rightarrow> m0 | Some y \<Rightarrow> f0 y)"
  by (simp split: option.split)

lemma agrees_unless_sum:
  "(\<And>y. x = Inl y \<Longrightarrow> agrees_unless cancelled (g y) (g0 y)) \<Longrightarrow>
   (\<And>y. x = Inr y \<Longrightarrow> agrees_unless cancelled (f y) (f0 y)) \<Longrightarrow>
   agrees_unless cancelled (case x of Inl y \<Rightarrow> g y | Inr y \<Rightarrow> f y) (case x of Inl y \<Rightarrow> g0 y | Inr y \<Rightarrow> f0 y)"
  by (simp split: sum.split)

lemma agrees_unless_prod:
  "(\<And>a b. x = (a, b) \<Longrightarrow> agrees_unless cancelled (f a b) (f0 a b)) \<Longrightarrow>
   agrees_unless cancelled (case x of (a, b) \<Rightarrow> f a b) (case x of (a, b) \<Rightarrow> f0 a b)"
  by (simp split: prod.split)

lemmas agrees_unless_intros =
  agrees_unless_bind agrees_unless_if agrees_unless_option agrees_unless_sum agrees_unless_prod

end
