(* ===== verification/Transport_Session.thy ===== *)
theory Transport_Session
  imports KB_Prelude
begin

text \<open>
  The transport seam of \<^verbatim>\<open>src/protocol/transport_session.hpp\<close> and the components on both sides of
  it that need no operating system: the memory-backed source and sink of \<^verbatim>\<open>src/kairosboot.cpp\<close> and
  the adapter of \<^verbatim>\<open>src/transport/sequential_streaming_transport.cpp\<close> that streams a source through
  an ordinary transport.

  A virtual method that acts on the outside (a wire, a sink, an observer) is a function over an
  arbitrary world \<open>'w\<close>, which it returns updated; the theorems hold for every such function. A
  method that fills a caller's span also returns the octets it stored at the span's start.
\<close>

section \<open>Data\<close>

datatype transport_status = TS_Ok | TS_Timeout | TS_Cancelled | TS_Disconnected | TS_IoError

datatype transfer_certainty = NotTransferred | FullyTransferred | PartialOrUnknown

record transfer_result =
  tr_status :: transport_status
  tr_transferred :: nat
  tr_certainty :: transfer_certainty
  tr_truncated :: bool
  tr_detail :: string
  tr_native_code :: int

text \<open>The default member initialisers of the struct.\<close>

definition default_transfer_result :: transfer_result where
  "default_transfer_result =
     \<lparr>tr_status = TS_Ok, tr_transferred = 0, tr_certainty = FullyTransferred,
      tr_truncated = False, tr_detail = [], tr_native_code = 0\<rparr>"

text \<open>What a progress observer does: the two actions, or an exception.\<close>

datatype observer_outcome = Continue_transfer | Cancel_transfer | Observer_throws

type_synonym 'w progress_observer = "nat \<Rightarrow> nat \<Rightarrow> 'w \<Rightarrow> observer_outcome \<times> 'w"

text \<open>\<^verbatim>\<open>ITransferSource\<close>: a stable size and an exact read, \<open>None\<close> standing for \<^verbatim>\<open>false\<close>.\<close>

record 'w transfer_source =
  src_size :: nat
  src_read_exact :: "nat \<Rightarrow> nat \<Rightarrow> 'w \<Rightarrow> byte list option \<times> 'w"

type_synonym 'w transfer_sink = "nat \<Rightarrow> byte list \<Rightarrow> 'w \<Rightarrow> transfer_result \<times> 'w"

text \<open>
  \<^verbatim>\<open>ITransportSession\<close>; \<open>t_write_source\<close> is the optional capability
  \<^verbatim>\<open>IStreamingTransportSession\<close> that callers find with \<^verbatim>\<open>dynamic_cast\<close>.
\<close>

record 'w transport_ops =
  t_write :: "byte list \<Rightarrow> int \<Rightarrow> 'w \<Rightarrow> transfer_result \<times> 'w"
  t_read :: "nat \<Rightarrow> int \<Rightarrow> 'w \<Rightarrow> (transfer_result \<times> byte list) \<times> 'w"
  t_read_data :: "nat \<Rightarrow> int \<Rightarrow> 'w \<Rightarrow> (transfer_result \<times> byte list) \<times> 'w"
  t_request_cancel :: "'w \<Rightarrow> 'w"
  t_close :: "'w \<Rightarrow> 'w"
  t_write_source ::
    "('w transfer_source option \<Rightarrow> int \<Rightarrow> 'w progress_observer option \<Rightarrow> 'w \<Rightarrow>
      transfer_result \<times> 'w) option"

section \<open>Memory-backed sink and source\<close>

text \<open>
  \<open>alloc\<close> says whether growing the vector to a number of octets succeeds; a failure is the
  \<^verbatim>\<open>catch\<close> branch.
\<close>

definition memory_sink_write ::
  "(nat \<Rightarrow> bool) \<Rightarrow> nat \<Rightarrow> byte list \<Rightarrow> byte list \<Rightarrow> transfer_result \<times> byte list" where
  "memory_sink_write alloc offset source bytes =
     (if offset \<noteq> length bytes \<or> length source > u64_max - length bytes then
        (default_transfer_result\<lparr>tr_status := TS_IoError, tr_transferred := 0,
           tr_certainty := NotTransferred,
           tr_detail := ''memory receive sink offset is invalid''\<rparr>, bytes)
      else if alloc (length bytes + length source) then
        (default_transfer_result\<lparr>tr_status := TS_Ok, tr_transferred := length source,
           tr_certainty := FullyTransferred\<rparr>, bytes @ source)
      else
        (default_transfer_result\<lparr>tr_status := TS_IoError, tr_transferred := 0,
           tr_certainty := NotTransferred,
           tr_detail := ''memory receive sink allocation failed''\<rparr>, bytes))"

definition memory_source_read_exact :: "byte list \<Rightarrow> nat \<Rightarrow> nat \<Rightarrow> byte list option" where
  "memory_source_read_exact bytes offset n =
     (if offset > length bytes \<or> n > length bytes - offset then None
      else Some (take n (drop offset bytes)))"

definition memory_source :: "byte list \<Rightarrow> 'w transfer_source" where
  "memory_source bytes =
     \<lparr>src_size = length bytes,
      src_read_exact = (\<lambda>offset n w. (memory_source_read_exact bytes offset n, w))\<rparr>"

section \<open>Streaming a source through an ordinary transport\<close>

definition stream_chunk_bytes :: nat where
  "stream_chunk_bytes = 1024 * 1024"

definition stream_cancelled ::
  "'w progress_observer option \<Rightarrow> nat \<Rightarrow> nat \<Rightarrow> 'w \<Rightarrow> bool \<times> 'w" where
  "stream_cancelled observer completed total_bytes w =
     (case observer of
        None \<Rightarrow> (False, w)
      | Some obs \<Rightarrow> (case obs completed total_bytes w of
            (Continue_transfer, w') \<Rightarrow> (False, w')
          | (Cancel_transfer, w') \<Rightarrow> (True, w')
          | (Observer_throws, w') \<Rightarrow> (True, w')))"

text \<open>
  The inner loop writes one chunk. It ends with \<open>None\<close> when the whole chunk was accepted and with
  the result to report otherwise.
\<close>

function stream_chunk_loop ::
  "'w transport_ops \<Rightarrow> int \<Rightarrow> nat \<Rightarrow> nat \<Rightarrow> byte list \<Rightarrow> nat \<Rightarrow> 'w \<Rightarrow>
   transfer_result option \<times> 'w" where
  "stream_chunk_loop T timeout total_bytes completed chunk chunk_offset w =
     (if chunk_offset < length chunk then
        let res = t_write T (drop chunk_offset chunk) timeout w;
            result = fst res; w' = snd res in
        if tr_transferred result > length chunk - chunk_offset then
          (Some (default_transfer_result\<lparr>tr_status := TS_IoError,
             tr_transferred := completed + chunk_offset, tr_certainty := PartialOrUnknown,
             tr_detail := ''transport over-reported a streamed write''\<rparr>), w')
        else
          let chunk_offset' = chunk_offset + tr_transferred result in
          if tr_status result \<noteq> TS_Ok \<or> tr_certainty result \<noteq> FullyTransferred \<or>
             tr_transferred result = 0 \<or> tr_truncated result then
            let transferred = completed + chunk_offset';
                failed = result\<lparr>tr_transferred := transferred\<rparr> in
            (Some (if transferred \<noteq> total_bytes then
                     failed\<lparr>tr_certainty := (if transferred = 0 then NotTransferred
                                             else PartialOrUnknown)\<rparr>
                   else failed), w')
          else stream_chunk_loop T timeout total_bytes completed chunk chunk_offset' w'
      else (None, w))"
  by pat_completeness auto
termination
  by (relation "measure (\<lambda>(T, timeout, total_bytes, completed, chunk, chunk_offset, w).
        length chunk - chunk_offset)") auto

text \<open>
  The buffer has \<open>min (size, 1 MiB)\<close> octets, so a chunk request is never empty while octets
  remain. A successful \<^verbatim>\<open>read_exact\<close> fills the chunk; \<open>take\<close> and the zero padding say that the
  span has the requested length whatever the source stored.
\<close>

definition fill_span :: "nat \<Rightarrow> byte list \<Rightarrow> byte list" where
  "fill_span n data = take n (data @ replicate n 0)"

function stream_source_loop ::
  "'w transport_ops \<Rightarrow> int \<Rightarrow> 'w transfer_source \<Rightarrow> 'w progress_observer option \<Rightarrow> nat \<Rightarrow> 'w \<Rightarrow>
   transfer_result \<times> 'w" where
  "stream_source_loop T timeout source observer completed w =
     (let total_bytes = src_size source in
      if completed < total_bytes then
        let requested = min (min total_bytes stream_chunk_bytes) (total_bytes - completed) in
        (case src_read_exact source completed requested w of
           (None, w1) \<Rightarrow>
             (default_transfer_result\<lparr>tr_status := TS_IoError, tr_transferred := completed,
                tr_certainty := (if completed = 0 then NotTransferred else PartialOrUnknown),
                tr_detail := ''streaming source read failed''\<rparr>, w1)
         | (Some data, w1) \<Rightarrow>
             (case stream_chunk_loop T timeout total_bytes completed (fill_span requested data) 0 w1 of
                (Some failed, w2) \<Rightarrow> (failed, w2)
              | (None, w2) \<Rightarrow>
                  let completed' = completed + requested;
                      c = stream_cancelled observer completed' total_bytes w2 in
                  if fst c then
                    (default_transfer_result\<lparr>tr_status := TS_Cancelled,
                       tr_transferred := completed',
                       tr_certainty := (if completed' = total_bytes then FullyTransferred
                                        else PartialOrUnknown),
                       tr_detail := ''streaming source cancelled''\<rparr>, t_request_cancel T (snd c))
                  else stream_source_loop T timeout source observer completed' (snd c)))
      else
        (default_transfer_result\<lparr>tr_status := TS_Ok, tr_transferred := completed,
           tr_certainty := FullyTransferred\<rparr>, w))"
  by pat_completeness auto
termination
  by (relation "measure (\<lambda>(T, timeout, source, observer, completed, w).
        src_size source - completed)") (auto simp: stream_chunk_bytes_def)

definition sequential_write_source ::
  "(nat \<Rightarrow> bool) \<Rightarrow> 'w transport_ops \<Rightarrow> 'w transfer_source option \<Rightarrow> int \<Rightarrow>
   'w progress_observer option \<Rightarrow> 'w \<Rightarrow> transfer_result \<times> 'w" where
  "sequential_write_source alloc T source_opt timeout observer w =
     (case source_opt of
        None \<Rightarrow>
          (default_transfer_result\<lparr>tr_status := TS_IoError, tr_certainty := NotTransferred,
             tr_detail := ''streaming source is null''\<rparr>, w)
      | Some source \<Rightarrow>
          if \<not> alloc (min (src_size source) stream_chunk_bytes) then
            (default_transfer_result\<lparr>tr_status := TS_IoError, tr_certainty := NotTransferred,
               tr_detail := ''streaming buffer allocation failed''\<rparr>, w)
          else
            let c = stream_cancelled observer 0 (src_size source) w in
            if fst c then
              (default_transfer_result\<lparr>tr_status := TS_Cancelled, tr_transferred := 0,
                 tr_certainty := NotTransferred,
                 tr_detail := ''streaming source cancelled before transfer''\<rparr>,
               t_request_cancel T (snd c))
            else stream_source_loop T timeout source observer 0 (snd c))"

definition make_sequential_streaming_transport ::
  "(nat \<Rightarrow> bool) \<Rightarrow> 'w transport_ops \<Rightarrow> 'w transport_ops" where
  "make_sequential_streaming_transport alloc T =
     T\<lparr>t_write_source := Some (sequential_write_source alloc T)\<rparr>"

declare stream_chunk_loop.simps [simp del]
declare stream_source_loop.simps [simp del]

section \<open>Observing a transport\<close>

text \<open>
  \<open>logged T\<close> is any transport \<open>T\<close> with a record of its calls beside its world.
\<close>

datatype wire_event =
    Ev_write "byte list" transfer_result
  | Ev_read nat transfer_result "byte list"
  | Ev_read_data nat transfer_result "byte list"
  | Ev_request_cancel
  | Ev_close

definition logged :: "'w transport_ops \<Rightarrow> ('w \<times> wire_event list) transport_ops" where
  "logged T =
     \<lparr>t_write = (\<lambda>bs timeout (w, log). case t_write T bs timeout w of
         (r, w') \<Rightarrow> (r, (w', log @ [Ev_write bs r]))),
      t_read = (\<lambda>n timeout (w, log). case t_read T n timeout w of
         ((r, data), w') \<Rightarrow> ((r, data), (w', log @ [Ev_read n r data]))),
      t_read_data = (\<lambda>n timeout (w, log). case t_read_data T n timeout w of
         ((r, data), w') \<Rightarrow> ((r, data), (w', log @ [Ev_read_data n r data]))),
      t_request_cancel = (\<lambda>(w, log). (t_request_cancel T w, log @ [Ev_request_cancel])),
      t_close = (\<lambda>(w, log). (t_close T w, log @ [Ev_close])),
      t_write_source = None\<rparr>"

definition lift_observer ::
  "'w progress_observer \<Rightarrow> ('w \<times> 'm) progress_observer" where
  "lift_observer obs = (\<lambda>completed total_bytes (w, log).
     case obs completed total_bytes w of (out, w') \<Rightarrow> (out, (w', log)))"

text \<open>
  The octets that reached the device. A write whose outcome is certain has moved exactly the octets it
  counts. One that reports \<open>PartialOrUnknown\<close> has moved those and an unknown number more (``\<^verbatim>\<open>the amount
  accepted by the device is unknown\<close>'', \<^verbatim>\<open>transport_session.hpp\<close>): \<open>extra i\<close> is that number for the \<open>i\<close>-th
  call of the log. The properties hold for every \<open>extra\<close>.
\<close>

definition octets_moved :: "nat \<Rightarrow> transfer_result \<Rightarrow> nat" where
  "octets_moved beyond r = tr_transferred r + (if tr_certainty r = PartialOrUnknown then beyond else 0)"

fun reached :: "(nat \<Rightarrow> nat) \<Rightarrow> wire_event list \<Rightarrow> byte list" where
  "reached extra [] = []"
| "reached extra (Ev_write bs r # log) =
     take (octets_moved (extra 0) r) bs @ reached (\<lambda>i. extra (Suc i)) log"
| "reached extra (ev # log) = reached (\<lambda>i. extra (Suc i)) log"

text \<open>
  A result never claims more than the \<open>k\<close> octets that reached the device; unless it admits
  uncertainty it claims exactly those, and success with certainty means all of them.
\<close>

definition honest_report :: "nat \<Rightarrow> nat \<Rightarrow> transfer_result \<Rightarrow> bool" where
  "honest_report total_bytes k r \<longleftrightarrow>
     tr_transferred r \<le> k \<and>
     (tr_status r = TS_Ok \<longrightarrow> tr_certainty r = FullyTransferred \<longrightarrow>
        tr_transferred r = total_bytes) \<and>
     (tr_certainty r \<noteq> PartialOrUnknown \<longrightarrow> tr_transferred r = k)"

text \<open>
  A blind write counts nothing and does not know whether octets went out: what TCP and UDP report when
  a packet was cut off. \<open>downgraded_report\<close> is what the adapter makes of one that comes first: it
  reports \<open>NotTransferred\<close>, which the write did not say.
\<close>

definition blind :: "transfer_result \<Rightarrow> bool" where
  "blind r \<longleftrightarrow> tr_certainty r = PartialOrUnknown \<and> tr_transferred r = 0"

definition ends_blind :: "wire_event list \<Rightarrow> bool" where
  "ends_blind log = (case rev log of Ev_write bs r # _ \<Rightarrow> blind r | _ \<Rightarrow> False)"

definition after_blind_write :: "'w transport_ops \<Rightarrow> 'w \<Rightarrow> bool" where
  "after_blind_write T w \<longleftrightarrow> (\<exists>bs timeout v q. t_write T bs timeout v = (q, w) \<and> blind q)"

definition downgraded_report :: "bool \<Rightarrow> transfer_result \<Rightarrow> bool" where
  "downgraded_report blind_at_end r \<longleftrightarrow>
     blind_at_end \<and> tr_transferred r = 0 \<and> tr_certainty r = NotTransferred"

section \<open>The stream contract of a transport\<close>

text \<open>Reading a response, cancelling and closing leave an observation of the world alone.\<close>

locale quiet_reads =
  fixes T :: "'w transport_ops" and observed :: "'w \<Rightarrow> 'a"
  assumes read_keeps: "t_read T n timeout w = (rd, w') \<Longrightarrow> observed w' = observed w"
    and request_cancel_keeps: "observed (t_request_cancel T w) = observed w"
    and close_keeps: "observed (t_close T w) = observed w"

text \<open>
  What the protocol layer relies on: the octets a device has received grow by a prefix of each write,
  and by nothing else (\<^verbatim>\<open>transport_session.hpp\<close>: ``\<^verbatim>\<open>write() has stream semantics: a successful short
  write may be continued with the remaining bytes\<close>''). The prefix has the reported length when the
  outcome is certain, and at least that length when it is partial or unknown.
\<close>

locale wire_transport = quiet_reads T wire
  for T :: "'w transport_ops" and wire :: "'w \<Rightarrow> byte list" +
  assumes write_appends:
      "t_write T bs timeout w = (r, w') \<Longrightarrow>
       \<exists>beyond. wire w' = wire w @ take (octets_moved beyond r) bs"
    and read_data_keeps: "t_read_data T n timeout w = (rd, w') \<Longrightarrow> wire w' = wire w"
begin

text \<open>One chunk: the wire gains a prefix of what was left; all of it when the loop ends normally.\<close>

lemma stream_chunk_loop_wire:
  assumes "stream_chunk_loop T timeout total_bytes completed chunk chunk_offset w = (res, w')"
    and "chunk_offset \<le> length chunk"
  shows "\<exists>k. chunk_offset \<le> k \<and> k \<le> length chunk \<and>
           wire w' = wire w @ take (k - chunk_offset) (drop chunk_offset chunk) \<and>
           (case res of None \<Rightarrow> k = length chunk
            | Some r \<Rightarrow> honest_report total_bytes (completed + k) r \<or>
                downgraded_report (after_blind_write T w') r)"
  using assms
proof (induction "length chunk - chunk_offset" arbitrary: chunk_offset w rule: less_induct)
  case less
  let ?rest = "drop chunk_offset chunk"
  obtain r v where wr: "t_write T ?rest timeout w = (r, v)" by fastforce
  from write_appends [OF wr] obtain beyond where
    wire_v: "wire v = wire w @ take (octets_moved beyond r) ?rest" by blast
  note loop = less.prems(1) [unfolded stream_chunk_loop.simps [of T timeout total_bytes
      completed chunk chunk_offset w] wr Let_def fst_conv snd_conv]
  consider (finished) "\<not> chunk_offset < length chunk"
    | (over) "chunk_offset < length chunk" "tr_transferred r > length chunk - chunk_offset"
    | (failed) "chunk_offset < length chunk" "tr_transferred r \<le> length chunk - chunk_offset"
        "tr_status r \<noteq> TS_Ok \<or> tr_certainty r \<noteq> FullyTransferred \<or>
         tr_transferred r = 0 \<or> tr_truncated r"
    | (proceed) "chunk_offset < length chunk" "tr_transferred r \<le> length chunk - chunk_offset"
        "\<not> (tr_status r \<noteq> TS_Ok \<or> tr_certainty r \<noteq> FullyTransferred \<or>
            tr_transferred r = 0 \<or> tr_truncated r)"
    by linarith
  then show ?case
  proof cases
    case finished
    with loop less.prems(2) show ?thesis by auto
  next
    case over
    with loop less.prems(2) wire_v show ?thesis
      by (intro exI [of _ "length chunk"]) (auto simp: honest_report_def octets_moved_def)
  next
    case failed
    let ?k = "min (length chunk) (chunk_offset + octets_moved beyond r)"
    from failed loop obtain q where q: "res = Some q" "w' = v"
      "tr_transferred q = completed + (chunk_offset + tr_transferred r)" "tr_status q = tr_status r"
      "tr_certainty q = (if tr_transferred q = total_bytes then tr_certainty r
         else if tr_transferred q = 0 then NotTransferred else PartialOrUnknown)"
      by (auto split: if_splits)
    have "honest_report total_bytes (completed + ?k) q \<or>
        downgraded_report (after_blind_write T w') q"
    proof (cases "tr_certainty r = PartialOrUnknown")
      case True
      with q failed(1,2) wr show ?thesis
        by (auto simp: honest_report_def downgraded_report_def after_blind_write_def blind_def
            octets_moved_def)
    next
      case False
      with q failed(1,2) show ?thesis
        by (auto simp: honest_report_def octets_moved_def)
    qed
    with q wire_v failed(1) show ?thesis
      by (intro exI [of _ ?k]) (auto simp: min_def)
  next
    case proceed
    let ?next = "chunk_offset + tr_transferred r"
    from proceed loop have rec:
      "stream_chunk_loop T timeout total_bytes completed chunk ?next v = (res, w')"
      by simp
    have "length chunk - ?next < length chunk - chunk_offset" and "?next \<le> length chunk"
      using proceed by auto
    from less.hyps [OF this(1) rec this(2)] obtain k where k: "?next \<le> k" "k \<le> length chunk"
      "wire w' = wire v @ take (k - ?next) (drop ?next chunk)"
      "case res of None \<Rightarrow> k = length chunk
       | Some q \<Rightarrow> honest_report total_bytes (completed + k) q \<or>
           downgraded_report (after_blind_write T w') q"
      by blast
    have "wire w' = wire w @ take (k - chunk_offset) ?rest"
      using k(1,3) wire_v proceed(1,3)
      by (simp add: octets_moved_def take_drop_split add.commute)
    with k(1,2,4) show ?thesis by (intro exI [of _ k]) auto
  qed
qed

end

locale wire_stream = wire_transport T wire
  for T :: "'w transport_ops" and wire :: "'w \<Rightarrow> byte list" +
  fixes source :: "'w transfer_source" and content :: "byte list"
    and observer :: "'w progress_observer option"
  assumes source_size: "src_size source = length content"
    and source_read: "src_read_exact source offset n w = (Some data, w') \<Longrightarrow>
      offset + n \<le> length content \<Longrightarrow> fill_span n data = take n (drop offset content)"
    and source_keeps: "src_read_exact source offset n w = (res, w') \<Longrightarrow> wire w' = wire w"
    and observer_keeps: "observer = Some obs \<Longrightarrow> obs done_bytes all_bytes w = (out, w') \<Longrightarrow>
      wire w' = wire w"
begin

lemma stream_cancelled_keeps:
  "stream_cancelled observer completed total_bytes w = (c, w') \<Longrightarrow> wire w' = wire w"
  using observer_keeps
  by (fastforce simp: stream_cancelled_def split: option.splits prod.splits observer_outcome.splits)

lemma stream_source_loop_wire:
  assumes "stream_source_loop T timeout source observer completed w = (r, w')"
    and "completed \<le> length content"
  shows "\<exists>k. completed \<le> k \<and> k \<le> length content \<and>
           wire w' = wire w @ take (k - completed) (drop completed content) \<and>
           (honest_report (length content) k r \<or> downgraded_report (after_blind_write T w') r)"
  using assms
proof (induction "length content - completed" arbitrary: completed w rule: less_induct)
  case less
  let ?n = "min (min (length content) stream_chunk_bytes) (length content - completed)"
  note loop = less.prems(1) [unfolded stream_source_loop.simps [of T timeout source observer
      completed w] source_size]
  show ?case
  proof (cases "completed < length content")
    case False
    with loop less.prems(2) show ?thesis by (auto simp: honest_report_def Let_def)
  next
    case True
    obtain got v where rd: "src_read_exact source completed ?n w = (got, v)" by fastforce
    note wire_v = source_keeps [OF rd]
    show ?thesis
    proof (cases got)
      case None
      with loop True rd wire_v show ?thesis
        by (intro exI [of _ completed]) (auto simp: honest_report_def Let_def)
    next
      case (Some data)
      let ?chunk = "take ?n (drop completed content)"
      have chunk: "fill_span ?n data = ?chunk"
        using source_read [of completed ?n w data v] rd Some True by simp
      obtain res u where ch:
        "stream_chunk_loop T timeout (length content) completed ?chunk 0 v = (res, u)"
        by fastforce
      obtain k where k: "k \<le> length ?chunk" "wire u = wire v @ take k ?chunk"
        "case res of None \<Rightarrow> k = length ?chunk
         | Some q \<Rightarrow> honest_report (length content) (completed + k) q \<or>
             downgraded_report (after_blind_write T u) q"
        using stream_chunk_loop_wire [OF ch] by auto
      show ?thesis
      proof (cases res)
        case (Some q)
        with loop True rd \<open>got = Some data\<close> ch chunk k wire_v show ?thesis
          by (intro exI [of _ "completed + k"]) (auto simp: Let_def)
      next
        case None
        with k have k_all: "k = ?n" "wire u = wire w @ ?chunk" using wire_v by auto
        obtain c x where can:
          "stream_cancelled observer (completed + ?n) (length content) u = (c, x)" by fastforce
        note wire_x = stream_cancelled_keeps [OF can]
        show ?thesis
        proof (cases c)
          case True
          with loop \<open>completed < length content\<close> rd \<open>got = Some data\<close> ch chunk None can
          show ?thesis using wire_x k_all(2) request_cancel_keeps
            by (intro exI [of _ "completed + ?n"]) (auto simp: Let_def honest_report_def)
        next
          case False
          with loop \<open>completed < length content\<close> rd \<open>got = Some data\<close> ch chunk None can
          have rec: "stream_source_loop T timeout source observer (completed + ?n) x = (r, w')"
            by (simp add: Let_def)
          have "length content - (completed + ?n) < length content - completed"
            and "completed + ?n \<le> length content"
            using True by (auto simp: stream_chunk_bytes_def)
          from less.hyps [OF this(1) rec this(2)] obtain j where j:
            "completed + ?n \<le> j" "j \<le> length content"
            "wire w' = wire x @ take (j - (completed + ?n)) (drop (completed + ?n) content)"
            "honest_report (length content) j r \<or> downgraded_report (after_blind_write T w') r"
            by blast
          have "wire w' = wire w @ take (j - completed) (drop completed content)"
            using j(1,3) wire_x k_all(2) take_drop_split [of completed ?n j content] by simp
          with j show ?thesis by (intro exI [of _ j]) auto
        qed
      qed
    qed
  qed
qed

lemma sequential_write_source_wire:
  assumes "sequential_write_source alloc T (Some source) timeout observer w = (r, w')"
  shows "\<exists>k \<le> length content. wire w' = wire w @ take k content \<and>
           (honest_report (length content) k r \<or> downgraded_report (after_blind_write T w') r)"
proof -
  obtain c v where can: "stream_cancelled observer 0 (length content) w = (c, v)" by fastforce
  note wire_v = stream_cancelled_keeps [OF can]
  consider (early) "\<not> alloc (min (length content) stream_chunk_bytes) \<or> c"
    | (loop) "stream_source_loop T timeout source observer 0 v = (r, w')"
    using assms can by (auto simp: sequential_write_source_def source_size Let_def split: if_splits)
  then show ?thesis
  proof cases
    case early
    with assms can wire_v request_cancel_keeps show ?thesis
      by (intro exI [of _ 0])
        (auto simp: sequential_write_source_def source_size honest_report_def
          default_transfer_result_def Let_def split: if_splits)
  next
    case loop
    from stream_source_loop_wire [OF loop] wire_v show ?thesis by auto
  qed
qed

end

section \<open>Every observed transport meets the contract\<close>

lemma reached_append [simp]:
  "reached extra (xs @ ys) = reached extra xs @ reached (\<lambda>i. extra (length xs + i)) ys"
  by (induction extra xs rule: reached.induct) auto

lemma ends_blind_snoc [simp]:
  "\<not> ends_blind []" "ends_blind (log @ [ev]) \<longleftrightarrow> (case ev of Ev_write bs r \<Rightarrow> blind r | _ \<Rightarrow> False)"
  by (simp_all add: ends_blind_def split: wire_event.split)

lemma after_blind_write_logged:
  assumes "after_blind_write (logged T) (w, log)"
  shows "ends_blind log"
proof -
  from assms obtain bs timeout v log0 q where
    "t_write (logged T) bs timeout (v, log0) = (q, (w, log))" and "blind q"
    by (auto simp: after_blind_write_def)
  then have "log = log0 @ [Ev_write bs q]"
    by (auto simp: logged_def split: prod.splits)
  with \<open>blind q\<close> show ?thesis by simp
qed

interpretation logged: wire_transport "logged T" "\<lambda>w. reached extra (snd w)" for T extra
  by unfold_locales (auto simp: logged_def split: prod.splits)

interpretation memory_stream: wire_stream "logged T" "\<lambda>w. reached extra (snd w)"
  "memory_source bytes" bytes "map_option lift_observer obs" for T extra bytes obs
  by unfold_locales
    (auto simp: memory_source_def memory_source_read_exact_def fill_span_def lift_observer_def
      split: if_splits prod.splits)

text \<open>
  Streaming a memory source through any transport, with any progress observer, puts a prefix of
  the source on the wire, in order and without gaps, whatever the writes with an unknown outcome have
  moved. The reported count never exceeds what reached the device, is exact unless the result admits a
  partial or unknown outcome, and a certain success means the device received the whole source; the
  one exception is a blind write at the end, which is reported as \<open>NotTransferred\<close>.
\<close>

theorem sequential_stream_prefix:
  assumes "sequential_write_source alloc (logged T) (Some (memory_source bytes)) timeout
             (map_option lift_observer obs) (w, []) = (r, (w', log))"
  shows "\<exists>k \<le> length bytes. reached extra log = take k bytes \<and>
           (honest_report (length bytes) k r \<or> downgraded_report (ends_blind log) r)"
  using memory_stream.sequential_write_source_wire [OF assms, of extra] after_blind_write_logged
  by (fastforce simp: downgraded_report_def)

text \<open>
  The exception is real. When the first write of a source is blind, the adapter reports
  \<open>NotTransferred\<close>; yet any number of octets up to the whole first chunk may have reached the device.
\<close>

theorem blind_write_downgraded:
  assumes wr: "t_write T (take stream_chunk_bytes bytes) timeout w = (q, w')" and "blind q"
    and "bytes \<noteq> []" and "alloc (min (length bytes) stream_chunk_bytes)"
    and "k \<le> min (length bytes) stream_chunk_bytes"
  shows "\<exists>r log. sequential_write_source alloc (logged T) (Some (memory_source bytes)) timeout None
             (w, []) = (r, (w', log)) \<and>
           tr_certainty r = NotTransferred \<and> tr_transferred r = 0 \<and> tr_status r = tr_status q \<and>
           reached (\<lambda>i. k) log = take k bytes"
proof -
  let ?n = "min (length bytes) stream_chunk_bytes"
  let ?chunk = "take stream_chunk_bytes bytes"
  let ?r = "q\<lparr>tr_transferred := 0, tr_certainty := NotTransferred\<rparr>"
  let ?log = "[Ev_write ?chunk q]"
  have chunk: "take ?n bytes = ?chunk" by (simp add: min_def)
  have pos: "0 < ?n" using assms(3) by (simp add: stream_chunk_bytes_def)
  have "stream_chunk_loop (logged T) timeout (length bytes) 0 ?chunk 0 (w, []) =
      (Some ?r, (w', ?log))"
    using assms(2,3) pos wr
    by (subst stream_chunk_loop.simps) (auto simp: logged_def blind_def Let_def)
  then have "sequential_write_source alloc (logged T) (Some (memory_source bytes)) timeout None
      (w, []) = (?r, (w', ?log))"
    using assms(3,4) pos
    by (simp add: sequential_write_source_def stream_cancelled_def stream_source_loop.simps
        memory_source_def memory_source_read_exact_def fill_span_def chunk Let_def)
  moreover have "reached (\<lambda>i. k) ?log = take k bytes"
    using assms(2,5) by (simp add: octets_moved_def blind_def min_absorb1)
  ultimately show ?thesis by fastforce
qed

text \<open>A connection that is cut while a packet goes out: no octet is counted, two have arrived.\<close>

definition cut_transport :: "unit transport_ops" where
  "cut_transport =
     \<lparr>t_write = (\<lambda>bs timeout w. (default_transfer_result\<lparr>tr_status := TS_Disconnected,
         tr_certainty := PartialOrUnknown\<rparr>, w)),
      t_read = (\<lambda>n timeout w. ((default_transfer_result, []), w)),
      t_read_data = (\<lambda>n timeout w. ((default_transfer_result, []), w)),
      t_request_cancel = id, t_close = id, t_write_source = None\<rparr>"

theorem blind_write_downgraded_example:
  "\<exists>r log. sequential_write_source (\<lambda>n. True) (logged cut_transport) (Some (memory_source [1, 2, 3]))
       30000 None ((), []) = (r, ((), log)) \<and>
     tr_certainty r = NotTransferred \<and> tr_transferred r = 0 \<and> tr_status r = TS_Disconnected \<and>
     reached (\<lambda>i. 2) log = [1, 2]"
  using blind_write_downgraded [of cut_transport "[1, 2, 3]" 30000 "()"
      "default_transfer_result\<lparr>tr_status := TS_Disconnected, tr_certainty := PartialOrUnknown\<rparr>" "()"
      "\<lambda>n. True" 2]
  by (simp add: cut_transport_def blind_def default_transfer_result_def stream_chunk_bytes_def)

text \<open>A transport that takes two octets at a time accepts the source in two calls.\<close>

definition two_byte_transport :: "unit transport_ops" where
  "two_byte_transport =
     \<lparr>t_write = (\<lambda>bs timeout w. (default_transfer_result\<lparr>tr_transferred := min 2 (length bs)\<rparr>, w)),
      t_read = (\<lambda>n timeout w. ((default_transfer_result, []), w)),
      t_read_data = (\<lambda>n timeout w. ((default_transfer_result, []), w)),
      t_request_cancel = id, t_close = id, t_write_source = None\<rparr>"

theorem sequential_stream_prefix_witness:
  "\<exists>r log. sequential_write_source (\<lambda>n. True) (logged two_byte_transport)
     (Some (memory_source [1, 2, 3])) 30000 (map_option lift_observer None) ((), []) = (r, ((), log)) \<and>
   tr_transferred r = 3 \<and> (\<exists>k \<le> 3. reached (\<lambda>i. 5) log = take k [1, 2, 3] \<and>
     (honest_report 3 k r \<or> downgraded_report (ends_blind log) r))"
proof -
  let ?r = "default_transfer_result\<lparr>tr_transferred := 3\<rparr>"
  let ?two = "default_transfer_result\<lparr>tr_transferred := 2\<rparr>"
  let ?one = "default_transfer_result\<lparr>tr_transferred := 1\<rparr>"
  let ?log = "[Ev_write [1, 2, 3] ?two, Ev_write [3] ?one]"
  have run: "sequential_write_source (\<lambda>n. True) (logged two_byte_transport)
     (Some (memory_source [1, 2, 3])) 30000 (map_option lift_observer None) ((), []) =
     (?r, ((), ?log))"
    by (simp add: sequential_write_source_def stream_cancelled_def stream_source_loop.simps
        stream_chunk_loop.simps memory_source_def memory_source_read_exact_def logged_def
        two_byte_transport_def fill_span_def stream_chunk_bytes_def default_transfer_result_def
        Let_def)
  show ?thesis
    using run sequential_stream_prefix [OF run, of "\<lambda>i. 5"] by (auto simp: numeral_3_eq_3)
qed

end
