(* ===== verification/Fastboot_Response.thy ===== *)
theory Fastboot_Response
  imports Transport_Session
begin

text \<open>
  Response frames of the Fastboot wire protocol: the data types of
  \<^verbatim>\<open>src/protocol/fastboot_protocol.hpp\<close> and \<open>parse_response\<close> of
  \<^verbatim>\<open>src/protocol/fastboot_protocol.cpp\<close>, with the encoder a device uses as its reference.
\<close>

section \<open>Data\<close>

definition kDefaultMaxCommandBytes :: nat where "kDefaultMaxCommandBytes = 4096"
definition kDefaultMaxResponseBytes :: nat where "kDefaultMaxResponseBytes = 256"
definition kDefaultMaxInformationalResponses :: nat where
  "kDefaultMaxInformationalResponses = 1024"
definition kDefaultReceiveChunkBytes :: nat where "kDefaultReceiveChunkBytes = 1024 * 1024"
definition kMaximumReceiveChunkBytes :: nat where "kMaximumReceiveChunkBytes = 4 * 1024 * 1024"

datatype response_kind = Info | Text | Okay | Fail | Data

record response =
  resp_kind :: response_kind
  resp_payload :: string
  resp_data_size :: "nat option"

datatype response_parse_error_code =
    ZeroLength | TooShort | TooLong | UnknownPrefix | InvalidDataLength | InvalidDataHex

record response_parse_error =
  rpe_code :: response_parse_error_code
  rpe_message :: string

section \<open>Parsing\<close>

definition bytes_to_string :: "byte list \<Rightarrow> string" where
  "bytes_to_string bytes = map char_of_byte bytes"

text \<open>\<^verbatim>\<open>std::equal\<close> over the prefix; the caller has checked that the packet is long enough.\<close>

definition has_prefix :: "byte list \<Rightarrow> string \<Rightarrow> bool" where
  "has_prefix packet prefix = (take (length prefix) (bytes_to_string packet) = prefix)"

definition plain_response :: "response_kind \<Rightarrow> byte list \<Rightarrow> response" where
  "plain_response kind payload_bytes =
     \<lparr>resp_kind = kind, resp_payload = bytes_to_string payload_bytes, resp_data_size = None\<rparr>"

definition parse_response :: "byte list \<Rightarrow> nat \<Rightarrow> response_parse_error + response" where
  "parse_response packet max_response_bytes =
     (if packet = [] then
        Inl \<lparr>rpe_code = ZeroLength, rpe_message = ''Fastboot logical response is empty''\<rparr>
      else if length packet < 4 then
        Inl \<lparr>rpe_code = TooShort,
             rpe_message = ''Fastboot response is shorter than its four-byte status prefix''\<rparr>
      else if length packet > max_response_bytes then
        Inl \<lparr>rpe_code = TooLong,
             rpe_message = ''Fastboot response exceeds the configured response limit''\<rparr>
      else
        let payload_bytes = drop 4 packet in
        if has_prefix packet ''INFO'' then Inr (plain_response Info payload_bytes)
        else if has_prefix packet ''TEXT'' then Inr (plain_response Text payload_bytes)
        else if has_prefix packet ''OKAY'' then Inr (plain_response Okay payload_bytes)
        else if has_prefix packet ''FAIL'' then Inr (plain_response Fail payload_bytes)
        else if \<not> has_prefix packet ''DATA'' then
          Inl \<lparr>rpe_code = UnknownPrefix,
               rpe_message = ''Fastboot response has an unknown status prefix''\<rparr>
        else if length payload_bytes \<noteq> 8 then
          Inl \<lparr>rpe_code = InvalidDataLength, rpe_message =
            ''Fastboot DATA response must contain exactly eight hexadecimal digits''\<rparr>
        else
          let payload = bytes_to_string payload_bytes in
          (case from_chars u32_max 16 payload of (ec, data_size, rest) \<Rightarrow>
             if ec \<noteq> Errc_ok \<or> rest \<noteq> [] then
               Inl \<lparr>rpe_code = InvalidDataHex,
                    rpe_message = ''Fastboot DATA response contains invalid hexadecimal digits''\<rparr>
             else Inr \<lparr>resp_kind = Data, resp_payload = payload, resp_data_size = Some data_size\<rparr>))"

section \<open>The reference encoding\<close>

definition kind_prefix :: "response_kind \<Rightarrow> string" where
  "kind_prefix k = (case k of Info \<Rightarrow> ''INFO'' | Text \<Rightarrow> ''TEXT'' | Okay \<Rightarrow> ''OKAY''
     | Fail \<Rightarrow> ''FAIL'' | Data \<Rightarrow> ''DATA'')"

text \<open>
  A response is well formed when it is a status with any text, or a \<open>DATA\<close> whose text is eight
  hexadecimal digits that spell its size.
\<close>

definition wf_response :: "response \<Rightarrow> bool" where
  "wf_response r =
     (if resp_kind r = Data then
        length (resp_payload r) = 8 \<and> list_all (is_digit 16) (resp_payload r) \<and>
        resp_data_size r = Some (digits_value 16 0 (resp_payload r))
      else resp_data_size r = None)"

definition encode_response :: "response \<Rightarrow> byte list" where
  "encode_response r = string_bytes (kind_prefix (resp_kind r) @ resp_payload r)"

definition data_response :: "nat \<Rightarrow> response" where
  "data_response n =
     \<lparr>resp_kind = Data, resp_payload = format_08x n, resp_data_size = Some n\<rparr>"

section \<open>Lemmas\<close>

lemma length_bytes_to_string [simp]: "length (bytes_to_string bs) = length bs"
  by (simp add: bytes_to_string_def)

lemma bytes_to_string_string_bytes [simp]: "bytes_to_string (string_bytes s) = s"
  by (simp add: bytes_to_string_def)

lemma string_bytes_bytes_to_string [simp]: "string_bytes (bytes_to_string bs) = bs"
  by (simp add: bytes_to_string_def string_bytes_def comp_def)

lemma bytes_to_string_drop: "bytes_to_string (drop n bs) = drop n (bytes_to_string bs)"
  by (simp add: bytes_to_string_def drop_map)

lemma length_kind_prefix [simp]: "length (kind_prefix k) = 4"
  by (cases k) (simp_all add: kind_prefix_def)

lemma has_prefix_kind: "has_prefix bs (kind_prefix k) \<longleftrightarrow> take 4 (bytes_to_string bs) = kind_prefix k"
  by (simp add: has_prefix_def)

lemmas has_prefix_literals =
  has_prefix_kind [of _ Info, simplified kind_prefix_def response_kind.case]
  has_prefix_kind [of _ Text, simplified kind_prefix_def response_kind.case]
  has_prefix_kind [of _ Okay, simplified kind_prefix_def response_kind.case]
  has_prefix_kind [of _ Fail, simplified kind_prefix_def response_kind.case]
  has_prefix_kind [of _ Data, simplified kind_prefix_def response_kind.case]

lemma wf_data_response: "n \<le> u32_max \<Longrightarrow> wf_response (data_response n)"
proof -
  assume "n \<le> u32_max"
  then have "from_chars u32_max 16 (format_08x n) = (Errc_ok, n, [])"
    by (rule from_chars_format_08x)
  then show ?thesis
    by (simp add: from_chars_complete_iff wf_response_def data_response_def list_all_iff)
qed

text \<open>A complete match of eight hexadecimal digits always fits 32 bits.\<close>

lemma hex8_bound:
  assumes "length s = 8" and "\<forall>c \<in> set s. is_digit 16 c"
  shows "digits_value 16 0 s \<le> u32_max"
  using digits_value_bound [OF assms(2)] assms(1) by simp

lemma from_chars_hex8:
  assumes "length s = 8"
  shows "from_chars u32_max 16 s = (Errc_ok, v, []) \<longleftrightarrow>
           list_all (is_digit 16) s \<and> v = digits_value 16 0 s"
  using assms hex8_bound [OF assms] by (auto simp: from_chars_complete_iff list_all_iff)

lemma from_chars_hex8_case:
  assumes "length s = 8"
  shows "(case from_chars u32_max 16 s of (ec, v, rest) \<Rightarrow>
            if ec = Errc_ok \<longrightarrow> rest \<noteq> [] then bad else good v) =
         (if list_all (is_digit 16) s then good (digits_value 16 0 s) else bad)"
proof -
  obtain ec v rest where fc: "from_chars u32_max 16 s = (ec, v, rest)"
    by (metis prod.collapse)
  with from_chars_hex8 [OF assms, of v] from_chars_hex8 [OF assms, of "digits_value 16 0 s"]
  show ?thesis by auto
qed

text \<open>What the parser accepts, in one equation: it inverts the encoder and accepts nothing else.\<close>

lemma parse_response_Inr_imp:
  assumes "parse_response packet limit = Inr r"
  shows "wf_response r" and "encode_response r = packet" and "length packet \<le> limit"
proof -
  let ?s = "bytes_to_string packet"
  have len: "4 \<le> length packet" "length packet \<le> limit"
    using assms by (auto simp: parse_response_def split: if_splits)
  then show "length packet \<le> limit" by simp
  have split: "take 4 ?s @ drop 4 ?s = ?s" by simp
  have data: "wf_response r \<and> take 4 ?s = kind_prefix (resp_kind r) \<and> resp_payload r = drop 4 ?s"
    using assms len
    by (auto simp: parse_response_def Let_def has_prefix_literals plain_response_def
        wf_response_def kind_prefix_def bytes_to_string_drop from_chars_hex8_case split: if_splits)
  then show "wf_response r" by simp
  have "encode_response r = string_bytes (take 4 ?s @ drop 4 ?s)"
    using data by (simp add: encode_response_def)
  also have "\<dots> = packet" by (simp only: split string_bytes_bytes_to_string)
  finally show "encode_response r = packet" .
qed

lemma parse_response_encode:
  assumes "wf_response r" and "length (encode_response r) \<le> limit"
  shows "parse_response (encode_response r) limit = Inr r"
proof -
  let ?p = "encode_response r"
  have "\<not> length ?p < 4" "?p \<noteq> []"
    by (auto simp: encode_response_def string_bytes_def kind_prefix_def split: response_kind.splits)
  moreover have pre: "take 4 (bytes_to_string ?p) = kind_prefix (resp_kind r)"
    and payload: "bytes_to_string (drop 4 ?p) = resp_payload r"
    by (simp_all add: encode_response_def bytes_to_string_drop)
  moreover have "length (drop 4 ?p) = length (resp_payload r)"
    by (simp add: encode_response_def)
  ultimately show ?thesis
    using assms
    by (cases "resp_kind r")
      (auto simp: parse_response_def Let_def has_prefix_literals plain_response_def
        wf_response_def kind_prefix_def from_chars_hex8_case)
qed

section \<open>Properties\<close>

text \<open>
  C27. \<open>parse_response\<close> is the exact inverse of the wire encoding: a packet is accepted with response
  \<open>r\<close> if and only if \<open>r\<close> is well formed, the packet is the encoding of \<open>r\<close>, and the packet fits
  the configured limit. Every other packet is rejected with an error.
\<close>

theorem parse_response_iff:
  "parse_response packet limit = Inr r \<longleftrightarrow>
     wf_response r \<and> packet = encode_response r \<and> length packet \<le> limit"
  using parse_response_Inr_imp parse_response_encode by blast

text \<open>
  The error codes: each rejected packet gets the code of the first check it fails, in the order
  the parser makes them.
\<close>

theorem parse_response_error_code:
  "map_sum rpe_code resp_kind (parse_response packet limit) =
     (if packet = [] then Inl ZeroLength
      else if length packet < 4 then Inl TooShort
      else if length packet > limit then Inl TooLong
      else let prefix = take 4 (bytes_to_string packet); payload = drop 4 (bytes_to_string packet) in
        if prefix = ''INFO'' then Inr Info
        else if prefix = ''TEXT'' then Inr Text
        else if prefix = ''OKAY'' then Inr Okay
        else if prefix = ''FAIL'' then Inr Fail
        else if prefix \<noteq> ''DATA'' then Inl UnknownPrefix
        else if length payload \<noteq> 8 then Inl InvalidDataLength
        else if list_all (is_digit 16) payload then Inr Data else Inl InvalidDataHex)"
  by (simp add: parse_response_def Let_def has_prefix_literals plain_response_def
      bytes_to_string_drop from_chars_hex8_case)

end
