(* ===== verification/Fastboot_Session.thy ===== *)
theory Fastboot_Session
  imports Fastboot_Response
begin

text \<open>
  The synchronous session state machine \<^verbatim>\<open>FastbootSession\<close> of
  \<^verbatim>\<open>src/protocol/fastboot_protocol.cpp\<close>: every entry point and every private step, over an arbitrary
  transport, source, sink and observer.

  Each step takes the session and the world and returns the result, the new session and the new
  world. The mutex is a flag: \<open>mutex_held\<close> says that another thread owns it, so that
  \<^verbatim>\<open>try_to_lock\<close> fails. \<open>begin_locked\<close> hands on the transport pointer it has checked.
  \<open>allocator\<close> says which buffer sizes the process can allocate.
\<close>

section \<open>Data\<close>

datatype session_state =
    SS_Ready | SS_WritingCommand | SS_AwaitingResponse | SS_Downloading | SS_ReceivingData
  | SS_Poisoned | SS_Closed

datatype protocol_error_code =
    PE_InvalidArgument | PE_StreamingUnsupported | PE_Busy | PE_Closed | PE_Poisoned
  | PE_TransportTimeout | PE_TransportCancelled | PE_TransportDisconnected | PE_TransportIo
  | PE_TransportContractViolation | PE_ZeroProgress | PE_MalformedResponse | PE_UnexpectedResponse
  | PE_DataLengthMismatch | PE_TooManyInformationalResponses

datatype protocol_phase =
    Validation | CommandWrite | InitialResponse | DataWrite | DataRead | FinalResponse

record protocol_error =
  pe_code :: protocol_error_code
  pe_message :: string
  pe_informational :: "response list"
  pe_transport_status :: transport_status
  pe_transfer_certainty :: transfer_certainty
  pe_phase :: protocol_phase
  pe_outbound_certainty :: transfer_certainty
  pe_inbound_expected :: "nat option"
  pe_inbound_transferred :: nat
  pe_inbound_certainty :: transfer_certainty
  pe_native_code :: int

text \<open>An error with the default member initialisers for everything but code and message.\<close>

definition protocol_error_of :: "protocol_error_code \<Rightarrow> string \<Rightarrow> protocol_error" where
  "protocol_error_of code message =
     \<lparr>pe_code = code, pe_message = message, pe_informational = [], pe_transport_status = TS_Ok,
      pe_transfer_certainty = FullyTransferred, pe_phase = Validation,
      pe_outbound_certainty = NotTransferred, pe_inbound_expected = None,
      pe_inbound_transferred = 0, pe_inbound_certainty = NotTransferred, pe_native_code = 0\<rparr>"

record command_result =
  cr_terminal :: response
  cr_informational :: "response list"
  cr_phase :: protocol_phase
  cr_outbound_certainty :: transfer_certainty
  cr_inbound_expected :: "nat option"
  cr_inbound_transferred :: nat
  cr_inbound_certainty :: transfer_certainty

definition command_result_of ::
  "response \<Rightarrow> response list \<Rightarrow> protocol_phase \<Rightarrow> transfer_certainty \<Rightarrow> command_result" where
  "command_result_of terminal informational phase outbound_certainty =
     \<lparr>cr_terminal = terminal, cr_informational = informational, cr_phase = phase,
      cr_outbound_certainty = outbound_certainty, cr_inbound_expected = None,
      cr_inbound_transferred = 0, cr_inbound_certainty = NotTransferred\<rparr>"

definition succeeded :: "command_result \<Rightarrow> bool" where
  "succeeded r = (resp_kind (cr_terminal r) = Okay)"

record session_options =
  io_timeout :: int
  max_command_bytes :: nat
  max_response_bytes :: nat
  max_informational_responses :: nat
  receive_chunk_bytes :: nat

definition default_session_options :: session_options where
  "default_session_options =
     \<lparr>io_timeout = 30000, max_command_bytes = kDefaultMaxCommandBytes,
      max_response_bytes = kDefaultMaxResponseBytes,
      max_informational_responses = kDefaultMaxInformationalResponses,
      receive_chunk_bytes = kDefaultReceiveChunkBytes\<rparr>"

record 'w session =
  transport :: "'w transport_ops option"
  options :: session_options
  allocator :: "nat \<Rightarrow> bool"
  mutex_held :: bool
  cancellation_requested :: bool
  state :: session_state
  poison_error :: "protocol_error option"

type_synonym ('a, 'w) step = "'w session \<Rightarrow> 'w \<Rightarrow> (protocol_error + 'a) \<times> 'w session \<times> 'w"

section \<open>Construction\<close>

definition fastboot_session ::
  "'w transport_ops option \<Rightarrow> session_options \<Rightarrow> (nat \<Rightarrow> bool) \<Rightarrow> 'w session" where
  "fastboot_session T opts alloc =
     \<lparr>transport = T,
      options = opts
        \<lparr>max_response_bytes := (if max_response_bytes opts < 4 then 4 else max_response_bytes opts),
         max_command_bytes := (if max_command_bytes opts = 0 then kDefaultMaxCommandBytes
                               else max_command_bytes opts),
         max_informational_responses := (if max_informational_responses opts = 0 then 1
                                         else max_informational_responses opts),
         receive_chunk_bytes :=
           max 1 (min (receive_chunk_bytes opts) kMaximumReceiveChunkBytes)\<rparr>,
      allocator = alloc, mutex_held = False, cancellation_requested = False,
      state = SS_Ready, poison_error = None\<rparr>"

section \<open>Error construction\<close>

definition malformed_response_error ::
  "response_parse_error \<Rightarrow> protocol_phase \<Rightarrow> transfer_certainty \<Rightarrow> protocol_error" where
  "malformed_response_error e phase outbound_certainty =
     (protocol_error_of PE_MalformedResponse (rpe_message e))
       \<lparr>pe_phase := phase, pe_outbound_certainty := outbound_certainty\<rparr>"

definition aggregate_write_certainty ::
  "nat \<Rightarrow> nat \<Rightarrow> transfer_result \<Rightarrow> transfer_certainty" where
  "aggregate_write_certainty completed requested result =
     (if tr_certainty result = FullyTransferred \<and> tr_transferred result = requested then
        FullyTransferred
      else if completed = 0 \<and> tr_transferred result = 0 \<and> tr_certainty result = NotTransferred then
        NotTransferred
      else PartialOrUnknown)"

definition with_informational :: "protocol_error \<Rightarrow> response list \<Rightarrow> protocol_error" where
  "with_informational e informational = e\<lparr>pe_informational := informational\<rparr>"

definition transport_error_code :: "transport_status \<Rightarrow> protocol_error_code" where
  "transport_error_code status =
     (case status of TS_Timeout \<Rightarrow> PE_TransportTimeout | TS_Cancelled \<Rightarrow> PE_TransportCancelled
      | TS_Disconnected \<Rightarrow> PE_TransportDisconnected | TS_IoError \<Rightarrow> PE_TransportIo
      | TS_Ok \<Rightarrow> PE_TransportIo)"

definition transport_error_locked ::
  "transfer_result \<Rightarrow> string \<Rightarrow> protocol_phase \<Rightarrow> transfer_certainty \<Rightarrow> protocol_error" where
  "transport_error_locked result operation phase outbound_certainty =
     (protocol_error_of (transport_error_code (tr_status result))
        (''Fastboot transport '' @ operation @ '' failed'' @
         (if tr_certainty result = PartialOrUnknown
          then '' with a partial or unknown transfer outcome'' else []) @
         (if tr_detail result \<noteq> [] then '': '' @ tr_detail result else [])))
       \<lparr>pe_transport_status := tr_status result, pe_transfer_certainty := tr_certainty result,
        pe_phase := phase, pe_outbound_certainty := outbound_certainty,
        pe_native_code := tr_native_code result\<rparr>"

text \<open>The fields most contract-violation errors copy from a transfer result.\<close>

definition io_error_of ::
  "protocol_error_code \<Rightarrow> string \<Rightarrow> transfer_result \<Rightarrow> protocol_phase \<Rightarrow> transfer_certainty \<Rightarrow>
   protocol_error" where
  "io_error_of code message result phase outbound_certainty =
     (protocol_error_of code message)
       \<lparr>pe_transport_status := tr_status result, pe_transfer_certainty := tr_certainty result,
        pe_phase := phase, pe_outbound_certainty := outbound_certainty,
        pe_native_code := tr_native_code result\<rparr>"

definition poison_locked :: "protocol_error \<Rightarrow> 'w session \<Rightarrow> 'w \<Rightarrow>
    (protocol_error + 'a) \<times> 'w session \<times> 'w" where
  "poison_locked e s w = (Inl e, s\<lparr>state := SS_Poisoned, poison_error := Some e\<rparr>, w)"

definition unavailable_error_locked :: "'w session \<Rightarrow> protocol_error" where
  "unavailable_error_locked s =
     (if state s = SS_Closed then protocol_error_of PE_Closed ''Fastboot session is closed''
      else if state s = SS_Poisoned then
        let e = (case poison_error s of
                   Some e \<Rightarrow> e
                 | None \<Rightarrow> protocol_error_of PE_Poisoned ''Fastboot session is poisoned'') in
        e\<lparr>pe_code := PE_Poisoned,
          pe_message := ''Fastboot session is poisoned: '' @ pe_message e\<rparr>
      else protocol_error_of PE_Busy ''Fastboot session is busy'')"

definition session_busy_error :: protocol_error where
  "session_busy_error =
     protocol_error_of PE_Busy ''another Fastboot operation is already using this session''"

section \<open>Validation\<close>

definition forbidden_command_char :: "char \<Rightarrow> bool" where
  "forbidden_command_char c = (c \<in> {CHR 0x00, CHR 0x0D, CHR 0x0A})"

definition begin_locked :: "string \<Rightarrow> ('w transport_ops, 'w) step" where
  "begin_locked command_text s w =
     (if state s \<noteq> SS_Ready then (Inl (unavailable_error_locked s), s, w)
      else if cancellation_requested s then
        poison_locked ((protocol_error_of PE_TransportCancelled ''Fastboot operation was cancelled'')
          \<lparr>pe_transport_status := TS_Cancelled, pe_transfer_certainty := NotTransferred,
           pe_phase := Validation, pe_outbound_certainty := NotTransferred\<rparr>) s w
      else case transport s of
        None \<Rightarrow>
          (Inl (protocol_error_of PE_InvalidArgument ''Fastboot session has no transport''), s, w)
      | Some T \<Rightarrow>
          if command_text = [] \<or> length command_text > max_command_bytes (options s) then
            (Inl (protocol_error_of PE_InvalidArgument
               ''Fastboot command is empty or exceeds the configured command limit''), s, w)
          else if find forbidden_command_char command_text \<noteq> None then
            (Inl (protocol_error_of PE_InvalidArgument
               ''Fastboot command contains a forbidden control character''), s, w)
          else (Inr T, s, w))"

section \<open>Writing\<close>

function write_exact_loop ::
  "'w transport_ops \<Rightarrow> byte list \<Rightarrow> protocol_phase \<Rightarrow> nat \<Rightarrow> (unit, 'w) step" where
  "write_exact_loop T bytes phase offset s w =
     (if offset < length bytes then
        let remaining = drop offset bytes;
            res = t_write T remaining (io_timeout (options s)) w;
            result = fst res; w' = snd res;
            certainty = aggregate_write_certainty offset (length remaining) result in
        if tr_transferred result > length remaining then
          poison_locked (io_error_of PE_TransportContractViolation
            ''transport reported writing more bytes than requested'' result phase certainty) s w'
        else if tr_status result \<noteq> TS_Ok then
          poison_locked (transport_error_locked result ''write'' phase certainty) s w'
        else if tr_certainty result \<noteq> FullyTransferred then
          poison_locked (io_error_of PE_TransportContractViolation
            ''successful transport write has an uncertain transfer outcome'' result phase
            certainty) s w'
        else if tr_truncated result then
          poison_locked (io_error_of PE_TransportContractViolation
            ''transport marked a write result as truncated'' result phase certainty) s w'
        else if tr_transferred result = 0 then
          poison_locked (io_error_of PE_ZeroProgress
            ''transport made no progress during a Fastboot write'' result phase
            (if offset = 0 then NotTransferred else PartialOrUnknown)) s w'
        else write_exact_loop T bytes phase (offset + tr_transferred result) s w'
      else (Inr (), s, w))"
  by pat_completeness auto
termination
  by (relation "measure (\<lambda>(T, bytes, phase, offset, s, w). length bytes - offset)") auto

definition write_exact_locked ::
  "'w transport_ops \<Rightarrow> byte list \<Rightarrow> protocol_phase \<Rightarrow> (unit, 'w) step" where
  "write_exact_locked T bytes phase = write_exact_loop T bytes phase 0"

text \<open>\<open>write_source\<close> is the streaming capability found on the transport.\<close>

definition write_source_locked ::
  "('w transfer_source option \<Rightarrow> int \<Rightarrow> 'w progress_observer option \<Rightarrow> 'w \<Rightarrow>
      transfer_result \<times> 'w) \<Rightarrow>
   'w transfer_source \<Rightarrow> nat \<Rightarrow> 'w progress_observer option \<Rightarrow> (unit, 'w) step" where
  "write_source_locked write_source source expected observer s w =
     (let res = write_source (Some source) (io_timeout (options s)) observer w;
          result = fst res; w' = snd res;
          certainty = aggregate_write_certainty 0 expected result in
      if tr_transferred result > expected then
        poison_locked (io_error_of PE_TransportContractViolation
          ''streaming transport reported writing more bytes than requested'' result DataWrite
          certainty) s w'
      else if tr_status result \<noteq> TS_Ok then
        poison_locked (transport_error_locked result ''source write'' DataWrite certainty) s w'
      else if tr_certainty result \<noteq> FullyTransferred then
        poison_locked (io_error_of PE_TransportContractViolation
          ''successful source write has an uncertain transfer outcome'' result DataWrite
          certainty) s w'
      else if tr_truncated result then
        poison_locked (io_error_of PE_TransportContractViolation
          ''streaming transport marked a source write as truncated'' result DataWrite
          certainty) s w'
      else if tr_transferred result \<noteq> expected then
        poison_locked (io_error_of
          (if tr_transferred result = 0 then PE_ZeroProgress else PE_TransportContractViolation)
          ''streaming transport did not write the complete source'' result DataWrite
          certainty) s w'
      else (Inr (), s, w'))"

section \<open>Reading responses\<close>

definition read_response_locked ::
  "'w transport_ops \<Rightarrow> protocol_phase \<Rightarrow> transfer_certainty \<Rightarrow> response list \<Rightarrow>
   (response, 'w) step" where
  "read_response_locked T phase outbound_certainty informational s w =
     (let limit = max_response_bytes (options s);
          res = t_read T limit (io_timeout (options s)) w;
          result = fst (fst res); buffer = fill_span limit (snd (fst res)); w' = snd res in
      if tr_status result \<noteq> TS_Ok then
        poison_locked (with_informational
          (transport_error_locked result ''read'' phase outbound_certainty) informational) s w'
      else if tr_certainty result \<noteq> FullyTransferred then
        poison_locked ((io_error_of PE_TransportContractViolation
          ''successful transport read has an uncertain transfer outcome'' result phase
          outbound_certainty)\<lparr>pe_informational := informational\<rparr>) s w'
      else if tr_truncated result \<or> tr_transferred result > limit \<or>
              tr_transferred result > length buffer then
        poison_locked ((io_error_of PE_MalformedResponse
          ''Fastboot response exceeded the configured response limit'' result phase
          outbound_certainty)\<lparr>pe_informational := informational\<rparr>) s w'
      else (case parse_response (take (tr_transferred result) buffer) limit of
          Inl e \<Rightarrow> poison_locked (with_informational
            (malformed_response_error e phase outbound_certainty) informational) s w'
        | Inr r \<Rightarrow> (Inr r, s, w')))"

definition is_informational :: "response \<Rightarrow> bool" where
  "is_informational r = (resp_kind r = Info \<or> resp_kind r = Text)"

text \<open>The error of all three response loops when the device keeps sending informational frames.\<close>

definition too_many_informational ::
  "response list \<Rightarrow> protocol_phase \<Rightarrow> transfer_certainty \<Rightarrow> protocol_error" where
  "too_many_informational informational phase outbound_certainty =
     (protocol_error_of PE_TooManyInformationalResponses
        ''Fastboot device exceeded the informational response limit'')
       \<lparr>pe_informational := informational, pe_phase := phase,
        pe_outbound_certainty := outbound_certainty\<rparr>"

text \<open>A successful \<open>read_response_locked\<close> leaves the session as it is, so the loops go on with \<open>s\<close>.\<close>

function read_terminal_locked ::
  "'w transport_ops \<Rightarrow> response list \<Rightarrow> protocol_phase \<Rightarrow> transfer_certainty \<Rightarrow>
   (command_result, 'w) step" where
  "read_terminal_locked T informational phase outbound_certainty s w =
     (case read_response_locked T phase outbound_certainty informational s w of
        (Inl e, s', w') \<Rightarrow> (Inl e, s', w')
      | (Inr r, s', w') \<Rightarrow>
          if is_informational r then
            if length informational \<ge> max_informational_responses (options s) then
              poison_locked (too_many_informational informational phase outbound_certainty) s w'
            else read_terminal_locked T (informational @ [r]) phase outbound_certainty s w'
          else if resp_kind r = Okay \<or> resp_kind r = Fail then
            (Inr (command_result_of r informational phase outbound_certainty),
             s\<lparr>state := SS_Ready\<rparr>, w')
          else
            poison_locked ((protocol_error_of PE_UnexpectedResponse
              ''Fastboot DATA response is not valid in this session state'')
              \<lparr>pe_informational := informational, pe_phase := phase,
               pe_outbound_certainty := outbound_certainty\<rparr>) s w')"
  by pat_completeness auto
termination
  by (relation "measure (\<lambda>(T, informational, phase, outbound_certainty, s, w).
        max_informational_responses (options s) - length informational)") auto

section \<open>Receiving data from the device\<close>

text \<open>
  The first loop of \<^verbatim>\<open>receive_locked\<close> and \<^verbatim>\<open>download_locked\<close> reads the initial response. It ends the
  operation (an error, or a result when the device refuses) or yields the announced size and the
  informational responses so far.
\<close>

datatype initial_outcome = Initial_final command_result | Initial_data nat "response list"

definition initial_error ::
  "protocol_error_code \<Rightarrow> string \<Rightarrow> response list \<Rightarrow> protocol_error" where
  "initial_error code message informational =
     (protocol_error_of code message)
       \<lparr>pe_informational := informational, pe_phase := InitialResponse,
        pe_outbound_certainty := FullyTransferred\<rparr>"

function receive_initial_loop ::
  "'w transport_ops \<Rightarrow> nat \<Rightarrow> response list \<Rightarrow> (initial_outcome, 'w) step" where
  "receive_initial_loop T maximum_bytes informational s w =
     (case read_response_locked T InitialResponse FullyTransferred informational s w of
        (Inl e, s', w') \<Rightarrow> (Inl e, s', w')
      | (Inr r, s', w') \<Rightarrow>
          if is_informational r then
            if length informational \<ge> max_informational_responses (options s) then
              poison_locked (too_many_informational informational InitialResponse
                FullyTransferred) s w'
            else receive_initial_loop T maximum_bytes (informational @ [r]) s w'
          else if resp_kind r = Fail then
            (Inr (Initial_final (command_result_of r informational InitialResponse
               FullyTransferred)), s\<lparr>state := SS_Ready\<rparr>, w')
          else if resp_kind r = Okay then
            (Inl (initial_error PE_UnexpectedResponse
               ''Fastboot receive command completed without a DATA response'' informational),
             s\<lparr>state := SS_Ready\<rparr>, w')
          else (case (resp_kind r, resp_data_size r) of
              (Data, Some announced_size) \<Rightarrow>
                if announced_size = 0 \<or> announced_size > maximum_bytes then
                  poison_locked
                    ((if announced_size = 0 then
                        initial_error PE_UnexpectedResponse
                          ''Fastboot receive DATA size must not be zero'' informational
                      else
                        initial_error PE_DataLengthMismatch
                          ''Fastboot receive DATA size exceeds the caller's limit'' informational)
                     \<lparr>pe_inbound_expected := Some announced_size, pe_inbound_transferred := 0,
                      pe_inbound_certainty := (if announced_size = 0 then NotTransferred
                                               else PartialOrUnknown)\<rparr>)
                    s (t_close T (t_request_cancel T w'))
                else (Inr (Initial_data announced_size informational), s, w')
            | _ \<Rightarrow>
                poison_locked (initial_error PE_UnexpectedResponse
                  ''Fastboot receive expected DATA or FAIL before the payload'' informational)
                  s w'))"
  by pat_completeness auto
termination
  by (relation "measure (\<lambda>(T, maximum_bytes, informational, s, w).
        max_informational_responses (options s) - length informational)") auto

definition receive_failure ::
  "'w transport_ops \<Rightarrow> nat \<Rightarrow> response list \<Rightarrow> protocol_error \<Rightarrow> nat \<Rightarrow> bool \<Rightarrow> ('a, 'w) step" where
  "receive_failure T announced_size informational e committed partial_or_unknown s w =
     poison_locked
       (e\<lparr>pe_informational := informational, pe_inbound_expected := Some announced_size,
          pe_inbound_transferred := committed,
          pe_inbound_certainty :=
            (if committed = announced_size \<and> \<not> partial_or_unknown then FullyTransferred
             else if committed = 0 \<and> \<not> partial_or_unknown then NotTransferred
             else PartialOrUnknown)\<rparr>)
       s (t_close T (t_request_cancel T w))"

definition phase_failure ::
  "'w transport_ops \<Rightarrow> nat \<Rightarrow> response list \<Rightarrow> protocol_error_code \<Rightarrow> string \<Rightarrow> transfer_result \<Rightarrow>
   nat \<Rightarrow> bool \<Rightarrow> ('a, 'w) step" where
  "phase_failure T announced_size informational code message io committed partial_or_unknown =
     receive_failure T announced_size informational
       (io_error_of code message io DataRead FullyTransferred) committed partial_or_unknown"

text \<open>The receive buffer is reused: a read overwrites its start and leaves the rest.\<close>

definition store_span :: "byte list \<Rightarrow> nat \<Rightarrow> byte list \<Rightarrow> byte list" where
  "store_span buffer requested data =
     take requested data @ drop (length (take requested data)) buffer"

text \<open>
  The checks on one chunk, up to and including its storage in the sink: \<open>Inr (buffer, n)\<close> when \<open>n\<close>
  octets were received and committed.
\<close>

definition receive_chunk ::
  "'w transport_ops \<Rightarrow> 'w transfer_sink \<Rightarrow> nat \<Rightarrow> response list \<Rightarrow> byte list \<Rightarrow> nat \<Rightarrow>
   (byte list \<times> nat, 'w) step" where
  "receive_chunk T sink announced_size informational buffer committed s w =
     (let requested = min (length buffer) (announced_size - committed);
          res = t_read_data T requested (io_timeout (options s)) w;
          transfer = fst (fst res); buffer' = store_span buffer requested (snd (fst res));
          w1 = snd res in
      if tr_transferred transfer > requested then
        phase_failure T announced_size informational PE_TransportContractViolation
          ''transport reported receiving more Fastboot data than requested'' transfer committed
          True s w1
      else if tr_status transfer \<noteq> TS_Ok then
        receive_failure T announced_size informational
          (transport_error_locked transfer ''data read'' DataRead FullyTransferred) committed
          (tr_transferred transfer \<noteq> 0 \<or> tr_certainty transfer = PartialOrUnknown) s w1
      else if tr_certainty transfer \<noteq> FullyTransferred \<or> tr_truncated transfer then
        phase_failure T announced_size informational PE_TransportContractViolation
          (if tr_truncated transfer then ''Fastboot inbound data exceeded the receive chunk''
           else ''successful Fastboot data read has uncertain transfer outcome'')
          transfer committed True s w1
      else if tr_transferred transfer = 0 then
        phase_failure T announced_size informational PE_ZeroProgress
          ''transport made no progress while receiving Fastboot data'' transfer committed False s w1
      else
        let payload = take (tr_transferred transfer) buffer';
            st = sink committed payload w1; stored = fst st; w2 = snd st in
        if tr_transferred stored > length payload then
          phase_failure T announced_size informational PE_TransportContractViolation
            ''Fastboot receive sink reported storing more bytes than provided'' stored committed
            True s w2
        else if tr_status stored \<noteq> TS_Ok then
          receive_failure T announced_size informational
            (transport_error_locked stored ''receive sink write'' DataRead FullyTransferred)
            (committed + tr_transferred stored)
            (tr_transferred stored \<noteq> length payload \<or>
             tr_certainty stored \<noteq> FullyTransferred) s w2
        else if tr_certainty stored \<noteq> FullyTransferred \<or> tr_truncated stored \<or>
                tr_transferred stored \<noteq> length payload then
          phase_failure T announced_size informational PE_TransportContractViolation
            ''Fastboot receive sink did not commit the complete data chunk'' stored
            (committed + tr_transferred stored) True s w2
        else (Inr (buffer', tr_transferred transfer), s, w2))"

definition observer_error_result :: "transport_status \<Rightarrow> transfer_result" where
  "observer_error_result status =
     default_transfer_result\<lparr>tr_status := status, tr_certainty := NotTransferred\<rparr>"

text \<open>The progress callback after a chunk; \<open>Inr\<close> means that the transfer goes on.\<close>

definition receive_progress ::
  "'w transport_ops \<Rightarrow> 'w progress_observer option \<Rightarrow> nat \<Rightarrow> response list \<Rightarrow> nat \<Rightarrow>
   (unit, 'w) step" where
  "receive_progress T observer announced_size informational committed s w =
     (case observer of
        None \<Rightarrow> (Inr (), s, w)
      | Some obs \<Rightarrow>
          (case obs committed announced_size w of
             (Continue_transfer, w') \<Rightarrow> (Inr (), s, w')
           | (Observer_throws, w') \<Rightarrow>
               phase_failure T announced_size informational PE_TransportIo
                 ''Fastboot receive progress observer failed'' (observer_error_result TS_IoError)
                 committed (committed \<noteq> announced_size) s w'
           | (Cancel_transfer, w') \<Rightarrow>
               phase_failure T announced_size informational PE_TransportCancelled
                 ''Fastboot receive was cancelled by progress observer''
                 (observer_error_result TS_Cancelled)
                 committed (committed \<noteq> announced_size) s w'))"

lemma poison_locked_not_Inr [simp]: "poison_locked e s w \<noteq> (Inr x, s', w')"
  by (simp add: poison_locked_def)

lemma receive_failure_not_Inr [simp]: "receive_failure T n info e c p s w \<noteq> (Inr x, s', w')"
  by (simp add: receive_failure_def)

lemma phase_failure_not_Inr [simp]: "phase_failure T n info code msg io c p s w \<noteq> (Inr x, s', w')"
  by (simp add: phase_failure_def)

lemma receive_chunk_progress:
  assumes "receive_chunk T sink announced_size informational buffer committed s w =
             (Inr (b, n), s', w')"
  shows "0 < n \<and> n \<le> announced_size - committed \<and> s' = s"
proof -
  define requested where "requested = min (length buffer) (announced_size - committed)"
  obtain transfer data w1 where rd:
    "t_read_data T requested (io_timeout (options s)) w = ((transfer, data), w1)"
    by (metis prod.collapse)
  define payload where
    "payload = take (tr_transferred transfer) (store_span buffer requested data)"
  have "\<not> tr_transferred transfer > requested \<and> tr_transferred transfer \<noteq> 0 \<and>
        n = tr_transferred transfer \<and> s' = s"
    using assms
    unfolding receive_chunk_def Let_def requested_def [symmetric] rd fst_conv snd_conv
      payload_def [symmetric]
    by (auto split: if_split_asm)
  then show ?thesis by (simp add: requested_def not_less)
qed

lemma receive_progress_session:
  "receive_progress T observer announced_size informational committed s w = (Inr u, s', w') \<Longrightarrow>
   s' = s"
  by (simp add: receive_progress_def split: option.splits prod.splits observer_outcome.splits)

text \<open>The loop ends when everything announced is committed.\<close>

function receive_data_loop ::
  "'w transport_ops \<Rightarrow> 'w transfer_sink \<Rightarrow> 'w progress_observer option \<Rightarrow> nat \<Rightarrow> response list \<Rightarrow>
   byte list \<Rightarrow> nat \<Rightarrow> (nat, 'w) step" where
  "receive_data_loop T sink observer announced_size informational buffer committed s w =
     (if committed < announced_size then
        (case receive_chunk T sink announced_size informational buffer committed s w of
           (Inl e, s', w') \<Rightarrow> (Inl e, s', w')
         | (Inr (buffer', n), s', w') \<Rightarrow>
             (case receive_progress T observer announced_size informational (committed + n) s' w' of
                (Inl e, s'', w'') \<Rightarrow> (Inl e, s'', w'')
              | (Inr u, s'', w'') \<Rightarrow>
                  receive_data_loop T sink observer announced_size informational buffer'
                    (committed + n) s'' w''))
      else (Inr committed, s, w))"
  by pat_completeness auto
termination
  by (relation "measure (\<lambda>(T, sink, observer, announced_size, informational, buffer, committed, s, w).
        announced_size - committed)") (auto dest!: receive_chunk_progress [OF sym])

text \<open>After an accepted \<open>DATA\<close> response: the buffer, the data phase and the final response.\<close>

definition receive_payload ::
  "'w transport_ops \<Rightarrow> 'w transfer_sink \<Rightarrow> 'w progress_observer option \<Rightarrow> nat \<Rightarrow> response list \<Rightarrow>
   (command_result, 'w) step" where
  "receive_payload T sink observer announced_size informational s w =
     (let buffer_size = min (receive_chunk_bytes (options s)) announced_size in
      if \<not> allocator s buffer_size then
        poison_locked
          ((protocol_error_of PE_TransportIo
              ''allocating the bounded Fastboot receive buffer failed'')
            \<lparr>pe_informational := informational, pe_transport_status := TS_IoError,
             pe_phase := DataRead, pe_outbound_certainty := FullyTransferred,
             pe_inbound_expected := Some announced_size, pe_inbound_transferred := 0,
             pe_inbound_certainty := PartialOrUnknown\<rparr>)
          s (t_close T (t_request_cancel T w))
      else
        (case receive_data_loop T sink observer announced_size informational
                (replicate buffer_size 0) 0 (s\<lparr>state := SS_ReceivingData\<rparr>) w of
           (Inl e, s4, w4) \<Rightarrow> (Inl e, s4, w4)
         | (Inr committed, s4, w4) \<Rightarrow>
             (case read_terminal_locked T informational FinalResponse FullyTransferred
                     (s4\<lparr>state := SS_AwaitingResponse\<rparr>) w4 of
                (Inl e, s5, w5) \<Rightarrow>
                  (Inl (e\<lparr>pe_inbound_expected := Some announced_size,
                           pe_inbound_transferred := committed,
                           pe_inbound_certainty := FullyTransferred\<rparr>), s5, w5)
              | (Inr r, s5, w5) \<Rightarrow>
                  (Inr (r\<lparr>cr_inbound_expected := Some announced_size,
                           cr_inbound_transferred := committed,
                           cr_inbound_certainty := FullyTransferred\<rparr>), s5, w5))))"

definition receive_exchange ::
  "'w transport_ops \<Rightarrow> 'w transfer_sink \<Rightarrow> nat \<Rightarrow> 'w progress_observer option \<Rightarrow>
   (command_result, 'w) step" where
  "receive_exchange T sink maximum_bytes observer s w =
     (case receive_initial_loop T maximum_bytes [] (s\<lparr>state := SS_AwaitingResponse\<rparr>) w of
        (Inl e, s3, w3) \<Rightarrow> (Inl e, s3, w3)
      | (Inr (Initial_final r), s3, w3) \<Rightarrow> (Inr r, s3, w3)
      | (Inr (Initial_data announced_size informational), s3, w3) \<Rightarrow>
          receive_payload T sink observer announced_size informational s3 w3)"

definition receive_locked ::
  "string \<Rightarrow> 'w transfer_sink \<Rightarrow> nat \<Rightarrow> 'w progress_observer option \<Rightarrow> (command_result, 'w) step"
  where
  "receive_locked command_text sink maximum_bytes observer s w =
     (case begin_locked command_text s w of
        (Inl e, s1, w1) \<Rightarrow> (Inl e, s1, w1)
      | (Inr T, s1, w1) \<Rightarrow>
          (case write_exact_locked T (string_bytes command_text) CommandWrite
                  (s1\<lparr>state := SS_WritingCommand\<rparr>) w1 of
             (Inl e, s2, w2) \<Rightarrow> (Inl e, s2, w2)
           | (Inr _, s2, w2) \<Rightarrow> receive_exchange T sink maximum_bytes observer s2 w2))"

section \<open>Downloading data to the device\<close>

function download_initial_loop ::
  "'w transport_ops \<Rightarrow> nat \<Rightarrow> response list \<Rightarrow> (initial_outcome, 'w) step" where
  "download_initial_loop T sz informational s w =
     (case read_response_locked T InitialResponse FullyTransferred informational s w of
        (Inl e, s', w') \<Rightarrow> (Inl e, s', w')
      | (Inr r, s', w') \<Rightarrow>
          if is_informational r then
            if length informational \<ge> max_informational_responses (options s) then
              poison_locked (too_many_informational informational InitialResponse
                FullyTransferred) s w'
            else download_initial_loop T sz (informational @ [r]) s w'
          else if resp_kind r = Fail then
            (Inr (Initial_final (command_result_of r informational InitialResponse
               FullyTransferred)), s\<lparr>state := SS_Ready\<rparr>, w')
          else if resp_kind r \<noteq> Data then
            poison_locked (initial_error PE_UnexpectedResponse
              ''Fastboot download expected DATA or FAIL before sending payload'' informational) s w'
          else if resp_data_size r \<noteq> Some sz then
            poison_locked (initial_error PE_DataLengthMismatch
              ''Fastboot device accepted a different download length'' informational) s w'
          else (Inr (Initial_data sz informational), s, w'))"
  by pat_completeness auto
termination
  by (relation "measure (\<lambda>(T, sz, informational, s, w).
        max_informational_responses (options s) - length informational)") auto

definition download_command :: "nat \<Rightarrow> string" where
  "download_command sz = ''download:'' @ format_08x sz"

text \<open>
  The payload is either octets in memory or a source. A source needs the streaming capability of
  the transport.
\<close>

datatype 'w payload = Payload_bytes "byte list"
  | Payload_source "'w transfer_source" "'w progress_observer option"

definition write_payload ::
  "'w transport_ops \<Rightarrow> nat \<Rightarrow> 'w payload \<Rightarrow> (unit, 'w) step" where
  "write_payload T sz payload s w =
     (case payload of
        Payload_source source observer \<Rightarrow>
          (case t_write_source T of
             None \<Rightarrow> (Inl (protocol_error_of PE_StreamingUnsupported
                 ''Fastboot transport does not support source streaming''), s, w)
           | Some write_source \<Rightarrow> write_source_locked write_source source sz observer s w)
      | Payload_bytes bytes \<Rightarrow> write_exact_locked T bytes DataWrite s w)"

definition streaming_missing :: "'w transport_ops \<Rightarrow> 'w payload \<Rightarrow> bool" where
  "streaming_missing T payload =
     (case payload of Payload_bytes _ \<Rightarrow> False
      | Payload_source _ _ \<Rightarrow> t_write_source T = None)"

text \<open>After the command: the initial response, the payload and the final response.\<close>

definition download_exchange ::
  "'w transport_ops \<Rightarrow> nat \<Rightarrow> 'w payload \<Rightarrow> (command_result, 'w) step" where
  "download_exchange T sz payload s w =
     (case download_initial_loop T sz [] (s\<lparr>state := SS_AwaitingResponse\<rparr>) w of
        (Inl e, s3, w3) \<Rightarrow> (Inl e, s3, w3)
      | (Inr (Initial_final r), s3, w3) \<Rightarrow> (Inr r, s3, w3)
      | (Inr (Initial_data n informational), s3, w3) \<Rightarrow>
          (case write_payload T sz payload (s3\<lparr>state := SS_Downloading\<rparr>) w3 of
             (Inl e, s4, w4) \<Rightarrow> poison_locked (with_informational e informational) s4 w4
           | (Inr _, s4, w4) \<Rightarrow>
               read_terminal_locked T informational FinalResponse FullyTransferred
                 (s4\<lparr>state := SS_AwaitingResponse\<rparr>) w4))"

definition download_locked :: "nat \<Rightarrow> 'w payload \<Rightarrow> (command_result, 'w) step" where
  "download_locked sz payload s w =
     (case begin_locked (download_command sz) s w of
        (Inl e, s1, w1) \<Rightarrow> (Inl e, s1, w1)
      | (Inr T, s1, w1) \<Rightarrow>
          if streaming_missing T payload then
            (Inl (protocol_error_of PE_StreamingUnsupported
               ''Fastboot transport does not support source streaming''), s1, w1)
          else
            (case write_exact_locked T (string_bytes (download_command sz)) CommandWrite
                    (s1\<lparr>state := SS_WritingCommand\<rparr>) w1 of
               (Inl e, s2, w2) \<Rightarrow> (Inl e, s2, w2)
             | (Inr _, s2, w2) \<Rightarrow> download_exchange T sz payload s2 w2))"

section \<open>Entry points\<close>

definition command :: "string \<Rightarrow> (command_result, 'w) step" where
  "command command_text s w =
     (if mutex_held s then (Inl session_busy_error, s, w)
      else
     (case begin_locked command_text s w of
        (Inl e, s1, w1) \<Rightarrow> (Inl e, s1, w1)
      | (Inr T, s1, w1) \<Rightarrow>
     (case write_exact_locked T (string_bytes command_text) CommandWrite
             (s1\<lparr>state := SS_WritingCommand\<rparr>) w1 of
        (Inl e, s2, w2) \<Rightarrow> (Inl e, s2, w2)
      | (Inr _, s2, w2) \<Rightarrow>
          read_terminal_locked T [] FinalResponse FullyTransferred
            (s2\<lparr>state := SS_AwaitingResponse\<rparr>) w2)))"

definition download :: "byte list \<Rightarrow> (command_result, 'w) step" where
  "download bytes s w =
     (if mutex_held s then (Inl session_busy_error, s, w)
      else if length bytes > u32_max then
        (Inl (protocol_error_of PE_InvalidArgument
           ''Fastboot download size exceeds the protocol's 32-bit limit''), s, w)
      else download_locked (length bytes) (Payload_bytes bytes) s w)"

definition download_source ::
  "'w transfer_source option \<Rightarrow> 'w progress_observer option \<Rightarrow> (command_result, 'w) step" where
  "download_source source_opt observer s w =
     (if mutex_held s then (Inl session_busy_error, s, w)
      else case source_opt of
        None \<Rightarrow> (Inl (protocol_error_of PE_InvalidArgument
                   ''Fastboot download source is null''), s, w)
      | Some source \<Rightarrow>
          if src_size source > u32_max then
            (Inl (protocol_error_of PE_InvalidArgument
               ''Fastboot download size exceeds the protocol's 32-bit limit''), s, w)
          else download_locked (src_size source) (Payload_source source observer) s w)"

definition receive_to_sink ::
  "string \<Rightarrow> 'w transfer_sink option \<Rightarrow> nat \<Rightarrow> 'w progress_observer option \<Rightarrow>
   (command_result, 'w) step" where
  "receive_to_sink command_text sink_opt maximum_bytes observer s w =
     (if mutex_held s then (Inl session_busy_error, s, w)
      else case sink_opt of
        None \<Rightarrow> (Inl (protocol_error_of PE_InvalidArgument
                   ''Fastboot receive sink is null''), s, w)
      | Some sink \<Rightarrow>
          if maximum_bytes = 0 then
            (Inl (protocol_error_of PE_InvalidArgument
               ''Fastboot receive maximum must not be zero''), s, w)
          else receive_locked command_text sink maximum_bytes observer s w)"

definition request_cancel :: "'w session \<Rightarrow> 'w \<Rightarrow> 'w session \<times> 'w" where
  "request_cancel s w =
     (s\<lparr>cancellation_requested := True\<rparr>,
      case transport s of None \<Rightarrow> w | Some T \<Rightarrow> t_request_cancel T w)"

definition close :: "'w session \<Rightarrow> 'w \<Rightarrow> 'w session \<times> 'w" where
  "close s w =
     (if state s = SS_Closed then (s, w)
      else (s\<lparr>state := SS_Closed\<rparr>,
            case transport s of None \<Rightarrow> w | Some T \<Rightarrow> t_close T w))"

text \<open>
  \<open>configurable\<close> is what the \<^verbatim>\<open>dynamic_cast\<close> of the transport finds: its permit capability, if it
  has one.
\<close>

definition configure_transfer_permits ::
  "('p \<Rightarrow> 'c \<Rightarrow> 'w \<Rightarrow> bool \<times> 'w) option \<Rightarrow> 'p option \<Rightarrow> 'c \<Rightarrow> 'w session \<Rightarrow> 'w \<Rightarrow> bool \<times> 'w"
  where
  "configure_transfer_permits configurable provider config s w =
     (if mutex_held s \<or> state s \<noteq> SS_Ready then (False, w)
      else case provider of
        None \<Rightarrow> (False, w)
      | Some p \<Rightarrow> (case configurable of None \<Rightarrow> (False, w) | Some f \<Rightarrow> f p config w))"

declare write_exact_loop.simps [simp del]
declare read_terminal_locked.simps [simp del]
declare receive_initial_loop.simps [simp del]
declare receive_data_loop.simps [simp del]
declare download_initial_loop.simps [simp del]

end
