(* ===== verification/Session_Contract.thy ===== *)
theory Session_Contract
  imports Fastboot_Session
begin

text \<open>
  The contract every entry point of \<^verbatim>\<open>FastbootSession\<close> keeps, as the locale \<open>session_operation\<close>,
  and its consequences for any sequence of calls: transient states never leak, a poisoned or closed
  session never touches its transport again, and a success always leaves the session ready.
\<close>

section \<open>Session changes of the private steps\<close>

abbreviation poisoned_by :: "protocol_error \<Rightarrow> 'w session \<Rightarrow> 'w session" where
  "poisoned_by e s \<equiv> s\<lparr>state := SS_Poisoned, poison_error := Some e\<rparr>"

text \<open>A step either keeps the session and succeeds, or poisons it with the error it returns.\<close>

definition keeps_or_poisons :: "'w session \<Rightarrow> (protocol_error + 'a) \<times> 'w session \<times> 'w \<Rightarrow> bool" where
  "keeps_or_poisons s out =
     (case out of (Inl e, s', _) \<Rightarrow> s' = poisoned_by e s | (Inr _, s', _) \<Rightarrow> s' = s)"

lemma keeps_or_poisons_poison [simp]: "keeps_or_poisons s (poison_locked e s w)"
  by (simp add: keeps_or_poisons_def poison_locked_def)

lemma keeps_or_poisons_Inr [simp]: "keeps_or_poisons s (Inr x, s, w)"
  by (simp add: keeps_or_poisons_def)

lemma keeps_or_poisons_D:
  assumes "keeps_or_poisons s (r, s', w')"
  shows "r = Inr x \<Longrightarrow> s' = s" and "r = Inl e \<Longrightarrow> s' = poisoned_by e s"
  using assms by (auto simp: keeps_or_poisons_def)

lemma keeps_or_poisons_if [simp]:
  "keeps_or_poisons s (if b then x else y) =
     ((b \<longrightarrow> keeps_or_poisons s x) \<and> (\<not> b \<longrightarrow> keeps_or_poisons s y))"
  by simp

lemma write_exact_loop_session: "keeps_or_poisons s (write_exact_loop T bytes phase offset s w)"
proof (induction T bytes phase offset s w rule: write_exact_loop.induct)
  case (1 T bytes phase offset s w)
  then show ?case
    by (subst write_exact_loop.simps) (simp add: Let_def)
qed

lemma write_exact_locked_session: "keeps_or_poisons s (write_exact_locked T bytes phase s w)"
  by (simp add: write_exact_locked_def write_exact_loop_session)

lemma write_source_locked_session:
  "keeps_or_poisons s (write_source_locked write_source source n observer s w)"
  by (simp add: write_source_locked_def Let_def)

lemma read_response_locked_session:
  "keeps_or_poisons s (read_response_locked T phase certainty informational s w)"
  by (simp add: read_response_locked_def Let_def split: sum.split)

lemma receive_chunk_session:
  "keeps_or_poisons s (receive_chunk T sink n informational buffer committed s w)"
  by (simp only: receive_chunk_def Let_def phase_failure_def receive_failure_def
      keeps_or_poisons_if keeps_or_poisons_poison keeps_or_poisons_Inr simp_thms)

lemma receive_progress_keeps:
  "keeps_or_poisons s (receive_progress T observer n informational committed s w)"
  by (simp add: receive_progress_def phase_failure_def receive_failure_def
      split: option.split prod.split observer_outcome.split)

text \<open>
  A step either ends with an \<open>OKAY\<close> or \<open>FAIL\<close> and leaves the session ready, or poisons it with its
  error.
\<close>

definition readies_or_poisons ::
  "'w session \<Rightarrow> (protocol_error + command_result) \<times> 'w session \<times> 'w \<Rightarrow> bool" where
  "readies_or_poisons s out =
     (case out of
        (Inl e, s', _) \<Rightarrow> s' = poisoned_by e s
      | (Inr r, s', _) \<Rightarrow> s' = s\<lparr>state := SS_Ready\<rparr> \<and> resp_kind (cr_terminal r) \<in> {Okay, Fail})"

lemma readies_or_poisons_poison [simp]: "readies_or_poisons s (poison_locked e s w)"
  by (simp add: readies_or_poisons_def poison_locked_def)

lemma read_terminal_locked_session:
  "readies_or_poisons s (read_terminal_locked T informational phase certainty s w)"
proof (induction T informational phase certainty s w rule: read_terminal_locked.induct)
  case (1 T informational phase certainty s w)
  obtain r s' w' where rd:
    "read_response_locked T phase certainty informational s w = (r, s', w')"
    by (metis prod.collapse)
  with read_response_locked_session [of s T phase certainty informational w]
  have kp: "keeps_or_poisons s (r, s', w')" by simp
  show ?case
  proof (cases r)
    case (Inl e)
    with rd kp show ?thesis
      by (simp add: read_terminal_locked.simps [of T informational] keeps_or_poisons_def
          readies_or_poisons_def)
  next
    case (Inr resp)
    with rd 1 [OF rd [symmetric]] show ?thesis
      by (simp add: read_terminal_locked.simps [of T informational phase certainty s w])
        (auto simp: readies_or_poisons_def command_result_of_def)
  qed
qed

lemma receive_data_loop_session:
  "keeps_or_poisons s (receive_data_loop T sink observer n informational buffer committed s w)"
proof (induction T sink observer n informational buffer committed s w
       rule: receive_data_loop.induct)
  case (1 T sink observer n informational buffer committed s w)
  obtain r s1 w1 where ch:
    "receive_chunk T sink n informational buffer committed s w = (r, s1, w1)"
    by (metis prod.collapse)
  with receive_chunk_session [of s T sink n informational buffer committed w]
  have kp1: "keeps_or_poisons s (r, s1, w1)" by simp
  show ?case
  proof (cases "committed < n")
    case False
    then show ?thesis by (subst receive_data_loop.simps) simp
  next
    case True
    show ?thesis
    proof (cases r)
      case (Inl e)
      with True ch kp1 show ?thesis
        by (subst receive_data_loop.simps) (simp add: keeps_or_poisons_def)
    next
      case (Inr res)
      obtain b k where res: "res = (b, k)" by fastforce
      with Inr kp1 have s1: "s1 = s" by (simp add: keeps_or_poisons_def)
      obtain q s2 w2 where pr:
        "receive_progress T observer n informational (committed + k) s1 w1 = (q, s2, w2)"
        by (metis prod.collapse)
      with receive_progress_keeps [of s1 T observer n informational "committed + k" w1]
      have kp2: "keeps_or_poisons s1 (q, s2, w2)" by simp
      show ?thesis
      proof (cases q)
        case (Inl e)
        with True ch Inr res pr kp2 s1 show ?thesis
          by (subst receive_data_loop.simps) (simp add: keeps_or_poisons_def)
      next
        case (Inr u)
        with kp2 s1 have "s2 = s" by (simp add: keeps_or_poisons_def)
        with "1.IH" [OF True ch [symmetric] \<open>r = Inr res\<close> res [symmetric] refl pr [symmetric] Inr refl]
          True ch \<open>r = Inr res\<close> res pr Inr s1
        show ?thesis
          by (subst receive_data_loop.simps) simp
      qed
    qed
  qed
qed

text \<open>
  The initial-response loops: \<open>soft\<close> says whether an unexpected \<open>OKAY\<close> is reported without poisoning
  the session, as \<open>receive_locked\<close> does.
\<close>

definition initial_contract ::
  "bool \<Rightarrow> 'w session \<Rightarrow> (protocol_error + initial_outcome) \<times> 'w session \<times> 'w \<Rightarrow> bool" where
  "initial_contract soft s out =
     (case out of
        (Inl e, s', _) \<Rightarrow> s' = poisoned_by e s \<or>
          (soft \<and> pe_code e = PE_UnexpectedResponse \<and> s' = s\<lparr>state := SS_Ready\<rparr>)
      | (Inr (Initial_final r), s', _) \<Rightarrow> s' = s\<lparr>state := SS_Ready\<rparr> \<and> resp_kind (cr_terminal r) = Fail
      | (Inr (Initial_data _ _), s', _) \<Rightarrow> s' = s)"

lemma initial_contract_poison [simp]: "initial_contract soft s (poison_locked e s w)"
  by (simp add: initial_contract_def poison_locked_def)

lemma initial_contract_data [simp]: "initial_contract soft s (Inr (Initial_data n i), s, w)"
  by (simp add: initial_contract_def)

lemma receive_initial_loop_session:
  "initial_contract True s (receive_initial_loop T maximum_bytes informational s w)"
proof (induction T maximum_bytes informational s w rule: receive_initial_loop.induct)
  case (1 T maximum_bytes informational s w)
  obtain r s' w' where rd:
    "read_response_locked T InitialResponse FullyTransferred informational s w = (r, s', w')"
    by (metis prod.collapse)
  with read_response_locked_session [of s T InitialResponse FullyTransferred informational w]
  have kp: "keeps_or_poisons s (r, s', w')" by simp
  show ?case
  proof (cases r)
    case (Inl e)
    with rd kp show ?thesis
      by (subst receive_initial_loop.simps) (simp add: keeps_or_poisons_def initial_contract_def)
  next
    case (Inr resp)
    with rd 1 [OF rd [symmetric]] show ?thesis
      by (subst receive_initial_loop.simps)
        (simp split: response_kind.split option.split,
         simp add: initial_contract_def initial_error_def protocol_error_of_def
           command_result_of_def)
  qed
qed

lemma download_initial_loop_session:
  "initial_contract False s (download_initial_loop T n informational s w)"
proof (induction T n informational s w rule: download_initial_loop.induct)
  case (1 T n informational s w)
  obtain r s' w' where rd:
    "read_response_locked T InitialResponse FullyTransferred informational s w = (r, s', w')"
    by (metis prod.collapse)
  with read_response_locked_session [of s T InitialResponse FullyTransferred informational w]
  have kp: "keeps_or_poisons s (r, s', w')" by simp
  show ?case
  proof (cases r)
    case (Inl e)
    with rd kp show ?thesis
      by (subst download_initial_loop.simps) (simp add: keeps_or_poisons_def initial_contract_def)
  next
    case (Inr resp)
    with rd 1 [OF rd [symmetric]] show ?thesis
      by (subst download_initial_loop.simps)
        (simp, simp add: initial_contract_def command_result_of_def)
  qed
qed

lemma write_payload_session:
  "\<not> streaming_missing T payload \<Longrightarrow> keeps_or_poisons s (write_payload T n payload s w)"
  by (auto simp: write_payload_def streaming_missing_def write_source_locked_session
      write_exact_locked_session split: payload.splits)

section \<open>The contract of an entry point\<close>

text \<open>
  \<open>run s w\<close> is one call. While another operation holds the session, or when the session is not
  ready, the call fails and touches nothing. Otherwise a result leaves the session as it was; an
  error either poisons it with an error of the same code, or leaves it as it was: then nothing was
  sent, unless the device answered \<open>OKAY\<close> to a receive command.
\<close>

locale session_operation =
  fixes run :: "(command_result, 'w) step"
  assumes unavailable:
      "mutex_held s \<or> state s \<noteq> SS_Ready \<Longrightarrow> \<exists>e. run s w = (Inl e, s, w)"
    and ready_result:
      "run s w = (Inr r, s', w') \<Longrightarrow> s' = s \<and> resp_kind (cr_terminal r) \<in> {Okay, Fail}"
    and ready_error:
      "run s w = (Inl e, s', w') \<Longrightarrow>
         s' = s \<and> (w' = w \<or> pe_code e = PE_UnexpectedResponse) \<or>
         (\<exists>e'. s' = poisoned_by e' s \<and> pe_code e' = pe_code e \<and> state s = SS_Ready)"

text \<open>The sessions a caller can see between calls.\<close>

definition session_inv :: "'w session \<Rightarrow> bool" where
  "session_inv s \<longleftrightarrow>
     state s \<in> {SS_Ready, SS_Poisoned, SS_Closed} \<and>
     (state s = SS_Ready \<longrightarrow> poison_error s = None) \<and>
     (state s = SS_Poisoned \<longrightarrow> poison_error s \<noteq> None)"

context session_operation
begin

lemma run_inv: "session_inv s \<Longrightarrow> run s w = (r, s', w') \<Longrightarrow> session_inv s'"
  by (cases r) (auto simp: session_inv_def dest: ready_result ready_error)

lemma run_result_ready:
  assumes "run s w = (Inr r, s', w')"
  shows "state s = SS_Ready" and "\<not> mutex_held s" and "s' = s"
  using assms unavailable [of s w] ready_result [OF assms] by auto

lemma run_dead:
  "state s \<in> {SS_Poisoned, SS_Closed} \<Longrightarrow> run s w = (r, s', w') \<Longrightarrow> s' = s \<and> w' = w \<and> (\<exists>e. r = Inl e)"
  using unavailable [of s w] by auto

lemma run_iterated_dead:
  assumes "state s \<in> {SS_Poisoned, SS_Closed}"
  shows "((\<lambda>(s, w). snd (run s w)) ^^ n) (s, w) = (s, w)"
proof (induction n)
  case (Suc n)
  then show ?case using assms unavailable [of s w] by auto
qed simp

end

section \<open>The four entry points keep the contract\<close>

lemma begin_locked_Inr:
  assumes "begin_locked cmd s w = (Inr T, s', w')"
  shows "s' = s" and "w' = w" and "state s = SS_Ready" and "transport s = Some T"
    and "cmd \<noteq> []" and "length cmd \<le> max_command_bytes (options s)"
    and "\<not> cancellation_requested s" and "\<forall>c \<in> set cmd. \<not> forbidden_command_char c"
  using assms
  by (auto simp: begin_locked_def find_None_iff split: if_splits option.splits)

lemma begin_locked_Inl:
  "begin_locked cmd s w = (Inl e, s', w') \<Longrightarrow>
     w' = w \<and> (s' = s \<or> s' = poisoned_by e s \<and> state s = SS_Ready)"
  by (auto simp: begin_locked_def poison_locked_def split: if_splits option.splits)

lemma begin_locked_unavailable:
  "state s \<noteq> SS_Ready \<Longrightarrow> begin_locked cmd s w = (Inl (unavailable_error_locked s), s, w)"
  by (simp add: begin_locked_def)

lemma set_state_Ready_idem: "state s = SS_Ready \<Longrightarrow> s\<lparr>state := SS_Ready\<rparr> = s"
  by (cases s) simp

text \<open>What one call may do once the validation has passed.\<close>

definition call_contract ::
  "'w session \<Rightarrow> 'w \<Rightarrow> (protocol_error + command_result) \<times> 'w session \<times> 'w \<Rightarrow> bool" where
  "call_contract s w out =
     (case out of
        (Inr r, s', w') \<Rightarrow> s' = s \<and> resp_kind (cr_terminal r) \<in> {Okay, Fail}
      | (Inl e, s', w') \<Rightarrow>
          s' = s \<and> (w' = w \<or> pe_code e = PE_UnexpectedResponse) \<or>
          (\<exists>e'. s' = poisoned_by e' s \<and> pe_code e' = pe_code e \<and> state s = SS_Ready))"

lemma call_contract_terminal:
  assumes "state s = SS_Ready"
  shows "call_contract s w (read_terminal_locked T informational phase certainty
           (s\<lparr>state := SS_AwaitingResponse\<rparr>) v)"
  using read_terminal_locked_session [of "s\<lparr>state := SS_AwaitingResponse\<rparr>" T informational phase
      certainty v] assms
  by (auto simp: call_contract_def readies_or_poisons_def set_state_Ready_idem
      split: prod.splits sum.splits)

lemma write_exact_locked_cases:
  obtains (sent) v where "write_exact_locked T bytes phase (s\<lparr>state := st\<rparr>) w = (Inr (), s\<lparr>state := st\<rparr>, v)"
    | (failed) e v where "write_exact_locked T bytes phase (s\<lparr>state := st\<rparr>) w = (Inl e, poisoned_by e s, v)"
proof -
  obtain r s' v where wr: "write_exact_locked T bytes phase (s\<lparr>state := st\<rparr>) w = (r, s', v)"
    by (metis prod.collapse)
  with write_exact_locked_session [of "s\<lparr>state := st\<rparr>" T bytes phase w]
  have "keeps_or_poisons (s\<lparr>state := st\<rparr>) (r, s', v)" by simp
  with wr that show thesis by (cases r) (auto simp: keeps_or_poisons_def)
qed

text \<open>
  The shape the operations share: validate, send the command, then run the rest of the exchange on
  the session in its writing state.
\<close>

lemma command_then_contract:
  assumes rest: "\<And>T v. transport s = Some T \<Longrightarrow> state s = SS_Ready \<Longrightarrow>
      call_contract s w (rest T (s\<lparr>state := SS_WritingCommand\<rparr>) v)"
  shows "call_contract s w
    (case begin_locked cmd s w of
       (Inl e, s1, w1) \<Rightarrow> (Inl e, s1, w1)
     | (Inr T, s1, w1) \<Rightarrow>
         (case write_exact_locked T (string_bytes cmd) CommandWrite
                 (s1\<lparr>state := SS_WritingCommand\<rparr>) w1 of
            (Inl e, s2, w2) \<Rightarrow> (Inl e, s2, w2)
          | (Inr _, s2, w2) \<Rightarrow> rest T s2 w2))"
proof -
  obtain r s1 w1 where bg: "begin_locked cmd s w = (r, s1, w1)" by (metis prod.collapse)
  show ?thesis
  proof (cases r)
    case (Inl e)
    with bg begin_locked_Inl [of cmd s w e s1 w1] show ?thesis
      by (auto simp: call_contract_def)
  next
    case (Inr T)
    note bgD = begin_locked_Inr [OF bg [unfolded Inr]]
    show ?thesis
    proof (cases rule: write_exact_locked_cases [where T = T and bytes = "string_bytes cmd"
          and phase = CommandWrite and s = s and st = SS_WritingCommand and w = w])
      case (sent v)
      with bg Inr bgD rest [OF bgD(4,3)] show ?thesis by simp
    next
      case (failed e v)
      with bg Inr bgD show ?thesis by (auto simp: call_contract_def)
    qed
  qed
qed

lemma command_contract: "call_contract s w (command cmd s w)"
proof -
  have "call_contract s w (if mutex_held s then (Inl session_busy_error, s, w) else
    (case begin_locked cmd s w of
       (Inl e, s1, w1) \<Rightarrow> (Inl e, s1, w1)
     | (Inr T, s1, w1) \<Rightarrow>
         (case write_exact_locked T (string_bytes cmd) CommandWrite
                 (s1\<lparr>state := SS_WritingCommand\<rparr>) w1 of
            (Inl e, s2, w2) \<Rightarrow> (Inl e, s2, w2)
          | (Inr _, s2, w2) \<Rightarrow> read_terminal_locked T [] FinalResponse FullyTransferred
              (s2\<lparr>state := SS_AwaitingResponse\<rparr>) w2)))"
    by (cases "mutex_held s", simp add: call_contract_def)
      (simp only: if_False, rule command_then_contract, simp add: call_contract_terminal)
  then show ?thesis by (simp add: command_def)
qed

lemma download_exchange_contract:
  assumes ready: "state s = SS_Ready" and ok: "\<not> streaming_missing T payload"
  shows "call_contract s w (download_exchange T n payload (s\<lparr>state := st\<rparr>) v)"
proof -
  let ?a = "s\<lparr>state := SS_AwaitingResponse\<rparr>" and ?d = "s\<lparr>state := SS_Downloading\<rparr>"
  obtain q s3 w3 where il: "download_initial_loop T n [] ?a v = (q, s3, w3)"
    by (metis prod.collapse)
  with download_initial_loop_session [of ?a T n "[]" v]
  have ic: "initial_contract False ?a (q, s3, w3)" by simp
  obtain p s4 w4 where wp: "write_payload T n payload ?d w3 = (p, s4, w4)"
    by (metis prod.collapse)
  with write_payload_session [OF ok, of ?d n w3]
  have kp: "keeps_or_poisons ?d (p, s4, w4)" by simp
  consider (err) e where "q = Inl e" | (final) cr where "q = Inr (Initial_final cr)"
    | (data) m informational where "q = Inr (Initial_data m informational)"
    by (metis initial_outcome.exhaust sum.exhaust)
  then show ?thesis
  proof cases
    case err
    with il ic ready show ?thesis
      by (auto simp: download_exchange_def call_contract_def initial_contract_def)
  next
    case final
    with il ic ready show ?thesis
      by (simp add: download_exchange_def call_contract_def initial_contract_def
          set_state_Ready_idem)
  next
    case (data m informational)
    then have s3: "s3 = ?a" using ic by (simp add: initial_contract_def)
    show ?thesis
    proof (cases p)
      case (Inl e)
      with data il wp kp s3 ready show ?thesis
        by (auto simp: download_exchange_def call_contract_def keeps_or_poisons_def
            poison_locked_def with_informational_def)
    next
      case (Inr u)
      with kp have "s4 = ?d" by (simp add: keeps_or_poisons_def)
      with data il wp Inr s3 call_contract_terminal [OF ready, of w T informational] show ?thesis
        by (simp add: download_exchange_def)
    qed
  qed
qed

lemma download_locked_contract: "call_contract s w (download_locked n payload s w)"
proof (cases "\<exists>T. transport s = Some T \<and> streaming_missing T payload")
  case True
  then obtain T where T: "transport s = Some T" "streaming_missing T payload" by blast
  obtain r s1 w1 where bg: "begin_locked (download_command n) s w = (r, s1, w1)"
    by (metis prod.collapse)
  with T begin_locked_Inl [of "download_command n" s w _ s1 w1]
    begin_locked_Inr [of "download_command n" s w _ s1 w1]
  show ?thesis by (cases r) (auto simp: download_locked_def call_contract_def)
next
  case False
  have "download_locked n payload s w =
    (case begin_locked (download_command n) s w of
       (Inl e, s1, w1) \<Rightarrow> (Inl e, s1, w1)
     | (Inr T, s1, w1) \<Rightarrow>
         (case write_exact_locked T (string_bytes (download_command n)) CommandWrite
                 (s1\<lparr>state := SS_WritingCommand\<rparr>) w1 of
            (Inl e, s2, w2) \<Rightarrow> (Inl e, s2, w2)
          | (Inr _, s2, w2) \<Rightarrow> download_exchange T n payload s2 w2))"
    using False
    by (auto simp: download_locked_def dest: begin_locked_Inr(4) split: sum.split prod.split)
  also have "call_contract s w \<dots>"
    using False by (intro command_then_contract download_exchange_contract) auto
  finally show ?thesis .
qed

lemma receive_payload_contract:
  assumes "state s = SS_Ready"
  shows "call_contract s w (receive_payload T sink observer n informational
           (s\<lparr>state := SS_AwaitingResponse\<rparr>) v)"
proof -
  let ?r = "s\<lparr>state := SS_ReceivingData\<rparr>" and ?a = "s\<lparr>state := SS_AwaitingResponse\<rparr>"
  let ?buffer = "replicate (min (receive_chunk_bytes (options s)) n) 0"
  obtain p s4 w4 where rl:
    "receive_data_loop T sink observer n informational ?buffer 0 ?r v = (p, s4, w4)"
    by (metis prod.collapse)
  with receive_data_loop_session [of ?r T sink observer n informational ?buffer 0 v]
  have kp: "keeps_or_poisons ?r (p, s4, w4)" by simp
  obtain q s5 w5 where rt: "read_terminal_locked T informational FinalResponse FullyTransferred
      ?a w4 = (q, s5, w5)"
    by (metis prod.collapse)
  have rp: "readies_or_poisons ?a (q, s5, w5)"
    using rt read_terminal_locked_session [of ?a T informational FinalResponse FullyTransferred w4]
    by simp
  show ?thesis
  proof (cases p)
    case (Inl e)
    with rl kp assms show ?thesis
      by (auto simp: receive_payload_def Let_def call_contract_def keeps_or_poisons_def
          poison_locked_def)
  next
    case (Inr c)
    with kp have "s4 = ?r" by (simp add: keeps_or_poisons_def)
    with rl rt Inr rp assms show ?thesis
      by (cases q) (auto simp: receive_payload_def Let_def call_contract_def
          readies_or_poisons_def poison_locked_def set_state_Ready_idem)
  qed
qed

lemma receive_exchange_contract:
  assumes ready: "state s = SS_Ready"
  shows "call_contract s w (receive_exchange T sink maximum_bytes observer (s\<lparr>state := st\<rparr>) v)"
proof -
  let ?a = "s\<lparr>state := SS_AwaitingResponse\<rparr>"
  obtain q s3 w3 where il: "receive_initial_loop T maximum_bytes [] ?a v = (q, s3, w3)"
    by (metis prod.collapse)
  with receive_initial_loop_session [of ?a T maximum_bytes "[]" v]
  have ic: "initial_contract True ?a (q, s3, w3)" by simp
  consider (err) e where "q = Inl e" | (final) cr where "q = Inr (Initial_final cr)"
    | (data) m informational where "q = Inr (Initial_data m informational)"
    by (metis initial_outcome.exhaust sum.exhaust)
  then show ?thesis
  proof cases
    case err
    with il ic ready show ?thesis
      by (auto simp: receive_exchange_def call_contract_def initial_contract_def
          set_state_Ready_idem)
  next
    case final
    with il ic ready show ?thesis
      by (simp add: receive_exchange_def call_contract_def initial_contract_def
          set_state_Ready_idem)
  next
    case (data m informational)
    with ic have "s3 = ?a" by (simp add: initial_contract_def)
    with data il receive_payload_contract [OF ready, of w T sink observer m informational w3]
    show ?thesis by (simp add: receive_exchange_def)
  qed
qed

lemma receive_locked_contract: "call_contract s w (receive_locked cmd sink maximum_bytes observer s w)"
  unfolding receive_locked_def
  by (rule command_then_contract) (rule receive_exchange_contract)

lemma download_contract: "call_contract s w (download bytes s w)"
  using download_locked_contract [of s w "length bytes" "Payload_bytes bytes"]
  by (auto simp: download_def call_contract_def)

lemma download_source_contract: "call_contract s w (download_source source observer s w)"
  using download_locked_contract [of s w "src_size (the source)"
      "Payload_source (the source) observer"]
  by (auto simp: download_source_def call_contract_def split: option.split)

lemma receive_to_sink_contract: "call_contract s w (receive_to_sink cmd sink n observer s w)"
  using receive_locked_contract [of s w cmd "the sink" n observer]
  by (auto simp: receive_to_sink_def call_contract_def split: option.split)

lemma session_operationI:
  assumes "\<And>s w. call_contract s w (run s w)"
    and "\<And>s w. mutex_held s \<or> state s \<noteq> SS_Ready \<Longrightarrow> \<exists>e. run s w = (Inl e, s, w)"
  shows "session_operation run"
proof
  fix s w r s' w'
  assume "run s w = (Inr r, s', w')"
  with assms(1) [of s w] show "s' = s \<and> resp_kind (cr_terminal r) \<in> {Okay, Fail}"
    by (simp add: call_contract_def)
next
  fix s w e s' w'
  assume "run s w = (Inl e, s', w')"
  with assms(1) [of s w] show "s' = s \<and> (w' = w \<or> pe_code e = PE_UnexpectedResponse) \<or>
      (\<exists>e'. s' = poisoned_by e' s \<and> pe_code e' = pe_code e \<and> state s = SS_Ready)"
    by (simp add: call_contract_def)
qed (rule assms(2))

interpretation command: session_operation "command cmd" for cmd
  by (rule session_operationI [OF command_contract])
    (auto simp: command_def begin_locked_unavailable)

interpretation download: session_operation "download bytes" for bytes
  by (rule session_operationI [OF download_contract])
    (auto simp: download_def download_locked_def begin_locked_unavailable)

interpretation download_source: session_operation "download_source source observer"
  for source observer
  by (rule session_operationI [OF download_source_contract])
    (auto simp: download_source_def download_locked_def begin_locked_unavailable
      split: option.splits)

interpretation receive_to_sink: session_operation "receive_to_sink cmd sink n observer"
  for cmd sink n observer
  by (rule session_operationI [OF receive_to_sink_contract])
    (auto simp: receive_to_sink_def receive_locked_def begin_locked_unavailable
      split: option.splits)

section \<open>Sequences of calls\<close>

text \<open>One public call, by any caller: the four operations, a cancellation, a close.\<close>

inductive session_step :: "'w session \<times> 'w \<Rightarrow> 'w session \<times> 'w \<Rightarrow> bool" where
  step_command: "command cmd s w = (r, s', w') \<Longrightarrow> session_step (s, w) (s', w')"
| step_download: "download bytes s w = (r, s', w') \<Longrightarrow> session_step (s, w) (s', w')"
| step_download_source:
    "download_source source observer s w = (r, s', w') \<Longrightarrow> session_step (s, w) (s', w')"
| step_receive:
    "receive_to_sink cmd sink n observer s w = (r, s', w') \<Longrightarrow> session_step (s, w) (s', w')"
| step_request_cancel: "request_cancel s w = (s', w') \<Longrightarrow> session_step (s, w) (s', w')"
| step_close: "close s w = (s', w') \<Longrightarrow> session_step (s, w) (s', w')"

inductive_cases session_stepE: "session_step (s, w) (s', w')"

lemmas operation_inv =
  command.run_inv download.run_inv download_source.run_inv receive_to_sink.run_inv

lemmas operation_dead =
  command.run_dead download.run_dead download_source.run_dead receive_to_sink.run_dead

lemma session_step_inv: "session_step (s, w) (s', w') \<Longrightarrow> session_inv s \<Longrightarrow> session_inv s'"
  by (erule session_stepE)
    (erule (1) operation_inv
      | auto simp: request_cancel_def close_def session_inv_def split: if_splits)+

lemma session_steps_inv:
  assumes "session_step\<^sup>*\<^sup>* c c'" and "session_inv (fst c)"
  shows "session_inv (fst c')"
  using assms
proof (induction rule: rtranclp_induct)
  case (step y z)
  then show ?case using session_step_inv [of "fst y" "snd y" "fst z" "snd z"] by simp
qed

lemma fastboot_session_inv: "session_inv (fastboot_session T opts alloc)"
  by (simp add: fastboot_session_def session_inv_def)

text \<open>
  A dead session stays dead, and what it can still do to its world is cancel and close the transport.
\<close>

definition dead :: "'w session \<Rightarrow> bool" where
  "dead s \<longleftrightarrow> state s \<in> {SS_Poisoned, SS_Closed}"

definition quiet_worlds :: "'w session \<Rightarrow> 'w \<Rightarrow> 'w set" where
  "quiet_worlds s w =
     (case transport s of None \<Rightarrow> {w} | Some T \<Rightarrow> {w, t_request_cancel T w, t_close T w})"

lemma session_step_dead:
  assumes "session_step (s, w) (s', w')" and "dead s"
  shows "dead s' \<and> transport s' = transport s \<and> w' \<in> quiet_worlds s w"
proof -
  have op: "dead s' \<and> transport s' = transport s \<and> w' \<in> quiet_worlds s w" if "s' = s \<and> w' = w"
    using that assms(2) by (simp add: quiet_worlds_def split: option.split)
  have dead: "state s \<in> {SS_Poisoned, SS_Closed}" using assms(2) by (simp add: dead_def)
  from assms(1) show ?thesis
    by (rule session_stepE)
      (drule operation_dead [OF dead], rule op, blast
        | use dead in \<open>auto simp: request_cancel_def close_def dead_def quiet_worlds_def
            split: if_splits option.split\<close>)+
qed

text \<open>The worlds that cancelling and closing a transport, in any order, can reach.\<close>

inductive quiet_reach :: "'w transport_ops option \<Rightarrow> 'w \<Rightarrow> 'w \<Rightarrow> bool" for T w where
  quiet_start: "quiet_reach T w w"
| quiet_cancel: "quiet_reach T w v \<Longrightarrow> T = Some ops \<Longrightarrow> quiet_reach T w (t_request_cancel ops v)"
| quiet_close: "quiet_reach T w v \<Longrightarrow> T = Some ops \<Longrightarrow> quiet_reach T w (t_close ops v)"

lemma quiet_reach_step:
  "quiet_reach (transport s) w v \<Longrightarrow> u \<in> quiet_worlds s v \<Longrightarrow> quiet_reach (transport s) w u"
  by (auto simp: quiet_worlds_def intro: quiet_reach.intros split: option.splits)

lemma session_steps_dead:
  assumes "session_step\<^sup>*\<^sup>* (s, w) c" and "dead s"
  shows "dead (fst c) \<and> transport (fst c) = transport s \<and> quiet_reach (transport s) w (snd c)"
  using assms(1)
proof (induction rule: rtranclp_induct)
  case base
  then show ?case using assms(2) by (simp add: quiet_start)
next
  case (step y z)
  then show ?case
    using session_step_dead [of "fst y" "snd y" "fst z" "snd z"] quiet_reach_step [of "fst y"]
    by auto
qed

section \<open>Properties\<close>

text \<open>
  C17. After any sequence of calls on a new session, whatever the transport, source, sink and
  observer do, the session is ready, poisoned or closed (the transient states of a running operation
  are never left behind), a ready session carries no poison error, and a poisoned one carries one.
\<close>

theorem session_reachable_states:
  assumes "session_step\<^sup>*\<^sup>* (fastboot_session T opts alloc, w) (s, w')"
  shows "state s \<in> {SS_Ready, SS_Poisoned, SS_Closed} \<and>
         (state s = SS_Ready \<longrightarrow> poison_error s = None) \<and>
         (state s = SS_Poisoned \<longrightarrow> poison_error s \<noteq> None)"
proof -
  from session_steps_inv [OF assms] have "session_inv s"
    using fastboot_session_inv [of T opts alloc] by simp
  then show ?thesis by (simp add: session_inv_def)
qed

text \<open>A session without a transport rejects a command and stays ready.\<close>

theorem session_reachable_states_witness:
  "\<exists>s. session_step\<^sup>*\<^sup>* (fastboot_session None default_session_options (\<lambda>n. True), ()) (s, ()) \<and>
     state s = SS_Closed \<and> state s \<in> {SS_Ready, SS_Poisoned, SS_Closed}"
proof -
  let ?s = "fastboot_session None default_session_options (\<lambda>n. True) :: unit session"
  have "close ?s () = (?s\<lparr>state := SS_Closed\<rparr>, ())"
    by (simp add: close_def fastboot_session_def)
  then have "session_step (?s, ()) (?s\<lparr>state := SS_Closed\<rparr>, ())" by (rule step_close)
  then have run: "session_step\<^sup>*\<^sup>* (?s, ()) (?s\<lparr>state := SS_Closed\<rparr>, ())" by (rule r_into_rtranclp)
  show ?thesis using run session_reachable_states [OF run] by auto
qed

text \<open>
  C1. Poisoning is final: once a session is poisoned or closed, no sequence of later calls makes it
  usable again, and all those calls together do to the outside is cancel and close the transport (no
  octet is written, no response is read).
\<close>

theorem poison_is_final:
  assumes "session_step\<^sup>*\<^sup>* (s, w) (s', w')" and "state s \<in> {SS_Poisoned, SS_Closed}"
  shows "state s' \<in> {SS_Poisoned, SS_Closed} \<and> quiet_reach (transport s) w w'"
  using session_steps_dead [OF assms(1)] assms(2) by (simp add: dead_def)

theorem poison_is_final_witness:
  "\<exists>s'. session_step\<^sup>*\<^sup>* ((fastboot_session (Some (logged two_byte_transport))
       default_session_options (\<lambda>n. True))\<lparr>state := SS_Poisoned\<rparr>, ((), [])) (s', ((), [Ev_request_cancel])) \<and>
     state s' \<in> {SS_Poisoned, SS_Closed}"
proof -
  let ?s = "(fastboot_session (Some (logged two_byte_transport)) default_session_options
     (\<lambda>n. True))\<lparr>state := SS_Poisoned\<rparr>"
  have "request_cancel ?s ((), []) = (?s\<lparr>cancellation_requested := True\<rparr>, ((), [Ev_request_cancel]))"
    by (simp add: request_cancel_def fastboot_session_def logged_def two_byte_transport_def)
  then have "session_step (?s, ((), [])) (?s\<lparr>cancellation_requested := True\<rparr>, ((), [Ev_request_cancel]))"
    by (rule step_request_cancel)
  then have run: "session_step\<^sup>*\<^sup>* (?s, ((), []))
      (?s\<lparr>cancellation_requested := True\<rparr>, ((), [Ev_request_cancel]))"
    by (rule r_into_rtranclp)
  have "state ?s \<in> {SS_Poisoned, SS_Closed}" by simp
  with run poison_is_final [OF run] show ?thesis by blast
qed

end
