(* ===== verification/Session_Wire.thy ===== *)
theory Session_Wire
  imports Session_Contract
begin

text \<open>
  What a session puts on the wire, and whether its errors tell the truth about it. The lemmas hold
  for every transport that meets the stream contract \<open>wire_transport\<close>; the properties at the end
  are about \<open>logged T\<close>, which meets it for every \<open>T\<close>.
\<close>

section \<open>Evidence\<close>

text \<open>
  The outbound certainty of an error is sound for \<open>k\<close> of \<open>n\<close> octets: \<open>NotTransferred\<close> means none of
  them, \<open>FullyTransferred\<close> all of them.
\<close>

definition sound_certainty :: "nat \<Rightarrow> nat \<Rightarrow> protocol_error \<Rightarrow> bool" where
  "sound_certainty n k e \<longleftrightarrow>
     (pe_outbound_certainty e = NotTransferred \<longrightarrow> k = 0) \<and>
     (pe_outbound_certainty e = FullyTransferred \<longrightarrow> k = n)"

text \<open>
  What the result of a download of \<open>n\<close> octets says when \<open>j\<close> of the \<open>c\<close> octets of the command and \<open>k\<close> of
  the payload have reached the device.
\<close>

definition download_evidence ::
  "nat \<Rightarrow> nat \<Rightarrow> nat \<Rightarrow> nat \<Rightarrow> protocol_error + command_result \<Rightarrow> bool" where
  "download_evidence c n j k r \<longleftrightarrow>
     (case r of
        Inr cr \<Rightarrow> j = c \<and>
          (cr_phase cr = InitialResponse \<and> resp_kind (cr_terminal cr) = Fail \<and> k = 0 \<or>
           cr_phase cr = FinalResponse \<and> k = n)
      | Inl e \<Rightarrow>
          (case pe_phase e of
             Validation \<Rightarrow> j = 0 \<and> k = 0
           | CommandWrite \<Rightarrow> k = 0 \<and> sound_certainty c j e
           | InitialResponse \<Rightarrow> j = c \<and> k = 0
           | DataWrite \<Rightarrow> j = c \<and> sound_certainty n k e
           | FinalResponse \<Rightarrow> j = c \<and> k = n
           | DataRead \<Rightarrow> False))"

text \<open>
  The one untruthful error: after a blind write the data phase is reported as \<open>NotTransferred\<close>.
\<close>

definition downgraded_error :: "bool \<Rightarrow> protocol_error + command_result \<Rightarrow> bool" where
  "downgraded_error blind_at_end r \<longleftrightarrow>
     blind_at_end \<and>
     (case r of Inl e \<Rightarrow> pe_phase e = DataWrite \<and> pe_outbound_certainty e = NotTransferred
      | Inr _ \<Rightarrow> False)"

lemma downgraded_error_False [simp]: "\<not> downgraded_error False r"
  by (simp add: downgraded_error_def)

lemma pe_error_fields [simp]:
  "pe_phase (protocol_error_of c m) = Validation"
  "pe_phase (io_error_of c m r ph oc) = ph"
  "pe_outbound_certainty (io_error_of c m r ph oc) = oc"
  "pe_phase (transport_error_locked r m ph oc) = ph"
  "pe_outbound_certainty (transport_error_locked r m ph oc) = oc"
  "pe_phase (with_informational e i) = pe_phase e"
  "pe_outbound_certainty (with_informational e i) = pe_outbound_certainty e"
  "pe_phase (malformed_response_error pe ph oc) = ph"
  "pe_outbound_certainty (malformed_response_error pe ph oc) = oc"
  "pe_phase (too_many_informational i ph oc) = ph"
  "pe_outbound_certainty (too_many_informational i ph oc) = oc"
  "pe_phase (initial_error c m i) = InitialResponse"
  "pe_outbound_certainty (initial_error c m i) = FullyTransferred"
  "cr_phase (command_result_of t i ph oc) = ph"
  "cr_terminal (command_result_of t i ph oc) = t"
  by (simp_all add: protocol_error_of_def io_error_of_def transport_error_locked_def
      with_informational_def malformed_response_error_def too_many_informational_def
      initial_error_def command_result_of_def)

lemma poison_locked_eq [simp]:
  "poison_locked e s w = (r, s', w') \<longleftrightarrow> r = Inl e \<and> s' = poisoned_by e s \<and> w' = w"
  by (auto simp: poison_locked_def)

lemma sound_certainty_with_informational [simp]:
  "sound_certainty n k (with_informational e i) = sound_certainty n k e"
  by (simp add: sound_certainty_def)

section \<open>Steps over a transport with the stream contract\<close>

context quiet_reads
begin

text \<open>Reading a response changes no observation; its errors keep the phase and the outbound certainty.\<close>

definition reads_only ::
  "protocol_phase \<Rightarrow> transfer_certainty \<Rightarrow> 'w \<Rightarrow> (protocol_error + 'r) \<times> 'w session \<times> 'w \<Rightarrow> bool" where
  "reads_only phase certainty w out \<longleftrightarrow>
     observed (snd (snd out)) = observed w \<and>
     (\<forall>e. fst out = Inl e \<longrightarrow> pe_phase e = phase \<and> pe_outbound_certainty e = certainty)"

lemma reads_only_poison:
  "observed w' = observed w \<Longrightarrow> pe_phase e = phase \<Longrightarrow> pe_outbound_certainty e = certainty \<Longrightarrow>
   reads_only phase certainty w (poison_locked e s w')"
  by (simp add: reads_only_def poison_locked_def)

lemma read_response_locked_wire:
  "reads_only phase certainty w (read_response_locked T phase certainty informational s w)"
proof -
  obtain q data v where rd:
    "t_read T (max_response_bytes (options s)) (io_timeout (options s)) w = ((q, data), v)"
    by (metis prod.collapse)
  have "observed v = observed w" by (rule read_keeps [OF rd])
  then show ?thesis
    by (auto simp: read_response_locked_def Let_def rd reads_only_poison reads_only_def
        poison_locked_def split: sum.split)
qed

lemma reads_only_bindD:
  assumes "reads_only phase certainty w (r, s', w')"
  shows "observed w' = observed w" and "r = Inl e \<Longrightarrow> pe_phase e = phase \<and> pe_outbound_certainty e = certainty"
  using assms by (auto simp: reads_only_def)

lemma reads_only_trans:
  "observed v = observed w \<Longrightarrow> reads_only phase certainty v out \<Longrightarrow> reads_only phase certainty w out"
  by (simp add: reads_only_def)

lemma read_terminal_locked_wire:
  "reads_only phase certainty w (read_terminal_locked T informational phase certainty s w) \<and>
   (\<forall>cr. fst (read_terminal_locked T informational phase certainty s w) = Inr cr \<longrightarrow>
      cr_phase cr = phase)"
proof (induction "max_informational_responses (options s) - length informational"
       arbitrary: informational w rule: less_induct)
  case less
  obtain r s' v where rd: "read_response_locked T phase certainty informational s w = (r, s', v)"
    by (metis prod.collapse)
  with read_response_locked_wire [of phase certainty w informational s]
  have ro: "reads_only phase certainty w (r, s', v)" by simp
  note D = reads_only_bindD [OF ro]
  show ?case
  proof (cases r)
    case (Inl e)
    with rd ro show ?thesis
      by (subst read_terminal_locked.simps, subst (2) read_terminal_locked.simps)
        (auto simp: reads_only_def)
  next
    case (Inr resp)
    have step: "read_terminal_locked T informational phase certainty s w =
       (if is_informational resp then
          if length informational \<ge> max_informational_responses (options s) then
            poison_locked (too_many_informational informational phase certainty) s v
          else read_terminal_locked T (informational @ [resp]) phase certainty s v
        else if resp_kind resp = Okay \<or> resp_kind resp = Fail then
          (Inr (command_result_of resp informational phase certainty), s\<lparr>state := SS_Ready\<rparr>, v)
        else
          poison_locked ((protocol_error_of PE_UnexpectedResponse
            ''Fastboot DATA response is not valid in this session state'')
            \<lparr>pe_informational := informational, pe_phase := phase,
             pe_outbound_certainty := certainty\<rparr>) s v)"
      using rd Inr by (subst read_terminal_locked.simps) simp
    show ?thesis
      using less.hyps [of "informational @ [resp]" v] D(1)
      by (auto simp: step reads_only_def poison_locked_def)
  qed
qed

lemma download_initial_loop_wire:
  "reads_only InitialResponse FullyTransferred w (download_initial_loop T n informational s w) \<and>
   (\<forall>cr. fst (download_initial_loop T n informational s w) = Inr (Initial_final cr) \<longrightarrow>
      cr_phase cr = InitialResponse)"
proof (induction "max_informational_responses (options s) - length informational"
       arbitrary: informational w rule: less_induct)
  case less
  obtain r s' v where rd:
    "read_response_locked T InitialResponse FullyTransferred informational s w = (r, s', v)"
    by (metis prod.collapse)
  with read_response_locked_wire [of InitialResponse FullyTransferred w informational s]
  have ro: "reads_only InitialResponse FullyTransferred w (r, s', v)" by simp
  note D = reads_only_bindD [OF ro]
  show ?case
  proof (cases r)
    case (Inl e)
    with rd ro show ?thesis
      by (subst download_initial_loop.simps, subst (2) download_initial_loop.simps)
        (auto simp: reads_only_def)
  next
    case (Inr resp)
    show ?thesis
      using less.hyps [of "informational @ [resp]" v] D(1) rd Inr
      by (subst download_initial_loop.simps, subst (2) download_initial_loop.simps)
        (auto simp: reads_only_def poison_locked_def)
  qed
qed

end

context wire_transport
begin

lemma write_exact_loop_wire:
  assumes "write_exact_loop T bytes phase offset s w = (r, s', w')" and "offset \<le> length bytes"
  shows "\<exists>k. offset \<le> k \<and> k \<le> length bytes \<and>
           wire w' = wire w @ take (k - offset) (drop offset bytes) \<and>
           (case r of Inr _ \<Rightarrow> k = length bytes
            | Inl e \<Rightarrow> pe_phase e = phase \<and> sound_certainty (length bytes) k e)"
  using assms
proof (induction "length bytes - offset" arbitrary: offset w rule: less_induct)
  case less
  let ?rest = "drop offset bytes"
  obtain q v where wr: "t_write T ?rest (io_timeout (options s)) w = (q, v)" by fastforce
  from write_appends [OF wr] obtain beyond where
    wire_v: "wire v = wire w @ take (octets_moved beyond q) ?rest" by blast
  define cert where "cert = aggregate_write_certainty offset (length ?rest) q"
  note loop = less.prems(1) [unfolded write_exact_loop.simps [of T bytes phase offset s w] wr
      Let_def fst_conv snd_conv cert_def [symmetric]]
  consider (finished) "\<not> offset < length bytes"
    | (failed) e where "offset < length bytes" "r = Inl e" "w' = v" "pe_phase e = phase"
        "pe_outbound_certainty e = cert \<or>
         tr_transferred q = 0 \<and> tr_certainty q = FullyTransferred \<and>
           pe_outbound_certainty e = (if offset = 0 then NotTransferred else PartialOrUnknown)"
    | (proceed) "offset < length bytes" "tr_transferred q \<le> length ?rest" "tr_transferred q \<noteq> 0"
        "tr_certainty q = FullyTransferred"
        "write_exact_loop T bytes phase (offset + tr_transferred q) s v = (r, s', w')"
    using loop by (auto split: if_split_asm)
  then show ?case
  proof cases
    case finished
    with loop less.prems(2) show ?thesis by auto
  next
    case failed
    let ?k = "min (length bytes) (offset + octets_moved beyond q)"
    have "sound_certainty (length bytes) ?k e"
      using failed(1,5)
      by (auto simp: sound_certainty_def cert_def aggregate_write_certainty_def octets_moved_def
          split: if_splits)
    with failed wire_v less.prems(2) show ?thesis
      by (intro exI [of _ ?k]) (auto simp: min_def)
  next
    case proceed
    let ?next = "offset + tr_transferred q"
    have "length bytes - ?next < length bytes - offset" and "?next \<le> length bytes"
      using proceed by auto
    from less.hyps [OF this(1) proceed(5) this(2)] obtain k where k: "?next \<le> k" "k \<le> length bytes"
      "wire w' = wire v @ take (k - ?next) (drop ?next bytes)"
      "case r of Inr _ \<Rightarrow> k = length bytes
       | Inl e \<Rightarrow> pe_phase e = phase \<and> sound_certainty (length bytes) k e"
      by blast
    have "wire w' = wire w @ take (k - offset) ?rest"
      using k(1,3) wire_v proceed(4) take_drop_split [of offset "tr_transferred q" k bytes]
      by (simp add: octets_moved_def)
    with k show ?thesis by (intro exI [of _ k]) auto
  qed
qed

lemma write_exact_locked_wire:
  assumes "write_exact_locked T bytes phase s w = (r, s', w')"
  shows "\<exists>k \<le> length bytes. wire w' = wire w @ take k bytes \<and>
           (case r of Inr _ \<Rightarrow> k = length bytes
            | Inl e \<Rightarrow> pe_phase e = phase \<and> sound_certainty (length bytes) k e)"
  using write_exact_loop_wire [OF assms [unfolded write_exact_locked_def]] by auto

end

section \<open>Downloads over a transport with the stream contract\<close>

text \<open>
  A payload that stands for the octets \<open>bytes\<close>: writing it appends a prefix of them to the wire, all of
  them on success, and its errors are truthful about how many, except a \<open>NotTransferred\<close> in a world
  that is \<open>excused\<close>.
\<close>

locale wire_payload = wire_transport T wire
  for T :: "'w transport_ops" and wire :: "'w \<Rightarrow> byte list" +
  fixes payload :: "'w payload" and bytes :: "byte list" and excused :: "'w \<Rightarrow> bool"
  assumes payload_wire: "write_payload T (length bytes) payload s w = (r, s', w') \<Longrightarrow>
      \<exists>k \<le> length bytes. wire w' = wire w @ take k bytes \<and>
        (case r of Inr _ \<Rightarrow> k = length bytes
         | Inl e \<Rightarrow> pe_phase e = DataWrite \<and> (sound_certainty (length bytes) k e \<or>
             excused w' \<and> pe_outbound_certainty e = NotTransferred))"
begin

lemma download_payload_wire:
  assumes wp: "write_payload T (length bytes) payload s w = (p, s4, w4)"
    and run: "(case p of
        Inl e \<Rightarrow> poison_locked (with_informational e informational) s4 w4
      | Inr _ \<Rightarrow> read_terminal_locked T informational FinalResponse FullyTransferred
                  (s4\<lparr>state := SS_AwaitingResponse\<rparr>) w4) = (r, s', w')"
  shows "\<exists>k \<le> length bytes. wire w' = wire w @ take k bytes \<and>
           (download_evidence c (length bytes) c k r \<or> downgraded_error (excused w') r)"
proof -
  from payload_wire [OF wp] obtain k where k: "k \<le> length bytes" "wire w4 = wire w @ take k bytes"
    "case p of Inr _ \<Rightarrow> k = length bytes
     | Inl e \<Rightarrow> pe_phase e = DataWrite \<and> (sound_certainty (length bytes) k e \<or>
         excused w4 \<and> pe_outbound_certainty e = NotTransferred)"
    by blast
  show ?thesis
  proof (cases p)
    case (Inl e)
    with run k show ?thesis
      by (intro exI [of _ k]) (auto simp: download_evidence_def downgraded_error_def)
  next
    case (Inr u)
    with run read_terminal_locked_wire [of FinalResponse FullyTransferred w4 informational
        "s4\<lparr>state := SS_AwaitingResponse\<rparr>"] k
    show ?thesis
      by (intro exI [of _ "length bytes"])
        (auto simp: reads_only_def download_evidence_def split: sum.splits)
  qed
qed

lemma download_exchange_wire:
  assumes run: "download_exchange T (length bytes) payload s w = (r, s', w')"
  shows "\<exists>k \<le> length bytes. wire w' = wire w @ take k bytes \<and>
           (download_evidence c (length bytes) c k r \<or> downgraded_error (excused w') r)"
proof -
  let ?s = "s\<lparr>state := SS_AwaitingResponse\<rparr>"
  obtain i s3 w3 where il: "download_initial_loop T (length bytes) [] ?s w = (i, s3, w3)"
    by (metis prod.collapse)
  note ilw = download_initial_loop_wire [of w "length bytes" "[]" ?s, unfolded il]
  from ilw have w3: "wire w3 = wire w" by (simp add: reads_only_def)
  consider (error) e where "i = Inl e" | (final) cr where "i = Inr (Initial_final cr)"
    | (data) n informational where "i = Inr (Initial_data n informational)"
    by (metis initial_outcome.exhaust sumE)
  then show ?thesis
  proof cases
    case error
    with run il w3 ilw show ?thesis
      by (intro exI [of _ 0]) (auto simp: download_exchange_def download_evidence_def reads_only_def)
  next
    case final
    with download_initial_loop_session [of ?s T "length bytes" "[]" w] il
    have "resp_kind (cr_terminal cr) = Fail" by (simp add: initial_contract_def)
    with final run il w3 ilw show ?thesis
      by (intro exI [of _ 0]) (auto simp: download_exchange_def download_evidence_def)
  next
    case data
    obtain p s4 w4 where wp:
      "write_payload T (length bytes) payload (s3\<lparr>state := SS_Downloading\<rparr>) w3 = (p, s4, w4)"
      by (metis prod.collapse)
    from run il data wp have "(case p of
        Inl e \<Rightarrow> poison_locked (with_informational e informational) s4 w4
      | Inr _ \<Rightarrow> read_terminal_locked T informational FinalResponse FullyTransferred
                  (s4\<lparr>state := SS_AwaitingResponse\<rparr>) w4) = (r, s', w')"
      by (auto simp: download_exchange_def split: sum.splits)
    from download_payload_wire [OF wp this] w3 show ?thesis by simp
  qed
qed

lemma download_locked_wire:
  assumes ready: "state s = SS_Ready" and tr: "transport s = Some T"
    and run: "download_locked (length bytes) payload s w = (r, s', w')"
  shows "\<exists>j k. j \<le> length (download_command (length bytes)) \<and> k \<le> length bytes \<and>
           wire w' = wire w @ take j (string_bytes (download_command (length bytes))) @
                     take k bytes \<and>
           (download_evidence (length (download_command (length bytes))) (length bytes) j k r \<or>
            j = length (download_command (length bytes)) \<and> downgraded_error (excused w') r)"
proof -
  let ?text = "download_command (length bytes)"
  let ?cmd = "string_bytes ?text"
  obtain b s1 w1 where bg: "begin_locked ?text s w = (b, s1, w1)" by (metis prod.collapse)
  consider (refused) e where "b = Inl e"
    | (missing) "b = Inr T" "s1 = s" "w1 = w" "streaming_missing T payload"
    | (ok) "b = Inr T" "s1 = s" "w1 = w" "\<not> streaming_missing T payload"
    using begin_locked_Inr [of ?text s w _ s1 w1] bg tr by (cases b) auto
  then show ?thesis
  proof cases
    case refused
    have "pe_phase e = Validation" "w1 = w"
      using bg refused ready by (auto simp: begin_locked_def tr split: if_splits)
    with run bg refused show ?thesis
      by (intro exI [of _ 0]) (auto simp: download_locked_def download_evidence_def)
  next
    case missing
    with run bg show ?thesis
      by (intro exI [of _ 0]) (auto simp: download_locked_def download_evidence_def)
  next
    case ok
    obtain q s2 w2 where wr:
      "write_exact_locked T ?cmd CommandWrite (s\<lparr>state := SS_WritingCommand\<rparr>) w = (q, s2, w2)"
      by (metis prod.collapse)
    from write_exact_locked_wire [OF wr, unfolded length_string_bytes] obtain j where j: "j \<le> length ?text"
      "wire w2 = wire w @ take j ?cmd"
      "case q of Inr _ \<Rightarrow> j = length ?text
       | Inl e \<Rightarrow> pe_phase e = CommandWrite \<and> sound_certainty (length ?text) j e"
      by auto
    show ?thesis
    proof (cases q)
      case (Inl e)
      with run bg ok wr j show ?thesis
        by (intro exI [of _ j] exI [of _ 0])
          (auto simp: download_locked_def download_evidence_def)
    next
      case (Inr u)
      with run bg ok wr have "download_exchange T (length bytes) payload s2 w2 = (r, s', w')"
        by (simp add: download_locked_def)
      from download_exchange_wire [OF this, of "length ?text"] j Inr show ?thesis
        by - (rule exI [of _ j], auto)
    qed
  qed
qed

end

section \<open>The two kinds of payload\<close>

context wire_transport
begin

lemma bytes_payload: "wire_payload T wire (Payload_bytes bytes) bytes (\<lambda>w. False)"
proof unfold_locales
  fix s w r s' w'
  assume "write_payload T (length bytes) (Payload_bytes bytes) s w = (r, s', w')"
  then have "write_exact_locked T bytes DataWrite s w = (r, s', w')"
    by (simp add: write_payload_def)
  from write_exact_locked_wire [OF this]
  show "\<exists>k \<le> length bytes. wire w' = wire w @ take k bytes \<and>
      (case r of Inr _ \<Rightarrow> k = length bytes
       | Inl e \<Rightarrow> pe_phase e = DataWrite \<and> (sound_certainty (length bytes) k e \<or>
           False \<and> pe_outbound_certainty e = NotTransferred))"
    by (cases r) auto
qed

lemma streaming_transport:
  "wire_transport (make_sequential_streaming_transport alloc T) wire"
  by unfold_locales
    (auto simp: make_sequential_streaming_transport_def write_appends read_keeps read_data_keeps
      request_cancel_keeps close_keeps)

end

text \<open>An honest streaming report becomes a truthful session error, a downgraded one a downgraded error.\<close>

lemma write_source_locked_sound:
  assumes "write_source_locked ws source n observer s w = (r, s', w')"
    and "ws (Some source) (io_timeout (options s)) observer w = (q, v)"
    and "honest_report n k q \<or> downgraded_report b q" and "k \<le> n"
  shows "w' = v \<and> (case r of Inr _ \<Rightarrow> k = n
           | Inl e \<Rightarrow> pe_phase e = DataWrite \<and>
               (sound_certainty n k e \<or> b \<and> pe_outbound_certainty e = NotTransferred))"
  using assms(3)
proof
  assume "honest_report n k q"
  with assms(1,2,4) show ?thesis
    by (auto simp: write_source_locked_def honest_report_def sound_certainty_def
        aggregate_write_certainty_def split: if_splits)
next
  assume "downgraded_report b q"
  with assms(1,2) show ?thesis
    by (auto simp: write_source_locked_def downgraded_report_def aggregate_write_certainty_def
        split: if_splits)
qed

context wire_stream
begin

lemma source_payload:
  "wire_payload (make_sequential_streaming_transport alloc T) wire
     (Payload_source source observer) content (after_blind_write T)"
proof (rule wire_payload.intro [OF streaming_transport], rule wire_payload_axioms.intro)
  fix s r s' and w w' :: 'w
  let ?T = "make_sequential_streaming_transport alloc T"
  assume run: "write_payload ?T (length content) (Payload_source source observer) s w = (r, s', w')"
  obtain q v where ws:
    "sequential_write_source alloc T (Some source) (io_timeout (options s)) observer w = (q, v)"
    by fastforce
  from sequential_write_source_wire [OF ws] obtain k where k: "k \<le> length content"
    "wire v = wire w @ take k content"
    "honest_report (length content) k q \<or> downgraded_report (after_blind_write T v) q"
    by blast
  have "write_source_locked (sequential_write_source alloc T) source (length content) observer s w =
      (r, s', w')"
    using run by (simp add: write_payload_def make_sequential_streaming_transport_def)
  from write_source_locked_sound [OF this ws k(3,1)] k
  show "\<exists>k \<le> length content. wire w' = wire w @ take k content \<and>
        (case r of Inr _ \<Rightarrow> k = length content
         | Inl e \<Rightarrow> pe_phase e = DataWrite \<and> (sound_certainty (length content) k e \<or>
             after_blind_write T w' \<and> pe_outbound_certainty e = NotTransferred))"
    by blast
qed

end

interpretation memory_payload: wire_payload "logged T" "\<lambda>w. reached extra (snd w)"
  "Payload_bytes bytes" bytes "\<lambda>w. False" for T extra bytes
  by (rule logged.bytes_payload)

interpretation memory_source_payload:
  wire_payload "make_sequential_streaming_transport alloc (logged T)" "\<lambda>w. reached extra (snd w)"
    "Payload_source (memory_source bytes) (map_option lift_observer obs)" bytes
    "after_blind_write (logged T)"
  for alloc T extra bytes obs
  by (rule memory_stream.source_payload)

text \<open>
  A device that takes whatever is written and answers with a script of frames; \<open>data\<close> is what the data
  phase of a receive delivers, three octets at a time.
\<close>

definition scripted_transport :: "(byte list list \<times> byte list) transport_ops" where
  "scripted_transport =
     \<lparr>t_write = (\<lambda>bs timeout w. (default_transfer_result\<lparr>tr_transferred := length bs\<rparr>, w)),
      t_read = (\<lambda>n timeout (frames, data). case frames of
         [] \<Rightarrow> ((default_transfer_result\<lparr>tr_status := TS_Timeout\<rparr>, []), (frames, data))
       | f # fs \<Rightarrow> ((default_transfer_result\<lparr>tr_transferred := length f\<rparr>, f), (fs, data))),
      t_read_data = (\<lambda>n timeout (frames, data).
         ((default_transfer_result\<lparr>tr_transferred := length (take (min n 3) data)\<rparr>,
           take (min n 3) data), (frames, drop (min n 3) data))),
      t_request_cancel = id, t_close = id, t_write_source = None\<rparr>"

text \<open>How the session's steps run on the scripted device.\<close>

definition scripted_session ::
  "(((byte list list \<times> byte list) \<times> wire_event list) transport_ops \<Rightarrow> 'w transport_ops) \<Rightarrow> 'w session"
  where
  "scripted_session wrap =
     fastboot_session (Some (wrap (logged scripted_transport))) default_session_options (\<lambda>n. True)"

definition okay_response :: response where
  "okay_response = \<lparr>resp_kind = Okay, resp_payload = [], resp_data_size = None\<rparr>"

definition write_event :: "byte list \<Rightarrow> wire_event" where
  "write_event bs = Ev_write bs (default_transfer_result\<lparr>tr_transferred := length bs\<rparr>)"

definition read_event :: "nat \<Rightarrow> response \<Rightarrow> wire_event" where
  "read_event n r = Ev_read n
     (default_transfer_result\<lparr>tr_transferred := length (encode_response r)\<rparr>) (encode_response r)"

lemma reached_events [simp]:
  "reached extra (write_event bs # log) = bs @ reached (\<lambda>i. extra (Suc i)) log"
  "reached extra (read_event n r # log) = reached (\<lambda>i. extra (Suc i)) log"
  by (simp_all add: write_event_def read_event_def octets_moved_def default_transfer_result_def)

lemma logged_scripted_write [simp]:
  "t_write (logged scripted_transport) bs timeout ((fs, data), log) =
     (default_transfer_result\<lparr>tr_transferred := length bs\<rparr>, ((fs, data), log @ [write_event bs]))"
  by (simp add: logged_def scripted_transport_def write_event_def)

lemma logged_scripted_read [simp]:
  "t_read (logged scripted_transport) n timeout ((encode_response r # fs, data), log) =
     ((default_transfer_result\<lparr>tr_transferred := length (encode_response r)\<rparr>, encode_response r),
      ((fs, data), log @ [read_event n r]))"
  by (simp add: logged_def scripted_transport_def read_event_def)

lemma begin_locked_default:
  assumes "transport s = Some T" "state s = SS_Ready" "\<not> cancellation_requested s"
    "cmd \<noteq> []" "length cmd \<le> max_command_bytes (options s)"
    "list_all (\<lambda>c. \<not> forbidden_command_char c) cmd"
  shows "begin_locked cmd s w = (Inr T, s, w)"
  using assms by (simp add: begin_locked_def find_None_iff list_all_iff)

lemma scripted_session_fields [simp]:
  "transport (scripted_session wrap) = Some (wrap (logged scripted_transport))"
  "state (scripted_session wrap) = SS_Ready" "\<not> mutex_held (scripted_session wrap)"
  "\<not> cancellation_requested (scripted_session wrap)"
  "max_command_bytes (options (scripted_session wrap)) = 4096"
  "max_response_bytes (options (scripted_session wrap)) = 256"
  "max_informational_responses (options (scripted_session wrap)) = 1024"
  "receive_chunk_bytes (options (scripted_session wrap)) = 1024 * 1024"
  "io_timeout (options (scripted_session wrap)) = 30000"
  "allocator (scripted_session wrap) = (\<lambda>n. True)"
  by (simp_all add: scripted_session_def fastboot_session_def default_session_options_def
      kDefaultMaxCommandBytes_def kDefaultMaxResponseBytes_def
      kDefaultMaxInformationalResponses_def kDefaultReceiveChunkBytes_def
      kMaximumReceiveChunkBytes_def)

lemma scripted_responses [simp]:
  "wf_response okay_response" "resp_kind okay_response = Okay" "length (encode_response okay_response) = 4"
  "\<not> is_informational okay_response"
  "resp_kind (data_response n) = Data" "resp_data_size (data_response n) = Some n"
  "length (encode_response (data_response n)) = 12" "\<not> is_informational (data_response n)"
  by (simp_all add: okay_response_def data_response_def wf_response_def encode_response_def
      is_informational_def)

lemma download_command_valid [simp]:
  "list_all (\<lambda>c. \<not> forbidden_command_char c) (download_command 3)" "length (download_command n) = 17"
  "download_command n \<noteq> []"
  by (code_simp, simp_all add: download_command_def)

lemma string_bytes_Nil_iff [simp]: "string_bytes s = [] \<longleftrightarrow> s = []"
  by (simp add: string_bytes_def)

lemma src_size_memory_source: "src_size (memory_source bs) = length bs"
  by (simp add: memory_source_def)

lemma streaming_transport_ops [simp]:
  "t_write (make_sequential_streaming_transport alloc T) = t_write T"
  "t_read (make_sequential_streaming_transport alloc T) = t_read T"
  "t_write_source (make_sequential_streaming_transport alloc T) =
     Some (sequential_write_source alloc T)"
  by (simp_all add: make_sequential_streaming_transport_def)

lemma scripted_write:
  assumes "t_write T = t_write (logged scripted_transport)" and "bs \<noteq> []"
  shows "write_exact_locked T bs phase s ((fs, data), log) =
     (Inr (), s, ((fs, data), log @ [write_event bs]))"
  using assms(2)
  by (simp add: write_exact_locked_def write_exact_loop.simps Let_def assms(1)
      default_transfer_result_def)

lemma scripted_read:
  assumes "t_read T = t_read (logged scripted_transport)" and "wf_response r"
    and "length (encode_response r) \<le> max_response_bytes (options s)"
  shows "read_response_locked T phase certainty informational s
       ((encode_response r # fs, data), log) =
     (Inr r, s, ((fs, data), log @ [read_event (max_response_bytes (options s)) r]))"
  using assms(2,3)
  by (simp add: read_response_locked_def Let_def assms(1) default_transfer_result_def fill_span_def
      parse_response_encode)

definition download_events :: "wire_event list" where
  "download_events =
     [write_event (string_bytes (download_command 3)), read_event 256 (data_response 3),
      write_event [1, 2, 3], read_event 256 okay_response]"

lemma reached_download_events:
  "reached extra download_events = string_bytes (download_command 3) @ [1, 2, 3]"
  by (simp add: download_events_def)

lemmas scripted_run =
  download_events_def   begin_locked_default scripted_write scripted_read wf_data_response numeral_3_eq_3 [symmetric]
  set_state_Ready_idem

lemma download_scripted:
  "download [1, 2, 3] (scripted_session (\<lambda>T. T))
     (([encode_response (data_response 3), encode_response okay_response], []), []) =
   (Inr (command_result_of okay_response [] FinalResponse FullyTransferred), scripted_session (\<lambda>T. T),
     (([], []), download_events))"
  by (simp add: scripted_run download_def download_locked_def streaming_missing_def
      download_exchange_def download_initial_loop.simps write_payload_def
      read_terminal_locked.simps)

lemma download_source_scripted:
  "download_source (Some (memory_source [1, 2, 3])) (map_option lift_observer None)
     (scripted_session (make_sequential_streaming_transport (\<lambda>n. True)))
     (([encode_response (data_response 3), encode_response okay_response], []), []) =
   (Inr (command_result_of okay_response [] FinalResponse FullyTransferred),
    scripted_session (make_sequential_streaming_transport (\<lambda>n. True)),
     (([], []), download_events))"
proof -
  have "sequential_write_source (\<lambda>n. True) (logged scripted_transport) (Some (memory_source [1, 2, 3]))
      timeout None ((fs, data), log) =
    (default_transfer_result\<lparr>tr_transferred := 3\<rparr>, ((fs, data), log @ [write_event [1, 2, 3]]))"
    for timeout fs data log
    by (simp add: sequential_write_source_def stream_cancelled_def stream_source_loop.simps
        stream_chunk_loop.simps memory_source_def memory_source_read_exact_def
        fill_span_def stream_chunk_bytes_def default_transfer_result_def Let_def)
  then have ws: "write_source_locked (sequential_write_source (\<lambda>n. True) (logged scripted_transport))
      (memory_source [1, 2, 3]) 3 None s ((fs, data), log) =
    (Inr (), s, ((fs, data), log @ [write_event [1, 2, 3]]))" for s fs data log
    by (simp add: write_source_locked_def Let_def default_transfer_result_def)
  show ?thesis
    by (simp add: scripted_run ws src_size_memory_source download_source_def download_locked_def streaming_missing_def
        download_exchange_def download_initial_loop.simps write_payload_def
        read_terminal_locked.simps)
qed

section \<open>A download that is cut in the data phase\<close>

text \<open>The scripted device, except that the payload is written blindly.\<close>

definition cut_write :: transfer_result where
  "cut_write = default_transfer_result\<lparr>tr_status := TS_Disconnected, tr_certainty := PartialOrUnknown\<rparr>"

definition cut_device :: "(byte list list \<times> byte list) transport_ops" where
  "cut_device = scripted_transport
     \<lparr>t_write := \<lambda>bs timeout w. if bs = [1, 2, 3] then (cut_write, w)
        else t_write scripted_transport bs timeout w\<rparr>"

definition cut_session :: "((byte list list \<times> byte list) \<times> wire_event list) session" where
  "cut_session =
     scripted_session (\<lambda>T. make_sequential_streaming_transport (\<lambda>n. True) (logged cut_device))"

definition cut_events :: "wire_event list" where
  "cut_events =
     [write_event (string_bytes (download_command 3)), read_event 256 (data_response 3),
      Ev_write [1, 2, 3] cut_write]"

lemma logged_cut_read [simp]: "t_read (logged cut_device) = t_read (logged scripted_transport)"
  by (simp add: logged_def cut_device_def)

lemma logged_cut_write [simp]:
  "bs \<noteq> [1, 2, 3] \<Longrightarrow> t_write (logged cut_device) bs = t_write (logged scripted_transport) bs"
  "t_write (logged cut_device) [1, 2, 3] timeout (w, log) =
     (cut_write, (w, log @ [Ev_write [1, 2, 3] cut_write]))"
  by (simp_all add: logged_def cut_device_def)

lemma cut_command_write:
  "write_exact_locked (make_sequential_streaming_transport alloc (logged cut_device))
     (string_bytes (download_command 3)) phase s ((fs, data), log) =
   (Inr (), s, ((fs, data), log @ [write_event (string_bytes (download_command 3))]))"
proof -
  let ?cmd = "string_bytes (download_command 3)"
  have "?cmd \<noteq> [1, 2, 3]"
  proof
    assume "?cmd = [1, 2, 3]"
    then have "length ?cmd = length [1, 2, 3 :: byte]" by (rule arg_cong)
    then show False by (simp only: length_string_bytes download_command_valid) simp
  qed
  then show ?thesis
    by (simp add: write_exact_locked_def write_exact_loop.simps Let_def
        default_transfer_result_def)
qed

text \<open>
  The device has the command and two octets of the payload; the session says that none of the data
  phase was transferred.
\<close>

theorem download_source_downgraded:
  "\<exists>e s'. download_source (Some (memory_source [1, 2, 3])) None cut_session
       (([encode_response (data_response 3)], []), []) = (Inl e, s', (([], []), cut_events)) \<and>
     pe_phase e = DataWrite \<and> pe_outbound_certainty e = NotTransferred \<and>
     reached (\<lambda>i. 2) cut_events = string_bytes (download_command 3) @ [1, 2]"
proof -
  have "sequential_write_source (\<lambda>n. True) (logged cut_device) (Some (memory_source [1, 2, 3]))
      timeout None ((fs, data), log) =
    (cut_write\<lparr>tr_certainty := NotTransferred\<rparr>, ((fs, data), log @ [Ev_write [1, 2, 3] cut_write]))"
    for timeout fs data log
    by (simp add: sequential_write_source_def stream_cancelled_def stream_source_loop.simps
        stream_chunk_loop.simps memory_source_def memory_source_read_exact_def cut_write_def
        fill_span_def stream_chunk_bytes_def default_transfer_result_def Let_def)
  then have ws: "\<exists>e s'. write_source_locked (sequential_write_source (\<lambda>n. True) (logged cut_device))
      (memory_source [1, 2, 3]) 3 None s ((fs, data), log) =
    (Inl e, s', ((fs, data), log @ [Ev_write [1, 2, 3] cut_write])) \<and>
    pe_phase e = DataWrite \<and> pe_outbound_certainty e = NotTransferred" for s fs data log
    by (simp add: write_source_locked_def Let_def default_transfer_result_def cut_write_def
        poison_locked_def aggregate_write_certainty_def)
  let ?s = "cut_session\<lparr>state := SS_Downloading\<rparr>"
  let ?log = "[write_event (string_bytes (download_command 3)), read_event 256 (data_response 3)]"
  obtain e s' where e: "write_source_locked (sequential_write_source (\<lambda>n. True) (logged cut_device))
      (memory_source [1, 2, 3]) 3 None ?s (([], []), ?log) =
    (Inl e, s', (([], []), ?log @ [Ev_write [1, 2, 3] cut_write]))"
    "pe_phase e = DataWrite" "pe_outbound_certainty e = NotTransferred"
    using ws by blast
  from e show ?thesis
    by (simp add: cut_session_def cut_events_def cut_command_write begin_locked_default scripted_read
        wf_data_response numeral_3_eq_3 [symmetric] src_size_memory_source download_source_def
        download_locked_def streaming_missing_def download_exchange_def
        download_initial_loop.simps write_payload_def cut_write_def octets_moved_def
        default_transfer_result_def poison_locked_def)
qed

section \<open>Properties\<close>

text \<open>
  C2. A download on a ready session, over any transport, whatever number of octets the writes with a
  partial or unknown outcome have moved beyond their count (\<open>extra\<close>): the device has received a prefix
  of the \<open>download:\<close> command followed by a prefix of the payload, and the payload only starts after the
  whole command. The result is truthful: an error raised while validating means that nothing was
  sent, an error's outbound certainty \<open>NotTransferred\<close> or \<open>FullyTransferred\<close> is exact for the phase it
  names, and a result from the final response means that the device got the whole payload.
\<close>

theorem download_wire:
  assumes "transport s = Some (logged T)" and "state s = SS_Ready" and "\<not> mutex_held s"
    and "length bytes \<le> u32_max"
    and "download bytes s (w, []) = (r, s', (w', log))"
  shows "\<exists>j k. j \<le> length (download_command (length bytes)) \<and> k \<le> length bytes \<and>
           reached extra log = take j (string_bytes (download_command (length bytes))) @ take k bytes \<and>
           download_evidence (length (download_command (length bytes))) (length bytes) j k r"
proof -
  have "download_locked (length bytes) (Payload_bytes bytes) s (w, []) = (r, s', (w', log))"
    using assms(3-5) by (simp add: download_def)
  from memory_payload.download_locked_wire [OF assms(2,1) this, of extra] show ?thesis by simp
qed

theorem download_wire_witness:
  "\<exists>r s'. download [1, 2, 3] (scripted_session (\<lambda>T. T))
       (([encode_response (data_response 3), encode_response okay_response], []), []) =
       (r, s', (([], []), download_events)) \<and>
     reached (\<lambda>i. 5) download_events = string_bytes (download_command 3) @ [1, 2, 3] \<and>
     (\<exists>j k. reached (\<lambda>i. 5) download_events = take j (string_bytes (download_command 3)) @ take k [1, 2, 3] \<and>
        download_evidence (length (download_command 3)) 3 j k r)"
proof -
  have "\<exists>j k. reached (\<lambda>i. 5) download_events = take j (string_bytes (download_command 3)) @ take k [1, 2, 3] \<and>
      download_evidence (length (download_command 3)) 3 j k
        (Inr (command_result_of okay_response [] FinalResponse FullyTransferred))"
    using download_wire [OF scripted_session_fields(1) _ _ _ download_scripted, of "\<lambda>i. 5"]
    by (auto simp: numeral_3_eq_3 [symmetric])
  with download_scripted reached_download_events [of "\<lambda>i. 5"] show ?thesis by blast
qed

text \<open>
  C26. The same for a source streamed through the sequential adapter, with any progress observer, up to
  one exception, which the theorem describes: the whole command has gone out, the last call was a write
  of the data phase that counted nothing with an unknown outcome, and the error says \<open>NotTransferred\<close>
  for the data phase although octets may have reached the device. \<open>download_source_downgraded\<close> shows a
  download that ends so.
\<close>

theorem download_source_wire:
  assumes "transport s = Some (make_sequential_streaming_transport alloc (logged T))"
    and "state s = SS_Ready" and "\<not> mutex_held s" and "length bytes \<le> u32_max"
    and "download_source (Some (memory_source bytes)) (map_option lift_observer obs) s (w, []) =
           (r, s', (w', log))"
  shows "\<exists>j k. j \<le> length (download_command (length bytes)) \<and> k \<le> length bytes \<and>
           reached extra log = take j (string_bytes (download_command (length bytes))) @ take k bytes \<and>
           (download_evidence (length (download_command (length bytes))) (length bytes) j k r \<or>
            j = length (download_command (length bytes)) \<and> downgraded_error (ends_blind log) r)"
proof -
  have "download_locked (length bytes)
      (Payload_source (memory_source bytes) (map_option lift_observer obs)) s (w, []) =
      (r, s', (w', log))"
    using assms(3-5) by (simp add: download_source_def memory_source_def)
  from memory_source_payload.download_locked_wire [OF assms(2,1) this, of extra]
    after_blind_write_logged
  show ?thesis by (fastforce simp: downgraded_error_def)
qed

theorem download_source_wire_witness:
  "\<exists>r s'. download_source (Some (memory_source [1, 2, 3])) (map_option lift_observer None)
       (scripted_session (make_sequential_streaming_transport (\<lambda>n. True)))
       (([encode_response (data_response 3), encode_response okay_response], []), []) =
       (r, s', (([], []), download_events)) \<and>
     reached (\<lambda>i. 5) download_events = string_bytes (download_command 3) @ [1, 2, 3] \<and>
     (\<exists>j k. reached (\<lambda>i. 5) download_events = take j (string_bytes (download_command 3)) @ take k [1, 2, 3] \<and>
        (download_evidence (length (download_command 3)) 3 j k r \<or>
         downgraded_error (ends_blind download_events) r))"
proof -
  have "\<exists>j k. reached (\<lambda>i. 5) download_events = take j (string_bytes (download_command 3)) @ take k [1, 2, 3] \<and>
      (download_evidence (length (download_command 3)) 3 j k
         (Inr (command_result_of okay_response [] FinalResponse FullyTransferred)) \<or>
       downgraded_error (ends_blind download_events)
         (Inr (command_result_of okay_response [] FinalResponse FullyTransferred)))"
    using download_source_wire [OF scripted_session_fields(1) _ _ _ download_source_scripted, of "\<lambda>i. 5"]
    by (auto simp: numeral_3_eq_3 [symmetric])
  with download_source_scripted reached_download_events [of "\<lambda>i. 5"] show ?thesis by blast
qed

end
