(* ===== verification/Session_Receive.thy ===== *)
theory Session_Receive
  imports Session_Wire "HOL-Library.Sublist"
begin

text \<open>
  What a receive operation puts into its sink and whether its result tells the truth about it, for
  every transport, sink and observer that meet the inbound contract; then for the memory-backed sink
  of \<^verbatim>\<open>src/kairosboot.cpp\<close>.
\<close>

section \<open>The inbound contract\<close>

text \<open>
  What the error of a receive says when the transport has delivered \<open>received\<close> and the sink holds
  \<open>stored\<close>, for a sink that was empty at the start.
\<close>

definition inbound_error :: "byte list \<Rightarrow> byte list \<Rightarrow> protocol_error \<Rightarrow> bool" where
  "inbound_error received stored e \<longleftrightarrow>
     prefix stored received \<and> pe_inbound_transferred e = length stored \<and>
     (pe_inbound_certainty e = NotTransferred \<longrightarrow> stored = []) \<and>
     (pe_inbound_certainty e = FullyTransferred \<longrightarrow>
        pe_inbound_expected e = Some (length stored) \<and> stored = received)"

definition receive_evidence ::
  "nat \<Rightarrow> byte list \<Rightarrow> byte list \<Rightarrow> protocol_error + command_result \<Rightarrow> bool" where
  "receive_evidence maximum_bytes received stored r \<longleftrightarrow>
     (case r of
        Inl e \<Rightarrow> inbound_error received stored e
      | Inr cr \<Rightarrow> stored = received \<and> cr_inbound_transferred cr = length stored \<and>
          (cr_phase cr = InitialResponse \<and> resp_kind (cr_terminal cr) = Fail \<and> stored = [] \<or>
           cr_phase cr = FinalResponse \<and> 0 < length stored \<and> length stored \<le> maximum_bytes \<and>
           cr_inbound_expected cr = Some (length stored) \<and>
           cr_inbound_certainty cr = FullyTransferred))"

text \<open>An error raised before any inbound octet claims none.\<close>

definition fresh_error :: "protocol_error \<Rightarrow> bool" where
  "fresh_error e \<longleftrightarrow>
     pe_inbound_transferred e = 0 \<and> pe_inbound_certainty e \<noteq> FullyTransferred"

lemma fresh_errors [simp]:
  "fresh_error (protocol_error_of c m)" "fresh_error (io_error_of c m q ph oc)"
  "fresh_error (transport_error_locked q m ph oc)" "fresh_error (malformed_response_error pe ph oc)"
  "fresh_error (too_many_informational i ph oc)" "fresh_error (initial_error c m i)"
  "fresh_error (with_informational e i) = fresh_error e"
  "fresh_error (e\<lparr>pe_informational := i\<rparr>) = fresh_error e"
  "fresh_error (e\<lparr>pe_outbound_certainty := oc\<rparr>) = fresh_error e"
  "fresh_error (e\<lparr>pe_phase := ph\<rparr>) = fresh_error e"
  "fresh_error (e\<lparr>pe_transport_status := st\<rparr>) = fresh_error e"
  "fresh_error (e\<lparr>pe_transfer_certainty := tc\<rparr>) = fresh_error e"
  "fresh_error (e\<lparr>pe_inbound_expected := x, pe_inbound_transferred := 0,
     pe_inbound_certainty := c'\<rparr>) \<longleftrightarrow> c' \<noteq> FullyTransferred"
  by (simp_all add: fresh_error_def protocol_error_of_def io_error_of_def
      transport_error_locked_def malformed_response_error_def too_many_informational_def
      initial_error_def with_informational_def)

lemma write_exact_loop_fresh:
  "write_exact_loop T bytes phase offset s w = (Inl e, s', w') \<Longrightarrow> fresh_error e"
proof (induction T bytes phase offset s w rule: write_exact_loop.induct)
  case (1 T bytes phase offset s w)
  obtain q v where wr: "t_write T (drop offset bytes) (io_timeout (options s)) w = (q, v)"
    by fastforce
  from "1.prems" "1.IH" [OF _ refl refl refl refl refl] show ?case
    by (subst (asm) write_exact_loop.simps) (auto simp: wr Let_def split: if_split_asm)
qed

lemma write_exact_locked_fresh:
  "write_exact_locked T bytes phase s w = (Inl e, s', w') \<Longrightarrow> fresh_error e"
  by (auto simp: write_exact_locked_def dest: write_exact_loop_fresh)

lemma read_response_locked_fresh:
  "read_response_locked T phase oc informational s w = (Inl e, s', w') \<Longrightarrow> fresh_error e"
  by (auto simp: read_response_locked_def Let_def split: if_split_asm sum.split_asm)

context quiet_reads
begin

lemma receive_initial_loop_inbound:
  assumes "receive_initial_loop T maximum_bytes informational s w = (r, s', w')"
  shows "observed w' = observed w \<and>
    (case r of Inl e \<Rightarrow> fresh_error e
     | Inr (Initial_final cr) \<Rightarrow> cr_phase cr = InitialResponse \<and> cr_inbound_transferred cr = 0
     | Inr (Initial_data n _) \<Rightarrow> 0 < n \<and> n \<le> maximum_bytes)"
  using assms
proof (induction "max_informational_responses (options s) - length informational"
       arbitrary: informational w rule: less_induct)
  case less
  obtain q s1 v where rd:
    "read_response_locked T InitialResponse FullyTransferred informational s w = (q, s1, v)"
    by (metis prod.collapse)
  with read_response_locked_wire [of InitialResponse FullyTransferred w informational s]
  have v: "observed v = observed w" by (simp add: reads_only_def)
  note loop = less.prems [unfolded receive_initial_loop.simps [of T maximum_bytes informational]]
  show ?case
  proof (cases q)
    case (Inl e)
    with loop rd v read_response_locked_fresh show ?thesis by auto
  next
    case (Inr resp)
    show ?thesis
    proof (cases "is_informational resp \<and>
        length informational < max_informational_responses (options s)")
      case True
      with loop rd Inr have "receive_initial_loop T maximum_bytes (informational @ [resp]) s v =
          (r, s', w')" by simp
      from less.hyps [OF _ this] True v show ?thesis by auto
    next
      case False
      with loop rd Inr v show ?thesis
        by (auto simp: command_result_of_def request_cancel_keeps close_keeps
            split: if_split_asm response_kind.split_asm option.split_asm)
    qed
  qed
qed

end

text \<open>
  \<open>received\<close> is what the data reads have delivered, \<open>stored\<close> what the sink holds. The sink stores a
  prefix of what it is given, as many octets as it reports.
\<close>

locale inbound_stream = quiet_reads T "\<lambda>w. (received w, stored w)"
  for T :: "'w transport_ops" and received :: "'w \<Rightarrow> byte list" and stored :: "'w \<Rightarrow> byte list" +
  fixes sink :: "'w transfer_sink" and observer :: "'w progress_observer option"
  assumes write_keeps: "t_write T bs timeout w = (r, w') \<Longrightarrow>
      received w' = received w \<and> stored w' = stored w"
    and read_data_appends: "t_read_data T n timeout w = ((r, data), w') \<Longrightarrow>
      received w' = received w @ take (tr_transferred r) data \<and> stored w' = stored w"
    and read_data_stores: "t_read_data T n timeout w = ((r, data), w') \<Longrightarrow>
      tr_transferred r \<le> n \<Longrightarrow> tr_transferred r \<le> length data"
    and sink_appends: "sink (length (stored w)) data w = (r, w') \<Longrightarrow>
      tr_transferred r \<le> length data \<and> stored w' = stored w @ take (tr_transferred r) data \<and>
      received w' = received w"
    and observer_keeps: "observer = Some obs \<Longrightarrow> obs done_bytes all_bytes w = (out, w') \<Longrightarrow>
      received w' = received w \<and> stored w' = stored w"
begin

lemma quiet [simp]:
  "received (t_close T w) = received w" "stored (t_close T w) = stored w"
  "received (t_request_cancel T w) = received w" "stored (t_request_cancel T w) = stored w"
  using close_keeps [of w] request_cancel_keeps [of w] by auto

lemma write_exact_locked_keeps:
  assumes "write_exact_locked T bytes phase s w = (r, s', w')"
  shows "received w' = received w \<and> stored w' = stored w"
proof -
  have "write_exact_loop T bytes phase offset s w = (r, s', w') \<Longrightarrow>
      received w' = received w \<and> stored w' = stored w" for offset
  proof (induction "length bytes - offset" arbitrary: offset w rule: less_induct)
    case less
    obtain q v where wr: "t_write T (drop offset bytes) (io_timeout (options s)) w = (q, v)"
      by fastforce
    note loop = less.prems [unfolded write_exact_loop.simps [of T bytes phase offset s w] wr
        Let_def fst_conv snd_conv]
    show ?case
      using loop write_keeps [OF wr] less.hyps [of "offset + tr_transferred q" v]
      by (auto split: if_split_asm)
  qed
  with assms show ?thesis by (auto simp: write_exact_locked_def)
qed

text \<open>A failure report built by the receive loop.\<close>

lemma receive_failure_inbound:
  assumes "receive_failure T n informational e committed p s w = (r, s', w')"
    and "prefix (stored w) (received w)" and "committed = length (stored w)"
    and "committed = n \<Longrightarrow> \<not> p \<Longrightarrow> stored w = received w"
  shows "\<exists>e'. r = Inl e' \<and> inbound_error (received w') (stored w') e'"
  using assms by (auto simp: receive_failure_def inbound_error_def)

lemma phase_failure_inbound:
  assumes "phase_failure T n informational code msg io committed p s w = (r, s', w')"
    and "prefix (stored w) (received w)" and "committed = length (stored w)"
    and "committed = n \<Longrightarrow> \<not> p \<Longrightarrow> stored w = received w"
  shows "\<exists>e'. r = Inl e' \<and> inbound_error (received w') (stored w') e'"
  using assms(1) unfolding phase_failure_def by (rule receive_failure_inbound) (use assms in auto)

lemma receive_chunk_inbound:
  assumes run: "receive_chunk T sink n informational buffer committed s w = (r, s', w')"
    and eq: "stored w = received w" and committed: "committed = length (stored w)"
    and lt: "committed < n"
  shows "case r of Inl e \<Rightarrow> inbound_error (received w') (stored w') e
         | Inr (b, m) \<Rightarrow> stored w' = received w' \<and> length (stored w') = committed + m"
proof -
  define requested where "requested = min (length buffer) (n - committed)"
  obtain q data w1 where rd:
    "t_read_data T requested (io_timeout (options s)) w = ((q, data), w1)"
    by (metis prod.collapse)
  define payload where "payload = take (tr_transferred q) (store_span buffer requested data)"
  obtain k w2 where sk: "sink committed payload w1 = (k, w2)" by fastforce
  note w1 = read_data_appends [OF rd]
  let ?fail = "\<lambda>e c p v. receive_failure T n informational e c p s v = (r, s', w')"
  note run' = run [unfolded receive_chunk_def Let_def requested_def [symmetric] rd fst_conv
      snd_conv payload_def [symmetric] sk phase_failure_def]
  have payload: "payload = take (tr_transferred q) data" if "tr_transferred q \<le> requested"
    using read_data_stores [OF rd that] that by (simp add: payload_def store_span_def min_def)
  from sk committed w1 have w2: "tr_transferred k \<le> length payload"
    "stored w2 = stored w @ take (tr_transferred k) payload" "received w2 = received w1"
    using sink_appends [of w1 payload k w2] by auto
  consider (read) e p where "?fail e committed p w1"
    | (sink) e p where "tr_transferred q \<le> requested" "?fail e (committed + tr_transferred k) p w2"
        "\<not> p \<Longrightarrow> tr_transferred k = length payload"
    | (ok) "tr_transferred q \<le> requested" "tr_transferred k = length payload"
        "r = Inr (store_span buffer requested data, tr_transferred q)" "w' = w2"
    using run' w2(1) by (auto split: if_split_asm)
  then show ?thesis
  proof cases
    case read
    have "\<exists>e'. r = Inl e' \<and> inbound_error (received w') (stored w') e'"
      by (rule receive_failure_inbound [OF read]) (use w1 eq committed lt in auto)
    then show ?thesis by auto
  next
    case sink
    have "received w2 = stored w @ payload" using w1 w2(3) eq payload [OF sink(1)] by simp
    then have "\<exists>e'. r = Inl e' \<and> inbound_error (received w') (stored w') e'"
      by (intro receive_failure_inbound [OF sink(2)])
        (use w2(1,2) committed sink(3) in \<open>auto simp: take_is_prefix\<close>)
    then show ?thesis by auto
  next
    case ok
    with payload w1 w2 eq committed read_data_stores [OF rd] show ?thesis by simp
  qed
qed

lemma receive_progress_inbound:
  assumes run: "receive_progress T observer n informational committed s w = (r, s', w')"
    and eq: "stored w = received w" and committed: "committed = length (stored w)"
  shows "case r of Inl e \<Rightarrow> inbound_error (received w') (stored w') e
         | Inr _ \<Rightarrow> received w' = received w \<and> stored w' = stored w"
proof (cases observer)
  case None
  with run show ?thesis by (auto simp: receive_progress_def)
next
  case (Some obs)
  obtain out v where ob: "obs committed n w = (out, v)" by fastforce
  note v = observer_keeps [OF Some ob]
  consider "out = Continue_transfer" | code msg io where
    "phase_failure T n informational code msg io committed (committed \<noteq> n) s v = (r, s', w')"
    using run Some ob by (cases out) (auto simp: receive_progress_def)
  then show ?thesis
  proof cases
    case 1
    with run Some ob v show ?thesis by (auto simp: receive_progress_def)
  next
    case 2
    have "\<exists>e'. r = Inl e' \<and> inbound_error (received w') (stored w') e'"
      by (rule phase_failure_inbound [OF 2]) (use v eq committed in auto)
    then show ?thesis by auto
  qed
qed

lemma receive_data_loop_inbound:
  assumes "receive_data_loop T sink observer n informational buffer committed s w = (r, s', w')"
    and "stored w = received w" and "committed = length (stored w)" and "committed \<le> n"
  shows "case r of Inl e \<Rightarrow> inbound_error (received w') (stored w') e
         | Inr c \<Rightarrow> c = n \<and> stored w' = received w' \<and> length (stored w') = n"
  using assms
proof (induction "n - committed" arbitrary: buffer committed s w rule: less_induct)
  case less
  show ?case
  proof (cases "committed < n")
    case False
    with less.prems show ?thesis by (auto simp: receive_data_loop.simps)
  next
    case True
    obtain q s1 w1 where ch:
      "receive_chunk T sink n informational buffer committed s w = (q, s1, w1)"
      by (metis prod.collapse)
    note chw = receive_chunk_inbound [OF ch less.prems(2,3) True]
    show ?thesis
    proof (cases q)
      case (Inl e)
      with less.prems(1) ch chw True show ?thesis
        by (auto simp: receive_data_loop.simps [of T sink observer n informational buffer])
    next
      case (Inr bm)
      obtain b m where bm: "bm = (b, m)" by fastforce
      with receive_chunk_progress [of T sink n informational buffer committed s w b m s1 w1] ch Inr
      have m: "0 < m" "m \<le> n - committed" by auto
      from chw Inr bm have w1: "stored w1 = received w1" "committed + m = length (stored w1)" by auto
      obtain p s2 w2 where pr:
        "receive_progress T observer n informational (committed + m) s1 w1 = (p, s2, w2)"
        by (metis prod.collapse)
      note prw = receive_progress_inbound [OF pr w1]
      show ?thesis
      proof (cases p)
        case (Inl e)
        with less.prems(1) ch \<open>q = Inr bm\<close> bm pr prw True show ?thesis
          by (auto simp: receive_data_loop.simps [of T sink observer n informational buffer])
      next
        case (Inr u)
        with less.prems(1) ch \<open>q = Inr bm\<close> bm pr True
        have rec: "receive_data_loop T sink observer n informational b (committed + m) s2 w2 =
            (r, s', w')"
          by (simp add: receive_data_loop.simps [of T sink observer n informational buffer])
        have lt: "n - (committed + m) < n - committed" and le: "committed + m \<le> n"
          using m True by auto
        from prw Inr w1 have "stored w2 = received w2" "committed + m = length (stored w2)" by auto
        from less.hyps [OF lt rec this le] show ?thesis .
      qed
    qed
  qed
qed

lemma receive_payload_inbound:
  assumes run: "receive_payload T sink observer n informational s w = (r, s', w')"
    and empty: "stored w = []" "received w = []" and n: "0 < n" "n \<le> maximum_bytes"
  shows "receive_evidence maximum_bytes (received w') (stored w') r"
proof -
  let ?size = "min (receive_chunk_bytes (options s)) n"
  obtain p s4 w4 where rl: "receive_data_loop T sink observer n informational (replicate ?size 0) 0
      (s\<lparr>state := SS_ReceivingData\<rparr>) w = (p, s4, w4)"
    by (metis prod.collapse)
  note rlw = receive_data_loop_inbound [OF rl]
  obtain q s5 w5 where rt: "read_terminal_locked T informational FinalResponse FullyTransferred
      (s4\<lparr>state := SS_AwaitingResponse\<rparr>) w4 = (q, s5, w5)"
    by (metis prod.collapse)
  with read_terminal_locked_wire [of FinalResponse FullyTransferred w4 informational
      "s4\<lparr>state := SS_AwaitingResponse\<rparr>"]
  have w5: "received w5 = received w4" "stored w5 = stored w4"
    "\<And>cr. q = Inr cr \<Longrightarrow> cr_phase cr = FinalResponse"
    by (auto simp: reads_only_def)
  show ?thesis
  proof (cases "allocator s ?size")
    case False
    with run empty show ?thesis
      by (auto simp: receive_payload_def receive_evidence_def inbound_error_def)
  next
    case True
    show ?thesis
    proof (cases p)
      case (Inl e)
      with run True rl rlw empty n show ?thesis
        by (auto simp: receive_payload_def receive_evidence_def)
    next
      case (Inr c)
      with rlw empty n have c: "c = n" "stored w4 = received w4" "length (received w4) = n" by auto
      show ?thesis
      proof (cases q)
        case (Inl e)
        with run True rl rt Inr c w5 n show ?thesis
          by (auto simp: receive_payload_def receive_evidence_def inbound_error_def)
      next
        case (Inr cr)
        with run True rl rt \<open>p = Inr c\<close> c w5 n show ?thesis
          by (auto simp: receive_payload_def receive_evidence_def)
      qed
    qed
  qed
qed

lemma receive_exchange_inbound:
  assumes run: "receive_exchange T sink maximum_bytes observer s w = (r, s', w')"
    and empty: "stored w = []" "received w = []"
  shows "receive_evidence maximum_bytes (received w') (stored w') r"
proof -
  let ?s = "s\<lparr>state := SS_AwaitingResponse\<rparr>"
  obtain q s3 w3 where il: "receive_initial_loop T maximum_bytes [] ?s w = (q, s3, w3)"
    by (metis prod.collapse)
  note ilw = receive_initial_loop_inbound [OF il]
  consider (err) e where "q = Inl e" | (final) cr where "q = Inr (Initial_final cr)"
    | (data) n informational where "q = Inr (Initial_data n informational)"
    by (metis initial_outcome.exhaust sum.exhaust)
  then show ?thesis
  proof cases
    case err
    with il ilw run empty show ?thesis
      by (auto simp: receive_exchange_def receive_evidence_def inbound_error_def fresh_error_def)
  next
    case final
    with receive_initial_loop_session [of ?s T maximum_bytes "[]" w] il
    have "resp_kind (cr_terminal cr) = Fail" by (simp add: initial_contract_def)
    with final il ilw run empty show ?thesis
      by (auto simp: receive_exchange_def receive_evidence_def)
  next
    case data
    with il run have "receive_payload T sink observer n informational s3 w3 = (r, s', w')"
      by (simp add: receive_exchange_def)
    from receive_payload_inbound [OF this] ilw data empty show ?thesis by auto
  qed
qed

lemma receive_locked_inbound:
  assumes run: "receive_locked cmd sink maximum_bytes observer s w = (r, s', w')"
    and ready: "state s = SS_Ready" and tr: "transport s = Some T"
    and empty: "stored w = []" "received w = []"
  shows "receive_evidence maximum_bytes (received w') (stored w') r"
proof -
  obtain b s1 w1 where bg: "begin_locked cmd s w = (b, s1, w1)" by (metis prod.collapse)
  show ?thesis
  proof (cases b)
    case (Inl e)
    with bg ready have "fresh_error e" "w1 = w"
      by (auto simp: begin_locked_def tr split: if_splits)
    with run bg Inl empty show ?thesis
      by (auto simp: receive_locked_def receive_evidence_def inbound_error_def fresh_error_def)
  next
    case (Inr T')
    with begin_locked_Inr [of cmd s w T' s1 w1] bg tr have T': "T' = T" "s1 = s" "w1 = w" by auto
    obtain q s2 w2 where wr: "write_exact_locked T (string_bytes cmd) CommandWrite
        (s\<lparr>state := SS_WritingCommand\<rparr>) w = (q, s2, w2)"
      by (metis prod.collapse)
    note w2 = write_exact_locked_keeps [OF wr]
    show ?thesis
    proof (cases q)
      case (Inl e)
      with wr have "fresh_error e" by (simp add: write_exact_locked_fresh)
      with Inl run bg Inr T' wr w2 empty show ?thesis
        by (auto simp: receive_locked_def receive_evidence_def inbound_error_def fresh_error_def)
    next
      case sent: (Inr u)
      with run bg Inr T' wr have "receive_exchange T sink maximum_bytes observer s2 w2 = (r, s', w')"
        by (simp add: receive_locked_def)
      from receive_exchange_inbound [OF this] w2 empty show ?thesis by simp
    qed
  qed
qed

end

section \<open>The memory-backed sink\<close>

text \<open>
  The sink's vector stands beside the transport's world. \<open>delivered\<close> is what the data reads of a log
  have delivered, in order.
\<close>

definition beside :: "'w transport_ops \<Rightarrow> ('w \<times> 'm) transport_ops" where
  "beside T =
     \<lparr>t_write = (\<lambda>bs timeout (w, m). case t_write T bs timeout w of (r, w') \<Rightarrow> (r, (w', m))),
      t_read = (\<lambda>n timeout (w, m). case t_read T n timeout w of (r, w') \<Rightarrow> (r, (w', m))),
      t_read_data = (\<lambda>n timeout (w, m). case t_read_data T n timeout w of (r, w') \<Rightarrow> (r, (w', m))),
      t_request_cancel = (\<lambda>(w, m). (t_request_cancel T w, m)),
      t_close = (\<lambda>(w, m). (t_close T w, m)),
      t_write_source = None\<rparr>"

definition memory_sink :: "(nat \<Rightarrow> bool) \<Rightarrow> ('w \<times> byte list) transfer_sink" where
  "memory_sink alloc = (\<lambda>offset data (w, bytes).
     case memory_sink_write alloc offset data bytes of (r, bytes') \<Rightarrow> (r, (w, bytes')))"

fun delivered :: "wire_event list \<Rightarrow> byte list" where
  "delivered [] = []"
| "delivered (Ev_read_data n r data # log) = take (tr_transferred r) data @ delivered log"
| "delivered (ev # log) = delivered log"

lemma delivered_append [simp]: "delivered (xs @ ys) = delivered xs @ delivered ys"
  by (induction xs rule: delivered.induct) auto

text \<open>
  \<open>stores_reported T\<close>: a data read stores at least the octets it reports, unless it reports more
  than it was asked for (which the session detects).
\<close>

definition stores_reported :: "'w transport_ops \<Rightarrow> bool" where
  "stores_reported T \<longleftrightarrow>
     (\<forall>n timeout w r data w'. t_read_data T n timeout w = ((r, data), w') \<longrightarrow>
        tr_transferred r \<le> n \<longrightarrow> tr_transferred r \<le> length data)"

text \<open>\<open>storing T\<close> is \<open>T\<close> with a short delivery padded; a transport that stores what it reports is its
  own \<open>storing\<close>.\<close>

definition storing :: "'w transport_ops \<Rightarrow> 'w transport_ops" where
  "storing T = T\<lparr>t_read_data := (\<lambda>n timeout w. case t_read_data T n timeout w of
     ((r, data), w') \<Rightarrow>
       ((r, if tr_transferred r \<le> n then data @ replicate (tr_transferred r - length data) 0
            else data), w'))\<rparr>"

lemma storing_id: "stores_reported T \<Longrightarrow> storing T = T"
  by (cases T) (fastforce simp: storing_def stores_reported_def fun_eq_iff split: prod.split)

interpretation memory_inbound:
  inbound_stream "beside (logged (storing T))" "\<lambda>w. delivered (snd (fst w))" snd
    "memory_sink alloc" "map_option (lift_observer \<circ> lift_observer) obs" for T alloc obs
  by unfold_locales
    (auto simp: beside_def logged_def storing_def memory_sink_def memory_sink_write_def
      lift_observer_def default_transfer_result_def split: prod.splits if_splits)

text \<open>
  C11. A receive into an empty memory sink on a ready session, over any transport that stores the
  octets it reports and with any observer and any allocation failures: the sink holds a prefix of
  what the device delivered; the reported inbound count is its length, on success and on every error;
  a result from the final response means that exactly the announced size was delivered and stored and
  that it respects the caller's limit; \<open>NotTransferred\<close> means an empty sink and \<open>FullyTransferred\<close> a
  complete one.
\<close>

theorem receive_memory_evidence:
  assumes "stores_reported T" and "transport s = Some (beside (logged T))" and "state s = SS_Ready"
    and "\<not> mutex_held s" and "0 < maximum_bytes"
    and "receive_to_sink cmd (Some (memory_sink alloc)) maximum_bytes
           (map_option (lift_observer \<circ> lift_observer) obs) s ((w, []), []) =
         (r, s', ((w', log), bytes))"
  shows "receive_evidence maximum_bytes (delivered log) bytes r"
proof -
  from assms(4-6) have "receive_locked cmd (memory_sink alloc) maximum_bytes
      (map_option (lift_observer \<circ> lift_observer) obs) s ((w, []), []) = (r, s', ((w', log), bytes))"
    by (simp add: receive_to_sink_def)
  from memory_inbound.receive_locked_inbound [OF this assms(3), of T] assms(1,2) show ?thesis
    by (simp add: storing_id)
qed

text \<open>Five octets arrive in two chunks.\<close>

lemma scripted_stores: "stores_reported scripted_transport"
  by (auto simp: stores_reported_def scripted_transport_def)

lemma scripted_read_data [simp]:
  "t_read_data (logged scripted_transport) n timeout ((fs, data), log) =
     ((default_transfer_result\<lparr>tr_transferred := length (take (min n 3) data)\<rparr>, take (min n 3) data),
      ((fs, drop (min n 3) data),
       log @ [Ev_read_data n (default_transfer_result\<lparr>tr_transferred := length (take (min n 3) data)\<rparr>)
                (take (min n 3) data)]))"
  by (simp add: logged_def scripted_transport_def)

lemma beside_ops [simp]:
  "t_write (beside T) bs timeout (w, m) = (case t_write T bs timeout w of (r, w') \<Rightarrow> (r, (w', m)))"
  "t_read (beside T) n timeout (w, m) = (case t_read T n timeout w of (r, w') \<Rightarrow> (r, (w', m)))"
  "t_read_data (beside T) n timeout (w, m) =
     (case t_read_data T n timeout w of (r, w') \<Rightarrow> (r, (w', m)))"
  by (simp_all add: beside_def)

lemma beside_write:
  "bs \<noteq> [] \<Longrightarrow> write_exact_locked (beside (logged scripted_transport)) bs phase s (((fs, data), log), m) =
     (Inr (), s, (((fs, data), log @ [write_event bs]), m))"
  by (simp add: write_exact_locked_def write_exact_loop.simps Let_def default_transfer_result_def)

lemma beside_read:
  "wf_response r \<Longrightarrow> length (encode_response r) \<le> max_response_bytes (options s) \<Longrightarrow>
   read_response_locked (beside (logged scripted_transport)) phase certainty informational s
       (((encode_response r # fs, data), log), m) =
     (Inr r, s, (((fs, data), log @ [read_event (max_response_bytes (options s)) r]), m))"
  by (simp add: read_response_locked_def Let_def default_transfer_result_def fill_span_def
      parse_response_encode)

definition receive_events :: "wire_event list" where
  "receive_events =
     [write_event (string_bytes ''upload''), read_event 256 (data_response 5),
      Ev_read_data 5 (default_transfer_result\<lparr>tr_transferred := 3\<rparr>) [1, 2, 3],
      Ev_read_data 2 (default_transfer_result\<lparr>tr_transferred := 2\<rparr>) [4, 5],
      read_event 256 okay_response]"

lemma receive_chunk_scripted:
  "receive_chunk (beside (logged scripted_transport)) (memory_sink (\<lambda>n. True)) 5 informational
     (replicate 5 0) 0 s (((fs, [1, 2, 3, 4, 5]), log), []) =
   (Inr ([1, 2, 3, 0, 0], 3), s, (((fs, [4, 5]),
      log @ [Ev_read_data 5 (default_transfer_result\<lparr>tr_transferred := 3\<rparr>) [1, 2, 3]]), [1, 2, 3]))"
  "receive_chunk (beside (logged scripted_transport)) (memory_sink (\<lambda>n. True)) 5 informational
     [1, 2, 3, 0, 0] 3 s (((fs, [4, 5]), log), [1, 2, 3]) =
   (Inr ([4, 5, 3, 0, 0], 2), s, (((fs, []),
      log @ [Ev_read_data 2 (default_transfer_result\<lparr>tr_transferred := 2\<rparr>) [4, 5]]), [1, 2, 3, 4, 5]))"
  by (simp_all add: receive_chunk_def Let_def store_span_def memory_sink_def memory_sink_write_def
      default_transfer_result_def numeral_2_eq_2 [THEN arg_cong [of _ _ "\<lambda>n. replicate n 0"]])

lemma receive_scripted:
  "receive_to_sink ''upload'' (Some (memory_sink (\<lambda>n. True))) 16
     (map_option (lift_observer \<circ> lift_observer) None) (scripted_session beside)
     ((([encode_response (data_response 5), encode_response okay_response], [1, 2, 3, 4, 5]), []), []) =
   (Inr ((command_result_of okay_response [] FinalResponse FullyTransferred)
       \<lparr>cr_inbound_expected := Some 5, cr_inbound_transferred := 5,
        cr_inbound_certainty := FullyTransferred\<rparr>),
    scripted_session beside, ((([], []), receive_events), [1, 2, 3, 4, 5]))"
  by (simp add: receive_to_sink_def receive_locked_def begin_locked_default beside_write beside_read
      forbidden_command_char_def receive_exchange_def receive_initial_loop.simps wf_data_response
      receive_payload_def receive_data_loop.simps receive_chunk_scripted receive_progress_def
      read_terminal_locked.simps set_state_Ready_idem receive_events_def)

theorem receive_memory_evidence_witness:
  "\<exists>r s'. receive_to_sink ''upload'' (Some (memory_sink (\<lambda>n. True))) 16
     (map_option (lift_observer \<circ> lift_observer) None) (scripted_session beside)
     ((([encode_response (data_response 5), encode_response okay_response], [1, 2, 3, 4, 5]), []), []) =
     (r, s', ((([], []), receive_events), [1, 2, 3, 4, 5])) \<and> isl r = False \<and>
   receive_evidence 16 (delivered receive_events) [1, 2, 3, 4, 5] r"
proof -
  have "receive_evidence 16 (delivered receive_events) [1, 2, 3, 4, 5]
    (Inr ((command_result_of okay_response [] FinalResponse FullyTransferred)
       \<lparr>cr_inbound_expected := Some 5, cr_inbound_transferred := 5,
        cr_inbound_certainty := FullyTransferred\<rparr>))"
    by (rule receive_memory_evidence [OF scripted_stores scripted_session_fields(1) _ _ _
          receive_scripted]) simp_all
  with receive_scripted show ?thesis by auto
qed

end
