(* ===== verification/Image_Source.thy ===== *)
theory Image_Source
  imports Transport_Session
begin

text \<open>
  The random-access image seam \<^verbatim>\<open>IImageSource\<close> of \<^verbatim>\<open>src/image/sparse_image.hpp\<close> and the adapter
  \<^verbatim>\<open>ImageTransferSource\<close> of \<^verbatim>\<open>src/transport/image_transfer_source.cpp\<close> that feeds an image to a
  transport.

  An image source is immutable (``\<^verbatim>\<open>Contents and size must remain immutable\<close>''), so a read is a
  function of the offset and the span length. It returns an error message, or the reported count
  and the octets it stored at the start of the span.
\<close>

section \<open>Data and operations\<close>

record image_source =
  is_size :: nat
  is_read_at :: "nat \<Rightarrow> nat \<Rightarrow> string + (nat \<times> byte list)"

text \<open>
  \<^verbatim>\<open>ImageTransferSource\<close>. The loop fills \<open>destination\<close> from \<open>completed\<close> on; \<open>None\<close> is \<^verbatim>\<open>false\<close>. An
  exception of the image source is caught and is \<^verbatim>\<open>false\<close> too, like an error it returns.
\<close>

function image_read_loop ::
  "image_source \<Rightarrow> nat \<Rightarrow> nat \<Rightarrow> byte list \<Rightarrow> byte list option" where
  "image_read_loop source offset completed destination =
     (if completed < length destination then
        (case is_read_at source (offset + completed) (length destination - completed) of
           Inl _ \<Rightarrow> None
         | Inr (n, data) \<Rightarrow>
             if n = 0 \<or> n > length destination - completed then None
             else image_read_loop source offset (completed + n)
                    (write_span destination completed data))
      else Some destination)"
  by pat_completeness auto
termination
  by (relation "measure (\<lambda>(source, offset, completed, destination). length destination - completed)")
    auto

definition image_read_exact :: "image_source \<Rightarrow> nat \<Rightarrow> nat \<Rightarrow> byte list option" where
  "image_read_exact source offset n =
     (if n = 0 then if offset \<le> is_size source then Some [] else None
      else if offset > is_size source \<or> n > is_size source - offset then None
      else image_read_loop source offset 0 (replicate n 0))"

definition image_transfer_source :: "image_source \<Rightarrow> 'w transfer_source" where
  "image_transfer_source source =
     \<lparr>src_size = is_size source,
      src_read_exact = (\<lambda>offset n w. (image_read_exact source offset n, w))\<rparr>"

text \<open>\<^verbatim>\<open>create\<close>: a null source and a failed allocation are errors.\<close>

definition create_image_transfer_source ::
  "bool \<Rightarrow> image_source option \<Rightarrow> string + 'w transfer_source" where
  "create_image_transfer_source allocates source =
     (case source of
        None \<Rightarrow> Inl ''image transfer source is null''
      | Some src \<Rightarrow>
          if allocates then Inr (image_transfer_source src)
          else Inl ''unable to allocate the image transfer source'')"

declare image_read_loop.simps [simp del]

section \<open>The contract of an image source\<close>

text \<open>
  A source stands for \<open>content\<close> when its size is the length and every read that reports at most
  what was asked for has stored that many octets of the content. Short reads and errors are free.
\<close>

locale image_content =
  fixes source :: image_source and content :: "byte list"
  assumes size_content: "is_size source = length content"
    and read_content: "is_read_at source offset n = Inr (k, data) \<Longrightarrow> k \<le> n \<Longrightarrow>
      k \<le> length data \<and> offset + k \<le> max offset (length content) \<and>
      take k data = take k (drop offset content)"
begin

lemma image_read_loop_content:
  assumes "image_read_loop source offset completed destination = Some result"
    and "completed \<le> length destination"
    and "take completed destination = take completed (drop offset content)"
  shows "result = take (length destination) (drop offset content)"
  using assms
proof (induction "length destination - completed" arbitrary: completed destination
       rule: less_induct)
  case less
  note loop = less.prems(1) [unfolded image_read_loop.simps [of source offset completed]]
  show ?case
  proof (cases "completed < length destination")
    case False
    with loop less.prems show ?thesis by simp
  next
    case True
    with loop obtain n data where
      rd: "is_read_at source (offset + completed) (length destination - completed) = Inr (n, data)"
      and n: "0 < n" "n \<le> length destination - completed"
      and rec: "image_read_loop source offset (completed + n)
                  (write_span destination completed data) = Some result"
      by (auto split: sum.splits if_splits prod.splits)
    from read_content [OF rd n(2)] have data: "n \<le> length data"
      "take n data = take n (drop (offset + completed) content)" by auto
    have "take (completed + n) (write_span destination completed data) =
        take (completed + n) (drop offset content)"
      using take_write_span [of n data completed destination] data n True less.prems(3)
      by (simp add: take_add add.commute)
    with less.hyps [OF _ rec] n True show ?thesis by simp
  qed
qed

lemma image_read_exact_content:
  "image_read_exact source offset n = Some result \<Longrightarrow> result = take n (drop offset content)"
  using image_read_loop_content [of offset 0 "replicate n 0" result]
  by (auto simp: image_read_exact_def split: if_splits)

lemma image_read_exact_in_range:
  "image_read_exact source offset n = Some result \<Longrightarrow> offset + n \<le> length content"
  by (auto simp: image_read_exact_def size_content split: if_splits)

end

text \<open>A source that returns on every read all the octets there are.\<close>

definition serves_fully :: "image_source \<Rightarrow> byte list \<Rightarrow> bool" where
  "serves_fully source octets \<longleftrightarrow>
     (\<forall>offset n. offset \<le> length octets \<longrightarrow>
        is_read_at source offset n = Inr (min n (length octets - offset), take n (drop offset octets)))"

section \<open>Sources with a read policy\<close>

text \<open>
  \<open>policy_source content policy\<close> serves \<open>content\<close>; the policy decides on every read between an error
  message and a count. A count up to the span length may be short; one above it is misreported.
\<close>

definition policy_source ::
  "byte list \<Rightarrow> (nat \<Rightarrow> nat \<Rightarrow> string + nat) \<Rightarrow> image_source" where
  "policy_source content policy =
     \<lparr>is_size = length content,
      is_read_at = (\<lambda>offset n. case policy offset n of
          Inl msg \<Rightarrow> Inl msg
        | Inr k \<Rightarrow> let data = take (min k n) (drop offset content) in
            Inr (if k > n then k else length data, data))\<rparr>"

interpretation policy: image_content "policy_source content policy" content for content policy
  by unfold_locales (auto simp: policy_source_def Let_def split: sum.splits)

interpretation image_stream: wire_stream "logged T" "\<lambda>w. reached extra (snd w)"
  "image_transfer_source (policy_source content policy)" content "map_option lift_observer obs"
  for T extra content policy obs
  by unfold_locales
    (auto simp: image_transfer_source_def fill_span_def lift_observer_def policy.size_content
      dest: policy.image_read_exact_content split: prod.splits)

text \<open>
  C30. Streaming an image through any transport, from a source that may read short or fail at any
  time. Whatever number of octets the writes with a partial or unknown outcome have moved beyond their
  count (\<open>extra\<close>), a prefix of the image reaches the device, in order. The result is honest about it:
  its count is no more than what reached the device and exact unless the result is \<open>PartialOrUnknown\<close>,
  and a certain success means the whole image. There is one exception, and the theorem says exactly
  when: the last call was a write that counted nothing with an unknown outcome, nothing was counted in
  all, and the adapter reports \<open>NotTransferred\<close> although octets may have gone out
  (\<open>blind_write_downgraded\<close> shows that it does).
\<close>

theorem image_stream_prefix:
  assumes "sequential_write_source alloc (logged T)
             (Some (image_transfer_source (policy_source content policy))) timeout
             (map_option lift_observer obs) (w, []) = (r, (w', log))"
  shows "\<exists>k \<le> length content. reached extra log = take k content \<and>
           (honest_report (length content) k r \<or> downgraded_report (ends_blind log) r)"
  using image_stream.sequential_write_source_wire [OF assms, of extra] after_blind_write_logged
  by (fastforce simp: downgraded_report_def)

text \<open>A source that returns one octet per read.\<close>

theorem image_stream_prefix_witness:
  "\<exists>r log. sequential_write_source (\<lambda>n. True) (logged two_byte_transport)
     (Some (image_transfer_source (policy_source [1, 2, 3] (\<lambda>offset n. Inr 1)))) 30000
     (map_option lift_observer None) ((), []) = (r, ((), log)) \<and>
   tr_transferred r = 3 \<and> (\<exists>k \<le> 3. reached (\<lambda>i. 5) log = take k [1, 2, 3] \<and>
     (honest_report 3 k r \<or> downgraded_report (ends_blind log) r))"
proof -
  let ?r = "default_transfer_result\<lparr>tr_transferred := 3\<rparr>"
  let ?two = "default_transfer_result\<lparr>tr_transferred := 2\<rparr>"
  let ?one = "default_transfer_result\<lparr>tr_transferred := 1\<rparr>"
  let ?log = "[Ev_write [1, 2, 3] ?two, Ev_write [3] ?one]"
  have run: "sequential_write_source (\<lambda>n. True) (logged two_byte_transport)
     (Some (image_transfer_source (policy_source [1, 2, 3] (\<lambda>offset n. Inr 1)))) 30000
     (map_option lift_observer None) ((), []) = (?r, ((), ?log))"
    by (simp add: sequential_write_source_def stream_cancelled_def stream_source_loop.simps
        stream_chunk_loop.simps image_transfer_source_def image_read_exact_def
        image_read_loop.simps write_span_def policy_source_def logged_def
        two_byte_transport_def fill_span_def stream_chunk_bytes_def default_transfer_result_def
        Let_def numeral_3_eq_3)
  show ?thesis
    using run image_stream_prefix [OF run, of "\<lambda>i. 5"] by (auto simp: numeral_3_eq_3)
qed

end
