(* ===== verification/Vbmeta_Flags.thy ===== *)
theory Vbmeta_Flags
  imports Image_Source
begin

text \<open>
  The AVB flag overlay of \<^verbatim>\<open>src/image/vbmeta_flag_source.cpp\<close>: an image source that shows one byte of
  the header changed, and the function that validates the header and decides whether the overlay is
  needed.
\<close>

section \<open>Data and operations\<close>

record vbmeta_flags =
  disable_verity :: bool
  disable_verification :: bool

definition any_flag :: "vbmeta_flags \<Rightarrow> bool" where
  "any_flag flags = (disable_verity flags \<or> disable_verification flags)"

datatype vbmeta_flag_error_kind = Vbmeta_malformed | Vbmeta_source | Vbmeta_cancelled

record vbmeta_flag_error =
  vfe_kind :: vbmeta_flag_error_kind
  vfe_input_offset :: nat
  vfe_message :: string

definition kVbmetaHeaderSize :: nat where "kVbmetaHeaderSize = 256"
definition kVbmetaFlagsByteOffset :: nat where "kVbmetaFlagsByteOffset = 123"
definition kVbmetaMagic :: "byte list" where "kVbmetaMagic = string_bytes ''AVB0''"

definition vbmeta_failure :: "vbmeta_flag_error_kind \<Rightarrow> nat \<Rightarrow> string \<Rightarrow> vbmeta_flag_error" where
  "vbmeta_failure kind offset message =
     \<lparr>vfe_kind = kind, vfe_input_offset = offset, vfe_message = message\<rparr>"

definition vbmeta_read_at ::
  "image_source \<Rightarrow> byte \<Rightarrow> nat \<Rightarrow> nat \<Rightarrow> string + (nat \<times> byte list)" where
  "vbmeta_read_at source flags_byte offset n =
     (case is_read_at source offset n of
        Inl msg \<Rightarrow> Inl msg
      | Inr (count, data) \<Rightarrow>
          if count = 0 \<or> offset > kVbmetaFlagsByteOffset then Inr (count, data)
          else
            let distance = kVbmetaFlagsByteOffset - offset in
            if distance < count \<and> distance \<le> u64_max then
              Inr (count, data[distance := flags_byte])
            else Inr (count, data))"

definition vbmeta_flag_source :: "image_source \<Rightarrow> byte \<Rightarrow> image_source" where
  "vbmeta_flag_source source flags_byte =
     \<lparr>is_size = is_size source, is_read_at = vbmeta_read_at source flags_byte\<rparr>"

definition ends_with :: "string \<Rightarrow> string \<Rightarrow> bool" where
  "ends_with s suffix_text =
     (length suffix_text \<le> length s \<and> drop (length s - length suffix_text) s = suffix_text)"

definition is_vbmeta_partition :: "string \<Rightarrow> bool" where
  "is_vbmeta_partition partition_name =
     (ends_with partition_name ''vbmeta'' \<or> ends_with partition_name ''vbmeta_a'' \<or>
      ends_with partition_name ''vbmeta_b'')"

function vbmeta_header_loop ::
  "image_source \<Rightarrow> stop_token \<Rightarrow> nat \<Rightarrow> byte list \<Rightarrow> (vbmeta_flag_error, byte list) polled" where
  "vbmeta_header_loop source stop completed header t =
     (if completed < length header then
        if stop t then
          (Inl (vbmeta_failure Vbmeta_cancelled completed ''vbmeta flag mutation was cancelled''),
           Suc t)
        else
          (case is_read_at source completed (length header - completed) of
             Inl msg \<Rightarrow>
               (Inl (vbmeta_failure Vbmeta_source completed
                  (''failed reading vbmeta header: '' @ msg)), Suc t)
           | Inr (count, data) \<Rightarrow>
               if count = 0 \<or> count > length header - completed then
                 (Inl (vbmeta_failure Vbmeta_source completed
                    ''vbmeta source was truncated while reading its header''), Suc t)
               else
                 vbmeta_header_loop source stop (completed + count)
                   (write_span header completed data) (Suc t))
      else (Inr header, t))"
  by pat_completeness auto
termination
  by (relation "measure (\<lambda>(source, stop, completed, header, t). length header - completed)") auto

definition vbmeta_flag_byte :: "vbmeta_flags \<Rightarrow> byte \<Rightarrow> byte" where
  "vbmeta_flag_byte flags b =
     (let b1 = (if disable_verity flags then b OR 0x01 else b) in
      if disable_verification flags then b1 OR 0x02 else b1)"

definition apply_vbmeta_flags ::
  "image_source option \<Rightarrow> vbmeta_flags \<Rightarrow> stop_token \<Rightarrow> (vbmeta_flag_error, image_source) polled" where
  "apply_vbmeta_flags source_opt flags stop =
     (case source_opt of
        None \<Rightarrow> pfail (vbmeta_failure Vbmeta_source 0
                  ''vbmeta flag mutation requires a non-null image source'')
      | Some source \<Rightarrow>
          if \<not> any_flag flags \<or> is_size source < kVbmetaHeaderSize then preturn source
          else
            pbind (poll stop (vbmeta_failure Vbmeta_cancelled 0
                ''vbmeta flag mutation was cancelled'')) (\<lambda>_.
            pbind (vbmeta_header_loop source stop 0 (replicate kVbmetaHeaderSize 0)) (\<lambda>header.
            if take (length kVbmetaMagic) header \<noteq> kVbmetaMagic then
              pfail (vbmeta_failure Vbmeta_malformed 0 ''failed to find AVB0 magic at offset 0'')
            else
              let flag_byte = vbmeta_flag_byte flags (header ! kVbmetaFlagsByteOffset) in
              if flag_byte = header ! kVbmetaFlagsByteOffset then preturn source
              else preturn (vbmeta_flag_source source flag_byte))))"

declare vbmeta_header_loop.simps [simp del]

section \<open>The overlay stands for the patched image\<close>

text \<open>The image the device is meant to see.\<close>

definition vbmeta_patched :: "vbmeta_flags \<Rightarrow> byte list \<Rightarrow> byte list" where
  "vbmeta_patched flags content =
     (if any_flag flags \<and> kVbmetaHeaderSize \<le> length content
      then content[kVbmetaFlagsByteOffset :=
             vbmeta_flag_byte flags (content ! kVbmetaFlagsByteOffset)]
      else content)"

context image_content
begin

lemma vbmeta_overlay_content:
  "image_content (vbmeta_flag_source source b) (content[kVbmetaFlagsByteOffset := b])"
proof
  show "is_size (vbmeta_flag_source source b) = length (content[kVbmetaFlagsByteOffset := b])"
    by (simp add: vbmeta_flag_source_def size_content)
next
  fix offset n k data
  assume read: "is_read_at (vbmeta_flag_source source b) offset n = Inr (k, data)" and k: "k \<le> n"
  let ?c = "content[kVbmetaFlagsByteOffset := b]"
  from read obtain raw where raw: "is_read_at source offset n = Inr (k, raw)"
    and data: "data = (if offset \<le> kVbmetaFlagsByteOffset \<and> kVbmetaFlagsByteOffset - offset < k
                       then raw[kVbmetaFlagsByteOffset - offset := b] else raw)"
    by (auto simp: vbmeta_flag_source_def vbmeta_read_at_def kVbmetaFlagsByteOffset_def Let_def
        split: sum.splits if_splits prod.splits)
  note c = read_content [OF raw k]
  have "take k data = take k (drop offset ?c)"
  proof (rule nth_equalityI)
    show "length (take k data) = length (take k (drop offset ?c))"
      using c data by (auto split: if_splits)
  next
    fix i assume i: "i < length (take k data)"
    have same: "take k raw ! i = take k (drop offset content) ! i" using c by simp
    from i c data have "i < k" "i < length raw" "offset + i < length content"
      by (auto split: if_splits)
    moreover from this same have "raw ! i = content ! (offset + i)" by simp
    ultimately show "take k data ! i = take k (drop offset ?c) ! i"
      using data i c by (auto simp: nth_list_update split: if_splits)
  qed
  with c data show "k \<le> length data \<and> offset + k \<le> max offset (length ?c) \<and>
      take k data = take k (drop offset ?c)"
    by simp
qed

lemma vbmeta_header_loop_content:
  assumes "vbmeta_header_loop source stop completed header t = (Inr result, t')"
    and "completed \<le> length header" and "take completed header = take completed content"
  shows "result = take (length header) content"
  using assms
proof (induction "length header - completed" arbitrary: completed header t rule: less_induct)
  case less
  note loop = less.prems(1) [unfolded vbmeta_header_loop.simps [of source stop completed]]
  show ?case
  proof (cases "completed < length header")
    case False
    with loop less.prems show ?thesis by simp
  next
    case True
    with loop obtain n data where
      rd: "is_read_at source completed (length header - completed) = Inr (n, data)"
      and n: "0 < n" "n \<le> length header - completed"
      and rec: "vbmeta_header_loop source stop (completed + n)
                  (write_span header completed data) (Suc t) = (Inr result, t')"
      by (auto split: sum.splits if_splits prod.splits)
    from read_content [OF rd n(2)] have data: "n \<le> length data"
      "take n data = take n (drop completed content)" by auto
    have "take (completed + n) (write_span header completed data) = take (completed + n) content"
      using take_write_span [of n data completed header] data n True less.prems(3)
      by (simp add: take_add)
    with less.hyps [OF _ rec] n True show ?thesis by simp
  qed
qed

lemma apply_vbmeta_flags_source:
  assumes "apply_vbmeta_flags (Some source) flags stop t = (Inr out, t')"
  shows "image_content out (vbmeta_patched flags content)"
proof (cases "any_flag flags \<and> kVbmetaHeaderSize \<le> length content")
  case False
  with assms size_content image_content_axioms show ?thesis
    by (auto simp: apply_vbmeta_flags_def vbmeta_patched_def)
next
  case True
  with assms size_content obtain header u where
    hd: "vbmeta_header_loop source stop 0 (replicate kVbmetaHeaderSize 0) (Suc t) = (Inr header, u)"
    and out: "out = (if vbmeta_flag_byte flags (header ! kVbmetaFlagsByteOffset) =
                        header ! kVbmetaFlagsByteOffset then source
                     else vbmeta_flag_source source
                            (vbmeta_flag_byte flags (header ! kVbmetaFlagsByteOffset)))"
    by (auto simp: apply_vbmeta_flags_def Let_def split: if_splits)
  from vbmeta_header_loop_content [OF hd] True
  have byte: "header ! kVbmetaFlagsByteOffset = content ! kVbmetaFlagsByteOffset"
    by (simp add: kVbmetaHeaderSize_def kVbmetaFlagsByteOffset_def)
  show ?thesis
  proof (cases "vbmeta_flag_byte flags (header ! kVbmetaFlagsByteOffset) =
      header ! kVbmetaFlagsByteOffset")
    case same: True
    with True out byte image_content_axioms show ?thesis
      by (simp add: vbmeta_patched_def)
  next
    case False
    with True out byte vbmeta_overlay_content show ?thesis by (simp add: vbmeta_patched_def)
  qed
qed

end

text \<open>
  C31. Whatever the source does within its contract and whenever cancellation strikes, a successful
  \<open>apply_vbmeta_flags\<close> yields a source of the same size in which every exact read sees the original
  image with only the flag bits of byte 123 set; an image without flags to set or shorter than the
  header is unchanged.
\<close>

theorem apply_vbmeta_flags_content:
  assumes "apply_vbmeta_flags (Some (policy_source content policy)) flags stop t = (Inr out, t')"
  shows "is_size out = length content \<and>
    (\<forall>offset n bytes. image_read_exact out offset n = Some bytes \<longrightarrow>
       bytes = take n (drop offset (vbmeta_patched flags content)))"
proof -
  note c = policy.apply_vbmeta_flags_source [OF assms]
  from image_content.size_content [OF c] image_content.image_read_exact_content [OF c]
  show ?thesis by (simp add: vbmeta_patched_def)
qed

definition sample_vbmeta :: "byte list" where
  "sample_vbmeta = string_bytes ''AVB0'' @ replicate 252 0"

lemma sample_vbmeta_simps:
  "length sample_vbmeta = 256" "take (length kVbmetaMagic) sample_vbmeta = kVbmetaMagic"
  "sample_vbmeta ! 123 = 0"
  by (simp_all add: sample_vbmeta_def kVbmetaMagic_def nth_append)

theorem apply_vbmeta_flags_content_witness:
  "\<exists>out. apply_vbmeta_flags (Some (policy_source sample_vbmeta (\<lambda>offset n. Inr n)))
       \<lparr>disable_verity = True, disable_verification = True\<rparr> never_stop 0 = (Inr out, 2) \<and>
     (\<forall>offset n bytes. image_read_exact out offset n = Some bytes \<longrightarrow>
       bytes = take n (drop offset (sample_vbmeta[123 := 3])))"
proof -
  let ?src = "policy_source sample_vbmeta (\<lambda>offset n. Inr n)"
  let ?flags = "\<lparr>disable_verity = True, disable_verification = True\<rparr>"
  have loop: "vbmeta_header_loop ?src never_stop 0 (replicate 256 0) (Suc 0) =
      (Inr sample_vbmeta, 2)"
    by (simp add: vbmeta_header_loop.simps policy_source_def never_stop_def write_span_def
        sample_vbmeta_simps)
  have run: "apply_vbmeta_flags (Some ?src) ?flags never_stop 0 =
      (Inr (vbmeta_flag_source ?src 3), 2)"
    by (simp add: apply_vbmeta_flags_def any_flag_def kVbmetaHeaderSize_def loop
        policy.size_content sample_vbmeta_simps pbind_def poll_def never_stop_def
        kVbmetaFlagsByteOffset_def vbmeta_flag_byte_def preturn_def)
  have "vbmeta_patched ?flags sample_vbmeta = sample_vbmeta[123 := 3]"
    by (simp add: vbmeta_patched_def any_flag_def kVbmetaHeaderSize_def sample_vbmeta_simps
        kVbmetaFlagsByteOffset_def vbmeta_flag_byte_def)
  with run apply_vbmeta_flags_content [OF run] show ?thesis by simp
qed

end
