(* ===== verification/Sparse_Source.thy ===== *)
theory Sparse_Source
  imports Image_Source
begin

text \<open>
  The first part of \<^verbatim>\<open>src/image/sparse_image.cpp\<close>: the error type, checked 64-bit arithmetic, the
  little-endian fields and the exact read over an image source that may read short.
\<close>

section \<open>Errors and arithmetic\<close>

datatype sparse_error_kind =
    Sparse_malformed | Sparse_truncated | Sparse_unsupported | Sparse_source
  | Sparse_invalid_argument | Sparse_cancelled

record sparse_error =
  se_kind :: sparse_error_kind
  se_input_offset :: nat
  se_message :: string

definition sparse_err :: "sparse_error_kind \<Rightarrow> nat \<Rightarrow> string \<Rightarrow> sparse_error" where
  "sparse_err kind offset message =
     \<lparr>se_kind = kind, se_input_offset = offset, se_message = message\<rparr>"

definition cancelled_error :: "nat \<Rightarrow> string \<Rightarrow> sparse_error" where
  "cancelled_error offset message = sparse_err Sparse_cancelled offset message"

definition is_cancelled :: "sparse_error \<Rightarrow> bool" where
  "is_cancelled e = (se_kind e = Sparse_cancelled)"

text \<open>
  \<^verbatim>\<open>std::uint64_t\<close> operands; \<open>None\<close> is \<^verbatim>\<open>false\<close>. The source tests \<^verbatim>\<open>right > max - left\<close>, which for
  64-bit operands is that the sum exceeds the maximum.
\<close>

definition checked_add :: "nat \<Rightarrow> nat \<Rightarrow> nat option" where
  "checked_add left right = (if left + right > u64_max then None else Some (left + right))"

definition checked_multiply :: "nat \<Rightarrow> nat \<Rightarrow> nat option" where
  "checked_multiply left right =
     (if left \<noteq> 0 \<and> right > u64_max div left then None else Some (left * right))"

definition read_u16 :: "byte list \<Rightarrow> nat \<Rightarrow> u16" where
  "read_u16 bytes offset =
     ucast (bytes ! offset) OR push_bit 8 (ucast (bytes ! (offset + 1)))"

definition read_u32 :: "byte list \<Rightarrow> nat \<Rightarrow> u32" where
  "read_u32 bytes offset =
     ucast (bytes ! offset) OR push_bit 8 (ucast (bytes ! (offset + 1))) OR
     push_bit 16 (ucast (bytes ! (offset + 2))) OR push_bit 24 (ucast (bytes ! (offset + 3)))"

text \<open>The messages of cancelled operations.\<close>

definition kCancelledFileHeader :: string where
  "kCancelledFileHeader = ''sparse image parsing cancelled while reading the file header''"
definition kCancelledChunkTable :: string where
  "kCancelledChunkTable = ''sparse image parsing cancelled while reading the chunk table''"
definition kCancelledChecksumSearch :: string where
  "kCancelledChecksumSearch =
     ''sparse checksum verification cancelled while locating checksum chunks''"
definition kCancelledChecksumProcessing :: string where
  "kCancelledChecksumProcessing = ''sparse checksum verification cancelled while processing chunks''"
definition kCancelledRawChecksum :: string where
  "kCancelledRawChecksum = ''sparse checksum verification cancelled while scanning RAW data''"
definition kCancelledVirtualChecksum :: string where
  "kCancelledVirtualChecksum =
     ''sparse checksum verification cancelled while processing virtual data''"
definition kCancelledArtifactInspection :: string where
  "kCancelledArtifactInspection = ''flash artifact inspection cancelled while classifying the input''"

section \<open>Exact reads\<close>

text \<open>
  The loop polls before and after each read of the source. \<open>destination\<close> is the caller's buffer; the
  result is the filled buffer.
\<close>

function read_exact_loop ::
  "image_source \<Rightarrow> nat \<Rightarrow> stop_token \<Rightarrow> string \<Rightarrow> nat \<Rightarrow> byte list \<Rightarrow>
   (sparse_error, byte list) polled" where
  "read_exact_loop source offset stop msg completed destination =
     (if completed < length destination then
        (case checked_add offset completed of
           None \<Rightarrow> pfail (sparse_err Sparse_malformed offset
                     ''input read cursor overflows 64-bit space'')
         | Some current_offset \<Rightarrow>
             pbind (poll stop (cancelled_error current_offset msg)) (\<lambda>_.
             (case is_read_at source current_offset (length destination - completed) of result \<Rightarrow>
             pbind (poll stop (cancelled_error current_offset msg)) (\<lambda>_.
             (case result of
                Inl message \<Rightarrow> pfail (sparse_err Sparse_source current_offset message)
              | Inr (count, data) \<Rightarrow>
                  if count > length destination - completed then
                    pfail (sparse_err Sparse_source current_offset
                      ''image source reported reading more bytes than requested'')
                  else if count = 0 then
                    pfail (sparse_err Sparse_truncated current_offset
                      ''image source made no progress before the declared end'')
                  else
                    read_exact_loop source offset stop msg (completed + count)
                      (write_span destination completed data))))))
      else preturn destination)"
  by pat_completeness auto
termination
  by (relation "measure (\<lambda>(source, offset, stop, msg, completed, destination).
        length destination - completed)") auto

definition read_exact ::
  "image_source \<Rightarrow> nat \<Rightarrow> nat \<Rightarrow> byte list \<Rightarrow> stop_token \<Rightarrow> string \<Rightarrow>
   (sparse_error, byte list) polled" where
  "read_exact source source_sz offset destination stop msg =
     pbind (poll stop (cancelled_error offset msg)) (\<lambda>_.
       case checked_add offset (length destination) of
         None \<Rightarrow> pfail (sparse_err Sparse_malformed offset
                   ''input read range overflows 64-bit offset space'')
       | Some read_end \<Rightarrow>
           if read_end > source_sz then
             pfail (sparse_err Sparse_truncated offset
               ''sparse input ends before the declared data'')
           else read_exact_loop source offset stop msg 0 destination)"

declare read_exact_loop.simps [simp del]

section \<open>Lemmas\<close>

lemma checked_add_Some:
  "checked_add a b = Some c \<longleftrightarrow> c = a + b \<and> a + b \<le> u64_max"
  by (auto simp: checked_add_def not_less)

lemma checked_add_within: "a + b \<le> u64_max \<Longrightarrow> checked_add a b = Some (a + b)"
  by (auto simp: checked_add_def)

lemma checked_multiply_Some:
  "checked_multiply a b = Some c \<longleftrightarrow> c = a * b \<and> (a = 0 \<or> b \<le> u64_max div a)"
  by (auto simp: checked_multiply_def not_less)

lemma checked_multiply_bound:
  assumes "checked_multiply a b = Some c"
  shows "c \<le> u64_max"
proof -
  define limit where "limit = u64_max"
  from assms have c: "c = a * b" "a = 0 \<or> b \<le> limit div a"
    by (auto simp: checked_multiply_Some limit_def)
  have "a * (limit div a) \<le> limit" by (rule times_div_less_eq_dividend)
  with c have "c \<le> limit" by (metis le_trans mult_0 mult_le_mono2 zero_le)
  then show ?thesis by (simp add: limit_def)
qed

lemma is_cancelled_simps [simp]:
  "is_cancelled (cancelled_error off msg)"
  "is_cancelled (sparse_err k off msg) \<longleftrightarrow> k = Sparse_cancelled"
  by (simp_all add: is_cancelled_def cancelled_error_def sparse_err_def)

lemma read_exact_loop_agrees:
  "agrees_unless is_cancelled (read_exact_loop source offset stop msg completed destination)
     (read_exact_loop source offset never_stop msg completed destination)"
proof (induction "length destination - completed" arbitrary: completed destination
       rule: less_induct)
  case less
  show ?case
    by (subst (1 2) read_exact_loop.simps)
      (intro agrees_unless_intros less.hyps; simp)
qed

lemma read_exact_agrees:
  "agrees_unless is_cancelled (read_exact source source_sz offset destination stop msg)
     (read_exact source source_sz offset destination never_stop msg)"
  unfolding read_exact_def
  by (intro agrees_unless_intros read_exact_loop_agrees) simp_all

context image_content
begin

lemma read_exact_loop_content:
  assumes "read_exact_loop source offset stop msg completed destination t = (Inr result, t')"
    and "completed \<le> length destination"
    and "take completed destination = take completed (drop offset content)"
  shows "result = take (length destination) (drop offset content)"
  using assms
proof (induction "length destination - completed" arbitrary: completed destination t
       rule: less_induct)
  case less
  note loop = less.prems(1) [unfolded read_exact_loop.simps [of source offset stop msg completed]]
  show ?case
  proof (cases "completed < length destination")
    case False
    with loop less.prems show ?thesis by simp
  next
    case True
    with loop obtain n data u where
      rd: "is_read_at source (offset + completed) (length destination - completed) = Inr (n, data)"
      and n: "0 < n" "n \<le> length destination - completed"
      and rec: "read_exact_loop source offset stop msg (completed + n)
                  (write_span destination completed data) u = (Inr result, t')"
      by (auto simp: checked_add_Some split: sum.splits if_splits prod.splits option.splits)
    from read_content [OF rd n(2)] have data: "n \<le> length data"
      "take n data = take n (drop (offset + completed) content)" by auto
    have "take (completed + n) (write_span destination completed data) =
        take (completed + n) (drop offset content)"
      using take_write_span [of n data completed destination] data n True less.prems(3)
      by (simp add: take_add add.commute)
    with less.hyps [OF _ rec] n True show ?thesis by simp
  qed
qed

lemma read_exact_content:
  assumes "read_exact source (length content) offset destination stop msg t = (Inr result, t')"
  shows "result = take (length destination) (drop offset content)"
    and "offset + length destination \<le> length content"
  using assms
  by (auto simp: read_exact_def checked_add_Some dest: read_exact_loop_content split: option.splits if_splits)

end

end
