(* ===== verification/Sparse_Crc.thy ===== *)
theory Sparse_Crc
  imports Sparse_Source
begin

text \<open>
  The CRC-32 of \<^verbatim>\<open>src/image/sparse_image.cpp\<close>: the bitwise update, its cancellable form, and the
  logarithmic update for repeated patterns by squaring linear operators over GF(2), with the proof
  that the latter computes the CRC of the repeated data.
\<close>

section \<open>Bitwise CRC\<close>

text \<open>\<^verbatim>\<open>mask\<close> is the two's complement negation of the low bit: no bits or all of them.\<close>

definition crc_step :: "u32 \<Rightarrow> u32" where
  "crc_step crc = drop_bit 1 crc XOR (0xEDB88320 AND (- (crc AND 1)))"

definition crc_byte :: "byte \<Rightarrow> u32 \<Rightarrow> u32" where
  "crc_byte b crc = (crc_step ^^ 8) (crc XOR ucast b)"

definition update_crc32 :: "u32 \<Rightarrow> byte list \<Rightarrow> u32" where
  "update_crc32 crc bytes = NOT (fold crc_byte bytes (NOT crc))"

definition kChecksumCancellationGranularity :: nat where
  "kChecksumCancellationGranularity = 4 * 1024"

function update_crc32_loop ::
  "u32 \<Rightarrow> byte list \<Rightarrow> stop_token \<Rightarrow> nat \<Rightarrow> nat \<Rightarrow> (sparse_error, u32) polled" where
  "update_crc32_loop crc bytes stop input_offset completed =
     (if completed < length bytes then
        (case checked_add input_offset completed of
           None \<Rightarrow> pfail (sparse_err Sparse_malformed input_offset
                     ''CRC input cursor overflows 64-bit offset space'')
         | Some current_offset \<Rightarrow>
             pbind (poll stop (cancelled_error current_offset kCancelledRawChecksum)) (\<lambda>_.
               let amount = min kChecksumCancellationGranularity (length bytes - completed) in
               update_crc32_loop (update_crc32 crc (take amount (drop completed bytes))) bytes stop
                 input_offset (completed + amount)))
      else
        (\<lambda>t. if stop t then
               (case checked_add input_offset completed of
                  None \<Rightarrow> (Inl (sparse_err Sparse_malformed input_offset
                            ''CRC input cursor overflows 64-bit offset space''), Suc t)
                | Some current_offset \<Rightarrow>
                    (Inl (cancelled_error current_offset kCancelledRawChecksum), Suc t))
             else (Inr crc, Suc t)))"
  by pat_completeness auto
termination
  by (relation "measure (\<lambda>(crc, bytes, stop, input_offset, completed). length bytes - completed)")
    (auto simp: kChecksumCancellationGranularity_def)

definition update_crc32_cancellable ::
  "u32 \<Rightarrow> byte list \<Rightarrow> stop_token \<Rightarrow> nat \<Rightarrow> (sparse_error, u32) polled" where
  "update_crc32_cancellable crc bytes stop input_offset =
     update_crc32_loop crc bytes stop input_offset 0"

section \<open>Linear operators\<close>

text \<open>\<^verbatim>\<open>CrcLinearOperator\<close>: where each basis bit moves.\<close>

type_synonym crc_linear_operator = "u32 list"

function apply_crc_loop :: "crc_linear_operator \<Rightarrow> nat \<Rightarrow> u32 \<Rightarrow> u32 \<Rightarrow> u32" where
  "apply_crc_loop operation bit_index value result =
     (if value \<noteq> 0 then
        apply_crc_loop operation (bit_index + 1) (drop_bit 1 value)
          (if value AND 1 \<noteq> 0 then result XOR operation ! bit_index else result)
      else result)"
  by pat_completeness auto
termination
  by (relation "measure (\<lambda>(operation, bit_index, value, result). unat value)")
    (auto simp: drop_bit_Suc unat_div word_unat_eq_iff)

definition apply_crc_operator :: "crc_linear_operator \<Rightarrow> u32 \<Rightarrow> u32" where
  "apply_crc_operator operation value = apply_crc_loop operation 0 value 0"

definition square_crc_operator :: "crc_linear_operator \<Rightarrow> crc_linear_operator" where
  "square_crc_operator operation =
     map (\<lambda>b. apply_crc_operator operation (operation ! b)) [0..<32]"

definition zero_bit_crc_operator :: crc_linear_operator where
  "zero_bit_crc_operator =
     map (\<lambda>b. let basis = push_bit b 1 in
            drop_bit 1 basis XOR (if basis AND 1 \<noteq> 0 then 0xEDB88320 else 0)) [0..<32]"

definition zero_byte_crc_operator :: crc_linear_operator where
  "zero_byte_crc_operator =
     square_crc_operator (square_crc_operator (square_crc_operator zero_bit_crc_operator))"

section \<open>Repeated patterns\<close>

fun crc_repeat_loop ::
  "stop_token \<Rightarrow> nat \<Rightarrow> nat \<Rightarrow> crc_linear_operator \<Rightarrow> u32 \<Rightarrow> u32 \<Rightarrow> (sparse_error, u32) polled" where
  "crc_repeat_loop stop input_offset remaining power_operator power_bias crc =
     (if remaining \<noteq> 0 then
        pbind (poll stop (cancelled_error input_offset kCancelledVirtualChecksum)) (\<lambda>_.
          let crc' = (if remaining mod 2 \<noteq> 0
                      then apply_crc_operator power_operator crc XOR power_bias else crc);
              remaining' = remaining div 2 in
          if remaining' \<noteq> 0 then
            crc_repeat_loop stop input_offset remaining' (square_crc_operator power_operator)
              (apply_crc_operator power_operator power_bias XOR power_bias) crc'
          else crc_repeat_loop stop input_offset remaining' power_operator power_bias crc')
      else preturn crc)"

definition update_crc_repeated ::
  "u32 \<Rightarrow> byte list \<Rightarrow> nat \<Rightarrow> stop_token \<Rightarrow> nat \<Rightarrow> (sparse_error, u32) polled" where
  "update_crc_repeated prefix_crc pattern byte_count stop input_offset =
     pbind (poll stop (cancelled_error input_offset kCancelledVirtualChecksum)) (\<lambda>_.
       let four_bytes = square_crc_operator (square_crc_operator zero_byte_crc_operator);
           remainder = byte_count mod length pattern in
       pbind (crc_repeat_loop stop input_offset (byte_count div length pattern) four_bytes
                (update_crc32 0 pattern) prefix_crc) (\<lambda>crc.
       pbind (poll stop (cancelled_error input_offset kCancelledVirtualChecksum)) (\<lambda>_.
       preturn (if remainder \<noteq> 0 then update_crc32 crc (take remainder pattern) else crc))))"

definition fill_pattern :: "u32 \<Rightarrow> byte list" where
  "fill_pattern value =
     [ucast (value AND 0xFF), ucast (drop_bit 8 value AND 0xFF),
      ucast (drop_bit 16 value AND 0xFF), ucast (drop_bit 24 value AND 0xFF)]"

declare update_crc32_loop.simps [simp del]
declare apply_crc_loop.simps [simp del]
declare crc_repeat_loop.simps [simp del]

section \<open>The update is a fold\<close>

lemma update_crc32_append: "update_crc32 (update_crc32 crc xs) ys = update_crc32 crc (xs @ ys)"
  by (simp add: update_crc32_def)

lemma update_crc32_Nil [simp]: "update_crc32 crc [] = crc"
  by (simp add: update_crc32_def)

lemma update_crc32_loop_Inr:
  "update_crc32_loop crc bytes stop input_offset completed t = (Inr r, t') \<Longrightarrow>
   r = update_crc32 crc (drop completed bytes)"
proof (induction crc bytes stop input_offset completed arbitrary: t rule: update_crc32_loop.induct)
  case (1 crc bytes stop input_offset completed)
  let ?n = "min kChecksumCancellationGranularity (length bytes - completed)"
  show ?case
  proof (cases "completed < length bytes")
    case False
    with "1.prems" show ?thesis
      by (subst (asm) update_crc32_loop.simps) (auto split: if_splits option.splits)
  next
    case True
    with "1.prems" obtain off u where off: "checked_add input_offset completed = Some off"
      and rec: "update_crc32_loop (update_crc32 crc (take ?n (drop completed bytes))) bytes stop
                  input_offset (completed + ?n) u = (Inr r, t')"
      by (subst (asm) update_crc32_loop.simps) (auto simp: Let_def split: option.splits)
    from "1.IH" [OF True off refl rec] show ?thesis
      by (simp add: update_crc32_append take_drop_append)
  qed
qed

section \<open>Linearity over GF(2)\<close>

lemma crc_step_odd: "crc_step crc = drop_bit 1 crc XOR (if odd crc then 0xEDB88320 else 0)"
proof (cases "odd crc")
  case True
  then have "crc AND 1 = 1" by (simp add: and_one_eq odd_iff_mod_2_eq_one)
  with True show ?thesis by (simp add: crc_step_def)
next
  case False
  then have "crc AND 1 = 0" by (simp add: and_one_eq even_iff_mod_2_eq_zero)
  with False show ?thesis by (simp add: crc_step_def)
qed

lemma crc_step_xor: "crc_step (a XOR b) = crc_step a XOR crc_step b"
  by (auto simp: crc_step_odd drop_bit_xor even_xor_iff ac_simps)

lemma low_bit_odd: "(v AND 1 \<noteq> 0) = odd v" for v :: u32
  by (simp add: and_one_eq odd_iff_mod_2_eq_one)

lemma push_bit_low:
  fixes v :: u32
  shows "push_bit i v = push_bit i (if odd v then 1 else 0) XOR push_bit (Suc i) (drop_bit 1 v)"
proof (rule bit_eqI)
  fix n
  consider "n < i" | "n = i" | k where "n = Suc i + k" by (metis less_iff_Suc_add linorder_neqE_nat add_Suc)
  then show "bit (push_bit i v) n =
      bit (push_bit i (if odd v then 1 else 0) XOR push_bit (Suc i) (drop_bit 1 v)) n"
    by cases (auto simp: bit_simps bit_1_iff bit_0 simp del: push_bit_Suc)
qed

text \<open>
  A list represents a function when the function is linear and the list holds the images of the basis
  vectors. Then applying the list is applying the function, and squaring composes it with itself.
\<close>

locale crc_operator =
  fixes operation :: crc_linear_operator and f :: "u32 \<Rightarrow> u32"
  assumes linear: "f (a XOR b) = f a XOR f b"
    and basis: "i < 32 \<Longrightarrow> operation ! i = f (push_bit i 1)"
begin

lemma zero: "f 0 = 0"
  using linear [of 0 0] by simp

lemma apply_loop:
  "unat v < 2 ^ (32 - bit_index) \<Longrightarrow> bit_index \<le> 32 \<Longrightarrow>
   apply_crc_loop operation bit_index v result = result XOR f (push_bit bit_index v)"
proof (induction "unat v" arbitrary: bit_index v result rule: less_induct)
  case less
  show ?case
  proof (cases "v = 0")
    case True
    then show ?thesis by (simp add: apply_crc_loop.simps zero)
  next
    case False
    then have lt: "bit_index < 32" using less.prems by (cases "bit_index = 32") (auto simp: word_unat_eq_iff)
    let ?half = "drop_bit 1 v"
    have half: "unat ?half = unat v div 2" by (simp add: drop_bit_Suc unat_div)
    have "unat ?half < unat v" using False half by (simp add: word_unat_eq_iff)
    moreover have "unat ?half < 2 ^ (32 - Suc bit_index)"
    proof -
      from lt have "32 - bit_index = Suc (32 - Suc bit_index)" by simp
      with less.prems(1) have "unat v < 2 ^ (32 - Suc bit_index) * 2" by simp
      then show ?thesis unfolding half by (rule less_mult_imp_div_less)
    qed
    moreover have split: "push_bit bit_index v =
        push_bit bit_index (if odd v then 1 else 0) XOR push_bit (Suc bit_index) ?half"
      by (rule push_bit_low)
    ultimately show ?thesis
      using less.hyps [of ?half "bit_index + 1"] lt basis [OF lt] False
      by (subst apply_crc_loop.simps, unfold low_bit_odd) (auto simp: linear zero ac_simps)
  qed
qed

lemma apply_operator: "apply_crc_operator operation v = f v"
  using apply_loop [of v 0 0] unsigned_less [of v] by (simp add: apply_crc_operator_def)

lemma square_operator: "crc_operator (square_crc_operator operation) (f \<circ> f)"
  by unfold_locales (simp_all add: linear square_crc_operator_def apply_operator basis)

end

lemma crc_steps_xor: "(crc_step ^^ n) (a XOR b) = (crc_step ^^ n) a XOR (crc_step ^^ n) b"
  by (induction n) (auto simp: crc_step_xor)

lemma crc_steps_zero [simp]: "(crc_step ^^ n) 0 = 0"
  using crc_steps_xor [of n 0 0] by simp

lemma funpow_double: "(f ^^ n) \<circ> (f ^^ n) = f ^^ (2 * n)"
  by (simp add: mult_2 funpow_add)

interpretation zero_bit: crc_operator zero_bit_crc_operator crc_step
proof
  show "crc_step (a XOR b) = crc_step a XOR crc_step b" for a b by (rule crc_step_xor)
next
  fix i :: nat
  assume "i < 32"
  then show "zero_bit_crc_operator ! i = crc_step (push_bit i 1)"
    by (simp add: zero_bit_crc_operator_def crc_step_odd Let_def low_bit_odd [simplified])
qed

lemma zero_bits_squared:
  "crc_operator operation (crc_step ^^ n) \<Longrightarrow>
   crc_operator (square_crc_operator operation) (crc_step ^^ (2 * n))"
  using crc_operator.square_operator by (metis funpow_double)

interpretation zero_byte: crc_operator zero_byte_crc_operator "crc_step ^^ 8"
  using zero_bits_squared [OF zero_bits_squared [OF zero_bits_squared, of _ 1]]
    zero_bit.crc_operator_axioms
  by (simp add: zero_byte_crc_operator_def)

interpretation four_bytes: crc_operator
  "square_crc_operator (square_crc_operator zero_byte_crc_operator)" "crc_step ^^ 32"
  using zero_bits_squared [OF zero_bits_squared [OF zero_byte.crc_operator_axioms]] by simp

section \<open>The repeated update\<close>

lemma fold_crc_byte_affine:
  "fold crc_byte bytes s = (crc_step ^^ (8 * length bytes)) s XOR fold crc_byte bytes 0"
proof (induction bytes arbitrary: s)
  case (Cons b bytes)
  have "(crc_step ^^ (8 * length (b # bytes))) s =
      (crc_step ^^ (8 * length bytes)) ((crc_step ^^ 8) s)"
  proof -
    have "8 * length (b # bytes) = 8 * length bytes + 8" by simp
    then show ?thesis by (simp only: funpow_add o_apply)
  qed
  with Cons [of "crc_byte b s"] Cons [of "crc_byte b 0"] show ?case
    by (simp add: crc_byte_def crc_steps_xor ac_simps)
qed simp

lemma update_crc32_affine:
  "update_crc32 crc bytes = (crc_step ^^ (8 * length bytes)) crc XOR update_crc32 0 bytes"
proof -
  let ?Z = "crc_step ^^ (8 * length bytes)"
  have "NOT crc = crc XOR NOT 0" by simp
  then have "?Z (NOT crc) = ?Z crc XOR ?Z (NOT 0)"
    by (simp only: crc_steps_xor)
  then show ?thesis
    unfolding update_crc32_def fold_crc_byte_affine [of bytes "NOT crc"]
      fold_crc_byte_affine [of bytes "NOT 0"]
    by (intro bit_eqI) (auto simp: bit_simps)
qed

lemma funpow_halve: "(P ^^ n) x = ((P \<circ> P) ^^ (n div 2)) (if odd n then P x else x)"
proof -
  let ?y = "if odd n then P x else x"
  have "P \<circ> P = P ^^ 2" by (simp add: numeral_2_eq_2)
  then have "((P \<circ> P) ^^ (n div 2)) ?y = (P ^^ (2 * (n div 2))) ?y" by (simp only: funpow_mult)
  also have "\<dots> = (P ^^ n) x"
  proof (cases "odd n")
    case True
    then have "n = Suc (2 * (n div 2))" by simp
    then have "(P ^^ n) x = (P ^^ (2 * (n div 2))) (P x)"
      by (metis funpow_Suc_right o_apply)
    with True show ?thesis by simp
  qed simp
  finally show ?thesis by simp
qed

lemma crc_repeat_loop_Inr:
  "crc_operator operation f \<Longrightarrow>
   crc_repeat_loop stop input_offset remaining operation bias crc t = (Inr r, t') \<Longrightarrow>
   r = ((\<lambda>c. f c XOR bias) ^^ remaining) crc"
proof (induction remaining arbitrary: operation f bias crc t rule: less_induct)
  case (less remaining)
  let ?P = "\<lambda>c. f c XOR bias"
  note op = crc_operator.apply_operator [OF less.prems(1)]
  have parity: "(remaining mod 2 \<noteq> 0) = odd remaining" by presburger
  define crc' where "crc' = (if odd remaining then ?P crc else crc)"
  show ?case
  proof (cases "remaining = 0")
    case True
    with less.prems show ?thesis by (simp add: crc_repeat_loop.simps)
  next
    case False
    have power: "(?P ^^ remaining) crc = ((?P \<circ> ?P) ^^ (remaining div 2)) crc'"
      unfolding crc'_def by (rule funpow_halve)
    have square: "?P \<circ> ?P = (\<lambda>c. (f \<circ> f) c XOR (f bias XOR bias))"
      using crc_operator.linear [OF less.prems(1)] by (simp add: fun_eq_iff ac_simps)
    obtain u where step: "(if remaining div 2 \<noteq> 0 then
        crc_repeat_loop stop input_offset (remaining div 2) (square_crc_operator operation)
          (f bias XOR bias) crc'
      else crc_repeat_loop stop input_offset (remaining div 2) operation bias crc') u = (Inr r, t')"
      using less.prems(2) [unfolded crc_repeat_loop.simps [of stop input_offset remaining] Let_def
          ext [of "apply_crc_operator operation" f, OF op] parity crc'_def [symmetric]] False
      by auto
    show ?thesis
    proof (cases "remaining div 2 = 0")
      case True
      with step power show ?thesis by (simp add: crc_repeat_loop.simps)
    next
      case half: False
      then have "remaining div 2 < remaining" by simp
      from less.IH [OF this crc_operator.square_operator [OF less.prems(1)]] step half
      show ?thesis unfolding power square by simp
    qed
  qed
qed

text \<open>The first \<open>n\<close> octets of a pattern repeated for ever.\<close>

definition repeat_bytes :: "byte list \<Rightarrow> nat \<Rightarrow> byte list" where
  "repeat_bytes pattern n =
     concat (replicate (n div length pattern) pattern) @ take (n mod length pattern) pattern"

lemma update_crc32_replicate:
  "update_crc32 crc (concat (replicate n pattern)) = ((\<lambda>c. update_crc32 c pattern) ^^ n) crc"
  by (induction n arbitrary: crc) (simp_all add: funpow_Suc_right del: funpow.simps(2) flip: update_crc32_append)

lemma update_crc_repeated_Inr:
  assumes "length pattern = 4"
    and "update_crc_repeated crc pattern n stop input_offset t = (Inr r, t')"
  shows "r = update_crc32 crc (repeat_bytes pattern n)"
proof -
  let ?four = "square_crc_operator (square_crc_operator zero_byte_crc_operator)"
  from assms(2) obtain mid u v where
    loop: "crc_repeat_loop stop input_offset (n div 4) ?four (update_crc32 0 pattern) crc u =
             (Inr mid, v)"
    and r: "r = (if n mod 4 \<noteq> 0 then update_crc32 mid (take (n mod 4) pattern) else mid)"
    by (auto simp: update_crc_repeated_def Let_def assms(1))
  have "(\<lambda>c. (crc_step ^^ 32) c XOR update_crc32 0 pattern) = (\<lambda>c. update_crc32 c pattern)"
    by (rule ext) (use update_crc32_affine [of _ pattern, symmetric] assms(1) in simp)
  with crc_repeat_loop_Inr [OF four_bytes.crc_operator_axioms loop]
  have "mid = update_crc32 crc (concat (replicate (n div 4) pattern))"
    by (simp add: update_crc32_replicate)
  with r assms(1) show ?thesis by (simp add: repeat_bytes_def flip: update_crc32_append)
qed

section \<open>Cancellation\<close>

lemma update_crc32_loop_agrees:
  "input_offset + length bytes \<le> u64_max \<Longrightarrow> completed \<le> length bytes \<Longrightarrow>
   agrees_unless is_cancelled (update_crc32_loop crc bytes stop input_offset completed)
     (update_crc32_loop crc bytes never_stop input_offset completed)"
proof (induction "length bytes - completed" arbitrary: crc completed rule: less_induct)
  case less
  show ?case
  proof (cases "completed < length bytes")
    case True
    let ?n = "min kChecksumCancellationGranularity (length bytes - completed)"
    have "length bytes - (completed + ?n) < length bytes - completed"
      using True by (auto simp: kChecksumCancellationGranularity_def)
    note IH = less.hyps [OF this less.prems(1)]
    show ?thesis
      by (subst (1 2) update_crc32_loop.simps)
        (simp only: Let_def, intro agrees_unless_intros IH; use True in simp)
  next
    case False
    then have "checked_add input_offset completed = Some (input_offset + completed)"
      using less.prems by (intro checked_add_within) simp
    with False show ?thesis
      by (subst (1 2) update_crc32_loop.simps) (auto simp: agrees_unless_def never_stop_def)
  qed
qed

lemma update_crc32_cancellable_agrees:
  "input_offset + length bytes \<le> u64_max \<Longrightarrow>
   agrees_unless is_cancelled (update_crc32_cancellable crc bytes stop input_offset)
     (update_crc32_cancellable crc bytes never_stop input_offset)"
  by (simp add: update_crc32_cancellable_def update_crc32_loop_agrees)

lemma crc_repeat_loop_agrees:
  "agrees_unless is_cancelled (crc_repeat_loop stop input_offset remaining operation bias crc)
     (crc_repeat_loop never_stop input_offset remaining operation bias crc)"
proof (induction remaining arbitrary: operation bias crc rule: less_induct)
  case (less remaining)
  show ?case
    by (subst (1 2) crc_repeat_loop.simps)
      (simp only: Let_def, intro agrees_unless_intros less.IH; simp)
qed

lemma update_crc_repeated_agrees:
  "agrees_unless is_cancelled (update_crc_repeated crc pattern n stop input_offset)
     (update_crc_repeated crc pattern n never_stop input_offset)"
  unfolding update_crc_repeated_def Let_def
  by (intro agrees_unless_intros crc_repeat_loop_agrees) simp_all

section \<open>Outcomes\<close>

text \<open>A token that never stops cannot make a routine fail.\<close>

lemma pbind_poll: "\<not> stop t \<Longrightarrow> pbind (poll stop e) f t = f () (Suc t)"
  by (simp add: pbind_def poll_def)

lemma crc_repeat_loop_outcome:
  "(\<exists>r t'. crc_repeat_loop stop input_offset remaining operation bias crc t = (Inr r, t')) \<or>
   (\<exists>t' k. crc_repeat_loop stop input_offset remaining operation bias crc t =
      (Inl (cancelled_error input_offset kCancelledVirtualChecksum), t') \<and> stop k)"
proof (induction remaining arbitrary: operation bias crc t rule: less_induct)
  case (less remaining)
  show ?case
  proof (cases "remaining = 0 \<or> stop t")
    case True
    then show ?thesis
      by (subst (1 2) crc_repeat_loop.simps) (auto simp: pbind_def poll_def preturn_def)
  next
    case False
    define crc' where "crc' = (if remaining mod 2 \<noteq> 0
      then apply_crc_operator operation crc XOR bias else crc)"
    have "crc_repeat_loop stop input_offset remaining operation bias crc t =
      (if remaining div 2 \<noteq> 0 then
         crc_repeat_loop stop input_offset (remaining div 2) (square_crc_operator operation)
           (apply_crc_operator operation bias XOR bias) crc'
       else crc_repeat_loop stop input_offset (remaining div 2) operation bias crc') (Suc t)"
      unfolding crc_repeat_loop.simps [of stop input_offset remaining] Let_def crc'_def [symmetric]
      using False by (simp only: pbind_poll simp_thms if_True if_False de_Morgan_disj)
    with less.IH [of "remaining div 2" "square_crc_operator operation" _ crc' "Suc t"]
      less.IH [of "remaining div 2" operation bias crc' "Suc t"] False
    show ?thesis by (cases "remaining div 2 = 0") simp_all
  qed
qed

lemma update_crc_repeated_outcome:
  "(\<exists>r. fst (update_crc_repeated crc pattern n stop input_offset t) = Inr r) \<or>
   fst (update_crc_repeated crc pattern n stop input_offset t) =
     Inl (cancelled_error input_offset kCancelledVirtualChecksum) \<and> (\<exists>k. stop k)"
proof -
  let ?four = "square_crc_operator (square_crc_operator zero_byte_crc_operator)"
  consider "stop t"
    | r u where "\<not> stop t" "crc_repeat_loop stop input_offset (n div length pattern) ?four
        (update_crc32 0 pattern) crc (Suc t) = (Inr r, u)"
    | u k where "\<not> stop t" "stop k" "crc_repeat_loop stop input_offset (n div length pattern) ?four
        (update_crc32 0 pattern) crc (Suc t) =
        (Inl (cancelled_error input_offset kCancelledVirtualChecksum), u)"
    using crc_repeat_loop_outcome [of stop input_offset "n div length pattern" ?four
        "update_crc32 0 pattern" crc "Suc t"] by blast
  then show ?thesis
  proof cases
    case (2 r u)
    then show ?thesis
      by (cases "stop u") (auto simp: update_crc_repeated_def pbind_def poll_def preturn_def Let_def)
  qed (auto simp: update_crc_repeated_def pbind_def poll_def Let_def)
qed

text \<open>
  C15. The logarithmic update by operator squaring is the CRC of the repeated data, for every prefix,
  every four-octet pattern and every length: an uncancelled run always returns it, and a cancelled
  run can only return it or the cancellation error.
\<close>

theorem update_crc_repeated_correct:
  assumes "length pattern = 4"
  shows "fst (update_crc_repeated crc pattern n never_stop input_offset t) =
           Inr (update_crc32 crc (repeat_bytes pattern n)) \<and>
         (fst (update_crc_repeated crc pattern n stop input_offset t) =
            Inr (update_crc32 crc (repeat_bytes pattern n)) \<or>
          fst (update_crc_repeated crc pattern n stop input_offset t) =
            Inl (cancelled_error input_offset kCancelledVirtualChecksum))"
  using update_crc_repeated_outcome [of crc pattern n never_stop input_offset t]
    update_crc_repeated_outcome [of crc pattern n stop input_offset t]
    update_crc_repeated_Inr [OF assms, of crc n]
  by (metis never_stop_def prod.collapse)

theorem update_crc_repeated_correct_witness:
  "fst (update_crc_repeated 0 [1, 2, 3, 4] 10 never_stop 0 0) =
     Inr (update_crc32 0 [1, 2, 3, 4, 1, 2, 3, 4, 1, 2])"
proof -
  have "repeat_bytes [1, 2, 3, 4] 10 = [1, 2, 3, 4, 1, 2, 3, 4, 1, 2]"
    by (simp add: repeat_bytes_def numeral_2_eq_2 [THEN arg_cong [of _ _ "\<lambda>n. replicate n [1, 2, 3, 4]"]])
  then show ?thesis
    using update_crc_repeated_correct [of "[1, 2, 3, 4]" 0 10 0 0 never_stop] by simp
qed

end
