(* ===== verification/Sparse_Image.thy ===== *)
theory Sparse_Image
  imports Sparse_Crc
begin

text \<open>
  The Android sparse reader \<^verbatim>\<open>SparseImage\<close> and the classifier \<^verbatim>\<open>FlashArtifact::inspect\<close> of
  \<^verbatim>\<open>src/image/sparse_image.cpp\<close>: opening (header, chunk table, checksums) and reading a window of the
  expanded output.
\<close>

section \<open>Data\<close>

definition kAndroidSparseMagic :: u32 where "kAndroidSparseMagic = 0xED26FF3A"
definition kAndroidSparseMajorVersion :: u16 where "kAndroidSparseMajorVersion = 1"
definition kSparseChunkRaw :: u16 where "kSparseChunkRaw = 0xCAC1"
definition kSparseChunkFill :: u16 where "kSparseChunkFill = 0xCAC2"
definition kSparseChunkDontCare :: u16 where "kSparseChunkDontCare = 0xCAC3"
definition kSparseChunkCrc32 :: u16 where "kSparseChunkCrc32 = 0xCAC4"
definition kMaxSparseChunks :: nat where "kMaxSparseChunks = 1000000"
definition kSparseHeaderSize :: nat where "kSparseHeaderSize = 28"
definition kChunkHeaderSize :: nat where "kChunkHeaderSize = 12"
definition kChecksumWindowSize :: nat where "kChecksumWindowSize = 64 * 1024"

text \<open>\<^verbatim>\<open>max_size()\<close> of a vector of 48-octet chunks.\<close>

definition chunks_max_size :: nat where "chunks_max_size = (2 ^ 63 - 1) div 48"

datatype sparse_chunk_kind = Chunk_raw | Chunk_fill | Chunk_dont_care | Chunk_crc32

record sparse_chunk =
  sc_kind :: sparse_chunk_kind
  sc_block_count :: nat
  sc_input_offset :: nat
  sc_output_offset :: nat
  sc_output_size :: nat
  sc_fill_value :: "u32 option"
  sc_checksum :: "u32 option"

record sparse_header =
  sh_major_version :: u16
  sh_minor_version :: u16
  sh_file_header_size :: nat
  sh_chunk_header_size :: nat
  sh_block_size :: nat
  sh_total_blocks :: nat
  sh_total_chunks :: nat
  sh_image_checksum :: u32

record sparse_image =
  si_source :: image_source
  si_header :: sparse_header
  si_output_size :: nat
  si_chunks :: "sparse_chunk list"
  si_output_chunk_indices :: "nat list"

section \<open>Checksums\<close>

function crc_source_loop ::
  "image_source \<Rightarrow> nat \<Rightarrow> stop_token \<Rightarrow> nat \<Rightarrow> nat \<Rightarrow> u32 \<Rightarrow> byte list \<Rightarrow> (sparse_error, u32) polled" where
  "crc_source_loop source source_sz stop input_offset byte_count crc buffer =
     (if byte_count \<noteq> 0 then
        pbind (poll stop (cancelled_error input_offset kCancelledRawChecksum)) (\<lambda>_.
          let amount = min byte_count kChecksumWindowSize in
          pbind (read_exact source source_sz input_offset (take amount buffer) stop
                   kCancelledRawChecksum) (\<lambda>filled.
          pbind (update_crc32_cancellable crc filled stop input_offset) (\<lambda>crc'.
          (case checked_add input_offset amount of
             None \<Rightarrow> pfail (sparse_err Sparse_malformed input_offset
                       ''CRC input cursor overflows 64-bit offset space'')
           | Some next_offset \<Rightarrow>
               crc_source_loop source source_sz stop next_offset (byte_count - amount) crc'
                 (filled @ drop amount buffer)))))
      else preturn crc)"
  by pat_completeness auto
termination
  by (relation "measure (\<lambda>(source, source_sz, stop, input_offset, byte_count, crc, buffer). byte_count)")
    (auto simp: kChecksumWindowSize_def)

definition update_crc_from_source ::
  "image_source \<Rightarrow> nat \<Rightarrow> nat \<Rightarrow> nat \<Rightarrow> u32 \<Rightarrow> stop_token \<Rightarrow> (sparse_error, u32) polled" where
  "update_crc_from_source source source_sz input_offset byte_count crc stop =
     crc_source_loop source source_sz stop input_offset byte_count crc
       (replicate kChecksumWindowSize 0)"

text \<open>The first loop of \<^verbatim>\<open>verify_checksums\<close>: is there a CRC chunk?\<close>

fun has_crc_chunk :: "stop_token \<Rightarrow> sparse_chunk list \<Rightarrow> (sparse_error, bool) polled" where
  "has_crc_chunk stop [] = preturn False"
| "has_crc_chunk stop (c # cs) =
     pbind (poll stop (cancelled_error (sc_input_offset c) kCancelledChecksumSearch)) (\<lambda>_.
       if sc_kind c = Chunk_crc32 then preturn True else has_crc_chunk stop cs)"

text \<open>
  The second loop. \<^verbatim>\<open>*chunk.fill_value\<close> of a fill chunk is always present after \<^verbatim>\<open>open\<close> built the
  table; without it the model takes the pattern of zero.
\<close>

fun verify_chunks ::
  "image_source \<Rightarrow> nat \<Rightarrow> stop_token \<Rightarrow> sparse_chunk list \<Rightarrow> u32 \<Rightarrow> (sparse_error, u32) polled" where
  "verify_chunks source source_sz stop [] crc = preturn crc"
| "verify_chunks source source_sz stop (c # cs) crc =
     pbind (poll stop (cancelled_error (sc_input_offset c) kCancelledChecksumProcessing)) (\<lambda>_.
     pbind
       (case sc_kind c of
          Chunk_raw \<Rightarrow>
            update_crc_from_source source source_sz (sc_input_offset c) (sc_output_size c) crc stop
        | Chunk_fill \<Rightarrow>
            update_crc_repeated crc
              (fill_pattern (case sc_fill_value c of None \<Rightarrow> 0 | Some v \<Rightarrow> v))
              (sc_output_size c) stop (sc_input_offset c)
        | Chunk_dont_care \<Rightarrow>
            update_crc_repeated crc [0, 0, 0, 0] (sc_output_size c) stop (sc_input_offset c)
        | Chunk_crc32 \<Rightarrow>
            if sc_checksum c \<noteq> Some crc then
              pfail (sparse_err Sparse_malformed (sc_input_offset c)
                ''CRC32 chunk does not match the expanded data preceding it'')
            else preturn crc)
       (\<lambda>crc'. verify_chunks source source_sz stop cs crc'))"

definition verify_checksums ::
  "image_source \<Rightarrow> nat \<Rightarrow> sparse_header \<Rightarrow> sparse_chunk list \<Rightarrow> stop_token \<Rightarrow>
   (sparse_error, unit) polled" where
  "verify_checksums source source_sz header chunks stop =
     pbind (has_crc_chunk stop chunks) (\<lambda>has_crc.
       if \<not> has_crc \<and> sh_image_checksum header = 0 then preturn ()
       else
         pbind (verify_chunks source source_sz stop chunks 0) (\<lambda>crc.
           if sh_image_checksum header \<noteq> 0 \<and> sh_image_checksum header \<noteq> crc then
             pfail (sparse_err Sparse_malformed 24
               ''sparse header checksum does not match the expanded image'')
           else preturn ()))"

section \<open>Opening\<close>

definition parse_sparse_header :: "byte list \<Rightarrow> sparse_header" where
  "parse_sparse_header raw =
     \<lparr>sh_major_version = read_u16 raw 4, sh_minor_version = read_u16 raw 6,
      sh_file_header_size = unat (read_u16 raw 8), sh_chunk_header_size = unat (read_u16 raw 10),
      sh_block_size = unat (read_u32 raw 12), sh_total_blocks = unat (read_u32 raw 16),
      sh_total_chunks = unat (read_u32 raw 20), sh_image_checksum = read_u32 raw 24\<rparr>"

text \<open>The checks on the header; the value is the declared output size.\<close>

definition check_sparse_header :: "nat \<Rightarrow> sparse_header \<Rightarrow> sparse_error + nat" where
  "check_sparse_header source_sz h =
     (if sh_major_version h \<noteq> kAndroidSparseMajorVersion then
        Inl (sparse_err Sparse_unsupported 4 ''unsupported Android sparse major version'')
      else if sh_file_header_size h < kSparseHeaderSize \<or>
              sh_chunk_header_size h < kChunkHeaderSize then
        Inl (sparse_err Sparse_malformed 8
          ''sparse file or chunk header is smaller than the version 1 header'')
      else if sh_block_size h = 0 \<or> sh_block_size h mod 4 \<noteq> 0 then
        Inl (sparse_err Sparse_malformed 12
          ''sparse block size must be a non-zero multiple of four'')
      else if sh_file_header_size h > source_sz then
        Inl (sparse_err Sparse_truncated kSparseHeaderSize
          ''sparse file header extension is truncated'')
      else if sh_total_chunks h > kMaxSparseChunks then
        Inl (sparse_err Sparse_unsupported 20
          ''declared sparse chunk count exceeds the metadata safety limit'')
      else
        (case checked_multiply (sh_total_blocks h) (sh_block_size h) of
           None \<Rightarrow> Inl (sparse_err Sparse_malformed 16
                     ''declared sparse output size overflows 64 bits'')
         | Some declared_output_size \<Rightarrow>
             (case checked_multiply (sh_total_chunks h) (sh_chunk_header_size h) of
                None \<Rightarrow> Inl (sparse_err Sparse_malformed 20
                          ''minimum sparse chunk table size overflows 64 bits'')
              | Some minimum_chunk_bytes \<Rightarrow>
                  if minimum_chunk_bytes > source_sz - sh_file_header_size h then
                    Inl (sparse_err Sparse_truncated (sh_file_header_size h)
                      ''sparse input cannot contain the declared number of chunk headers'')
                  else if sh_total_chunks h > chunks_max_size then
                    Inl (sparse_err Sparse_unsupported 20
                      ''declared sparse chunk count is not addressable'')
                  else Inr declared_output_size)))"

text \<open>The loop variables of \<^verbatim>\<open>open\<close>.\<close>

record sparse_cursor =
  cur_input_offset :: nat
  cur_output_offset :: nat
  cur_produced_blocks :: nat
  cur_chunks :: "sparse_chunk list"
  cur_indices :: "nat list"

definition chunk_kind_of :: "u16 \<Rightarrow> sparse_chunk_kind option" where
  "chunk_kind_of chunk_type =
     (if chunk_type = kSparseChunkRaw then Some Chunk_raw
      else if chunk_type = kSparseChunkFill then Some Chunk_fill
      else if chunk_type = kSparseChunkDontCare then Some Chunk_dont_care
      else if chunk_type = kSparseChunkCrc32 then Some Chunk_crc32
      else None)"

text \<open>A chunk that produces no output: its checksum.\<close>

definition parse_crc_chunk ::
  "image_source \<Rightarrow> nat \<Rightarrow> stop_token \<Rightarrow> sparse_cursor \<Rightarrow> nat \<Rightarrow> nat \<Rightarrow> nat \<Rightarrow> nat \<Rightarrow>
   (sparse_error, sparse_cursor) polled" where
  "parse_crc_chunk source source_sz stop cur chunk_blocks payload_offset payload_size
       chunk_output_size =
     (if chunk_blocks \<noteq> 0 \<or> payload_size \<noteq> 4 then
        pfail (sparse_err Sparse_malformed (cur_input_offset cur)
          ''CRC32 chunk must contain zero output blocks and four payload bytes'')
      else
        pbind (read_exact source source_sz payload_offset [0, 0, 0, 0] stop kCancelledChunkTable)
          (\<lambda>crc_bytes. preturn (cur\<lparr>cur_chunks := cur_chunks cur @
             [\<lparr>sc_kind = Chunk_crc32, sc_block_count = chunk_blocks,
               sc_input_offset = payload_offset,
               sc_output_offset = cur_output_offset cur - chunk_output_size,
               sc_output_size = chunk_output_size, sc_fill_value = None,
               sc_checksum = Some (read_u32 crc_bytes 0)\<rparr>]\<rparr>)))"

text \<open>The payload checks of the three kinds that produce output; the value is the fill value.\<close>

definition parse_payload ::
  "image_source \<Rightarrow> nat \<Rightarrow> stop_token \<Rightarrow> nat \<Rightarrow> sparse_chunk_kind \<Rightarrow> nat \<Rightarrow> nat \<Rightarrow> nat \<Rightarrow>
   (sparse_error, u32 option) polled" where
  "parse_payload source source_sz stop input_offset kind payload_offset payload_size
       chunk_output_size =
     (case kind of
        Chunk_raw \<Rightarrow>
          if payload_size \<noteq> chunk_output_size then
            pfail (sparse_err Sparse_malformed (input_offset + 8)
              ''RAW chunk payload size does not match its output blocks'')
          else preturn None
      | Chunk_fill \<Rightarrow>
          if payload_size \<noteq> 4 then
            pfail (sparse_err Sparse_malformed (input_offset + 8)
              ''FILL chunk must contain exactly four payload bytes'')
          else
            pbind (read_exact source source_sz payload_offset [0, 0, 0, 0] stop
                     kCancelledChunkTable) (\<lambda>fill_bytes. preturn (Some (read_u32 fill_bytes 0)))
      | Chunk_dont_care \<Rightarrow>
          if payload_size \<noteq> 0 then
            pfail (sparse_err Sparse_malformed (input_offset + 8)
              ''DONT_CARE chunk cannot contain a payload'')
          else preturn None
      | Chunk_crc32 \<Rightarrow> preturn None)"

definition parse_data_chunk ::
  "image_source \<Rightarrow> nat \<Rightarrow> stop_token \<Rightarrow> sparse_header \<Rightarrow> nat \<Rightarrow> sparse_cursor \<Rightarrow> sparse_chunk_kind \<Rightarrow>
   nat \<Rightarrow> nat \<Rightarrow> nat \<Rightarrow> nat \<Rightarrow> (sparse_error, sparse_cursor) polled" where
  "parse_data_chunk source source_sz stop h declared_output_size cur kind chunk_blocks
       payload_offset payload_size chunk_output_size =
     (if chunk_blocks = 0 then
        pfail (sparse_err Sparse_malformed (cur_input_offset cur + 4)
          ''data-producing sparse chunk contains zero output blocks'')
      else
        (case checked_add (cur_output_offset cur) chunk_output_size of
           None \<Rightarrow> pfail (sparse_err Sparse_malformed (cur_input_offset cur + 4)
                     ''aggregate sparse output size overflows 64 bits'')
         | Some output_end \<Rightarrow>
             (case checked_add (cur_produced_blocks cur) chunk_blocks of
                None \<Rightarrow> pfail (sparse_err Sparse_malformed (cur_input_offset cur + 4)
                          ''sparse chunks produce more blocks than declared'')
              | Some next_produced_blocks \<Rightarrow>
                  if next_produced_blocks > sh_total_blocks h \<or>
                     output_end > declared_output_size then
                    pfail (sparse_err Sparse_malformed (cur_input_offset cur + 4)
                      ''sparse chunks produce more blocks than declared'')
                  else
                    pbind (parse_payload source source_sz stop (cur_input_offset cur) kind
                             payload_offset payload_size chunk_output_size)
                      (\<lambda>fill_value. preturn (cur
                        \<lparr>cur_output_offset := output_end,
                         cur_produced_blocks := next_produced_blocks,
                         cur_indices := cur_indices cur @ [length (cur_chunks cur)],
                         cur_chunks := cur_chunks cur @
                           [\<lparr>sc_kind = kind, sc_block_count = chunk_blocks,
                             sc_input_offset = payload_offset,
                             sc_output_offset = output_end - chunk_output_size,
                             sc_output_size = chunk_output_size, sc_fill_value = fill_value,
                             sc_checksum = None\<rparr>]\<rparr>)))))"

text \<open>One iteration of the chunk loop.\<close>

definition parse_chunk ::
  "image_source \<Rightarrow> nat \<Rightarrow> stop_token \<Rightarrow> sparse_header \<Rightarrow> nat \<Rightarrow> sparse_cursor \<Rightarrow>
   (sparse_error, sparse_cursor) polled" where
  "parse_chunk source source_sz stop h declared_output_size cur =
     pbind (read_exact source source_sz (cur_input_offset cur) (replicate kChunkHeaderSize 0) stop
              kCancelledChunkTable) (\<lambda>raw.
       let chunk_blocks = unat (read_u32 raw 4);
           chunk_total_size = unat (read_u32 raw 8);
           input_offset = cur_input_offset cur in
       if chunk_total_size < sh_chunk_header_size h then
         pfail (sparse_err Sparse_malformed (input_offset + 8)
           ''sparse chunk total size is smaller than its chunk header'')
       else
         (case checked_add input_offset chunk_total_size of
            None \<Rightarrow> pfail (sparse_err Sparse_malformed input_offset
                      ''sparse chunk end offset overflows'')
          | Some chunk_end \<Rightarrow>
              if chunk_end > source_sz then
                pfail (sparse_err Sparse_truncated input_offset
                  ''sparse chunk payload is truncated'')
              else
                (case checked_add input_offset (sh_chunk_header_size h) of
                   None \<Rightarrow> pfail (sparse_err Sparse_malformed input_offset
                             ''sparse chunk payload offset overflows'')
                 | Some payload_offset \<Rightarrow>
                     let payload_size = chunk_total_size - sh_chunk_header_size h in
                     (case chunk_kind_of (read_u16 raw 0) of
                        None \<Rightarrow> pfail (sparse_err Sparse_unsupported input_offset
                                  ''unsupported Android sparse chunk type'')
                      | Some kind \<Rightarrow>
                          (case checked_multiply chunk_blocks (sh_block_size h) of
                             None \<Rightarrow> pfail (sparse_err Sparse_malformed (input_offset + 4)
                                       ''sparse chunk output size overflows 64 bits'')
                           | Some chunk_output_size \<Rightarrow>
                               pbind
                                 (if kind = Chunk_crc32 then
                                    parse_crc_chunk source source_sz stop cur chunk_blocks
                                      payload_offset payload_size chunk_output_size
                                  else
                                    parse_data_chunk source source_sz stop h declared_output_size
                                      cur kind chunk_blocks payload_offset payload_size
                                      chunk_output_size)
                                 (\<lambda>cur'. preturn (cur'\<lparr>cur_input_offset := chunk_end\<rparr>)))))))"

fun parse_chunks ::
  "image_source \<Rightarrow> nat \<Rightarrow> stop_token \<Rightarrow> sparse_header \<Rightarrow> nat \<Rightarrow> nat \<Rightarrow> sparse_cursor \<Rightarrow>
   (sparse_error, sparse_cursor) polled" where
  "parse_chunks source source_sz stop h declared 0 cur = preturn cur"
| "parse_chunks source source_sz stop h declared (Suc n) cur =
     pbind (parse_chunk source source_sz stop h declared cur)
       (\<lambda>cur'. parse_chunks source source_sz stop h declared n cur')"

definition initial_cursor :: "sparse_header \<Rightarrow> sparse_cursor" where
  "initial_cursor h =
     \<lparr>cur_input_offset = sh_file_header_size h, cur_output_offset = 0, cur_produced_blocks = 0,
      cur_chunks = [], cur_indices = []\<rparr>"

definition open_sparse_image ::
  "image_source option \<Rightarrow> stop_token \<Rightarrow> (sparse_error, sparse_image) polled" where
  "open_sparse_image source_opt stop =
     (case source_opt of
        None \<Rightarrow> pfail (sparse_err Sparse_invalid_argument 0 ''sparse image source is null'')
      | Some source \<Rightarrow>
          pbind (poll stop (cancelled_error 0 kCancelledFileHeader)) (\<lambda>_.
          let source_sz = is_size source in
          pbind (read_exact source source_sz 0 (replicate kSparseHeaderSize 0) stop
                   kCancelledFileHeader) (\<lambda>raw.
          if read_u32 raw 0 \<noteq> kAndroidSparseMagic then
            pfail (sparse_err Sparse_malformed 0 ''input does not have the Android sparse magic'')
          else
            let h = parse_sparse_header raw in
            (case check_sparse_header source_sz h of
               Inl e \<Rightarrow> pfail e
             | Inr declared_output_size \<Rightarrow>
                 pbind (poll stop (cancelled_error (sh_file_header_size h) kCancelledChunkTable)) (\<lambda>_.
                 pbind (poll stop (cancelled_error (sh_file_header_size h) kCancelledChunkTable)) (\<lambda>_.
                 pbind (parse_chunks source source_sz stop h declared_output_size
                          (sh_total_chunks h) (initial_cursor h)) (\<lambda>cur.
                 pbind (poll stop (cancelled_error (cur_input_offset cur) kCancelledChunkTable)) (\<lambda>_.
                 if cur_input_offset cur \<noteq> source_sz then
                   pfail (sparse_err Sparse_malformed (cur_input_offset cur)
                     ''sparse input contains trailing bytes after the declared chunks'')
                 else if cur_produced_blocks cur \<noteq> sh_total_blocks h \<or>
                         cur_output_offset cur \<noteq> declared_output_size then
                   pfail (sparse_err Sparse_malformed (cur_input_offset cur)
                     ''sparse chunks do not produce the declared total block count'')
                 else
                   pbind (verify_checksums source source_sz h (cur_chunks cur) stop) (\<lambda>_.
                   preturn \<lparr>si_source = source, si_header = h,
                            si_output_size = declared_output_size, si_chunks = cur_chunks cur,
                            si_output_chunk_indices = cur_indices cur\<rparr>)))))))))"

section \<open>Reading the expanded output\<close>

text \<open>\<^verbatim>\<open>std::lower_bound\<close>: the binary search over a range of \<open>count\<close> positions from \<open>first\<close>.\<close>

function lower_bound :: "(nat \<Rightarrow> bool) \<Rightarrow> nat \<Rightarrow> nat \<Rightarrow> nat" where
  "lower_bound before first count =
     (if count > 0 then
        let half = count div 2; middle = first + half in
        if before middle then lower_bound before (middle + 1) (count - half - 1)
        else lower_bound before first half
      else first)"
  by pat_completeness auto
termination
  by (relation "measure (\<lambda>(before, first, count). count)") auto

text \<open>
  What one chunk contributes to the window: \<open>amount\<close> octets from \<open>within_chunk\<close> on, written over the
  corresponding part \<open>span\<close> of the destination.
\<close>

definition read_chunk ::
  "image_source \<Rightarrow> sparse_chunk \<Rightarrow> nat \<Rightarrow> nat \<Rightarrow> byte list \<Rightarrow> sparse_error + byte list" where
  "read_chunk source chunk current_offset within_chunk span =
     (case sc_kind chunk of
        Chunk_raw \<Rightarrow>
          (case checked_add (sc_input_offset chunk) within_chunk of
             None \<Rightarrow> Inl (sparse_err Sparse_malformed (sc_input_offset chunk)
                       ''RAW chunk read offset overflows 64-bit space'')
           | Some source_offset \<Rightarrow>
               fst (read_exact source (is_size source) source_offset span never_stop [] 0))
      | Chunk_fill \<Rightarrow>
          let pattern = fill_pattern (case sc_fill_value chunk of None \<Rightarrow> 0 | Some v \<Rightarrow> v) in
          Inr (map (\<lambda>index. pattern ! ((within_chunk + index) mod length pattern))
                 [0..<length span])
      | Chunk_dont_care \<Rightarrow> Inr (replicate (length span) 0)
      | Chunk_crc32 \<Rightarrow>
          Inl (sparse_err Sparse_malformed current_offset
            ''CRC32 chunk unexpectedly appeared in the output index''))"

text \<open>
  The loop of \<^verbatim>\<open>read_at\<close>. It returns the destination with its first \<open>target_sz\<close> octets filled. The
  guard on \<open>current_offset\<close> makes \<open>amount\<close> positive, so every iteration makes progress.
\<close>

function read_loop ::
  "sparse_image \<Rightarrow> nat \<Rightarrow> nat \<Rightarrow> nat \<Rightarrow> nat \<Rightarrow> byte list \<Rightarrow> sparse_error + byte list" where
  "read_loop img target_sz position current_offset completed destination =
     (if completed < target_sz then
        if position \<ge> length (si_output_chunk_indices img) then
          Inl (sparse_err Sparse_malformed current_offset
            ''validated sparse chunk index has an output gap'')
        else
          let chunk = si_chunks img ! (si_output_chunk_indices img ! position) in
          if current_offset < sc_output_offset chunk \<or>
             current_offset \<ge> sc_output_offset chunk + sc_output_size chunk then
            Inl (sparse_err Sparse_malformed current_offset
              ''validated sparse chunk index is inconsistent'')
          else
            let within_chunk = current_offset - sc_output_offset chunk;
                amount = min (sc_output_size chunk - within_chunk) (target_sz - completed) in
            (case read_chunk (si_source img) chunk current_offset within_chunk
                    (take amount (drop completed destination)) of
               Inl e \<Rightarrow> Inl e
             | Inr octets \<Rightarrow>
                 read_loop img target_sz
                   (if within_chunk + amount = sc_output_size chunk then position + 1 else position)
                   (current_offset + amount) (completed + amount)
                   (write_span destination completed octets))
      else Inr destination)"
  by pat_completeness auto
termination
  by (relation "measure (\<lambda>(img, target_sz, position, current_offset, completed, destination).
        target_sz - completed)") auto

text \<open>\<^verbatim>\<open>read_at\<close>: the count and the destination.\<close>

definition sparse_read_at ::
  "sparse_image \<Rightarrow> nat \<Rightarrow> byte list \<Rightarrow> sparse_error + (nat \<times> byte list)" where
  "sparse_read_at img requested_offset destination =
     (if requested_offset > si_output_size img then
        Inl (sparse_err Sparse_invalid_argument requested_offset
          ''sparse output read starts beyond end of image'')
      else
        (case checked_add requested_offset (length destination) of
           None \<Rightarrow> Inl (sparse_err Sparse_invalid_argument requested_offset
                     ''sparse output read range overflows 64-bit offset space'')
         | Some _ \<Rightarrow>
             let target_sz = min (si_output_size img - requested_offset) (length destination) in
             if target_sz = 0 then Inr (0, destination)
             else
               let indices = si_output_chunk_indices img;
                   position = lower_bound (\<lambda>i. let chunk = si_chunks img ! (indices ! i) in
                       sc_output_offset chunk + sc_output_size chunk \<le> requested_offset)
                     0 (length indices) in
               (case read_loop img target_sz position requested_offset 0 destination of
                  Inl e \<Rightarrow> Inl e
                | Inr filled \<Rightarrow> Inr (target_sz, filled))))"

section \<open>Classifying a flash artifact\<close>

datatype flash_artifact_kind = Artifact_raw | Artifact_android_sparse

record flash_artifact =
  fa_source :: image_source
  fa_kind :: flash_artifact_kind
  fa_transfer_size :: nat
  fa_expanded_size :: nat
  fa_sparse_header :: "sparse_header option"
  fa_sparse_image :: "sparse_image option"

definition raw_artifact :: "image_source \<Rightarrow> flash_artifact" where
  "raw_artifact source =
     \<lparr>fa_source = source, fa_kind = Artifact_raw, fa_transfer_size = is_size source,
      fa_expanded_size = is_size source, fa_sparse_header = None, fa_sparse_image = None\<rparr>"

definition inspect_artifact ::
  "image_source option \<Rightarrow> stop_token \<Rightarrow> (sparse_error, flash_artifact) polled" where
  "inspect_artifact source_opt stop =
     (case source_opt of
        None \<Rightarrow> pfail (sparse_err Sparse_invalid_argument 0 ''flash artifact source is null'')
      | Some source \<Rightarrow>
          pbind (poll stop (cancelled_error 0 kCancelledArtifactInspection)) (\<lambda>_.
          if is_size source < 4 then
            pbind (poll stop (cancelled_error 0 kCancelledArtifactInspection)) (\<lambda>_.
              preturn (raw_artifact source))
          else
            pbind (read_exact source (is_size source) 0 [0, 0, 0, 0] stop
                     kCancelledArtifactInspection) (\<lambda>magic_bytes.
            if read_u32 magic_bytes 0 \<noteq> kAndroidSparseMagic then preturn (raw_artifact source)
            else
              pbind (open_sparse_image (Some source) stop) (\<lambda>sparse.
              preturn
                \<lparr>fa_source = source, fa_kind = Artifact_android_sparse,
                 fa_transfer_size = is_size source, fa_expanded_size = si_output_size sparse,
                 fa_sparse_header = Some (si_header sparse), fa_sparse_image = Some sparse\<rparr>))))"

declare crc_source_loop.simps [simp del]
declare lower_bound.simps [simp del]
declare read_loop.simps [simp del]

end
