(* ===== verification/Word_Octets.thy ===== *)
theory Word_Octets
  imports Sparse_Crc
begin

text \<open>
  Words and their little-endian octets: the pattern of a word, reading a field back, and fields that a write elsewhere
  does not touch.
\<close>

section \<open>Patterns and fields\<close>

lemma length_fill_pattern [simp]: "length (fill_pattern v) = 4" "fill_pattern v \<noteq> []"
  by (simp_all add: fill_pattern_def)

lemma low_octet: "(0xFF :: u32) = mask 8"
  by (simp add: mask_eq_exp_minus_1)

lemma byte_high_bit: "8 \<le> n \<Longrightarrow> \<not> bit (b :: byte) n"
  using bit_imp_le_length [of b n] by auto

lemma fill_pattern_read_u32:
  assumes "k + 4 \<le> length block"
  shows "fill_pattern (read_u32 block k) = take 4 (drop k block)"
proof -
  have "take 4 (drop k block) = [block ! k, block ! (k + 1), block ! (k + 2), block ! (k + 3)]"
    using assms by (intro nth_equalityI) (auto simp: less_Suc_eq numeral_eq_Suc)
  moreover have "fill_pattern (read_u32 block k) = [block ! k, block ! (k + 1), block ! (k + 2), block ! (k + 3)]"
    unfolding fill_pattern_def read_u32_def low_octet
    by (auto intro!: bit_word_eqI simp: bit_simps byte_high_bit)
  ultimately show ?thesis by simp
qed

lemma read_u32_pattern: "read_u32 (xs @ fill_pattern w @ ys) (length xs) = w"
proof (rule bit_word_eqI)
  fix n assume "n < LENGTH(32)"
  then consider "n < 8" | "8 \<le> n" "n < 16" | "16 \<le> n" "n < 24" | "24 \<le> n" "n < 32" by fastforce
  then show "bit (read_u32 (xs @ fill_pattern w @ ys) (length xs)) n = bit w n"
    unfolding read_u32_def fill_pattern_def low_octet
    by cases (auto simp: nth_append bit_simps)
qed

lemma read_u32_at: "drop pos bytes = fill_pattern w @ ys \<Longrightarrow> pos \<le> length bytes \<Longrightarrow> read_u32 bytes pos = w"
  using read_u32_pattern [of "take pos bytes" w ys] append_take_drop_id [of pos bytes] by simp

section \<open>Spans\<close>

lemma take_drop_write_span_same:
  "start + length data \<le> length buffer \<Longrightarrow> take (length data) (drop start (write_span buffer start data)) = data"
  by (simp add: write_span_def)

lemma take_drop_write_span_other:
  assumes "start + length data \<le> length buffer" and "k + n \<le> start \<or> start + length data \<le> k"
  shows "take n (drop k (write_span buffer start data)) = take n (drop k buffer)"
proof -
  let ?new = "write_span buffer start data"
  have split: "?new = take start buffer @ data @ drop (start + length data) buffer"
    using assms(1) by (simp add: write_span_def)
  from assms(2) show ?thesis
  proof
    assume "k + n \<le> start"
    then have "take (n + k) ?new = take (n + k) buffer" unfolding split using assms(1) by simp
    then show ?thesis by (simp only: take_drop)
  next
    assume "start + length data \<le> k"
    then have "drop k ?new = drop k buffer" unfolding split using assms(1) by simp
    then show ?thesis by simp
  qed
qed

lemma read_u32_write_span_same:
  "start + 4 \<le> length buffer \<Longrightarrow> read_u32 (write_span buffer start (fill_pattern v)) start = v"
  using read_u32_pattern [of "take start buffer" v] by (simp add: write_span_def fill_pattern_def)

lemma read_u32_write_span_other:
  assumes "start + length data \<le> length buffer" and "k + 4 \<le> start \<or> start + length data \<le> k" and "k + 4 \<le> length buffer"
  shows "read_u32 (write_span buffer start data) k = read_u32 buffer k"
  using assms by (auto simp: write_span_def read_u32_def nth_append)

text \<open>A loop that stores octet after octet.\<close>

lemma foldl_store_span:
  "offset + n \<le> length bytes \<Longrightarrow>
   foldl (\<lambda>bytes index. bytes[offset + index := f index]) bytes [0..<n] = write_span bytes offset (map f [0..<n])"
proof (induction n)
  case (Suc n)
  let ?b = "write_span bytes offset (map f [0..<n])"
  have "?b[offset + n := f n] = write_span bytes offset (map f [0..<n] @ [f n])"
    using Suc.prems by (simp add: write_span_def list_update_append Cons_nth_drop_Suc [symmetric])
  with Suc show ?case by simp
qed (simp add: write_span_def)

end
