(* ===== verification/Sparse_Table.thy ===== *)
theory Sparse_Table
  imports Sparse_Image Word_Octets
begin

text \<open>
  What a successful \<^verbatim>\<open>SparseImage::open\<close> guarantees: a chunk table that tiles the declared output,
  with every payload inside the source, and checksums that match the expanded data.
\<close>

section \<open>The reference expansion\<close>

definition expand_chunk :: "byte list \<Rightarrow> sparse_chunk \<Rightarrow> byte list" where
  "expand_chunk content c =
     (case sc_kind c of
        Chunk_raw \<Rightarrow> take (sc_output_size c) (drop (sc_input_offset c) content)
      | Chunk_fill \<Rightarrow>
          repeat_bytes (fill_pattern (case sc_fill_value c of None \<Rightarrow> 0 | Some v \<Rightarrow> v))
            (sc_output_size c)
      | Chunk_dont_care \<Rightarrow> replicate (sc_output_size c) 0
      | Chunk_crc32 \<Rightarrow> [])"

definition expand_chunks :: "byte list \<Rightarrow> sparse_chunk list \<Rightarrow> byte list" where
  "expand_chunks content cs = concat (map (expand_chunk content) cs)"

definition wf_chunk :: "byte list \<Rightarrow> sparse_header \<Rightarrow> sparse_chunk \<Rightarrow> bool" where
  "wf_chunk content h c \<longleftrightarrow>
     sc_output_size c = sc_block_count c * sh_block_size h \<and>
     (case sc_kind c of
        Chunk_raw \<Rightarrow> 0 < sc_block_count c \<and>
          sc_input_offset c + sc_output_size c \<le> length content
      | Chunk_fill \<Rightarrow> 0 < sc_block_count c \<and> sc_input_offset c + 4 \<le> length content \<and>
          sc_fill_value c = Some (read_u32 content (sc_input_offset c))
      | Chunk_dont_care \<Rightarrow> 0 < sc_block_count c
      | Chunk_crc32 \<Rightarrow> sc_block_count c = 0 \<and> sc_input_offset c + 4 \<le> length content \<and>
          sc_checksum c = Some (read_u32 content (sc_input_offset c)))"

definition chunks_size :: "sparse_chunk list \<Rightarrow> nat" where
  "chunks_size cs = sum_list (map sc_output_size cs)"

text \<open>Each chunk starts where the output of the chunks before it ends.\<close>

definition tiled :: "sparse_chunk list \<Rightarrow> bool" where
  "tiled cs \<longleftrightarrow> (\<forall>i < length cs. sc_output_offset (cs ! i) = chunks_size (take i cs))"

definition data_indices :: "sparse_chunk list \<Rightarrow> nat list" where
  "data_indices cs = filter (\<lambda>i. sc_kind (cs ! i) \<noteq> Chunk_crc32) [0..<length cs]"

lemma length_repeat_bytes [simp]: "pattern \<noteq> [] \<Longrightarrow> length (repeat_bytes pattern n) = n"
  by (simp add: repeat_bytes_def length_concat sum_list_replicate)

lemma length_expand_chunk: "wf_chunk content h c \<Longrightarrow> length (expand_chunk content c) = sc_output_size c"
  by (auto simp: wf_chunk_def expand_chunk_def split: sparse_chunk_kind.splits)

lemma length_expand_chunks:
  "\<forall>c \<in> set cs. wf_chunk content h c \<Longrightarrow> length (expand_chunks content cs) = chunks_size cs"
  by (induction cs) (auto simp: expand_chunks_def chunks_size_def length_expand_chunk)

lemma chunks_size_append [simp]: "chunks_size (xs @ ys) = chunks_size xs + chunks_size ys"
  by (simp add: chunks_size_def)

lemma chunks_size_Cons [simp]:
  "chunks_size [] = 0" "chunks_size (c # cs) = sc_output_size c + chunks_size cs"
  by (simp_all add: chunks_size_def)

lemma tiled_snoc: "tiled (cs @ [c]) \<longleftrightarrow> tiled cs \<and> sc_output_offset c = chunks_size cs"
  by (auto simp: tiled_def nth_append less_Suc_eq)

lemma data_indices_snoc:
  "data_indices (cs @ [c]) =
     data_indices cs @ (if sc_kind c = Chunk_crc32 then [] else [length cs])"
proof -
  have "filter (\<lambda>i. sc_kind ((cs @ [c]) ! i) \<noteq> Chunk_crc32) [0..<length cs] = data_indices cs"
    unfolding data_indices_def by (rule filter_cong) (auto simp: nth_append)
  then show ?thesis by (simp add: data_indices_def)
qed

lemma read_u32_take_drop: "read_u32 (take 4 (drop n content)) 0 = read_u32 content n"
  if "n + 4 \<le> length content"
  using that by (simp add: read_u32_def nth_drop)

section \<open>The chunk loop keeps the table well formed\<close>

definition cursor_inv :: "byte list \<Rightarrow> sparse_header \<Rightarrow> nat \<Rightarrow> sparse_cursor \<Rightarrow> bool" where
  "cursor_inv content h declared cur \<longleftrightarrow>
     (\<forall>c \<in> set (cur_chunks cur). wf_chunk content h c) \<and> tiled (cur_chunks cur) \<and>
     cur_output_offset cur = chunks_size (cur_chunks cur) \<and>
     cur_produced_blocks cur = sum_list (map sc_block_count (cur_chunks cur)) \<and>
     cur_indices cur = data_indices (cur_chunks cur)"

lemma cursor_inv_input_offset [simp]:
  "cursor_inv content h declared (cur\<lparr>cur_input_offset := x\<rparr>) = cursor_inv content h declared cur"
  by (simp add: cursor_inv_def)

context image_content
begin

lemma read_field:
  assumes "read_exact source (length content) offset [0, 0, 0, 0] stop msg t = (Inr r, t')"
  shows "read_u32 r 0 = read_u32 content offset \<and> offset + 4 \<le> length content"
proof (rule conjI)
  note c = read_exact_content [OF assms]
  from c(2) show le: "offset + 4 \<le> length content" by simp
  from c(1) have "r = take 4 (drop offset content)" by (simp add: eval_nat_numeral)
  with read_u32_take_drop [OF le] show "read_u32 r 0 = read_u32 content offset" by simp
qed

lemma parse_crc_chunk_inv:
  assumes "cursor_inv content h declared cur"
    and "parse_crc_chunk source (length content) stop cur blocks payload_offset payload_size sz t =
           (Inr cur', t')"
    and "sz = blocks * sh_block_size h"
  shows "cursor_inv content h declared cur' \<and>
         length (cur_chunks cur') = Suc (length (cur_chunks cur))"
  using assms
  by (auto simp: parse_crc_chunk_def cursor_inv_def tiled_snoc data_indices_snoc wf_chunk_def
      dest!: read_field split: if_splits)

lemma parse_payload_value:
  assumes "parse_payload source (length content) stop input_offset kind payload_offset payload_size
             sz t = (Inr v, t')"
    and "kind \<noteq> Chunk_crc32" and "payload_offset + payload_size \<le> length content"
    and "sz = blocks * sh_block_size h" and "0 < blocks"
  shows "wf_chunk content h \<lparr>sc_kind = kind, sc_block_count = blocks,
           sc_input_offset = payload_offset, sc_output_offset = off, sc_output_size = sz,
           sc_fill_value = v, sc_checksum = None\<rparr>"
  using assms
  by (cases kind) (auto simp: parse_payload_def wf_chunk_def dest!: read_field split: if_splits)

lemma parse_data_chunk_inv:
  assumes inv: "cursor_inv content h declared cur"
    and run: "parse_data_chunk source (length content) stop h declared cur kind blocks payload_offset
                payload_size sz t = (Inr cur', t')"
    and kind: "kind \<noteq> Chunk_crc32" and range: "payload_offset + payload_size \<le> length content"
    and sz: "sz = blocks * sh_block_size h"
  shows "cursor_inv content h declared cur' \<and>
         length (cur_chunks cur') = Suc (length (cur_chunks cur))"
proof -
  from run obtain v u where blocks: "0 < blocks"
    and pay: "parse_payload source (length content) stop (cur_input_offset cur) kind payload_offset
                payload_size sz t = (Inr v, u)"
    and cur': "cur' = cur\<lparr>cur_output_offset := cur_output_offset cur + sz,
       cur_produced_blocks := cur_produced_blocks cur + blocks,
       cur_indices := cur_indices cur @ [length (cur_chunks cur)],
       cur_chunks := cur_chunks cur @
         [\<lparr>sc_kind = kind, sc_block_count = blocks, sc_input_offset = payload_offset,
           sc_output_offset = cur_output_offset cur + sz - sz, sc_output_size = sz,
           sc_fill_value = v, sc_checksum = None\<rparr>]\<rparr>"
    by (auto simp: parse_data_chunk_def checked_add_Some split: if_splits option.splits)
  from parse_payload_value [OF pay kind range sz blocks] inv kind show ?thesis
    by (auto simp: cur' cursor_inv_def tiled_snoc data_indices_snoc)
qed

lemma parse_chunk_inv:
  assumes inv: "cursor_inv content h declared cur"
    and run: "parse_chunk source (length content) stop h declared cur t = (Inr cur', t')"
  shows "cursor_inv content h declared cur' \<and>
         length (cur_chunks cur') = Suc (length (cur_chunks cur))"
  using run
  by (auto simp: parse_chunk_def Let_def checked_add_Some checked_multiply_Some not_less
      split: if_splits option.splits
      dest: parse_crc_chunk_inv [OF inv _ refl] parse_data_chunk_inv [OF inv _ _ _ refl])

lemma parse_chunks_inv:
  "cursor_inv content h declared cur \<Longrightarrow>
   parse_chunks source (length content) stop h declared n cur t = (Inr cur', t') \<Longrightarrow>
   cursor_inv content h declared cur' \<and> length (cur_chunks cur') = length (cur_chunks cur) + n"
  by (induction n arbitrary: cur t) (fastforce dest: parse_chunk_inv)+

text \<open>The checksum of a raw payload, window by window.\<close>

lemma crc_source_loop_Inr:
  assumes "crc_source_loop source (length content) stop input_offset n crc buffer t = (Inr r, t')"
    and "length buffer = kChecksumWindowSize"
  shows "r = update_crc32 crc (take n (drop input_offset content))"
  using assms
proof (induction n arbitrary: input_offset crc buffer t rule: less_induct)
  case (less n)
  show ?case
  proof (cases "n = 0")
    case True
    with less.prems show ?thesis by (simp add: crc_source_loop.simps)
  next
    case False
    let ?m = "min n kChecksumWindowSize"
    from less.prems(1) False obtain filled crc' u v w where
      rd: "read_exact source (length content) input_offset (take ?m buffer) stop
             kCancelledRawChecksum u = (Inr filled, v)"
      and crc': "update_crc32_cancellable crc filled stop input_offset v = (Inr crc', w)"
      and rec: "crc_source_loop source (length content) stop (input_offset + ?m) (n - ?m) crc'
                  (filled @ drop ?m buffer) w = (Inr r, t')"
      by (subst (asm) crc_source_loop.simps)
        (auto simp: Let_def checked_add_Some split: option.splits)
    from read_exact_content [OF rd] less.prems(2)
    have filled: "filled = take ?m (drop input_offset content)"
      and le: "input_offset + ?m \<le> length content" by auto
    have "n - ?m < n" using False by (simp add: kChecksumWindowSize_def)
    moreover have "length (filled @ drop ?m buffer) = kChecksumWindowSize"
      using filled le less.prems(2) by simp
    ultimately have "r = update_crc32 crc' (take (n - ?m) (drop (input_offset + ?m) content))"
      using less.IH rec by blast
    also have "crc' = update_crc32 crc filled"
      using update_crc32_loop_Inr [OF crc' [unfolded update_crc32_cancellable_def]] by simp
    also have "update_crc32 (update_crc32 crc filled)
        (take (n - ?m) (drop (input_offset + ?m) content)) =
        update_crc32 crc (take n (drop input_offset content))"
      using take_drop_split [of input_offset ?m "input_offset + n" content] filled
      by (simp add: update_crc32_append)
    finally show ?thesis .
  qed
qed

lemma repeat_zero: "repeat_bytes [0, 0, 0, 0] n = replicate n 0"
proof (rule replicate_eqI)
  show "length (repeat_bytes [0, 0, 0, 0] n) = n" by (rule length_repeat_bytes) simp
  show "x = 0" if "x \<in> set (repeat_bytes [0, 0, 0, 0] n)" for x
    using that by (auto simp: repeat_bytes_def dest!: in_set_takeD split: if_splits)
qed

lemma verify_chunks_Inr:
  assumes "\<forall>c \<in> set cs. wf_chunk content h c"
    and "verify_chunks source (length content) stop cs crc t = (Inr r, t')"
  shows "r = update_crc32 crc (expand_chunks content cs) \<and>
    (\<forall>i < length cs. sc_kind (cs ! i) = Chunk_crc32 \<longrightarrow>
       sc_checksum (cs ! i) = Some (update_crc32 crc (expand_chunks content (take i cs))))"
  using assms
proof (induction cs arbitrary: crc t)
  case Nil
  then show ?case by (simp add: expand_chunks_def)
next
  case (Cons c cs)
  from Cons.prems(2) obtain mid u v where
    step: "(case sc_kind c of
        Chunk_raw \<Rightarrow> update_crc_from_source source (length content) (sc_input_offset c)
          (sc_output_size c) crc stop
      | Chunk_fill \<Rightarrow> update_crc_repeated crc
          (fill_pattern (case sc_fill_value c of None \<Rightarrow> 0 | Some v \<Rightarrow> v)) (sc_output_size c) stop
          (sc_input_offset c)
      | Chunk_dont_care \<Rightarrow> update_crc_repeated crc [0, 0, 0, 0] (sc_output_size c) stop
          (sc_input_offset c)
      | Chunk_crc32 \<Rightarrow>
          if sc_checksum c \<noteq> Some crc then
            pfail (sparse_err Sparse_malformed (sc_input_offset c)
              ''CRC32 chunk does not match the expanded data preceding it'')
          else preturn crc) u = (Inr mid, v)"
    and rest: "verify_chunks source (length content) stop cs mid v = (Inr r, t')"
    by auto
  have check: "sc_kind c = Chunk_crc32 \<Longrightarrow> sc_checksum c = Some crc"
    using step by (auto split: if_splits)
  have mid: "mid = update_crc32 crc (expand_chunk content c)"
  proof (cases "sc_kind c")
    case Chunk_raw
    with step have "crc_source_loop source (length content) stop (sc_input_offset c)
        (sc_output_size c) crc (replicate kChecksumWindowSize 0) u = (Inr mid, v)"
      by (simp add: update_crc_from_source_def)
    from crc_source_loop_Inr [OF this] Chunk_raw show ?thesis by (simp add: expand_chunk_def)
  next
    case Chunk_fill
    with step update_crc_repeated_Inr [OF length_fill_pattern(1)] show ?thesis
      by (simp add: expand_chunk_def)
  next
    case Chunk_dont_care
    with step update_crc_repeated_Inr [of "[0, 0, 0, 0]"] show ?thesis
      by (simp add: expand_chunk_def repeat_zero)
  next
    case Chunk_crc32
    with step show ?thesis by (auto simp: expand_chunk_def split: if_splits)
  qed
  from Cons.IH [OF _ rest] Cons.prems(1)
  have IH: "r = update_crc32 mid (expand_chunks content cs)"
    "\<forall>i < length cs. sc_kind (cs ! i) = Chunk_crc32 \<longrightarrow>
       sc_checksum (cs ! i) = Some (update_crc32 mid (expand_chunks content (take i cs)))"
    by auto
  then show ?case
    using check mid
    by (auto simp: expand_chunks_def update_crc32_append nth_Cons take_Cons split: nat.splits)
qed

end

lemma has_crc_chunk_Inr:
  "has_crc_chunk stop cs t = (Inr b, t') \<Longrightarrow> b = (\<exists>c \<in> set cs. sc_kind c = Chunk_crc32)"
  by (induction cs arbitrary: t) (auto split: if_splits)

lemma check_sparse_header_Inr:
  "check_sparse_header n h = Inr d \<Longrightarrow>
     d = sh_total_blocks h * sh_block_size h \<and> 0 < sh_block_size h \<and> d \<le> u64_max \<and>
     sh_total_chunks h \<le> kMaxSparseChunks"
  using checked_multiply_bound [of "sh_total_blocks h" "sh_block_size h"]
  by (auto simp: check_sparse_header_def checked_multiply_Some split: if_splits option.splits)

section \<open>What an opened image guarantees\<close>

definition sparse_table_ok :: "byte list \<Rightarrow> sparse_image \<Rightarrow> bool" where
  "sparse_table_ok content img \<longleftrightarrow>
     (\<forall>c \<in> set (si_chunks img). wf_chunk content (si_header img) c) \<and>
     tiled (si_chunks img) \<and>
     si_output_chunk_indices img = data_indices (si_chunks img) \<and>
     length (si_chunks img) = sh_total_chunks (si_header img) \<and>
     sh_total_chunks (si_header img) \<le> kMaxSparseChunks \<and>
     0 < sh_block_size (si_header img) \<and>
     si_output_size img = sh_total_blocks (si_header img) * sh_block_size (si_header img) \<and>
     si_output_size img = chunks_size (si_chunks img) \<and> si_output_size img \<le> u64_max"

definition checksums_ok :: "byte list \<Rightarrow> sparse_image \<Rightarrow> bool" where
  "checksums_ok content img \<longleftrightarrow>
     (sh_image_checksum (si_header img) \<noteq> 0 \<longrightarrow>
        update_crc32 0 (expand_chunks content (si_chunks img)) = sh_image_checksum (si_header img)) \<and>
     (\<forall>i < length (si_chunks img). sc_kind (si_chunks img ! i) = Chunk_crc32 \<longrightarrow>
        sc_checksum (si_chunks img ! i) =
          Some (update_crc32 0 (expand_chunks content (take i (si_chunks img)))))"

context image_content
begin

lemma verify_checksums_Inr:
  assumes "\<forall>c \<in> set cs. wf_chunk content h c"
    and "verify_checksums source (length content) h cs stop t = (Inr u, t')"
  shows "(sh_image_checksum h \<noteq> 0 \<longrightarrow>
        update_crc32 0 (expand_chunks content cs) = sh_image_checksum h) \<and>
     (\<forall>i < length cs. sc_kind (cs ! i) = Chunk_crc32 \<longrightarrow>
        sc_checksum (cs ! i) = Some (update_crc32 0 (expand_chunks content (take i cs))))"
proof -
  from assms(2) obtain b v where b: "has_crc_chunk stop cs t = (Inr b, v)"
    and rest: "(if \<not> b \<and> sh_image_checksum h = 0 then preturn ()
       else pbind (verify_chunks source (length content) stop cs 0) (\<lambda>crc.
           if sh_image_checksum h \<noteq> 0 \<and> sh_image_checksum h \<noteq> crc then
             pfail (sparse_err Sparse_malformed 24
               ''sparse header checksum does not match the expanded image'')
           else preturn ())) v = (Inr u, t')"
    by (auto simp: verify_checksums_def)
  show ?thesis
  proof (cases "\<not> b \<and> sh_image_checksum h = 0")
    case True
    with has_crc_chunk_Inr [OF b] show ?thesis by (auto dest: nth_mem)
  next
    case False
    with rest obtain crc w where vc: "verify_chunks source (length content) stop cs 0 v = (Inr crc, w)"
      and "sh_image_checksum h \<noteq> 0 \<longrightarrow> sh_image_checksum h = crc"
      by (auto split: if_splits)
    with verify_chunks_Inr [OF assms(1) vc] show ?thesis by auto
  qed
qed

lemma open_sparse_image_Inr:
  assumes "open_sparse_image (Some source) stop t = (Inr img, t')"
  shows "si_source img = source \<and> sparse_table_ok content img \<and> checksums_ok content img"
proof -
  from assms obtain h declared cur u v w x where
    h: "check_sparse_header (length content) h = Inr declared"
    and chunks: "parse_chunks source (length content) stop h declared (sh_total_chunks h)
                   (initial_cursor h) u = (Inr cur, v)"
    and total_blocks: "cur_produced_blocks cur = sh_total_blocks h" "cur_output_offset cur = declared"
    and sums: "verify_checksums source (length content) h (cur_chunks cur) stop w = (Inr (), x)"
    and img: "img = \<lparr>si_source = source, si_header = h, si_output_size = declared,
                      si_chunks = cur_chunks cur, si_output_chunk_indices = cur_indices cur\<rparr>"
    by (auto simp: open_sparse_image_def size_content Let_def split: if_splits sum.splits)
  have "cursor_inv content h declared (initial_cursor h)"
    by (simp add: cursor_inv_def initial_cursor_def tiled_def data_indices_def)
  from parse_chunks_inv [OF this chunks]
  have inv: "cursor_inv content h declared cur" "length (cur_chunks cur) = sh_total_chunks h"
    by (simp_all add: initial_cursor_def)
  then have wf: "\<forall>c \<in> set (cur_chunks cur). wf_chunk content h c" by (simp add: cursor_inv_def)
  show ?thesis
    using inv check_sparse_header_Inr [OF h] total_blocks verify_checksums_Inr [OF wf sums]
    by (auto simp: img sparse_table_ok_def checksums_ok_def cursor_inv_def)
qed

end

section \<open>Properties\<close>

text \<open>
  C12. Whenever opening succeeds, from a source that may read short, fail or misreport at any read and
  under any cancellation schedule, the chunk table is well formed: every chunk's size is its block
  count times the block size, every payload lies inside the source, the chunks tile the declared
  output without gap or overlap, the output index names exactly the data chunks, and the expansion of
  the table has the declared size.
\<close>

theorem open_sparse_image_table:
  assumes "open_sparse_image (Some (policy_source content policy)) stop t = (Inr img, t')"
  shows "sparse_table_ok content img \<and>
         length (expand_chunks content (si_chunks img)) = si_output_size img"
  using policy.open_sparse_image_Inr [OF assms]
  by (auto simp: sparse_table_ok_def length_expand_chunks)

text \<open>
  C32. Whenever opening succeeds, the declared checksums are those of the expanded data: a non-zero
  header checksum is the CRC-32 of the whole expansion, and each CRC chunk holds the CRC-32 of what the
  chunks before it expand to.
\<close>

theorem open_sparse_image_checksums:
  assumes "open_sparse_image (Some (policy_source content policy)) stop t = (Inr img, t')"
  shows "checksums_ok content img"
  using policy.open_sparse_image_Inr [OF assms] by simp

text \<open>A two-chunk image: one block filled with a pattern, one that the device does not care about.\<close>

definition le32 :: "nat \<Rightarrow> byte list" where
  "le32 n = map (\<lambda>i. word_of_nat (n div 256 ^ i)) [0, 1, 2, 3]"

definition le16 :: "nat \<Rightarrow> byte list" where
  "le16 n = map (\<lambda>i. word_of_nat (n div 256 ^ i)) [0, 1]"

definition sample_sparse :: "byte list" where
  "sample_sparse =
     le32 0xED26FF3A @ le16 1 @ le16 0 @ le16 28 @ le16 12 @ le32 4 @ le32 2 @ le32 2 @ le32 0x4D031AB0 @
     le16 0xCAC2 @ le16 0 @ le32 1 @ le32 16 @ [1, 2, 3, 4] @
     le16 0xCAC3 @ le16 0 @ le32 1 @ le32 12"

lemma sample_sparse_octets:
  "sample_sparse =
     [0x3A, 0xFF, 0x26, 0xED, 1, 0, 0, 0, 28, 0, 12, 0, 4, 0, 0, 0, 2, 0, 0, 0, 2, 0, 0, 0,
      0xB0, 0x1A, 0x03, 0x4D,
      0xC2, 0xCA, 0, 0, 1, 0, 0, 0, 16, 0, 0, 0, 1, 2, 3, 4,
      0xC3, 0xCA, 0, 0, 1, 0, 0, 0, 12, 0, 0, 0]"
  by (simp add: sample_sparse_def le32_def le16_def)

abbreviation full_reads :: "nat \<Rightarrow> nat \<Rightarrow> string + nat" where
  "full_reads \<equiv> (\<lambda>offset n. Inr n)"

lemma read_exact_full:
  assumes "destination \<noteq> []" and "offset + length destination \<le> length content"
    and "length content \<le> u64_max"
  shows "read_exact (policy_source content full_reads) (length content) offset destination never_stop
           msg t = (Inr (take (length destination) (drop offset content)), t + 3)"
proof -
  have "checked_add offset (length destination) = Some (offset + length destination)"
    and "checked_add offset 0 = Some offset"
    using assms(2,3) by (auto intro: checked_add_within simp: checked_add_def)
  with assms(1,2) show ?thesis
    by (simp add: read_exact_def read_exact_loop.simps pbind_def poll_def never_stop_def
        policy_source_def write_span_def preturn_def Let_def)
qed

definition sample_header :: sparse_header where
  "sample_header =
     \<lparr>sh_major_version = 1, sh_minor_version = 0, sh_file_header_size = 28,
      sh_chunk_header_size = 12, sh_block_size = 4, sh_total_blocks = 2, sh_total_chunks = 2,
      sh_image_checksum = 0x4D031AB0\<rparr>"

definition sample_chunks :: "sparse_chunk list" where
  "sample_chunks =
     [\<lparr>sc_kind = Chunk_fill, sc_block_count = 1, sc_input_offset = 40, sc_output_offset = 0,
       sc_output_size = 4, sc_fill_value = Some 0x04030201, sc_checksum = None\<rparr>,
      \<lparr>sc_kind = Chunk_dont_care, sc_block_count = 1, sc_input_offset = 56, sc_output_offset = 4,
       sc_output_size = 4, sc_fill_value = None, sc_checksum = None\<rparr>]"

definition sample_image :: sparse_image where
  "sample_image =
     \<lparr>si_source = policy_source sample_sparse full_reads, si_header = sample_header,
      si_output_size = 8, si_chunks = sample_chunks, si_output_chunk_indices = [0, 1]\<rparr>"

lemma length_sample_sparse: "length sample_sparse = 56"
  by (simp add: sample_sparse_octets)

lemma sample_read:
  assumes "destination \<noteq> []" and "offset + length destination \<le> 56"
  shows "read_exact (policy_source sample_sparse full_reads) 56 offset destination never_stop msg t =
           (Inr (take (length destination) (drop offset sample_sparse)), t + 3)"
  using read_exact_full [of destination offset sample_sparse] assms
  by (simp add: length_sample_sparse)

lemma sample_header_parsed:
  "parse_sparse_header (take 28 sample_sparse) = sample_header"
  "read_u32 (take 28 sample_sparse) 0 = kAndroidSparseMagic"
  "check_sparse_header 56 sample_header = Inr 8"
  by (simp_all add: sample_sparse_octets parse_sparse_header_def sample_header_def read_u32_def
      read_u16_def kAndroidSparseMagic_def check_sparse_header_def kAndroidSparseMajorVersion_def
      kSparseHeaderSize_def kChunkHeaderSize_def kMaxSparseChunks_def chunks_max_size_def
      checked_multiply_def)

lemma sample_fields:
  "read_u16 (take 12 (drop 28 sample_sparse)) 0 = 0xCAC2"
  "read_u32 (take 12 (drop 28 sample_sparse)) 4 = 1"
  "read_u32 (take 12 (drop 28 sample_sparse)) 8 = 16"
  "read_u32 (take (Suc (Suc (Suc (Suc 0)))) (drop 40 sample_sparse)) 0 = 0x04030201"
  "read_u16 (take 12 (drop 44 sample_sparse)) 0 = 0xCAC3"
  "read_u32 (take 12 (drop 44 sample_sparse)) 4 = 1"
  "read_u32 (take 12 (drop 44 sample_sparse)) 8 = 12"
  by (simp_all add: sample_sparse_octets read_u32_def read_u16_def)

lemmas sample_run =
  pbind_def sample_read kChunkHeaderSize_def initial_cursor_def sample_header_def
  sample_fields Let_def checked_add_def checked_multiply_def chunk_kind_of_def kSparseChunkRaw_def
  kSparseChunkFill_def kSparseChunkDontCare_def parse_data_chunk_def parse_payload_def preturn_def
  sample_chunks_def

definition sample_cursor :: sparse_cursor where
  "sample_cursor =
     \<lparr>cur_input_offset = 44, cur_output_offset = 4, cur_produced_blocks = 1,
      cur_chunks = [hd sample_chunks], cur_indices = [0]\<rparr>"

lemma sample_chunk_1:
  "parse_chunk (policy_source sample_sparse full_reads) 56 never_stop sample_header 8
     (initial_cursor sample_header) t = (Inr sample_cursor, t + 6)"
  by (simp add: parse_chunk_def sample_run sample_cursor_def)

lemma sample_chunk_2:
  "parse_chunk (policy_source sample_sparse full_reads) 56 never_stop sample_header 8
     sample_cursor t =
   (Inr \<lparr>cur_input_offset = 56, cur_output_offset = 8, cur_produced_blocks = 2,
         cur_chunks = sample_chunks, cur_indices = [0, 1]\<rparr>, t + 3)"
  by (simp add: parse_chunk_def sample_run sample_cursor_def)

lemma crc_step_8:
  "(crc_step ^^ 8) c =
     crc_step (crc_step (crc_step (crc_step (crc_step (crc_step (crc_step (crc_step c)))))))"
  by (simp add: eval_nat_numeral)

lemma not_zero_u32: "NOT (0 :: u32) = 0xFFFFFFFF"
  by simp

lemma sample_crc: "update_crc32 0 ([1, 2, 3, 4] @ [0, 0, 0, 0]) = 0x4D031AB0"
  by (simp only: append.simps update_crc32_def not_zero_u32 fold_simps crc_byte_def crc_step_8)
    (simp add: crc_step_def)

lemma sample_verify:
  "\<exists>u. verify_checksums (policy_source sample_sparse full_reads) 56 sample_header sample_chunks
     never_stop t = (Inr (), u)"
proof -
  have fill: "fill_pattern 0x04030201 = [1, 2, 3, 4]" by (simp add: fill_pattern_def)
  have rep: "repeat_bytes [1, 2, 3, 4] 4 = [1, 2, 3, 4]" "repeat_bytes [0, 0, 0, 0] 4 = [0, 0, 0, 0]"
    by (simp_all add: repeat_bytes_def)
  have run: "\<exists>u. update_crc_repeated crc pattern 4 never_stop off t =
      (Inr (update_crc32 crc (repeat_bytes pattern 4)), u)" if "length pattern = 4"
    for crc pattern off t
    using update_crc_repeated_outcome [of crc pattern 4 never_stop off t]
      update_crc_repeated_Inr [OF that, of crc 4 never_stop off t]
    by (metis never_stop_def prod.collapse)
  obtain u where 1: "update_crc_repeated 0 [1, 2, 3, 4] 4 never_stop 40 (Suc (Suc (Suc t))) =
      (Inr (update_crc32 0 [1, 2, 3, 4]), u)"
    using run [of "[1, 2, 3, 4]" 0 40 "Suc (Suc (Suc t))"] by (auto simp: rep)
  obtain v where 2: "update_crc_repeated (update_crc32 0 [1, 2, 3, 4]) [0, 0, 0, 0] 4 never_stop 56
      (Suc u) = (Inr 0x4D031AB0, v)"
    using run [of "[0, 0, 0, 0]" "update_crc32 0 [1, 2, 3, 4]" 56 "Suc u"] sample_crc
    by (auto simp: rep update_crc32_append)
  show ?thesis
    using 1 2
    by (simp add: verify_checksums_def sample_chunks_def sample_header_def pbind_def poll_def
        never_stop_def preturn_def fill)
qed

lemma open_sample:
  "\<exists>u. open_sparse_image (Some (policy_source sample_sparse full_reads)) never_stop 0 =
     (Inr sample_image, u)"
proof -
  have chunks: "parse_chunks (policy_source sample_sparse full_reads) 56 never_stop sample_header 8 2
     (initial_cursor sample_header) t =
     (Inr \<lparr>cur_input_offset = 56, cur_output_offset = 8, cur_produced_blocks = 2,
         cur_chunks = sample_chunks, cur_indices = [0, 1]\<rparr>, t + 9)" for t
    by (simp only: numeral_2_eq_2 parse_chunks.simps)
      (simp add: pbind_def sample_chunk_1 sample_chunk_2 preturn_def)
  obtain u where sums: "verify_checksums (policy_source sample_sparse full_reads) 56 sample_header
      sample_chunks never_stop 16 = (Inr (), u)"
    using sample_verify by blast
  have fields: "sh_total_chunks sample_header = 2" "sh_total_blocks sample_header = 2"
    by (simp_all add: sample_header_def)
  show ?thesis
    by (simp add: open_sparse_image_def policy.size_content length_sample_sparse pbind_def poll_def
        never_stop_def sample_read kSparseHeaderSize_def sample_header_parsed chunks sums fields
        preturn_def sample_image_def Let_def)
qed

theorem open_sparse_image_table_witness:
  "fst (open_sparse_image (Some (policy_source sample_sparse full_reads)) never_stop 0) =
     Inr sample_image \<and>
   sparse_table_ok sample_sparse sample_image \<and>
   length (expand_chunks sample_sparse (si_chunks sample_image)) = 8"
proof -
  obtain u where run: "open_sparse_image (Some (policy_source sample_sparse full_reads)) never_stop 0 =
      (Inr sample_image, u)" using open_sample by blast
  with open_sparse_image_table [OF run] show ?thesis by (simp add: sample_image_def)
qed

theorem open_sparse_image_checksums_witness:
  "fst (open_sparse_image (Some (policy_source sample_sparse full_reads)) never_stop 0) =
     Inr sample_image \<and>
   checksums_ok sample_sparse sample_image \<and> sh_image_checksum (si_header sample_image) \<noteq> 0"
proof -
  obtain u where run: "open_sparse_image (Some (policy_source sample_sparse full_reads)) never_stop 0 =
      (Inr sample_image, u)" using open_sample by blast
  with open_sparse_image_checksums [OF run] show ?thesis
    by (simp add: sample_image_def sample_header_def)
qed

end
