(* ===== verification/Sparse_Read.thy ===== *)
theory Sparse_Read
  imports Sparse_Table
begin

text \<open>
  Reading a window of an opened sparse image returns the corresponding part of the reference
  expansion; cancellation can only turn an outcome into the cancellation error.
\<close>

section \<open>Binary search\<close>

lemma lower_bound_spec:
  assumes "\<And>i j. first \<le> i \<Longrightarrow> i \<le> j \<Longrightarrow> j < first + count \<Longrightarrow> before j \<Longrightarrow> before i"
  shows "lower_bound before first count \<le> first + count \<and>
    first \<le> lower_bound before first count \<and>
    (\<forall>i. first \<le> i \<longrightarrow> i < lower_bound before first count \<longrightarrow> before i) \<and>
    (\<forall>i. lower_bound before first count \<le> i \<longrightarrow> i < first + count \<longrightarrow> \<not> before i)"
  using assms
proof (induction before first count rule: lower_bound.induct)
  case (1 before first count)
  let ?half = "count div 2" and ?mid = "first + count div 2"
  show ?case
  proof (cases "count = 0")
    case True
    then show ?thesis by (simp add: lower_bound.simps)
  next
    case False
    then have mid: "first \<le> ?mid" "?mid < first + count" by auto
    show ?thesis
    proof (cases "before ?mid")
      case True
      have step: "lower_bound before first count =
          lower_bound before (?mid + 1) (count - ?half - 1)"
        using False True by (subst lower_bound.simps) (simp add: Let_def)
      have sum_eq: "?mid + 1 + (count - ?half - 1) = first + count" using False by simp
      have "lower_bound before (?mid + 1) (count - ?half - 1) \<le> ?mid + 1 + (count - ?half - 1) \<and>
        ?mid + 1 \<le> lower_bound before (?mid + 1) (count - ?half - 1) \<and>
        (\<forall>i. ?mid + 1 \<le> i \<longrightarrow> i < lower_bound before (?mid + 1) (count - ?half - 1) \<longrightarrow> before i) \<and>
        (\<forall>i. lower_bound before (?mid + 1) (count - ?half - 1) \<le> i \<longrightarrow>
           i < ?mid + 1 + (count - ?half - 1) \<longrightarrow> \<not> before i)"
        using "1.IH"(1) [OF _ refl refl True] "1.prems" False sum_eq by auto
      note IH = this [unfolded sum_eq]
      have "before i" if "first \<le> i" "i < lower_bound before (?mid + 1) (count - ?half - 1)" for i
      proof (cases "i \<le> ?mid")
        case le: True
        show ?thesis by (rule "1.prems" [OF that(1) le mid(2) True])
      next
        case False
        with IH that show ?thesis by simp
      qed
      with IH mid show ?thesis unfolding step by simp
    next
      case before: False
      have step: "lower_bound before first count = lower_bound before first ?half"
        using False before by (subst lower_bound.simps) (simp add: Let_def)
      have "lower_bound before first ?half \<le> first + ?half \<and>
        first \<le> lower_bound before first ?half \<and>
        (\<forall>i. first \<le> i \<longrightarrow> i < lower_bound before first ?half \<longrightarrow> before i) \<and>
        (\<forall>i. lower_bound before first ?half \<le> i \<longrightarrow> i < first + ?half \<longrightarrow> \<not> before i)"
        using "1.IH"(2) [OF _ refl refl before] "1.prems" False by auto
      moreover have "\<not> before i" if "?mid \<le> i" "i < first + count" for i
        using "1.prems" [of ?mid i] mid that before by auto
      ultimately show ?thesis
        unfolding step using mid by (meson le_trans less_imp_le_nat not_le)
    qed
  qed
qed

section \<open>The data chunks\<close>

definition data_chunks :: "sparse_chunk list \<Rightarrow> sparse_chunk list" where
  "data_chunks cs = filter (\<lambda>c. sc_kind c \<noteq> Chunk_crc32) cs"

lemma data_indices_chunks: "map ((!) cs) (data_indices cs) = data_chunks cs"
proof (induction cs rule: rev_induct)
  case (snoc c cs)
  have "map ((!) (cs @ [c])) (data_indices cs) = map ((!) cs) (data_indices cs)"
    by (rule map_cong) (auto simp: data_indices_def nth_append)
  with snoc show ?case by (simp add: data_indices_snoc data_chunks_def)
qed (simp add: data_indices_def data_chunks_def)

lemma data_chunks_tiled:
  assumes "\<forall>c \<in> set cs. wf_chunk content h c" and "tiled cs"
  shows "tiled (data_chunks cs) \<and> chunks_size (data_chunks cs) = chunks_size cs \<and>
         expand_chunks content (data_chunks cs) = expand_chunks content cs"
  using assms
proof (induction cs rule: rev_induct)
  case (snoc c cs)
  then have IH: "tiled (data_chunks cs)" "chunks_size (data_chunks cs) = chunks_size cs"
    "expand_chunks content (data_chunks cs) = expand_chunks content cs"
    by (auto simp: tiled_snoc)
  have wf: "wf_chunk content h c" and off: "sc_output_offset c = chunks_size cs"
    using snoc.prems by (auto simp: tiled_snoc)
  show ?case
  proof (cases "sc_kind c = Chunk_crc32")
    case True
    with wf IH show ?thesis
      by (simp add: data_chunks_def wf_chunk_def expand_chunks_def expand_chunk_def)
  next
    case False
    with IH off show ?thesis by (simp add: data_chunks_def tiled_snoc expand_chunks_def)
  qed
qed (simp add: data_chunks_def)

lemma data_chunk_nonempty:
  "wf_chunk content h c \<Longrightarrow> sc_kind c \<noteq> Chunk_crc32 \<Longrightarrow> 0 < sh_block_size h \<Longrightarrow>
   0 < sc_output_size c"
  by (cases "sc_kind c") (simp_all add: wf_chunk_def)

lemma chunks_size_take:
  "i < length cs \<Longrightarrow> chunks_size (take (Suc i) cs) = chunks_size (take i cs) + sc_output_size (cs ! i)"
  by (simp add: take_Suc_conv_app_nth)

lemma chunks_size_take_mono: "i \<le> j \<Longrightarrow> chunks_size (take i cs) \<le> chunks_size (take j cs)"
proof -
  assume "i \<le> j"
  then have "take j cs = take i cs @ take (j - i) (drop i cs)" by (metis le_add_diff_inverse take_add)
  then show ?thesis by simp
qed

lemma expand_chunks_split:
  assumes "\<forall>c \<in> set cs. wf_chunk content h c" and "i < length cs" and "k \<le> sc_output_size (cs ! i)"
  shows "drop (chunks_size (take i cs) + k) (expand_chunks content cs) =
         drop k (expand_chunk content (cs ! i)) @ expand_chunks content (drop (Suc i) cs)"
proof -
  have "expand_chunks content cs = expand_chunks content (take i cs) @
      expand_chunk content (cs ! i) @ expand_chunks content (drop (Suc i) cs)"
    using id_take_nth_drop [OF assms(2)] by (metis append_Cons append_Nil concat_append
        expand_chunks_def list.simps(9) map_append concat.simps(2))
  moreover have "length (expand_chunks content (take i cs)) = chunks_size (take i cs)"
    by (rule length_expand_chunks) (use assms(1) in \<open>auto dest: in_set_takeD\<close>)
  moreover have "length (expand_chunk content (cs ! i)) = sc_output_size (cs ! i)"
    using length_expand_chunk assms(1,2) by (metis nth_mem)
  ultimately show ?thesis using assms(3) by (simp add: drop_append)
qed

section \<open>One chunk\<close>

lemma repeat_bytes_nth:
  assumes "i < n" and "pattern \<noteq> []"
  shows "repeat_bytes pattern n ! i = pattern ! (i mod length pattern)"
proof -
  let ?l = "length pattern"
  have conc: "concat (replicate k pattern) ! j = pattern ! (j mod ?l)" if "j < k * ?l" for j k
    using that
  proof (induction k arbitrary: j)
    case (Suc k)
    then show ?case by (cases "j < ?l") (auto simp: nth_append mod_if)
  qed simp
  have len: "length (concat (replicate (n div ?l) pattern)) = n div ?l * ?l"
    by (simp add: length_concat sum_list_replicate)
  show ?thesis
  proof (cases "i < n div ?l * ?l")
    case True
    then show ?thesis by (simp add: repeat_bytes_def nth_append len conc)
  next
    case False
    have n: "n = n div ?l * ?l + n mod ?l" by simp
    from False have i: "i - n div ?l * ?l < n mod ?l" using assms(1) n by linarith
    then have "i - n div ?l * ?l < ?l" using assms(2) by (meson less_trans mod_less_divisor length_greater_0_conv)
    moreover have "i mod ?l = (i - n div ?l * ?l) mod ?l"
      using False by (metis le_add_diff_inverse mod_mult_self3 not_less)
    ultimately show ?thesis using False i by (simp add: repeat_bytes_def nth_append len)
  qed
qed

context image_content
begin

lemma read_exact_outcome:
  assumes "fst (read_exact source (length content) offset destination never_stop msg t) = Inl e"
    and "offset + length destination \<le> length content" and "length content \<le> u64_max"
  shows "se_kind e \<in> {Sparse_source, Sparse_truncated}"
proof -
  have loop: "completed \<le> length destination \<Longrightarrow> length d = length destination \<Longrightarrow>
      fst (read_exact_loop source offset never_stop msg completed d t) = Inl e \<Longrightarrow>
      se_kind e \<in> {Sparse_source, Sparse_truncated}" for completed d t
  proof (induction "length d - completed" arbitrary: completed d t rule: less_induct)
    case less
    have ca: "checked_add offset completed = Some (offset + completed)"
      using less.prems(1) assms(2,3) by (intro checked_add_within) simp
    note run = less.prems(3) [unfolded read_exact_loop.simps [of source offset never_stop msg completed d]]
    show ?case
    proof (cases "is_read_at source (offset + completed) (length d - completed)")
      case (Inl m)
      with run ca show ?thesis
        by (auto simp: pbind_def poll_def never_stop_def pfail_def preturn_def sparse_err_def
            split: if_splits)
    next
      case (Inr nd)
      obtain n data where nd: "nd = (n, data)" by fastforce
      from Inr nd run ca less.hyps [of "write_span d completed data" "completed + n" "Suc (Suc t)"]
        less.prems(1,2)
      show ?thesis
        by (auto simp: pbind_def poll_def never_stop_def pfail_def preturn_def sparse_err_def
            not_less split: if_splits)
    qed
  qed
  have "checked_add offset (length destination) = Some (offset + length destination)"
    using assms(2,3) by (intro checked_add_within) simp
  with assms(1,2) loop [of 0 destination] show ?thesis
    by (auto simp: read_exact_def pbind_def poll_def never_stop_def)
qed

lemma read_chunk_content:
  assumes "wf_chunk content h c" and "sc_kind c \<noteq> Chunk_crc32"
    and "within + length span \<le> sc_output_size c" and "length content \<le> u64_max"
  shows "case read_chunk source c current within span of
      Inr octets \<Rightarrow> octets = take (length span) (drop within (expand_chunk content c))
    | Inl e \<Rightarrow> se_kind e \<in> {Sparse_source, Sparse_truncated}"
proof (cases "sc_kind c")
  case Chunk_raw
  with assms have le: "sc_input_offset c + within + length span \<le> length content"
    by (simp add: wf_chunk_def)
  then have ca: "checked_add (sc_input_offset c) within = Some (sc_input_offset c + within)"
    using assms(4) by (intro checked_add_within) simp
  obtain r t where rd: "read_exact source (length content) (sc_input_offset c + within) span
      never_stop [] 0 = (r, t)" by fastforce
  show ?thesis
  proof (cases r)
    case (Inl e)
    with rd read_exact_outcome [of "sc_input_offset c + within" span "[]" 0 e] le assms(4)
    show ?thesis by (simp add: read_chunk_def Chunk_raw ca size_content)
  next
    case (Inr octets)
    with rd have "octets = take (length span) (drop (sc_input_offset c + within) content)"
      using read_exact_content(1) by blast
    with Inr rd assms(3) show ?thesis
      by (simp add: read_chunk_def Chunk_raw ca size_content expand_chunk_def drop_take min_def
          add.commute)
  qed
next
  case Chunk_fill
  let ?p = "fill_pattern (case sc_fill_value c of None \<Rightarrow> 0 | Some v \<Rightarrow> v)"
  have "map (\<lambda>index. ?p ! ((within + index) mod length ?p)) [0..<length span] =
      take (length span) (drop within (repeat_bytes ?p (sc_output_size c)))"
    using assms(3) by (intro nth_equalityI) (auto simp: repeat_bytes_nth)
  with Chunk_fill show ?thesis by (simp add: read_chunk_def expand_chunk_def Let_def)
next
  case Chunk_dont_care
  moreover have "length span \<le> sc_output_size c - within" using assms(3) by simp
  ultimately show ?thesis by (simp add: read_chunk_def expand_chunk_def min_absorb1)
qed (use assms(2) in simp)

end

section \<open>The window\<close>

text \<open>The chunk at a position of the output index, and where its output starts and ends.\<close>

definition chunk_at :: "sparse_image \<Rightarrow> nat \<Rightarrow> sparse_chunk" where
  "chunk_at img position = si_chunks img ! (si_output_chunk_indices img ! position)"

lemma chunk_at_facts:
  assumes "sparse_table_ok content img"
  defines "ds \<equiv> data_chunks (si_chunks img)"
  shows "length (si_output_chunk_indices img) = length ds"
    and "p < length ds \<Longrightarrow> chunk_at img p = ds ! p"
    and "\<forall>c \<in> set ds. wf_chunk content (si_header img) c \<and> sc_kind c \<noteq> Chunk_crc32"
    and "p < length ds \<Longrightarrow> sc_output_offset (ds ! p) = chunks_size (take p ds)"
    and "chunks_size ds = si_output_size img"
    and "expand_chunks content ds = expand_chunks content (si_chunks img)"
proof -
  from assms have idx: "si_output_chunk_indices img = data_indices (si_chunks img)"
    and t: "tiled ds" "chunks_size ds = si_output_size img"
      "expand_chunks content ds = expand_chunks content (si_chunks img)"
    using data_chunks_tiled [of "si_chunks img" content "si_header img"]
    by (auto simp: sparse_table_ok_def)
  have map: "map ((!) (si_chunks img)) (si_output_chunk_indices img) = ds"
    using data_indices_chunks idx ds_def by simp
  from arg_cong [OF map, of length] show len: "length (si_output_chunk_indices img) = length ds"
    by simp
  show "chunk_at img p = ds ! p" if "p < length ds"
    using that len map by (metis chunk_at_def nth_map)
  show "\<forall>c \<in> set ds. wf_chunk content (si_header img) c \<and> sc_kind c \<noteq> Chunk_crc32"
    using assms by (auto simp: data_chunks_def sparse_table_ok_def)
  show "sc_output_offset (ds ! p) = chunks_size (take p ds)" if "p < length ds"
    using t(1) that by (simp add: tiled_def)
  show "chunks_size ds = si_output_size img"
    "expand_chunks content ds = expand_chunks content (si_chunks img)" by (fact t)+
qed

text \<open>An octet that is left over lies in the chunk at the position.\<close>

definition positioned :: "sparse_image \<Rightarrow> nat \<Rightarrow> nat \<Rightarrow> bool" where
  "positioned img position offset \<longleftrightarrow>
     (offset < si_output_size img \<longrightarrow>
        position < length (si_output_chunk_indices img) \<and>
        sc_output_offset (chunk_at img position) \<le> offset \<and>
        offset < sc_output_offset (chunk_at img position) + sc_output_size (chunk_at img position))"

lemma positioned_next:
  assumes ok: "sparse_table_ok content img" and pos: "positioned img p offset"
    and lt: "offset < si_output_size img"
    and sz: "offset - sc_output_offset (chunk_at img p) + n \<le> sc_output_size (chunk_at img p)"
  shows "positioned img
    (if offset - sc_output_offset (chunk_at img p) + n = sc_output_size (chunk_at img p)
     then p + 1 else p) (offset + n)"
proof -
  define ds where "ds = data_chunks (si_chunks img)"
  note F = chunk_at_facts [OF ok, folded ds_def]
  from pos lt have p: "p < length ds" "sc_output_offset (ds ! p) \<le> offset"
    using F(1,2) by (auto simp: positioned_def)
  have chunk_end: "sc_output_offset (ds ! p) + sc_output_size (ds ! p) = chunks_size (take (Suc p) ds)"
    using F(4) [OF p(1)] chunks_size_take [OF p(1)] by simp
  show ?thesis
  proof (cases "offset - sc_output_offset (chunk_at img p) + n = sc_output_size (chunk_at img p)")
    case False
    with p sz F(1) F(2) [OF p(1)] show ?thesis by (auto simp: positioned_def)
  next
    case True
    then have off: "offset + n = chunks_size (take (Suc p) ds)"
      using p F(2) [OF p(1)] chunk_end by simp
    show ?thesis
    proof (cases "Suc p < length ds")
      case False
      then have "take (Suc p) ds = ds" by simp
      with off F(5) show ?thesis by (simp add: positioned_def)
    next
      case next_chunk: True
      have "0 < sc_output_size (ds ! Suc p)"
        using F(3) nth_mem [OF next_chunk] ok data_chunk_nonempty
        by (metis sparse_table_ok_def)
      with True off next_chunk F(1) F(2) [OF next_chunk] F(4) [OF next_chunk] show ?thesis
        by (simp add: positioned_def)
    qed
  qed
qed

text \<open>The binary search finds the position of the first octet.\<close>

lemma lower_bound_positioned:
  assumes ok: "sparse_table_ok content img"
  shows "positioned img
    (lower_bound (\<lambda>i. let chunk = si_chunks img ! (si_output_chunk_indices img ! i) in
        sc_output_offset chunk + sc_output_size chunk \<le> offset)
      0 (length (si_output_chunk_indices img))) offset"
proof -
  define ds where "ds = data_chunks (si_chunks img)"
  note F = chunk_at_facts [OF ok, folded ds_def]
  define before where "before i \<longleftrightarrow> sc_output_offset (chunk_at img i) +
      sc_output_size (chunk_at img i) \<le> offset" for i
  have before: "before i \<longleftrightarrow> chunks_size (take (Suc i) ds) \<le> offset" if "i < length ds" for i
    using F(2,4) [OF that] chunks_size_take [OF that] by (simp add: before_def)
  define r where "r = lower_bound before 0 (length ds)"
  have mono: "before i" if "0 \<le> i" "i \<le> j" "j < 0 + length ds" "before j" for i j
    using that(2-4) chunks_size_take_mono [of "Suc i" "Suc j" ds] by (simp add: before)
  note spec = lower_bound_spec [of 0 "length ds" before, OF mono, folded r_def]
  from spec have r: "r \<le> length ds" "\<And>i. i < r \<Longrightarrow> before i"
    "\<And>i. r \<le> i \<Longrightarrow> i < length ds \<Longrightarrow> \<not> before i"
    by simp_all
  have "positioned img r offset"
    unfolding positioned_def
  proof (intro impI)
    assume lt: "offset < si_output_size img"
    have "r \<noteq> length ds"
    proof
      assume all: "r = length ds"
      show False
      proof (cases ds)
        case Nil
        with lt F(5) show False by simp
      next
        case (Cons d ds')
        with all r(2) [of "length ds'"] before [of "length ds'"] lt F(5) show False by simp
      qed
    qed
    with r(1) have rl: "r < length ds" by simp
    moreover have "chunks_size (take r ds) \<le> offset"
      using r(2) [of "r - 1"] before [of "r - 1"] rl by (cases r) auto
    moreover have "\<not> before r" using r(3) rl by simp
    ultimately show "r < length (si_output_chunk_indices img) \<and>
        sc_output_offset (chunk_at img r) \<le> offset \<and>
        offset < sc_output_offset (chunk_at img r) + sc_output_size (chunk_at img r)"
      using F(1,2,4) by (simp add: before_def)
  qed
  moreover have "before = (\<lambda>i. let chunk = si_chunks img ! (si_output_chunk_indices img ! i) in
      sc_output_offset chunk + sc_output_size chunk \<le> offset)"
    by (simp add: fun_eq_iff before_def chunk_at_def Let_def)
  ultimately show ?thesis by (simp add: r_def F(1))
qed

context image_content
begin

lemma read_chunk_window:
  assumes ok: "sparse_table_ok content img" and pos: "positioned img p offset"
    and lt: "offset < si_output_size img"
    and sz: "offset - sc_output_offset (chunk_at img p) + length span \<le> sc_output_size (chunk_at img p)"
    and bound: "length content \<le> u64_max"
  shows "case read_chunk source (chunk_at img p) offset
             (offset - sc_output_offset (chunk_at img p)) span of
      Inr octets \<Rightarrow> octets = take (length span) (drop offset (expand_chunks content (si_chunks img))) \<and>
        length octets = length span
    | Inl e \<Rightarrow> se_kind e \<in> {Sparse_source, Sparse_truncated}"
proof -
  define ds where "ds = data_chunks (si_chunks img)"
  note F = chunk_at_facts [OF ok, folded ds_def]
  from pos lt have p: "p < length ds" "sc_output_offset (ds ! p) \<le> offset" "chunk_at img p = ds ! p"
    using F(1,2) by (auto simp: positioned_def)
  let ?within = "offset - sc_output_offset (ds ! p)"
  from F(3) nth_mem [OF p(1)] have wf: "wf_chunk content (si_header img) (ds ! p)"
    "sc_kind (ds ! p) \<noteq> Chunk_crc32" by auto
  have within: "?within + length span \<le> sc_output_size (ds ! p)" using sz p(3) by simp
  have "drop offset (expand_chunks content (si_chunks img)) =
      drop ?within (expand_chunk content (ds ! p)) @ expand_chunks content (drop (Suc p) ds)"
    using expand_chunks_split [of ds content "si_header img" p ?within] F(3,6) F(4) [OF p(1)] p within
    by simp
  then have "take (length span) (drop offset (expand_chunks content (si_chunks img))) =
      take (length span) (drop ?within (expand_chunk content (ds ! p)))"
    and "length (take (length span) (drop ?within (expand_chunk content (ds ! p)))) = length span"
    using within length_expand_chunk [OF wf(1)] by simp_all
  with read_chunk_content [OF wf within bound, of offset] p(3) show ?thesis
    by (auto split: sum.splits)
qed

lemma read_loop_content:
  assumes ok: "sparse_table_ok content img" and src: "si_source img = source"
    and bound: "length content \<le> u64_max"
  defines "E \<equiv> expand_chunks content (si_chunks img)"
  shows "completed \<le> target \<Longrightarrow> target \<le> length destination \<Longrightarrow>
    start + target \<le> si_output_size img \<Longrightarrow> positioned img p (start + completed) \<Longrightarrow>
    take completed destination = take completed (drop start E) \<Longrightarrow>
    (case read_loop img target p (start + completed) completed destination of
       Inr filled \<Rightarrow> take target filled = take target (drop start E) \<and>
         drop target filled = drop target destination
     | Inl e \<Rightarrow> se_kind e \<in> {Sparse_source, Sparse_truncated})"
proof (induction "target - completed" arbitrary: completed p destination rule: less_induct)
  case less
  show ?case
  proof (cases "completed < target")
    case False
    with less.prems show ?thesis by (simp add: read_loop.simps)
  next
    case True
    let ?c = "chunk_at img p" and ?off = "start + completed"
    define within where "within = ?off - sc_output_offset ?c"
    define amount where "amount = min (sc_output_size ?c - within) (target - completed)"
    have lt: "?off < si_output_size img" using True less.prems(3) by simp
    with less.prems(4) have P: "p < length (si_output_chunk_indices img)"
      "sc_output_offset ?c \<le> ?off" "?off < sc_output_offset ?c + sc_output_size ?c"
      by (auto simp: positioned_def)
    then have amount: "0 < amount" "amount \<le> target - completed"
      "within + amount \<le> sc_output_size ?c"
      using True by (auto simp: amount_def within_def)
    have span: "length (take amount (drop completed destination)) = amount"
      using amount(2) less.prems(2) True by simp
    define p' where "p' = (if within + amount = sc_output_size ?c then p + 1 else p)"
    have step: "read_loop img target p ?off completed destination =
        (case read_chunk source ?c ?off within (take amount (drop completed destination)) of
           Inl e \<Rightarrow> Inl e
         | Inr octets \<Rightarrow>
             read_loop img target p'
               (start + (completed + amount)) (completed + amount) (write_span destination completed octets))"
      unfolding read_loop.simps [of img target p ?off] Let_def chunk_at_def [symmetric]
        within_def [symmetric] amount_def [symmetric] src p'_def [symmetric] add.assoc [symmetric]
      using True P by simp
    note ch = read_chunk_window [OF ok less.prems(4) lt, of "take amount (drop completed destination)",
        unfolded span, folded within_def, OF amount(3) bound, folded E_def]
    note nxt = positioned_next [OF ok less.prems(4) lt, of amount, folded within_def, OF amount(3),
        folded p'_def, unfolded add.assoc]
    show ?thesis
    proof (cases "read_chunk source ?c ?off within (take amount (drop completed destination))")
      case (Inl e)
      with ch step show ?thesis by simp
    next
      case (Inr octets)
      with ch have oct: "octets = take amount (drop ?off E)" "length octets = amount" by auto
      let ?d = "write_span destination completed octets"
      have fit: "completed + amount \<le> length destination" using amount(2) less.prems(2) True by simp
      have "take (completed + amount) ?d = take completed destination @ take amount octets"
        using oct(2) fit by (intro take_write_span) simp_all
      also have "\<dots> = take completed (drop start E) @ take amount (drop completed (drop start E))"
        using oct(1) less.prems(5) by (simp add: add.commute)
      finally have "take (completed + amount) ?d = take (completed + amount) (drop start E)"
        by (simp only: take_add)
      moreover have "drop target ?d = drop target destination"
        using oct fit amount(2) True by (simp add: write_span_def)
      moreover have "target - (completed + amount) < target - completed"
        "completed + amount \<le> target" using amount True by simp_all
      ultimately have "case read_loop img target p' (start + (completed + amount))
          (completed + amount) ?d of
         Inr filled \<Rightarrow> take target filled = take target (drop start E) \<and>
           drop target filled = drop target destination
       | Inl e \<Rightarrow> se_kind e \<in> {Sparse_source, Sparse_truncated}"
        using less.hyps [of "completed + amount" ?d p'] nxt amount(2) less.prems(2,3) True
        by (simp split: sum.splits)
      then show ?thesis unfolding step Inr by simp
    qed
  qed
qed

end

text \<open>
  C3. Reading a window of an opened image, from a source that may read short or fail: the number of
  octets is what the request and the image size allow, they are exactly that part of the reference
  expansion, and the rest of the destination is untouched; the only errors are failures of the source
  itself, so the index of an opened image is never found inconsistent.
\<close>

theorem sparse_read_at_correct:
  assumes "open_sparse_image (Some (policy_source content policy)) stop t = (Inr img, t')"
    and "length content \<le> u64_max"
    and "offset \<le> si_output_size img" and "offset + length destination \<le> u64_max"
  shows "case sparse_read_at img offset destination of
      Inr (n, filled) \<Rightarrow>
        n = min (si_output_size img - offset) (length destination) \<and>
        take n filled = take n (drop offset (expand_chunks content (si_chunks img))) \<and>
        drop n filled = drop n destination
    | Inl e \<Rightarrow> se_kind e \<in> {Sparse_source, Sparse_truncated}"
proof -
  from policy.open_sparse_image_Inr [OF assms(1)]
  have ok: "sparse_table_ok content img" and src: "si_source img = policy_source content policy" by auto
  define n where "n = min (si_output_size img - offset) (length destination)"
  have ca: "checked_add offset (length destination) = Some (offset + length destination)"
    using assms(4) by (rule checked_add_within)
  show ?thesis
  proof (cases "n = 0")
    case True
    with ca assms(3) show ?thesis
      by (simp add: sparse_read_at_def Let_def flip: n_def)
  next
    case False
    let ?p = "lower_bound (\<lambda>i. let chunk = si_chunks img ! (si_output_chunk_indices img ! i) in
        sc_output_offset chunk + sc_output_size chunk \<le> offset)
      0 (length (si_output_chunk_indices img))"
    have "positioned img ?p (offset + 0)" using lower_bound_positioned [OF ok] by simp
    moreover have "0 \<le> n" "n \<le> length destination" "offset + n \<le> si_output_size img"
      using assms(3) by (simp_all add: n_def)
    ultimately have "case read_loop img n ?p (offset + 0) 0 destination of
       Inr filled \<Rightarrow> take n filled = take n (drop offset (expand_chunks content (si_chunks img))) \<and>
         drop n filled = drop n destination
     | Inl e \<Rightarrow> se_kind e \<in> {Sparse_source, Sparse_truncated}"
      by (intro policy.read_loop_content [OF ok src assms(2)]) simp_all
    then show ?thesis
      using False ca assms(3)
      by (auto simp: sparse_read_at_def Let_def n_def [symmetric] split: sum.splits)
  qed
qed

theorem sparse_read_at_correct_witness:
  "fst (open_sparse_image (Some (policy_source sample_sparse full_reads)) never_stop 0) =
     Inr sample_image \<and>
   sparse_read_at sample_image 2 [9, 9, 9, 9] = Inr (4, [3, 4, 0, 0]) \<and>
   take 4 [3, 4, 0, 0] = take 4 (drop 2 (expand_chunks sample_sparse sample_chunks))"
proof -
  obtain u where run: "open_sparse_image (Some (policy_source sample_sparse full_reads)) never_stop 0 =
      (Inr sample_image, u)" using open_sample by blast
  have read: "sparse_read_at sample_image 2 [9, 9, 9, 9] = Inr (4, [3, 4, 0, 0])"
    by (simp add: sparse_read_at_def sample_image_def sample_chunks_def checked_add_def Let_def
        lower_bound.simps read_loop.simps read_chunk_def fill_pattern_def write_span_def)
  show ?thesis
    using run read sparse_read_at_correct [OF run, of 2 "[9, 9, 9, 9]"]
    by (simp add: length_sample_sparse sample_image_def)
qed

end
