(* ===== verification/Sparse_Cancel.thy ===== *)
theory Sparse_Cancel
  imports Sparse_Read
begin

text \<open>
  Cancellation of the sparse reader, and the classification of flash artifacts. The lemmas say, routine
  by routine, that a stop request can only replace an outcome by the cancellation error.
\<close>

section \<open>Cancellation, routine by routine\<close>

lemma read_exact_loop_length:
  "read_exact_loop source offset stop msg completed destination t = (Inr r, t') \<Longrightarrow>
   completed \<le> length destination \<Longrightarrow> length r = length destination"
proof (induction "length destination - completed" arbitrary: completed destination t
       rule: less_induct)
  case less
  note loop = less.prems(1) [unfolded read_exact_loop.simps [of source offset stop msg completed]]
  show ?case
  proof (cases "completed < length destination")
    case False
    with loop less.prems show ?thesis by simp
  next
    case True
    with loop obtain n data u where n: "0 < n" "n \<le> length destination - completed"
      and rec: "read_exact_loop source offset stop msg (completed + n)
                  (write_span destination completed data) u = (Inr r, t')"
      by (auto split: sum.splits if_splits prod.splits option.splits)
    from less.hyps [OF _ rec] n True show ?thesis by simp
  qed
qed

lemma read_exact_length:
  "read_exact source source_sz offset destination stop msg t = (Inr r, t') \<Longrightarrow>
   length r = length destination \<and> offset + length destination \<le> u64_max"
  by (auto simp: read_exact_def checked_add_def dest: read_exact_loop_length
      split: if_splits option.splits)

lemma crc_source_loop_agrees:
  "agrees_unless is_cancelled
     (crc_source_loop source source_sz stop input_offset n crc buffer)
     (crc_source_loop source source_sz never_stop input_offset n crc buffer)"
proof (induction n arbitrary: input_offset crc buffer rule: less_induct)
  case (less n)
  show ?case
    by (subst (1 2) crc_source_loop.simps, unfold Let_def)
      (intro agrees_unless_intros less.IH read_exact_agrees update_crc32_cancellable_agrees;
       force simp: kChecksumWindowSize_def dest: read_exact_length)
qed

lemma has_crc_chunk_agrees:
  "agrees_unless is_cancelled (has_crc_chunk stop cs) (has_crc_chunk never_stop cs)"
  by (induction cs) (auto intro!: agrees_unless_bind)

lemma verify_chunks_agrees:
  "agrees_unless is_cancelled (verify_chunks source source_sz stop cs crc)
     (verify_chunks source source_sz never_stop cs crc)"
  by (induction cs arbitrary: crc)
    (auto intro!: agrees_unless_bind crc_source_loop_agrees update_crc_repeated_agrees
      simp: update_crc_from_source_def split: sparse_chunk_kind.split)

lemma verify_checksums_agrees:
  "agrees_unless is_cancelled (verify_checksums source source_sz h cs stop)
     (verify_checksums source source_sz h cs never_stop)"
  unfolding verify_checksums_def
  by (intro agrees_unless_intros has_crc_chunk_agrees verify_chunks_agrees) simp_all

lemma parse_payload_agrees:
  "agrees_unless is_cancelled
     (parse_payload source source_sz stop input_offset kind payload_offset payload_size sz)
     (parse_payload source source_sz never_stop input_offset kind payload_offset payload_size sz)"
  by (cases kind) (auto simp: parse_payload_def intro!: agrees_unless_bind read_exact_agrees)

lemma parse_chunk_agrees:
  "agrees_unless is_cancelled (parse_chunk source source_sz stop h declared cur)
     (parse_chunk source source_sz never_stop h declared cur)"
  unfolding parse_chunk_def parse_crc_chunk_def parse_data_chunk_def Let_def
  by (intro agrees_unless_intros read_exact_agrees parse_payload_agrees) simp_all

lemma parse_chunks_agrees:
  "agrees_unless is_cancelled (parse_chunks source source_sz stop h declared n cur)
     (parse_chunks source source_sz never_stop h declared n cur)"
  by (induction n arbitrary: cur) (auto intro!: agrees_unless_bind parse_chunk_agrees)

lemma open_sparse_image_agrees:
  "agrees_unless is_cancelled (open_sparse_image source stop) (open_sparse_image source never_stop)"
  unfolding open_sparse_image_def Let_def
  by (intro agrees_unless_intros read_exact_agrees parse_chunks_agrees verify_checksums_agrees)
    simp_all

lemma inspect_artifact_agrees:
  "agrees_unless is_cancelled (inspect_artifact source stop) (inspect_artifact source never_stop)"
  unfolding inspect_artifact_def Let_def
  by (intro agrees_unless_intros read_exact_agrees open_sparse_image_agrees) simp_all

section \<open>Properties\<close>

text \<open>
  Cancellation is transparent: for every source, whenever the stop request arrives, inspecting a
  flash artifact (header, chunk table and checksums included) gives exactly the outcome of an
  uncancelled inspection or an error of kind \<open>Sparse_cancelled\<close>. It never accepts what would have been
  rejected, nor reports another error.
\<close>

theorem inspect_artifact_cancellation:
  "fst (inspect_artifact source stop t) = fst (inspect_artifact source never_stop t0) \<or>
   (\<exists>e. fst (inspect_artifact source stop t) = Inl e \<and> se_kind e = Sparse_cancelled)"
  using inspect_artifact_agrees [of source stop, unfolded agrees_unless_def, rule_format, of t t0]
  by (simp add: is_cancelled_def)

context image_content
begin

lemma inspect_artifact_Inr:
  assumes "inspect_artifact (Some source) stop t = (Inr a, t')"
  shows "fa_source a = source \<and> fa_transfer_size a = length content \<and>
    (fa_kind a = Artifact_raw \<and> fa_expanded_size a = length content \<and> fa_sparse_image a = None \<and>
       (length content < 4 \<or> read_u32 content 0 \<noteq> kAndroidSparseMagic) \<or>
     (\<exists>img. fa_kind a = Artifact_android_sparse \<and> fa_sparse_image a = Some img \<and>
        read_u32 content 0 = kAndroidSparseMagic \<and> sparse_table_ok content img \<and>
        checksums_ok content img \<and> fa_sparse_header a = Some (si_header img) \<and>
        fa_expanded_size a = length (expand_chunks content (si_chunks img))))"
proof (cases "length content < 4")
  case True
  with assms show ?thesis by (auto simp: inspect_artifact_def raw_artifact_def size_content)
next
  case False
  then obtain m u where rd: "read_exact source (length content) 0 [0, 0, 0, 0] stop
      kCancelledArtifactInspection (Suc t) = (Inr m, u)"
    and rest: "(if read_u32 m 0 \<noteq> kAndroidSparseMagic then preturn (raw_artifact source)
      else pbind (open_sparse_image (Some source) stop) (\<lambda>sparse. preturn
        \<lparr>fa_source = source, fa_kind = Artifact_android_sparse,
         fa_transfer_size = length content, fa_expanded_size = si_output_size sparse,
         fa_sparse_header = Some (si_header sparse), fa_sparse_image = Some sparse\<rparr>)) u = (Inr a, t')"
    using assms [unfolded inspect_artifact_def option.case size_content] by auto
  note magic = read_field [OF rd]
  show ?thesis
  proof (cases "read_u32 m 0 = kAndroidSparseMagic")
    case False
    with rest magic show ?thesis by (simp add: raw_artifact_def size_content)
  next
    case True
    with rest obtain img v where op: "open_sparse_image (Some source) stop u = (Inr img, v)"
      and a: "a = \<lparr>fa_source = source, fa_kind = Artifact_android_sparse,
         fa_transfer_size = length content, fa_expanded_size = si_output_size img,
         fa_sparse_header = Some (si_header img), fa_sparse_image = Some img\<rparr>"
      by auto
    note ok = open_sparse_image_Inr [OF op]
    then have "length (expand_chunks content (si_chunks img)) = si_output_size img"
      by (auto simp: sparse_table_ok_def length_expand_chunks)
    with ok a True magic show ?thesis by simp
  qed
qed

end

text \<open>
  C33. A successful inspection classifies by content alone: without the sparse magic the artifact is
  raw and expands to itself; with it, the artifact carries a parsed image whose table and checksums
  hold and its expanded size is that of the reference expansion. The transfer always uses the encoded
  source unchanged.
\<close>

theorem inspect_artifact_classifies:
  assumes "inspect_artifact (Some (policy_source content policy)) stop t = (Inr a, t')"
  shows "fa_source a = policy_source content policy \<and> fa_transfer_size a = length content \<and>
    (fa_kind a = Artifact_raw \<and> fa_expanded_size a = length content \<and> fa_sparse_image a = None \<and>
       (length content < 4 \<or> read_u32 content 0 \<noteq> kAndroidSparseMagic) \<or>
     (\<exists>img. fa_kind a = Artifact_android_sparse \<and> fa_sparse_image a = Some img \<and>
        read_u32 content 0 = kAndroidSparseMagic \<and> sparse_table_ok content img \<and>
        checksums_ok content img \<and> fa_sparse_header a = Some (si_header img) \<and>
        fa_expanded_size a = length (expand_chunks content (si_chunks img))))"
  by (rule policy.inspect_artifact_Inr [OF assms])

theorem inspect_artifact_classifies_witness:
  "\<exists>a u. inspect_artifact (Some (policy_source [1, 2, 3] full_reads)) never_stop 0 = (Inr a, u) \<and>
     fa_kind a = Artifact_raw \<and> fa_expanded_size a = 3 \<and> fa_transfer_size a = 3"
proof -
  have run: "inspect_artifact (Some (policy_source [1, 2, 3] full_reads)) never_stop 0 =
      (Inr (raw_artifact (policy_source [1, 2, 3] full_reads)), 2)"
    by (simp add: inspect_artifact_def policy.size_content pbind_def poll_def never_stop_def
        preturn_def)
  have "fa_kind (raw_artifact (policy_source [1, 2, 3] full_reads)) = Artifact_raw"
    by (simp add: raw_artifact_def)
  with run inspect_artifact_classifies [OF run] show ?thesis by auto
qed

end
