(* ===== verification/Buffer_Budget.thy ===== *)
theory Buffer_Budget
  imports KB_Prelude "HOL-Library.Multiset"
begin

text \<open>
  The shared memory budget of \<^verbatim>\<open>src/transport/buffer_budget.{hpp,cpp}\<close>: the accounting state
  (\<^verbatim>\<open>BufferBudgetState\<close>), leases, acquisition and release, the registry of availability observers and
  the computation of the process-wide limit.

  Two views of acquisition and release are given. The sequential operations \<open>try_acquire\<close> and
  \<open>release_charge\<close> are what a caller sees that no other thread disturbs. The step relation
  \<open>world_step\<close> interleaves any number of calls at the granularity of their atomic accesses, with
  compare-exchange operations that may fail spuriously; accesses to one atomic cell are totally
  ordered, which is all the code relies on. The invariant of the relation is the safety property of
  the component, and solo runs of the relation end exactly like the sequential operations.
\<close>

section \<open>State\<close>

text \<open>
  A \<^verbatim>\<open>std::weak_ptr\<close> to an observer is the identity of its control block. Which observers are still
  alive is an argument \<open>alive\<close> of the operations that ask; an empty pointer is one that is not alive.
\<close>

type_synonym observer = nat

record budget_state =
  budget_limit :: nat
  budget_used :: nat
  budget_peak :: nat
  availability_observers :: "observer list"

definition new_budget :: "nat \<Rightarrow> budget_state" where
  "new_budget limit_bytes =
     \<lparr>budget_limit = limit_bytes, budget_used = 0, budget_peak = 0, availability_observers = []\<rparr>"

text \<open>The storage behind a lease; a lease is null or owns one storage.\<close>

record lease_storage =
  lease_buffer :: "byte list"
  reserved_bytes :: nat

type_synonym buffer_lease = "lease_storage option"

definition make_lease_storage :: "nat \<Rightarrow> lease_storage" where
  "make_lease_storage bytes = \<lparr>lease_buffer = replicate bytes 0, reserved_bytes = bytes\<rparr>"

definition lease_holds :: "buffer_lease \<Rightarrow> bool" where
  "lease_holds lease = (lease \<noteq> None)"

definition lease_size :: "buffer_lease \<Rightarrow> nat" where
  "lease_size lease = (case lease of None \<Rightarrow> 0 | Some storage \<Rightarrow> length (lease_buffer storage))"

definition lease_bytes :: "buffer_lease \<Rightarrow> byte list" where
  "lease_bytes lease = (case lease of None \<Rightarrow> [] | Some storage \<Rightarrow> lease_buffer storage)"

text \<open>The move constructor: the new lease and what is left in the old one.\<close>

definition lease_move :: "buffer_lease \<Rightarrow> buffer_lease \<times> buffer_lease" where
  "lease_move other = (other, None)"

text \<open>
  Move assignment: both leases afterwards and the storage the target gives up, which is destroyed
  unless a lifetime token still shares it. \<open>same\<close> says that both sides are one object.
\<close>

definition lease_move_assign ::
    "bool \<Rightarrow> buffer_lease \<Rightarrow> buffer_lease \<Rightarrow> buffer_lease \<times> buffer_lease \<times> lease_storage option" where
  "lease_move_assign same self other =
     (if same then (self, other, None) else (other, None, self))"

section \<open>Availability observers\<close>

definition same_owner :: "observer \<Rightarrow> observer \<Rightarrow> bool" where
  "same_owner left right = (left = right)"

fun observe_loop :: "(observer \<Rightarrow> bool) \<Rightarrow> observer \<Rightarrow> observer list \<Rightarrow> observer list" where
  "observe_loop alive observer [] = [observer]"
| "observe_loop alive observer (existing # rest) =
     (if \<not> alive existing then observe_loop alive observer rest
      else if same_owner existing observer then observer # rest
      else existing # observe_loop alive observer rest)"

definition observe_availability ::
    "(observer \<Rightarrow> bool) \<Rightarrow> observer \<Rightarrow> budget_state \<Rightarrow> budget_state" where
  "observe_availability alive observer s =
     (if \<not> alive observer then s
      else s\<lparr>availability_observers := observe_loop alive observer (availability_observers s)\<rparr>)"

section \<open>Sequential operations\<close>

text \<open>\<^verbatim>\<open>std::atomic<std::size_t>::fetch_sub\<close> wraps modulo \<open>2\<^sup>6\<^sup>4\<close>.\<close>

definition fetch_sub :: "nat \<Rightarrow> nat \<Rightarrow> nat" where
  "fetch_sub cell bytes = (cell + (u64_max + 1) - bytes) mod (u64_max + 1)"

text \<open>The second critical section of a release: the observers to call, and the pruned registry.\<close>

definition collect_callbacks ::
    "(observer \<Rightarrow> bool) \<Rightarrow> nat \<Rightarrow> observer list \<Rightarrow> observer list \<times> observer list" where
  "collect_callbacks alive callback_capacity observers =
     (let callback_count = min callback_capacity (length observers) in
      (filter alive (take callback_count observers), filter alive observers))"

definition release_charge ::
    "(observer \<Rightarrow> bool) \<Rightarrow> nat \<Rightarrow> budget_state \<Rightarrow> budget_state \<times> observer list" where
  "release_charge alive bytes s =
     (let s = s\<lparr>budget_used := fetch_sub (budget_used s) bytes\<rparr>;
          callback_capacity = length (availability_observers s);
          (callbacks, observers) =
            collect_callbacks alive callback_capacity (availability_observers s)
      in (s\<lparr>availability_observers := observers\<rparr>, callbacks))"

text \<open>The destructor of a storage: what it does, in order, with the budget after each event.\<close>

datatype release_event = Buffer_freed | On_buffer_released | On_buffer_budget_available observer

definition destroy_storage ::
    "(observer \<Rightarrow> bool) \<Rightarrow> bool \<Rightarrow> lease_storage \<Rightarrow> budget_state \<Rightarrow>
     budget_state \<times> (release_event \<times> budget_state) list" where
  "destroy_storage alive has_release_observer storage s =
     (let (s', callbacks) = release_charge alive (reserved_bytes storage) s in
      (s', (Buffer_freed, s) # (if has_release_observer then [(On_buffer_released, s)] else []) @
           map (\<lambda>c. (On_buffer_budget_available c, s')) callbacks))"

datatype acquire_result =
    Acquired buffer_lease
  | Budget_exhausted
  | Allocation_failed

text \<open>
  \<open>allocates\<close> says whether the allocation of a storage of the given size succeeds. A failing one
  throws, after the charge has been returned; its callbacks are the last component.
\<close>

definition try_acquire ::
    "(observer \<Rightarrow> bool) \<Rightarrow> (nat \<Rightarrow> bool) \<Rightarrow> budget_state \<Rightarrow> nat \<Rightarrow>
     acquire_result \<times> budget_state \<times> observer list" where
  "try_acquire alive allocates s bytes =
     (if bytes = 0 then
        (if allocates 0 then Acquired (Some (make_lease_storage 0)) else Allocation_failed, s, [])
      else
        let current = budget_used s in
        if current > budget_limit s \<or> bytes > budget_limit s - current then (Budget_exhausted, s, [])
        else
          let s = s\<lparr>budget_used := current + bytes\<rparr>;
              s = (if budget_peak s < current + bytes then s\<lparr>budget_peak := current + bytes\<rparr> else s)
          in if allocates bytes then (Acquired (Some (make_lease_storage bytes)), s, [])
             else (Allocation_failed, release_charge alive bytes s))"

definition budget_available :: "budget_state \<Rightarrow> nat" where
  "budget_available s =
     (let current = budget_used s in
      if current \<ge> budget_limit s then 0 else budget_limit s - current)"

section \<open>Interleaved operations\<close>

text \<open>
  The program counter of one call, with its local variables. \<open>Held\<close> is a storage that some lease or
  lifetime token owns; from there the destructor may start, when the last owner goes.
\<close>

datatype pc =
    Acq_load nat                    \<comment> \<open>\<^verbatim>\<open>try_acquire(bytes)\<close> entered, \<open>bytes \<noteq> 0\<close>\<close>
  | Acq_test nat nat                \<comment> \<open>\<open>current\<close> loaded\<close>
  | Acq_exchange nat nat            \<comment> \<open>limit test passed\<close>
  | Peak_load nat nat               \<comment> \<open>charge taken\<close>
  | Peak_test nat nat nat           \<comment> \<open>\<open>peak\<close> loaded\<close>
  | Peak_exchange nat nat nat       \<comment> \<open>\<open>peak < current + bytes\<close>\<close>
  | Allocate nat                    \<comment> \<open>about to create the storage\<close>
  | Allocate_empty                  \<comment> \<open>the same for \<open>bytes = 0\<close>\<close>
  | Held nat
  | Destroy_buffer nat              \<comment> \<open>destructor entered, the vector is still allocated\<close>
  | Destroy_notify nat              \<comment> \<open>vector freed\<close>
  | Release nat bool                \<comment> \<open>before \<^verbatim>\<open>fetch_sub\<close>; the flag marks the path of a failed allocation\<close>
  | Release_capacity bool           \<comment> \<open>before the first critical section\<close>
  | Release_collect nat bool        \<comment> \<open>before the second critical section\<close>
  | Release_call "observer list" bool
  | Returned_null
  | Thrown
  | Finished

text \<open>One atomic action of a call.\<close>

inductive pc_step :: "budget_state \<Rightarrow> pc \<Rightarrow> budget_state \<Rightarrow> pc \<Rightarrow> bool" where
  load: "pc_step s (Acq_load b) s (Acq_test b (budget_used s))"
| exhausted: "c > budget_limit s \<or> b > budget_limit s - c \<Longrightarrow> pc_step s (Acq_test b c) s Returned_null"
| fits: "\<not> (c > budget_limit s \<or> b > budget_limit s - c) \<Longrightarrow>
    pc_step s (Acq_test b c) s (Acq_exchange b c)"
| charged: "budget_used s = c \<Longrightarrow>
    pc_step s (Acq_exchange b c) (s\<lparr>budget_used := c + b\<rparr>) (Peak_load b c)"
| charge_retry: "pc_step s (Acq_exchange b c) s (Acq_test b (budget_used s))"
| peak_loaded: "pc_step s (Peak_load b c) s (Peak_test b c (budget_peak s))"
| peak_higher: "\<not> p < c + b \<Longrightarrow> pc_step s (Peak_test b c p) s (Allocate b)"
| peak_lower: "p < c + b \<Longrightarrow> pc_step s (Peak_test b c p) s (Peak_exchange b c p)"
| peak_raised: "budget_peak s = p \<Longrightarrow>
    pc_step s (Peak_exchange b c p) (s\<lparr>budget_peak := c + b\<rparr>) (Allocate b)"
| peak_retry: "pc_step s (Peak_exchange b c p) s (Peak_test b c (budget_peak s))"
| allocated: "pc_step s (Allocate b) s (Held b)"
| alloc_failed: "pc_step s (Allocate b) s (Release b True)"
| allocated_empty: "pc_step s Allocate_empty s (Held 0)"
| alloc_empty_failed: "pc_step s Allocate_empty s Thrown"
| destroyed: "pc_step s (Held b) s (Destroy_buffer b)"
| freed: "pc_step s (Destroy_buffer b) s (Destroy_notify b)"
| notified: "pc_step s (Destroy_notify b) s (Release b False)"
| returned: "pc_step s (Release b f) (s\<lparr>budget_used := fetch_sub (budget_used s) b\<rparr>) (Release_capacity f)"
| sized: "pc_step s (Release_capacity f) s (Release_collect (length (availability_observers s)) f)"
| collected: "collect_callbacks alive n (availability_observers s) = (calls, obs) \<Longrightarrow>
    pc_step s (Release_collect n f) (s\<lparr>availability_observers := obs\<rparr>) (Release_call calls f)"
| called: "pc_step s (Release_call (o1 # calls) f) s (Release_call calls f)"
| all_called: "pc_step s (Release_call [] f) s (if f then Thrown else Finished)"

definition call_try_acquire :: "nat \<Rightarrow> pc" where
  "call_try_acquire bytes = (if bytes = 0 then Allocate_empty else Acq_load bytes)"

text \<open>The system: the shared cells and every call made so far. Calls may start at any time.\<close>

type_synonym world = "budget_state \<times> pc multiset"

inductive world_step :: "world \<Rightarrow> world \<Rightarrow> bool" where
  start: "bytes \<le> u64_max \<Longrightarrow>
    world_step (s, calls) (s, add_mset (call_try_acquire bytes) calls)"
| observe: "world_step (s, calls) (observe_availability alive observer s, calls)"
| act: "pc_step s p s' p' \<Longrightarrow> world_step (s, add_mset p calls) (s', add_mset p' calls)"

section \<open>The limit of the process\<close>

definition kProcessUsbBufferBudgetCapBytes :: nat where
  "kProcessUsbBufferBudgetCapBytes = 2 * 1024 * 1024 * 1024"

definition kProcessUsbBufferBudgetFallbackBytes :: nat where
  "kProcessUsbBufferBudgetFallbackBytes = 64 * 1024 * 1024"

datatype physical_memory_status = Measured | Query_failed | Arithmetic_overflow

record physical_memory_result =
  memory_status :: physical_memory_status
  memory_bytes :: nat
  memory_native_code :: nat

record process_usb_buffer_budget_info =
  limit_bytes :: nat
  physical_memory_bytes :: nat
  query_status :: physical_memory_status
  info_native_code :: nat
  fallback_used :: bool

definition calculate_process_usb_buffer_budget :: "nat \<Rightarrow> nat" where
  "calculate_process_usb_buffer_budget physical =
     (let twenty_percent = physical div 5;
          capped = (if twenty_percent < kProcessUsbBufferBudgetCapBytes then twenty_percent
                    else kProcessUsbBufferBudgetCapBytes);
          representable = u64_max
      in if capped < representable then capped else representable)"

text \<open>The conversion of an \<^verbatim>\<open>int\<close> error number to \<^verbatim>\<open>std::uint32_t\<close>.\<close>

definition native_u32 :: "int \<Rightarrow> nat" where
  "native_u32 code = nat (code mod 4294967296)"

definition multiply_overflows :: "nat \<Rightarrow> nat \<Rightarrow> bool" where
  "multiply_overflows left right = (left \<noteq> 0 \<and> right > u64_max div left)"

text \<open>
  The platform queries, as functions of what the operating system answers. On Linux these are the
  results of the two \<^verbatim>\<open>sysconf\<close> calls with the \<^verbatim>\<open>errno\<close> each leaves; \<^verbatim>\<open>EINVAL\<close> is 22, \<^verbatim>\<open>EOVERFLOW\<close> 75.
\<close>

definition query_linux :: "int \<Rightarrow> int \<Rightarrow> int \<Rightarrow> int \<Rightarrow> physical_memory_result" where
  "query_linux pages pages_error page_size page_size_error =
     (if pages \<le> 0 \<or> page_size \<le> 0 then
        let native_error = (if pages \<le> 0 then pages_error else page_size_error) in
        \<lparr>memory_status = Query_failed, memory_bytes = 0,
         memory_native_code = native_u32 (if native_error = 0 then 22 else native_error)\<rparr>
      else
        let page_count = nat pages; bytes_per_page = nat page_size in
        if multiply_overflows page_count bytes_per_page then
          \<lparr>memory_status = Arithmetic_overflow, memory_bytes = 0, memory_native_code = native_u32 75\<rparr>
        else
          \<lparr>memory_status = Measured, memory_bytes = page_count * bytes_per_page,
           memory_native_code = 0\<rparr>)"

text \<open>On Windows: whether \<^verbatim>\<open>GlobalMemoryStatusEx\<close> succeeds, the total and the last error.\<close>

definition query_windows :: "bool \<Rightarrow> nat \<Rightarrow> nat \<Rightarrow> physical_memory_result" where
  "query_windows succeeded total_phys last_error =
     (if \<not> succeeded then
        \<lparr>memory_status = Query_failed, memory_bytes = 0, memory_native_code = last_error\<rparr>
      else if total_phys = 0 then
        \<lparr>memory_status = Query_failed, memory_bytes = 0, memory_native_code = 13\<rparr>
      else \<lparr>memory_status = Measured, memory_bytes = total_phys, memory_native_code = 0\<rparr>)"

text \<open>On macOS: the result of \<^verbatim>\<open>sysctlbyname\<close>, the size and value it stores and its \<^verbatim>\<open>errno\<close>.\<close>

definition query_macos :: "int \<Rightarrow> nat \<Rightarrow> nat \<Rightarrow> int \<Rightarrow> physical_memory_result" where
  "query_macos result result_size physical_memory native_error =
     (if result \<noteq> 0 \<or> result_size \<noteq> 8 \<or> physical_memory = 0 then
        \<lparr>memory_status = Query_failed, memory_bytes = 0,
         memory_native_code = native_u32 (if native_error = 0 then 22 else native_error)\<rparr>
      else \<lparr>memory_status = Measured, memory_bytes = physical_memory, memory_native_code = 0\<rparr>)"

text \<open>The query is a callback that may be null; only its answer matters.\<close>

definition resolve_process_usb_buffer_budget ::
    "physical_memory_result option \<Rightarrow> process_usb_buffer_budget_info" where
  "resolve_process_usb_buffer_budget query =
     (let result = (case query of
            None \<Rightarrow> \<lparr>memory_status = Query_failed, memory_bytes = 0, memory_native_code = 0\<rparr>
          | Some r \<Rightarrow> r)
      in if memory_status result = Measured \<and> memory_bytes result \<noteq> 0 then
           \<lparr>limit_bytes = calculate_process_usb_buffer_budget (memory_bytes result),
            physical_memory_bytes = memory_bytes result,
            query_status = memory_status result,
            info_native_code = memory_native_code result,
            fallback_used = False\<rparr>
         else
           \<lparr>limit_bytes = kProcessUsbBufferBudgetFallbackBytes,
            physical_memory_bytes = 0,
            query_status = (if memory_status result = Measured then Query_failed
                            else memory_status result),
            info_native_code = memory_native_code result,
            fallback_used = True\<rparr>)"

record process_usb_buffer_budget_registry =
  registry_info :: process_usb_buffer_budget_info
  registry_budget :: budget_state

definition new_registry :: "physical_memory_result option \<Rightarrow> process_usb_buffer_budget_registry" where
  "new_registry query =
     (let info = resolve_process_usb_buffer_budget query in
      \<lparr>registry_info = info, registry_budget = new_budget (limit_bytes info)\<rparr>)"

section \<open>Sequential behaviour\<close>

lemma fetch_sub_eq [simp]: "bytes \<le> cell \<Longrightarrow> cell \<le> u64_max \<Longrightarrow> fetch_sub cell bytes = cell - bytes"
  by (simp add: fetch_sub_def mod_if)

definition budget_fits :: "budget_state \<Rightarrow> nat \<Rightarrow> bool" where
  "budget_fits s bytes \<longleftrightarrow> budget_used s + bytes \<le> budget_limit s"

definition charged :: "budget_state \<Rightarrow> nat \<Rightarrow> budget_state" where
  "charged s bytes =
     s\<lparr>budget_used := budget_used s + bytes, budget_peak := max (budget_peak s) (budget_used s + bytes)\<rparr>"

lemma limit_test: "(c > l \<or> b > l - c) \<longleftrightarrow> \<not> c + b \<le> (l :: nat)"
  by auto

lemma try_acquire_cases:
  "try_acquire alive allocates s bytes =
     (if bytes = 0 then
        (if allocates 0 then Acquired (Some (make_lease_storage 0)) else Allocation_failed, s, [])
      else if \<not> budget_fits s bytes then (Budget_exhausted, s, [])
      else if allocates bytes then (Acquired (Some (make_lease_storage bytes)), charged s bytes, [])
      else (Allocation_failed, release_charge alive bytes (charged s bytes)))"
  by (auto simp: try_acquire_def limit_test budget_fits_def charged_def Let_def max_def)

lemma release_charge_eq:
  "release_charge alive bytes s =
     (s\<lparr>budget_used := fetch_sub (budget_used s) bytes,
        availability_observers := filter alive (availability_observers s)\<rparr>,
      filter alive (availability_observers s))"
  by (simp add: release_charge_def collect_callbacks_def Let_def)

lemma lease_size_make [simp]: "lease_size (Some (make_lease_storage n)) = n"
  by (simp add: lease_size_def make_lease_storage_def)

lemma budget_available_eq: "budget_available s = budget_limit s - budget_used s"
  by (simp add: budget_available_def Let_def)

lemma observe_loop_alive:
  "o1 \<in> set obs \<Longrightarrow> alive o1 \<Longrightarrow> o1 \<in> set (observe_loop alive observer obs)"
  by (induction obs) (auto simp: same_owner_def)

lemma observe_loop_self: "observer \<in> set (observe_loop alive observer obs)"
  by (induction obs) (auto simp: same_owner_def)

lemma observe_loop_subset: "set (observe_loop alive observer obs) \<subseteq> insert observer (set obs)"
  by (induction obs) auto

lemma observe_loop_distinct:
  "distinct obs \<Longrightarrow> distinct (observe_loop alive observer obs)"
  using observe_loop_subset by (induction obs) (fastforce simp: same_owner_def)+

section \<open>The invariant of the interleaved system\<close>

text \<open>What a call has charged, the bytes of the vector it keeps allocated, and its duty on the peak.\<close>

fun charge :: "pc \<Rightarrow> nat" where
  "charge (Peak_load b c) = b"
| "charge (Peak_test b c p) = b"
| "charge (Peak_exchange b c p) = b"
| "charge (Allocate b) = b"
| "charge (Held b) = b"
| "charge (Destroy_buffer b) = b"
| "charge (Destroy_notify b) = b"
| "charge (Release b f) = b"
| "charge _ = 0"

fun allocated_bytes :: "pc \<Rightarrow> nat" where
  "allocated_bytes (Held b) = b"
| "allocated_bytes (Destroy_buffer b) = b"
| "allocated_bytes _ = 0"

fun pending_peak :: "pc \<Rightarrow> nat option" where
  "pending_peak (Peak_load b c) = Some (c + b)"
| "pending_peak (Peak_test b c p) = Some (c + b)"
| "pending_peak (Peak_exchange b c p) = Some (c + b)"
| "pending_peak _ = None"

fun pc_ok :: "budget_state \<Rightarrow> pc \<Rightarrow> bool" where
  "pc_ok s (Acq_exchange b c) = (c + b \<le> budget_limit s)"
| "pc_ok s (Peak_load b c) = (c + b \<le> budget_limit s)"
| "pc_ok s (Peak_test b c p) = (c + b \<le> budget_limit s \<and> p \<le> budget_peak s)"
| "pc_ok s (Peak_exchange b c p) = (c + b \<le> budget_limit s \<and> p < c + b)"
| "pc_ok s _ = True"

definition peak_covered :: "budget_state \<Rightarrow> pc multiset \<Rightarrow> bool" where
  "peak_covered s calls \<longleftrightarrow>
     budget_used s \<le> budget_peak s \<or>
     (\<exists>p \<in># calls. \<exists>t. pending_peak p = Some t \<and> budget_used s \<le> t)"

definition world_inv :: "world \<Rightarrow> bool" where
  "world_inv w \<longleftrightarrow> (case w of (s, calls) \<Rightarrow>
     budget_limit s \<le> u64_max \<and> budget_used s = (\<Sum>p \<in># calls. charge p) \<and>
     budget_used s \<le> budget_limit s \<and> budget_peak s \<le> budget_limit s \<and>
     (\<forall>p \<in># calls. pc_ok s p) \<and> peak_covered s calls)"

text \<open>One action keeps the limit, never lowers the peak, and moves exactly its own charge.\<close>

lemma pc_step_accounts:
  assumes "pc_step s p s' p'" and "pc_ok s p" and "budget_used s = charge p + others"
    and "budget_used s \<le> budget_limit s" and "budget_peak s \<le> budget_limit s"
    and "budget_limit s \<le> u64_max"
  shows "budget_limit s' = budget_limit s" and "budget_used s' = charge p' + others"
    and "budget_used s' \<le> budget_limit s'" and "budget_peak s \<le> budget_peak s'"
    and "budget_peak s' \<le> budget_limit s'" and "pc_ok s' p'"
  using assms by (induction rule: pc_step.induct) (auto simp: limit_test)

lemma pc_ok_mono:
  "pc_ok s p \<Longrightarrow> budget_limit s' = budget_limit s \<Longrightarrow> budget_peak s \<le> budget_peak s' \<Longrightarrow> pc_ok s' p"
  by (cases p) auto

text \<open>A call gives up its duty on the peak only when the peak has reached its total.\<close>

lemma pc_step_pending:
  assumes "pc_step s p s' p'" and "pc_ok s p" and "pending_peak p = Some t"
  shows "pending_peak p' = Some t \<or> t \<le> budget_peak s'"
  using assms by (induction rule: pc_step.induct) auto

lemma pc_step_used:
  assumes "pc_step s p s' p'" and "pc_ok s p" and "charge p \<le> budget_used s"
    and "budget_used s \<le> u64_max"
  shows "budget_used s' \<le> budget_used s \<or> pending_peak p' = Some (budget_used s')"
  using assms by (induction rule: pc_step.induct) auto

lemma peak_covered_act:
  assumes step: "pc_step s p s' p'" and ok: "pc_ok s p" and "charge p \<le> budget_used s"
    and "budget_used s \<le> u64_max" and mono: "budget_peak s \<le> budget_peak s'"
    and covered: "peak_covered s (add_mset p calls)"
  shows "peak_covered s' (add_mset p' calls)"
proof -
  from pc_step_used [OF step ok assms(3,4)] consider
      "pending_peak p' = Some (budget_used s')" | "budget_used s' \<le> budget_used s" by blast
  then show ?thesis
  proof cases
    case 1
    then show ?thesis by (auto simp: peak_covered_def)
  next
    case 2
    with covered consider "budget_used s' \<le> budget_peak s"
      | t where "pending_peak p = Some t" "budget_used s' \<le> t"
      | q t where "q \<in># calls" "pending_peak q = Some t" "budget_used s' \<le> t"
      by (fastforce simp: peak_covered_def)
    then show ?thesis
      by cases (use mono pc_step_pending [OF step ok] in \<open>fastforce simp: peak_covered_def\<close>)+
  qed
qed

lemma charge_call [simp]:
  "charge (call_try_acquire bytes) = 0" "pc_ok s (call_try_acquire bytes)"
  by (auto simp: call_try_acquire_def)

lemma observe_availability_simps [simp]:
  "budget_limit (observe_availability alive observer s) = budget_limit s"
  "budget_used (observe_availability alive observer s) = budget_used s"
  "budget_peak (observe_availability alive observer s) = budget_peak s"
  by (auto simp: observe_availability_def)

lemma world_inv_step: "world_step w w' \<Longrightarrow> world_inv w \<Longrightarrow> world_inv w'"
proof (induction rule: world_step.induct)
  case (start bytes s calls)
  then show ?case by (auto simp: world_inv_def peak_covered_def)
next
  case (observe s calls alive observer)
  then show ?case
    using pc_ok_mono [of s _ "observe_availability alive observer s"]
    by (auto simp: world_inv_def peak_covered_def)
next
  case (act s p s' p' calls)
  define others where "others = (\<Sum>q \<in># calls. charge q)"
  from act have inv: "pc_ok s p" "budget_used s = charge p + others"
    "budget_used s \<le> budget_limit s" "budget_peak s \<le> budget_limit s" "budget_limit s \<le> u64_max"
    "peak_covered s (add_mset p calls)" and rest: "\<forall>q \<in># calls. pc_ok s q"
    by (simp_all add: world_inv_def others_def)
  note acc = pc_step_accounts [OF act(1) inv(1-5)]
  have "\<forall>q \<in># calls. pc_ok s' q" using rest pc_ok_mono acc(1,4) by blast
  moreover have "peak_covered s' (add_mset p' calls)"
    using peak_covered_act [OF act(1) inv(1) _ _ acc(4) inv(6)] inv by simp
  ultimately show ?case
    using acc inv by (simp add: world_inv_def others_def)
qed

lemma world_inv_reachable:
  assumes "world_step\<^sup>*\<^sup>* (new_budget limit, {#}) w" and "limit \<le> u64_max"
  shows "world_inv w"
  using assms(1)
proof (induction rule: rtranclp_induct)
  case base
  then show ?case using assms(2) by (simp add: world_inv_def new_budget_def peak_covered_def)
next
  case (step y z)
  then show ?case using world_inv_step by blast
qed

lemma world_step_limit: "world_step\<^sup>*\<^sup>* w w' \<Longrightarrow> budget_limit (fst w') = budget_limit (fst w)"
proof (induction rule: rtranclp_induct)
  case base
  then show ?case by simp
next
  case (step y z)
  have "budget_limit s' = budget_limit s" if "pc_step s p s' p'" for s s' p p'
    using that by (induction rule: pc_step.induct) auto
  with step show ?case by (auto elim!: world_step.cases)
qed

lemma allocated_le_charge: "(\<Sum>p \<in># calls. allocated_bytes p) \<le> (\<Sum>p \<in># calls. charge p)"
proof -
  have "allocated_bytes p \<le> charge p" for p by (cases p) auto
  then show ?thesis by (simp add: sum_mset_mono)
qed

section \<open>Solo runs are the sequential operations\<close>

definition solo_step :: "budget_state \<times> pc \<Rightarrow> budget_state \<times> pc \<Rightarrow> bool" where
  "solo_step x y = pc_step (fst x) (snd x) (fst y) (snd y)"

definition acquired_state :: "budget_state \<Rightarrow> nat \<Rightarrow> budget_state" where
  "acquired_state s bytes = (if bytes = 0 then s else charged s bytes)"

text \<open>The states a call of \<open>try_acquire b\<close> and the life of its lease go through, undisturbed from \<open>s0\<close>.\<close>

fun solo_at :: "budget_state \<Rightarrow> nat \<Rightarrow> budget_state \<Rightarrow> pc \<Rightarrow> bool" where
  "solo_at s0 b s (Acq_load b') \<longleftrightarrow> b' = b \<and> b \<noteq> 0 \<and> s = s0"
| "solo_at s0 b s (Acq_test b' c) \<longleftrightarrow> b' = b \<and> b \<noteq> 0 \<and> c = budget_used s0 \<and> s = s0"
| "solo_at s0 b s (Acq_exchange b' c) \<longleftrightarrow>
     b' = b \<and> b \<noteq> 0 \<and> c = budget_used s0 \<and> s = s0 \<and> budget_fits s0 b"
| "solo_at s0 b s (Peak_load b' c) \<longleftrightarrow>
     b' = b \<and> b \<noteq> 0 \<and> c = budget_used s0 \<and> budget_fits s0 b \<and> s = s0\<lparr>budget_used := c + b\<rparr>"
| "solo_at s0 b s (Peak_test b' c q) \<longleftrightarrow>
     b' = b \<and> b \<noteq> 0 \<and> c = budget_used s0 \<and> budget_fits s0 b \<and> s = s0\<lparr>budget_used := c + b\<rparr> \<and>
     q = budget_peak s0"
| "solo_at s0 b s (Peak_exchange b' c q) \<longleftrightarrow>
     b' = b \<and> b \<noteq> 0 \<and> c = budget_used s0 \<and> budget_fits s0 b \<and> s = s0\<lparr>budget_used := c + b\<rparr> \<and>
     q = budget_peak s0 \<and> q < c + b"
| "solo_at s0 b s (Allocate b') \<longleftrightarrow> b' = b \<and> b \<noteq> 0 \<and> budget_fits s0 b \<and> s = charged s0 b"
| "solo_at s0 b s Allocate_empty \<longleftrightarrow> b = 0 \<and> s = s0"
| "solo_at s0 b s (Held b') \<longleftrightarrow> b' = b \<and> (b = 0 \<or> budget_fits s0 b) \<and> s = acquired_state s0 b"
| "solo_at s0 b s (Destroy_buffer b') \<longleftrightarrow>
     b' = b \<and> (b = 0 \<or> budget_fits s0 b) \<and> s = acquired_state s0 b"
| "solo_at s0 b s (Destroy_notify b') \<longleftrightarrow>
     b' = b \<and> (b = 0 \<or> budget_fits s0 b) \<and> s = acquired_state s0 b"
| "solo_at s0 b s (Release b' f) \<longleftrightarrow>
     b' = b \<and> (f \<longrightarrow> b \<noteq> 0) \<and> (b = 0 \<or> budget_fits s0 b) \<and> s = acquired_state s0 b"
| "solo_at s0 b s (Release_capacity f) \<longleftrightarrow>
     (f \<longrightarrow> b \<noteq> 0) \<and> (b = 0 \<or> budget_fits s0 b) \<and>
     s = (acquired_state s0 b)\<lparr>budget_used := fetch_sub (budget_used (acquired_state s0 b)) b\<rparr>"
| "solo_at s0 b s (Release_collect n f) \<longleftrightarrow>
     (f \<longrightarrow> b \<noteq> 0) \<and> (b = 0 \<or> budget_fits s0 b) \<and> n = length (availability_observers s0) \<and>
     s = (acquired_state s0 b)\<lparr>budget_used := fetch_sub (budget_used (acquired_state s0 b)) b\<rparr>"
| "solo_at s0 b s (Release_call calls f) \<longleftrightarrow>
     (f \<longrightarrow> b \<noteq> 0) \<and> (b = 0 \<or> budget_fits s0 b) \<and>
     (\<exists>alive. s = fst (release_charge alive b (acquired_state s0 b)))"
| "solo_at s0 b s Returned_null \<longleftrightarrow> b \<noteq> 0 \<and> \<not> budget_fits s0 b \<and> s = s0"
| "solo_at s0 b s Thrown \<longleftrightarrow>
     b = 0 \<and> s = s0 \<or>
     b \<noteq> 0 \<and> budget_fits s0 b \<and> (\<exists>alive. s = fst (release_charge alive b (charged s0 b)))"
| "solo_at s0 b s Finished \<longleftrightarrow>
     (b = 0 \<or> budget_fits s0 b) \<and> (\<exists>alive. s = fst (release_charge alive b (acquired_state s0 b)))"

lemma acquired_state_observers [simp]:
  "availability_observers (acquired_state s b) = availability_observers s"
  by (simp add: acquired_state_def charged_def)

lemma solo_at_step:
  assumes "pc_step s p s' p'" and "solo_at s0 b s p"
  shows "solo_at s0 b s' p'"
  using assms
  by (induction rule: pc_step.induct)
    (auto simp: limit_test budget_fits_def charged_def acquired_state_def release_charge_eq
      collect_callbacks_def Let_def max_def)

lemma solo_at_reachable:
  assumes "solo_step\<^sup>*\<^sup>* (s0, call_try_acquire b) (s, p)"
  shows "solo_at s0 b s p"
proof -
  have "solo_step\<^sup>*\<^sup>* x y \<Longrightarrow> solo_at s0 b (fst x) (snd x) \<Longrightarrow> solo_at s0 b (fst y) (snd y)" for x y
    by (induction rule: rtranclp_induct) (auto simp: solo_step_def intro: solo_at_step)
  from this [OF assms] show ?thesis by (simp add: call_try_acquire_def)
qed

text \<open>The run without retries reaches the outcome that the sequential operation computes.\<close>

lemma solo_stepI: "pc_step s p s' p' \<Longrightarrow> solo_step (s, p) (s', p')"
  by (simp add: solo_step_def)

lemma solo_run_peak:
  "solo_step\<^sup>*\<^sup>* (s\<lparr>budget_used := budget_used s + b\<rparr>, Peak_load b (budget_used s))
     (charged s b, Allocate b)"
proof -
  let ?u = "budget_used s" and ?s = "s\<lparr>budget_used := budget_used s + b\<rparr>"
  have first: "solo_step (?s, Peak_load b ?u) (?s, Peak_test b ?u (budget_peak s))"
    using solo_stepI [OF pc_step.peak_loaded [of ?s b ?u]] by simp
  show ?thesis
  proof (cases "budget_peak s < ?u + b")
    case True
    have "solo_step (?s, Peak_test b ?u (budget_peak s)) (?s, Peak_exchange b ?u (budget_peak s))"
      using True by (intro solo_stepI pc_step.peak_lower)
    moreover have "solo_step (?s, Peak_exchange b ?u (budget_peak s)) (charged s b, Allocate b)"
      using solo_stepI [OF pc_step.peak_raised [of ?s "budget_peak s" b ?u]] True
      by (simp add: charged_def max_def)
    ultimately show ?thesis using first by (meson rtranclp.rtrancl_into_rtrancl rtranclp.rtrancl_refl)
  next
    case False
    then have "solo_step (?s, Peak_test b ?u (budget_peak s)) (charged s b, Allocate b)"
      using solo_stepI [OF pc_step.peak_higher [of "budget_peak s" ?u b ?s]]
      by (simp add: charged_def max_def)
    with first show ?thesis by (meson rtranclp.rtrancl_into_rtrancl rtranclp.rtrancl_refl)
  qed
qed

lemma solo_run_fits:
  assumes "b \<noteq> 0" and "budget_fits s b"
  shows "solo_step\<^sup>*\<^sup>* (s, call_try_acquire b) (charged s b, Held b)"
proof -
  let ?u = "budget_used s"
  have "solo_step (s, call_try_acquire b) (s, Acq_test b ?u)"
    using assms pc_step.load by (simp add: call_try_acquire_def solo_stepI)
  moreover have "solo_step (s, Acq_test b ?u) (s, Acq_exchange b ?u)"
    using assms by (intro solo_stepI pc_step.fits) (auto simp: budget_fits_def)
  moreover have "solo_step (s, Acq_exchange b ?u) (s\<lparr>budget_used := ?u + b\<rparr>, Peak_load b ?u)"
    by (intro solo_stepI pc_step.charged) simp
  moreover note solo_run_peak [of s b]
  moreover have "solo_step (charged s b, Allocate b) (charged s b, Held b)"
    by (intro solo_stepI pc_step.allocated)
  ultimately show ?thesis
    by (meson converse_rtranclp_into_rtranclp rtranclp.rtrancl_into_rtrancl)
qed

lemma solo_run_exhausted:
  assumes "b \<noteq> 0" and "\<not> budget_fits s b"
  shows "solo_step\<^sup>*\<^sup>* (s, call_try_acquire b) (s, Returned_null)"
proof -
  have "solo_step (s, call_try_acquire b) (s, Acq_test b (budget_used s))"
    using assms pc_step.load by (simp add: call_try_acquire_def solo_stepI)
  moreover have "solo_step (s, Acq_test b (budget_used s)) (s, Returned_null)"
    using assms by (intro solo_stepI pc_step.exhausted) (auto simp: budget_fits_def)
  ultimately show ?thesis by (meson rtranclp.rtrancl_into_rtrancl rtranclp.rtrancl_refl)
qed

lemma solo_run_empty: "solo_step\<^sup>*\<^sup>* (s, call_try_acquire 0) (s, Held 0)"
  using solo_stepI [OF pc_step.allocated_empty [of s]] by (auto simp: call_try_acquire_def)

section \<open>The interface of a budget\<close>

text \<open>
  What the schedulers and rings rely on: an acquisition either takes exactly the requested bytes,
  which were available, or changes nothing that is visible in \<open>available\<close>; a release gives exactly
  the released bytes back.
\<close>

locale byte_budget =
  fixes available :: "'b \<Rightarrow> nat"
    and acquire :: "'b \<Rightarrow> nat \<Rightarrow> 'b option"
    and release :: "'b \<Rightarrow> nat \<Rightarrow> 'b"
    and outstanding :: "'b \<Rightarrow> nat"
    and valid :: "'b \<Rightarrow> bool"
  assumes acquire_available: "valid b \<Longrightarrow> 0 < n \<Longrightarrow> (acquire b n \<noteq> None) \<longleftrightarrow> n \<le> available b"
    and acquire_moves: "valid b \<Longrightarrow> acquire b n = Some b' \<Longrightarrow>
      valid b' \<and> outstanding b' = outstanding b + n \<and> available b' + n = available b"
    and release_moves: "valid b \<Longrightarrow> n \<le> outstanding b \<Longrightarrow>
      valid (release b n) \<and> outstanding (release b n) + n = outstanding b \<and>
      available (release b n) = available b + n"
begin

lemma acquire_release:
  assumes "valid b" and "acquire b n = Some b'"
  shows "available (release b' n) = available b" and "outstanding (release b' n) = outstanding b"
  using acquire_moves [OF assms] release_moves [of b' n] by auto

lemma capacity_constant:
  assumes "valid b" and "acquire b n = Some b'"
  shows "available b' + outstanding b' = available b + outstanding b"
  using acquire_moves [OF assms] by simp

lemma acquire_all:
  "valid b \<Longrightarrow> 0 < available b \<Longrightarrow> acquire b (available b) \<noteq> None"
  using acquire_available by simp

end

definition acquire_bytes :: "budget_state \<Rightarrow> nat \<Rightarrow> budget_state option" where
  "acquire_bytes s n =
     (case try_acquire (\<lambda>_. True) (\<lambda>_. True) s n of
        (Acquired lease, s', _) \<Rightarrow> Some s' | _ \<Rightarrow> None)"

definition budget_valid :: "budget_state \<Rightarrow> bool" where
  "budget_valid s \<longleftrightarrow> budget_used s \<le> budget_limit s \<and> budget_limit s \<le> u64_max"

lemma acquire_bytes_eq:
  "acquire_bytes s n =
     (if n = 0 then Some s else if budget_fits s n then Some (charged s n) else None)"
  by (simp add: acquire_bytes_def try_acquire_cases)

interpretation budget: byte_budget budget_available acquire_bytes
    "\<lambda>s n. fst (release_charge (\<lambda>_. True) n s)" budget_used budget_valid
  by unfold_locales
    (auto simp: acquire_bytes_eq budget_available_eq budget_fits_def charged_def budget_valid_def
      release_charge_eq split: if_splits)

section \<open>Properties\<close>

text \<open>
  C13. However any number of acquisitions and releases interleave, at the granularity of their atomic
  accesses and with spuriously failing exchanges, the accounted bytes are exactly the charges of the
  calls in flight and never exceed the limit; the vectors that are allocated never exceed the
  accounted bytes, so a charge becomes available to others only after its storage is gone; the peak
  stays within the limit, and covers the use whenever no call is between its charge and its update
  of the peak.
\<close>

theorem budget_never_exceeded:
  assumes "world_step\<^sup>*\<^sup>* (new_budget limit, {#}) (s, calls)" and "limit \<le> u64_max"
  shows "budget_limit s = limit \<and> budget_used s = (\<Sum>p \<in># calls. charge p) \<and>
    (\<Sum>p \<in># calls. allocated_bytes p) \<le> budget_used s \<and> budget_used s \<le> limit \<and>
    budget_peak s \<le> limit \<and>
    ((\<forall>p \<in># calls. pending_peak p = None) \<longrightarrow> budget_used s \<le> budget_peak s)"
proof -
  have "budget_limit s = limit" using world_step_limit [OF assms(1)] by (simp add: new_budget_def)
  then show ?thesis
    using world_inv_reachable [OF assms] allocated_le_charge [of calls]
    by (auto simp: world_inv_def peak_covered_def)
qed

text \<open>
  A call of \<^verbatim>\<open>try_acquire\<close> that no other thread disturbs ends like the sequential operation,
  however often its exchanges fail spuriously: it returns null only if the request does not fit, a
  lease only if it does, with the charge and the peak of \<open>try_acquire\<close>; it throws only with the
  charge returned; and a run to each of these outcomes exists. Once the lease is destroyed the use is
  what it was before the call.
\<close>

theorem try_acquire_solo:
  assumes "budget_used s \<le> budget_limit s" and "budget_limit s \<le> u64_max"
  shows "(solo_step\<^sup>*\<^sup>* (s, call_try_acquire b) (s', Returned_null) \<longleftrightarrow>
        try_acquire alive (\<lambda>_. True) s b = (Budget_exhausted, s', []))
    \<and> (solo_step\<^sup>*\<^sup>* (s, call_try_acquire b) (s', Held b) \<longleftrightarrow>
        try_acquire alive (\<lambda>_. True) s b = (Acquired (Some (make_lease_storage b)), s', []))
    \<and> (solo_step\<^sup>*\<^sup>* (s, call_try_acquire b) (s', Thrown) \<longrightarrow>
        (\<exists>alive' calls. try_acquire alive' (\<lambda>_. False) s b = (Allocation_failed, s', calls)))
    \<and> (solo_step\<^sup>*\<^sup>* (s, call_try_acquire b) (s', Finished) \<longrightarrow> budget_used s' = budget_used s)"
    (is "?null \<and> ?held \<and> ?thrown \<and> ?finished")
proof (intro conjI)
  note at = solo_at_reachable [of s b s']
  show ?null
    using at [of Returned_null] solo_run_exhausted [of b s] by (auto simp: try_acquire_cases)
  show ?held
    using at [of "Held b"] solo_run_fits [of b s] solo_run_empty [of s]
    by (auto simp: try_acquire_cases acquired_state_def)
  show ?thrown
    using at [of Thrown] by (auto simp: try_acquire_cases release_charge_eq)
  show ?finished
    using at [of Finished] assms
    by (auto simp: release_charge_eq acquired_state_def charged_def budget_fits_def)
qed

text \<open>
  A witness run: an acquisition of two bytes under a limit of four, up to its lease.
\<close>

lemma run_to_held:
  "world_step\<^sup>*\<^sup>* (new_budget 4, {#}) (charged (new_budget 4) 2, {#Held 2#})"
proof -
  have lift: "solo_step\<^sup>*\<^sup>* x y \<Longrightarrow> world_step\<^sup>*\<^sup>* (fst x, {#snd x#}) (fst y, {#snd y#})" for x y
  proof (induction rule: rtranclp_induct)
    case (step y z)
    from step.hyps(2) have "world_step (fst y, {#snd y#}) (fst z, {#snd z#})"
      using world_step.act [of "fst y" "snd y" "fst z" "snd z" "{#}"] by (simp add: solo_step_def)
    with step.IH show ?case by simp
  qed simp
  have "world_step (new_budget 4, {#}) (new_budget 4, {#call_try_acquire 2#})"
    by (rule world_step.start) simp
  moreover have "budget_fits (new_budget 4) 2" by (simp add: budget_fits_def new_budget_def)
  from lift [OF solo_run_fits [OF _ this]]
  have "world_step\<^sup>*\<^sup>* (new_budget 4, {#call_try_acquire 2#}) (charged (new_budget 4) 2, {#Held 2#})"
    by simp
  ultimately show ?thesis by (rule converse_rtranclp_into_rtranclp)
qed

theorem budget_never_exceeded_witness:
  "budget_used (charged (new_budget 4) 2) = 2 \<and>
   budget_used (charged (new_budget 4) 2) \<le> budget_peak (charged (new_budget 4) 2)"
  using budget_never_exceeded [OF run_to_held] by simp

theorem try_acquire_solo_witness:
  "solo_step\<^sup>*\<^sup>* (new_budget 4, call_try_acquire 3) (charged (new_budget 4) 3, Held 3) \<and>
   solo_step\<^sup>*\<^sup>* (new_budget 4, call_try_acquire 5) (new_budget 4, Returned_null)"
proof
  have ok: "budget_used (new_budget 4) \<le> budget_limit (new_budget 4)"
    "budget_limit (new_budget 4) \<le> u64_max"
    by (simp_all add: new_budget_def)
  show "solo_step\<^sup>*\<^sup>* (new_budget 4, call_try_acquire 3) (charged (new_budget 4) 3, Held 3)"
    using try_acquire_solo [OF ok, of 3 "charged (new_budget 4) 3" "\<lambda>_. True"]
    by (simp add: try_acquire_cases budget_fits_def new_budget_def)
  show "solo_step\<^sup>*\<^sup>* (new_budget 4, call_try_acquire 5) (new_budget 4, Returned_null)"
    using try_acquire_solo [OF ok, of 5 "new_budget 4" "\<lambda>_. True"]
    by (simp add: try_acquire_cases budget_fits_def new_budget_def)
qed

text \<open>The observers a release calls: exactly the live entries of the registry, in order.\<close>

lemma destroy_storage_eq:
  "destroy_storage alive has_observer storage s =
     (let s' = s\<lparr>budget_used := fetch_sub (budget_used s) (reserved_bytes storage),
                 availability_observers := filter alive (availability_observers s)\<rparr>
      in (s', (Buffer_freed, s) # (if has_observer then [(On_buffer_released, s)] else []) @
              map (\<lambda>c. (On_buffer_budget_available c, s')) (filter alive (availability_observers s))))"
  by (simp add: destroy_storage_def release_charge_eq Let_def)

lemma count_list_distinct: "distinct xs \<Longrightarrow> count_list xs x = (if x \<in> set xs then 1 else 0)"
  by (induction xs) auto

lemma count_list_map_inj: "inj f \<Longrightarrow> count_list (map f xs) (f x) = count_list xs x"
  by (induction xs) (auto dest: injD)

text \<open>
  An observer that registers while it is alive, in a registry without duplicates, and still lives
  when a storage is destroyed, is called exactly once for that release; at that moment the charge has
  been returned, while the vector was freed, and the release observer ran, before any charge moved.
\<close>

theorem registered_observer_called_once:
  assumes "alive observer" and "alive' observer" and "distinct (availability_observers s)"
    and "reserved_bytes storage \<le> budget_used s" and "budget_used s \<le> u64_max"
    and "destroy_storage alive' has_observer storage (observe_availability alive observer s) = (s', events)"
  shows "count_list events (On_buffer_budget_available observer, s') = 1
    \<and> budget_used s' + reserved_bytes storage = budget_used s
    \<and> hd events = (Buffer_freed, observe_availability alive observer s)
    \<and> (\<forall>e t. (e, t) \<in> set events \<longrightarrow>
          (case e of On_buffer_budget_available c \<Rightarrow> t = s' \<and> alive' c
           | _ \<Rightarrow> budget_used t = budget_used s))
    \<and> distinct (availability_observers s')"
proof -
  define obs where "obs = observe_loop alive observer (availability_observers s)"
  have reg: "availability_observers (observe_availability alive observer s) = obs"
    using assms(1) by (simp add: observe_availability_def obs_def)
  have d: "distinct (filter alive' obs)" and i: "observer \<in> set (filter alive' obs)"
    using observe_loop_distinct [OF assms(3)] observe_loop_self assms(2)
    by (auto simp: obs_def)
  have inj: "inj (\<lambda>c. (On_buffer_budget_available c, s'))" by (auto intro: injI)
  show ?thesis
    using assms(4-6) d i count_list_map_inj [OF inj, of "filter alive' obs" observer]
    by (auto simp: destroy_storage_eq Let_def reg count_list_distinct)
qed

theorem registered_observer_called_once_witness:
  "budget_used (fst (destroy_storage (\<lambda>c. c = 7) True (make_lease_storage 3)
     (observe_availability (\<lambda>_. True) 7 (charged (new_budget 8) 5)))) = 2"
proof -
  let ?d = "destroy_storage (\<lambda>c. c = 7) True (make_lease_storage 3)
     (observe_availability (\<lambda>_. True) 7 (charged (new_budget 8) 5))"
  show ?thesis
    using registered_observer_called_once [of "\<lambda>_. True" 7 "\<lambda>c. c = 7" "charged (new_budget 8) 5"
        "make_lease_storage 3" True "fst ?d" "snd ?d"]
    by (simp add: charged_def new_budget_def make_lease_storage_def)
qed

lemma multiply_overflows_iff:
  assumes "0 < p" and "0 < q"
  shows "multiply_overflows (nat p) (nat q) \<longleftrightarrow> \<not> p * q \<le> int u64_max"
proof -
  have "nat q \<le> u64_max div nat p \<longleftrightarrow> nat q * nat p \<le> u64_max"
    using assms by (simp add: less_eq_div_iff_mult_less_eq)
  also have "nat q * nat p = nat (p * q)"
    using assms by (simp add: nat_mult_distrib mult.commute)
  finally show ?thesis using assms by (auto simp: multiply_overflows_def nat_le_iff)
qed

lemma calculate_budget_eq:
  "calculate_process_usb_buffer_budget n = min (n div 5) kProcessUsbBufferBudgetCapBytes"
  by (auto simp: calculate_process_usb_buffer_budget_def kProcessUsbBufferBudgetCapBytes_def Let_def)

lemma resolve_linux:
  assumes "0 < pages \<and> 0 < page_size \<and> query = Some (query_linux pages e1 page_size e2)"
  shows "if pages * page_size \<le> int u64_max
    then limit_bytes (resolve_process_usb_buffer_budget query) =
      min (nat (pages * page_size) div 5) kProcessUsbBufferBudgetCapBytes
    else limit_bytes (resolve_process_usb_buffer_budget query) = kProcessUsbBufferBudgetFallbackBytes \<and>
      query_status (resolve_process_usb_buffer_budget query) = Arithmetic_overflow"
  using assms
  by (simp add: resolve_process_usb_buffer_budget_def query_linux_def multiply_overflows_iff
      calculate_budget_eq Let_def nat_mult_distrib)

text \<open>
  The budget of the process: at most 2 GiB; when the query measured a non-zero size it is the
  integral fifth of the physical memory or the cap, whichever is less, and otherwise the fallback of
  64 MiB with a status that is not \<open>Measured\<close>. On Linux a page count and page size whose
  product does not fit 64 bits is reported as an overflow and never wraps into a small budget.
\<close>

theorem process_budget_limit:
  assumes "new_registry query = registry" and "registry_info registry = info"
  shows "limit_bytes info \<le> kProcessUsbBufferBudgetCapBytes
    \<and> registry_budget registry = new_budget (limit_bytes info)
    \<and> (fallback_used info \<longleftrightarrow>
        \<not> (\<exists>r. query = Some r \<and> memory_status r = Measured \<and> memory_bytes r \<noteq> 0))
    \<and> (\<not> fallback_used info \<longrightarrow>
        limit_bytes info = min (physical_memory_bytes info div 5) kProcessUsbBufferBudgetCapBytes)
    \<and> (fallback_used info \<longrightarrow>
        limit_bytes info = kProcessUsbBufferBudgetFallbackBytes \<and> query_status info \<noteq> Measured)
    \<and> (\<forall>pages page_size e1 e2. 0 < pages \<and> 0 < page_size \<and> query = Some (query_linux pages e1 page_size e2) \<longrightarrow>
        (if pages * page_size \<le> int u64_max
         then limit_bytes info =
           min (nat (pages * page_size) div 5) kProcessUsbBufferBudgetCapBytes
         else limit_bytes info = kProcessUsbBufferBudgetFallbackBytes \<and>
           query_status info = Arithmetic_overflow))"
proof -
  have info: "info = resolve_process_usb_buffer_budget query"
    and reg: "registry_budget registry = new_budget (limit_bytes info)"
    using assms by (auto simp: new_registry_def Let_def)
  have general: "limit_bytes info \<le> kProcessUsbBufferBudgetCapBytes"
    "fallback_used info \<longleftrightarrow>
      \<not> (\<exists>r. query = Some r \<and> memory_status r = Measured \<and> memory_bytes r \<noteq> 0)"
    "\<not> fallback_used info \<longrightarrow>
      limit_bytes info = min (physical_memory_bytes info div 5) kProcessUsbBufferBudgetCapBytes"
    "fallback_used info \<longrightarrow>
      limit_bytes info = kProcessUsbBufferBudgetFallbackBytes \<and> query_status info \<noteq> Measured"
    by (auto simp: info resolve_process_usb_buffer_budget_def calculate_budget_eq Let_def
        kProcessUsbBufferBudgetFallbackBytes_def kProcessUsbBufferBudgetCapBytes_def
        split: option.splits if_splits)
  with reg resolve_linux show ?thesis unfolding info by blast
qed

theorem process_budget_limit_witness:
  "limit_bytes (registry_info (new_registry (Some (query_linux 2048 0 4096 0)))) = 1677721"
proof -
  let ?q = "Some (query_linux 2048 0 4096 0)"
  note limit = process_budget_limit [of ?q _ "registry_info _", OF refl refl]
  have "limit_bytes (registry_info (new_registry ?q)) =
      min (nat (2048 * 4096) div 5) kProcessUsbBufferBudgetCapBytes"
    using conjunct2 [OF conjunct2 [OF conjunct2 [OF conjunct2 [OF conjunct2 [OF limit]]]],
        THEN spec [of _ 2048], THEN spec [of _ 4096], THEN spec [of _ 0], THEN spec [of _ 0]]
    by simp
  then show ?thesis by (simp add: kProcessUsbBufferBudgetCapBytes_def)
qed

end
