(* ===== verification/Scheduler_Model.thy ===== *)
theory Scheduler_Model
  imports Buffer_Budget
begin

text \<open>
  The weighted controller scheduler of \<^verbatim>\<open>src/fleet/controller_scheduler.{hpp,cpp}\<close>: deficit round
  robin over the flows of one USB controller and round robin over the controllers, with memory drawn
  from a shared budget.

  Every public operation runs under the scheduler's mutex, so an operation is a function of the
  scheduler state. The budget is shared with other threads that do not take this mutex: a record
  \<open>budget_env\<close> says what they do to it before each of the scheduler's accesses, which are counted in
  \<open>budget_accesses\<close>, and whether allocations succeed. An unordered map is an association list in
  its iteration order; the key order is never observable, because keys and device ids coincide.
\<close>

section \<open>Association lists\<close>

definition alist_modify :: "'k \<Rightarrow> ('v \<Rightarrow> 'v) \<Rightarrow> ('k \<times> 'v) list \<Rightarrow> ('k \<times> 'v) list" where
  "alist_modify k f xs = map (\<lambda>(k', v). if k' = k then (k', f v) else (k', v)) xs"

definition alist_erase :: "'k \<Rightarrow> ('k \<times> 'v) list \<Rightarrow> ('k \<times> 'v) list" where
  "alist_erase k xs = filter (\<lambda>(k', v). k' \<noteq> k) xs"

section \<open>Data\<close>

record device_flow_spec =
  spec_device_id :: string
  spec_controller_id :: string
  spec_weight :: nat
  spec_bytes_remaining :: nat
  spec_max_outstanding :: nat

datatype transfer_permit_settlement = Fully_transferred | Not_submitted | Partial_or_unknown

datatype fleet_dispatch_settlement =
  Dispatch_fully_transferred | Dispatch_not_submitted | Dispatch_partial_or_unknown

record flow =
  flow_device_id :: string
  flow_controller_id :: string
  flow_weight :: nat
  flow_remaining :: nat
  flow_deficit :: nat
  flow_outstanding_count :: nat
  flow_max_outstanding :: nat
  flow_requested :: bool
  flow_retired :: bool
  flow_provider_attached :: bool

record controller =
  ctl_id :: string
  ctl_flows :: "string list"
  ctl_cursor :: nat

record outstanding_entry =
  out_device_id :: string
  out_bytes :: nat

text \<open>A grant; a dispatch has the same fields and is the form in which \<^verbatim>\<open>next\<close> returns it.\<close>

record grant =
  grant_token :: nat
  grant_device_id :: string
  grant_controller_id :: string
  grant_bytes :: nat
  grant_memory :: buffer_lease

type_synonym fleet_dispatch = grant

record scheduler =
  sched_self :: observer
  sched_budget :: "budget_state option"
  budget_accesses :: nat
  sched_quantum :: nat
  sched_generation :: nat
  sched_flows :: "(string \<times> flow) list"
  sched_controllers :: "(string \<times> controller) list"
  controller_order :: "string list"
  controller_cursor :: nat
  sched_outstanding :: "(nat \<times> outstanding_entry) list"
  next_token :: nat

record budget_env =
  env_before :: "nat \<Rightarrow> budget_state \<Rightarrow> budget_state"
  env_alive :: "observer \<Rightarrow> bool"
  env_allocates :: "nat \<Rightarrow> nat \<Rightarrow> bool"

text \<open>
  What an operation may do instead of returning: the exceptions of a failed allocation and of
  \<^verbatim>\<open>std::unordered_map::at\<close>, and a token search that never ends.
\<close>

datatype sched_error = Bad_alloc | Out_of_range | Token_search_diverges

section \<open>Arithmetic\<close>

definition saturating_add :: "nat \<Rightarrow> nat \<Rightarrow> nat" where
  "saturating_add left right = (if right > u64_max - left then u64_max else left + right)"

definition saturating_multiply :: "nat \<Rightarrow> nat \<Rightarrow> nat" where
  "saturating_multiply quantum weight =
     (if weight \<noteq> 0 \<and> quantum > u64_max div weight then u64_max else quantum * weight)"

definition permit_settlement :: "fleet_dispatch_settlement \<Rightarrow> transfer_permit_settlement" where
  "permit_settlement result =
     (case result of
        Dispatch_fully_transferred \<Rightarrow> Fully_transferred
      | Dispatch_not_submitted \<Rightarrow> Not_submitted
      | Dispatch_partial_or_unknown \<Rightarrow> Partial_or_unknown)"

definition kDefaultGlobalMemoryCap :: nat where
  "kDefaultGlobalMemoryCap = 2 * 1024 * 1024 * 1024"

definition calculate_global_memory_budget :: "nat \<Rightarrow> nat" where
  "calculate_global_memory_budget physical =
     (let twenty_percent = physical div 5 in
      if twenty_percent < kDefaultGlobalMemoryCap then twenty_percent else kDefaultGlobalMemoryCap)"

section \<open>Notification and the shared budget\<close>

definition signal_change :: "scheduler \<Rightarrow> scheduler" where
  "signal_change s = s\<lparr>sched_generation := (sched_generation s + 1) mod (u64_max + 1)\<rparr>"

definition on_buffer_budget_available :: "scheduler \<Rightarrow> scheduler" where
  "on_buffer_budget_available s = signal_change s"

text \<open>The callbacks of a release that reach this scheduler.\<close>

definition deliver_callbacks :: "observer list \<Rightarrow> scheduler \<Rightarrow> scheduler" where
  "deliver_callbacks callbacks s =
     (on_buffer_budget_available ^^ count_list callbacks (sched_self s)) s"

text \<open>One access: the other threads move first. Callers have checked that the budget is not null.\<close>

definition access_budget :: "budget_env \<Rightarrow> scheduler \<Rightarrow> scheduler" where
  "access_budget e s =
     s\<lparr>sched_budget := map_option (env_before e (budget_accesses s)) (sched_budget s),
       budget_accesses := Suc (budget_accesses s)\<rparr>"

definition available_now :: "budget_env \<Rightarrow> scheduler \<Rightarrow> nat \<times> scheduler" where
  "available_now e s =
     (let s = access_budget e s in
      (case sched_budget s of None \<Rightarrow> 0 | Some b \<Rightarrow> budget_available b, s))"

definition acquire_memory :: "budget_env \<Rightarrow> nat \<Rightarrow> scheduler \<Rightarrow> acquire_result \<times> scheduler" where
  "acquire_memory e bytes s =
     (let n = budget_accesses s; s = access_budget e s in
      case sched_budget s of
        None \<Rightarrow> (Budget_exhausted, s)
      | Some b \<Rightarrow>
          let (result, b, callbacks) = try_acquire (env_alive e) (env_allocates e n) b bytes
          in (result, deliver_callbacks callbacks (s\<lparr>sched_budget := Some b\<rparr>)))"

text \<open>The end of a lease whose storage has no other owner.\<close>

definition release_memory :: "budget_env \<Rightarrow> buffer_lease \<Rightarrow> scheduler \<Rightarrow> scheduler" where
  "release_memory e lease s =
     (case lease of
        None \<Rightarrow> s
      | Some storage \<Rightarrow>
          let s = access_budget e s in
          case sched_budget s of
            None \<Rightarrow> s
          | Some b \<Rightarrow>
              let (b, callbacks) = release_charge (env_alive e) (reserved_bytes storage) b
              in deliver_callbacks callbacks (s\<lparr>sched_budget := Some b\<rparr>))"

section \<open>Construction and flows\<close>

definition new_scheduler ::
    "(observer \<Rightarrow> bool) \<Rightarrow> observer \<Rightarrow> budget_state option \<Rightarrow> nat \<Rightarrow> scheduler" where
  "new_scheduler alive self budget quantum =
     \<lparr>sched_self = self, sched_budget = map_option (observe_availability alive self) budget,
      budget_accesses = 0, sched_quantum = quantum, sched_generation = 1, sched_flows = [],
      sched_controllers = [], controller_order = [], controller_cursor = 0,
      sched_outstanding = [], next_token = 1\<rparr>"

definition modify_flow :: "string \<Rightarrow> (flow \<Rightarrow> flow) \<Rightarrow> scheduler \<Rightarrow> scheduler" where
  "modify_flow d f s = s\<lparr>sched_flows := alist_modify d f (sched_flows s)\<rparr>"

definition modify_controller :: "string \<Rightarrow> (controller \<Rightarrow> controller) \<Rightarrow> scheduler \<Rightarrow> scheduler" where
  "modify_controller c f s = s\<lparr>sched_controllers := alist_modify c f (sched_controllers s)\<rparr>"

text \<open>The linear search \<^verbatim>\<open>for (auto& [ignored, flow] : flows) if (flow.device_id == device_id)\<close>.\<close>

definition search_flow :: "string \<Rightarrow> scheduler \<Rightarrow> (string \<times> flow) option" where
  "search_flow device_id s = find (\<lambda>(ignored, f). flow_device_id f = device_id) (sched_flows s)"

definition add_flow :: "device_flow_spec \<Rightarrow> scheduler \<Rightarrow> bool \<times> scheduler" where
  "add_flow spec s =
     (if sched_budget s = None \<or> sched_quantum s = 0 \<or> spec_device_id spec = [] \<or>
         spec_controller_id spec = [] \<or> spec_weight spec = 0 \<or> spec_max_outstanding spec = 0
      then (False, s)
      else if map_of (sched_flows s) (spec_device_id spec) \<noteq> None then (False, s)
      else
        let device_id = spec_device_id spec; controller_id = spec_controller_id spec;
            s = (case map_of (sched_controllers s) controller_id of
                   None \<Rightarrow> s\<lparr>controller_order := controller_order s @ [controller_id],
                             sched_controllers := sched_controllers s @
                               [(controller_id,
                                 \<lparr>ctl_id = controller_id, ctl_flows = [], ctl_cursor = 0\<rparr>)]\<rparr>
                 | Some _ \<Rightarrow> s);
            s = modify_controller controller_id (\<lambda>c. c\<lparr>ctl_flows := ctl_flows c @ [device_id]\<rparr>) s
        in (True, s\<lparr>sched_flows := sched_flows s @
              [(device_id,
                \<lparr>flow_device_id = device_id, flow_controller_id = controller_id,
                 flow_weight = spec_weight spec, flow_remaining = spec_bytes_remaining spec,
                 flow_deficit = 0, flow_outstanding_count = 0,
                 flow_max_outstanding = spec_max_outstanding spec, flow_requested = False,
                 flow_retired = False, flow_provider_attached = False\<rparr>)]\<rparr>))"

section \<open>Tokens\<close>

text \<open>
  The search for a fresh token, with fuel: \<open>None\<close> is a search that has not ended. The fuel that
  \<open>allocate_token\<close> gives is enough for every search that ends at all.
\<close>

fun allocate_token_loop :: "nat \<Rightarrow> (nat \<Rightarrow> bool) \<Rightarrow> nat \<Rightarrow> (nat \<times> nat) option" where
  "allocate_token_loop 0 taken next = None"
| "allocate_token_loop (Suc fuel) taken next =
     (let token = next; next = (next + 1) mod (u64_max + 1) in
      if token = 0 \<or> taken token then allocate_token_loop fuel taken next else Some (token, next))"

definition allocate_token :: "scheduler \<Rightarrow> (nat \<times> scheduler) option" where
  "allocate_token s =
     (case allocate_token_loop (length (sched_outstanding s) + 2)
             (\<lambda>t. map_of (sched_outstanding s) t \<noteq> None) (next_token s) of
        None \<Rightarrow> None
      | Some (token, next) \<Rightarrow> Some (token, s\<lparr>next_token := next\<rparr>))"

section \<open>Granting\<close>

definition flow_skipped :: "flow \<Rightarrow> bool" where
  "flow_skipped f =
     (let has_request = (\<not> flow_provider_attached f \<or> flow_requested f) in
      flow_remaining f = 0 \<or> flow_retired f \<or> \<not> has_request \<or>
      flow_outstanding_count f \<ge> flow_max_outstanding f)"

definition wrap_cursor :: "controller \<Rightarrow> controller" where
  "wrap_cursor c = (if ctl_cursor c \<ge> length (ctl_flows c) then c\<lparr>ctl_cursor := 0\<rparr> else c)"

definition advance_cursor :: "controller \<Rightarrow> controller" where
  "advance_cursor c = c\<lparr>ctl_cursor := (ctl_cursor c + 1) mod length (ctl_flows c)\<rparr>"

definition refill :: "nat \<Rightarrow> flow \<Rightarrow> flow" where
  "refill quantum f =
     (if flow_deficit f = 0 then
        f\<lparr>flow_deficit := saturating_add (flow_deficit f) (saturating_multiply quantum (flow_weight f))\<rparr>
      else f)"

definition charge_flow :: "nat \<Rightarrow> flow \<Rightarrow> flow" where
  "charge_flow bytes f =
     f\<lparr>flow_outstanding_count := flow_outstanding_count f + 1,
       flow_requested := (if flow_provider_attached f then False else flow_requested f),
       flow_deficit := flow_deficit f - bytes,
       flow_remaining := flow_remaining f - bytes\<rparr>"

text \<open>The end of a successful attempt, with the memory in hand. \<open>f\<close> is the flow at key \<open>d\<close>.\<close>

definition commit_grant ::
    "string \<Rightarrow> string \<Rightarrow> flow \<Rightarrow> nat \<Rightarrow> buffer_lease \<Rightarrow> scheduler \<Rightarrow>
     (sched_error + grant option) \<times> scheduler" where
  "commit_grant c d f bytes memory s =
     (case allocate_token s of
        None \<Rightarrow> (Inl Token_search_diverges, s)
      | Some (token, s) \<Rightarrow>
          let grant = \<lparr>grant_token = token, grant_device_id = flow_device_id f,
                       grant_controller_id = flow_controller_id f, grant_bytes = bytes,
                       grant_memory = memory\<rparr>;
              s = s\<lparr>sched_outstanding := sched_outstanding s @
                     [(token, \<lparr>out_device_id = grant_device_id grant, out_bytes = bytes\<rparr>)]\<rparr>;
              f = charge_flow bytes f;
              s = modify_flow d (charge_flow bytes) s;
              s = (if flow_remaining f = 0 \<or> flow_deficit f = 0
                   then modify_controller c advance_cursor s else s)
          in (Inr (Some grant), signal_change s))"

text \<open>One turn of the loop: it continues with the next attempt, or the function returns.\<close>

datatype attempt = Next_attempt scheduler | Leave "(sched_error + grant option) \<times> scheduler"

text \<open>The turn from the point where the flow \<open>f\<close> at key \<open>d\<close> is to be served.\<close>

definition serve_flow ::
    "budget_env \<Rightarrow> string \<Rightarrow> string \<Rightarrow> flow \<Rightarrow> nat \<Rightarrow> scheduler \<Rightarrow> attempt" where
  "serve_flow e c d f maximum_bytes s =
     (let (available, s) = available_now e s in
      if available = 0 then Leave (Inr None, s)
      else
      let bounded_remaining = min (flow_remaining f) u64_max;
          desired = min maximum_bytes (min available bounded_remaining) in
      if desired = 0 then Leave (Inr None, s)
      else
      let f = refill (sched_quantum s) f;
          s = modify_flow d (refill (sched_quantum s)) s;
          dispatch_bytes = min (flow_deficit f) desired in
      if dispatch_bytes = 0 then Next_attempt (modify_controller c advance_cursor s)
      else
      let (result, s) = acquire_memory e dispatch_bytes s in
      Leave (case result of
          Budget_exhausted \<Rightarrow> (Inr None, s)
        | Allocation_failed \<Rightarrow> (Inl Bad_alloc, s)
        | Acquired memory \<Rightarrow> commit_grant c d f dispatch_bytes memory s))"

definition controller_attempt ::
    "budget_env \<Rightarrow> string \<Rightarrow> nat \<Rightarrow> string \<Rightarrow> scheduler \<Rightarrow> attempt" where
  "controller_attempt e c maximum_bytes required s0 =
     (let s = modify_controller c wrap_cursor s0 in
      case map_of (sched_controllers s) c of
        None \<Rightarrow> Leave (Inl Out_of_range, s)
      | Some ctl \<Rightarrow>
          let d = ctl_flows ctl ! ctl_cursor ctl in
          case map_of (sched_flows s) d of
            None \<Rightarrow> Leave (Inl Out_of_range, s)
          | Some f \<Rightarrow>
              if flow_skipped f then Next_attempt (modify_controller c advance_cursor s)
              else if required \<noteq> [] \<and> flow_device_id f \<noteq> required then Leave (Inr None, s)
              else serve_flow e c d f maximum_bytes s)"

primrec controller_loop ::
    "nat \<Rightarrow> budget_env \<Rightarrow> string \<Rightarrow> nat \<Rightarrow> string \<Rightarrow> scheduler \<Rightarrow>
     (sched_error + grant option) \<times> scheduler" where
  "controller_loop 0 e c maximum_bytes required s = (Inr None, s)"
| "controller_loop (Suc attempts) e c maximum_bytes required s =
     (case controller_attempt e c maximum_bytes required s of
        Next_attempt s \<Rightarrow> controller_loop attempts e c maximum_bytes required s
      | Leave r \<Rightarrow> r)"

definition next_for_controller ::
    "budget_env \<Rightarrow> string \<Rightarrow> nat \<Rightarrow> string \<Rightarrow> scheduler \<Rightarrow>
     (sched_error + grant option) \<times> scheduler" where
  "next_for_controller e c maximum_bytes required s =
     (case map_of (sched_controllers s) c of
        None \<Rightarrow> (Inl Out_of_range, s)
      | Some ctl \<Rightarrow>
          if ctl_flows ctl = [] then (Inr None, s)
          else let (available, s) = available_now e s in
               if available = 0 then (Inr None, s)
               else controller_loop (length (ctl_flows ctl)) e c maximum_bytes required s)"

primrec next_loop ::
    "nat \<Rightarrow> budget_env \<Rightarrow> nat \<Rightarrow> scheduler \<Rightarrow> (sched_error + grant option) \<times> scheduler" where
  "next_loop 0 e maximum_bytes s = (Inr None, s)"
| "next_loop (Suc attempts) e maximum_bytes s0 =
     (let s = (if controller_cursor s0 \<ge> length (controller_order s0)
               then s0\<lparr>controller_cursor := 0\<rparr> else s0);
          c = controller_order s ! controller_cursor s in
      if map_of (sched_controllers s) c = None then (Inl Out_of_range, s)
      else
        let s = s\<lparr>controller_cursor := (controller_cursor s + 1) mod length (controller_order s)\<rparr>;
            (dispatch, s) = next_for_controller e c maximum_bytes [] s in
        if dispatch \<noteq> Inr None then (dispatch, s) else next_loop attempts e maximum_bytes s)"

definition next_dispatch ::
    "budget_env \<Rightarrow> nat \<Rightarrow> scheduler \<Rightarrow> (sched_error + fleet_dispatch option) \<times> scheduler" where
  "next_dispatch e maximum_bytes s =
     (if sched_budget s = None \<or> maximum_bytes = 0 \<or> controller_order s = [] then (Inr None, s)
      else next_loop (length (controller_order s)) e maximum_bytes s)"

definition acquire_for ::
    "budget_env \<Rightarrow> string \<Rightarrow> nat \<Rightarrow> scheduler \<Rightarrow> (sched_error + grant option) \<times> scheduler" where
  "acquire_for e device_id maximum_bytes s =
     (if sched_budget s = None \<or> maximum_bytes = 0 then (Inr None, s)
      else case search_flow device_id s of
        None \<Rightarrow> (Inr None, s)
      | Some (k, requested) \<Rightarrow>
          if \<not> flow_provider_attached requested \<or> flow_retired requested \<or>
             flow_remaining requested = 0
          then (Inr None, s)
          else
            let s = modify_flow k (\<lambda>f. f\<lparr>flow_requested := True\<rparr>) s in
            if flow_outstanding_count requested \<ge> flow_max_outstanding requested then (Inr None, s)
            else case map_of (sched_controllers s) (flow_controller_id requested) of
              None \<Rightarrow> (Inr None, s)
            | Some _ \<Rightarrow>
                next_for_controller e (flow_controller_id requested) maximum_bytes device_id s)"

section \<open>Settling\<close>

definition settle_flow :: "nat \<Rightarrow> transfer_permit_settlement \<Rightarrow> flow \<Rightarrow> flow" where
  "settle_flow bytes result f =
     (let f = (if result = Not_submitted
               then f\<lparr>flow_remaining := saturating_add (flow_remaining f) bytes\<rparr> else f);
          f = f\<lparr>flow_outstanding_count := flow_outstanding_count f - 1\<rparr>
      in if result = Partial_or_unknown then f\<lparr>flow_retired := True, flow_requested := False\<rparr> else f)"

definition settle ::
    "nat \<Rightarrow> string \<Rightarrow> nat \<Rightarrow> transfer_permit_settlement \<Rightarrow> scheduler \<Rightarrow> bool \<times> scheduler" where
  "settle token expected_device bytes result s =
     (case map_of (sched_outstanding s) token of
        None \<Rightarrow> (False, s)
      | Some entry \<Rightarrow>
          if out_bytes entry \<noteq> bytes \<or>
             (expected_device \<noteq> [] \<and> out_device_id entry \<noteq> expected_device)
          then (False, s)
          else case map_of (sched_flows s) (out_device_id entry) of
            None \<Rightarrow> (False, s)
          | Some f \<Rightarrow>
              if flow_outstanding_count f = 0 then (False, s)
              else
                let s = modify_flow (out_device_id entry) (settle_flow bytes result) s
                in (True, s\<lparr>sched_outstanding := alist_erase token (sched_outstanding s)\<rparr>))"

definition finish_settled ::
    "budget_env \<Rightarrow> fleet_dispatch \<Rightarrow> fleet_dispatch_settlement \<Rightarrow> scheduler \<Rightarrow>
     bool \<times> fleet_dispatch \<times> scheduler" where
  "finish_settled e dispatch result s =
     (if grant_token dispatch = 0 then (False, dispatch, s)
      else case settle (grant_token dispatch) (grant_device_id dispatch) (grant_bytes dispatch)
                  (permit_settlement result) s of
        (False, s) \<Rightarrow> (False, dispatch, s)
      | (True, s) \<Rightarrow>
          (True, dispatch\<lparr>grant_token := 0, grant_bytes := 0, grant_memory := None\<rparr>,
           release_memory e (grant_memory dispatch) s))"

definition finish ::
    "budget_env \<Rightarrow> fleet_dispatch \<Rightarrow> nat \<Rightarrow> scheduler \<Rightarrow> bool \<times> fleet_dispatch \<times> scheduler" where
  "finish e dispatch bytes_not_sent s =
     (if grant_token dispatch = 0 \<or> bytes_not_sent > grant_bytes dispatch \<or>
         (bytes_not_sent \<noteq> 0 \<and> bytes_not_sent \<noteq> grant_bytes dispatch)
      then (False, dispatch, s)
      else finish_settled e dispatch
             (if bytes_not_sent = grant_bytes dispatch then Dispatch_not_submitted
              else Dispatch_fully_transferred) s)"

section \<open>Retiring, providers and waiting\<close>

definition retire :: "string \<Rightarrow> scheduler \<Rightarrow> bool \<times> scheduler" where
  "retire device_id s =
     (case search_flow device_id s of
        None \<Rightarrow> (False, s)
      | Some (k, _) \<Rightarrow>
          (True, signal_change
             (modify_flow k (\<lambda>f. f\<lparr>flow_retired := True, flow_requested := False\<rparr>) s)))"

definition retire_flow :: "string \<Rightarrow> scheduler \<Rightarrow> bool \<times> scheduler" where
  "retire_flow device_id s = retire device_id s"

definition cancel_flow :: "string \<Rightarrow> scheduler \<Rightarrow> bool \<times> scheduler" where
  "cancel_flow device_id s = retire_flow device_id s"

record permit_provider =
  provider_device_id :: string
  provider_cancelled :: bool

definition make_permit_provider ::
    "string \<Rightarrow> nat \<Rightarrow> scheduler \<Rightarrow> permit_provider option \<times> scheduler" where
  "make_permit_provider device_id max_outstanding s =
     (case search_flow device_id s of
        None \<Rightarrow> (None, s)
      | Some (k, f) \<Rightarrow>
          if flow_provider_attached f \<or> flow_outstanding_count f \<noteq> 0 \<or> flow_retired f then (None, s)
          else (Some \<lparr>provider_device_id = flow_device_id f, provider_cancelled = False\<rparr>,
                modify_flow k (\<lambda>f. f\<lparr>flow_provider_attached := True,
                  flow_max_outstanding :=
                    (if max_outstanding \<noteq> 0 then max_outstanding else flow_max_outstanding f)\<rparr>) s))"

text \<open>A permit is the lease and the token that settles it.\<close>

type_synonym transfer_permit = "buffer_lease \<times> nat"

definition provider_try_acquire ::
    "budget_env \<Rightarrow> permit_provider \<Rightarrow> nat \<Rightarrow> scheduler \<Rightarrow>
     (sched_error + transfer_permit option) \<times> scheduler" where
  "provider_try_acquire e p maximum_bytes s =
     (if provider_cancelled p then (Inr None, s)
      else case acquire_for e (provider_device_id p) maximum_bytes s of
        (Inl err, s) \<Rightarrow> (Inl err, s)
      | (Inr None, s) \<Rightarrow> (Inr None, s)
      | (Inr (Some grant), s) \<Rightarrow> (Inr (Some (grant_memory grant, grant_token grant)), s))"

definition provider_cancel_wait :: "permit_provider \<Rightarrow> scheduler \<Rightarrow> permit_provider \<times> scheduler" where
  "provider_cancel_wait p s =
     (if provider_cancelled p then (p, s)
      else (p\<lparr>provider_cancelled := True\<rparr>, snd (retire (provider_device_id p) s)))"

definition provider_settle ::
    "nat \<Rightarrow> nat \<Rightarrow> transfer_permit_settlement \<Rightarrow> scheduler \<Rightarrow> scheduler" where
  "provider_settle token bytes result s = snd (settle token [] bytes result s)"

datatype transfer_permit_wait_result = Wait_ready | Wait_timeout | Wait_cancelled

text \<open>The end of a wait that timed out: the pending request of the device is withdrawn.\<close>

definition abandon_request :: "string \<Rightarrow> scheduler \<Rightarrow> scheduler" where
  "abandon_request device_id s =
     (case find (\<lambda>(ignored, f). flow_device_id f = device_id \<and> flow_requested f) (sched_flows s) of
        None \<Rightarrow> s
      | Some (k, _) \<Rightarrow> signal_change (modify_flow k (\<lambda>f. f\<lparr>flow_requested := False\<rparr>) s))"

text \<open>
  A wait releases the mutex twice. \<open>during\<close> is what other threads do to the scheduler until the wait
  ends, \<open>after\<close> what they do until the mutex is taken again. The wait ends with the value of its
  predicate, that the generation has changed.
\<close>

definition wait_for_ready ::
    "(scheduler \<Rightarrow> scheduler) \<Rightarrow> (scheduler \<Rightarrow> scheduler) \<Rightarrow> string \<Rightarrow> nat \<Rightarrow> scheduler \<Rightarrow>
     transfer_permit_wait_result \<times> scheduler" where
  "wait_for_ready during after device_id observed_generation s =
     (case search_flow device_id s of
        None \<Rightarrow> (Wait_cancelled, s)
      | Some (_, f) \<Rightarrow>
          if flow_retired f then (Wait_cancelled, s)
          else
            let s = during s;
                notified = (sched_generation s \<noteq> observed_generation);
                s = after s
            in if \<not> notified then (Wait_timeout, abandon_request device_id s)
               else case search_flow device_id s of
                 None \<Rightarrow> (Wait_cancelled, s)
               | Some (_, f) \<Rightarrow> (if flow_retired f then Wait_cancelled else Wait_ready, s))"

section \<open>Observers\<close>

definition remaining :: "string \<Rightarrow> scheduler \<Rightarrow> nat" where
  "remaining device_id s =
     (case search_flow device_id s of None \<Rightarrow> 0 | Some (_, f) \<Rightarrow> flow_remaining f)"

definition flow_count :: "scheduler \<Rightarrow> nat" where
  "flow_count s = length (sched_flows s)"

definition outstanding_count :: "scheduler \<Rightarrow> nat" where
  "outstanding_count s = length (sched_outstanding s)"

end
