(* ===== verification/Scheduler_Invariant.thy ===== *)
theory Scheduler_Invariant
  imports Scheduler_Model
begin

text \<open>
  The invariant of the controller scheduler and its preservation by every operation, under every
  behaviour of the other users of the budget: the index structures agree, each flow's count of
  outstanding grants is the number of its entries in the table of outstanding grants, and the bytes a
  flow still owes fit 64 bits, so that giving bytes back never saturates.
\<close>

section \<open>Association lists\<close>

lemma map_of_alist_modify:
  "map_of (alist_modify k g xs) k' = (if k' = k then map_option g (map_of xs k') else map_of xs k')"
  by (induction xs) (auto simp: alist_modify_def)

lemma map_fst_alist_modify [simp]: "map fst (alist_modify k g xs) = map fst xs"
  by (induction xs) (auto simp: alist_modify_def)

lemma map_of_alist_erase: "map_of (alist_erase k xs) k' = (if k' = k then None else map_of xs k')"
  by (induction xs) (auto simp: alist_erase_def)

lemma distinct_alist_erase: "distinct (map fst xs) \<Longrightarrow> distinct (map fst (alist_erase k xs))"
  by (auto simp: alist_erase_def distinct_map_filter)

lemma map_apsnd_alist_modify:
  assumes "\<And>v. map_of xs k = Some v \<Longrightarrow> h (g v) = h v" and "distinct (map fst xs)"
  shows "map (apsnd h) (alist_modify k g xs) = map (apsnd h) xs"
  using assms(1) map_of_is_SomeI [OF assms(2)] by (auto simp: alist_modify_def)

lemma map_of_apsnd: "map_of (map (apsnd h) xs) k = map_option h (map_of xs k)"
  by (induction xs) auto

lemma apsnd_eq_keys: "map (apsnd h) xs = map (apsnd h) ys \<Longrightarrow> map fst xs = map fst ys"
proof -
  assume "map (apsnd h) xs = map (apsnd h) ys"
  then have "map fst (map (apsnd h) xs) = map fst (map (apsnd h) ys)" by simp
  then show ?thesis by (simp add: comp_def)
qed

lemma apsnd_eq_lookup:
  "map (apsnd h) xs = map (apsnd h) ys \<Longrightarrow> map_option h (map_of xs k) = map_option h (map_of ys k)"
  by (metis map_of_apsnd)

section \<open>Outstanding grants of a device\<close>

definition device_entries :: "string \<Rightarrow> (nat \<times> outstanding_entry) list \<Rightarrow> outstanding_entry list" where
  "device_entries d xs = filter (\<lambda>entry. out_device_id entry = d) (map snd xs)"

definition outstanding_bytes :: "string \<Rightarrow> scheduler \<Rightarrow> nat" where
  "outstanding_bytes d s = sum_list (map out_bytes (device_entries d (sched_outstanding s)))"

text \<open>What a device still owes: bytes not yet granted and bytes in flight.\<close>

definition flow_balance :: "string \<Rightarrow> scheduler \<Rightarrow> nat" where
  "flow_balance d s =
     (case map_of (sched_flows s) d of
        None \<Rightarrow> 0 | Some f \<Rightarrow> flow_remaining f + outstanding_bytes d s)"

lemma device_entries_append [simp]:
  "device_entries d (xs @ [(t, entry)]) =
     device_entries d xs @ (if out_device_id entry = d then [entry] else [])"
  by (simp add: device_entries_def)

lemma device_entries_erase:
  assumes "map_of xs t = Some entry" and "distinct (map fst xs)"
  shows "length (device_entries d xs) =
      length (device_entries d (alist_erase t xs)) + (if out_device_id entry = d then 1 else 0)"
    and "sum_list (map out_bytes (device_entries d xs)) =
      sum_list (map out_bytes (device_entries d (alist_erase t xs))) +
      (if out_device_id entry = d then out_bytes entry else 0)"
proof -
  have gone: "t \<notin> fst ` set ys \<Longrightarrow> alist_erase t ys = ys" for ys :: "(nat \<times> outstanding_entry) list"
    by (auto simp: alist_erase_def intro!: filter_True) force
  have "length (device_entries d xs) =
      length (device_entries d (alist_erase t xs)) + (if out_device_id entry = d then 1 else 0) \<and>
    sum_list (map out_bytes (device_entries d xs)) =
      sum_list (map out_bytes (device_entries d (alist_erase t xs))) +
      (if out_device_id entry = d then out_bytes entry else 0)"
    using assms
  proof (induction xs)
    case Nil
    then show ?case by simp
  next
    case (Cons x xs)
    obtain k v where x: "x = (k, v)" by force
    show ?case
    proof (cases "k = t")
      case True
      with Cons.prems x gone [of xs] show ?thesis
        by (simp add: device_entries_def alist_erase_def)
    next
      case False
      with Cons x show ?thesis by (simp add: device_entries_def alist_erase_def)
    qed
  qed
  then show "length (device_entries d xs) =
      length (device_entries d (alist_erase t xs)) + (if out_device_id entry = d then 1 else 0)"
    and "sum_list (map out_bytes (device_entries d xs)) =
      sum_list (map out_bytes (device_entries d (alist_erase t xs))) +
      (if out_device_id entry = d then out_bytes entry else 0)"
    by blast+
qed

section \<open>The invariant\<close>

definition flows_wf :: "scheduler \<Rightarrow> bool" where
  "flows_wf s \<longleftrightarrow> distinct (map fst (sched_flows s)) \<and>
     (\<forall>d f. map_of (sched_flows s) d = Some f \<longrightarrow>
        flow_device_id f = d \<and> d \<noteq> [] \<and> flow_weight f \<noteq> 0 \<and> sched_quantum s \<noteq> 0)"

definition links_wf :: "scheduler \<Rightarrow> bool" where
  "links_wf s \<longleftrightarrow> distinct (map fst (sched_controllers s)) \<and>
     controller_order s = map fst (sched_controllers s) \<and>
     (\<forall>c ctl. map_of (sched_controllers s) c = Some ctl \<longrightarrow>
        distinct (ctl_flows ctl) \<and>
        (\<forall>d \<in> set (ctl_flows ctl). \<exists>f. map_of (sched_flows s) d = Some f \<and> flow_controller_id f = c)) \<and>
     (\<forall>d f. map_of (sched_flows s) d = Some f \<longrightarrow>
        (\<exists>ctl. map_of (sched_controllers s) (flow_controller_id f) = Some ctl \<and> d \<in> set (ctl_flows ctl)))"

definition cursors_wf :: "scheduler \<Rightarrow> bool" where
  "cursors_wf s \<longleftrightarrow>
     (\<forall>c ctl. map_of (sched_controllers s) c = Some ctl \<longrightarrow> ctl_cursor ctl < length (ctl_flows ctl))"

definition accounts_wf :: "scheduler \<Rightarrow> bool" where
  "accounts_wf s \<longleftrightarrow> distinct (map fst (sched_outstanding s)) \<and> next_token s \<le> u64_max \<and>
     (\<forall>t entry. map_of (sched_outstanding s) t = Some entry \<longrightarrow>
        0 < t \<and> t \<le> u64_max \<and> 0 < out_bytes entry \<and>
        map_of (sched_flows s) (out_device_id entry) \<noteq> None) \<and>
     (\<forall>d f. map_of (sched_flows s) d = Some f \<longrightarrow>
        flow_outstanding_count f = length (device_entries d (sched_outstanding s)) \<and>
        flow_outstanding_count f \<le> flow_max_outstanding f \<and>
        flow_remaining f + outstanding_bytes d s \<le> u64_max)"

definition sched_inv :: "scheduler \<Rightarrow> bool" where
  "sched_inv s \<longleftrightarrow> flows_wf s \<and> links_wf s \<and> cursors_wf s \<and> accounts_wf s"

lemmas sched_inv_defs = sched_inv_def flows_wf_def links_wf_def cursors_wf_def accounts_wf_def

lemma sched_inv_distinct: "sched_inv s \<Longrightarrow> distinct (map fst (sched_flows s))"
  "sched_inv s \<Longrightarrow> distinct (map fst (sched_controllers s))"
  by (simp_all add: sched_inv_defs)

lemma sched_inv_flow:
  assumes "sched_inv s" and "map_of (sched_flows s) d = Some f"
  shows "flow_device_id f = d" and "d \<noteq> []" and "flow_weight f \<noteq> 0" and "sched_quantum s \<noteq> 0"
    and "flow_outstanding_count f = length (device_entries d (sched_outstanding s))"
    and "flow_outstanding_count f \<le> flow_max_outstanding f"
    and "flow_remaining f + outstanding_bytes d s \<le> u64_max"
    and "\<exists>ctl. map_of (sched_controllers s) (flow_controller_id f) = Some ctl \<and> d \<in> set (ctl_flows ctl)"
  using assms unfolding sched_inv_defs by blast+

lemma sched_inv_ctl:
  assumes "sched_inv s" and "map_of (sched_controllers s) c = Some ctl"
  shows "distinct (ctl_flows ctl)" and "ctl_cursor ctl < length (ctl_flows ctl)"
    and "d \<in> set (ctl_flows ctl) \<Longrightarrow> \<exists>f. map_of (sched_flows s) d = Some f \<and> flow_controller_id f = c"
  using assms unfolding sched_inv_defs by blast+

lemma sched_inv_entry:
  assumes "sched_inv s" and "map_of (sched_outstanding s) t = Some entry"
  shows "0 < t" and "t \<le> u64_max" and "0 < out_bytes entry"
    and "\<exists>f. map_of (sched_flows s) (out_device_id entry) = Some f"
  using assms unfolding sched_inv_defs by blast+

text \<open>Under the invariant the linear search is the lookup by key.\<close>

lemma search_flow_eq:
  assumes "flows_wf s"
  shows "search_flow d s = map_option (Pair d) (map_of (sched_flows s) d)"
proof -
  have id: "\<forall>(k, f) \<in> set (sched_flows s). flow_device_id f = k"
    using assms by (auto simp: flows_wf_def)
  have "\<forall>(k, f) \<in> set xs. flow_device_id f = k \<Longrightarrow>
      find (\<lambda>(ignored, f). flow_device_id f = d) xs = map_option (Pair d) (map_of xs d)" for xs
    by (induction xs) auto
  from this [OF id] show ?thesis by (simp add: search_flow_def)
qed

section \<open>Changes that the accounts do not see\<close>

text \<open>
  Two states are \<open>idle\<close>-related when only deficits, cursors, the budget and notifications differ.
  Everything an operation does before it commits a grant is of this kind.
\<close>

definition flow_core :: "flow \<Rightarrow> flow" where
  "flow_core f = f\<lparr>flow_deficit := 0\<rparr>"

definition ctl_core :: "controller \<Rightarrow> controller" where
  "ctl_core c = c\<lparr>ctl_cursor := 0\<rparr>"

definition idle :: "scheduler \<Rightarrow> scheduler \<Rightarrow> bool" where
  "idle s s' \<longleftrightarrow>
     map (apsnd flow_core) (sched_flows s') = map (apsnd flow_core) (sched_flows s) \<and>
     map (apsnd ctl_core) (sched_controllers s') = map (apsnd ctl_core) (sched_controllers s) \<and>
     controller_order s' = controller_order s \<and> sched_outstanding s' = sched_outstanding s \<and>
     next_token s' = next_token s \<and> sched_quantum s' = sched_quantum s \<and>
     (cursors_wf s \<longrightarrow> cursors_wf s')"

lemma idle_refl [simp]: "idle s s"
  by (simp add: idle_def)

lemma idle_trans [trans]: "idle s t \<Longrightarrow> idle t u \<Longrightarrow> idle s u"
  by (simp add: idle_def)

lemma idle_flow:
  assumes "idle s s'"
  shows "map_option flow_core (map_of (sched_flows s') d) = map_option flow_core (map_of (sched_flows s) d)"
  by (rule apsnd_eq_lookup) (use assms in \<open>simp add: idle_def\<close>)

lemma flow_coreD:
  "flow_core f' = flow_core f \<Longrightarrow>
     flow_device_id f' = flow_device_id f \<and> flow_controller_id f' = flow_controller_id f \<and>
     flow_weight f' = flow_weight f \<and> flow_remaining f' = flow_remaining f \<and>
     flow_outstanding_count f' = flow_outstanding_count f \<and>
     flow_max_outstanding f' = flow_max_outstanding f \<and> flow_requested f' = flow_requested f \<and>
     flow_retired f' = flow_retired f \<and> flow_provider_attached f' = flow_provider_attached f"
  by (cases f, cases f') (simp add: flow_core_def)

lemma idle_flow_Some:
  assumes "idle s s'" and "map_of (sched_flows s') d = Some f'"
  obtains f where "map_of (sched_flows s) d = Some f" and "flow_core f' = flow_core f"
  using idle_flow [OF assms(1), of d] assms(2) by (auto simp: map_option_eq_Some dest: sym)

lemma idle_flow_Some':
  assumes "idle s s'" and "map_of (sched_flows s) d = Some f"
  obtains f' where "map_of (sched_flows s') d = Some f'" and "flow_core f' = flow_core f"
  using idle_flow [OF assms(1), of d] assms(2) by (auto simp: map_option_eq_Some dest: sym)

lemma ctl_coreD: "ctl_core c' = ctl_core c \<Longrightarrow> ctl_id c' = ctl_id c \<and> ctl_flows c' = ctl_flows c"
  by (cases c, cases c') (simp add: ctl_core_def)

lemma idle_ctl:
  assumes "idle s s'"
  shows "map_option ctl_core (map_of (sched_controllers s') c) =
    map_option ctl_core (map_of (sched_controllers s) c)"
  by (rule apsnd_eq_lookup) (use assms in \<open>simp add: idle_def\<close>)

lemma idle_ctl_Some:
  assumes "idle s s'" and "map_of (sched_controllers s') c = Some ctl'"
  obtains ctl where "map_of (sched_controllers s) c = Some ctl" and "ctl_flows ctl' = ctl_flows ctl"
  using idle_ctl [OF assms(1), of c] assms(2) by (auto simp: map_option_eq_Some dest!: sym [of "Some _"] ctl_coreD)

lemma idle_ctl_Some':
  assumes "idle s s'" and "map_of (sched_controllers s) c = Some ctl"
  obtains ctl' where "map_of (sched_controllers s') c = Some ctl'" and "ctl_flows ctl' = ctl_flows ctl"
  using idle_ctl [OF assms(1), of c] assms(2) by (auto simp: map_option_eq_Some dest!: sym [of "Some _"] ctl_coreD)

lemma idle_keys:
  assumes "idle s s'"
  shows "map fst (sched_flows s') = map fst (sched_flows s)"
    and "map fst (sched_controllers s') = map fst (sched_controllers s)"
  by (rule apsnd_eq_keys [where h = flow_core] apsnd_eq_keys [where h = ctl_core],
      use assms in \<open>simp add: idle_def\<close>)+

lemma idle_balance:
  assumes "idle s s'"
  shows "flow_balance d s' = flow_balance d s"
proof (cases "map_of (sched_flows s') d")
  case None
  then have "map_of (sched_flows s) d = None" using idle_flow [OF assms, of d] by simp
  with None show ?thesis by (simp add: flow_balance_def)
next
  case (Some f')
  then obtain f where "map_of (sched_flows s) d = Some f" "flow_core f' = flow_core f"
    using idle_flow_Some [OF assms] by blast
  moreover have "sched_outstanding s' = sched_outstanding s" using assms by (simp add: idle_def)
  ultimately show ?thesis
    using Some flow_coreD [of f' f] by (simp add: flow_balance_def outstanding_bytes_def)
qed

lemma idle_flows_wf:
  assumes "idle s s'" and "sched_inv s"
  shows "flows_wf s'"
  unfolding flows_wf_def
proof (intro conjI allI impI)
  show "distinct (map fst (sched_flows s'))"
    using sched_inv_distinct(1) [OF assms(2)] idle_keys(1) [OF assms(1)] by metis
next
  fix d f'
  assume f': "map_of (sched_flows s') d = Some f'"
  obtain f where f: "map_of (sched_flows s) d = Some f" and core: "flow_core f' = flow_core f"
    using idle_flow_Some [OF assms(1) f'] by blast
  have "sched_quantum s' = sched_quantum s" using assms(1) by (simp add: idle_def)
  then show "flow_device_id f' = d" "d \<noteq> []" "flow_weight f' \<noteq> 0" "sched_quantum s' \<noteq> 0"
    using sched_inv_flow(1-4) [OF assms(2) f] flow_coreD [OF core] by simp_all
qed

lemma idle_links_wf:
  assumes "idle s s'" and "sched_inv s"
  shows "links_wf s'"
proof -
  have "distinct (ctl_flows ctl') \<and>
      (\<forall>d \<in> set (ctl_flows ctl'). \<exists>f. map_of (sched_flows s') d = Some f \<and> flow_controller_id f = c)"
    if ctl': "map_of (sched_controllers s') c = Some ctl'" for c ctl'
  proof -
    obtain ctl where ctl: "map_of (sched_controllers s) c = Some ctl"
      and same: "ctl_flows ctl' = ctl_flows ctl"
      using idle_ctl_Some [OF assms(1) ctl'] by blast
    have "\<exists>f. map_of (sched_flows s') d = Some f \<and> flow_controller_id f = c"
      if d: "d \<in> set (ctl_flows ctl)" for d
    proof -
      obtain f where f: "map_of (sched_flows s) d = Some f" "flow_controller_id f = c"
        using sched_inv_ctl(3) [OF assms(2) ctl d] by blast
      obtain f' where "map_of (sched_flows s') d = Some f'" "flow_core f' = flow_core f"
        using idle_flow_Some' [OF assms(1) f(1)] by blast
      with f(2) flow_coreD [of f' f] show ?thesis by simp
    qed
    with same sched_inv_ctl(1) [OF assms(2) ctl] show ?thesis by simp
  qed
  moreover have "\<exists>ctl. map_of (sched_controllers s') (flow_controller_id f') = Some ctl \<and> d \<in> set (ctl_flows ctl)"
    if f': "map_of (sched_flows s') d = Some f'" for d f'
  proof -
    obtain f where f: "map_of (sched_flows s) d = Some f" and core: "flow_core f' = flow_core f"
      using idle_flow_Some [OF assms(1) f'] by blast
    obtain ctl where ctl: "map_of (sched_controllers s) (flow_controller_id f) = Some ctl"
      and d: "d \<in> set (ctl_flows ctl)"
      using sched_inv_flow(8) [OF assms(2) f] by blast
    obtain ctl' where "map_of (sched_controllers s') (flow_controller_id f) = Some ctl'"
      and "ctl_flows ctl' = ctl_flows ctl"
      using idle_ctl_Some' [OF assms(1) ctl] by blast
    with d flow_coreD [OF core] show ?thesis by simp
  qed
  moreover have "controller_order s' = controller_order s" using assms(1) by (simp add: idle_def)
  ultimately show ?thesis
    using assms(2) idle_keys(2) [OF assms(1)] by (simp add: sched_inv_defs)
qed

lemma idle_accounts_wf:
  assumes "idle s s'" and "sched_inv s"
  shows "accounts_wf s'"
proof -
  have eqs: "sched_outstanding s' = sched_outstanding s" "next_token s' = next_token s"
    using assms by (auto simp: idle_def)
  have "flow_outstanding_count f' = length (device_entries d (sched_outstanding s')) \<and>
      flow_outstanding_count f' \<le> flow_max_outstanding f' \<and>
      flow_remaining f' + outstanding_bytes d s' \<le> u64_max"
    if f': "map_of (sched_flows s') d = Some f'" for d f'
  proof -
    obtain f where "map_of (sched_flows s) d = Some f" "flow_core f' = flow_core f"
      using idle_flow_Some [OF assms(1) f'] by blast
    with sched_inv_flow(5-7) [OF assms(2)] flow_coreD [of f' f] show ?thesis
      by (simp add: outstanding_bytes_def eqs)
  qed
  moreover have "map_of (sched_flows s') d \<noteq> None" if "map_of (sched_flows s) d \<noteq> None" for d
    using that idle_flow [OF assms(1), of d] by auto
  moreover have "distinct (map fst (sched_outstanding s')) \<and> next_token s' \<le> u64_max"
    using assms(2) eqs unfolding sched_inv_defs by simp
  ultimately show ?thesis
    using sched_inv_entry [OF assms(2)] unfolding accounts_wf_def eqs
    by (metis option.distinct(1))
qed

lemma idle_inv: "idle s s' \<Longrightarrow> sched_inv s \<Longrightarrow> sched_inv s'"
  using idle_flows_wf idle_links_wf idle_accounts_wf unfolding sched_inv_def idle_def by blast

section \<open>The changes of this kind\<close>

lemma idle_same_tables:
  assumes "sched_flows s' = sched_flows s" and "sched_controllers s' = sched_controllers s"
    and "controller_order s' = controller_order s" and "sched_outstanding s' = sched_outstanding s"
    and "next_token s' = next_token s" and "sched_quantum s' = sched_quantum s"
  shows "idle s s'"
  using assms by (simp add: idle_def cursors_wf_def)

lemma idle_signal_change [simp]: "idle s (signal_change s)"
  by (rule idle_same_tables) (simp_all add: signal_change_def)

lemma idle_deliver_callbacks [simp]: "idle s (deliver_callbacks callbacks s)"
proof -
  have "idle s ((on_buffer_budget_available ^^ n) s)" for n
    by (induction n) (auto simp: on_buffer_budget_available_def intro: idle_trans)
  then show ?thesis by (simp add: deliver_callbacks_def)
qed

lemma idle_budget [simp]:
  "idle s (access_budget e s)" "idle s (s\<lparr>sched_budget := b\<rparr>)" "idle s (s\<lparr>controller_cursor := k\<rparr>)"
  by (rule idle_same_tables; simp add: access_budget_def)+

lemma idle_available_now: "available_now e s = (a, s') \<Longrightarrow> idle s s'"
  by (auto simp: available_now_def Let_def)

lemma idle_acquire_memory: "acquire_memory e n s = (r, s') \<Longrightarrow> idle s s'"
  by (auto simp: acquire_memory_def Let_def split: option.splits prod.splits
      intro: idle_trans [OF idle_budget(1) idle_trans [OF idle_budget(2) idle_deliver_callbacks]])

lemma idle_release_memory [simp]: "idle s (release_memory e lease s)"
  by (auto simp: release_memory_def Let_def split: option.splits prod.splits
      intro: idle_trans [OF idle_budget(1) idle_trans [OF idle_budget(2) idle_deliver_callbacks]])

lemma idle_modify_controller:
  assumes "distinct (map fst (sched_controllers s))"
    and "\<And>ctl. map_of (sched_controllers s) c = Some ctl \<Longrightarrow>
      ctl_core (g ctl) = ctl_core ctl \<and>
      (ctl_cursor ctl < length (ctl_flows ctl) \<longrightarrow> ctl_cursor (g ctl) < length (ctl_flows ctl))"
  shows "idle s (modify_controller c g s)"
proof -
  have "ctl_flows (g ctl) = ctl_flows ctl" if "map_of (sched_controllers s) c = Some ctl" for ctl
    using assms(2) [OF that] ctl_coreD by blast
  then have "cursors_wf s \<longrightarrow> cursors_wf (modify_controller c g s)"
    using assms(2) by (auto simp: cursors_wf_def modify_controller_def map_of_alist_modify)
  moreover have "map (apsnd ctl_core) (alist_modify c g (sched_controllers s)) =
      map (apsnd ctl_core) (sched_controllers s)"
    using assms by (intro map_apsnd_alist_modify) auto
  ultimately show ?thesis by (simp add: idle_def modify_controller_def)
qed

lemma idle_wrap_cursor:
  "distinct (map fst (sched_controllers s)) \<Longrightarrow> idle s (modify_controller c wrap_cursor s)"
  by (rule idle_modify_controller) (auto simp: wrap_cursor_def ctl_core_def)

lemma idle_advance_cursor:
  "distinct (map fst (sched_controllers s)) \<Longrightarrow> idle s (modify_controller c advance_cursor s)"
  by (rule idle_modify_controller) (auto simp: advance_cursor_def ctl_core_def intro!: mod_less_divisor)

lemma idle_refill:
  "distinct (map fst (sched_flows s)) \<Longrightarrow> idle s (modify_flow d (refill q) s)"
  using map_apsnd_alist_modify [of "sched_flows s" d flow_core "refill q"]
  by (simp add: idle_def modify_flow_def refill_def flow_core_def cursors_wf_def)

section \<open>Changes of one flow\<close>

definition same_identity :: "flow \<Rightarrow> flow \<Rightarrow> bool" where
  "same_identity f f' \<longleftrightarrow> flow_device_id f' = flow_device_id f \<and>
     flow_controller_id f' = flow_controller_id f \<and> flow_weight f' = flow_weight f"

lemma modify_flow_lookup:
  "map_of (sched_flows (modify_flow d g s)) d' =
     (if d' = d then map_option g (map_of (sched_flows s) d') else map_of (sched_flows s) d')"
  by (simp add: modify_flow_def map_of_alist_modify)

lemma modify_flow_same [simp]:
  "sched_controllers (modify_flow d g s) = sched_controllers s"
  "controller_order (modify_flow d g s) = controller_order s"
  "sched_quantum (modify_flow d g s) = sched_quantum s"
  "sched_outstanding (modify_flow d g s) = sched_outstanding s"
  "next_token (modify_flow d g s) = next_token s"
  "outstanding_bytes d' (modify_flow d g s) = outstanding_bytes d' s"
  "sched_budget (modify_flow d g s) = sched_budget s"
  by (simp_all add: modify_flow_def outstanding_bytes_def)

lemma modify_flow_structure:
  assumes "sched_inv s" and "\<And>f. map_of (sched_flows s) d = Some f \<Longrightarrow> same_identity f (g f)"
  shows "flows_wf (modify_flow d g s)" and "links_wf (modify_flow d g s)"
    and "cursors_wf (modify_flow d g s)"
proof -
  have lookup: "\<exists>f. map_of (sched_flows s) d' = Some f \<and> same_identity f f'"
    if "map_of (sched_flows (modify_flow d g s)) d' = Some f'" for d' f'
    using that assms(2) by (auto simp: modify_flow_lookup same_identity_def split: if_splits)
  have lookup': "\<exists>f'. map_of (sched_flows (modify_flow d g s)) d' = Some f' \<and> same_identity f f'"
    if "map_of (sched_flows s) d' = Some f" for d' f
    using that assms(2) by (auto simp: modify_flow_lookup same_identity_def)
  have keys: "map fst (sched_flows (modify_flow d g s)) = map fst (sched_flows s)"
    by (simp add: modify_flow_def)
  show "flows_wf (modify_flow d g s)"
    unfolding flows_wf_def keys modify_flow_same
  proof (intro conjI allI impI)
    show "distinct (map fst (sched_flows s))" using sched_inv_distinct(1) [OF assms(1)] .
    fix d' f' assume "map_of (sched_flows (modify_flow d g s)) d' = Some f'"
    then obtain f where f: "map_of (sched_flows s) d' = Some f" and same: "same_identity f f'"
      using lookup by blast
    show "flow_device_id f' = d'" "d' \<noteq> []" "flow_weight f' \<noteq> 0" "sched_quantum s \<noteq> 0"
      using sched_inv_flow(1-4) [OF assms(1) f] same by (simp_all add: same_identity_def)
  qed
  have "\<exists>f'. map_of (sched_flows (modify_flow d g s)) d' = Some f' \<and> flow_controller_id f' = c"
    if ctl: "map_of (sched_controllers s) c = Some ctl" and d': "d' \<in> set (ctl_flows ctl)" for c ctl d'
    using sched_inv_ctl(3) [OF assms(1) ctl d'] lookup' by (fastforce simp: same_identity_def)
  moreover have "\<exists>ctl. map_of (sched_controllers s) (flow_controller_id f') = Some ctl \<and> d' \<in> set (ctl_flows ctl)"
    if "map_of (sched_flows (modify_flow d g s)) d' = Some f'" for d' f'
    using lookup [OF that] sched_inv_flow(8) [OF assms(1)] by (fastforce simp: same_identity_def)
  moreover have "distinct (map fst (sched_controllers s)) \<and> controller_order s = map fst (sched_controllers s)"
    using assms(1) by (simp add: sched_inv_defs)
  ultimately show "links_wf (modify_flow d g s)"
    using sched_inv_ctl(1) [OF assms(1)] by (simp add: links_wf_def)
  show "cursors_wf (modify_flow d g s)"
    using assms(1) by (simp add: sched_inv_def cursors_wf_def)
qed

text \<open>A change of flags only: the accounts of the flow stay.\<close>

lemma inv_modify_flow:
  assumes "sched_inv s"
    and "\<And>f. map_of (sched_flows s) d = Some f \<Longrightarrow> same_identity f (g f) \<and>
      flow_outstanding_count (g f) = flow_outstanding_count f \<and>
      flow_outstanding_count f \<le> flow_max_outstanding (g f) \<and>
      flow_remaining (g f) = flow_remaining f"
  shows "sched_inv (modify_flow d g s)" and "flow_balance d' (modify_flow d g s) = flow_balance d' s"
proof -
  have "accounts_wf (modify_flow d g s)"
    unfolding accounts_wf_def modify_flow_same
  proof (intro conjI allI impI)
    show "distinct (map fst (sched_outstanding s))" and "next_token s \<le> u64_max"
      using assms(1) by (simp_all add: sched_inv_defs)
  next
    fix t entry assume e: "map_of (sched_outstanding s) t = Some entry"
    show "0 < t" "t \<le> u64_max" "0 < out_bytes entry"
      using sched_inv_entry(1-3) [OF assms(1) e] by blast+
    show "map_of (sched_flows (modify_flow d g s)) (out_device_id entry) \<noteq> None"
      using sched_inv_entry(4) [OF assms(1) e] by (auto simp: modify_flow_lookup)
  next
    fix k f' assume f': "map_of (sched_flows (modify_flow d g s)) k = Some f'"
    then obtain f where f: "map_of (sched_flows s) k = Some f"
      and "flow_outstanding_count f' = flow_outstanding_count f"
      and "flow_outstanding_count f \<le> flow_max_outstanding f'"
      and "flow_remaining f' = flow_remaining f"
      using assms(2) sched_inv_flow(6) [OF assms(1)] by (auto simp: modify_flow_lookup split: if_splits)
    then show "flow_outstanding_count f' = length (device_entries k (sched_outstanding s))"
      "flow_outstanding_count f' \<le> flow_max_outstanding f'"
      "flow_remaining f' + outstanding_bytes k s \<le> u64_max"
      using sched_inv_flow(5-7) [OF assms(1) f] by simp_all
  qed
  with modify_flow_structure [OF assms(1), of d g] assms(2)
  show "sched_inv (modify_flow d g s)" by (simp add: sched_inv_def)
  show "flow_balance d' (modify_flow d g s) = flow_balance d' s"
    using assms(2) by (auto simp: flow_balance_def modify_flow_lookup split: option.splits)
qed

end
