(* ===== verification/Scheduler_Grants.thy ===== *)
theory Scheduler_Grants
  imports Scheduler_Invariant
begin

text \<open>
  Grants of the controller scheduler: the token search ends and yields an unused token, and whatever
  the other users of the budget do, an attempt either leaves the accounts alone or moves exactly the
  granted bytes of one eligible flow from \<^verbatim>\<open>remaining\<close> to the table of outstanding grants.
\<close>

section \<open>Tokens\<close>

lemma allocate_token_loop_Some:
  assumes "allocate_token_loop fuel taken nxt = Some (t, nxt')" and "nxt \<le> u64_max"
  shows "0 < t \<and> t \<le> u64_max \<and> \<not> taken t \<and> nxt' \<le> u64_max"
  using assms
proof (induction fuel arbitrary: nxt)
  case 0
  then show ?case by simp
next
  case (Suc fuel)
  have "(nxt + 1) mod (u64_max + 1) \<le> u64_max" by simp
  with Suc show ?case by (auto simp: Let_def split: if_splits)
qed

lemma allocate_token_Some:
  assumes "allocate_token s = Some (t, s')" and "next_token s \<le> u64_max"
  shows "0 < t" and "t \<le> u64_max" and "map_of (sched_outstanding s) t = None"
    and "\<exists>n. s' = s\<lparr>next_token := n\<rparr> \<and> n \<le> u64_max"
proof -
  from assms(1) obtain n where
    "allocate_token_loop (length (sched_outstanding s) + 2)
       (\<lambda>t. map_of (sched_outstanding s) t \<noteq> None) (next_token s) = Some (t, n)"
    and s': "s' = s\<lparr>next_token := n\<rparr>"
    by (auto simp: allocate_token_def split: option.splits prod.splits)
  note * = allocate_token_loop_Some [OF this(1) assms(2)]
  from * show "0 < t" and "t \<le> u64_max" and "map_of (sched_outstanding s) t = None" by auto
  from * s' show "\<exists>n. s' = s\<lparr>next_token := n\<rparr> \<and> n \<le> u64_max" by blast
qed

lemma allocate_token_loop_None:
  assumes "allocate_token_loop fuel taken nxt = None" and "nxt \<le> u64_max" and "i < fuel"
  shows "(nxt + i) mod (u64_max + 1) = 0 \<or> taken ((nxt + i) mod (u64_max + 1))"
  using assms
proof (induction fuel arbitrary: nxt i)
  case 0
  then show ?case by simp
next
  case (Suc fuel)
  let ?n = "(nxt + 1) mod (u64_max + 1)"
  from Suc.prems have here: "nxt = 0 \<or> taken nxt" and rest: "allocate_token_loop fuel taken ?n = None"
    by (auto simp: Let_def split: if_splits)
  show ?case
  proof (cases i)
    case 0
    with here Suc.prems(2) show ?thesis by simp
  next
    case (Suc j)
    have le: "?n \<le> u64_max" by simp
    have "(?n + j) mod (u64_max + 1) = (nxt + i) mod (u64_max + 1)"
      using mod_add_left_eq [of "nxt + 1" "u64_max + 1" j] by (simp add: Suc)
    with Suc.IH [OF rest le, of j] Suc.prems(3) Suc show ?thesis by simp
  qed
qed

text \<open>By counting: among more consecutive tokens than there are entries, one is free.\<close>

lemma allocate_token_ends:
  assumes "length (sched_outstanding s) < u64_max" and "next_token s \<le> u64_max"
  shows "allocate_token s \<noteq> None"
proof
  let ?n = "length (sched_outstanding s)" and ?M = "u64_max + 1"
  let ?tok = "\<lambda>i. (next_token s + i) mod ?M"
  assume "allocate_token s = None"
  then have none: "allocate_token_loop (?n + 2) (\<lambda>t. map_of (sched_outstanding s) t \<noteq> None) (next_token s) = None"
    by (auto simp: allocate_token_def split: option.splits)
  have range: "?tok ` {..<?n + 2} \<subseteq> insert 0 (fst ` set (sched_outstanding s))"
    using allocate_token_loop_None [OF none assms(2)] by (force simp: map_of_eq_None_iff)
  have "inj_on ?tok {..<?n + 2}"
  proof (rule inj_onI)
    fix i j
    assume ij: "i \<in> {..<?n + 2}" "j \<in> {..<?n + 2}" and eq: "?tok i = ?tok j"
    from eq obtain q1 q2 where "next_token s + i + ?M * q1 = next_token s + j + ?M * q2"
      unfolding nat_mod_eq_iff by blast
    then have "i mod ?M = j mod ?M"
      unfolding nat_mod_eq_iff by (intro exI [of _ q1] exI [of _ q2]) linarith
    moreover have "i < ?M" "j < ?M" using ij assms(1) by simp_all
    ultimately show "i = j" by simp
  qed
  then have "card (?tok ` {..<?n + 2}) = ?n + 2" by (simp add: card_image)
  moreover have "card (insert 0 (fst ` set (sched_outstanding s))) \<le> Suc ?n"
    using card_image_le [of "set (sched_outstanding s)" fst] card_length [of "sched_outstanding s"]
      card_insert_le_m1 [of "Suc ?n" "fst ` set (sched_outstanding s)" 0]
    by (simp add: card_insert_if)
  ultimately show False
    using card_mono [OF _ range] by simp
qed

section \<open>What a grant is\<close>

definition granted_from :: "scheduler \<Rightarrow> nat \<Rightarrow> string \<Rightarrow> grant \<Rightarrow> scheduler \<Rightarrow> bool" where
  "granted_from s maximum_bytes required g s' \<longleftrightarrow>
     (\<exists>f f'. map_of (sched_flows s) (grant_device_id g) = Some f \<and>
       map_of (sched_flows s') (grant_device_id g) = Some f' \<and>
       \<not> flow_skipped f \<and> (required \<noteq> [] \<longrightarrow> grant_device_id g = required) \<and>
       grant_controller_id g = flow_controller_id f \<and>
       0 < grant_bytes g \<and> grant_bytes g \<le> maximum_bytes \<and>
       flow_remaining f' + grant_bytes g = flow_remaining f \<and>
       flow_outstanding_count f' = flow_outstanding_count f + 1) \<and>
     grant_memory g = Some (make_lease_storage (grant_bytes g)) \<and>
     0 < grant_token g \<and> grant_token g \<le> u64_max \<and>
     map_of (sched_outstanding s) (grant_token g) = None \<and>
     sched_outstanding s' = sched_outstanding s @
       [(grant_token g, \<lparr>out_device_id = grant_device_id g, out_bytes = grant_bytes g\<rparr>)]"

lemma flow_skipped_core: "flow_core f' = flow_core f \<Longrightarrow> flow_skipped f' = flow_skipped f"
  using flow_coreD [of f' f] by (simp add: flow_skipped_def)

lemma granted_from_idle:
  assumes "idle s s1" and "granted_from s1 m req g s'"
  shows "granted_from s m req g s'"
proof -
  have out: "sched_outstanding s1 = sched_outstanding s" using assms(1) by (simp add: idle_def)
  from assms(2) obtain f1 where f1: "map_of (sched_flows s1) (grant_device_id g) = Some f1"
    by (auto simp: granted_from_def)
  obtain f where "map_of (sched_flows s) (grant_device_id g) = Some f" "flow_core f1 = flow_core f"
    using idle_flow_Some [OF assms(1) f1] by blast
  with assms(2) f1 out flow_coreD [of f1 f] flow_skipped_core [of f1 f]
  show ?thesis by (auto simp: granted_from_def)
qed

text \<open>The outcome of the operations that may grant.\<close>

definition served ::
    "scheduler \<Rightarrow> nat \<Rightarrow> string \<Rightarrow> (sched_error + grant option) \<times> scheduler \<Rightarrow> bool" where
  "served s maximum_bytes required out \<longleftrightarrow>
     sched_inv (snd out) \<and> (\<forall>d. flow_balance d (snd out) = flow_balance d s) \<and>
     (case fst out of
        Inr (Some g) \<Rightarrow> granted_from s maximum_bytes required g (snd out)
      | Inr None \<Rightarrow> idle s (snd out)
      | Inl err \<Rightarrow> idle s (snd out) \<and> err \<noteq> Out_of_range \<and>
          (err = Token_search_diverges \<longrightarrow> u64_max \<le> length (sched_outstanding s)))"

lemma served_none: "sched_inv s \<Longrightarrow> idle s s' \<Longrightarrow> served s m req (Inr None, s')"
  by (simp add: served_def idle_inv idle_balance)

lemma served_bad_alloc: "sched_inv s \<Longrightarrow> idle s s' \<Longrightarrow> served s m req (Inl Bad_alloc, s')"
  by (simp add: served_def idle_inv idle_balance)

lemma served_idle:
  assumes "idle s s1" and "served s1 m req out"
  shows "served s m req out"
  using assms granted_from_idle [OF assms(1)] idle_balance [OF assms(1)] idle_trans [OF assms(1)]
  by (auto simp: served_def idle_def split: sum.splits option.splits)

section \<open>Committing a grant\<close>

text \<open>The books after a grant of \<open>n\<close> bytes to device \<open>d\<close> under token \<open>t\<close>.\<close>

definition book_grant :: "string \<Rightarrow> nat \<Rightarrow> nat \<Rightarrow> nat \<Rightarrow> scheduler \<Rightarrow> scheduler" where
  "book_grant d n t nxt s =
     modify_flow d (charge_flow n)
       (s\<lparr>next_token := nxt,
          sched_outstanding := sched_outstanding s @ [(t, \<lparr>out_device_id = d, out_bytes = n\<rparr>)]\<rparr>)"

lemma outstanding_bytes_book:
  "outstanding_bytes k (book_grant d n t nxt s) = outstanding_bytes k s + (if k = d then n else 0)"
  by (simp add: outstanding_bytes_def book_grant_def)

lemma book_grant_lookup:
  "map_of (sched_flows (book_grant d n t nxt s)) k =
     (if k = d then map_option (charge_flow n) (map_of (sched_flows s) k) else map_of (sched_flows s) k)"
  by (simp add: book_grant_def modify_flow_lookup)

lemma same_identity_charge [simp]: "same_identity f (charge_flow n f)"
  by (simp add: same_identity_def charge_flow_def)

lemma book_grant_structure:
  assumes "sched_inv s"
  shows "flows_wf (book_grant d n t nxt s)" "links_wf (book_grant d n t nxt s)"
    "cursors_wf (book_grant d n t nxt s)"
proof -
  let ?s = "book_grant d n t nxt s" and ?m = "modify_flow d (charge_flow n) s"
  have same: "sched_flows ?s = sched_flows ?m" "sched_controllers ?s = sched_controllers ?m"
    "controller_order ?s = controller_order ?m" "sched_quantum ?s = sched_quantum ?m"
    by (simp_all add: book_grant_def modify_flow_def)
  note st = modify_flow_structure [OF assms, of d "charge_flow n", OF same_identity_charge]
  show "flows_wf ?s" "links_wf ?s" "cursors_wf ?s"
    using st unfolding flows_wf_def links_wf_def cursors_wf_def same by blast+
qed

lemma book_grant_accounts:
  assumes inv: "sched_inv s" and f: "map_of (sched_flows s) d = Some f"
    and n: "0 < n" "n \<le> flow_remaining f" and room: "flow_outstanding_count f < flow_max_outstanding f"
    and t: "0 < t" "t \<le> u64_max" "map_of (sched_outstanding s) t = None" and nxt: "nxt \<le> u64_max"
  shows "accounts_wf (book_grant d n t nxt s)"
proof -
  let ?s = "book_grant d n t nxt s"
  have out: "sched_outstanding ?s = sched_outstanding s @ [(t, \<lparr>out_device_id = d, out_bytes = n\<rparr>)]"
    and nt: "next_token ?s = nxt" by (simp_all add: book_grant_def)
  have old: "distinct (map fst (sched_outstanding s))" using inv by (simp add: sched_inv_defs)
  show ?thesis
    unfolding accounts_wf_def
  proof (intro conjI allI impI)
    show "distinct (map fst (sched_outstanding ?s))" and "next_token ?s \<le> u64_max"
      using old t(3) nxt by (auto simp: out nt map_of_eq_None_iff)
  next
    fix t' entry assume "map_of (sched_outstanding ?s) t' = Some entry"
    then consider "map_of (sched_outstanding s) t' = Some entry"
      | "t' = t" "entry = \<lparr>out_device_id = d, out_bytes = n\<rparr>"
      by (auto simp: out map_add_def map_of_append split: option.splits if_splits)
    then show "0 < t'" "t' \<le> u64_max" "0 < out_bytes entry"
      "map_of (sched_flows ?s) (out_device_id entry) \<noteq> None"
      by (cases; use sched_inv_entry [OF inv] t n f in \<open>fastforce simp: book_grant_lookup\<close>)+
  next
    fix k f' assume "map_of (sched_flows ?s) k = Some f'"
    then consider "k = d" "f' = charge_flow n f" | "k \<noteq> d" "map_of (sched_flows s) k = Some f'"
      using f by (auto simp: book_grant_lookup split: if_splits)
    then show "flow_outstanding_count f' = length (device_entries k (sched_outstanding ?s))"
      "flow_outstanding_count f' \<le> flow_max_outstanding f'"
      "flow_remaining f' + outstanding_bytes k ?s \<le> u64_max"
      by (cases; use sched_inv_flow(5-7) [OF inv] f room n in
          \<open>fastforce simp: outstanding_bytes_book out charge_flow_def\<close>)+
  qed
qed

lemma book_grant_balance:
  assumes "map_of (sched_flows s) d = Some f" and "n \<le> flow_remaining f"
  shows "flow_balance k (book_grant d n t nxt s) = flow_balance k s"
  using assms
  by (auto simp: flow_balance_def book_grant_lookup outstanding_bytes_book charge_flow_def
      split: option.splits)

lemma commit_grant_served:
  assumes inv: "sched_inv s" and f: "map_of (sched_flows s) d = Some f" and "\<not> flow_skipped f"
    and n: "0 < n" "n \<le> flow_remaining f" "n \<le> m" and "req \<noteq> [] \<longrightarrow> d = req"
  shows "served s m req (commit_grant c d f n (Some (make_lease_storage n)) s)"
proof (cases "allocate_token s")
  case None
  then have "u64_max \<le> length (sched_outstanding s)"
    using allocate_token_ends [of s] inv by (fastforce simp: sched_inv_defs)
  with None inv show ?thesis by (simp add: commit_grant_def served_def)
next
  case (Some r)
  obtain t s1 where r: "r = (t, s1)" by force
  have nt: "next_token s \<le> u64_max" using inv by (simp add: sched_inv_defs)
  note tok = allocate_token_Some [OF Some [unfolded r] nt]
  obtain nxt where s1: "s1 = s\<lparr>next_token := nxt\<rparr>" and nxt: "nxt \<le> u64_max" using tok(4) by blast
  have dev: "flow_device_id f = d" using sched_inv_flow(1) [OF inv f] .
  have room: "flow_outstanding_count f < flow_max_outstanding f"
    using assms(3) by (simp add: flow_skipped_def)
  let ?b = "book_grant d n t nxt s"
  let ?e = "if flow_remaining (charge_flow n f) = 0 \<or> flow_deficit (charge_flow n f) = 0
    then modify_controller c advance_cursor ?b else ?b"
  have out: "commit_grant c d f n (Some (make_lease_storage n)) s =
      (Inr (Some \<lparr>grant_token = t, grant_device_id = d, grant_controller_id = flow_controller_id f,
         grant_bytes = n, grant_memory = Some (make_lease_storage n)\<rparr>), signal_change ?e)"
    by (simp add: commit_grant_def Some r s1 book_grant_def dev Let_def)
  have binv: "sched_inv ?b"
    using book_grant_structure [OF inv, of d n t nxt] book_grant_accounts [OF inv f n(1,2) room tok(1-3) nxt]
    by (simp add: sched_inv_def)
  have "idle ?b ?e"
    using idle_advance_cursor [OF sched_inv_distinct(2) [OF binv]] by simp
  then have tail: "idle ?b (signal_change ?e)" using idle_signal_change idle_trans by blast
  obtain f' where "map_of (sched_flows (signal_change ?e)) d = Some f'"
    and core: "flow_core f' = flow_core (charge_flow n f)"
    using idle_flow_Some' [OF tail, of d "charge_flow n f"] f by (auto simp: book_grant_lookup)
  moreover have "sched_outstanding (signal_change ?e) = sched_outstanding ?b"
    using tail by (simp add: idle_def)
  ultimately have "granted_from s m req \<lparr>grant_token = t, grant_device_id = d,
      grant_controller_id = flow_controller_id f, grant_bytes = n,
      grant_memory = Some (make_lease_storage n)\<rparr> (signal_change ?e)"
    using f assms(3) n assms(7) tok flow_coreD [OF core]
    by (simp add: granted_from_def charge_flow_def book_grant_def)
  then show ?thesis
    using idle_inv [OF tail binv] idle_balance [OF tail] book_grant_balance [OF f n(2)]
    unfolding out served_def by simp
qed

section \<open>Attempts and loops\<close>

lemma acquire_memory_Acquired:
  "acquire_memory e n s = (Acquired memory, s') \<Longrightarrow> memory = Some (make_lease_storage n)"
  by (auto simp: acquire_memory_def try_acquire_cases Let_def split: option.splits if_splits prod.splits)

lemma refill_core [simp]: "flow_core (refill q f) = flow_core f"
  by (simp add: refill_def flow_core_def)

lemma serve_flow_served:
  assumes inv: "sched_inv s" and f: "map_of (sched_flows s) d = Some f" and ok: "\<not> flow_skipped f"
    and req: "req \<noteq> [] \<longrightarrow> d = req"
  shows "case serve_flow e c d f m s of
      Next_attempt s' \<Rightarrow> idle s s' | Leave out \<Rightarrow> served s m req out"
proof -
  obtain a s1 where a: "available_now e s = (a, s1)" by force
  note i1 = idle_available_now [OF a]
  define q where "q = sched_quantum s1"
  define s2 where "s2 = modify_flow d (refill q) s1"
  define n where "n = min (flow_deficit (refill q f)) (min m (min a (min (flow_remaining f) u64_max)))"
  obtain r s3 where r: "acquire_memory e n s2 = (r, s3)" by force
  have inv1: "sched_inv s1" using idle_inv [OF i1 inv] .
  have i2: "idle s s2"
    unfolding s2_def using idle_trans [OF i1 idle_refill] sched_inv_distinct(1) [OF inv1] by blast
  have inv2: "sched_inv s2" using idle_inv [OF i2 inv] .
  have i3: "idle s s3" using idle_trans [OF i2 idle_acquire_memory [OF r]] .
  have inv3: "sched_inv s3" using idle_inv [OF i3 inv] .
  have adv: "idle s (modify_controller c advance_cursor s2)"
    using idle_trans [OF i2 idle_advance_cursor] sched_inv_distinct(2) [OF inv2] by blast
  have same1: "sched_flows s1 = sched_flows s"
    using a by (auto simp: available_now_def access_budget_def Let_def)
  have "sched_flows s3 = sched_flows s2"
  proof -
    have "sched_flows ((on_buffer_budget_available ^^ k) t) = sched_flows t" for k t
      by (induction k) (simp_all add: on_buffer_budget_available_def signal_change_def)
    with r show ?thesis
      by (auto simp: acquire_memory_def access_budget_def deliver_callbacks_def Let_def
          split: option.splits prod.splits)
  qed
  then have f3: "map_of (sched_flows s3) d = Some (refill q f)"
    using f same1 by (simp add: s2_def modify_flow_lookup)
  have core: "flow_core (refill q f) = flow_core f" by simp
  have commit: "served s m req (commit_grant c d (refill q f) n memory s3)"
    if "r = Acquired memory" and "n \<noteq> 0" for memory
  proof -
    have "n \<le> flow_remaining (refill q f)" and "n \<le> m"
      using flow_coreD [OF core] by (simp_all add: n_def)
    with that commit_grant_served [OF inv3 f3 _ _ _ _ req, of n m c] flow_skipped_core [OF core] ok
      acquire_memory_Acquired [of e n s2 memory s3] r
    show ?thesis using served_idle [OF i3] by simp
  qed
  show ?thesis
    using adv commit served_none [OF inv i1] served_none [OF inv i3] served_bad_alloc [OF inv i3]
    by (auto simp: serve_flow_def a Let_def simp flip: q_def s2_def n_def
        simp: r split: acquire_result.splits)
qed

lemma controller_attempt_served:
  assumes inv: "sched_inv s" and "map_of (sched_controllers s) c \<noteq> None"
  shows "case controller_attempt e c m req s of
      Next_attempt s' \<Rightarrow> idle s s' | Leave out \<Rightarrow> served s m req out"
proof -
  define s1 where "s1 = modify_controller c wrap_cursor s"
  have i1: "idle s s1"
    unfolding s1_def using idle_wrap_cursor sched_inv_distinct(2) [OF inv] by blast
  note inv1 = idle_inv [OF i1 inv]
  obtain ctl where ctl: "map_of (sched_controllers s1) c = Some ctl"
    using assms(2) idle_ctl [OF i1, of c] by auto
  define d where "d = ctl_flows ctl ! ctl_cursor ctl"
  have "d \<in> set (ctl_flows ctl)" using sched_inv_ctl(2) [OF inv1 ctl] by (simp add: d_def)
  then obtain f where f: "map_of (sched_flows s1) d = Some f"
    using sched_inv_ctl(3) [OF inv1 ctl] by blast
  have dev: "flow_device_id f = d" using sched_inv_flow(1) [OF inv1 f] .
  have adv: "idle s (modify_controller c advance_cursor s1)"
    using idle_trans [OF i1 idle_advance_cursor] sched_inv_distinct(2) [OF inv1] by blast
  have "case serve_flow e c d f m s1 of Next_attempt s' \<Rightarrow> idle s s' | Leave out \<Rightarrow> served s m req out"
    if "\<not> flow_skipped f" "req = [] \<or> d = req"
    using serve_flow_served [OF inv1 f that(1), where req = req and e = e and c = c and m = m] that(2) idle_trans [OF i1]
      served_idle [OF i1] by (auto split: attempt.splits)
  then show ?thesis
    using adv served_none [OF inv i1] dev
    by (auto simp: controller_attempt_def Let_def ctl f simp flip: s1_def d_def)
qed

lemma controller_loop_served:
  "sched_inv s \<Longrightarrow> map_of (sched_controllers s) c \<noteq> None \<Longrightarrow> served s m req (controller_loop n e c m req s)"
proof (induction n arbitrary: s)
  case 0
  then show ?case by (simp add: served_none)
next
  case (Suc n)
  note at = controller_attempt_served [OF Suc.prems, where e = e and m = m and req = req]
  show ?case
  proof (cases "controller_attempt e c m req s")
    case (Next_attempt s')
    with at have i: "idle s s'" by simp
    have "map_of (sched_controllers s') c \<noteq> None" using Suc.prems(2) idle_ctl [OF i, of c] by auto
    with Suc.IH [OF idle_inv [OF i Suc.prems(1)]] served_idle [OF i] Next_attempt show ?thesis by simp
  next
    case (Leave out)
    with at show ?thesis by simp
  qed
qed

lemma next_for_controller_served:
  assumes "sched_inv s" and "map_of (sched_controllers s) c \<noteq> None"
  shows "served s m req (next_for_controller e c m req s)"
proof -
  obtain a s1 where a: "available_now e s = (a, s1)" by force
  note i1 = idle_available_now [OF a]
  have "map_of (sched_controllers s1) c \<noteq> None" using assms(2) idle_ctl [OF i1, of c] by auto
  from served_idle [OF i1 controller_loop_served [OF idle_inv [OF i1 assms(1)] this]]
  show ?thesis
    using assms served_none [OF assms(1)] i1
    by (auto simp: next_for_controller_def a Let_def)
qed

text \<open>The controller under the cursor exists.\<close>

lemma controller_order_nth:
  assumes "sched_inv s" and "k < length (controller_order s)"
  shows "map_of (sched_controllers s) (controller_order s ! k) \<noteq> None"
proof -
  have "controller_order s = map fst (sched_controllers s)" using assms(1) by (simp add: sched_inv_defs)
  with assms(2) show ?thesis by (auto simp: map_of_eq_None_iff)
qed

lemma next_loop_served:
  "sched_inv s \<Longrightarrow> controller_order s \<noteq> [] \<Longrightarrow> served s m [] (next_loop n e m s)"
proof (induction n arbitrary: s)
  case 0
  then show ?case by (simp add: served_none)
next
  case (Suc n)
  define s1 where "s1 = (if controller_cursor s \<ge> length (controller_order s)
    then s\<lparr>controller_cursor := 0\<rparr> else s)"
  define s2 where "s2 = s1\<lparr>controller_cursor := (controller_cursor s1 + 1) mod length (controller_order s1)\<rparr>"
  define c where "c = controller_order s1 ! controller_cursor s1"
  obtain r s3 where r: "next_for_controller e c m [] s2 = (r, s3)" by force
  have i1: "idle s s1" and order1: "controller_order s1 = controller_order s"
    and k: "controller_cursor s1 < length (controller_order s1)"
    using Suc.prems by (auto simp: s1_def)
  have i2: "idle s s2" unfolding s2_def using idle_trans [OF i1] by simp
  note inv2 = idle_inv [OF i2 Suc.prems(1)]
  have c1: "map_of (sched_controllers s1) c \<noteq> None"
    unfolding c_def using controller_order_nth [OF idle_inv [OF i1 Suc.prems(1)] k] .
  then have "map_of (sched_controllers s2) c \<noteq> None" by (simp add: s2_def)
  note sv = served_idle [OF i2 next_for_controller_served [OF inv2 this, of m "[]" e]]
  have next_eq: "next_loop (Suc n) e m s = (if r \<noteq> Inr None then (r, s3) else next_loop n e m s3)"
    using c1 r by (auto simp: Let_def s2_def simp flip: s1_def c_def)
  show ?case
  proof (cases "r = Inr None")
    case True
    with sv r have i3: "idle s s3" and inv3: "sched_inv s3" by (simp_all add: served_def)
    have "controller_order s3 \<noteq> []" using i3 Suc.prems(2) by (simp add: idle_def)
    with served_idle [OF i3 Suc.IH [OF inv3]] True next_eq show ?thesis by simp
  next
    case False
    with sv r next_eq show ?thesis by simp
  qed
qed

lemma next_dispatch_served:
  assumes "sched_inv s"
  shows "served s m [] (next_dispatch e m s)"
  using next_loop_served [OF assms] served_none [OF assms] by (auto simp: next_dispatch_def)

section \<open>Requests of one device\<close>

definition request_flow :: "string \<Rightarrow> scheduler \<Rightarrow> scheduler" where
  "request_flow d s = modify_flow d (\<lambda>f. f\<lparr>flow_requested := True\<rparr>) s"

lemma request_flow_inv:
  assumes "sched_inv s"
  shows "sched_inv (request_flow d s)" and "flow_balance k (request_flow d s) = flow_balance k s"
  unfolding request_flow_def
  by (rule inv_modify_flow [OF assms]; use sched_inv_flow(6) [OF assms] in \<open>simp add: same_identity_def\<close>)+

lemma acquire_for_served:
  assumes inv: "sched_inv s" and "acquire_for e d m s = (r, s')"
  shows "served (request_flow d s) m d (r, s') \<or> (r = Inr None \<and> s' = s)"
proof (cases "map_of (sched_flows s) d")
  case None
  then show ?thesis
    using assms(2) search_flow_eq [of s d] inv by (auto simp: acquire_for_def sched_inv_def split: if_splits)
next
  case (Some f)
  have find: "search_flow d s = Some (d, f)"
    using search_flow_eq [of s d] inv Some by (simp add: sched_inv_def)
  note rinv = request_flow_inv(1) [OF inv, of d]
  obtain ctl where ctl: "map_of (sched_controllers s) (flow_controller_id f) = Some ctl"
    using sched_inv_flow(8) [OF inv Some] by blast
  then have "map_of (sched_controllers (request_flow d s)) (flow_controller_id f) \<noteq> None"
    by (simp add: request_flow_def)
  from next_for_controller_served [OF rinv this, of m d e] served_none [OF rinv]
  show ?thesis
    using assms(2) ctl find
    by (auto simp: acquire_for_def request_flow_def Let_def split: if_splits)
qed

end
