(* ===== verification/Scheduler_Runs.thy ===== *)
theory Scheduler_Runs
  imports Scheduler_Grants
begin

text \<open>
  Settlement and registration, and runs of the scheduler: sequences of public operations in any
  order, with any behaviour of the other users of the budget in between. Every run keeps the
  invariant, and the bytes of every device are conserved.
\<close>

section \<open>Settling\<close>

lemma outstanding_bytes_entry:
  assumes "map_of (sched_outstanding s) t = Some entry" and "sched_inv s"
  shows "out_bytes entry \<le> outstanding_bytes (out_device_id entry) s"
proof -
  have "distinct (map fst (sched_outstanding s))" using assms(2) by (simp add: sched_inv_defs)
  from device_entries_erase(2) [OF assms(1) this, of "out_device_id entry"]
  show ?thesis by (simp add: outstanding_bytes_def)
qed

definition book_settle :: "nat \<Rightarrow> outstanding_entry \<Rightarrow> transfer_permit_settlement \<Rightarrow> scheduler \<Rightarrow> scheduler" where
  "book_settle t entry result s =
     (modify_flow (out_device_id entry) (settle_flow (out_bytes entry) result) s)
       \<lparr>sched_outstanding := alist_erase t (sched_outstanding s)\<rparr>"

lemma book_settle_lookup:
  "map_of (sched_flows (book_settle t entry result s)) k =
     (if k = out_device_id entry
      then map_option (settle_flow (out_bytes entry) result) (map_of (sched_flows s) k)
      else map_of (sched_flows s) k)"
  by (simp add: book_settle_def modify_flow_lookup)

lemma same_identity_settle [simp]: "same_identity f (settle_flow n result f)"
  by (simp add: same_identity_def settle_flow_def Let_def)

text \<open>Under the invariant giving bytes back never saturates.\<close>

lemma settle_flow_fields:
  assumes "flow_remaining f + n \<le> u64_max"
  shows "flow_remaining (settle_flow n result f) =
      (if result = Not_submitted then flow_remaining f + n else flow_remaining f)"
    and "flow_outstanding_count (settle_flow n result f) = flow_outstanding_count f - 1"
    and "flow_max_outstanding (settle_flow n result f) = flow_max_outstanding f"
    and "flow_retired (settle_flow n result f) = (flow_retired f \<or> result = Partial_or_unknown)"
  using assms by (auto simp: settle_flow_def saturating_add_def Let_def)

lemma book_settle_outstanding:
  assumes "sched_inv s" and "map_of (sched_outstanding s) t = Some entry"
  shows "outstanding_bytes k s = outstanding_bytes k (book_settle t entry result s) +
      (if out_device_id entry = k then out_bytes entry else 0)"
    and "length (device_entries k (sched_outstanding s)) =
      length (device_entries k (sched_outstanding (book_settle t entry result s))) +
      (if out_device_id entry = k then 1 else 0)"
proof -
  have "distinct (map fst (sched_outstanding s))" using assms(1) by (simp add: sched_inv_defs)
  from device_entries_erase [OF assms(2) this, of k]
  show "outstanding_bytes k s = outstanding_bytes k (book_settle t entry result s) +
      (if out_device_id entry = k then out_bytes entry else 0)"
    and "length (device_entries k (sched_outstanding s)) =
      length (device_entries k (sched_outstanding (book_settle t entry result s))) +
      (if out_device_id entry = k then 1 else 0)"
    by (simp_all add: outstanding_bytes_def book_settle_def)
qed

lemma book_settle_balance:
  assumes "sched_inv s" and "map_of (sched_outstanding s) t = Some entry"
  shows "flow_balance k s = flow_balance k (book_settle t entry result s) +
    (if out_device_id entry = k \<and> result \<noteq> Not_submitted then out_bytes entry else 0)"
proof (cases "map_of (sched_flows s) k")
  case None
  then have "out_device_id entry \<noteq> k" using sched_inv_entry(4) [OF assms] by auto
  with None show ?thesis by (simp add: flow_balance_def book_settle_lookup)
next
  case (Some f)
  have "flow_remaining f + out_bytes entry \<le> u64_max" if "out_device_id entry = k"
    using sched_inv_flow(7) [OF assms(1) Some] outstanding_bytes_entry [OF assms(2,1)] that by simp
  with Some book_settle_outstanding(1) [OF assms, of k result] settle_flow_fields(1)
  show ?thesis by (auto simp: flow_balance_def book_settle_lookup)
qed

lemma book_settle_accounts:
  assumes inv: "sched_inv s" and e: "map_of (sched_outstanding s) t = Some entry"
  shows "accounts_wf (book_settle t entry result s)"
proof -
  let ?s = "book_settle t entry result s"
  have out: "sched_outstanding ?s = alist_erase t (sched_outstanding s)"
    and nt: "next_token ?s = next_token s" by (simp_all add: book_settle_def)
  have old: "distinct (map fst (sched_outstanding s))" "next_token s \<le> u64_max"
    using inv by (simp_all add: sched_inv_defs)
  show ?thesis
    unfolding accounts_wf_def
  proof (intro conjI allI impI)
    show "distinct (map fst (sched_outstanding ?s))" and "next_token ?s \<le> u64_max"
      using old distinct_alist_erase by (auto simp: out nt)
  next
    fix t' entry' assume "map_of (sched_outstanding ?s) t' = Some entry'"
    then have e': "map_of (sched_outstanding s) t' = Some entry'"
      by (auto simp: out map_of_alist_erase split: if_splits)
    show "0 < t'" "t' \<le> u64_max" "0 < out_bytes entry'" using sched_inv_entry(1-3) [OF inv e'] .
    show "map_of (sched_flows ?s) (out_device_id entry') \<noteq> None"
      using sched_inv_entry(4) [OF inv e'] by (auto simp: book_settle_lookup)
  next
    fix k f' assume f': "map_of (sched_flows ?s) k = Some f'"
    then obtain f where f: "map_of (sched_flows s) k = Some f"
      and f'_eq: "f' = (if k = out_device_id entry then settle_flow (out_bytes entry) result f else f)"
      by (auto simp: book_settle_lookup split: if_splits)
    have le: "flow_remaining f + out_bytes entry \<le> u64_max" if "out_device_id entry = k"
      using sched_inv_flow(7) [OF inv f] outstanding_bytes_entry [OF e inv] that by simp
    show "flow_outstanding_count f' = length (device_entries k (sched_outstanding ?s))"
      "flow_outstanding_count f' \<le> flow_max_outstanding f'"
      "flow_remaining f' + outstanding_bytes k ?s \<le> u64_max"
      using book_settle_outstanding [OF inv e, of k result] sched_inv_flow(5-7) [OF inv f] le f'_eq
      by (auto simp: settle_flow_fields split: if_splits)
  qed
qed

lemma book_settle_inv:
  assumes inv: "sched_inv s" and e: "map_of (sched_outstanding s) t = Some entry"
  shows "sched_inv (book_settle t entry result s)"
proof -
  let ?s = "book_settle t entry result s"
  let ?m = "modify_flow (out_device_id entry) (settle_flow (out_bytes entry) result) s"
  have same: "sched_flows ?s = sched_flows ?m" "sched_controllers ?s = sched_controllers ?m"
    "controller_order ?s = controller_order ?m" "sched_quantum ?s = sched_quantum ?m"
    by (simp_all add: book_settle_def)
  note st = modify_flow_structure [OF inv, of "out_device_id entry", OF same_identity_settle [of _ "out_bytes entry" result]]
  have "flows_wf ?s" "links_wf ?s" "cursors_wf ?s"
    using st unfolding flows_wf_def links_wf_def cursors_wf_def same by blast+
  with book_settle_accounts [OF assms] show ?thesis by (simp add: sched_inv_def)
qed

text \<open>Under the invariant a settlement is refused exactly when the caller's data does not match.\<close>

lemma settle_eq:
  assumes "sched_inv s"
  shows "settle t expected n result s =
    (case map_of (sched_outstanding s) t of
       None \<Rightarrow> (False, s)
     | Some entry \<Rightarrow>
         if out_bytes entry = n \<and> (expected = [] \<or> out_device_id entry = expected)
         then (True, book_settle t entry result s) else (False, s))"
proof (cases "map_of (sched_outstanding s) t")
  case None
  then show ?thesis by (simp add: settle_def)
next
  case (Some entry)
  obtain f where f: "map_of (sched_flows s) (out_device_id entry) = Some f"
    using sched_inv_entry(4) [OF assms Some] by blast
  have "flow_outstanding_count f \<noteq> 0"
    using sched_inv_flow(5) [OF assms f] book_settle_outstanding(2) [OF assms Some, of "out_device_id entry" result]
    by simp
  with Some f show ?thesis by (auto simp: settle_def book_settle_def Let_def)
qed

section \<open>The remaining operations\<close>

lemma flag_change_inv:
  assumes "sched_inv s"
    and "\<And>f. same_identity f (g f) \<and> flow_outstanding_count (g f) = flow_outstanding_count f \<and>
      flow_max_outstanding (g f) = flow_max_outstanding f \<and> flow_remaining (g f) = flow_remaining f"
  shows "sched_inv (modify_flow d g s)" and "flow_balance k (modify_flow d g s) = flow_balance k s"
  by (rule inv_modify_flow [OF assms(1)]; use assms(2) sched_inv_flow(6) [OF assms(1)] in simp)+

lemma retire_inv:
  assumes "sched_inv s" and "retire d s = (ok, s')"
  shows "sched_inv s' \<and> (\<forall>k. flow_balance k s' = flow_balance k s)"
proof -
  let ?g = "\<lambda>f. f\<lparr>flow_retired := True, flow_requested := False\<rparr>"
  have "sched_inv (modify_flow k ?g s)" "flow_balance j (modify_flow k ?g s) = flow_balance j s" for j k
    by (rule flag_change_inv [OF assms(1)]; simp add: same_identity_def)+
  with assms show ?thesis
    using idle_inv [OF idle_signal_change] idle_balance [OF idle_signal_change]
    by (auto simp: retire_def split: option.splits prod.splits)
qed

lemma abandon_request_inv:
  assumes "sched_inv s"
  shows "sched_inv (abandon_request d s) \<and> (\<forall>k. flow_balance k (abandon_request d s) = flow_balance k s)"
proof -
  let ?g = "\<lambda>f. f\<lparr>flow_requested := False\<rparr>"
  have "sched_inv (modify_flow k ?g s)" "flow_balance j (modify_flow k ?g s) = flow_balance j s" for j k
    by (rule flag_change_inv [OF assms]; simp add: same_identity_def)+
  with assms show ?thesis
    using idle_inv [OF idle_signal_change] idle_balance [OF idle_signal_change]
    by (auto simp: abandon_request_def split: option.splits prod.splits)
qed

lemma make_permit_provider_inv:
  assumes "sched_inv s" and "make_permit_provider d n s = (p, s')"
  shows "sched_inv s' \<and> (\<forall>k. flow_balance k s' = flow_balance k s)"
proof (cases "map_of (sched_flows s) d")
  case None
  with assms search_flow_eq [of s d] show ?thesis
    by (simp add: make_permit_provider_def sched_inv_def)
next
  case (Some f)
  let ?g = "\<lambda>f. f\<lparr>flow_provider_attached := True,
    flow_max_outstanding := (if n \<noteq> 0 then n else flow_max_outstanding f)\<rparr>"
  have find: "search_flow d s = Some (d, f)"
    using search_flow_eq [of s d] assms(1) Some by (simp add: sched_inv_def)
  have "sched_inv (modify_flow d ?g s)" "flow_balance k (modify_flow d ?g s) = flow_balance k s"
    if "flow_outstanding_count f = 0" for k
    by (rule inv_modify_flow [OF assms(1)]; use that Some in \<open>simp add: same_identity_def\<close>)+
  with assms find show ?thesis by (auto simp: make_permit_provider_def split: if_splits)
qed

section \<open>Registration\<close>

definition fresh_flow :: "device_flow_spec \<Rightarrow> flow" where
  "fresh_flow spec =
     \<lparr>flow_device_id = spec_device_id spec, flow_controller_id = spec_controller_id spec,
      flow_weight = spec_weight spec, flow_remaining = spec_bytes_remaining spec,
      flow_deficit = 0, flow_outstanding_count = 0,
      flow_max_outstanding = spec_max_outstanding spec, flow_requested = False,
      flow_retired = False, flow_provider_attached = False\<rparr>"

text \<open>The controllers with the new device at the end of its controller's list.\<close>

definition link_device :: "string \<Rightarrow> string \<Rightarrow> (string \<times> controller) list \<Rightarrow> (string \<times> controller) list" where
  "link_device c d ctls =
     alist_modify c (\<lambda>ctl. ctl\<lparr>ctl_flows := ctl_flows ctl @ [d]\<rparr>)
       (if map_of ctls c = None then ctls @ [(c, \<lparr>ctl_id = c, ctl_flows = [], ctl_cursor = 0\<rparr>)] else ctls)"

lemma add_flow_True:
  assumes "add_flow spec s = (True, s')"
  shows "spec_device_id spec \<noteq> []" and "spec_weight spec \<noteq> 0" and "sched_quantum s \<noteq> 0"
    and "map_of (sched_flows s) (spec_device_id spec) = None"
    and "sched_flows s' = sched_flows s @ [(spec_device_id spec, fresh_flow spec)]"
    and "sched_controllers s' = link_device (spec_controller_id spec) (spec_device_id spec) (sched_controllers s)"
    and "controller_order s' = (if map_of (sched_controllers s) (spec_controller_id spec) = None
      then controller_order s @ [spec_controller_id spec] else controller_order s)"
    and "sched_outstanding s' = sched_outstanding s" and "next_token s' = next_token s"
    and "sched_quantum s' = sched_quantum s"
  using assms
  by (auto simp: add_flow_def fresh_flow_def link_device_def modify_controller_def Let_def
      split: if_splits option.splits)

lemma link_device_lookup:
  "map_of (link_device c d ctls) c' =
     (if c' = c then
        Some (case map_of ctls c of
                None \<Rightarrow> \<lparr>ctl_id = c, ctl_flows = [d], ctl_cursor = 0\<rparr>
              | Some ctl \<Rightarrow> ctl\<lparr>ctl_flows := ctl_flows ctl @ [d]\<rparr>)
      else map_of ctls c')"
  by (auto simp: link_device_def map_of_alist_modify map_add_def split: option.splits)

lemma link_device_keys:
  "map fst (link_device c d ctls) = (if map_of ctls c = None then map fst ctls @ [c] else map fst ctls)"
  by (simp add: link_device_def)

lemma device_entries_unknown:
  assumes "sched_inv s" and "map_of (sched_flows s) d = None"
  shows "device_entries d (sched_outstanding s) = []"
proof -
  have "out_device_id entry \<noteq> d" if "(t, entry) \<in> set (sched_outstanding s)" for t entry
  proof -
    have "distinct (map fst (sched_outstanding s))" using assms(1) by (simp add: sched_inv_defs)
    with that have "map_of (sched_outstanding s) t = Some entry" by simp
    then show ?thesis using sched_inv_entry(4) [OF assms(1)] assms(2) by fastforce
  qed
  then show ?thesis by (fastforce simp: device_entries_def filter_empty_conv)
qed

lemma add_flow_lookup:
  assumes "add_flow spec s = (True, s')"
  shows "map_of (sched_flows s') d =
    (if d = spec_device_id spec then Some (fresh_flow spec) else map_of (sched_flows s) d)"
  using add_flow_True(4,5) [OF assms] by (auto simp: map_add_def split: option.splits)

lemma add_flow_links:
  assumes inv: "sched_inv s" and add: "add_flow spec s = (True, s')"
  shows "links_wf s'" and "cursors_wf s'"
proof -
  note new = add_flow_True [OF add] and look = add_flow_lookup [OF add]
  let ?c = "spec_controller_id spec" and ?d = "spec_device_id spec"
  have ctl: "distinct (ctl_flows ctl') \<and> ctl_cursor ctl' < length (ctl_flows ctl') \<and>
      (\<forall>d \<in> set (ctl_flows ctl'). \<exists>f. map_of (sched_flows s') d = Some f \<and> flow_controller_id f = c)"
    if "map_of (sched_controllers s') c = Some ctl'" for c ctl'
  proof -
    have old: "distinct (ctl_flows ctl) \<and> ctl_cursor ctl < length (ctl_flows ctl) \<and> ?d \<notin> set (ctl_flows ctl) \<and>
        (\<forall>d \<in> set (ctl_flows ctl). \<exists>f. map_of (sched_flows s') d = Some f \<and> flow_controller_id f = k)"
      if "map_of (sched_controllers s) k = Some ctl" for k ctl
      using sched_inv_ctl [OF inv that] new(4) look by fastforce
    show ?thesis
    proof (cases "c = ?c")
      case False
      with that new(6) old [of c ctl'] show ?thesis by (simp add: link_device_lookup)
    next
      case True
      with that new(6) have "ctl' = (case map_of (sched_controllers s) ?c of
          None \<Rightarrow> \<lparr>ctl_id = ?c, ctl_flows = [?d], ctl_cursor = 0\<rparr>
        | Some ctl \<Rightarrow> ctl\<lparr>ctl_flows := ctl_flows ctl @ [?d]\<rparr>)"
        by (simp add: link_device_lookup)
      with True old [of ?c] look show ?thesis
        by (auto simp: fresh_flow_def less_SucI split: option.splits)
    qed
  qed
  have "\<exists>ctl. map_of (sched_controllers s') (flow_controller_id f) = Some ctl \<and> d \<in> set (ctl_flows ctl)"
    if "map_of (sched_flows s') d = Some f" for d f
  proof (cases "d = ?d")
    case True
    with that look new(6) show ?thesis
      by (auto simp: link_device_lookup fresh_flow_def split: option.splits)
  next
    case False
    with that look have "map_of (sched_flows s) d = Some f" by simp
    from sched_inv_flow(8) [OF inv this] obtain ctl where
      "map_of (sched_controllers s) (flow_controller_id f) = Some ctl" "d \<in> set (ctl_flows ctl)"
      by blast
    with new(6) show ?thesis by (auto simp: link_device_lookup)
  qed
  moreover have "distinct (map fst (sched_controllers s')) \<and>
      controller_order s' = map fst (sched_controllers s')"
    using inv new(6,7) by (auto simp: sched_inv_defs link_device_keys map_of_eq_None_iff)
  ultimately show "links_wf s'" using ctl unfolding links_wf_def by blast
  show "cursors_wf s'" using ctl unfolding cursors_wf_def by blast
qed

lemma add_flow_inv:
  assumes inv: "sched_inv s" and add: "add_flow spec s = (True, s')"
    and "spec_bytes_remaining spec \<le> u64_max"
  shows "sched_inv s'"
    and "flow_balance d s' =
      (if d = spec_device_id spec then spec_bytes_remaining spec else flow_balance d s)"
proof -
  note new = add_flow_True [OF add] and look = add_flow_lookup [OF add]
  let ?d = "spec_device_id spec"
  note none = device_entries_unknown [OF inv new(4)]
  have ob: "outstanding_bytes k s' = outstanding_bytes k s" for k
    by (simp add: outstanding_bytes_def new(8))
  have zero: "outstanding_bytes ?d s = 0" by (simp add: outstanding_bytes_def none)
  have "flows_wf s'"
    unfolding flows_wf_def
  proof (intro conjI allI impI)
    show "distinct (map fst (sched_flows s'))"
      using sched_inv_distinct(1) [OF inv] new(4) by (auto simp: new(5) map_of_eq_None_iff)
    fix d f assume "map_of (sched_flows s') d = Some f"
    then consider "d = ?d" "f = fresh_flow spec" | "map_of (sched_flows s) d = Some f"
      using look [of d] by (cases "d = ?d") simp_all
    then have "flow_device_id f = d \<and> d \<noteq> [] \<and> flow_weight f \<noteq> 0 \<and> sched_quantum s' \<noteq> 0"
    proof cases
      case 1
      with new(1-3,10) show ?thesis by (simp add: fresh_flow_def)
    next
      case 2
      from sched_inv_flow(1-4) [OF inv this] new(10) show ?thesis by simp
    qed
    then show "flow_device_id f = d" "d \<noteq> []" "flow_weight f \<noteq> 0" "sched_quantum s' \<noteq> 0"
      by blast+
  qed
  moreover have "accounts_wf s'"
    unfolding accounts_wf_def new(8,9)
  proof (intro conjI allI impI)
    show "distinct (map fst (sched_outstanding s))" "next_token s \<le> u64_max"
      using inv by (simp_all add: sched_inv_defs)
  next
    fix t entry assume e: "map_of (sched_outstanding s) t = Some entry"
    show "0 < t" "t \<le> u64_max" "0 < out_bytes entry" using sched_inv_entry(1-3) [OF inv e] .
    show "map_of (sched_flows s') (out_device_id entry) \<noteq> None"
      using sched_inv_entry(4) [OF inv e] look by auto
  next
    fix d f assume "map_of (sched_flows s') d = Some f"
    then consider "d = ?d" "f = fresh_flow spec" | "map_of (sched_flows s) d = Some f"
      using look [of d] by (cases "d = ?d") simp_all
    then have "flow_outstanding_count f = length (device_entries d (sched_outstanding s)) \<and>
        flow_outstanding_count f \<le> flow_max_outstanding f \<and>
        flow_remaining f + outstanding_bytes d s' \<le> u64_max"
    proof cases
      case 1
      with none zero ob assms(3) show ?thesis by (simp add: fresh_flow_def)
    next
      case 2
      from sched_inv_flow(5-7) [OF inv this] ob show ?thesis by simp
    qed
    then show "flow_outstanding_count f = length (device_entries d (sched_outstanding s))"
      "flow_outstanding_count f \<le> flow_max_outstanding f"
      "flow_remaining f + outstanding_bytes d s' \<le> u64_max"
      by blast+
  qed
  ultimately show "sched_inv s'" using add_flow_links [OF inv add] by (simp add: sched_inv_def)
  show "flow_balance d s' =
      (if d = ?d then spec_bytes_remaining spec else flow_balance d s)"
    using look [of d] zero by (auto simp: flow_balance_def ob fresh_flow_def split: option.splits)
qed

lemma add_flow_False: "add_flow spec s = (False, s') \<Longrightarrow> s' = s"
  by (auto simp: add_flow_def Let_def split: if_splits)

section \<open>Runs\<close>

text \<open>
  The effect of an operation on the bytes a device owes: bytes registered, and bytes settled for good,
  transferred or given up after a partial transfer.
\<close>

datatype sched_event = Registered string nat | Settled string nat | Silent

inductive sched_step :: "scheduler \<Rightarrow> sched_event \<Rightarrow> scheduler \<Rightarrow> bool" where
  add: "spec_bytes_remaining spec \<le> u64_max \<Longrightarrow> add_flow spec s = (ok, s') \<Longrightarrow>
    sched_step s (if ok then Registered (spec_device_id spec) (spec_bytes_remaining spec) else Silent) s'"
| next_grant: "next_dispatch e m s = (r, s') \<Longrightarrow> sched_step s Silent s'"
| permit: "acquire_for e d m s = (r, s') \<Longrightarrow> sched_step s Silent s'"
| settled: "settle t expected n result s = (ok, s') \<Longrightarrow>
    sched_step s
      (case map_of (sched_outstanding s) t of
         Some entry \<Rightarrow> if ok \<and> result \<noteq> Not_submitted then Settled (out_device_id entry) n else Silent
       | None \<Rightarrow> Silent) s'"
| released: "sched_step s Silent (release_memory e lease s)"
| retired: "retire d s = (ok, s') \<Longrightarrow> sched_step s Silent s'"
| provider: "make_permit_provider d n s = (p, s') \<Longrightarrow> sched_step s Silent s'"
| timeout: "sched_step s Silent (abandon_request d s)"
| notified: "sched_step s Silent (on_buffer_budget_available s)"
| others: "sched_step s Silent (s\<lparr>sched_budget := Some b\<rparr>)"

fun registered :: "string \<Rightarrow> sched_event \<Rightarrow> nat" where
  "registered d (Registered d' n) = (if d' = d then n else 0)"
| "registered d _ = 0"

fun settled_bytes :: "string \<Rightarrow> sched_event \<Rightarrow> nat" where
  "settled_bytes d (Settled d' n) = (if d' = d then n else 0)"
| "settled_bytes d _ = 0"

inductive sched_run :: "scheduler \<Rightarrow> sched_event list \<Rightarrow> scheduler \<Rightarrow> bool" where
  run_start: "sched_run s [] s"
| run_step: "sched_run s tr s' \<Longrightarrow> sched_step s' ev s'' \<Longrightarrow> sched_run s (tr @ [ev]) s''"

lemma sched_step_settled:
  assumes "sched_inv s" and "settle t expected n result s = (ok, s')"
    and "ev = (case map_of (sched_outstanding s) t of
         Some entry \<Rightarrow> if ok \<and> result \<noteq> Not_submitted then Settled (out_device_id entry) n else Silent
       | None \<Rightarrow> Silent)"
  shows "sched_inv s' \<and> (\<forall>d. flow_balance d s' + settled_bytes d ev = flow_balance d s + registered d ev)"
proof (cases "map_of (sched_outstanding s) t")
  case None
  with assms show ?thesis by (simp add: settle_eq)
next
  case (Some entry)
  note bal = book_settle_balance [OF assms(1) Some, of _ result]
  show ?thesis
  proof (cases "out_bytes entry = n \<and> (expected = [] \<or> out_device_id entry = expected)")
    case True
    with assms Some have s': "ok" "s' = book_settle t entry result s" by (auto simp: settle_eq)
    with True Some assms(3) have "settled_bytes d ev =
        (if out_device_id entry = d \<and> result \<noteq> Not_submitted then out_bytes entry else 0)"
      "registered d ev = 0" for d by auto
    with bal s' book_settle_inv [OF assms(1) Some] show ?thesis by simp
  next
    case False
    with assms Some have "\<not> ok" "s' = s" by (auto simp: settle_eq)
    with assms Some show ?thesis by simp
  qed
qed

lemma sched_step_inv:
  "sched_step s ev s' \<Longrightarrow> sched_inv s \<Longrightarrow>
     sched_inv s' \<and> (\<forall>d. flow_balance d s' + settled_bytes d ev = flow_balance d s + registered d ev)"
proof (induction rule: sched_step.induct)
  case (add spec s ok s')
  have unknown: "flow_balance (spec_device_id spec) s = 0" if "ok"
    using add_flow_True(4) [of spec s s'] add that by (simp add: flow_balance_def)
  show ?case
  proof (cases ok)
    case True
    with add add_flow_inv [OF add.prems, of spec s'] unknown show ?thesis by simp
  next
    case False
    with add add_flow_False [of spec s s'] show ?thesis by simp
  qed
next
  case (next_grant e m s r s')
  with next_dispatch_served [OF next_grant.prems, of m e] show ?case by (simp add: served_def)
next
  case (permit e d m s r s')
  with acquire_for_served [OF permit.prems permit.hyps] request_flow_inv [OF permit.prems]
  show ?case by (auto simp: served_def)
next
  case (settled t expected n result s ok s')
  then show ?case using sched_step_settled by blast
next
  case (released s e lease)
  then show ?case using idle_inv idle_balance idle_release_memory by fastforce
next
  case (retired d s ok s')
  then show ?case using retire_inv by simp
next
  case (provider d n s p s')
  then show ?case using make_permit_provider_inv by simp
next
  case (timeout s d)
  then show ?case using abandon_request_inv by simp
next
  case (notified s)
  then show ?case
    using idle_inv idle_balance idle_signal_change by (fastforce simp: on_buffer_budget_available_def)
next
  case (others s b)
  then show ?case using idle_inv idle_balance idle_budget(2) by fastforce
qed

lemma new_scheduler_inv: "sched_inv (new_scheduler alive self b q)"
  by (simp add: sched_inv_defs new_scheduler_def)

lemma sched_run_inv:
  "sched_run s tr s' \<Longrightarrow> sched_inv s \<Longrightarrow>
     sched_inv s' \<and> (\<forall>d. flow_balance d s' + sum_list (map (settled_bytes d) tr) =
       flow_balance d s + sum_list (map (registered d) tr))"
proof (induction rule: sched_run.induct)
  case (run_start s)
  then show ?case by simp
next
  case (run_step s tr s' ev s'')
  then have "sched_inv s'" by blast
  note step = sched_step_inv [OF run_step.hyps(2) this]
  show ?case
  proof (intro conjI allI)
    show "sched_inv s''" using step by blast
    fix d
    have "flow_balance d s'' + settled_bytes d ev = flow_balance d s' + registered d ev"
      using step by blast
    moreover have "flow_balance d s' + sum_list (map (settled_bytes d) tr) =
        flow_balance d s + sum_list (map (registered d) tr)"
      using run_step by blast
    ultimately show "flow_balance d s'' + sum_list (map (settled_bytes d) (tr @ [ev])) =
        flow_balance d s + sum_list (map (registered d) (tr @ [ev]))"
      by simp
  qed
qed

section \<open>Properties\<close>

lemma remaining_balance:
  assumes "sched_inv s"
  shows "remaining d s + outstanding_bytes d s = flow_balance d s"
proof (cases "map_of (sched_flows s) d")
  case None
  with device_entries_unknown [OF assms None] assms search_flow_eq [of s d] show ?thesis
    by (simp add: remaining_def outstanding_bytes_def flow_balance_def sched_inv_def)
next
  case (Some f)
  with assms search_flow_eq [of s d] show ?thesis
    by (simp add: remaining_def flow_balance_def sched_inv_def)
qed

text \<open>
  C4. Conservation of bytes. After any sequence of operations of a scheduler, whatever the other users
  of the budget do and however operations fail, the bytes a device still has to be granted, the bytes
  it has in flight and the bytes settled for good add up to the bytes registered for it; each flow's
  counter is the number of its outstanding grants, within its bound; and the tokens of the
  outstanding grants are distinct and never zero.
\<close>

theorem scheduler_conserves_bytes:
  assumes "sched_run (new_scheduler alive self budget quantum) tr s"
  shows "remaining d s + outstanding_bytes d s + sum_list (map (settled_bytes d) tr) =
      sum_list (map (registered d) tr)
    \<and> (\<forall>f. map_of (sched_flows s) d = Some f \<longrightarrow>
        flow_outstanding_count f = length (device_entries d (sched_outstanding s)) \<and>
        flow_outstanding_count f \<le> flow_max_outstanding f)
    \<and> distinct (map fst (sched_outstanding s)) \<and> 0 \<notin> set (map fst (sched_outstanding s))"
proof -
  let ?s0 = "new_scheduler alive self budget quantum"
  note run = sched_run_inv [OF assms new_scheduler_inv]
  then have inv: "sched_inv s" by blast
  have "flow_balance d ?s0 = 0" by (simp add: flow_balance_def new_scheduler_def)
  with run remaining_balance [OF inv, of d]
  have "remaining d s + outstanding_bytes d s + sum_list (map (settled_bytes d) tr) =
      sum_list (map (registered d) tr)" by simp
  moreover have "distinct (map fst (sched_outstanding s))" using inv by (simp add: sched_inv_defs)
  moreover have "0 \<notin> set (map fst (sched_outstanding s))"
    using sched_inv_entry(1) [OF inv, of 0] by (force dest: weak_map_of_SomeI)
  ultimately show ?thesis using sched_inv_flow(5,6) [OF inv] by blast
qed

text \<open>
  C28. Soundness of grants. In every state a scheduler can reach, a dispatch of \<^verbatim>\<open>next\<close> is for a flow that
  is eligible (not retired, with bytes left, below its bound, with a request if a provider is
  attached); its size is positive, within the caller's maximum and the flow's remaining bytes, and
  equal to the size of its lease; its token was unused. No table lookup throws, and the token search
  ends unless all tokens are outstanding. A refused or failing call changes no account.
\<close>

theorem next_dispatch_sound:
  assumes "sched_run (new_scheduler alive self budget quantum) tr s"
    and "next_dispatch e maximum_bytes s = (result, s')"
  shows "case result of
      Inr (Some g) \<Rightarrow> granted_from s maximum_bytes [] g s'
    | Inr None \<Rightarrow> idle s s'
    | Inl Bad_alloc \<Rightarrow> idle s s'
    | Inl Out_of_range \<Rightarrow> False
    | Inl Token_search_diverges \<Rightarrow> u64_max \<le> outstanding_count s"
proof -
  have "sched_inv s" using sched_run_inv [OF assms(1) new_scheduler_inv] by blast
  from next_dispatch_served [OF this, of maximum_bytes e] assms(2)
  show ?thesis
    by (auto simp: served_def outstanding_count_def split: sum.splits option.splits sched_error.splits)
qed

text \<open>
  C29. Settlement. In every reachable state a settlement is accepted exactly when its token is
  outstanding with the same size and, if one is given, the same device. An accepted one removes the
  entry, so that a second settlement of the token is refused; it gives the bytes back to the flow,
  without saturation, only if nothing was submitted, and retires the flow exactly when the outcome is
  partial or unknown; every other flow is unchanged. A refused one changes nothing.
\<close>

theorem settle_exact:
  assumes "sched_run (new_scheduler alive self budget quantum) tr s"
    and "settle token expected_device bytes result s = (ok, s')"
  shows "(ok \<longleftrightarrow> (\<exists>entry. map_of (sched_outstanding s) token = Some entry \<and> out_bytes entry = bytes \<and>
        (expected_device = [] \<or> out_device_id entry = expected_device)))
    \<and> (\<not> ok \<longrightarrow> s' = s)
    \<and> (ok \<longrightarrow>
        sched_outstanding s' = alist_erase token (sched_outstanding s) \<and>
        \<not> fst (settle token expected_device bytes result s') \<and>
        (\<exists>entry f f'. map_of (sched_outstanding s) token = Some entry \<and>
           map_of (sched_flows s) (out_device_id entry) = Some f \<and>
           map_of (sched_flows s') (out_device_id entry) = Some f' \<and>
           flow_remaining f' = flow_remaining f + (if result = Not_submitted then bytes else 0) \<and>
           flow_outstanding_count f' + 1 = flow_outstanding_count f \<and>
           flow_retired f' = (flow_retired f \<or> result = Partial_or_unknown) \<and>
           (\<forall>d. d \<noteq> out_device_id entry \<longrightarrow> map_of (sched_flows s') d = map_of (sched_flows s) d)))"
proof (cases "\<exists>entry. map_of (sched_outstanding s) token = Some entry \<and> out_bytes entry = bytes \<and>
        (expected_device = [] \<or> out_device_id entry = expected_device)")
  case True
  then obtain entry where e: "map_of (sched_outstanding s) token = Some entry"
    and match: "out_bytes entry = bytes" "expected_device = [] \<or> out_device_id entry = expected_device"
    by blast
  have inv: "sched_inv s" using sched_run_inv [OF assms(1) new_scheduler_inv] by blast
  obtain f where f: "map_of (sched_flows s) (out_device_id entry) = Some f"
    using sched_inv_entry(4) [OF inv e] by blast
  have s': "ok" "s' = book_settle token entry result s"
    using assms(2) e match by (simp_all add: settle_eq [OF inv])
  have le: "flow_remaining f + bytes \<le> u64_max"
    using sched_inv_flow(7) [OF inv f] outstanding_bytes_entry [OF e inv] match by simp
  have count: "flow_outstanding_count f \<noteq> 0"
    using sched_inv_flow(5) [OF inv f]
      book_settle_outstanding(2) [OF inv e, of "out_device_id entry" result] by simp
  have out: "sched_outstanding s' = alist_erase token (sched_outstanding s)"
    by (simp add: s' book_settle_def)
  then have again: "\<not> fst (settle token expected_device bytes result s')"
    by (simp add: settle_def map_of_alist_erase)
  have "map_of (sched_flows s') (out_device_id entry) = Some (settle_flow bytes result f)"
    using f match by (simp add: s' book_settle_lookup)
  moreover have "flow_remaining (settle_flow bytes result f) =
      flow_remaining f + (if result = Not_submitted then bytes else 0)"
    "flow_outstanding_count (settle_flow bytes result f) + 1 = flow_outstanding_count f"
    "flow_retired (settle_flow bytes result f) = (flow_retired f \<or> result = Partial_or_unknown)"
    using settle_flow_fields [OF le] count by simp_all
  moreover have "\<forall>d. d \<noteq> out_device_id entry \<longrightarrow> map_of (sched_flows s') d = map_of (sched_flows s) d"
    by (simp add: s' book_settle_lookup)
  ultimately show ?thesis using True s'(1) out again e f by blast
next
  case False
  have inv: "sched_inv s" using sched_run_inv [OF assms(1) new_scheduler_inv] by blast
  have "ok = False \<and> s' = s"
    using assms(2) False by (auto simp: settle_eq [OF inv] split: option.splits if_splits)
  with False show ?thesis by blast
qed

end
