(* ===== verification/Scheduler_Progress.thy ===== *)
theory Scheduler_Progress
  imports Scheduler_Runs
begin

text \<open>
  Work conservation of the controller scheduler: when no other thread uses the budget meanwhile, the
  rotation over controllers and flows finds an eligible flow whenever there is one, wherever the
  cursors stand. The section on waiting describes \<^verbatim>\<open>wait_for_ready\<close>. The last section holds the
  concrete runs that instantiate the properties of the scheduler.
\<close>

definition quiet_env :: budget_env where
  "quiet_env = \<lparr>env_before = (\<lambda>_ b. b), env_alive = (\<lambda>_. True), env_allocates = (\<lambda>_ _. True)\<rparr>"

definition flow_ready :: "scheduler \<Rightarrow> string \<Rightarrow> bool" where
  "flow_ready s d = (case map_of (sched_flows s) d of None \<Rightarrow> False | Some f \<Rightarrow> \<not> flow_skipped f)"

text \<open>A round trip of a cursor visits every position.\<close>

lemma rotation_covers:
  assumes "cursor < n" and "j < (n :: nat)"
  shows "\<exists>i < n. (cursor + i) mod n = j"
proof (cases "cursor \<le> j")
  case True
  with assms show ?thesis by (intro exI [of _ "j - cursor"]) simp
next
  case False
  with assms show ?thesis by (intro exI [of _ "n + j - cursor"]) simp
qed

section \<open>One flow\<close>

text \<open>A scheduler whose budget has room, at a moment when a grant is possible.\<close>

definition can_grant :: "scheduler \<Rightarrow> bool" where
  "can_grant s \<longleftrightarrow> sched_inv s \<and> length (sched_outstanding s) < u64_max \<and>
     (\<exists>b. sched_budget s = Some b \<and> budget_valid b \<and> 0 < budget_available b)"

text \<open>States that differ in the cursors of controllers and in the number of budget accesses only.\<close>

definition rotated :: "scheduler \<Rightarrow> scheduler \<Rightarrow> bool" where
  "rotated s s' \<longleftrightarrow> idle s s' \<and> sched_flows s' = sched_flows s \<and> sched_budget s' = sched_budget s \<and>
     controller_cursor s' = controller_cursor s"

lemma rotated_refl [simp]: "rotated s s"
  by (simp add: rotated_def)

lemma rotated_trans [trans]: "rotated s t \<Longrightarrow> rotated t u \<Longrightarrow> rotated s u"
  using idle_trans by (auto simp: rotated_def)

lemma rotated_can_grant: "rotated s s' \<Longrightarrow> can_grant s \<Longrightarrow> can_grant s'"
  using idle_inv by (fastforce simp: rotated_def can_grant_def idle_def)

lemma rotated_ready: "rotated s s' \<Longrightarrow> flow_ready s' d = flow_ready s d"
  by (simp add: rotated_def flow_ready_def)

lemma available_now_quiet:
  assumes "sched_budget s = Some b" and "available_now quiet_env s = (a, s')"
  shows "a = budget_available b" and "rotated s s'"
proof -
  show "a = budget_available b"
    using assms by (auto simp: available_now_def access_budget_def quiet_env_def Let_def)
  have "idle s s'" using idle_available_now [OF assms(2)] .
  with assms show "rotated s s'"
    by (auto simp: available_now_def access_budget_def quiet_env_def rotated_def Let_def)
qed

lemma acquire_memory_quiet:
  assumes "sched_budget s = Some b" and "budget_valid b" and "0 < n" and "n \<le> budget_available b"
  shows "fst (acquire_memory quiet_env n s) = Acquired (Some (make_lease_storage n))"
proof -
  from assms budget.acquire_available [of b n] have "budget_fits b n"
    by (auto simp: acquire_bytes_eq split: if_splits)
  with assms show ?thesis
    by (simp add: acquire_memory_def access_budget_def quiet_env_def try_acquire_cases Let_def)
qed

lemma refill_deficit:
  assumes "q \<noteq> 0" and "flow_weight f \<noteq> 0"
  shows "0 < flow_deficit (refill q f)"
  using assms by (auto simp: refill_def saturating_add_def saturating_multiply_def)

lemma serve_flow_quiet:
  assumes can: "can_grant s" and f: "map_of (sched_flows s) d = Some f" and ok: "\<not> flow_skipped f"
    and m: "0 < m"
  shows "\<exists>g s'. serve_flow quiet_env c d f m s = Leave (Inr (Some g), s')"
proof -
  from can obtain b where b: "sched_budget s = Some b" "budget_valid b" "0 < budget_available b"
    and inv: "sched_inv s" and room: "length (sched_outstanding s) < u64_max"
    by (auto simp: can_grant_def)
  obtain a s1 where a: "available_now quiet_env s = (a, s1)" by force
  note quiet = available_now_quiet [OF b(1) a]
  define q where "q = sched_quantum s1"
  define s2 where "s2 = modify_flow d (refill q) s1"
  define ds where "ds = min m (min a (min (flow_remaining f) u64_max))"
  define n where "n = min (flow_deficit (refill q f)) ds"
  have "q \<noteq> 0" using sched_inv_flow(4) [OF inv f] quiet(2) by (simp add: q_def rotated_def idle_def)
  moreover have "0 < flow_remaining f" using ok by (simp add: flow_skipped_def)
  moreover have "ds \<le> a" by (simp add: ds_def)
  ultimately have ds: "0 < ds" and n: "0 < n" "n \<le> budget_available b"
    using refill_deficit [of q f] sched_inv_flow(3) [OF inv f] quiet(1) b(3) m
    by (simp_all add: ds_def n_def)
  have b2: "sched_budget s2 = Some b" using quiet(2) b(1) by (simp add: s2_def rotated_def)
  obtain s3 where s3: "acquire_memory quiet_env n s2 = (Acquired (Some (make_lease_storage n)), s3)"
    using acquire_memory_quiet [OF b2 b(2) n] by (metis prod.collapse)
  have i3: "idle s s3"
  proof -
    have "idle s s1" using quiet(2) by (simp add: rotated_def)
    moreover have "idle s1 s2"
      unfolding s2_def using idle_refill sched_inv_distinct(1) [OF idle_inv [OF \<open>idle s s1\<close> inv]] .
    ultimately show ?thesis using idle_acquire_memory [OF s3] idle_trans by blast
  qed
  have "allocate_token s3 \<noteq> None"
    using allocate_token_ends [of s3] idle_inv [OF i3 inv] i3 room
    by (simp add: idle_def sched_inv_defs)
  then obtain t s4 where "allocate_token s3 = Some (t, s4)" by auto
  then have "\<exists>g s'. commit_grant c d (refill q f) n (Some (make_lease_storage n)) s3 = (Inr (Some g), s')"
    by (simp add: commit_grant_def Let_def)
  moreover have "a \<noteq> 0" using quiet(1) b(3) by simp
  then have "serve_flow quiet_env c d f m s =
      Leave (commit_grant c d (refill q f) n (Some (make_lease_storage n)) s3)"
    using \<open>a \<noteq> 0\<close> ds n(1) s3
    by (simp add: serve_flow_def a Let_def flip: q_def s2_def ds_def n_def)
  ultimately show ?thesis by auto
qed

section \<open>One controller\<close>

definition cursor_device :: "controller \<Rightarrow> nat \<Rightarrow> string" where
  "cursor_device ctl i = ctl_flows ctl ! ((ctl_cursor ctl + i) mod length (ctl_flows ctl))"

lemma attempt_quiet:
  assumes can: "can_grant s" and ctl: "map_of (sched_controllers s) c = Some ctl" and m: "0 < m"
  shows "if flow_ready s (cursor_device ctl 0)
    then \<exists>g s'. controller_attempt quiet_env c m [] s = Leave (Inr (Some g), s')
    else \<exists>s'. controller_attempt quiet_env c m [] s = Next_attempt s' \<and> rotated s s' \<and>
      map_of (sched_controllers s') c = Some (advance_cursor ctl)"
proof -
  from can have inv: "sched_inv s" by (simp add: can_grant_def)
  have lt: "ctl_cursor ctl < length (ctl_flows ctl)" using sched_inv_ctl(2) [OF inv ctl] .
  define s1 where "s1 = modify_controller c wrap_cursor s"
  have i1: "idle s s1"
    unfolding s1_def using idle_wrap_cursor sched_inv_distinct(2) [OF inv] by blast
  have r1: "rotated s s1" using i1 by (simp add: rotated_def s1_def modify_controller_def)
  note can1 = rotated_can_grant [OF r1 can]
  have ctl1: "map_of (sched_controllers s1) c = Some ctl"
    using ctl lt by (simp add: s1_def modify_controller_def map_of_alist_modify wrap_cursor_def)
  define d where "d = ctl_flows ctl ! ctl_cursor ctl"
  have d: "d = cursor_device ctl 0" using lt by (simp add: d_def cursor_device_def)
  obtain f where f: "map_of (sched_flows s1) d = Some f"
    using sched_inv_ctl(3) [OF idle_inv [OF i1 inv] ctl1, of d] lt by (auto simp: d_def)
  have f0: "map_of (sched_flows s) d = Some f" using f r1 by (simp add: rotated_def)
  have "rotated s1 (modify_controller c advance_cursor s1)"
    using idle_advance_cursor [OF sched_inv_distinct(2) [OF idle_inv [OF i1 inv]]]
    by (simp add: rotated_def modify_controller_def)
  then have adv: "rotated s (modify_controller c advance_cursor s1)" using r1 rotated_trans by blast
  have at: "controller_attempt quiet_env c m [] s =
      (if flow_skipped f then Next_attempt (modify_controller c advance_cursor s1)
       else serve_flow quiet_env c d f m s1)"
    by (simp add: controller_attempt_def Let_def ctl1 f flip: s1_def d_def)
  show ?thesis
    using at adv serve_flow_quiet [OF can1 f _ m] f0 d ctl1
    by (auto simp: flow_ready_def modify_controller_def map_of_alist_modify)
qed

lemma cursor_device_advance:
  "cursor_device (advance_cursor ctl) i = cursor_device ctl (Suc i)"
  by (simp add: cursor_device_def advance_cursor_def mod_add_left_eq)

lemma controller_loop_quiet:
  assumes "can_grant s" and "map_of (sched_controllers s) c = Some ctl" and "0 < m"
  shows "if \<exists>i < n. flow_ready s (cursor_device ctl i)
    then \<exists>g s'. controller_loop n quiet_env c m [] s = (Inr (Some g), s')
    else \<exists>s'. controller_loop n quiet_env c m [] s = (Inr None, s') \<and> rotated s s'"
  using assms(1,2)
proof (induction n arbitrary: s ctl)
  case 0
  then show ?case by simp
next
  case (Suc n)
  note at = attempt_quiet [OF Suc.prems assms(3)]
  show ?case
  proof (cases "flow_ready s (cursor_device ctl 0)")
    case True
    with at show ?thesis by auto
  next
    case False
    with at obtain s1 where s1: "controller_attempt quiet_env c m [] s = Next_attempt s1" "rotated s s1"
      "map_of (sched_controllers s1) c = Some (advance_cursor ctl)" by auto
    have ready: "(\<exists>i < n. flow_ready s1 (cursor_device (advance_cursor ctl) i)) \<longleftrightarrow>
        (\<exists>i < Suc n. flow_ready s (cursor_device ctl i))"
      using False rotated_ready [OF s1(2)] less_Suc_eq_0_disj
      by (auto simp: cursor_device_advance)
    show ?thesis
      using Suc.IH [OF rotated_can_grant [OF s1(2) Suc.prems(1)] s1(3)] rotated_trans [OF s1(2)]
      unfolding ready by (auto simp: s1(1) split: if_splits)
  qed
qed

lemma next_for_controller_quiet:
  assumes can: "can_grant s" and ctl: "map_of (sched_controllers s) c = Some ctl" and "0 < m"
  shows "if \<exists>d \<in> set (ctl_flows ctl). flow_ready s d
    then \<exists>g s'. next_for_controller quiet_env c m [] s = (Inr (Some g), s')
    else \<exists>s'. next_for_controller quiet_env c m [] s = (Inr None, s') \<and> rotated s s'"
proof -
  from can obtain b where b: "sched_budget s = Some b" "0 < budget_available b"
    and inv: "sched_inv s" by (auto simp: can_grant_def)
  obtain a s1 where a: "available_now quiet_env s = (a, s1)" by force
  note quiet = available_now_quiet [OF b(1) a]
  have lt: "ctl_cursor ctl < length (ctl_flows ctl)" using sched_inv_ctl(2) [OF inv ctl] .
  have same: "sched_controllers s1 = sched_controllers s"
    using a by (auto simp: available_now_def access_budget_def Let_def)
  have ready: "(\<exists>i < length (ctl_flows ctl). flow_ready s1 (cursor_device ctl i)) \<longleftrightarrow>
      (\<exists>d \<in> set (ctl_flows ctl). flow_ready s d)" (is "?L \<longleftrightarrow> ?R")
  proof
    show "?L \<Longrightarrow> ?R"
      using lt rotated_ready [OF quiet(2)] by (auto simp: cursor_device_def intro!: bexI nth_mem mod_less_divisor)
    assume ?R
    then obtain j where "j < length (ctl_flows ctl)" "flow_ready s (ctl_flows ctl ! j)"
      by (auto simp: in_set_conv_nth)
    with rotation_covers [OF lt] rotated_ready [OF quiet(2)] show ?L by (auto simp: cursor_device_def)
  qed
  have "next_for_controller quiet_env c m [] s = controller_loop (length (ctl_flows ctl)) quiet_env c m [] s1"
    using ctl lt quiet(1) b(2) by (auto simp: next_for_controller_def a Let_def)
  with controller_loop_quiet [OF rotated_can_grant [OF quiet(2) can], of c ctl m "length (ctl_flows ctl)"]
  show ?thesis
    using ctl same assms(3) rotated_trans [OF quiet(2)] unfolding ready
    by (auto split: if_splits)
qed

section \<open>All controllers\<close>

definition controller_ready :: "scheduler \<Rightarrow> string \<Rightarrow> bool" where
  "controller_ready s c =
     (case map_of (sched_controllers s) c of
        None \<Rightarrow> False | Some ctl \<Rightarrow> list_ex (flow_ready s) (ctl_flows ctl))"

lemma rotated_controller_ready:
  assumes "rotated s s'"
  shows "controller_ready s' c = controller_ready s c"
proof -
  have "idle s s'" using assms by (simp add: rotated_def)
  note same = idle_ctl [OF this, of c]
  show ?thesis
  proof (cases "map_of (sched_controllers s) c")
    case None
    with same show ?thesis by (simp add: controller_ready_def)
  next
    case (Some ctl)
    with idle_ctl_Some' [OF \<open>idle s s'\<close>] obtain ctl' where
      "map_of (sched_controllers s') c = Some ctl'" "ctl_flows ctl' = ctl_flows ctl" by blast
    with Some rotated_ready [OF assms] show ?thesis by (simp add: controller_ready_def list_ex_iff)
  qed
qed

lemma move_cursor:
  assumes "can_grant s"
  shows "can_grant (s\<lparr>controller_cursor := k\<rparr>)"
    and "flow_ready (s\<lparr>controller_cursor := k\<rparr>) d = flow_ready s d"
    and "controller_ready (s\<lparr>controller_cursor := k\<rparr>) c = controller_ready s c"
proof -
  show "can_grant (s\<lparr>controller_cursor := k\<rparr>)"
    using assms idle_inv [OF idle_budget(3)] by (simp add: can_grant_def)
  have fr: "flow_ready (s\<lparr>controller_cursor := k\<rparr>) d' = flow_ready s d'" for d'
    by (simp add: flow_ready_def)
  from fr show "flow_ready (s\<lparr>controller_cursor := k\<rparr>) d = flow_ready s d" .
  from fr have "flow_ready (s\<lparr>controller_cursor := k\<rparr>) = flow_ready s" by blast
  then show "controller_ready (s\<lparr>controller_cursor := k\<rparr>) c = controller_ready s c"
    by (simp add: controller_ready_def split: option.split)
qed

definition rotation_controller :: "scheduler \<Rightarrow> nat \<Rightarrow> string" where
  "rotation_controller s i =
     controller_order s !
       (((if controller_cursor s \<ge> length (controller_order s) then 0 else controller_cursor s) + i)
        mod length (controller_order s))"

lemma next_loop_quiet:
  assumes "can_grant s" and "controller_order s \<noteq> []" and m: "0 < m"
  shows "if \<exists>i < n. controller_ready s (rotation_controller s i)
    then \<exists>g s'. next_loop n quiet_env m s = (Inr (Some g), s')
    else \<exists>s'. next_loop n quiet_env m s = (Inr None, s')"
  using assms(1,2)
proof (induction n arbitrary: s)
  case 0
  then show ?case by simp
next
  case (Suc n)
  define k where "k = (if controller_cursor s \<ge> length (controller_order s) then 0 else controller_cursor s)"
  define c where "c = controller_order s ! k"
  define s1 where "s1 = s\<lparr>controller_cursor := (k + 1) mod length (controller_order s)\<rparr>"
  have k: "k < length (controller_order s)" using Suc.prems(2) by (auto simp: k_def)
  have inv: "sched_inv s" using Suc.prems(1) by (simp add: can_grant_def)
  note moved = move_cursor [OF Suc.prems(1), of "(k + 1) mod length (controller_order s)", folded s1_def]
  obtain ctl where ctl: "map_of (sched_controllers s) c = Some ctl"
    using controller_order_nth [OF inv k] by (auto simp: c_def)
  then have ctl1: "map_of (sched_controllers s1) c = Some ctl" by (simp add: s1_def)
  obtain r s2 where r: "next_for_controller quiet_env c m [] s1 = (r, s2)" by force
  have loop: "next_loop (Suc n) quiet_env m s =
      (if r \<noteq> Inr None then (r, s2) else next_loop n quiet_env m s2)"
    using ctl r by (auto simp: Let_def c_def k_def s1_def)
  have here: "rotation_controller s 0 = c" using k by (simp add: rotation_controller_def c_def k_def)
  have ready: "controller_ready s c \<longleftrightarrow> (\<exists>d \<in> set (ctl_flows ctl). flow_ready s1 d)"
    using ctl moved(2) by (simp add: controller_ready_def list_ex_iff)
  note quiet = next_for_controller_quiet [OF moved(1) ctl1 m]
  show ?case
  proof (cases "controller_ready s c")
    case True
    with quiet r ready loop here show ?thesis by auto
  next
    case False
    with quiet r ready have none: "r = Inr None" and r2: "rotated s1 s2" by (auto split: if_splits)
    have order2: "controller_order s2 = controller_order s" and
      cur2: "controller_cursor s2 = (k + 1) mod length (controller_order s)"
      using r2 by (simp_all add: rotated_def idle_def s1_def)
    have shift: "rotation_controller s2 i = rotation_controller s (Suc i)" for i
      using Suc.prems(2) mod_less_divisor [of "length (controller_order s)" "Suc k"]
      by (simp add: rotation_controller_def order2 cur2 mod_add_left_eq del: mod_less_divisor flip: k_def)
    have "(\<exists>i < n. controller_ready s2 (rotation_controller s2 i)) \<longleftrightarrow>
        (\<exists>i < Suc n. controller_ready s (rotation_controller s i))"
      using False here rotated_controller_ready [OF r2] moved(3) less_Suc_eq_0_disj
      by (auto simp: shift)
    with Suc.IH [OF rotated_can_grant [OF r2 moved(1)]] Suc.prems(2) order2 loop none
    show ?thesis by simp
  qed
qed

lemma some_controller_ready:
  assumes "sched_inv s"
  shows "(\<exists>i < length (controller_order s). controller_ready s (rotation_controller s i)) \<longleftrightarrow>
    (\<exists>d. flow_ready s d)" (is "?L \<longleftrightarrow> ?R")
proof
  show "?L \<Longrightarrow> ?R"
    by (auto simp: controller_ready_def list_ex_iff split: option.splits)
  assume ?R
  then obtain d f where f: "map_of (sched_flows s) d = Some f" and ready: "flow_ready s d"
    by (auto simp: flow_ready_def split: option.splits)
  obtain ctl where ctl: "map_of (sched_controllers s) (flow_controller_id f) = Some ctl"
    and d: "d \<in> set (ctl_flows ctl)"
    using sched_inv_flow(8) [OF assms f] by blast
  let ?c = "flow_controller_id f" and ?n = "length (controller_order s)"
  have cr: "controller_ready s ?c" using ctl d ready by (auto simp: controller_ready_def list_ex_iff)
  have "controller_order s = map fst (sched_controllers s)" using assms by (simp add: sched_inv_defs)
  then have "?c \<in> set (controller_order s)" using map_of_SomeD [OF ctl] by force
  then obtain j where j: "j < ?n" "controller_order s ! j = ?c" by (auto simp: in_set_conv_nth)
  let ?k = "if controller_cursor s \<ge> ?n then 0 else controller_cursor s"
  have "?k < ?n" using j(1) by (cases "controller_order s") auto
  from rotation_covers [OF this j(1)] obtain i where "i < ?n" "(?k + i) mod ?n = j" by blast
  with j cr show ?L by (auto simp: rotation_controller_def)
qed

lemma can_grant_order:
  assumes "sched_inv s" and "controller_order s = []"
  shows "\<not> flow_ready s d"
proof
  assume "flow_ready s d"
  then obtain f where "map_of (sched_flows s) d = Some f"
    by (auto simp: flow_ready_def split: option.splits)
  from sched_inv_flow(8) [OF assms(1) this] have "sched_controllers s \<noteq> []" by auto
  moreover have "controller_order s = map fst (sched_controllers s)"
    using assms(1) by (simp add: sched_inv_defs)
  ultimately show False using assms(2) by simp
qed

lemma next_loop_exhausted:
  assumes "sched_budget s = Some b" and "budget_available b = 0" and "sched_inv s"
    and "controller_order s \<noteq> []"
  shows "\<exists>s'. next_loop n quiet_env m s = (Inr None, s')"
  using assms(1,3,4)
proof (induction n arbitrary: s)
  case 0
  then show ?case by simp
next
  case (Suc n)
  define k where "k = (if controller_cursor s \<ge> length (controller_order s) then 0 else controller_cursor s)"
  define c where "c = controller_order s ! k"
  define s1 where "s1 = s\<lparr>controller_cursor := (k + 1) mod length (controller_order s)\<rparr>"
  have k: "k < length (controller_order s)" using Suc.prems(3) by (auto simp: k_def)
  obtain ctl where ctl: "map_of (sched_controllers s) c = Some ctl"
    using controller_order_nth [OF Suc.prems(2) k] by (auto simp: c_def)
  then have ctl1: "map_of (sched_controllers s1) c = Some ctl" by (simp add: s1_def)
  obtain a s2 where a: "available_now quiet_env s1 = (a, s2)" by force
  have b1: "sched_budget s1 = Some b" using Suc.prems(1) by (simp add: s1_def)
  note quiet = available_now_quiet [OF b1 a]
  obtain s3 where s3: "next_for_controller quiet_env c m [] s1 = (Inr None, s3)" "s3 = s1 \<or> s3 = s2"
    using ctl1 quiet(1) assms(2) by (cases "ctl_flows ctl = []") (auto simp: next_for_controller_def a Let_def)
  have i: "idle s s3" and b3: "sched_budget s3 = Some b"
    using s3(2) quiet(2) b1 idle_trans [of s s1] by (auto simp: rotated_def s1_def)
  have "next_loop (Suc n) quiet_env m s = next_loop n quiet_env m s3"
    using ctl s3(1) by (auto simp: Let_def c_def k_def s1_def)
  with Suc.IH [OF b3 idle_inv [OF i Suc.prems(2)]] i Suc.prems(3) show ?case by (simp add: idle_def)
qed

section \<open>Work conservation\<close>

text \<open>
  C16. Work conservation. In a reachable state with room for another token, while nobody else uses the
  budget and allocations succeed, \<^verbatim>\<open>next\<close> with a positive maximum returns a dispatch exactly when the
  budget has a byte available and some flow, on whatever controller and wherever the cursors stand, is
  eligible; it returns nothing otherwise, and never throws.
\<close>

theorem next_dispatch_work_conserving:
  assumes "sched_run (new_scheduler alive self budget quantum) tr s" and "sched_budget s = Some b"
    and "budget_valid b" and "outstanding_count s < u64_max" and "0 < maximum_bytes"
  shows "if 0 < budget_available b \<and> (\<exists>d. flow_ready s d)
    then \<exists>g s'. next_dispatch quiet_env maximum_bytes s = (Inr (Some g), s')
    else \<exists>s'. next_dispatch quiet_env maximum_bytes s = (Inr None, s')"
proof -
  have inv: "sched_inv s" using sched_run_inv [OF assms(1) new_scheduler_inv] by blast
  show ?thesis
  proof (cases "controller_order s = []")
    case True
    with can_grant_order [OF inv] show ?thesis by (simp add: next_dispatch_def)
  next
    case False
    have next_eq: "next_dispatch quiet_env maximum_bytes s =
        next_loop (length (controller_order s)) quiet_env maximum_bytes s"
      using False assms(2,5) by (simp add: next_dispatch_def)
    show ?thesis
    proof (cases "budget_available b = 0")
      case True
      then show ?thesis using next_loop_exhausted [OF assms(2)] inv False by (simp add: next_eq)
    next
      case False
      then have "can_grant s" using inv assms by (auto simp: can_grant_def outstanding_count_def)
      from next_loop_quiet [OF this \<open>controller_order s \<noteq> []\<close> assms(5), of "length (controller_order s)"]
      show ?thesis unfolding some_controller_ready [OF inv] next_eq using False by simp
    qed
  qed
qed

section \<open>Waiting\<close>

lemma abandon_request_flow:
  assumes "flows_wf s"
  shows "\<forall>f. map_of (sched_flows (abandon_request d s)) d = Some f \<longrightarrow> \<not> flow_requested f"
    and "abandon_request d s \<noteq> s \<longrightarrow>
      sched_generation (abandon_request d s) = (sched_generation s + 1) mod (u64_max + 1)"
proof -
  let ?P = "\<lambda>(ignored, f). flow_device_id f = d \<and> flow_requested f"
  have id: "flow_device_id f = k" if "(k, f) \<in> set (sched_flows s)" for k f
    using that assms by (auto simp: flows_wf_def)
  show "abandon_request d s \<noteq> s \<longrightarrow>
      sched_generation (abandon_request d s) = (sched_generation s + 1) mod (u64_max + 1)"
    by (auto simp: abandon_request_def signal_change_def modify_flow_def split: option.splits)
  show "\<forall>f. map_of (sched_flows (abandon_request d s)) d = Some f \<longrightarrow> \<not> flow_requested f"
  proof (cases "find ?P (sched_flows s)")
    case None
    then have "\<forall>x \<in> set (sched_flows s). \<not> ?P x" by (auto simp: find_None_iff)
    with None id show ?thesis
      by (auto simp: abandon_request_def dest!: map_of_SomeD)
  next
    case (Some x)
    from find_SomeD [OF this] have x: "x \<in> set (sched_flows s)" "?P x" by simp_all
    obtain k f where kf: "x = (k, f)" by force
    with x id have "k = d" by auto
    with Some kf show ?thesis
      by (auto simp: abandon_request_def signal_change_def modify_flow_def map_of_alist_modify)
  qed
qed

text \<open>
  Waiting for readiness, with any interference of other threads that keeps the invariant. A device
  that is unknown or retired is told so at once. A timeout is reported only if the generation is still
  the observed one, and then the device's request is withdrawn, so that it cannot block the rotation
  of others any more; with a request withdrawn the generation moves. Readiness is reported only for a
  device that is known and not retired, after a change of generation.
\<close>

theorem wait_for_ready_outcome:
  assumes "sched_inv (after (during s))" and "wait_for_ready during after device_id observed s = (result, s')"
  shows "case result of
      Wait_ready \<Rightarrow> sched_generation (during s) \<noteq> observed \<and> s' = after (during s) \<and>
        (\<exists>f. map_of (sched_flows s') device_id = Some f \<and> \<not> flow_retired f)
    | Wait_timeout \<Rightarrow> sched_generation (during s) = observed \<and>
        (\<forall>f. map_of (sched_flows s') device_id = Some f \<longrightarrow> \<not> flow_requested f) \<and>
        (s' \<noteq> after (during s) \<longrightarrow>
          sched_generation s' = (sched_generation (after (during s)) + 1) mod (u64_max + 1))
    | Wait_cancelled \<Rightarrow> s' = s \<and> (\<forall>k f. search_flow device_id s = Some (k, f) \<longrightarrow> flow_retired f) \<or>
        s' = after (during s) \<and>
        (\<forall>f. map_of (sched_flows s') device_id = Some f \<longrightarrow> flow_retired f)"
proof -
  define t where "t = after (during s)"
  have fw: "flows_wf t" using assms(1) by (simp add: t_def sched_inv_def)
  note find = search_flow_eq [OF fw, of device_id]
  have abandon: "\<forall>f. map_of (sched_flows (abandon_request device_id t)) device_id = Some f \<longrightarrow> \<not> flow_requested f"
    "abandon_request device_id t \<noteq> t \<longrightarrow>
      sched_generation (abandon_request device_id t) = (sched_generation t + 1) mod (u64_max + 1)"
    using abandon_request_flow [OF fw, of device_id] by blast+
  show ?thesis
    using assms(2) find abandon
    by (auto simp: wait_for_ready_def Let_def simp flip: t_def split: option.splits if_splits prod.splits)
qed

section \<open>Concrete runs\<close>

definition example_spec :: device_flow_spec where
  "example_spec = \<lparr>spec_device_id = ''d'', spec_controller_id = ''c'', spec_weight = 2,
     spec_bytes_remaining = 300, spec_max_outstanding = 2\<rparr>"

definition example_start :: scheduler where
  "example_start = new_scheduler (\<lambda>_. True) 1 (Some (new_budget 1000)) 64"

definition example_added :: scheduler where
  "example_added = snd (add_flow example_spec example_start)"

definition example_granted :: scheduler where
  "example_granted = snd (next_dispatch quiet_env 100 example_added)"

lemmas example_defs = example_spec_def example_start_def example_added_def example_granted_def
  new_scheduler_def add_flow_def modify_controller_def modify_flow_def alist_modify_def
  new_budget_def observe_availability_def Let_def

lemma example_added_eq: "add_flow example_spec example_start = (True, example_added)"
  by (simp add: example_defs)

lemma example_run: "sched_run example_start [Registered ''d'' 300] example_added"
proof -
  have "sched_step example_start (Registered ''d'' 300) example_added"
    using sched_step.add [OF _ example_added_eq] by (simp add: example_spec_def)
  from sched_run.run_step [OF sched_run.run_start this] show ?thesis by simp
qed

lemma example_next:
  "next_dispatch quiet_env 100 example_added =
     (Inr (Some \<lparr>grant_token = 1, grant_device_id = ''d'', grant_controller_id = ''c'',
        grant_bytes = 100, grant_memory = Some (make_lease_storage 100)\<rparr>), example_granted)"
  by (simp add: example_defs next_dispatch_def next_for_controller_def available_now_def
      access_budget_def quiet_env_def budget_available_def controller_attempt_def wrap_cursor_def
      flow_skipped_def serve_flow_def refill_def saturating_add_def saturating_multiply_def
      acquire_memory_def try_acquire_def deliver_callbacks_def commit_grant_def allocate_token_def
      charge_flow_def advance_cursor_def signal_change_def numeral_2_eq_2 make_lease_storage_def)

lemma example_run_granted: "sched_run example_start [Registered ''d'' 300, Silent] example_granted"
  using sched_run.run_step [OF example_run sched_step.next_grant [OF example_next]] by simp

lemma example_outstanding:
  "sched_outstanding example_granted = [(1, \<lparr>out_device_id = ''d'', out_bytes = 100\<rparr>)]"
proof -
  have "sched_outstanding example_added = []" by (simp add: example_defs)
  moreover have "sched_inv example_added"
    using sched_run_inv [OF example_run] new_scheduler_inv by (simp add: example_start_def)
  ultimately show ?thesis
    using next_dispatch_served [of example_added 100 quiet_env]
    by (simp add: example_next served_def granted_from_def)
qed

theorem scheduler_conserves_bytes_witness:
  "remaining ''d'' example_granted + outstanding_bytes ''d'' example_granted = 300"
  using scheduler_conserves_bytes [OF example_run_granted [unfolded example_start_def], of "''d''"]
  by simp

theorem next_dispatch_sound_witness:
  "\<exists>g. next_dispatch quiet_env 100 example_added = (Inr (Some g), example_granted) \<and>
     granted_from example_added 100 [] g example_granted"
  using next_dispatch_sound [OF example_run [unfolded example_start_def] example_next] example_next
  by simp

theorem settle_exact_witness:
  "\<exists>s'. settle 1 ''d'' 100 Not_submitted example_granted = (True, s') \<and> sched_outstanding s' = []"
proof -
  obtain ok s' where r: "settle 1 ''d'' 100 Not_submitted example_granted = (ok, s')" by force
  note exact = settle_exact [OF example_run_granted [unfolded example_start_def] r]
  from exact have "ok" by (simp add: example_outstanding)
  with exact r show ?thesis by (simp add: example_outstanding alist_erase_def)
qed

theorem next_dispatch_work_conserving_witness:
  "\<exists>g s'. next_dispatch quiet_env 7 example_added = (Inr (Some g), s')"
proof -
  have b: "sched_budget example_added = Some (new_budget 1000 \<lparr>availability_observers := [1]\<rparr>)"
    by (simp add: example_defs)
  have ready: "flow_ready example_added ''d''"
    by (simp add: example_defs flow_ready_def flow_skipped_def)
  have "outstanding_count example_added < u64_max" by (simp add: example_defs outstanding_count_def)
  from next_dispatch_work_conserving [OF example_run [unfolded example_start_def] b _ this, of 7] ready
  show ?thesis
    by (auto simp: budget_valid_def budget_available_def new_budget_def split: if_splits)
qed

theorem wait_for_ready_outcome_witness:
  "\<exists>f. map_of (sched_flows (signal_change example_added)) ''d'' = Some f \<and> \<not> flow_retired f"
proof -
  have "sched_inv example_added"
    using sched_run_inv [OF example_run] new_scheduler_inv by (simp add: example_start_def)
  then have inv: "sched_inv ((\<lambda>s. s) (signal_change example_added))"
    using idle_inv [OF idle_signal_change] by simp
  have "wait_for_ready signal_change (\<lambda>s. s) ''d'' 1 example_added =
      (Wait_ready, signal_change example_added)"
    by (simp add: wait_for_ready_def search_flow_def example_defs signal_change_def)
  from wait_for_ready_outcome [OF inv this] show ?thesis by simp
qed

end
