(* ===== verification/Sha256.thy ===== *)
theory Sha256
  imports Image_Source
begin

text \<open>
  SHA-256 of \<^verbatim>\<open>src/image/sha256.{hpp,cpp}\<close>: the compression function, the incremental state with its
  block buffer, the padding of \<^verbatim>\<open>finish\<close>, and \<^verbatim>\<open>compute_sha256\<close> over an image source with short reads
  and cancellation.
\<close>

section \<open>Constants\<close>

definition kSha256BlockSize :: nat where "kSha256BlockSize = 64"
definition kSha256DigestSize :: nat where "kSha256DigestSize = 32"
definition kSha256SourceReadSize :: nat where "kSha256SourceReadSize = 64 * 1024"
definition kSha256MaxInputSize :: nat where "kSha256MaxInputSize = u64_max div 8"

definition kRoundConstants :: "u32 list" where
  "kRoundConstants = concat
    [[0x428a2f98, 0x71374491, 0xb5c0fbcf, 0xe9b5dba5], [0x3956c25b, 0x59f111f1, 0x923f82a4, 0xab1c5ed5],
     [0xd807aa98, 0x12835b01, 0x243185be, 0x550c7dc3], [0x72be5d74, 0x80deb1fe, 0x9bdc06a7, 0xc19bf174],
     [0xe49b69c1, 0xefbe4786, 0x0fc19dc6, 0x240ca1cc], [0x2de92c6f, 0x4a7484aa, 0x5cb0a9dc, 0x76f988da],
     [0x983e5152, 0xa831c66d, 0xb00327c8, 0xbf597fc7], [0xc6e00bf3, 0xd5a79147, 0x06ca6351, 0x14292967],
     [0x27b70a85, 0x2e1b2138, 0x4d2c6dfc, 0x53380d13], [0x650a7354, 0x766a0abb, 0x81c2c92e, 0x92722c85],
     [0xa2bfe8a1, 0xa81a664b, 0xc24b8b70, 0xc76c51a3], [0xd192e819, 0xd6990624, 0xf40e3585, 0x106aa070],
     [0x19a4c116, 0x1e376c08, 0x2748774c, 0x34b0bcb5], [0x391c0cb3, 0x4ed8aa4a, 0x5b9cca4f, 0x682e6ff3],
     [0x748f82ee, 0x78a5636f, 0x84c87814, 0x8cc70208], [0x90befffa, 0xa4506ceb, 0xbef9a3f7, 0xc67178f2]]"

definition initial_state :: "u32 list" where
  "initial_state =
    [0x6a09e667, 0xbb67ae85, 0x3c6ef372, 0xa54ff53a, 0x510e527f, 0x9b05688c, 0x1f83d9ab, 0x5be0cd19]"

section \<open>The compression function\<close>

text \<open>\<^verbatim>\<open>std::rotr\<close> on 32 bits, for a distance below the width.\<close>

definition rotr :: "nat \<Rightarrow> u32 \<Rightarrow> u32" where
  "rotr n w = drop_bit n w OR push_bit (32 - n) w"

definition load_big_endian_u32 :: "byte list \<Rightarrow> nat \<Rightarrow> u32" where
  "load_big_endian_u32 bytes i =
     push_bit 24 (ucast (bytes ! i)) OR push_bit 16 (ucast (bytes ! (i + 1))) OR
     push_bit 8 (ucast (bytes ! (i + 2))) OR ucast (bytes ! (i + 3))"

definition schedule_word :: "u32 list \<Rightarrow> nat \<Rightarrow> u32" where
  "schedule_word schedule i =
     (let sigma0 = rotr 7 (schedule ! (i - 15)) XOR rotr 18 (schedule ! (i - 15)) XOR
                   drop_bit 3 (schedule ! (i - 15));
          sigma1 = rotr 17 (schedule ! (i - 2)) XOR rotr 19 (schedule ! (i - 2)) XOR
                   drop_bit 10 (schedule ! (i - 2))
      in schedule ! (i - 16) + sigma0 + schedule ! (i - 7) + sigma1)"

definition message_schedule :: "byte list \<Rightarrow> u32 list" where
  "message_schedule block =
     foldl (\<lambda>schedule i. schedule @ [schedule_word schedule i])
       (map (\<lambda>i. load_big_endian_u32 block (i * 4)) [0..<16]) [16..<64]"

text \<open>One round on the variables \<open>a\<close> to \<open>h\<close>, kept in a list in this order.\<close>

definition sha_round :: "u32 list \<Rightarrow> nat \<Rightarrow> u32 list \<Rightarrow> u32 list" where
  "sha_round schedule i v =
     (case v of
        [a, b, c, d, e, f, g, h] \<Rightarrow>
          let sum1 = rotr 6 e XOR rotr 11 e XOR rotr 25 e;
              choice = (e AND f) XOR ((NOT e) AND g);
              temporary1 = h + sum1 + choice + kRoundConstants ! i + schedule ! i;
              sum0 = rotr 2 a XOR rotr 13 a XOR rotr 22 a;
              majority = (a AND b) XOR (a AND c) XOR (b AND c);
              temporary2 = sum0 + majority
          in [temporary1 + temporary2, a, b, c, d + temporary1, e, f, g]
      | _ \<Rightarrow> v)"

definition transform :: "byte list \<Rightarrow> u32 list \<Rightarrow> u32 list" where
  "transform block state =
     (let schedule = message_schedule block;
          v = foldl (\<lambda>v i. sha_round schedule i v) state [0..<64]
      in map2 (+) state v)"

section \<open>The incremental state\<close>

record sha256_state =
  sha_state :: "u32 list"
  sha_buffer :: "byte list"
  sha_total_bytes :: nat
  sha_buffered :: nat

definition new_sha256_state :: sha256_state where
  "new_sha256_state =
     \<lparr>sha_state = initial_state, sha_buffer = replicate kSha256BlockSize 0,
      sha_total_bytes = 0, sha_buffered = 0\<rparr>"

text \<open>The loop over whole blocks of the input, from \<open>cursor\<close> on; the new cursor and state.\<close>

function update_blocks :: "byte list \<Rightarrow> nat \<Rightarrow> u32 list \<Rightarrow> nat \<times> u32 list" where
  "update_blocks bytes cursor state =
     (if cursor \<le> length bytes \<and> length bytes - cursor \<ge> kSha256BlockSize
      then update_blocks bytes (cursor + kSha256BlockSize)
             (transform (take kSha256BlockSize (drop cursor bytes)) state)
      else (cursor, state))"
  by pat_completeness auto
termination
  by (relation "measure (\<lambda>(bytes, cursor, state). length bytes - cursor)")
    (auto simp: kSha256BlockSize_def)

declare update_blocks.simps [simp del]

text \<open>The first part of an update, which completes a partly filled buffer.\<close>

definition fill_buffer :: "byte list \<Rightarrow> sha256_state \<Rightarrow> nat \<times> sha256_state" where
  "fill_buffer bytes s =
     (if sha_buffered s \<noteq> 0 then
        let amount = min (kSha256BlockSize - sha_buffered s) (length bytes);
            s = s\<lparr>sha_buffer := write_span (sha_buffer s) (sha_buffered s) (take amount bytes),
                  sha_buffered := sha_buffered s + amount\<rparr>
        in (amount,
            if sha_buffered s = kSha256BlockSize
            then s\<lparr>sha_state := transform (sha_buffer s) (sha_state s), sha_buffered := 0\<rparr>
            else s)
      else (0, s))"

definition sha_update :: "byte list \<Rightarrow> sha256_state \<Rightarrow> sha256_state" where
  "sha_update bytes s =
     (let s = s\<lparr>sha_total_bytes := (sha_total_bytes s + length bytes) mod (u64_max + 1)\<rparr>;
          (cursor, s) = fill_buffer bytes s;
          (cursor, state) = update_blocks bytes cursor (sha_state s);
          s = s\<lparr>sha_state := state\<rparr>;
          remaining = length bytes - cursor
      in if remaining \<noteq> 0
         then s\<lparr>sha_buffer := write_span (sha_buffer s) 0 (drop cursor bytes),
                sha_buffered := remaining\<rparr>
         else s)"

text \<open>The octets \<^verbatim>\<open>(value >> 8k) & 0xff\<close> for \<open>k\<close> from \<open>n - 1\<close> down to \<open>0\<close>.\<close>

definition big_endian :: "nat \<Rightarrow> nat \<Rightarrow> byte list" where
  "big_endian n v = map (\<lambda>i. word_of_nat (v div 256 ^ (n - 1 - i) mod 256)) [0..<n]"

definition digest_of :: "u32 list \<Rightarrow> byte list" where
  "digest_of state = concat (map (\<lambda>w. big_endian 4 (unat w)) state)"

definition sha_finish :: "sha256_state \<Rightarrow> byte list" where
  "sha_finish s =
     (let bit_length = sha_total_bytes s * 8 mod (u64_max + 1);
          buffer = (sha_buffer s)[sha_buffered s := 0x80];
          buffered = sha_buffered s + 1;
          (buffer, buffered, state) =
            (if buffered > 56 then
               let buffer = take buffered buffer @ replicate (kSha256BlockSize - buffered) 0
               in (buffer, 0, transform buffer (sha_state s))
             else (buffer, buffered, sha_state s));
          buffer = take buffered buffer @ replicate (56 - buffered) 0 @ drop 56 buffer;
          buffer = take 56 buffer @ big_endian 8 bit_length
      in digest_of (transform buffer state))"

section \<open>Hashing a source\<close>

datatype sha256_error_kind =
  Sha_invalid_size | Sha_source | Sha_truncated | Sha_cancelled

record sha256_error =
  sha_kind :: sha256_error_kind
  sha_input_offset :: nat
  sha_message :: string

definition sha_error :: "sha256_error_kind \<Rightarrow> nat \<Rightarrow> string \<Rightarrow> sha256_error" where
  "sha_error kind offset message =
     \<lparr>sha_kind = kind, sha_input_offset = offset, sha_message = message\<rparr>"

definition sha_cancelled_error :: "nat \<Rightarrow> sha256_error" where
  "sha_cancelled_error offset = sha_error Sha_cancelled offset ''SHA-256 computation was cancelled''"

text \<open>The loop with its read buffer, which keeps its contents from one read to the next.\<close>

function sha_source_loop ::
    "image_source \<Rightarrow> stop_token \<Rightarrow> byte list \<Rightarrow> nat \<Rightarrow> sha256_state \<Rightarrow>
     (sha256_error, nat \<times> sha256_state) polled" where
  "sha_source_loop source stop buffer offset s =
     (if offset < is_size source then
        pbind (poll stop (sha_cancelled_error offset)) (\<lambda>_.
        let requested = min (is_size source - offset) kSha256SourceReadSize in
        case is_read_at source offset requested of
          Inl message \<Rightarrow>
            pfail (sha_error Sha_source offset
              (if message = [] then ''unable to read image source''
               else ''unable to read image source'' @ '': '' @ message))
        | Inr (n, data) \<Rightarrow>
            let buffer = write_span (take requested buffer) 0 data @ drop requested buffer in
            if n > requested then
              pfail (sha_error Sha_source offset ''image source returned more bytes than requested'')
            else if n = 0 then
              pfail (sha_error Sha_truncated offset
                ''image source made no progress before its declared size'')
            else
              pbind (poll stop (sha_cancelled_error offset)) (\<lambda>_.
              sha_source_loop source stop buffer (offset + n) (sha_update (take n buffer) s)))
      else preturn (offset, s))"
  by pat_completeness auto
termination
  by (relation "measure (\<lambda>(source, stop, buffer, offset, s). is_size source - offset)") auto

declare sha_source_loop.simps [simp del]

definition compute_sha256 :: "image_source \<Rightarrow> stop_token \<Rightarrow> (sha256_error, byte list) polled" where
  "compute_sha256 source stop =
     pbind (poll stop (sha_cancelled_error 0)) (\<lambda>_.
     if is_size source > kSha256MaxInputSize then
       pfail (sha_error Sha_invalid_size 0 ''image source is too large for SHA-256'')
     else
       pbind (sha_source_loop source stop (replicate kSha256SourceReadSize 0) 0 new_sha256_state) (\<lambda>(offset, s).
       pbind (poll stop (sha_cancelled_error offset)) (\<lambda>_.
       preturn (sha_finish s))))"

definition sha256_hex :: "byte list \<Rightarrow> string" where
  "sha256_hex digest =
     concat (map (\<lambda>b. [hex_digit (unat b div 16), hex_digit (unat b mod 16)]) digest)"

end
