(* ===== verification/Sha256_Spec.thy ===== *)
theory Sha256_Spec
  imports Sha256
begin

text \<open>
  The specification of SHA-256 after FIPS 180-4 (padding, message schedule as a recurrence, working
  variables as a recurrence, chaining over the blocks) and the proof that the incremental code computes
  it, however its input is cut into updates. \<^verbatim>\<open>compute_sha256\<close> then returns the digest of the content of
  its source.
\<close>

section \<open>The standard\<close>

definition fips_sigma0 :: "u32 \<Rightarrow> u32" where
  "fips_sigma0 x = rotr 7 x XOR rotr 18 x XOR drop_bit 3 x"

definition fips_sigma1 :: "u32 \<Rightarrow> u32" where
  "fips_sigma1 x = rotr 17 x XOR rotr 19 x XOR drop_bit 10 x"

definition fips_Sigma0 :: "u32 \<Rightarrow> u32" where
  "fips_Sigma0 x = rotr 2 x XOR rotr 13 x XOR rotr 22 x"

definition fips_Sigma1 :: "u32 \<Rightarrow> u32" where
  "fips_Sigma1 x = rotr 6 x XOR rotr 11 x XOR rotr 25 x"

definition fips_Ch :: "u32 \<Rightarrow> u32 \<Rightarrow> u32 \<Rightarrow> u32" where
  "fips_Ch x y z = (x AND y) XOR ((NOT x) AND z)"

definition fips_Maj :: "u32 \<Rightarrow> u32 \<Rightarrow> u32 \<Rightarrow> u32" where
  "fips_Maj x y z = (x AND y) XOR (x AND z) XOR (y AND z)"

function fips_W :: "(nat \<Rightarrow> u32) \<Rightarrow> nat \<Rightarrow> u32" where
  "fips_W M t =
     (if t < 16 then M t
      else fips_sigma1 (fips_W M (t - 2)) + fips_W M (t - 7) +
           fips_sigma0 (fips_W M (t - 15)) + fips_W M (t - 16))"
  by pat_completeness auto
termination by (relation "measure snd") auto

declare fips_W.simps [simp del]

type_synonym fips_vars = "u32 \<times> u32 \<times> u32 \<times> u32 \<times> u32 \<times> u32 \<times> u32 \<times> u32"

primrec fips_rounds :: "(nat \<Rightarrow> u32) \<Rightarrow> fips_vars \<Rightarrow> nat \<Rightarrow> fips_vars" where
  "fips_rounds W H 0 = H"
| "fips_rounds W H (Suc t) =
     (case fips_rounds W H t of (a, b, c, d, e, f, g, h) \<Rightarrow>
        let T1 = h + fips_Sigma1 e + fips_Ch e f g + kRoundConstants ! t + W t;
            T2 = fips_Sigma0 a + fips_Maj a b c
        in (T1 + T2, a, b, c, d + T1, e, f, g))"

definition vars_of :: "u32 list \<Rightarrow> fips_vars" where
  "vars_of H = (H ! 0, H ! 1, H ! 2, H ! 3, H ! 4, H ! 5, H ! 6, H ! 7)"

definition fips_compress :: "byte list \<Rightarrow> u32 list \<Rightarrow> u32 list" where
  "fips_compress block H =
     (case fips_rounds (fips_W (\<lambda>t. load_big_endian_u32 block (4 * t))) (vars_of H) 64 of
        (a, b, c, d, e, f, g, h) \<Rightarrow>
          [H ! 0 + a, H ! 1 + b, H ! 2 + c, H ! 3 + d, H ! 4 + e, H ! 5 + f, H ! 6 + g, H ! 7 + h])"

definition sha_padding :: "nat \<Rightarrow> byte list" where
  "sha_padding n = 0x80 # replicate ((119 - n mod 64) mod 64) 0 @ big_endian 8 (8 * n mod (u64_max + 1))"

function sha_chain :: "u32 list \<Rightarrow> byte list \<Rightarrow> u32 list" where
  "sha_chain H m =
     (if length m < 64 then H else sha_chain (fips_compress (take 64 m) H) (drop 64 m))"
  by pat_completeness auto
termination by (relation "measure (\<lambda>(H, m). length m)") auto

declare sha_chain.simps [simp del]

definition sha256 :: "byte list \<Rightarrow> byte list" where
  "sha256 m = digest_of (sha_chain initial_state (m @ sha_padding (length m)))"

section \<open>The compression function\<close>

lemma message_schedule_prefix:
  assumes "n \<le> 48"
  shows "foldl (\<lambda>schedule i. schedule @ [schedule_word schedule i])
      (map (\<lambda>i. load_big_endian_u32 block (i * 4)) [0..<16]) [16..<16 + n] =
    map (fips_W (\<lambda>t. load_big_endian_u32 block (4 * t))) [0..<16 + n]"
  using assms
proof (induction n)
  case 0
  have "map (\<lambda>i. load_big_endian_u32 block (i * 4)) [0..<16] =
      map (fips_W (\<lambda>t. load_big_endian_u32 block (4 * t))) [0..<16]"
    by (rule map_cong) (auto simp: fips_W.simps mult.commute)
  then show ?case by simp
next
  case (Suc n)
  let ?W = "fips_W (\<lambda>t. load_big_endian_u32 block (4 * t))"
  have "schedule_word (map ?W [0..<16 + n]) (16 + n) = ?W (16 + n)"
    by (subst fips_W.simps [of _ "16 + n"])
      (simp add: schedule_word_def fips_sigma0_def fips_sigma1_def Let_def nth_append add.commute)
  moreover have "[k..<16 + Suc n] = [k..<16 + n] @ [16 + n]" if "k \<le> 16" for k
    using that upt_Suc_append [of k "16 + n"] by (simp only: add_Suc_right)
  ultimately show ?case using Suc by simp
qed

lemma message_schedule_eq:
  "message_schedule block = map (fips_W (\<lambda>t. load_big_endian_u32 block (4 * t))) [0..<64]"
proof -
  have e: "(64 :: nat) = 16 + 48" by simp
  show ?thesis unfolding message_schedule_def e by (rule message_schedule_prefix) simp
qed

definition list_of_vars :: "fips_vars \<Rightarrow> u32 list" where
  "list_of_vars v = (case v of (a, b, c, d, e, f, g, h) \<Rightarrow> [a, b, c, d, e, f, g, h])"

lemma list_of_vars_of: "length H = 8 \<Longrightarrow> list_of_vars (vars_of H) = H"
  by (rule nth_equalityI)
    (auto simp: list_of_vars_def vars_of_def less_Suc_eq numeral_eq_Suc)

lemma rounds_eq:
  assumes "n \<le> 64"
  shows "foldl (\<lambda>v i. sha_round (map W [0..<64]) i v) (list_of_vars H) [0..<n] =
    list_of_vars (fips_rounds W H n)"
  using assms
proof (induction n)
  case 0
  then show ?case by simp
next
  case (Suc n)
  obtain a b c d e f g h where v: "fips_rounds W H n = (a, b, c, d, e, f, g, h)"
    by (metis prod.collapse)
  with Suc show ?case
    by (simp add: list_of_vars_def sha_round_def fips_Sigma0_def fips_Sigma1_def fips_Ch_def
        fips_Maj_def Let_def)
qed

lemma transform_eq:
  assumes "length H = 8"
  shows "transform block H = fips_compress block H"
proof -
  let ?W = "fips_W (\<lambda>t. load_big_endian_u32 block (4 * t))"
  obtain a b c d e f g h where v: "fips_rounds ?W (vars_of H) 64 = (a, b, c, d, e, f, g, h)"
    by (metis prod.collapse)
  have "foldl (\<lambda>v i. sha_round (message_schedule block) i v) H [0..<64] = [a, b, c, d, e, f, g, h]"
    using rounds_eq [of 64 ?W "vars_of H"] list_of_vars_of [OF assms] v
    by (simp add: message_schedule_eq list_of_vars_def)
  moreover obtain h0 h1 h2 h3 h4 h5 h6 h7 where "H = [h0, h1, h2, h3, h4, h5, h6, h7]"
    using list_of_vars_of [OF assms, symmetric] unfolding list_of_vars_def vars_of_def prod.case
    by (rule that)
  ultimately show ?thesis
    using v by (simp add: transform_def fips_compress_def Let_def)
qed

section \<open>Absorbing input\<close>

text \<open>The chaining value after all whole blocks of the input, and what is left of it.\<close>

function absorb :: "u32 list \<Rightarrow> byte list \<Rightarrow> u32 list \<times> byte list" where
  "absorb H m =
     (if length m < 64 then (H, m) else absorb (transform (take 64 m) H) (drop 64 m))"
  by pat_completeness auto
termination by (relation "measure (\<lambda>(H, m). length m)") auto

declare absorb.simps [simp del]

lemma absorb_short: "length m < 64 \<Longrightarrow> absorb H m = (H, m)"
  by (simp add: absorb.simps)

lemma absorb_block: "length b = 64 \<Longrightarrow> absorb H (b @ m) = absorb (transform b H) m"
  by (simp add: absorb.simps [of H])

lemma absorb_rest: "length (snd (absorb H m)) < 64"
  by (induction H m rule: absorb.induct) (subst absorb.simps, simp)

lemma absorb_append:
  "absorb H m = (H', r) \<Longrightarrow> absorb H (m @ x) = absorb H' (r @ x)"
proof (induction H m rule: absorb.induct)
  case (1 H m)
  show ?case
  proof (cases "length m < 64")
    case True
    with "1.prems" show ?thesis by (simp add: absorb_short)
  next
    case False
    with "1.prems" have "absorb (transform (take 64 m) H) (drop 64 m) = (H', r)"
      by (simp add: absorb.simps [of H m])
    with "1.IH" [OF False] have "absorb (transform (take 64 m) H) (drop 64 m @ x) = absorb H' (r @ x)" .
    moreover have "absorb H (m @ x) = absorb (transform (take 64 m) H) (drop 64 m @ x)"
      using absorb_block [of "take 64 m" H "drop 64 m @ x"] False
      by (simp flip: append_assoc)
    ultimately show ?thesis by simp
  qed
qed

lemma length_transform [simp]: "length H = 8 \<Longrightarrow> length (transform b H) = 8"
  by (simp add: transform_eq fips_compress_def split: prod.split)

lemma absorb_length: "length H = 8 \<Longrightarrow> length (fst (absorb H m)) = 8"
  by (induction H m rule: absorb.induct) (subst absorb.simps, simp)

lemma sha_chain_absorb: "length H = 8 \<Longrightarrow> sha_chain H m = fst (absorb H m)"
proof (induction H m rule: sha_chain.induct)
  case (1 H m)
  show ?case
  proof (cases "length m < 64")
    case True
    then show ?thesis by (simp add: absorb_short sha_chain.simps)
  next
    case False
    have "length (fips_compress (take 64 m) H) = 8"
      using length_transform [OF "1.prems"] transform_eq [OF "1.prems"] by metis
    with "1.IH" [OF False] False transform_eq [OF "1.prems", of "take 64 m"] show ?thesis
      by (simp add: sha_chain.simps [of H m] absorb.simps [of H m])
  qed
qed

section \<open>Updates\<close>

text \<open>The state of the accumulator after the message \<open>m\<close>.\<close>

definition sha_holds :: "sha256_state \<Rightarrow> byte list \<Rightarrow> bool" where
  "sha_holds s m \<longleftrightarrow>
     absorb initial_state m = (sha_state s, take (sha_buffered s) (sha_buffer s)) \<and>
     length (sha_buffer s) = 64 \<and> sha_buffered s < 64 \<and>
     sha_total_bytes s = length m mod (u64_max + 1)"

lemma sha_holds_new: "sha_holds new_sha256_state []"
  by (simp add: sha_holds_def new_sha256_state_def absorb_short kSha256BlockSize_def)

lemma update_blocks_absorb:
  assumes "cursor \<le> length bytes"
  shows "\<exists>k. update_blocks bytes cursor H = (k, fst (absorb H (drop cursor bytes))) \<and>
    k \<le> length bytes \<and> drop k bytes = snd (absorb H (drop cursor bytes))"
  using assms
proof (induction bytes cursor H rule: update_blocks.induct)
  case (1 bytes cursor H)
  show ?case
  proof (cases "64 \<le> length bytes - cursor")
    case False
    with "1.prems" show ?thesis
      by (simp add: update_blocks.simps [of bytes cursor H] absorb_short kSha256BlockSize_def)
  next
    case True
    let ?b = "take 64 (drop cursor bytes)"
    have "absorb H (drop cursor bytes) = absorb (transform ?b H) (drop (cursor + 64) bytes)"
      using True by (simp add: absorb.simps [of H "drop cursor bytes"] add.commute)
    moreover have "update_blocks bytes cursor H = update_blocks bytes (cursor + 64) (transform ?b H)"
      using True "1.prems" by (simp add: update_blocks.simps [of bytes cursor H] kSha256BlockSize_def)
    ultimately show ?thesis
      using "1.IH" "1.prems" True by (simp add: kSha256BlockSize_def)
  qed
qed

text \<open>After the first part the buffer is empty, or the input is used up.\<close>

lemma fill_buffer_absorb:
  assumes "length (sha_buffer s) = 64" and "sha_buffered s < 64"
    and "fill_buffer bytes s = (cursor, s')"
  shows "cursor \<le> length bytes \<and> length (sha_buffer s') = 64 \<and> sha_buffered s' < 64 \<and>
    sha_total_bytes s' = sha_total_bytes s \<and>
    (sha_buffered s' = 0 \<or> cursor = length bytes) \<and>
    absorb (sha_state s) (take (sha_buffered s) (sha_buffer s) @ bytes) =
      absorb (sha_state s') (take (sha_buffered s') (sha_buffer s') @ drop cursor bytes)"
proof (cases "sha_buffered s = 0")
  case True
  with assms show ?thesis by (auto simp: fill_buffer_def)
next
  case False
  let ?k = "sha_buffered s"
  define amount where "amount = min (64 - ?k) (length bytes)"
  define buffer where "buffer = write_span (sha_buffer s) ?k (take amount bytes)"
  have le: "amount \<le> length bytes" "?k + amount \<le> 64" using assms(2) by (auto simp: amount_def)
  have buf: "take (?k + amount) buffer = take ?k (sha_buffer s) @ take amount bytes"
    using take_write_span [of amount "take amount bytes" ?k "sha_buffer s"] le assms(1)
    by (simp add: buffer_def)
  have len: "length buffer = 64" using assms(1,2) by (simp add: buffer_def)
  have s': "cursor = amount" "s' = (if ?k + amount = 64
      then s\<lparr>sha_buffer := buffer, sha_buffered := 0, sha_state := transform buffer (sha_state s)\<rparr>
      else s\<lparr>sha_buffer := buffer, sha_buffered := ?k + amount\<rparr>)"
    using assms(3) False
    by (auto simp: fill_buffer_def kSha256BlockSize_def Let_def buffer_def amount_def)
  show ?thesis
  proof (cases "?k + amount = 64")
    case True
    with buf len have "buffer = take ?k (sha_buffer s) @ take amount bytes" by simp
    moreover have "absorb (sha_state s) (buffer @ drop amount bytes) =
        absorb (transform buffer (sha_state s)) (drop amount bytes)"
      using len by (rule absorb_block)
    ultimately show ?thesis using True s' len le by simp
  next
    case less: False
    then have "amount = length bytes" "?k + amount < 64" using le by (auto simp: amount_def)
    with s' less len buf show ?thesis by simp
  qed
qed

lemma sha_update_holds:
  assumes "sha_holds s m"
  shows "sha_holds (sha_update bytes s) (m @ bytes)"
proof -
  define s0 where "s0 = s\<lparr>sha_total_bytes := (sha_total_bytes s + length bytes) mod (u64_max + 1)\<rparr>"
  obtain cursor s1 where fill: "fill_buffer bytes s0 = (cursor, s1)" by force
  have len: "length (sha_buffer s0) = 64" "sha_buffered s0 < 64"
    using assms by (simp_all add: sha_holds_def s0_def)
  note f = fill_buffer_absorb [OF len fill]
  obtain k where blocks: "update_blocks bytes cursor (sha_state s1) =
      (k, fst (absorb (sha_state s1) (drop cursor bytes)))"
    and k: "k \<le> length bytes" "drop k bytes = snd (absorb (sha_state s1) (drop cursor bytes))"
    using update_blocks_absorb [of cursor bytes "sha_state s1"] f by blast
  define H where "H = fst (absorb (sha_state s1) (drop cursor bytes))"
  have up: "sha_update bytes s =
      (if length bytes - k \<noteq> 0
       then s1\<lparr>sha_state := H, sha_buffer := write_span (sha_buffer s1) 0 (drop k bytes),
              sha_buffered := length bytes - k\<rparr>
       else s1\<lparr>sha_state := H\<rparr>)"
    using fill blocks by (simp add: sha_update_def Let_def H_def s0_def)
  have short: "length bytes - k < 64"
    using absorb_rest [of "sha_state s1" "drop cursor bytes"] k(2) by (metis length_drop)
  have total_bytes: "sha_total_bytes s1 = length (m @ bytes) mod (u64_max + 1)"
    using f assms by (simp add: s0_def sha_holds_def mod_add_left_eq)
  have whole: "absorb initial_state (m @ bytes) =
      absorb (sha_state s1) (take (sha_buffered s1) (sha_buffer s1) @ drop cursor bytes)"
    using f absorb_append [of initial_state m] assms by (simp add: s0_def sha_holds_def)
  show ?thesis
  proof (cases "sha_buffered s1 = 0")
    case True
    then have "absorb initial_state (m @ bytes) = (H, drop k bytes)"
      using whole k(2) by (simp add: H_def)
    moreover have "take (length bytes - k) (write_span (sha_buffer s1) 0 (drop k bytes)) = drop k bytes"
      using take_write_span [of "length bytes - k" "drop k bytes" 0 "sha_buffer s1"] f short by simp
    ultimately show ?thesis
      using up True short total_bytes f by (auto simp: sha_holds_def)
  next
    case False
    with f have c: "cursor = length bytes" by blast
    then have "drop k bytes = []" "H = sha_state s1"
      using k(2) by (simp_all add: H_def absorb_short)
    with up whole f total_bytes c show ?thesis
      by (simp add: sha_holds_def absorb_short)
  qed
qed

section \<open>Padding\<close>

lemma absorb_rest_length: "length (snd (absorb H m)) = length m mod 64"
proof (induction H m rule: absorb.induct)
  case (1 H m)
  show ?case
  proof (cases "length m < 64")
    case True
    then show ?thesis by (simp add: absorb_short)
  next
    case False
    with "1.IH" show ?thesis by (simp add: absorb.simps [of H m] le_mod_geq)
  qed
qed

lemma length_big_endian [simp]: "length (big_endian n v) = n"
  by (simp add: big_endian_def)

text \<open>The two shapes of the end of a message whose last \<open>k\<close> octets are still buffered.\<close>

lemma padding_one_block:
  assumes "length m mod 64 = k" and "k < 56"
  shows "sha_padding (length m) =
    0x80 # replicate (55 - k) 0 @ big_endian 8 (8 * length m mod (u64_max + 1))"
proof -
  have "(119 - k) mod 64 = 55 - k" using assms(2) by (simp add: mod_if)
  with assms(1) show ?thesis by (simp add: sha_padding_def)
qed

lemma padding_two_blocks:
  assumes "length m mod 64 = k" and "56 \<le> k"
  shows "sha_padding (length m) =
    (0x80 # replicate (63 - k) 0) @ replicate 56 0 @ big_endian 8 (8 * length m mod (u64_max + 1))"
proof -
  have k: "k < 64" using assms(1) by auto
  have "(119 - k) mod 64 = (63 - k) + 56" using k assms(2) by simp
  then have "replicate ((119 - k) mod 64) (0 :: byte) = replicate (63 - k) 0 @ replicate 56 0"
    by (simp only: replicate_add)
  with assms(1) show ?thesis by (simp add: sha_padding_def)
qed

lemma sha_finish_eq:
  assumes holds: "sha_holds s m"
  shows "sha_finish s = sha256 m"
proof -
  let ?k = "sha_buffered s" and ?H = "sha_state s" and ?len = "big_endian 8 (8 * length m mod (u64_max + 1))"
  define r where "r = take ?k (sha_buffer s)"
  define buffer where "buffer = (sha_buffer s)[?k := 0x80]"
  have ab: "absorb initial_state m = (?H, r)" and buf: "length (sha_buffer s) = 64" "?k < 64"
    using holds by (simp_all add: sha_holds_def r_def)
  have k: "length m mod 64 = ?k" "length r = ?k"
    using absorb_rest_length [of initial_state m] ab buf by (simp_all add: r_def)
  have len: "length buffer = 64" using buf by (simp add: buffer_def)
  have tk: "take (Suc ?k) buffer = r @ [0x80]"
    using buf by (simp add: buffer_def r_def take_Suc_conv_app_nth take_update_cancel)
  have bits: "sha_total_bytes s * 8 mod (u64_max + 1) = 8 * length m mod (u64_max + 1)"
    using holds mod_mult_right_eq [of 8 "length m" "u64_max + 1"]
    by (simp add: sha_holds_def mult.commute)
  have H8: "length initial_state = 8" by (simp add: initial_state_def)
  have spec: "sha256 m = digest_of (fst (absorb ?H (r @ sha_padding (length m))))"
    by (simp add: sha256_def sha_chain_absorb [OF H8] absorb_append [OF ab])
  show ?thesis
  proof (cases "?k < 56")
    case True
    let ?b = "r @ 0x80 # replicate (55 - ?k) 0 @ ?len"
    have "absorb ?H (r @ sha_padding (length m)) = (transform ?b ?H, [])"
      using absorb_block [of ?b ?H "[]"] True k
      by (simp add: padding_one_block [OF k(1)] absorb_short)
    moreover have "56 - ?k = Suc (55 - ?k)" using True by simp
    ultimately show ?thesis
      using True bits len k(2) by (simp add: sha_finish_def spec Let_def tk flip: buffer_def)
  next
    case False
    let ?b1 = "r @ 0x80 # replicate (63 - ?k) 0" and ?b2 = "replicate 56 0 @ ?len"
    have "absorb ?H (?b1 @ ?b2) = (transform ?b2 (transform ?b1 ?H), [])"
      using absorb_block [of ?b1 ?H ?b2] absorb_block [of ?b2 "transform ?b1 ?H" "[]"] False k buf(2)
      by (simp add: absorb_short)
    moreover have "r @ sha_padding (length m) = ?b1 @ ?b2"
      using padding_two_blocks [OF k(1)] False by simp
    ultimately show ?thesis
      using False bits
      by (simp add: sha_finish_def spec Let_def kSha256BlockSize_def tk flip: buffer_def)
  qed
qed

lemma foldl_sha_update_holds:
  "sha_holds s m \<Longrightarrow> sha_holds (foldl (\<lambda>s c. sha_update c s) s chunks) (m @ concat chunks)"
proof (induction chunks arbitrary: s m)
  case Nil
  then show ?case by simp
next
  case (Cons c chunks)
  from Cons.IH [OF sha_update_holds [OF Cons.prems, of c]] show ?case by simp
qed

section \<open>Sources\<close>

definition sha_is_cancelled :: "sha256_error \<Rightarrow> bool" where
  "sha_is_cancelled e = (sha_kind e = Sha_cancelled)"

lemma sha_cancelled_simp [simp]: "sha_is_cancelled (sha_cancelled_error offset)"
  by (simp add: sha_is_cancelled_def sha_cancelled_error_def sha_error_def)

lemma sha_source_loop_agrees:
  "agrees_unless sha_is_cancelled (sha_source_loop source stop buffer offset s)
     (sha_source_loop source never_stop buffer offset s)"
proof (induction source stop buffer offset s rule: sha_source_loop.induct)
  case (1 source stop buffer offset s)
  show ?case
    unfolding sha_source_loop.simps [of source stop buffer] sha_source_loop.simps [of source never_stop buffer] Let_def
    by (intro agrees_unless_intros "1.IH" refl; simp)
qed

lemma compute_sha256_agrees:
  "agrees_unless sha_is_cancelled (compute_sha256 source stop) (compute_sha256 source never_stop)"
  unfolding compute_sha256_def
  by (intro agrees_unless_intros sha_source_loop_agrees) simp_all

context image_content
begin

lemma sha_source_loop_holds:
  assumes "sha_source_loop source stop buffer offset s t = (Inr (offset', s'), t')"
    and "sha_holds s (take offset content)" and "offset \<le> length content"
    and "length buffer = kSha256SourceReadSize"
  shows "sha_holds s' content"
  using assms
proof (induction "length content - offset" arbitrary: buffer offset s t rule: less_induct)
  case less
  note loop = less.prems(1) [unfolded sha_source_loop.simps [of source stop buffer] Let_def]
  show ?case
  proof (cases "offset < is_size source")
    case False
    with loop less.prems(2,3) size_content show ?thesis by (simp add: preturn_def)
  next
    case True
    define req where "req = min (is_size source - offset) kSha256SourceReadSize"
    have req: "req \<le> kSha256SourceReadSize" by (simp add: req_def)
    from loop [folded req_def] True obtain n data t1 where
      rd: "is_read_at source offset req = Inr (n, data)" and n: "0 < n" "n \<le> req"
      and rec: "sha_source_loop source stop (write_span (take req buffer) 0 data @ drop req buffer)
        (offset + n) (sha_update (take n (write_span (take req buffer) 0 data @ drop req buffer)) s)
        t1 = (Inr (offset', s'), t')"
      by (auto simp: not_less simp del: take_append split: sum.splits if_splits prod.splits)
    define buffer' where "buffer' = write_span (take req buffer) 0 data @ drop req buffer"
    from read_content [OF rd n(2)] n(1) True size_content
    have data: "n \<le> length data" "offset + n \<le> length content"
      "take n data = take n (drop offset content)" by auto
    have len: "length (write_span (take req buffer) 0 data) = req"
      using less.prems(4) req by simp
    have "take n (write_span (take req buffer) 0 data) = take n data"
      using take_write_span [of n data 0 "take req buffer"] data(1) n(2) less.prems(4) req by simp
    then have "take n buffer' = take n (drop offset content)"
      using n(2) len data(3) by (simp add: buffer'_def)
    then have "sha_holds (sha_update (take n buffer') s) (take (offset + n) content)"
      using sha_update_holds [OF less.prems(2), of "take n buffer'"] by (simp add: take_add)
    moreover have "length buffer' = kSha256SourceReadSize"
      using len less.prems(4) req by (simp add: buffer'_def)
    ultimately show ?thesis
      using less.hyps [OF _ rec [folded buffer'_def]] data n(1) by simp
  qed
qed

lemma compute_sha256_digest:
  assumes "compute_sha256 source stop t = (Inr digest, t')"
  shows "digest = sha256 content"
proof -
  from assms obtain offset s t1 t2 where
    loop: "sha_source_loop source stop (replicate kSha256SourceReadSize 0) 0 new_sha256_state t1 =
      (Inr (offset, s), t2)" and digest: "digest = sha_finish s"
    by (auto simp: compute_sha256_def split: if_splits)
  have "sha_holds s content"
    using sha_source_loop_holds [OF loop] sha_holds_new by simp
  with digest show ?thesis by (simp add: sha_finish_eq)
qed

end

text \<open>A source that always makes progress is hashed to the end.\<close>

lemma sha_source_loop_returns:
  assumes "\<And>offset n. 0 < n \<Longrightarrow> \<exists>k. policy offset n = Inr k \<and> 0 < k \<and> k \<le> n"
  shows "\<exists>r t'. sha_source_loop (policy_source content policy) never_stop buffer offset s t = (Inr r, t')"
proof (induction "length content - offset" arbitrary: buffer offset s t rule: less_induct)
  case less
  let ?src = "policy_source content policy"
  show ?case
  proof (cases "offset < length content")
    case False
    then show ?thesis
      by (simp add: sha_source_loop.simps policy.size_content preturn_def)
  next
    case True
    define req where "req = min (length content - offset) kSha256SourceReadSize"
    have "0 < req" using True by (simp add: req_def kSha256SourceReadSize_def)
    then obtain k where k: "policy offset req = Inr k" "0 < k" "k \<le> req" using assms by blast
    have "k \<le> length content - offset" using k(3) by (simp add: req_def)
    then have "is_read_at ?src offset req = Inr (k, take k (drop offset content))"
      using k by (simp add: policy_source_def Let_def)
    moreover have "length content - (offset + k) < length content - offset" using k True by simp
    note less.hyps [OF this]
    ultimately show ?thesis
      using True k
      by (simp add: sha_source_loop.simps [of ?src never_stop buffer offset] policy.size_content
          pbind_def poll_def never_stop_def Let_def flip: req_def)
  qed
qed

section \<open>Properties\<close>

text \<open>
  C14. The incremental hash is SHA-256: for every way to cut a message into updates, also empty ones and
  ones that straddle blocks, the accumulator finishes with the digest that the standard gives for the
  whole message.
\<close>

theorem sha256_incremental:
  "sha_finish (foldl (\<lambda>s chunk. sha_update chunk s) new_sha256_state chunks) = sha256 (concat chunks)"
  using sha_finish_eq foldl_sha_update_holds [OF sha_holds_new] by simp

text \<open>
  C37. Hashing a source. Whatever a source does within its contract (short reads, errors) and whenever
  cancellation strikes, a digest that \<^verbatim>\<open>compute_sha256\<close> returns is the SHA-256 of the content; a stop
  request can only turn the outcome into the cancellation error; and without one, a source that makes
  progress on every read and is not too large is always hashed.
\<close>

theorem compute_sha256_correct:
  "(\<forall>stop t digest. fst (compute_sha256 (policy_source content policy) stop t) = Inr digest \<longrightarrow>
      digest = sha256 content)
   \<and> (\<forall>stop t t0. fst (compute_sha256 (policy_source content policy) stop t) =
        fst (compute_sha256 (policy_source content policy) never_stop t0) \<or>
      (\<exists>e. fst (compute_sha256 (policy_source content policy) stop t) = Inl e \<and> sha_kind e = Sha_cancelled))
   \<and> (length content \<le> kSha256MaxInputSize \<and>
      (\<forall>offset n. 0 < n \<longrightarrow> (\<exists>k. policy offset n = Inr k \<and> 0 < k \<and> k \<le> n)) \<longrightarrow>
      fst (compute_sha256 (policy_source content policy) never_stop 0) = Inr (sha256 content))"
proof (intro conjI allI impI)
  fix stop t digest
  assume "fst (compute_sha256 (policy_source content policy) stop t) = Inr digest"
  then show "digest = sha256 content"
    using policy.compute_sha256_digest by (metis prod.collapse)
next
  fix stop t t0
  show "fst (compute_sha256 (policy_source content policy) stop t) =
        fst (compute_sha256 (policy_source content policy) never_stop t0) \<or>
      (\<exists>e. fst (compute_sha256 (policy_source content policy) stop t) = Inl e \<and> sha_kind e = Sha_cancelled)"
    using compute_sha256_agrees [of "policy_source content policy" stop]
    unfolding agrees_unless_def sha_is_cancelled_def by blast
next
  assume *: "length content \<le> kSha256MaxInputSize \<and>
      (\<forall>offset n. 0 < n \<longrightarrow> (\<exists>k. policy offset n = Inr k \<and> 0 < k \<and> k \<le> n))"
  let ?src = "policy_source content policy"
  obtain offset s t' where "sha_source_loop ?src never_stop (replicate kSha256SourceReadSize 0) 0
      new_sha256_state 1 = (Inr (offset, s), t')"
    using sha_source_loop_returns [of policy content] * by (metis prod.collapse)
  then have "\<exists>digest t'. compute_sha256 ?src never_stop 0 = (Inr digest, t')"
    using * by (simp add: compute_sha256_def policy.size_content pbind_def poll_def never_stop_def preturn_def)
  then show "fst (compute_sha256 ?src never_stop 0) = Inr (sha256 content)"
    using policy.compute_sha256_digest by (metis fst_conv)
qed

theorem compute_sha256_correct_witness:
  "fst (compute_sha256 (policy_source [1, 2, 3] (\<lambda>offset n. Inr 1)) never_stop 0) = Inr (sha256 [1, 2, 3])"
  using compute_sha256_correct [of "[1, 2, 3]" "\<lambda>offset n. Inr 1"]
  by (simp add: kSha256MaxInputSize_def)

end
