(* ===== verification/Sha256_Vector.thy ===== *)
theory Sha256_Vector
  imports Sha256_Spec
begin

text \<open>
  The published test vector of SHA-256 for the message \<open>abc\<close>, evaluated in the kernel on the code's own
  compression function: it exercises the round constants, the initial value, the schedule and the
  rounds.
\<close>

definition abc_block :: "byte list" where
  "abc_block = [0x61, 0x62, 0x63, 0x80] @ replicate 59 0 @ [0x18]"

text \<open>The message schedule and the working variables after every sixteen rounds.\<close>

definition abc_schedule :: "u32 list" where
  "abc_schedule =
    [0x61626380, 0x00000000, 0x00000000, 0x00000000, 0x00000000, 0x00000000, 0x00000000, 0x00000000,
     0x00000000, 0x00000000, 0x00000000, 0x00000000, 0x00000000, 0x00000000, 0x00000000, 0x00000018,
     0x61626380, 0x000f0000, 0x7da86405, 0x600003c6, 0x3e9d7b78, 0x0183fc00, 0x12dcbfdb, 0xe2e2c38e,
     0xc8215c1a, 0xb73679a2, 0xe5bc3909, 0x32663c5b, 0x9d209d67, 0xec8726cb, 0x702138a4, 0xd3b7973b,
     0x93f5997f, 0x3b68ba73, 0xaff4ffc1, 0xf10a5c62, 0x0a8b3996, 0x72af830a, 0x9409e33e, 0x24641522,
     0x9f47bf94, 0xf0a64f5a, 0x3e246a79, 0x27333ba3, 0x0c4763f2, 0x840abf27, 0x7a290d5d, 0x065c43da,
     0xfb3e89cb, 0xcc7617db, 0xb9e66c34, 0xa9993667, 0x84badedd, 0xc21462bc, 0x1487472c, 0xb20f7a99,
     0xef57b9cd, 0xebe6b238, 0x9fe3095e, 0x78bc8d4b, 0xa43fcf15, 0x668b2ff8, 0xeeaba2cc, 0x12b1edeb]"

lemma message_schedule_abc: "message_schedule abc_block = abc_schedule"
  by code_simp

definition abc_rounds :: "nat \<Rightarrow> nat \<Rightarrow> u32 list \<Rightarrow> u32 list" where
  "abc_rounds i j v = foldl (\<lambda>v i. sha_round abc_schedule i v) v [i..<j]"

lemma abc_rounds_append: "i \<le> j \<Longrightarrow> j \<le> k \<Longrightarrow> abc_rounds i k v = abc_rounds j k (abc_rounds i j v)"
  using upt_add_eq_append [of i j "k - j"] by (simp add: abc_rounds_def)

lemma abc_rounds_16:
  "abc_rounds 0 16 initial_state =
     [0xb0fa238e, 0xc0645fde, 0xd932eb16, 0x87912990, 0x07590dcd, 0x0b92f20c, 0x745a48de, 0x1e578218]"
  by code_simp

lemma abc_rounds_32:
  "abc_rounds 16 32 
     [0xb0fa238e, 0xc0645fde, 0xd932eb16, 0x87912990, 0x07590dcd, 0x0b92f20c, 0x745a48de, 0x1e578218] =
     [0x73b33bf5, 0xea992a22, 0xa0060b30, 0x363482c9, 0xba591112, 0x0109ab3a, 0xade79437, 0x6112a3b7]"
  by code_simp

lemma abc_rounds_48:
  "abc_rounds 32 48 
     [0x73b33bf5, 0xea992a22, 0xa0060b30, 0x363482c9, 0xba591112, 0x0109ab3a, 0xade79437, 0x6112a3b7] =
     [0x4172328d, 0xa14c14b0, 0x72ab4b91, 0x26628815, 0xfecf0bc6, 0xd57b94a9, 0xb7755da1, 0xa80f11f0]"
  by code_simp

lemma abc_rounds_64:
  "abc_rounds 48 64 
     [0x4172328d, 0xa14c14b0, 0x72ab4b91, 0x26628815, 0xfecf0bc6, 0xd57b94a9, 0xb7755da1, 0xa80f11f0] =
     [0x506e3058, 0xd39a2165, 0x04d24d6c, 0xb85e2ce9, 0x5ef50f24, 0xfb121210, 0x948d25b6, 0x961f4894]"
  by code_simp

lemma transform_abc:
  "transform abc_block initial_state =
     [0xba7816bf, 0x8f01cfea, 0x414140de, 0x5dae2223, 0xb00361a3, 0x96177a9c, 0xb410ff61, 0xf20015ad]"
proof -
  have "abc_rounds 0 64 initial_state =
      abc_rounds 48 64 (abc_rounds 32 48 (abc_rounds 16 32 (abc_rounds 0 16 initial_state)))"
    by (simp add: abc_rounds_append [of 0 48 64] abc_rounds_append [of 0 32 48] abc_rounds_append [of 0 16 32])
  also have "\<dots> =
     [0x506e3058, 0xd39a2165, 0x04d24d6c, 0xb85e2ce9, 0x5ef50f24, 0xfb121210, 0x948d25b6, 0x961f4894]"
    by (simp only: abc_rounds_16 abc_rounds_32 abc_rounds_48 abc_rounds_64)
  finally have "abc_rounds 0 64 initial_state =
     [0x506e3058, 0xd39a2165, 0x04d24d6c, 0xb85e2ce9, 0x5ef50f24, 0xfb121210, 0x948d25b6, 0x961f4894]" .
  then have final: "foldl (\<lambda>v i. sha_round abc_schedule i v) initial_state [0..<64] =
      abc_rounds 0 64 initial_state" and rounds: "abc_rounds 0 64 initial_state = [0x506e3058, 0xd39a2165, 0x04d24d6c, 0xb85e2ce9, 0x5ef50f24, 0xfb121210, 0x948d25b6, 0x961f4894]"
    by (simp_all only: abc_rounds_def)
  have "transform abc_block initial_state = map2 (+) initial_state [0x506e3058, 0xd39a2165, 0x04d24d6c, 0xb85e2ce9, 0x5ef50f24, 0xfb121210, 0x948d25b6, 0x961f4894]"
    unfolding transform_def message_schedule_abc Let_def final rounds ..
  then show ?thesis by (simp add: initial_state_def)
qed

lemma small_ranges: "[0..<4] = [0, 1, 2, 3 :: nat]" "[0..<8] = [0, 1, 2, 3, 4, 5, 6, 7 :: nat]"
  by code_simp+

lemma abc_padded: "string_bytes ''abc'' @ sha_padding 3 = abc_block"
proof -
  have text_bytes: "string_bytes ''abc'' = [0x61, 0x62, 0x63]" by code_simp
  have "big_endian 8 24 = replicate 7 0 @ [0x18]"
    by (simp add: big_endian_def small_ranges) (simp add: numeral_eq_Suc)
  then have "sha_padding 3 = 0x80 # replicate 52 0 @ replicate 7 0 @ [0x18]"
    by (simp add: sha_padding_def)
  moreover have "replicate 59 (0 :: byte) = replicate 52 0 @ replicate 7 0"
    using replicate_add [of 52 7 "0 :: byte"] by simp
  ultimately show ?thesis by (simp add: abc_block_def text_bytes)
qed

lemma abc_digest:
  "digest_of (transform abc_block initial_state) =
     [0xba, 0x78, 0x16, 0xbf, 0x8f, 0x01, 0xcf, 0xea, 0x41, 0x41, 0x40, 0xde, 0x5d, 0xae, 0x22, 0x23,
      0xb0, 0x03, 0x61, 0xa3, 0x96, 0x17, 0x7a, 0x9c, 0xb4, 0x10, 0xff, 0x61, 0xf2, 0x00, 0x15, 0xad]"
  by (simp add: transform_abc digest_of_def big_endian_def small_ranges)

text \<open>
  The known answer: hashing the three octets of \<open>abc\<close> gives the digest published with the standard,
  in the lower-case hexadecimal form that \<^verbatim>\<open>sha256_hex\<close> prints.
\<close>

theorem sha256_abc:
  "sha256_hex (sha_finish (sha_update (string_bytes ''abc'') new_sha256_state)) =
     ''ba7816bf8f01cfea414140de5dae2223b00361a396177a9cb410ff61f20015ad''"
proof -
  have "sha_finish (sha_update (string_bytes ''abc'') new_sha256_state) = sha256 (string_bytes ''abc'')"
    using sha_finish_eq [OF sha_update_holds [OF sha_holds_new]] by simp
  also have "\<dots> = digest_of (transform abc_block initial_state)"
  proof -
    have "length initial_state = 8" by (simp add: initial_state_def)
    moreover have "absorb initial_state abc_block = (transform abc_block initial_state, [])"
      using absorb_block [of abc_block initial_state "[]"] by (simp add: absorb_short abc_block_def)
    ultimately show ?thesis by (simp add: sha256_def sha_chain_absorb abc_padded numeral_3_eq_3 [symmetric])
  qed
  finally have digest: "sha_finish (sha_update (string_bytes ''abc'') new_sha256_state) =
      digest_of (transform abc_block initial_state)" .
  show ?thesis unfolding digest abc_digest by code_simp
qed

end
