(* ===== verification/Adaptive_Tuner.thy ===== *)
theory Adaptive_Tuner
  imports KB_Prelude
begin

text \<open>
  The bounded AIMD controller of \<^verbatim>\<open>src/transport/adaptive_tuner.{hpp,cpp}\<close>. Throughput is computed in
  \<^verbatim>\<open>double\<close>; its operations are a record \<open>double_ops\<close> over an arbitrary type, so that the results hold for
  every rounding, for infinities and for NaN.
\<close>

section \<open>Data\<close>

definition kMinimumTunedChunk :: nat where "kMinimumTunedChunk = 256 * 1024"
definition kMaximumTunedChunk :: nat where "kMaximumTunedChunk = 4 * 1024 * 1024"
definition kDefaultTunedChunk :: nat where "kDefaultTunedChunk = 1024 * 1024"
definition kMinimumTunedDepth :: nat where "kMinimumTunedDepth = 2"
definition kMaximumTunedDepth :: nat where "kMaximumTunedDepth = 32"
definition kDefaultTunedDepth :: nat where "kDefaultTunedDepth = 8"

record tuning_bounds =
  minimum_chunk :: nat
  maximum_chunk :: nat
  minimum_depth :: nat
  maximum_depth :: nat

definition default_bounds :: tuning_bounds where
  "default_bounds = \<lparr>minimum_chunk = kMinimumTunedChunk, maximum_chunk = kMaximumTunedChunk,
     minimum_depth = kMinimumTunedDepth, maximum_depth = kMaximumTunedDepth\<rparr>"

record tuning_decision =
  chunk_size :: nat
  depth :: nat

text \<open>\<open>elapsed\<close> is the signed count of nanoseconds.\<close>

record tuning_sample =
  completed_bytes :: nat
  elapsed :: int
  queue_starved :: bool
  memory_pressure :: bool
  transport_error :: bool

datatype tuning_sample_error = Empty_sample | Non_positive_duration

text \<open>
  The \<^verbatim>\<open>double\<close> operations in use: zero and its test, the throughput of a byte count over a duration, the
  relative change \<^verbatim>\<open>measured / ewma - 1.0\<close>, the comparisons with \<^verbatim>\<open>0.03\<close> and \<^verbatim>\<open>-0.075\<close>, and the moving
  average \<^verbatim>\<open>ewma * 0.75 + measured * 0.25\<close>.
\<close>

record 'd double_ops =
  d_zero :: 'd
  d_is_zero :: "'d \<Rightarrow> bool"
  d_throughput :: "nat \<Rightarrow> int \<Rightarrow> 'd"
  d_relative_change :: "'d \<Rightarrow> 'd \<Rightarrow> 'd"
  d_improved :: "'d \<Rightarrow> bool"
  d_degraded :: "'d \<Rightarrow> bool"
  d_average :: "'d \<Rightarrow> 'd \<Rightarrow> 'd"

record 'd tuner =
  tuner_bounds :: tuning_bounds
  decision :: tuning_decision
  throughput_ewma :: 'd
  consecutive_improvements :: nat

section \<open>Operations\<close>

definition doubled_clamped :: "nat \<Rightarrow> nat \<Rightarrow> nat" where
  "doubled_clamped v maximum =
     (if v \<ge> maximum \<or> v > maximum - v then maximum else min maximum (v + v))"

text \<open>\<^verbatim>\<open>std::clamp\<close>.\<close>

definition clamp :: "nat \<Rightarrow> nat \<Rightarrow> nat \<Rightarrow> nat" where
  "clamp v lo hi = (if v < lo then lo else if hi < v then hi else v)"

definition reset_tuner :: "'d double_ops \<Rightarrow> 'd tuner \<Rightarrow> 'd tuner" where
  "reset_tuner ops t =
     t\<lparr>decision :=
         \<lparr>chunk_size = clamp kDefaultTunedChunk (minimum_chunk (tuner_bounds t)) (maximum_chunk (tuner_bounds t)),
          depth = clamp kDefaultTunedDepth (minimum_depth (tuner_bounds t)) (maximum_depth (tuner_bounds t))\<rparr>,
       throughput_ewma := d_zero ops, consecutive_improvements := 0\<rparr>"

text \<open>The constructor; \<open>None\<close> is the exception \<^verbatim>\<open>std::invalid_argument\<close>.\<close>

definition new_tuner :: "'d double_ops \<Rightarrow> tuning_bounds \<Rightarrow> 'd tuner option" where
  "new_tuner ops bounds =
     (if minimum_chunk bounds = 0 \<or> minimum_depth bounds = 0 \<or>
         minimum_chunk bounds > maximum_chunk bounds \<or> minimum_depth bounds > maximum_depth bounds
      then None
      else Some (reset_tuner ops
        \<lparr>tuner_bounds = bounds,
         decision = \<lparr>chunk_size = kDefaultTunedChunk, depth = kDefaultTunedDepth\<rparr>,
         throughput_ewma = d_zero ops, consecutive_improvements = 0\<rparr>))"

definition current :: "'d tuner \<Rightarrow> tuning_decision" where
  "current t = decision t"

definition apply_multiplicative_decrease :: "bool \<Rightarrow> 'd tuner \<Rightarrow> 'd tuner" where
  "apply_multiplicative_decrease reduce_chunk t =
     (let d = decision t;
          d = d\<lparr>depth := max (minimum_depth (tuner_bounds t)) (depth d div 2)\<rparr>;
          d = (if reduce_chunk
               then d\<lparr>chunk_size := max (minimum_chunk (tuner_bounds t)) (chunk_size d div 2)\<rparr> else d)
      in t\<lparr>decision := d\<rparr>)"

definition increase_pipeline :: "'d tuner \<Rightarrow> 'd tuner" where
  "increase_pipeline t =
     (let d = decision t;
          increment = max 1 (depth d div 4)
      in if depth d \<ge> maximum_depth (tuner_bounds t) \<or>
            increment > maximum_depth (tuner_bounds t) - depth d
         then t\<lparr>decision := d\<lparr>depth := maximum_depth (tuner_bounds t)\<rparr>\<rparr>
         else t\<lparr>decision := d\<lparr>depth := depth d + increment\<rparr>\<rparr>)"

definition throughput :: "'d double_ops \<Rightarrow> tuning_sample \<Rightarrow> 'd" where
  "throughput ops sample = d_throughput ops (completed_bytes sample) (elapsed sample)"

text \<open>The branches on the relative change, without the final update of the average.\<close>

definition react :: "'d double_ops \<Rightarrow> bool \<Rightarrow> 'd \<Rightarrow> 'd tuner \<Rightarrow> 'd tuner" where
  "react ops starved relative_change t =
     (if d_improved ops relative_change then
        let t = increase_pipeline (t\<lparr>consecutive_improvements := consecutive_improvements t + 1\<rparr>) in
        if consecutive_improvements t \<ge> 2 then
          t\<lparr>decision := (decision t)\<lparr>chunk_size :=
              doubled_clamped (chunk_size (decision t)) (maximum_chunk (tuner_bounds t))\<rparr>,
            consecutive_improvements := 0\<rparr>
        else t
      else if d_degraded ops relative_change then
        (apply_multiplicative_decrease True t)\<lparr>consecutive_improvements := 0\<rparr>
      else if starved then (increase_pipeline t)\<lparr>consecutive_improvements := 0\<rparr>
      else t\<lparr>consecutive_improvements := 0\<rparr>)"

definition observe ::
    "'d double_ops \<Rightarrow> tuning_sample \<Rightarrow> 'd tuner \<Rightarrow> (tuning_sample_error + tuning_decision) \<times> 'd tuner" where
  "observe ops sample t =
     (if completed_bytes sample = 0 \<and> \<not> transport_error sample then (Inl Empty_sample, t)
      else if elapsed sample \<le> 0 \<and> \<not> transport_error sample then (Inl Non_positive_duration, t)
      else if transport_error sample then
        let t = (apply_multiplicative_decrease True t)
              \<lparr>throughput_ewma := d_zero ops, consecutive_improvements := 0\<rparr>
        in (Inr (decision t), t)
      else
        let measured = throughput ops sample in
        if memory_pressure sample then
          let t = (apply_multiplicative_decrease
                     (depth (decision t) = minimum_depth (tuner_bounds t)) t)
                \<lparr>throughput_ewma := measured, consecutive_improvements := 0\<rparr>
          in (Inr (decision t), t)
        else if d_is_zero ops (throughput_ewma t) then
          let t = t\<lparr>throughput_ewma := measured\<rparr> in (Inr (decision t), t)
        else
          let relative_change = d_relative_change ops measured (throughput_ewma t);
              t = react ops (queue_starved sample) relative_change t;
              t = t\<lparr>throughput_ewma := d_average ops (throughput_ewma t) measured\<rparr>
          in (Inr (decision t), t))"

section \<open>The bounds\<close>

definition within_bounds :: "tuning_bounds \<Rightarrow> tuning_decision \<Rightarrow> bool" where
  "within_bounds b d \<longleftrightarrow>
     0 < minimum_chunk b \<and> minimum_chunk b \<le> chunk_size d \<and> chunk_size d \<le> maximum_chunk b \<and>
     0 < minimum_depth b \<and> minimum_depth b \<le> depth d \<and> depth d \<le> maximum_depth b"

definition tuner_ok :: "tuning_bounds \<Rightarrow> 'd tuner \<Rightarrow> bool" where
  "tuner_ok b t \<longleftrightarrow> tuner_bounds t = b \<and> within_bounds b (decision t)"

lemma doubled_clamped_bounds: "v \<le> doubled_clamped v m" "doubled_clamped v m \<le> m" if "v \<le> m"
  using that by (auto simp: doubled_clamped_def)

lemma tuner_ok_decrease: "tuner_ok b t \<Longrightarrow> tuner_ok b (apply_multiplicative_decrease c t)"
  by (auto simp: tuner_ok_def within_bounds_def apply_multiplicative_decrease_def Let_def max_def)

lemma tuner_ok_increase: "tuner_ok b t \<Longrightarrow> tuner_ok b (increase_pipeline t)"
  by (auto simp: tuner_ok_def within_bounds_def increase_pipeline_def Let_def)

lemma tuner_ok_fields [simp]:
  "tuner_ok b (t\<lparr>throughput_ewma := x\<rparr>) = tuner_ok b t"
  "tuner_ok b (t\<lparr>consecutive_improvements := n\<rparr>) = tuner_ok b t"
  by (simp_all add: tuner_ok_def)

lemma tuner_ok_chunk:
  "tuner_ok b t \<Longrightarrow> tuner_ok b (t\<lparr>decision := (decision t)\<lparr>chunk_size :=
     doubled_clamped (chunk_size (decision t)) (maximum_chunk (tuner_bounds t))\<rparr>\<rparr>)"
  using doubled_clamped_bounds [of "chunk_size (decision t)" "maximum_chunk b"]
  by (auto simp: tuner_ok_def within_bounds_def)

lemma tuner_ok_react: "tuner_ok b t \<Longrightarrow> tuner_ok b (react ops starved change t)"
  by (auto simp: react_def Let_def intro!: tuner_ok_chunk tuner_ok_increase tuner_ok_decrease)

lemma tuner_ok_observe: "tuner_ok b t \<Longrightarrow> tuner_ok b (snd (observe ops sample t))"
  by (simp add: observe_def Let_def tuner_ok_react tuner_ok_decrease)

lemma tuner_ok_new: "new_tuner ops bounds = Some t \<Longrightarrow> tuner_ok bounds t"
  by (auto simp: new_tuner_def reset_tuner_def tuner_ok_def within_bounds_def clamp_def split: if_splits)

lemma tuner_ok_run:
  "tuner_ok b t \<Longrightarrow> tuner_ok b (foldl (\<lambda>t sample. snd (observe ops sample t)) t samples)"
  by (induction samples arbitrary: t) (simp_all add: tuner_ok_observe)

section \<open>Properties\<close>

text \<open>
  C38. Bounds of the controller. Of a tuner that was constructed, after any sequence of samples, whatever the floating-point results are, the chunk size and the queue depth
  stay positive and within the bounds; a sample that is refused changes nothing; a transport error sets
  both to half their value (rounded down) or to their minimum, whichever is larger; and every
  observation at most doubles the depth and at most halves it, rounding down.
\<close>

theorem tuner_stays_bounded:
  assumes "new_tuner ops bounds = Some t0"
    and "t = foldl (\<lambda>t sample. snd (observe ops sample t)) t0 samples"
    and "observe ops sample t = (result, t')"
  shows "within_bounds bounds (current t) \<and> within_bounds bounds (current t')
    \<and> (\<forall>e. result = Inl e \<longrightarrow> t' = t)
    \<and> (\<forall>d. result = Inr d \<longrightarrow> d = current t')
    \<and> (transport_error sample \<longrightarrow>
        chunk_size (current t') = max (minimum_chunk bounds) (chunk_size (current t) div 2) \<and>
        depth (current t') = max (minimum_depth bounds) (depth (current t) div 2))
    \<and> depth (current t') \<le> 2 * depth (current t) \<and> depth (current t) \<le> 2 * depth (current t') + 1"
proof -
  have ok: "tuner_ok bounds t" using tuner_ok_run tuner_ok_new assms(1,2) by blast
  then have ok': "tuner_ok bounds t'" using tuner_ok_observe [of bounds t ops sample] assms(3) by simp
  have dec: "depth (decision u) \<le> 2 * depth (decision t) \<and> depth (decision t) \<le> 2 * depth (decision u) + 1"
    if "u = apply_multiplicative_decrease c t" for u c
    using ok that by (auto simp: tuner_ok_def within_bounds_def apply_multiplicative_decrease_def Let_def max_def)
  have inc: "depth (decision (increase_pipeline u)) \<le> 2 * depth (decision t) \<and>
      depth (decision t) \<le> 2 * depth (decision (increase_pipeline u)) + 1"
    if "decision u = decision t" "tuner_bounds u = tuner_bounds t" for u :: "'a tuner"
    using ok that by (auto simp: tuner_ok_def within_bounds_def increase_pipeline_def Let_def max_def)
  have step: "depth (decision t') \<le> 2 * depth (decision t) \<and> depth (decision t) \<le> 2 * depth (decision t') + 1"
    using assms(3) dec inc [of "t\<lparr>consecutive_improvements := consecutive_improvements t + 1\<rparr>"] inc [of t]
    by (auto simp: observe_def react_def Let_def split: if_splits)
  have error: "chunk_size (decision t') = max (minimum_chunk bounds) (chunk_size (decision t) div 2) \<and>
      depth (decision t') = max (minimum_depth bounds) (depth (decision t) div 2)"
    if "transport_error sample"
    using assms(3) that ok
    by (auto simp: observe_def apply_multiplicative_decrease_def tuner_ok_def Let_def)
  have "(\<forall>e. result = Inl e \<longrightarrow> t' = t) \<and> (\<forall>d. result = Inr d \<longrightarrow> d = decision t')"
    using assms(3) by (auto simp: observe_def Let_def split: if_splits)
  with ok ok' step error show ?thesis by (simp add: current_def tuner_ok_def)
qed

definition unit_ops :: "unit double_ops" where
  "unit_ops = \<lparr>d_zero = (), d_is_zero = (\<lambda>_. False), d_throughput = (\<lambda>_ _. ()),
     d_relative_change = (\<lambda>_ _. ()), d_improved = (\<lambda>_. True), d_degraded = (\<lambda>_. False),
     d_average = (\<lambda>_ _. ())\<rparr>"

theorem tuner_stays_bounded_witness:
  "\<exists>t0 :: unit tuner. new_tuner unit_ops default_bounds = Some t0 \<and>
     within_bounds default_bounds (current (snd (observe unit_ops
       \<lparr>completed_bytes = 1, elapsed = 1, queue_starved = False, memory_pressure = False,
        transport_error = False\<rparr> t0)))"
proof -
  obtain t0 :: "unit tuner" where t0: "new_tuner unit_ops default_bounds = Some t0"
    by (simp add: new_tuner_def default_bounds_def kMinimumTunedChunk_def kMaximumTunedChunk_def
        kMinimumTunedDepth_def kMaximumTunedDepth_def)
  let ?s = "\<lparr>completed_bytes = 1, elapsed = 1, queue_starved = False, memory_pressure = False,
    transport_error = False\<rparr>"
  show ?thesis
    using t0 tuner_stays_bounded [OF t0, of t0 "[]" ?s "fst (observe unit_ops ?s t0)"] by auto
qed

end
