(* ===== verification/Variable_Parser.thy ===== *)
theory Variable_Parser
  imports KB_Prelude
begin

text \<open>
  \<^verbatim>\<open>parse_unsigned_variable\<close> of \<^verbatim>\<open>src/fastboot/variable_parser.hpp\<close>, which reads the numeric payloads of
  \<^verbatim>\<open>getvar\<close> replies, and the exact set of strings it accepts.
\<close>

definition whitespace :: "char \<Rightarrow> bool" where
  "whitespace c = (of_char c \<in> {32, 9, 13, 10, 12, 11 :: nat})"

text \<open>\<^verbatim>\<open>find_first_not_of\<close> and \<^verbatim>\<open>find_last_not_of\<close> with \<^verbatim>\<open>substr\<close>: \<open>None\<close> is \<^verbatim>\<open>npos\<close>.\<close>

definition trim_variable :: "string \<Rightarrow> string option" where
  "trim_variable s =
     (case dropWhile whitespace s of
        [] \<Rightarrow> None
      | t \<Rightarrow> Some (rev (dropWhile whitespace (rev t))))"

definition parse_unsigned_variable :: "string \<Rightarrow> nat option" where
  "parse_unsigned_variable s =
     (case trim_variable s of
        None \<Rightarrow> None
      | Some v \<Rightarrow>
          let (base, v) =
            (if length v > 2 \<and> v ! 0 = CHR ''0'' \<and> (v ! 1 = CHR ''x'' \<or> v ! 1 = CHR ''X'')
             then (16, drop 2 v) else (10, v))
          in if v = [] then None
             else case from_chars u64_max base v of
               (ec, result, rest) \<Rightarrow> if ec \<noteq> Errc_ok \<or> rest \<noteq> [] then None else Some result)"

section \<open>Trimming\<close>

definition trimmed :: "string \<Rightarrow> bool" where
  "trimmed v \<longleftrightarrow> v \<noteq> [] \<and> \<not> whitespace (hd v) \<and> \<not> whitespace (last v)"

lemma dropWhile_rev_last:
  assumes "t \<noteq> []" and "\<not> P (hd t)" and v: "v = rev (dropWhile P (rev t))"
  shows "t = v @ rev (takeWhile P (rev t))" and "v \<noteq> []" and "hd v = hd t" and "\<not> P (last v)"
proof -
  show t: "t = v @ rev (takeWhile P (rev t))"
    unfolding v by (metis rev_append rev_rev_ident takeWhile_dropWhile_id)
  have "hd t \<in> set (rev t)" using assms(1) by simp
  then have ne: "dropWhile P (rev t) \<noteq> []" using assms(2) by (auto simp: dropWhile_eq_Nil_conv)
  then show "v \<noteq> []" by (simp add: v)
  then show "hd v = hd t" using t by (metis hd_append2)
  show "\<not> P (last v)" using hd_dropWhile [OF ne] by (simp add: v last_rev)
qed

lemma trim_variable_Some:
  "trim_variable s = Some v \<Longrightarrow>
     \<exists>pre post. s = pre @ v @ post \<and> (\<forall>c \<in> set pre. whitespace c) \<and> (\<forall>c \<in> set post. whitespace c) \<and> trimmed v"
proof -
  assume trim: "trim_variable s = Some v"
  define t where "t = dropWhile whitespace s"
  from trim have t: "t \<noteq> []" "v = rev (dropWhile whitespace (rev t))"
    by (cases t; simp add: trim_variable_def flip: t_def)+
  have hd: "\<not> whitespace (hd t)" using t(1) hd_dropWhile [of whitespace s] by (simp add: t_def)
  note v = dropWhile_rev_last [where P = whitespace, OF t(1) hd t(2)]
  let ?pre = "takeWhile whitespace s" and ?post = "rev (takeWhile whitespace (rev t))"
  have "s = ?pre @ v @ ?post" using v(1) takeWhile_dropWhile_id [of whitespace s] by (simp add: t_def)
  moreover have "\<forall>c \<in> set ?pre. whitespace c" "\<forall>c \<in> set ?post. whitespace c"
    by (auto dest: set_takeWhileD)
  moreover have "trimmed v" using v(2-4) hd by (simp add: trimmed_def)
  ultimately show ?thesis by blast
qed

lemma dropWhile_append_all: "(\<forall>c \<in> set pre. P c) \<Longrightarrow> dropWhile P (pre @ xs) = dropWhile P xs"
  by (induction pre) auto

lemma trim_variable_pad:
  assumes "\<forall>c \<in> set pre. whitespace c" and "\<forall>c \<in> set post. whitespace c" and "trimmed v"
  shows "trim_variable (pre @ v @ post) = Some v"
proof -
  obtain c cs where v: "v = c # cs" and c: "\<not> whitespace c" using assms(3) by (cases v) (auto simp: trimmed_def)
  have "dropWhile whitespace (pre @ v @ post) = v @ post"
    using dropWhile_append_all [OF assms(1), of "v @ post"] v c by simp
  moreover have "dropWhile whitespace (rev (v @ post)) = rev v"
  proof -
    have "dropWhile whitespace (rev post @ rev v) = dropWhile whitespace (rev v)"
      using assms(2) by (intro dropWhile_append_all) simp
    moreover have "dropWhile whitespace (rev v) = rev v"
      using assms(3) by (cases "rev v") (auto simp: trimmed_def last_conv_nth hd_rev simp flip: hd_rev)
    ultimately show ?thesis by simp
  qed
  ultimately show ?thesis using v by (simp add: trim_variable_def)
qed

section \<open>The accepted strings\<close>

text \<open>A numeral: decimal digits, or hexadecimal digits behind \<open>0x\<close> or \<open>0X\<close>.\<close>

definition variable_numeral :: "string \<Rightarrow> nat \<Rightarrow> bool" where
  "variable_numeral v n \<longleftrightarrow> n \<le> u64_max \<and>
     ((v \<noteq> [] \<and> (\<forall>c \<in> set v. is_digit 10 c) \<and> n = digits_value 10 0 v) \<or>
      (\<exists>x h. v = CHR ''0'' # x # h \<and> (x = CHR ''x'' \<or> x = CHR ''X'') \<and> h \<noteq> [] \<and>
         (\<forall>c \<in> set h. is_digit 16 c) \<and> n = digits_value 16 0 h))"

lemma digit_not_whitespace: "is_digit 16 c \<Longrightarrow> \<not> whitespace c"
  by (auto simp: is_digit_def digit_value_def whitespace_def Let_def split: if_splits)

lemma digit_10_16: "is_digit 10 c \<Longrightarrow> is_digit 16 c"
  by (auto simp: is_digit_def split: option.splits)

lemma not_digit_x: "\<not> is_digit 10 CHR ''x''" "\<not> is_digit 10 CHR ''X''"
  by (simp_all add: is_digit_def digit_value_def of_char_def Let_def)

lemma variable_numeral_trimmed: "variable_numeral v n \<Longrightarrow> trimmed v"
proof -
  assume num: "variable_numeral v n"
  have zero: "\<not> whitespace CHR ''0''" by (simp add: whitespace_def of_char_def)
  have "v \<noteq> [] \<and> \<not> whitespace (hd v) \<and> (last v \<in> set v \<and> is_digit 16 (last v))"
    using num zero digit_not_whitespace digit_10_16 unfolding variable_numeral_def
    by (metis hd_in_set last.simps last_in_set list.distinct(1) list.sel(1) list.set_intros(2))
  then show ?thesis using digit_not_whitespace by (auto simp: trimmed_def)
qed

lemma parse_trimmed:
  assumes "trim_variable s = Some v"
  shows "parse_unsigned_variable s = Some n \<longleftrightarrow> variable_numeral v n"
proof -
  have complete: "(case from_chars u64_max base w of
      (ec, result, rest) \<Rightarrow> if ec \<noteq> Errc_ok \<or> rest \<noteq> [] then None else Some result) = Some n \<longleftrightarrow>
    w \<noteq> [] \<and> (\<forall>c \<in> set w. is_digit base c) \<and> n = digits_value base 0 w \<and> n \<le> u64_max" for base w
    using from_chars_complete_iff [of u64_max base w n] by (auto split: prod.splits)
  show ?thesis
  proof (cases "length v > 2 \<and> v ! 0 = CHR ''0'' \<and> (v ! 1 = CHR ''x'' \<or> v ! 1 = CHR ''X'')")
    case True
    then obtain x h where v: "v = CHR ''0'' # x # h" "x = CHR ''x'' \<or> x = CHR ''X''" "h \<noteq> []"
      by (cases v; cases "tl v") auto
    with assms True complete [of 16 h] not_digit_x show ?thesis
      by (auto simp: parse_unsigned_variable_def variable_numeral_def)
  next
    case False
    with assms complete [of 10 v] show ?thesis
      by (auto simp: parse_unsigned_variable_def variable_numeral_def)
  qed
qed

text \<open>
  C39. \<^verbatim>\<open>parse_unsigned_variable\<close> accepts exactly the numerals that fit 64 bits, decimal or hexadecimal with
  a prefix, surrounded by any ASCII white space, and returns their value; signs, empty and partial
  numerals, embedded white space and larger values are refused.
\<close>

theorem parse_unsigned_variable_iff:
  "parse_unsigned_variable s = Some n \<longleftrightarrow>
     (\<exists>pre v post. s = pre @ v @ post \<and> list_all whitespace pre \<and> list_all whitespace post \<and>
        variable_numeral v n)"
proof
  assume parse: "parse_unsigned_variable s = Some n"
  then obtain v where v: "trim_variable s = Some v"
    by (auto simp: parse_unsigned_variable_def split: option.splits)
  with parse parse_trimmed have "variable_numeral v n" by simp
  with trim_variable_Some [OF v] show "\<exists>pre v post. s = pre @ v @ post \<and> list_all whitespace pre \<and>
      list_all whitespace post \<and> variable_numeral v n"
    by (auto simp: list_all_iff)
next
  assume "\<exists>pre v post. s = pre @ v @ post \<and> list_all whitespace pre \<and> list_all whitespace post \<and>
      variable_numeral v n"
  then show "parse_unsigned_variable s = Some n"
    using trim_variable_pad variable_numeral_trimmed parse_trimmed
    by (auto simp: list_all_iff)
qed

end
