(* ===== verification/Update_Plan.thy ===== *)
theory Update_Plan
  imports KB_Prelude
begin

text \<open>
  The manifest parser of \<^verbatim>\<open>src/fastboot/update_plan.{hpp,cpp}\<close>: \<^verbatim>\<open>android-info.txt\<close> requirements and
  \<^verbatim>\<open>fastboot-info.txt\<close> tasks, with limits, source locations, duplicate and path checks, and the work
  counters of the instrumented entry point.

  A \<^verbatim>\<open>std::string_view\<close> is a \<open>string\<close>, an offset a \<open>nat\<close>; \<^verbatim>\<open>npos\<close> is \<open>None\<close>. The scanners take and return
  the work counters, which both entry points share; a failing parse discards its state but keeps its
  counters, so a result is a sum paired with the counters.
\<close>

section \<open>Data\<close>

datatype update_manifest_kind = Android_info | Fastboot_info

record update_source_location =
  loc_manifest :: update_manifest_kind
  loc_line :: nat
  loc_column :: nat
  loc_byte_offset :: nat

datatype update_plan_error_code =
  Limit_exceeded | Embedded_nul | Syntax_error | Unsupported_version | Unsafe_artifact_path | Duplicate

record update_plan_error =
  upe_code :: update_plan_error_code
  upe_location :: update_source_location
  upe_message :: string

record update_plan_limits =
  maximum_file_bytes :: nat
  maximum_lines :: nat
  maximum_line_bytes :: nat
  maximum_field_bytes :: nat
  maximum_tokens_per_line :: nat
  maximum_requirements :: nat
  maximum_options_per_requirement :: nat
  maximum_total_options :: nat
  maximum_tasks :: nat

definition default_limits :: update_plan_limits where
  "default_limits =
     \<lparr>maximum_file_bytes = 1024 * 1024, maximum_lines = 65536, maximum_line_bytes = 8 * 1024,
      maximum_field_bytes = 1024, maximum_tokens_per_line = 16, maximum_requirements = 16384,
      maximum_options_per_requirement = 256, maximum_total_options = 65536, maximum_tasks = 16384\<rparr>"

datatype requirement_action = Require | Reject

record planned_requirement =
  req_action :: requirement_action
  req_variable :: string
  req_product :: "string option"
  req_options :: "string list"
  req_location :: update_source_location

datatype update_task_kind = Flash | Reboot | Update_super | Erase
datatype planned_slot = Slot_default | Slot_other
datatype planned_reboot_target =
  Reboot_system | Reboot_bootloader | Reboot_recovery | Reboot_fastboot

record planned_update_task =
  task_kind :: update_task_kind
  conditional_on_wipe :: bool
  task_location :: update_source_location
  task_partition :: string
  task_artifact :: string
  task_slot :: planned_slot
  task_apply_vbmeta :: bool
  exclude_if_dynamic :: bool
  reboot_target :: planned_reboot_target

definition default_task :: "update_task_kind \<Rightarrow> bool \<Rightarrow> update_source_location \<Rightarrow> planned_update_task" where
  "default_task kind conditional where_at =
     \<lparr>task_kind = kind, conditional_on_wipe = conditional, task_location = where_at,
      task_partition = [], task_artifact = [], task_slot = Slot_default, task_apply_vbmeta = False,
      exclude_if_dynamic = False, reboot_target = Reboot_system\<rparr>"

record parsed_update_manifest =
  manifest_requirements :: "planned_requirement list"
  manifest_tasks :: "planned_update_task list"
  fastboot_info_version :: "nat option"

record update_plan_parse_work =
  nul_characters :: nat
  line_characters :: nat
  token_characters :: nat
  lines_visited :: nat
  tokens_emitted :: nat

definition no_work :: update_plan_parse_work where
  "no_work = \<lparr>nul_characters = 0, line_characters = 0, token_characters = 0, lines_visited = 0,
     tokens_emitted = 0\<rparr>"

definition kFrozenFastbootInfoVersion :: nat where "kFrozenFastbootInfoVersion = 1"

record line =
  line_manifest :: update_manifest_kind
  line_number :: nat
  line_byte_offset :: nat
  line_text :: string

record token =
  token_text :: string
  token_column :: nat

record assignment =
  asg_name :: string
  asg_name_offset :: nat
  asg_raw_options :: string
  asg_options_offset :: nat

record requirement_syntax =
  syn_action :: requirement_action
  syn_assignment :: assignment
  syn_product :: "string option"
  syn_product_offset :: nat

record parser_state =
  ps_manifest :: parsed_update_manifest
  total_options :: nat
  flash_targets :: "(string \<times> update_source_location) list"

section \<open>Scanning\<close>

text \<open>\<^verbatim>\<open>rfind(c, pos)\<close>: the last offset up to \<open>pos\<close>.\<close>

definition rfind_char :: "char \<Rightarrow> string \<Rightarrow> nat \<Rightarrow> nat option" where
  "rfind_char c s pos = find (\<lambda>i. s ! i = c) (rev [0..<min (pos + 1) (length s)])"

definition find_nul :: "string \<Rightarrow> update_plan_parse_work \<Rightarrow> nat option \<times> update_plan_parse_work" where
  "find_nul s w =
     (let r = find_char (CHR 0x00) s 0 in
      (r, w\<lparr>nul_characters := nul_characters w +
             (case r of None \<Rightarrow> length s | Some i \<Rightarrow> i + 1)\<rparr>))"

definition find_newline ::
    "string \<Rightarrow> nat \<Rightarrow> update_plan_parse_work \<Rightarrow> nat option \<times> update_plan_parse_work" where
  "find_newline s offset w =
     (let r = find_char (CHR 0x0A) s offset in
      (r, w\<lparr>line_characters := line_characters w +
             (case r of None \<Rightarrow> length s - offset | Some i \<Rightarrow> i + 1 - offset)\<rparr>))"

definition is_ascii_space :: "char \<Rightarrow> bool" where
  "is_ascii_space c =
     (c = CHR '' '' \<or> c = CHR 0x09 \<or> c = CHR 0x0A \<or> c = CHR 0x0D \<or> c = CHR 0x0C \<or> c = CHR 0x0B)"

definition skip_ascii_space :: "string \<Rightarrow> nat \<Rightarrow> nat" where
  "skip_ascii_space s offset = skip_while is_ascii_space s offset"

definition location :: "line \<Rightarrow> nat \<Rightarrow> update_source_location" where
  "location l offset_in_line =
     \<lparr>loc_manifest = line_manifest l, loc_line = line_number l, loc_column = offset_in_line + 1,
      loc_byte_offset = line_byte_offset l + offset_in_line\<rparr>"

fun location_loop :: "string \<Rightarrow> nat \<Rightarrow> nat \<Rightarrow> nat \<Rightarrow> nat \<times> nat" where
  "location_loop [] index ln line_offset = (ln, line_offset)"
| "location_loop (c # cs) index ln line_offset =
     (if c = CHR 0x0A then location_loop cs (index + 1) (ln + 1) (index + 1)
      else location_loop cs (index + 1) ln line_offset)"

definition location_at_offset ::
    "update_manifest_kind \<Rightarrow> string \<Rightarrow> nat \<Rightarrow> update_source_location" where
  "location_at_offset manifest input requested_offset =
     (let offset = min requested_offset (length input);
          (ln, line_offset) = location_loop (take offset input) 0 1 0
      in \<lparr>loc_manifest = manifest, loc_line = ln, loc_column = offset - line_offset + 1,
          loc_byte_offset = offset\<rparr>)"

definition upd_fail :: "update_plan_error_code \<Rightarrow> update_source_location \<Rightarrow> string \<Rightarrow> update_plan_error + 'a" where
  "upd_fail code where_at message =
     Inl \<lparr>upe_code = code, upe_location = where_at, upe_message = message\<rparr>"

section \<open>Lines\<close>

type_synonym 's line_callback =
  "line \<Rightarrow> 's \<Rightarrow> update_plan_parse_work \<Rightarrow> (update_plan_error + 's) \<times> update_plan_parse_work"

function line_loop ::
    "update_manifest_kind \<Rightarrow> string \<Rightarrow> update_plan_limits \<Rightarrow> 's line_callback \<Rightarrow> nat \<Rightarrow> nat \<Rightarrow>
     's \<Rightarrow> update_plan_parse_work \<Rightarrow> (update_plan_error + 's) \<times> update_plan_parse_work" where
  "line_loop manifest input limits callback number line_offset s w =
     (if number > maximum_lines limits then
        (upd_fail Limit_exceeded
           \<lparr>loc_manifest = manifest, loc_line = number, loc_column = 1, loc_byte_offset = line_offset\<rparr>
           ''manifest exceeds maximum line count'', w)
      else
        let (newline, w) = find_newline input line_offset w;
            line_end = (case newline of None \<Rightarrow> length input | Some i \<Rightarrow> i);
            line_size = line_end - line_offset;
            l = \<lparr>line_manifest = manifest, line_number = number, line_byte_offset = line_offset,
                 line_text = take line_size (drop line_offset input)\<rparr>;
            w = w\<lparr>lines_visited := lines_visited w + 1\<rparr>
        in if line_size > maximum_line_bytes limits then
             (upd_fail Limit_exceeded (location l (maximum_line_bytes limits))
                ''manifest line exceeds maximum byte size'', w)
           else case callback l s w of
             (Inl e, w) \<Rightarrow> (Inl e, w)
           | (Inr s, w) \<Rightarrow>
               (case newline of
                  None \<Rightarrow> (Inr s, w)
                | Some i \<Rightarrow>
                    line_loop manifest input limits callback (number + 1) (i + 1) s w))"
  by pat_completeness auto
termination
proof (relation "measure (\<lambda>(manifest, input, limits, callback, number, line_offset, s, w).
    length input + 1 - line_offset)", goal_cases)
  case 1
  then show ?case by simp
next
  case (2 manifest input limits callback number line_offset)
  then show ?case by (auto simp: find_newline_def Let_def dest!: find_char_Some [OF sym])
qed

declare line_loop.simps [simp del]

definition for_each_line ::
    "update_manifest_kind \<Rightarrow> string \<Rightarrow> update_plan_limits \<Rightarrow> 's line_callback \<Rightarrow>
     's \<Rightarrow> update_plan_parse_work \<Rightarrow> (update_plan_error + 's) \<times> update_plan_parse_work" where
  "for_each_line manifest input limits callback s w =
     (if length input > maximum_file_bytes limits then
        (upd_fail Limit_exceeded (location_at_offset manifest input (maximum_file_bytes limits))
           ''manifest exceeds maximum byte size'', w)
      else case find_nul input w of
        (Some i, w) \<Rightarrow>
          (upd_fail Embedded_nul (location_at_offset manifest input i)
             ''manifest contains an embedded NUL byte'', w)
      | (None, w) \<Rightarrow> line_loop manifest input limits callback 1 0 s w)"

section \<open>Tokens\<close>

text \<open>
  One token: the loop skips spaces, ends at the end of the line, and otherwise takes the run of other
  characters. Every character test is counted, also the one that ends a run before the end.
\<close>

definition count_run :: "string \<Rightarrow> nat \<Rightarrow> nat \<Rightarrow> update_plan_parse_work \<Rightarrow> update_plan_parse_work" where
  "count_run s from_offset to_offset w =
     w\<lparr>token_characters := token_characters w + (to_offset - from_offset) +
         (if to_offset < length s then 1 else 0)\<rparr>"

function tokenize_loop ::
    "line \<Rightarrow> update_plan_limits \<Rightarrow> nat \<Rightarrow> token list \<Rightarrow> update_plan_parse_work \<Rightarrow>
     (update_plan_error + token list) \<times> update_plan_parse_work" where
  "tokenize_loop l limits offset result w =
     (if offset < length (line_text l) then
        let start = skip_while (\<lambda>c. c = CHR '' '') (line_text l) offset;
            w = count_run (line_text l) offset start w in
        if start \<ge> length (line_text l) then (Inr result, w)
        else
          let end_offset = skip_while (\<lambda>c. c \<noteq> CHR '' '') (line_text l) start;
              w = count_run (line_text l) start end_offset w;
              sz = end_offset - start in
          if sz > maximum_field_bytes limits then
            (upd_fail Limit_exceeded (location l (start + maximum_field_bytes limits))
               ''fastboot-info field exceeds maximum byte size'', w)
          else if length result \<ge> maximum_tokens_per_line limits then
            (upd_fail Limit_exceeded (location l start)
               ''fastboot-info line exceeds maximum token count'', w)
          else tokenize_loop l limits end_offset
                 (result @ [\<lparr>token_text = take sz (drop start (line_text l)), token_column = start + 1\<rparr>])
                 (w\<lparr>tokens_emitted := tokens_emitted w + 1\<rparr>)
      else (Inr result, w))"
  by pat_completeness auto
termination
proof (relation "measure (\<lambda>(l, limits, offset, result, w). length (line_text l) - offset)", goal_cases)
  case 1
  then show ?case by simp
next
  case (2 l limits offset result w start w1 end_offset w2 sz)
  have "\<not> (line_text l ! start = CHR '' '')" and le: "offset \<le> start"
    using 2 skip_while_stops [of "\<lambda>c. c = CHR '' ''" "line_text l" offset] by auto
  then have "start < end_offset"
    using 2 skip_while_moves [of start "line_text l" "\<lambda>c. c \<noteq> CHR '' ''"] by auto
  with 2 le show ?case by auto
qed

declare tokenize_loop.simps [simp del]

definition tokenize_fastboot_line ::
    "line \<Rightarrow> update_plan_limits \<Rightarrow> update_plan_parse_work \<Rightarrow>
     (update_plan_error + token list) \<times> update_plan_parse_work" where
  "tokenize_fastboot_line l limits w = tokenize_loop l limits 0 [] w"

section \<open>Numbers and assignments\<close>

definition parse_aosp_uint32 :: "string \<Rightarrow> nat option" where
  "parse_aosp_uint32 s =
     (if s = [] then None
      else
        let (base, offset, negative) =
          (if length s \<ge> 2 \<and> s ! 0 = CHR ''0'' \<and> (s ! 1 = CHR ''x'' \<or> s ! 1 = CHR ''X'')
           then (16, 2, False)
           else
             let offset = skip_ascii_space s 0 in
             if offset < length s \<and> (s ! offset = CHR ''+'' \<or> s ! offset = CHR ''-'')
             then (10, offset + 1, s ! offset = CHR ''-'') else (10, offset, False))
        in if offset = length s then None
           else case from_chars u64_max base (drop offset s) of
             (ec, parsed, rest) \<Rightarrow>
               if ec \<noteq> Errc_ok \<or> rest \<noteq> [] \<or> parsed > u32_max \<or> (negative \<and> parsed \<noteq> 0) then None
               else Some parsed)"

text \<open>Both parsers of assignments also report the farthest offset they looked at.\<close>

definition parse_assignment :: "string \<Rightarrow> nat \<Rightarrow> nat \<Rightarrow> assignment option \<times> nat" where
  "parse_assignment s requested_start farthest =
     (let name_start = skip_ascii_space s requested_start;
          farthest = max farthest name_start in
      if name_start = length s then (None, farthest)
      else
        let token_end = skip_while (\<lambda>c. \<not> is_ascii_space c) s name_start;
            farthest = max farthest token_end;
            equals = (case rfind_char (CHR ''='') s (token_end - 1) of
                        Some i \<Rightarrow> if i < name_start then None else Some i | None \<Rightarrow> None);
            found =
              (case equals of
                 Some i \<Rightarrow> if i > name_start then Some (i, i, farthest) else None
               | None \<Rightarrow> None);
            r =
              (case found of
                 Some (name_end, equals, farthest) \<Rightarrow> (Some (name_end, equals), farthest)
               | None \<Rightarrow>
                   let after = skip_ascii_space s token_end;
                       farthest = max farthest after in
                   if after = length s \<or> s ! after \<noteq> CHR ''='' then (None, farthest)
                   else (Some (token_end, after), farthest))
        in case r of
             (None, farthest) \<Rightarrow> (None, farthest)
           | (Some (name_end, equals), farthest) \<Rightarrow>
               let options_start = skip_ascii_space s (equals + 1) in
               (Some \<lparr>asg_name = take (name_end - name_start) (drop name_start s),
                      asg_name_offset = name_start,
                      asg_raw_options = drop options_start s,
                      asg_options_offset = options_start\<rparr>,
                max farthest options_start))"

definition starts_with :: "string \<Rightarrow> string \<Rightarrow> bool" where
  "starts_with s p = (take (length p) s = p)"

definition try_prefixed ::
    "string \<Rightarrow> string \<Rightarrow> requirement_action \<Rightarrow> nat \<Rightarrow> requirement_syntax option \<times> nat" where
  "try_prefixed s keyword action farthest =
     (if \<not> starts_with s keyword \<or> length s = length keyword \<or> \<not> is_ascii_space (s ! length keyword)
      then (None, farthest)
      else case parse_assignment s (length keyword) farthest of
        (Some a, farthest) \<Rightarrow>
          (Some \<lparr>syn_action = action, syn_assignment = a, syn_product = None, syn_product_offset = 0\<rparr>,
           farthest)
      | (None, farthest) \<Rightarrow> (None, farthest))"

definition try_product :: "string \<Rightarrow> nat \<Rightarrow> requirement_syntax option \<times> nat" where
  "try_product s farthest =
     (let product_prefix = ''require-for-product:'' in
      if starts_with s product_prefix then
        let product_start = skip_ascii_space s (length product_prefix);
            farthest = max farthest product_start;
            product_end = skip_while (\<lambda>c. \<not> is_ascii_space c) s product_start;
            farthest = max farthest product_end in
        if product_end > product_start \<and> product_end < length s then
          let variable_start = skip_ascii_space s product_end;
              farthest = max farthest variable_start in
          case parse_assignment s variable_start farthest of
            (Some a, farthest) \<Rightarrow>
              (Some \<lparr>syn_action = Require, syn_assignment = a,
                     syn_product = Some (take (product_end - product_start) (drop product_start s)),
                     syn_product_offset = product_start\<rparr>, farthest)
          | (None, farthest) \<Rightarrow> (None, farthest)
        else (None, farthest)
      else (None, farthest))"

definition parse_requirement_syntax :: "string \<Rightarrow> nat + requirement_syntax" where
  "parse_requirement_syntax s =
     (case try_prefixed s ''require'' Require 0 of
        (Some r, _) \<Rightarrow> Inr r
      | (None, farthest) \<Rightarrow>
     (case try_prefixed s ''reject'' Reject farthest of
        (Some r, _) \<Rightarrow> Inr r
      | (None, farthest) \<Rightarrow>
     (case parse_assignment s 0 farthest of
        (Some a, _) \<Rightarrow>
          Inr \<lparr>syn_action = Require, syn_assignment = a, syn_product = None, syn_product_offset = 0\<rparr>
      | (None, farthest) \<Rightarrow>
     (case try_product s farthest of
        (Some r, _) \<Rightarrow> Inr r
      | (None, farthest) \<Rightarrow> Inl farthest))))"

section \<open>Requirements\<close>

definition check_field_size ::
    "line \<Rightarrow> nat \<Rightarrow> string \<Rightarrow> update_plan_limits \<Rightarrow> string \<Rightarrow> update_plan_error + unit" where
  "check_field_size l offset field limits description =
     (if length field \<le> maximum_field_bytes limits then Inr ()
      else upd_fail Limit_exceeded (location l (offset + maximum_field_bytes limits))
             (description @ '' exceeds maximum byte size''))"

text \<open>The loop over the alternatives; it returns the options and the running total.\<close>

function options_loop ::
    "line \<Rightarrow> assignment \<Rightarrow> update_plan_limits \<Rightarrow> nat \<Rightarrow> string list \<Rightarrow> nat \<Rightarrow>
     update_plan_error + string list \<times> nat" where
  "options_loop l a limits start options totals =
     (if length options \<ge> maximum_options_per_requirement limits \<or>
         totals \<ge> maximum_total_options limits then
        upd_fail Limit_exceeded (location l (asg_options_offset a + start))
          ''android-info requirement exceeds maximum option count''
      else
        let separator = find_char (CHR ''|'') (asg_raw_options a) start;
            end_offset = (case separator of None \<Rightarrow> length (asg_raw_options a) | Some i \<Rightarrow> i);
            field = take (end_offset - start) (drop start (asg_raw_options a));
            option_start = start + length (takeWhile is_ascii_space field);
            option = rev (dropWhile is_ascii_space (rev (dropWhile is_ascii_space field)))
        in case check_field_size l (asg_options_offset a + option_start) option limits
                  ''android-info option'' of
             Inl e \<Rightarrow> Inl e
           | Inr _ \<Rightarrow>
               (case separator of
                  None \<Rightarrow> Inr (options @ [option], totals + 1)
                | Some i \<Rightarrow>
                    options_loop l a limits (i + 1) (options @ [option]) (totals + 1)))"
  by pat_completeness auto
termination
  by (relation "measure (\<lambda>(l, a, limits, start, options, totals). length (asg_raw_options a) + 1 - start)")
    (auto dest!: find_char_Some [OF sym])

declare options_loop.simps [simp del]

definition parse_requirement_options ::
    "line \<Rightarrow> assignment \<Rightarrow> update_plan_limits \<Rightarrow> nat \<Rightarrow> update_plan_error + string list \<times> nat" where
  "parse_requirement_options l a limits totals = options_loop l a limits 0 [] totals"

text \<open>The requirement of a parsed line; the variable \<^verbatim>\<open>board\<close> is read as \<^verbatim>\<open>product\<close>.\<close>

definition requirement_of :: "line \<Rightarrow> requirement_syntax \<Rightarrow> string list \<Rightarrow> planned_requirement" where
  "requirement_of l syn options =
     (let name = asg_name (syn_assignment syn) in
      \<lparr>req_action = syn_action syn,
       req_variable = (if name = ''board'' then ''product'' else name),
       req_product = syn_product syn, req_options = options,
       req_location = location l (asg_name_offset (syn_assignment syn))\<rparr>)"

definition push_requirement :: "planned_requirement \<Rightarrow> nat \<Rightarrow> parser_state \<Rightarrow> parser_state" where
  "push_requirement r totals s =
     s\<lparr>total_options := totals,
       ps_manifest := (ps_manifest s)\<lparr>manifest_requirements := manifest_requirements (ps_manifest s) @ [r]\<rparr>\<rparr>"

definition parse_android_line :: "update_plan_limits \<Rightarrow> line \<Rightarrow> parser_state \<Rightarrow> update_plan_error + parser_state" where
  "parse_android_line limits l s =
     (if line_text l = [] then Inr s
      else if length (manifest_requirements (ps_manifest s)) \<ge> maximum_requirements limits then
        upd_fail Limit_exceeded (location l 0) ''android-info exceeds maximum requirement count''
      else case parse_requirement_syntax (line_text l) of
        Inl error_offset \<Rightarrow>
          upd_fail Syntax_error (location l error_offset) ''invalid android-info requirement syntax''
      | Inr syn \<Rightarrow>
      (case check_field_size l (asg_name_offset (syn_assignment syn)) (asg_name (syn_assignment syn)) limits
              ''android-info variable'' of
        Inl e \<Rightarrow> Inl e
      | Inr _ \<Rightarrow>
      (case (case syn_product syn of
               None \<Rightarrow> Inr ()
             | Some p \<Rightarrow> check_field_size l (syn_product_offset syn) p limits ''android-info product'') of
        Inl e \<Rightarrow> Inl e
      | Inr _ \<Rightarrow>
      (case parse_requirement_options l (syn_assignment syn) limits (total_options s) of
        Inl e \<Rightarrow> Inl e
      | Inr (options, totals) \<Rightarrow>
          Inr (push_requirement (requirement_of l syn options) totals s)))))"

section \<open>Artifact paths\<close>

definition ascii_letter :: "char \<Rightarrow> bool" where
  "ascii_letter c =
     (let n = (of_char c :: nat) in (65 \<le> n \<and> n \<le> 90) \<or> (97 \<le> n \<and> n \<le> 122))"

function segment_loop :: "string \<Rightarrow> nat \<Rightarrow> nat option" where
  "segment_loop path segment_start =
     (let slash = find_char (CHR ''/'') path segment_start;
          segment_end = (case slash of None \<Rightarrow> length path | Some i \<Rightarrow> i);
          segment = take (segment_end - segment_start) (drop segment_start path)
      in if segment = [] \<or> segment = ''.'' \<or> segment = ''..'' then
           Some (if segment_start = length path then length path - 1 else segment_start)
         else case slash of
           None \<Rightarrow> None
         | Some i \<Rightarrow> segment_loop path (i + 1))"
  by pat_completeness auto
termination
  by (relation "measure (\<lambda>(path, segment_start). length path + 1 - segment_start)")
    (auto dest!: find_char_Some [OF sym])

declare segment_loop.simps [simp del]

definition unsafe_artifact_offset :: "string \<Rightarrow> nat option" where
  "unsafe_artifact_offset path =
     (if path = [] then Some 0
      else if hd path = CHR ''/'' then Some 0
      else if length path \<ge> 2 \<and> ascii_letter (path ! 0) \<and> path ! 1 = CHR '':'' then Some 0
      else case find_char (CHR 0x5C) path 0 of
        Some backslash \<Rightarrow> Some backslash
      | None \<Rightarrow> segment_loop path 0)"

section \<open>Tasks\<close>

definition token_location :: "line \<Rightarrow> token \<Rightarrow> nat \<Rightarrow> update_source_location" where
  "token_location l t offset = location l (token_column t - 1 + offset)"

text \<open>The arguments of a \<^verbatim>\<open>flash\<close> line.\<close>

record flash_arguments =
  arg_apply_vbmeta :: bool
  arg_slot_other :: bool
  arg_partition :: "token option"
  arg_artifact :: "token option"

fun flash_arguments_loop ::
    "line \<Rightarrow> token list \<Rightarrow> flash_arguments \<Rightarrow> update_plan_error + flash_arguments" where
  "flash_arguments_loop l [] a = Inr a"
| "flash_arguments_loop l (t # ts) a =
     (if token_text t = ''--apply-vbmeta'' then
        if arg_apply_vbmeta a then
          upd_fail Duplicate (token_location l t 0) ''duplicate --apply-vbmeta flag''
        else flash_arguments_loop l ts (a\<lparr>arg_apply_vbmeta := True\<rparr>)
      else if token_text t = ''--slot-other'' then
        if arg_slot_other a then
          upd_fail Duplicate (token_location l t 0) ''duplicate --slot-other flag''
        else flash_arguments_loop l ts (a\<lparr>arg_slot_other := True\<rparr>)
      else if arg_partition a = None then flash_arguments_loop l ts (a\<lparr>arg_partition := Some t\<rparr>)
      else if arg_artifact a = None then flash_arguments_loop l ts (a\<lparr>arg_artifact := Some t\<rparr>)
      else upd_fail Syntax_error (token_location l t 0) ''flash has more than two positional arguments'')"

text \<open>\<^verbatim>\<open>std::to_string\<close> for the messages.\<close>

fun decimal_digits :: "nat \<Rightarrow> string" where
  "decimal_digits n =
     (if n < 10 then [char_of (48 + n)] else decimal_digits (n div 10) @ [char_of (48 + n mod 10)])"

declare decimal_digits.simps [simp del]

definition push_task :: "planned_update_task \<Rightarrow> parser_state \<Rightarrow> parser_state" where
  "push_task t s =
     s\<lparr>ps_manifest := (ps_manifest s)\<lparr>manifest_tasks := manifest_tasks (ps_manifest s) @ [t]\<rparr>\<rparr>"

text \<open>The artifact of a \<^verbatim>\<open>flash\<close> line, given or derived from the partition, and where it stands.\<close>

definition flash_artifact_name ::
    "line \<Rightarrow> token \<Rightarrow> token option \<Rightarrow> update_plan_limits \<Rightarrow>
     update_plan_error + string \<times> update_source_location" where
  "flash_artifact_name l part artifact limits =
     (case artifact of
        Some t \<Rightarrow> Inr (token_text t, token_location l t 0)
      | None \<Rightarrow>
          if length (token_text part) > maximum_field_bytes limits \<or>
             maximum_field_bytes limits - length (token_text part) < 4 then
            upd_fail Limit_exceeded (token_location l part 0)
              ''derived flash artifact exceeds maximum byte size''
          else Inr (token_text part @ ''.img'', token_location l part 0))"

definition target_key :: "bool \<Rightarrow> string \<Rightarrow> string" where
  "target_key slot_other part = (if slot_other then CHR ''O'' else CHR ''D'') # CHR '':'' # part"

definition flash_task ::
    "bool \<Rightarrow> update_source_location \<Rightarrow> flash_arguments \<Rightarrow> token \<Rightarrow> string \<Rightarrow> planned_update_task" where
  "flash_task conditional where_at a part artifact_name =
     (default_task Flash conditional where_at)
       \<lparr>task_partition := token_text part, task_artifact := artifact_name,
        task_slot := (if arg_slot_other a then Slot_other else Slot_default),
        task_apply_vbmeta := arg_apply_vbmeta a\<rparr>"

definition add_flash_task ::
    "line \<Rightarrow> token list \<Rightarrow> nat \<Rightarrow> bool \<Rightarrow> update_plan_limits \<Rightarrow> parser_state \<Rightarrow>
     update_plan_error + parser_state" where
  "add_flash_task l tokens command_index conditional limits s =
     (case flash_arguments_loop l (drop (command_index + 1) tokens)
             \<lparr>arg_apply_vbmeta = False, arg_slot_other = False, arg_partition = None,
              arg_artifact = None\<rparr> of
        Inl e \<Rightarrow> Inl e
      | Inr a \<Rightarrow>
      (case arg_partition a of
        None \<Rightarrow> upd_fail Syntax_error (location l (length (line_text l))) ''flash requires a partition''
      | Some part \<Rightarrow>
      (case flash_artifact_name l part (arg_artifact a) limits of
        Inl e \<Rightarrow> Inl e
      | Inr (artifact_name, artifact_location) \<Rightarrow>
          if length artifact_name > maximum_field_bytes limits then
            upd_fail Limit_exceeded artifact_location ''flash artifact exceeds maximum byte size''
          else
      (case unsafe_artifact_offset artifact_name of
        Some unsafe \<Rightarrow>
          upd_fail Unsafe_artifact_path
            (artifact_location\<lparr>loc_column := loc_column artifact_location + unsafe,
               loc_byte_offset := loc_byte_offset artifact_location + unsafe\<rparr>)
            ''flash artifact path is absolute, ambiguous, or traverses a parent''
      | None \<Rightarrow>
          let target_location = token_location l part 0
          in case map_of (flash_targets s) (target_key (arg_slot_other a) (token_text part)) of
               Some previous \<Rightarrow>
                 upd_fail Duplicate target_location
                   (''flash target duplicates line '' @ decimal_digits (loc_line previous) @
                    '', column '' @ decimal_digits (loc_column previous))
             | None \<Rightarrow>
                 Inr (push_task
                   (flash_task conditional (token_location l (tokens ! command_index) 0) a part artifact_name)
                   (s\<lparr>flash_targets := flash_targets s @
                        [(target_key (arg_slot_other a) (token_text part), target_location)]\<rparr>))))))"

definition add_reboot_task ::
    "line \<Rightarrow> token list \<Rightarrow> nat \<Rightarrow> bool \<Rightarrow> parser_state \<Rightarrow> update_plan_error + parser_state" where
  "add_reboot_task l tokens command_index conditional s =
     (if length tokens > command_index + 2 then
        upd_fail Syntax_error (token_location l (tokens ! (command_index + 2)) 0)
          ''reboot accepts at most one target''
      else
        let target =
          (if length tokens = command_index + 2 then
             let t = tokens ! (command_index + 1) in
             if token_text t = ''bootloader'' then Inr Reboot_bootloader
             else if token_text t = ''recovery'' then Inr Reboot_recovery
             else if token_text t = ''fastboot'' then Inr Reboot_fastboot
             else upd_fail Syntax_error (token_location l t 0)
                    ''reboot target is not executable by frozen AOSP fastboot''
           else Inr Reboot_system)
        in case target of
             Inl e \<Rightarrow> Inl e
           | Inr target \<Rightarrow>
               Inr (push_task
                 ((default_task Reboot conditional (token_location l (tokens ! command_index) 0))
                    \<lparr>reboot_target := target\<rparr>) s))"

definition parse_fastboot_task ::
    "line \<Rightarrow> token list \<Rightarrow> nat \<Rightarrow> bool \<Rightarrow> update_plan_limits \<Rightarrow> parser_state \<Rightarrow>
     update_plan_error + parser_state" where
  "parse_fastboot_task l tokens command_index conditional limits s =
     (let here = token_location l (tokens ! command_index) 0;
          command = token_text (tokens ! command_index) in
      if length (manifest_tasks (ps_manifest s)) \<ge> maximum_tasks limits then
        upd_fail Limit_exceeded here ''fastboot-info exceeds maximum task count''
      else if command = ''flash'' then add_flash_task l tokens command_index conditional limits s
      else if command = ''reboot'' then add_reboot_task l tokens command_index conditional s
      else if command = ''update-super'' then
        if length tokens \<noteq> command_index + 1 then
          upd_fail Syntax_error (token_location l (tokens ! (command_index + 1)) 0)
            ''update-super does not accept arguments''
        else Inr (push_task (default_task Update_super conditional here) s)
      else if command = ''erase'' then
        if length tokens \<noteq> command_index + 2 then
          upd_fail Syntax_error
            (if length tokens > command_index + 2
             then token_location l (tokens ! (command_index + 2)) 0
             else location l (length (line_text l)))
            ''erase requires exactly one partition''
        else Inr (push_task
               ((default_task Erase conditional here)
                  \<lparr>task_partition := token_text (tokens ! (command_index + 1))\<rparr>) s)
      else upd_fail Syntax_error here ''unknown fastboot-info command'')"

definition parse_version ::
    "line \<Rightarrow> token list \<Rightarrow> parser_state \<Rightarrow> update_plan_error + parser_state" where
  "parse_version l tokens s =
     (if length tokens \<noteq> 2 then
        upd_fail Syntax_error
          (if length tokens > 2 then token_location l (tokens ! 2) 0
           else location l (length (line_text l)))
          ''version requires exactly one numeric value''
      else if fastboot_info_version (ps_manifest s) \<noteq> None then
        upd_fail Duplicate (token_location l (tokens ! 0) 0)
          ''fastboot-info contains more than one version declaration''
      else case parse_aosp_uint32 (token_text (tokens ! 1)) of
        None \<Rightarrow>
          upd_fail Syntax_error (token_location l (tokens ! 1) 0) ''version is not an AOSP uint32 value''
      | Some version \<Rightarrow>
          if version > kFrozenFastbootInfoVersion then
            upd_fail Unsupported_version (token_location l (tokens ! 1) 0)
              ''fastboot-info version is newer than frozen host version 1''
          else Inr (s\<lparr>ps_manifest := (ps_manifest s)\<lparr>fastboot_info_version := Some version\<rparr>\<rparr>))"

text \<open>A tokenized line.\<close>

definition parse_fastboot_tokens ::
    "line \<Rightarrow> token list \<Rightarrow> update_plan_limits \<Rightarrow> parser_state \<Rightarrow> update_plan_error + parser_state" where
  "parse_fastboot_tokens l tokens limits s =
     (if tokens = [] \<or> starts_with (token_text (tokens ! 0)) ''#'' then Inr s
      else if token_text (tokens ! 0) = ''version'' then parse_version l tokens s
      else if token_text (tokens ! 0) = ''if-wipe'' then
        if length tokens = 1 then
          upd_fail Syntax_error (location l (length (line_text l))) ''if-wipe requires a task''
        else parse_fastboot_task l tokens 1 True limits s
      else parse_fastboot_task l tokens 0 False limits s)"

definition parse_fastboot_line :: "update_plan_limits \<Rightarrow> parser_state line_callback" where
  "parse_fastboot_line limits l s w =
     (case tokenize_fastboot_line l limits w of
        (Inl e, w) \<Rightarrow> (Inl e, w)
      | (Inr tokens, w) \<Rightarrow> (parse_fastboot_tokens l tokens limits s, w))"

section \<open>Entry points\<close>

definition initial_parser_state :: parser_state where
  "initial_parser_state =
     \<lparr>ps_manifest = \<lparr>manifest_requirements = [], manifest_tasks = [], fastboot_info_version = None\<rparr>,
      total_options = 0, flash_targets = []\<rparr>"

definition parse_update_manifest_impl ::
    "string \<Rightarrow> string \<Rightarrow> update_plan_limits \<Rightarrow> update_plan_parse_work \<Rightarrow>
     (update_plan_error + parsed_update_manifest) \<times> update_plan_parse_work" where
  "parse_update_manifest_impl android_info fastboot_info limits w =
     (case for_each_line Android_info android_info limits
             (\<lambda>l s w. (parse_android_line limits l s, w)) initial_parser_state w of
        (Inl e, w) \<Rightarrow> (Inl e, w)
      | (Inr s, w) \<Rightarrow>
          (case for_each_line Fastboot_info fastboot_info limits (parse_fastboot_line limits) s w of
             (Inl e, w) \<Rightarrow> (Inl e, w)
           | (Inr s, w) \<Rightarrow> (Inr (ps_manifest s), w)))"

definition parse_update_manifest ::
    "string \<Rightarrow> string \<Rightarrow> update_plan_limits \<Rightarrow> update_plan_error + parsed_update_manifest" where
  "parse_update_manifest android_info fastboot_info limits =
     fst (parse_update_manifest_impl android_info fastboot_info limits no_work)"

definition parse_update_manifest_with_work ::
    "string \<Rightarrow> string \<Rightarrow> update_plan_limits \<Rightarrow>
     (update_plan_error + parsed_update_manifest) \<times> update_plan_parse_work" where
  "parse_update_manifest_with_work android_info fastboot_info limits =
     parse_update_manifest_impl android_info fastboot_info limits no_work"

type_synonym deterministic_update_plan = parsed_update_manifest

definition make_update_plan :: "parsed_update_manifest \<Rightarrow> bool \<Rightarrow> deterministic_update_plan" where
  "make_update_plan manifest wants_wipe =
     manifest\<lparr>manifest_tasks :=
       filter (\<lambda>t. \<not> conditional_on_wipe t \<or> wants_wipe) (manifest_tasks manifest)\<rparr>"

end
