(* ===== verification/Update_Lines.thy ===== *)
theory Update_Lines
  imports Update_Plan
begin

text \<open>
  The line driver \<^verbatim>\<open>for_each_line\<close> and its callbacks. The driver is proved once against three contracts of
  a callback, stated as locales: it keeps an invariant of the parser state, it reports errors inside the line
  it was given, and it tests a bounded number of characters. The two callbacks of the parser, for
  \<^verbatim>\<open>android-info.txt\<close> and for \<^verbatim>\<open>fastboot-info.txt\<close>, are interpretations of each.
\<close>

section \<open>Where a location points\<close>

definition newlines :: "string \<Rightarrow> nat" where
  "newlines s = length (filter (\<lambda>c. c = CHR 0x0A) s)"

lemma location_loop_append:
  "location_loop (xs @ ys) i n off =
     (case location_loop xs i n off of (n', off') \<Rightarrow> location_loop ys (i + length xs) n' off')"
  by (induction xs arbitrary: i n off) auto

lemma location_loop_no_newline: "CHR 0x0A \<notin> set xs \<Longrightarrow> location_loop xs i n off = (n, off)"
  by (induction xs arbitrary: i n off) auto

lemma location_loop_lines: "fst (location_loop xs i n off) = n + newlines xs"
  by (induction xs arbitrary: i n off) (auto simp: newlines_def)

text \<open>A line that starts at \<open>off\<close> with number \<open>n\<close>, as the driver cuts it.\<close>

definition line_at :: "string \<Rightarrow> nat \<Rightarrow> nat \<Rightarrow> bool" where
  "line_at input n off = (off \<le> length input \<and> location_loop (take off input) 0 1 0 = (n, off))"

lemma line_at_start: "line_at input 1 0"
  by (simp add: line_at_def)

lemma find_char_None: "find_char c s off = None \<Longrightarrow> off \<le> length s \<Longrightarrow> c \<notin> set (drop off s)"
proof -
  assume "find_char c s off = None" and "off \<le> length s"
  then have "length (drop off s) \<le> length (takeWhile (\<lambda>x. x \<noteq> c) (drop off s))"
    by (simp add: find_char_def skip_while_def Let_def split: if_splits)
  then have "takeWhile (\<lambda>x. x \<noteq> c) (drop off s) = drop off s"
    using takeWhile_eq_take [of "\<lambda>x. x \<noteq> c" "drop off s"] by simp
  then show ?thesis
    using takeWhile_eq_all_conv by fastforce
qed

lemma find_char_before:
  assumes "find_char c s off = Some i"
  shows "c \<notin> set (take (i - off) (drop off s))"
proof -
  have "i - off = length (takeWhile (\<lambda>x. x \<noteq> c) (drop off s))"
    using assms by (auto simp: find_char_def skip_while_def Let_def split: if_splits)
  then have "take (i - off) (drop off s) = takeWhile (\<lambda>x. x \<noteq> c) (drop off s)"
    by (simp add: takeWhile_eq_take [symmetric])
  then show ?thesis by (auto dest: set_takeWhileD)
qed

lemma line_at_next:
  assumes "line_at input n off" and "find_char (CHR 0x0A) input off = Some i"
  shows "line_at input (n + 1) (i + 1)"
proof -
  have i: "off \<le> i" "i < length input" "input ! i = CHR 0x0A"
    using find_char_Some [OF assms(2)] by auto
  then have "take (i + 1) input = take off input @ take (i - off) (drop off input) @ [CHR 0x0A]"
    by (metis Suc_eq_plus1 append_assoc le_add_diff_inverse take_Suc_conv_app_nth take_add)
  then show ?thesis
    using assms i find_char_before [OF assms(2)]
    by (simp add: line_at_def location_loop_append location_loop_no_newline)
qed

text \<open>A location inside a line is the location of its byte in the file.\<close>

lemma location_in_line:
  assumes "line_at input n off" and "CHR 0x0A \<notin> set (take k (drop off input))" and "off + k \<le> length input"
  shows "location \<lparr>line_manifest = manifest, line_number = n, line_byte_offset = off, line_text = t\<rparr> k =
         location_at_offset manifest input (off + k)"
proof -
  have "take (off + k) input = take off input @ take k (drop off input)"
    by (simp add: take_add)
  then show ?thesis
    using assms by (simp add: location_def location_at_offset_def line_at_def location_loop_append
        location_loop_no_newline min_def)
qed

definition exact_location :: "update_manifest_kind \<Rightarrow> string \<Rightarrow> update_source_location \<Rightarrow> bool" where
  "exact_location manifest input loc =
     (loc_byte_offset loc \<le> length input \<and> loc = location_at_offset manifest input (loc_byte_offset loc))"

lemma exact_location_at: "k \<le> length input \<Longrightarrow> exact_location manifest input (location_at_offset manifest input k)"
  by (simp add: exact_location_def location_at_offset_def Let_def min_def split: prod.split)

lemma exact_location_in_line:
  assumes "line_at input n off" and "newline = find_char (CHR 0x0A) input off"
    and "line_end = (case newline of None \<Rightarrow> length input | Some i \<Rightarrow> i)" and "k \<le> line_end - off"
  shows "exact_location manifest input
           (location \<lparr>line_manifest = manifest, line_number = n, line_byte_offset = off, line_text = t\<rparr> k)"
proof -
  have off: "off \<le> length input" using assms(1) by (simp add: line_at_def)
  have le: "off + k \<le> length input" and no: "CHR 0x0A \<notin> set (take (line_end - off) (drop off input))"
    using assms off find_char_Some [of "CHR 0x0A" input off] find_char_before [of "CHR 0x0A" input off]
      find_char_None [of "CHR 0x0A" input off]
    by (auto split: option.splits dest: in_set_takeD)
  have "CHR 0x0A \<notin> set (take k (drop off input))"
    using no set_take_subset_set_take [OF assms(4), of "drop off input"] by auto
  with assms(1) le show ?thesis
    using location_in_line [of input n off k manifest t] exact_location_at [of "off + k" input manifest] by simp
qed

section \<open>Contracts of a callback\<close>

text \<open>The driver cuts the file into lines; one turn of it, with the line it hands to the callback.\<close>

definition cut_line :: "update_manifest_kind \<Rightarrow> string \<Rightarrow> nat \<Rightarrow> nat \<Rightarrow> line" where
  "cut_line manifest input number off =
     \<lparr>line_manifest = manifest, line_number = number, line_byte_offset = off,
      line_text = take ((case find_char (CHR 0x0A) input off of None \<Rightarrow> length input | Some i \<Rightarrow> i) - off)
        (drop off input)\<rparr>"

definition count_line :: "string \<Rightarrow> nat \<Rightarrow> update_plan_parse_work \<Rightarrow> update_plan_parse_work" where
  "count_line input off w = (snd (find_newline input off w))\<lparr>lines_visited := lines_visited w + 1\<rparr>"

lemma line_loop_turn:
  "line_loop manifest input limits callback number off s w =
     (if number > maximum_lines limits then
        (upd_fail Limit_exceeded
           \<lparr>loc_manifest = manifest, loc_line = number, loc_column = 1, loc_byte_offset = off\<rparr>
           ''manifest exceeds maximum line count'', w)
      else if (case find_char (CHR 0x0A) input off of None \<Rightarrow> length input | Some i \<Rightarrow> i) - off >
              maximum_line_bytes limits then
        (upd_fail Limit_exceeded (location (cut_line manifest input number off) (maximum_line_bytes limits))
           ''manifest line exceeds maximum byte size'', count_line input off w)
      else case callback (cut_line manifest input number off) s (count_line input off w) of
        (Inl e, w) \<Rightarrow> (Inl e, w)
      | (Inr s, w) \<Rightarrow>
          (case find_char (CHR 0x0A) input off of
             None \<Rightarrow> (Inr s, w)
           | Some i \<Rightarrow> line_loop manifest input limits callback (number + 1) (i + 1) s w))"
  by (subst line_loop.simps) (simp add: find_newline_def cut_line_def count_line_def Let_def)

text \<open>Induction over the lines of a file.\<close>

lemma line_offset_induct [case_names line]:
  assumes "\<And>off n. (\<And>i. find_char (CHR 0x0A) input off = Some i \<Longrightarrow> P (i + 1) (n + 1)) \<Longrightarrow> P off (n :: nat)"
  shows "P off n"
proof (induction "length input + 1 - off" arbitrary: off n rule: less_induct)
  case (less off n)
  show ?case
  proof (rule assms [of off n])
    fix i assume "find_char (CHR 0x0A) input off = Some i"
    then have "length input + 1 - (i + 1) < length input + 1 - off"
      using find_char_Some [of "CHR 0x0A" input off i] by auto
    then show "P (i + 1) (n + 1)" by (rule less)
  qed
qed

definition line_end :: "string \<Rightarrow> nat \<Rightarrow> nat" where
  "line_end input off = (case find_char (CHR 0x0A) input off of None \<Rightarrow> length input | Some i \<Rightarrow> i)"

lemma length_cut_line: "length (line_text (cut_line manifest input n off)) \<le> line_end input off - off"
  by (simp add: cut_line_def line_end_def)

lemma line_loop_fails:
  assumes "line_loop manifest input limits callback n off s w = (Inl e, w')"
  obtains
    (count) "upe_location e = location (cut_line manifest input n off) 0"
  | (long) "upe_location e = location (cut_line manifest input n off) (maximum_line_bytes limits)"
      "maximum_line_bytes limits < line_end input off - off"
  | (callback) w1 where "callback (cut_line manifest input n off) s w1 = (Inl e, w')"
  | (later) s1 w1 i where "find_char (CHR 0x0A) input off = Some i"
      "line_loop manifest input limits callback (n + 1) (i + 1) s1 w1 = (Inl e, w')"
  using assms
  by (subst (asm) line_loop_turn)
    (auto simp: upd_fail_def location_def cut_line_def line_end_def
      split: outcome_splits)

lemma line_loop_ends:
  assumes "line_loop manifest input limits callback n off s w = (Inr s', w')"
  obtains s1 w1 where
    "callback (cut_line manifest input n off) s (count_line input off w) = (Inr s1, w1)"
    "find_char (CHR 0x0A) input off = None \<and> s' = s1 \<or>
     (\<exists>i. find_char (CHR 0x0A) input off = Some i \<and>
          line_loop manifest input limits callback (n + 1) (i + 1) s1 w1 = (Inr s', w'))"
  using assms
  by (subst (asm) line_loop_turn)
    (auto simp: upd_fail_def split: outcome_splits)

locale line_keeps =
  fixes callback :: "'s line_callback" and inv :: "'s \<Rightarrow> bool"
  assumes keeps: "\<lbrakk>inv s; callback l s w = (Inr s', w')\<rbrakk> \<Longrightarrow> inv s'"
begin

lemma line_loop_keeps:
  "\<lbrakk>inv s; line_loop manifest input limits callback number off s w = (Inr s', w')\<rbrakk> \<Longrightarrow> inv s'"
proof (induction off number arbitrary: s w rule: line_offset_induct [where input = input])
  case (line off n)
  from line.prems(2) obtain s1 w1 where
    "callback (cut_line manifest input n off) s (count_line input off w) = (Inr s1, w1)"
    "find_char (CHR 0x0A) input off = None \<and> s' = s1 \<or>
     (\<exists>i. find_char (CHR 0x0A) input off = Some i \<and>
          line_loop manifest input limits callback (n + 1) (i + 1) s1 w1 = (Inr s', w'))"
    by (rule line_loop_ends)
  with keeps [OF line.prems(1)] line.IH show ?case by blast
qed

lemma for_each_line_keeps:
  "\<lbrakk>inv s; for_each_line manifest input limits callback s w = (Inr s', w')\<rbrakk> \<Longrightarrow> inv s'"
  by (auto simp: for_each_line_def upd_fail_def split: outcome_splits
      dest: line_loop_keeps)

end

locale line_located =
  fixes callback :: "'s line_callback"
  assumes located: "callback l s w = (Inl e, w') \<Longrightarrow>
    \<exists>k \<le> length (line_text l). upe_location e = location l k"
begin

lemma line_loop_located:
  "\<lbrakk>line_at input number off; line_loop manifest input limits callback number off s w = (Inl e, w')\<rbrakk> \<Longrightarrow>
   exact_location manifest input (upe_location e)"
proof (induction off number arbitrary: s w rule: line_offset_induct [where input = input])
  case (line off n)
  have here: "exact_location manifest input (location (cut_line manifest input n off) k)"
    if "k \<le> line_end input off - off" for k
    using exact_location_in_line [OF line.prems(1) refl refl] that by (simp add: cut_line_def line_end_def)
  from line.prems(2) show ?case
  proof (cases rule: line_loop_fails)
    case callback
    then show ?thesis
      using located here order_trans [OF _ length_cut_line] by metis
  next
    case later
    then show ?thesis using line.IH line_at_next [OF line.prems(1)] by blast
  qed (use here in auto)
qed

lemma for_each_line_located:
  assumes "for_each_line manifest input limits callback s w = (Inl e, w')"
  shows "exact_location manifest input (upe_location e)"
proof (cases "length input > maximum_file_bytes limits")
  case True
  with assms show ?thesis
    by (auto simp: for_each_line_def upd_fail_def intro!: exact_location_at)
next
  case False
  show ?thesis
  proof (cases "find_char (CHR 0x00) input 0")
    case None
    with False assms line_at_start show ?thesis
      by (auto simp: for_each_line_def find_nul_def intro: line_loop_located)
  next
    case (Some i)
    with False assms find_char_Some [OF Some] show ?thesis
      by (auto simp: for_each_line_def find_nul_def upd_fail_def intro!: exact_location_at)
  qed
qed

end

text \<open>The counters: characters searched for a NUL, for a newline, and tested by the tokenizer.\<close>

definition work_within :: "update_plan_parse_work \<Rightarrow> nat \<Rightarrow> nat \<Rightarrow> nat \<Rightarrow> update_plan_parse_work \<Rightarrow> bool" where
  "work_within w a b c w' =
     (nul_characters w' \<le> nul_characters w + a \<and> line_characters w' \<le> line_characters w + b \<and>
      token_characters w' \<le> token_characters w + c)"

lemma work_within_trans:
  "\<lbrakk>work_within w a b c w1; work_within w1 a' b' c' w2\<rbrakk> \<Longrightarrow> work_within w (a + a') (b + b') (c + c') w2"
  by (simp add: work_within_def)

lemma work_within_mono:
  "\<lbrakk>work_within w a b c w1; a \<le> a'; b \<le> b'; c \<le> c'\<rbrakk> \<Longrightarrow> work_within w a' b' c' w1"
  by (simp add: work_within_def)

lemma work_within_refl: "work_within w 0 0 0 w"
  by (simp add: work_within_def)

lemma count_line_within:
  "off \<le> length input \<Longrightarrow> work_within w 0 (min (line_end input off + 1) (length input) - off) 0 (count_line input off w)"
  using find_char_Some [of "CHR 0x0A" input off]
  by (auto simp: work_within_def count_line_def find_newline_def line_end_def Let_def split: option.split)

locale line_costs =
  fixes callback :: "'s line_callback" and cost :: nat
  assumes costs: "callback l s w = (r, w') \<Longrightarrow> work_within w 0 0 (cost * length (line_text l)) w'"
begin

lemma line_loop_costs:
  "\<lbrakk>off \<le> length input; line_loop manifest input limits callback number off s w = (r, w')\<rbrakk> \<Longrightarrow>
   work_within w 0 (length input - off) (cost * (length input - off)) w'"
proof (induction off number arbitrary: s w rule: line_offset_induct [where input = input])
  case (line off n)
  let ?l = "cut_line manifest input n off" and ?w = "count_line input off w"
  let ?b = "min (line_end input off + 1) (length input) - off"
  let ?c = "length (line_text ?l)"
  have read: "work_within w 0 ?b (cost * 0) ?w"
    using count_line_within [OF line.prems(1)] by simp
  have c: "?c \<le> length input - off" by (simp add: cut_line_def)
  obtain r1 w1 where cb: "callback ?l s ?w = (r1, w1)" by fastforce
  have both: "work_within w 0 ?b (cost * ?c) w1"
    using work_within_trans [OF read costs [OF cb]] by simp
  have stop: "work_within w 0 (length input - off) (cost * (length input - off)) v" if "v = w \<or> v = ?w \<or> v = w1" for v
    using that work_within_mono [OF read] work_within_mono [OF both] c work_within_mono [OF work_within_refl]
    by (auto simp: diff_le_mono)
  show ?case
  proof (cases "\<exists>i s1. r1 = Inr s1 \<and> find_char (CHR 0x0A) input off = Some i \<and>
      line_loop manifest input limits callback (n + 1) (i + 1) s1 w1 = (r, w')")
    case True
    then obtain i s1 where i: "find_char (CHR 0x0A) input off = Some i"
      and rest: "line_loop manifest input limits callback (n + 1) (i + 1) s1 w1 = (r, w')" by blast
    have le: "off \<le> i" "i < length input" using find_char_Some [OF i] by auto
    have "work_within w1 0 (length input - (i + 1)) (cost * (length input - (i + 1))) w'"
      using line.IH [OF i _ rest] le by simp
    from work_within_trans [OF both this] show ?thesis
    proof (rule work_within_mono)
      have "?c + (length input - (i + 1)) \<le> length input - off"
        using i le length_cut_line [of manifest input n off] by (simp add: line_end_def)
      then show "cost * ?c + cost * (length input - (i + 1)) \<le> cost * (length input - off)"
        unfolding distrib_left [symmetric] by (rule mult_le_mono2)
    qed (use i le in \<open>auto simp: line_end_def\<close>)
  next
    case False
    with line.prems(2) cb have "w' = w \<or> w' = ?w \<or> w' = w1"
      by (subst (asm) line_loop_turn) (auto split: outcome_splits)
    then show ?thesis by (rule stop)
  qed
qed

lemma for_each_line_costs:
  "for_each_line manifest input limits callback s w = (r, w') \<Longrightarrow>
   work_within w (length input) (length input) (cost * length input) w'"
proof -
  assume run: "for_each_line manifest input limits callback s w = (r, w')"
  obtain f w1 where nul: "find_nul input w = (f, w1)" by fastforce
  then have first: "work_within w (length input) 0 0 w1"
    using find_char_Some [of "CHR 0x00" input 0]
    by (auto simp: find_nul_def work_within_def Let_def split: option.splits)
  consider "w' = w" | "w' = w1" | "line_loop manifest input limits callback 1 0 s w1 = (r, w')"
    using run nul by (auto simp: for_each_line_def split: if_splits option.splits)
  then show ?thesis
  proof cases
    case 3
    from work_within_trans [OF first line_loop_costs [OF _ 3]] show ?thesis by simp
  qed (use work_within_mono [OF first] work_within_mono [OF work_within_refl] in auto)
qed

end

end
