(* ===== verification/Update_Manifest.thy ===== *)
theory Update_Manifest
  imports Update_Lines
begin

text \<open>
  Correctness of the manifest parser: what an accepted manifest is guaranteed to be, that every error points
  at the byte it is about, and that the scanning work is linear in the input.
\<close>

section \<open>Safe artifact paths\<close>

text \<open>The specification: split at the slashes, no segment may be empty or a dot segment.\<close>

fun segments :: "string \<Rightarrow> string list" where
  "segments [] = [[]]"
| "segments (c # cs) =
     (if c = CHR ''/'' then [] # segments cs else (c # hd (segments cs)) # tl (segments cs))"

definition proper_segments :: "string \<Rightarrow> bool" where
  "proper_segments path = (\<forall>seg \<in> set (segments path). seg \<notin> {[], ''.'', ''..''})"

definition safe_relative_path :: "string \<Rightarrow> bool" where
  "safe_relative_path path =
     (path \<noteq> [] \<and> proper_segments path \<and>
      CHR 0x5C \<notin> set path \<and>
      \<not> (length path \<ge> 2 \<and> ascii_letter (path ! 0) \<and> path ! 1 = CHR '':''))"

lemma segments_nonempty: "segments s \<noteq> []"
  by (cases s) auto

lemma segments_no_slash: "CHR ''/'' \<notin> set s \<Longrightarrow> segments s = [s]"
  by (induction s) auto

lemma segments_slash: "CHR ''/'' \<notin> set a \<Longrightarrow> segments (a @ CHR ''/'' # b) = a # segments b"
  by (induction a) auto

lemma find_char_None_iff: "off \<le> length s \<Longrightarrow> find_char c s off = None \<longleftrightarrow> c \<notin> set (drop off s)"
proof
  assume no: "c \<notin> set (drop off s)" and off: "off \<le> length s"
  then have "length (takeWhile (\<lambda>x. x \<noteq> c) (drop off s)) = length (drop off s)"
    by (metis (mono_tags, lifting) takeWhile_eq_all_conv)
  with off show "find_char c s off = None"
    by (simp add: find_char_def skip_while_def)
qed (use find_char_None in auto)

lemma segments_found:
  assumes "find_char (CHR ''/'') path off = Some i"
  shows "segments (drop off path) = take (i - off) (drop off path) # segments (drop (i + 1) path)"
proof -
  have i: "off \<le> i" "i < length path" "path ! i = CHR ''/''"
    using find_char_Some [OF assms] by auto
  then have "drop off path = take (i - off) (drop off path) @ CHR ''/'' # drop (i + 1) path"
    using append_take_drop_id [of "i - off" "drop off path"] Cons_nth_drop_Suc [OF i(2)] by simp
  then show ?thesis using segments_slash [OF find_char_before [OF assms]] by metis
qed

lemma segment_loop_None:
  "off \<le> length path \<Longrightarrow>
   segment_loop path off = None \<longleftrightarrow> proper_segments (drop off path)"
  unfolding proper_segments_def
proof (induction path off rule: segment_loop.induct)
  case (1 path off)
  show ?case
  proof (cases "find_char (CHR ''/'') path off")
    case None
    with 1 segments_no_slash [OF find_char_None [OF None]] show ?thesis
      by (subst segment_loop.simps) (simp add: Let_def)
  next
    case (Some i)
    with 1 segments_found [OF Some] find_char_Some [OF Some] show ?thesis
      by (subst segment_loop.simps) (simp add: Let_def)
  qed
qed

theorem unsafe_artifact_offset_None: "unsafe_artifact_offset path = None \<longleftrightarrow> safe_relative_path path"
proof (cases path)
  case Nil
  then show ?thesis by (simp add: unsafe_artifact_offset_def safe_relative_path_def)
next
  case (Cons c cs)
  show ?thesis
  proof (cases "c = CHR ''/''")
    case True
    with Cons show ?thesis
      by (simp add: unsafe_artifact_offset_def safe_relative_path_def proper_segments_def)
  next
    case False
    have "unsafe_artifact_offset path = None \<longleftrightarrow>
        \<not> (length path \<ge> 2 \<and> ascii_letter (path ! 0) \<and> path ! 1 = CHR '':'') \<and>
        find_char (CHR 0x5C) path 0 = None \<and> segment_loop path 0 = None"
      using Cons False by (simp add: unsafe_artifact_offset_def split: option.split)
    also have "\<dots> \<longleftrightarrow> safe_relative_path path"
      using segment_loop_None [of 0 path] find_char_None_iff [of 0 path "CHR 0x5C"] Cons
      by (auto simp: safe_relative_path_def)
    finally show ?thesis .
  qed
qed

section \<open>The invariant of the parser state\<close>

definition flash_tasks :: "planned_update_task list \<Rightarrow> planned_update_task list" where
  "flash_tasks = filter (\<lambda>t. task_kind t = Flash)"

definition flash_target :: "planned_update_task \<Rightarrow> planned_slot \<times> string" where
  "flash_target t = (task_slot t, task_partition t)"

definition key_of :: "planned_slot \<times> string \<Rightarrow> string" where
  "key_of = (\<lambda>(slot, part). target_key (slot = Slot_other) part)"

lemma inj_key_of: "inj key_of"
proof (rule injI)
  fix x y assume "key_of x = key_of y"
  then show "x = y"
    by (cases "fst x"; cases "fst y"; cases x; cases y) (auto simp: key_of_def target_key_def)
qed

lemma flash_task_fields [simp]:
  "task_kind (flash_task c loc a part name) = Flash" "task_artifact (flash_task c loc a part name) = name"
  "key_of (flash_target (flash_task c loc a part name)) = target_key (arg_slot_other a) (token_text part)"
  by (simp_all add: flash_task_def default_task_def flash_target_def key_of_def)

definition option_count :: "parsed_update_manifest \<Rightarrow> nat" where
  "option_count m = sum_list (map (\<lambda>r. length (req_options r)) (manifest_requirements m))"

definition requirements_ok :: "update_plan_limits \<Rightarrow> parsed_update_manifest \<Rightarrow> bool" where
  "requirements_ok limits m =
     (length (manifest_requirements m) \<le> maximum_requirements limits \<and>
      option_count m \<le> maximum_total_options limits \<and>
      (\<forall>r \<in> set (manifest_requirements m).
         req_options r \<noteq> [] \<and> length (req_options r) \<le> maximum_options_per_requirement limits \<and>
         length (req_variable r) \<le> max 7 (maximum_field_bytes limits)))"

definition task_ok :: "update_plan_limits \<Rightarrow> planned_update_task \<Rightarrow> bool" where
  "task_ok limits t =
     (if task_kind t = Flash
      then safe_relative_path (task_artifact t) \<and> length (task_artifact t) \<le> maximum_field_bytes limits
      else task_artifact t = [] \<and> task_slot t = Slot_default \<and> \<not> task_apply_vbmeta t)"

definition parser_inv :: "update_plan_limits \<Rightarrow> parser_state \<Rightarrow> bool" where
  "parser_inv limits s =
     (requirements_ok limits (ps_manifest s) \<and> total_options s = option_count (ps_manifest s) \<and>
      length (manifest_tasks (ps_manifest s)) \<le> maximum_tasks limits \<and>
      (\<forall>t \<in> set (manifest_tasks (ps_manifest s)). task_ok limits t) \<and>
      map fst (flash_targets s) = map (key_of \<circ> flash_target) (flash_tasks (manifest_tasks (ps_manifest s))) \<and>
      distinct (map fst (flash_targets s)) \<and>
      (\<forall>v. fastboot_info_version (ps_manifest s) = Some v \<longrightarrow> v \<le> kFrozenFastbootInfoVersion))"

lemma parser_inv_initial: "parser_inv limits initial_parser_state"
  by (simp add: parser_inv_def initial_parser_state_def requirements_ok_def option_count_def flash_tasks_def)

text \<open>The alternatives of a requirement.\<close>

lemma options_loop_ok:
  "\<lbrakk>options_loop l a limits start options totals = Inr (options', totals');
    length options \<le> maximum_options_per_requirement limits\<rbrakk> \<Longrightarrow>
   options' \<noteq> [] \<and> length options' \<le> maximum_options_per_requirement limits \<and>
   totals' \<le> maximum_total_options limits \<and> length options' + totals = length options + totals'"
proof (induction l a limits start options totals rule: options_loop.induct)
  case (1 l a limits start options totals)
  let ?sep = "find_char (CHR ''|'') (asg_raw_options a) start"
  have room: "\<not> (length options \<ge> maximum_options_per_requirement limits \<or> totals \<ge> maximum_total_options limits)"
    using "1.prems"(1) by (subst (asm) options_loop.simps) (auto simp: upd_fail_def split: if_splits)
  show ?case
  proof (cases ?sep)
    case None
    with "1.prems" room show ?thesis
      by (subst (asm) options_loop.simps) (auto simp: Let_def split: sum.splits)
  next
    case (Some i)
    with "1.prems" room obtain opt chk where
      step: "check_field_size l (asg_options_offset a + (start + length (takeWhile is_ascii_space
          (take (i - start) (drop start (asg_raw_options a)))))) opt limits ''android-info option'' = Inr chk"
        "opt = rev (dropWhile is_ascii_space (rev (dropWhile is_ascii_space
          (take (i - start) (drop start (asg_raw_options a))))))"
      and rest: "options_loop l a limits (i + 1) (options @ [opt]) (totals + 1) = Inr (options', totals')"
      by (subst (asm) options_loop.simps) (auto simp: Let_def split: sum.splits)
    have "length (options @ [opt]) \<le> maximum_options_per_requirement limits"
      using room by simp
    from "1.IH" [OF room refl refl refl refl refl, of chk] this rest step Some show ?thesis by auto
  qed
qed

lemma push_requirement_inv:
  assumes "parser_inv limits s" and "length (manifest_requirements (ps_manifest s)) < maximum_requirements limits"
    and "options_loop l a limits 0 [] (total_options s) = Inr (req_options r, totals)"
    and "length (req_variable r) \<le> max 7 (maximum_field_bytes limits)"
  shows "parser_inv limits (push_requirement r totals s)"
  using assms options_loop_ok [OF assms(3)]
  by (auto simp: parser_inv_def requirements_ok_def option_count_def push_requirement_def)

lemma parse_android_line_Inr:
  assumes "parse_android_line limits l s = Inr s'" and "line_text l \<noteq> []"
  obtains syn options totals where
    "length (manifest_requirements (ps_manifest s)) < maximum_requirements limits"
    "length (asg_name (syn_assignment syn)) \<le> maximum_field_bytes limits"
    "options_loop l (syn_assignment syn) limits 0 [] (total_options s) = Inr (options, totals)"
    "s' = push_requirement (requirement_of l syn options) totals s"
  using assms
  by (auto simp: parse_android_line_def upd_fail_def parse_requirement_options_def check_field_size_def not_le
      split: outcome_splits)

lemma parse_android_line_inv:
  assumes "parser_inv limits s" and "parse_android_line limits l s = Inr s'"
  shows "parser_inv limits s'"
proof (cases "line_text l = []")
  case True
  with assms show ?thesis by (simp add: parse_android_line_def)
next
  case False
  from assms(2) False show ?thesis
  proof (cases rule: parse_android_line_Inr)
    case (1 syn options totals)
    then show ?thesis
      using push_requirement_inv [OF assms(1) 1(1), of l "syn_assignment syn"]
      by (auto simp: requirement_of_def Let_def le_max_iff_disj)
  qed
qed

text \<open>The tasks.\<close>

lemma push_task_inv:
  assumes "parser_inv limits s" and "length (manifest_tasks (ps_manifest s)) < maximum_tasks limits"
    and "task_ok limits t" and "task_kind t \<noteq> Flash"
  shows "parser_inv limits (push_task t s)"
  using assms by (auto simp: parser_inv_def push_task_def requirements_ok_def option_count_def flash_tasks_def)

lemma push_flash_inv:
  assumes "parser_inv limits s" and "length (manifest_tasks (ps_manifest s)) < maximum_tasks limits"
    and "task_ok limits t" and "task_kind t = Flash"
    and "map_of (flash_targets s) (key_of (flash_target t)) = None"
  shows "parser_inv limits (push_task t (s\<lparr>flash_targets := flash_targets s @ [(key_of (flash_target t), loc)]\<rparr>))"
proof -
  have "key_of (flash_target t) \<notin> set (map fst (flash_targets s))"
    using assms(5) by (simp add: map_of_eq_None_iff)
  with assms show ?thesis
    by (auto simp: parser_inv_def push_task_def requirements_ok_def option_count_def flash_tasks_def)
qed

lemma add_flash_task_Inr:
  assumes "add_flash_task l tokens i conditional limits s = Inr s'"
  obtains a part name loc loc' where
    "s' = push_task (flash_task conditional loc a part name)
            (s\<lparr>flash_targets := flash_targets s @ [(target_key (arg_slot_other a) (token_text part), loc')]\<rparr>)"
    "unsafe_artifact_offset name = None" "length name \<le> maximum_field_bytes limits"
    "map_of (flash_targets s) (target_key (arg_slot_other a) (token_text part)) = None"
  using assms
  by (auto simp: add_flash_task_def upd_fail_def Let_def not_less
      split: outcome_splits)

lemma add_flash_task_inv:
  assumes "parser_inv limits s" and "length (manifest_tasks (ps_manifest s)) < maximum_tasks limits"
    and "add_flash_task l tokens i conditional limits s = Inr s'"
  shows "parser_inv limits s'"
  using assms(3)
proof (cases rule: add_flash_task_Inr)
  case (1 a part name loc loc')
  then show ?thesis
    using push_flash_inv [OF assms(1,2), of "flash_task conditional loc a part name" loc']
    by (simp add: task_ok_def unsafe_artifact_offset_None)
qed

lemma parse_fastboot_task_inv:
  assumes "parser_inv limits s" and "parse_fastboot_task l tokens i conditional limits s = Inr s'"
  shows "parser_inv limits s'"
proof -
  have room: "length (manifest_tasks (ps_manifest s)) < maximum_tasks limits"
    using assms(2) by (simp add: parse_fastboot_task_def upd_fail_def Let_def not_le split: if_splits)
  consider "add_flash_task l tokens i conditional limits s = Inr s'"
    | t where "s' = push_task t s" "task_kind t \<noteq> Flash" "task_ok limits t"
    using assms(2) room
    by (auto simp: parse_fastboot_task_def add_reboot_task_def upd_fail_def Let_def task_ok_def default_task_def
        split: if_split_asm)
  then show ?thesis
  proof cases
    case 1
    then show ?thesis by (rule add_flash_task_inv [OF assms(1) room])
  next
    case 2
    then show ?thesis using push_task_inv [OF assms(1) room] by simp
  qed
qed

lemma parse_version_inv:
  "\<lbrakk>parser_inv limits s; parse_version l tokens s = Inr s'\<rbrakk> \<Longrightarrow> parser_inv limits s'"
  by (auto simp: parse_version_def upd_fail_def parser_inv_def requirements_ok_def option_count_def
      split: if_split_asm option.split_asm)

lemma parse_fastboot_line_inv:
  "\<lbrakk>parser_inv limits s; parse_fastboot_line limits l s w = (Inr s', w')\<rbrakk> \<Longrightarrow> parser_inv limits s'"
  by (auto simp: parse_fastboot_line_def parse_fastboot_tokens_def upd_fail_def
      split: outcome_splits intro: parse_version_inv parse_fastboot_task_inv)

interpretation android_keeps: line_keeps "\<lambda>l s w. (parse_android_line limits l s, w)" "parser_inv limits" for limits
  by unfold_locales (auto intro: parse_android_line_inv)

interpretation fastboot_keeps: line_keeps "parse_fastboot_line limits" "parser_inv limits" for limits
  by unfold_locales (rule parse_fastboot_line_inv)

lemma parse_update_manifest_inv:
  assumes "parse_update_manifest android_info fastboot_info limits = Inr m"
  obtains s where "parser_inv limits s" "m = ps_manifest s"
proof -
  from assms obtain s1 w1 s2 w2 where
    "for_each_line Android_info android_info limits (\<lambda>l s w. (parse_android_line limits l s, w))
       initial_parser_state no_work = (Inr s1, w1)"
    "for_each_line Fastboot_info fastboot_info limits (parse_fastboot_line limits) s1 w1 = (Inr s2, w2)"
    "m = ps_manifest s2"
    by (auto simp: parse_update_manifest_def parse_update_manifest_impl_def split: outcome_splits)
  then show ?thesis
    using that android_keeps.for_each_line_keeps [OF parser_inv_initial] fastboot_keeps.for_each_line_keeps
    by blast
qed

end
