(* ===== verification/Update_Locations.thy ===== *)
theory Update_Locations
  imports Update_Manifest
begin

text \<open>
  Error positions and scanning work of the manifest parser: both callbacks of the line driver report errors
  inside the line they were given, and the tokenizer tests a character at most twice.
\<close>

section \<open>Errors inside a line\<close>

definition located :: "line \<Rightarrow> update_plan_error \<Rightarrow> bool" where
  "located l e = (\<exists>k \<le> length (line_text l). upe_location e = location l k)"

definition errors_located :: "line \<Rightarrow> update_plan_error + 'a \<Rightarrow> bool" where
  "errors_located l r = (\<forall>e. r = Inl e \<longrightarrow> located l e)"

lemma errors_located_Inr [simp]: "errors_located l (Inr x)"
  by (simp add: errors_located_def)

lemma errors_located_fail: "k \<le> length (line_text l) \<Longrightarrow> errors_located l (upd_fail code (location l k) m)"
  by (auto simp: errors_located_def located_def upd_fail_def)

lemma errors_located_if:
  "\<lbrakk>b \<Longrightarrow> errors_located l x; \<not> b \<Longrightarrow> errors_located l y\<rbrakk> \<Longrightarrow> errors_located l (if b then x else y)"
  by simp

lemma errors_located_sum:
  "\<lbrakk>errors_located l r; \<And>x. r = Inr x \<Longrightarrow> errors_located l (f x)\<rbrakk> \<Longrightarrow>
   errors_located l (case r of Inl e \<Rightarrow> Inl e | Inr x \<Rightarrow> f x)"
  by (cases r) (auto simp: errors_located_def)

lemma errors_located_sum_pair:
  "\<lbrakk>errors_located l r; \<And>x y. r = Inr (x, y) \<Longrightarrow> errors_located l (f x y)\<rbrakk> \<Longrightarrow>
   errors_located l (case r of Inl e \<Rightarrow> Inl e | Inr (x, y) \<Rightarrow> f x y)"
  by (cases r) (auto simp: errors_located_def)

subsection \<open>android-info lines\<close>

lemma skip_ascii_space_le: "off \<le> length s \<Longrightarrow> skip_ascii_space s off \<le> length s"
  by (simp add: skip_ascii_space_def skip_while_le)

lemma rfind_char_Some: "rfind_char c s pos = Some i \<Longrightarrow> i < length s"
  unfolding rfind_char_def by (drule find_SomeD) auto

definition assignment_in :: "string \<Rightarrow> assignment \<Rightarrow> bool" where
  "assignment_in s a =
     (asg_name_offset a + length (asg_name a) \<le> length s \<and>
      asg_options_offset a + length (asg_raw_options a) \<le> length s)"

lemma parse_assignment_in:
  assumes "start \<le> length s" and "farthest \<le> length s"
  shows "snd (parse_assignment s start farthest) \<le> length s"
    and "fst (parse_assignment s start farthest) = Some a \<Longrightarrow> assignment_in s a"
proof -
  let ?name = "skip_ascii_space s start"
  let ?stop = "skip_while (\<lambda>c. \<not> is_ascii_space c) s ?name"
  let ?next = "skip_ascii_space s ?stop"
  have le: "?name \<le> length s" "?stop \<le> length s" "?next \<le> length s"
    using assms(1) by (simp_all add: skip_ascii_space_le skip_while_le)
  have ge: "?name \<le> ?stop" "?stop \<le> ?next" by (simp_all add: skip_while_ge skip_ascii_space_def)
  have eq: "skip_ascii_space s (i + 1) \<le> length s" if "i < length s" for i
    using that by (simp add: skip_ascii_space_le)
  show "snd (parse_assignment s start farthest) \<le> length s"
    using assms(2) le eq rfind_char_Some [of _ s]
    by (auto simp: parse_assignment_def Let_def split: option.splits if_splits)
  show "assignment_in s a" if "fst (parse_assignment s start farthest) = Some a"
    using that le ge eq rfind_char_Some [of _ s]
    by (fastforce simp: parse_assignment_def assignment_in_def Let_def split: option.splits if_splits)
qed

definition syntax_in :: "string \<Rightarrow> requirement_syntax \<Rightarrow> bool" where
  "syntax_in s syn =
     (assignment_in s (syn_assignment syn) \<and>
      (\<forall>p. syn_product syn = Some p \<longrightarrow> syn_product_offset syn + length p \<le> length s))"

lemma try_prefixed_in:
  assumes "farthest \<le> length s" and "try_prefixed s keyword action farthest = (r, farthest')"
  shows "farthest' \<le> length s" and "r = Some syn \<Longrightarrow> syntax_in s syn"
proof -
  have "length keyword \<le> length s" if "starts_with s keyword"
    using that by (metis linorder_not_le order_less_imp_le starts_with_def take_all)
  then have start: "length keyword \<le> length s" if "\<not> (\<not> starts_with s keyword \<or> b)" for b
    using that by blast
  note pa = parse_assignment_in [OF _ assms(1), of "length keyword"]
  show "farthest' \<le> length s"
    using assms start pa(1) by (auto simp: try_prefixed_def split: outcome_splits)
  show "r = Some syn \<Longrightarrow> syntax_in s syn"
    using assms start pa(2) by (auto simp: try_prefixed_def syntax_in_def split: outcome_splits)
qed

lemma try_product_in:
  assumes "farthest \<le> length s" and "try_product s farthest = (r, farthest')"
  shows "farthest' \<le> length s" and "r = Some syn \<Longrightarrow> syntax_in s syn"
proof -
  define prefix where "prefix = ''require-for-product:''"
  have prefix: "length prefix \<le> length s" if "starts_with s prefix"
    using that by (metis linorder_not_le order_less_imp_le starts_with_def take_all)
  define start where "start = skip_ascii_space s (length prefix)"
  define stop where "stop = skip_while (\<lambda>c. \<not> is_ascii_space c) s start"
  define var where "var = skip_ascii_space s stop"
  have le: "start \<le> length s" "stop \<le> length s" "var \<le> length s" if "starts_with s prefix"
    using prefix [OF that] by (simp_all add: start_def stop_def var_def skip_ascii_space_le skip_while_le)
  have run: "try_product s farthest =
      (if starts_with s prefix then
         if stop > start \<and> stop < length s then
           case parse_assignment s var (max (max (max farthest start) stop) var) of
             (Some a, f) \<Rightarrow>
               (Some \<lparr>syn_action = Require, syn_assignment = a,
                      syn_product = Some (take (stop - start) (drop start s)), syn_product_offset = start\<rparr>, f)
           | (None, f) \<Rightarrow> (None, f)
         else (None, max (max farthest start) stop)
       else (None, farthest))"
    unfolding try_product_def Let_def prefix_def start_def stop_def var_def by (rule refl)
  note pa = parse_assignment_in [of var s "max (max (max farthest start) stop) var"]
  show "farthest' \<le> length s"
    using assms le pa(1) unfolding run by (auto split: outcome_splits)
  show "r = Some syn \<Longrightarrow> syntax_in s syn"
    using assms le pa(2) unfolding run by (auto simp: syntax_in_def split: outcome_splits)
qed

lemma parse_requirement_syntax_in:
  shows "parse_requirement_syntax s = Inl k \<Longrightarrow> k \<le> length s"
    and "parse_requirement_syntax s = Inr syn \<Longrightarrow> syntax_in s syn"
proof -
  obtain r1 f1 where 1: "try_prefixed s ''require'' Require 0 = (r1, f1)" by fastforce
  obtain r2 f2 where 2: "try_prefixed s ''reject'' Reject f1 = (r2, f2)" by fastforce
  obtain r3 f3 where 3: "parse_assignment s 0 f2 = (r3, f3)" by fastforce
  obtain r4 f4 where 4: "try_product s f3 = (r4, f4)" by fastforce
  note p1 = try_prefixed_in [OF _ 1, simplified]
  note p2 = try_prefixed_in [OF p1(1) 2]
  note p3 = parse_assignment_in [OF _ p2(1), of 0, unfolded 3, simplified]
  note p4 = try_product_in [OF p3(1) 4]
  show "parse_requirement_syntax s = Inl k \<Longrightarrow> k \<le> length s"
    using p4(1) by (auto simp: parse_requirement_syntax_def 1 2 3 4 split: outcome_splits)
  show "parse_requirement_syntax s = Inr syn \<Longrightarrow> syntax_in s syn"
    using p1(2) p2(2) p3(2) p4(2)
    by (auto simp: parse_requirement_syntax_def syntax_in_def 1 2 3 4 split: outcome_splits)
qed

lemma check_field_size_located:
  "offset + length field \<le> length (line_text l) \<Longrightarrow>
   errors_located l (check_field_size l offset field limits description)"
  by (simp add: check_field_size_def errors_located_fail)

lemma options_loop_located:
  "\<lbrakk>start \<le> length (asg_raw_options a); assignment_in (line_text l) a\<rbrakk> \<Longrightarrow>
   errors_located l (options_loop l a limits start options totals)"
proof (induction l a limits start options totals rule: options_loop.induct)
  case (1 l a limits start options totals)
  let ?raw = "asg_raw_options a"
  define separator where "separator = find_char (CHR ''|'') ?raw start"
  define stop where "stop = (case separator of None \<Rightarrow> length ?raw | Some i \<Rightarrow> i)"
  define field where "field = take (stop - start) (drop start ?raw)"
  define option where "option = rev (dropWhile is_ascii_space (rev (dropWhile is_ascii_space field)))"
  have "length option \<le> length (dropWhile is_ascii_space field)"
    unfolding option_def by (metis length_dropWhile_le length_rev)
  moreover have "length (takeWhile is_ascii_space field) + length (dropWhile is_ascii_space field) = length field"
    by (metis length_append takeWhile_dropWhile_id)
  moreover have "length field \<le> length ?raw - start" by (simp add: field_def)
  ultimately have checked: "errors_located l (check_field_size l
      (asg_options_offset a + (start + length (takeWhile is_ascii_space field))) option limits ''android-info option'')"
    using "1.prems" unfolding assignment_in_def by (intro check_field_size_located) linarith
  have next_ok: "i + 1 \<le> length ?raw" if "separator = Some i" for i
    using find_char_Some that by (fastforce simp: separator_def)
  note IH = "1.IH" [OF _ separator_def stop_def field_def refl option_def]
  show ?case
    apply (subst options_loop.simps)
    unfolding Let_def
    apply (fold separator_def)
    apply (fold stop_def)
    apply (fold field_def)
    apply (fold option_def)
    using "1.prems" checked next_ok IH
    by (auto simp: assignment_in_def intro!: errors_located_fail errors_located_sum split: option.split)
qed

lemma parse_android_line_located: "errors_located l (parse_android_line limits l s)"
proof -
  have syn: "errors_located l (case syn_product syn of None \<Rightarrow> Inr ()
        | Some p \<Rightarrow> check_field_size l (syn_product_offset syn) p limits ''android-info product'')"
      "errors_located l (check_field_size l (asg_name_offset (syn_assignment syn)) (asg_name (syn_assignment syn))
         limits ''android-info variable'')"
      "errors_located l (options_loop l (syn_assignment syn) limits 0 [] n)"
    if "parse_requirement_syntax (line_text l) = Inr syn" for syn n
    using parse_requirement_syntax_in(2) [OF that]
    by (auto simp: syntax_in_def assignment_in_def intro!: check_field_size_located options_loop_located
        split: option.split)
  show ?thesis
  proof (cases "parse_requirement_syntax (line_text l)")
    case (Inl k)
    with parse_requirement_syntax_in(1) [OF Inl] show ?thesis
      by (simp add: parse_android_line_def errors_located_fail)
  next
    case (Inr r)
    show ?thesis
      unfolding parse_android_line_def parse_requirement_options_def Inr sum.case
      by (intro errors_located_if errors_located_Inr errors_located_fail errors_located_sum
          errors_located_sum_pair syn [OF Inr]) simp_all
  qed
qed

subsection \<open>Tokens\<close>

definition token_in :: "line \<Rightarrow> token \<Rightarrow> bool" where
  "token_in l t = (token_column t - 1 + length (token_text t) \<le> length (line_text l))"

lemma token_located: "\<lbrakk>token_in l t; k \<le> length (token_text t)\<rbrakk> \<Longrightarrow>
    errors_located l (upd_fail code (token_location l t k) m)"
  unfolding token_location_def by (rule errors_located_fail) (simp add: token_in_def)

text \<open>One turn of the tokenizer.\<close>

definition token_start :: "line \<Rightarrow> nat \<Rightarrow> nat" where
  "token_start l off = skip_while (\<lambda>c. c = CHR '' '') (line_text l) off"

definition token_end :: "line \<Rightarrow> nat \<Rightarrow> nat" where
  "token_end l off = skip_while (\<lambda>c. c \<noteq> CHR '' '') (line_text l) (token_start l off)"

lemma token_bounds:
  assumes "token_start l off < length (line_text l)"
  shows "off \<le> token_start l off" "token_start l off < token_end l off" "token_end l off \<le> length (line_text l)"
    and "token_end l off < length (line_text l) \<Longrightarrow> line_text l ! token_end l off = CHR '' ''"
    and "off < length (line_text l) \<Longrightarrow> line_text l ! off = CHR '' '' \<Longrightarrow> off < token_start l off"
  using assms skip_while_ge [of off] skip_while_stops [of "\<lambda>c. c = CHR '' ''" "line_text l" off]
    skip_while_moves [of "token_start l off" "line_text l" "\<lambda>c. c \<noteq> CHR '' ''"]
    skip_while_le [of "token_start l off" "line_text l"]
    skip_while_stops [of "\<lambda>c. c \<noteq> CHR '' ''" "line_text l" "token_start l off"]
    skip_while_moves [of off "line_text l" "\<lambda>c. c = CHR '' ''"]
  by (auto simp: token_start_def token_end_def)

lemma tokenize_turn:
  "tokenize_loop l limits off result w =
     (if off < length (line_text l) then
        let w1 = count_run (line_text l) off (token_start l off) w in
        if token_start l off \<ge> length (line_text l) then (Inr result, w1)
        else
          let w2 = count_run (line_text l) (token_start l off) (token_end l off) w1 in
          if token_end l off - token_start l off > maximum_field_bytes limits then
            (upd_fail Limit_exceeded (location l (token_start l off + maximum_field_bytes limits))
               ''fastboot-info field exceeds maximum byte size'', w2)
          else if length result \<ge> maximum_tokens_per_line limits then
            (upd_fail Limit_exceeded (location l (token_start l off))
               ''fastboot-info line exceeds maximum token count'', w2)
          else tokenize_loop l limits (token_end l off)
                 (result @ [\<lparr>token_text = take (token_end l off - token_start l off)
                     (drop (token_start l off) (line_text l)), token_column = token_start l off + 1\<rparr>])
                 (w2\<lparr>tokens_emitted := tokens_emitted w2 + 1\<rparr>)
      else (Inr result, w))"
  by (subst tokenize_loop.simps) (simp add: token_start_def token_end_def Let_def)

lemma token_induct [case_names turn]:
  assumes "\<And>off. (token_start l off < length (line_text l) \<Longrightarrow> P (token_end l off)) \<Longrightarrow> P off"
  shows "P off"
proof (induction "length (line_text l) - off" arbitrary: off rule: less_induct)
  case (less off)
  show ?case
  proof (rule assms)
    assume "token_start l off < length (line_text l)"
    from token_bounds(1-3) [OF this] show "P (token_end l off)"
      by (intro less) linarith
  qed
qed

lemma tokenize_located:
  "\<forall>t \<in> set result. token_in l t \<Longrightarrow>
   errors_located l (fst (tokenize_loop l limits off result w)) \<and>
   (\<forall>ts. fst (tokenize_loop l limits off result w) = Inr ts \<longrightarrow> (\<forall>t \<in> set ts. token_in l t))"
proof (induction off arbitrary: result w rule: token_induct [where l = l])
  case (turn off)
  show ?case
  proof (cases "off < length (line_text l) \<and> token_start l off < length (line_text l)")
    case True
    let ?t = "\<lparr>token_text = take (token_end l off - token_start l off)
                     (drop (token_start l off) (line_text l)), token_column = token_start l off + 1\<rparr>"
    have "token_in l ?t" using True token_bounds [of l off] by (simp add: token_in_def)
    with turn.prems have "\<forall>t \<in> set (result @ [?t]). token_in l t" by auto
    note IH = turn.IH [OF _ this]
    obtain w2 w3 where eq: "tokenize_loop l limits off result w =
        (if token_end l off - token_start l off > maximum_field_bytes limits then
            (upd_fail Limit_exceeded (location l (token_start l off + maximum_field_bytes limits))
               ''fastboot-info field exceeds maximum byte size'', w2)
          else if length result \<ge> maximum_tokens_per_line limits then
            (upd_fail Limit_exceeded (location l (token_start l off))
               ''fastboot-info line exceeds maximum token count'', w2)
          else tokenize_loop l limits (token_end l off) (result @ [?t]) w3)"
      using True tokenize_turn [of l limits off result w] by (simp add: Let_def not_le)
    show ?thesis
    proof (cases "maximum_field_bytes limits < token_end l off - token_start l off")
      case long: True
      with True token_bounds [of l off] show ?thesis
        by (simp add: eq errors_located_fail) (simp add: upd_fail_def)
    next
      case short: False
      show ?thesis
      proof (cases "maximum_tokens_per_line limits \<le> length result")
        case True
        with short \<open>off < length (line_text l) \<and> token_start l off < length (line_text l)\<close> show ?thesis
          by (simp add: eq errors_located_fail) (simp add: upd_fail_def)
      next
        case False
        with short have "tokenize_loop l limits off result w =
            tokenize_loop l limits (token_end l off) (result @ [?t]) w3" by (simp add: eq)
        with IH True show ?thesis by simp
      qed
    qed
  next
    case False
    then have "fst (tokenize_loop l limits off result w) = Inr result"
      using tokenize_turn [of l limits off result w] by (auto simp: Let_def)
    with turn.prems show ?thesis by simp
  qed
qed

subsection \<open>Tasks\<close>

definition arguments_in :: "line \<Rightarrow> flash_arguments \<Rightarrow> bool" where
  "arguments_in l a =
     ((\<forall>t. arg_partition a = Some t \<longrightarrow> token_in l t) \<and> (\<forall>t. arg_artifact a = Some t \<longrightarrow> token_in l t))"

lemma flash_arguments_located:
  "\<lbrakk>\<forall>t \<in> set ts. token_in l t; arguments_in l a\<rbrakk> \<Longrightarrow>
   errors_located l (flash_arguments_loop l ts a) \<and>
   (\<forall>a'. flash_arguments_loop l ts a = Inr a' \<longrightarrow> arguments_in l a')"
proof (induction l ts a rule: flash_arguments_loop.induct)
  case (2 l t ts a)
  have fail: "errors_located l (upd_fail code (token_location l t 0) m)" for code m
    using "2.prems" by (intro token_located) auto
  have a: "arguments_in l (a\<lparr>arg_apply_vbmeta := True\<rparr>)" "arguments_in l (a\<lparr>arg_slot_other := True\<rparr>)"
    "arguments_in l (a\<lparr>arg_partition := Some t\<rparr>)" "arguments_in l (a\<lparr>arg_artifact := Some t\<rparr>)"
    using "2.prems" by (auto simp: arguments_in_def)
  have ts: "\<forall>t \<in> set ts. token_in l t" using "2.prems" by simp
  have failed: "upd_fail code loc m \<noteq> (Inr a' :: update_plan_error + flash_arguments)" for code loc m a'
    by (simp add: upd_fail_def)
  show ?case
    using "2.IH"(1) [OF _ _ ts a(1)] "2.IH"(2) [OF _ _ _ ts a(2)] "2.IH"(3) [OF _ _ _ ts a(3)]
      "2.IH"(4) [OF _ _ _ _ ts a(4)]
    by (simp add: fail failed)
qed simp

text \<open>An offset into a path that is unsafe lies before every later position that no slash follows.\<close>

lemma segment_loop_within:
  "\<lbrakk>off \<le> n; n \<le> length path; \<And>i. n \<le> i \<Longrightarrow> i < length path \<Longrightarrow> path ! i \<noteq> CHR ''/'';
    segment_loop path off = Some k\<rbrakk> \<Longrightarrow> k \<le> n"
proof (induction path off rule: segment_loop.induct)
  case (1 path off)
  show ?case
  proof (cases "find_char (CHR ''/'') path off")
    case None
    with "1.prems"(1,2,4) segment_loop.simps [of path off] show ?thesis
      by (auto simp: Let_def split: if_splits)
  next
    case (Some i)
    with "1.prems"(3) [of i] find_char_Some [OF Some] have "i + 1 \<le> n" by force
    with "1.IH" [OF refl refl refl _ Some] "1.prems" segment_loop.simps [of path off] show ?thesis
      by (auto simp: Let_def Some split: if_splits)
  qed
qed

lemma unsafe_artifact_offset_within:
  assumes "n \<le> length path" and "\<And>i. n \<le> i \<Longrightarrow> i < length path \<Longrightarrow> path ! i \<noteq> CHR ''/'' \<and> path ! i \<noteq> CHR 0x5C"
    and "unsafe_artifact_offset path = Some k"
  shows "k \<le> n"
  using assms segment_loop_within [of 0 n path k] find_char_Some [of "CHR 0x5C" path 0 k]
  by (auto simp: unsafe_artifact_offset_def not_le split: if_splits option.splits)
    (metis less_imp_le_nat not_le)+

lemma unsafe_offset_derived: "unsafe_artifact_offset (p @ ''.img'') = Some k \<Longrightarrow> k \<le> length p"
proof (rule unsafe_artifact_offset_within [of "length p" "p @ ''.img''"])
  fix i assume "length p \<le> i" and "i < length (p @ ''.img'')"
  then have "(p @ ''.img'') ! i \<in> set ''.img''"
    by (metis length_append nth_append_right nth_mem add_less_imp_less_left le_Suc_ex add_diff_cancel_left')
  then show "(p @ ''.img'') ! i \<noteq> CHR ''/'' \<and> (p @ ''.img'') ! i \<noteq> CHR 0x5C" by auto
qed simp_all

lemma unsafe_offset_given: "unsafe_artifact_offset p = Some k \<Longrightarrow> k \<le> length p"
  by (rule unsafe_artifact_offset_within [of "length p" p]) auto

lemma flash_artifact_located:
  assumes "arguments_in l a" and "arg_partition a = Some part"
  shows "errors_located l (flash_artifact_name l part (arg_artifact a) limits)"
    and "flash_artifact_name l part (arg_artifact a) limits = Inr (name, loc) \<Longrightarrow>
      \<exists>t. token_in l t \<and> loc = token_location l t 0 \<and>
        (\<forall>k. unsafe_artifact_offset name = Some k \<longrightarrow> k \<le> length (token_text t))"
  using assms
  by (auto simp: flash_artifact_name_def arguments_in_def upd_fail_def
      split: option.splits if_splits dest: unsafe_offset_derived unsafe_offset_given
      intro!: token_located [unfolded upd_fail_def])

lemma token_location_shift:
  "(token_location l t 0)\<lparr>loc_column := loc_column (token_location l t 0) + k,
     loc_byte_offset := loc_byte_offset (token_location l t 0) + k\<rparr> = token_location l t k"
  by (simp add: token_location_def location_def)

lemma errors_located_option:
  "\<lbrakk>r = None \<Longrightarrow> errors_located l x; \<And>y. r = Some y \<Longrightarrow> errors_located l (f y)\<rbrakk> \<Longrightarrow>
   errors_located l (case r of None \<Rightarrow> x | Some y \<Rightarrow> f y)"
  by (cases r) auto

lemmas located_intros = errors_located_if errors_located_Inr errors_located_fail errors_located_sum_pair
  errors_located_sum errors_located_option token_located

lemma add_flash_task_located:
  assumes "\<forall>t \<in> set tokens. token_in l t"
  shows "errors_located l (add_flash_task l tokens i conditional limits s)"
proof -
  let ?empty = "\<lparr>arg_apply_vbmeta = False, arg_slot_other = False, arg_partition = None, arg_artifact = None\<rparr>"
  have "\<forall>t \<in> set (drop (Suc i) tokens). token_in l t" using assms by (auto dest: in_set_dropD)
  from flash_arguments_located [OF this, of ?empty]
  have args: "errors_located l (flash_arguments_loop l (drop (Suc i) tokens) ?empty)"
    "flash_arguments_loop l (drop (Suc i) tokens) ?empty = Inr a \<Longrightarrow> arguments_in l a" for a
    by (simp_all add: arguments_in_def)
  have artifact: "errors_located l (upd_fail c loc m)"
      "unsafe_artifact_offset name = Some k \<Longrightarrow> errors_located l (upd_fail c'
         (loc\<lparr>loc_column := loc_column loc + k, loc_byte_offset := loc_byte_offset loc + k\<rparr>) m')"
    if "arguments_in l a" "arg_partition a = Some part"
      "flash_artifact_name l part (arg_artifact a) limits = Inr (name, loc)" for a part name loc k c m c' m'
    using flash_artifact_located(2) [OF that] by (auto simp: token_location_shift intro!: token_located)
  have part: "token_in l part" if "arguments_in l a" "arg_partition a = Some part" for a part
    using that by (simp add: arguments_in_def)
  show ?thesis
    unfolding add_flash_task_def Let_def Suc_eq_plus1 [symmetric]
    by (intro located_intros args(1) flash_artifact_located(1) artifact) (auto intro: args(2) part)
qed

lemma parse_fastboot_task_located:
  assumes "\<forall>t \<in> set tokens. token_in l t" and "i < length tokens"
  shows "errors_located l (parse_fastboot_task l tokens i conditional limits s)"
proof -
  have tok: "token_in l (tokens ! j)" if "j < length tokens" for j using assms(1) that by simp
  have reboot: "errors_located l (add_reboot_task l tokens i conditional s)"
    unfolding add_reboot_task_def Let_def by (intro located_intros tok) auto
  show ?thesis
    unfolding parse_fastboot_task_def Let_def if_distrib [of "\<lambda>loc. upd_fail c loc m" for c m]
    by (intro located_intros reboot add_flash_task_located [OF assms(1)] tok) (use assms(2) in auto)
qed

lemma parse_fastboot_tokens_located:
  assumes "\<forall>t \<in> set tokens. token_in l t"
  shows "errors_located l (parse_fastboot_tokens l tokens limits s)"
proof -
  have tok: "token_in l (tokens ! j)" if "j < length tokens" for j using assms(1) that by simp
  have version: "errors_located l (parse_version l tokens s)" if "tokens \<noteq> []"
    unfolding parse_version_def Let_def if_distrib [of "\<lambda>loc. upd_fail c loc m" for c m]
    by (intro located_intros tok) (use that in auto)
  show ?thesis
    unfolding parse_fastboot_tokens_def
    by (intro located_intros parse_fastboot_task_located [OF assms] version) (auto simp: Suc_lessI)
qed

lemma parse_fastboot_line_located:
  "parse_fastboot_line limits l s w = (Inl e, w') \<Longrightarrow> located l e"
  using tokenize_located [of "[]" l limits 0 w] parse_fastboot_tokens_located [of _ l limits s]
  by (auto simp: parse_fastboot_line_def tokenize_fastboot_line_def errors_located_def split: outcome_splits)

interpretation android_located: line_located "\<lambda>l s w. (parse_android_line limits l s, w)" for limits
  using parse_android_line_located
  by unfold_locales (simp add: errors_located_def located_def)

interpretation fastboot_located: line_located "parse_fastboot_line limits" for limits
  using parse_fastboot_line_located
  by unfold_locales (simp add: located_def)

section \<open>Scanning work\<close>

lemma tokenize_costs:
  "\<lbrakk>off \<le> length (line_text l); tokenize_loop l limits off result w = (r, w')\<rbrakk> \<Longrightarrow>
   nul_characters w' = nul_characters w \<and> line_characters w' = line_characters w \<and>
   token_characters w' + (if off < length (line_text l) \<and> line_text l ! off = CHR '' '' then 1 else 0) \<le>
     token_characters w + 2 * (length (line_text l) - off)"
proof (induction off arbitrary: result w rule: token_induct [where l = l])
  case (turn off)
  show ?case
  proof (cases "off < length (line_text l) \<and> token_start l off < length (line_text l)")
    case True
    define w2 where "w2 = count_run (line_text l) (token_start l off) (token_end l off)
      (count_run (line_text l) off (token_start l off) w)"
    note b = token_bounds [of l off]
    have w2: "nul_characters w2 = nul_characters w" "line_characters w2 = line_characters w"
      "token_characters w2 = token_characters w + (token_end l off - off) + 1 +
         (if token_end l off < length (line_text l) then 1 else 0)"
      using True b by (auto simp: w2_def count_run_def)
    consider (stop) "w' = w2"
      | (more) ts where "tokenize_loop l limits (token_end l off) ts (w2\<lparr>tokens_emitted := tokens_emitted w2 + 1\<rparr>) = (r, w')"
      using turn.prems(2) True tokenize_turn [of l limits off result w]
      by (auto simp: Let_def w2_def split: if_splits)
    then show ?thesis
    proof cases
      case stop
      with True b w2 show ?thesis by (auto split: if_splits)
    next
      case (more ts)
      from turn.IH [OF _ _ more] True b w2 show ?thesis by (auto split: if_splits)
    qed
  next
    case False
    then have "w' = w \<and> \<not> off < length (line_text l) \<or>
        w' = count_run (line_text l) off (token_start l off) w \<and> off < length (line_text l) \<and>
        length (line_text l) \<le> token_start l off"
      using turn.prems(2) tokenize_turn [of l limits off result w] by (auto simp: Let_def split: if_splits)
    moreover have "token_start l off \<le> length (line_text l)"
      using turn.prems(1) by (simp add: token_start_def skip_while_le)
    ultimately show ?thesis by (auto simp: count_run_def)
  qed
qed

interpretation android_costs: line_costs "\<lambda>l s w. (parse_android_line limits l s, w)" 0 for limits
  by unfold_locales (auto simp: work_within_refl)

lemma parse_fastboot_line_costs:
  assumes "parse_fastboot_line limits l s w = (r, w')"
  shows "work_within w 0 0 (2 * length (line_text l)) w'"
proof -
  obtain ts w1 where run: "tokenize_loop l limits 0 [] w = (ts, w1)" by fastforce
  with assms have "w' = w1"
    by (auto simp: parse_fastboot_line_def tokenize_fastboot_line_def split: outcome_splits)
  with tokenize_costs [OF _ run] show ?thesis by (auto simp: work_within_def)
qed

interpretation fastboot_costs: line_costs "parse_fastboot_line limits" 2 for limits
  by unfold_locales (rule parse_fastboot_line_costs)

section \<open>Properties\<close>

text \<open>
  C5. Whatever the two files and the limits are, an accepted manifest is safe to execute: every flash task of the
  plan names an artifact by a relative path without empty, dot or parent segments, without a backslash or a drive
  prefix; no two flash tasks have the same slot and partition; other tasks carry no artifact, slot or vbmeta flag;
  tasks conditional on a wipe are in the plan only when a wipe is wanted; the version is at most the frozen one;
  and the numbers of requirements, alternatives and tasks and the length of an artifact path stay within the limits.
\<close>

theorem accepted_manifest_safe:
  assumes "parse_update_manifest android_info fastboot_info limits = Inr m" and "plan = make_update_plan m wants_wipe"
  shows "(\<forall>t \<in> set (manifest_tasks plan).
            (task_kind t = Flash \<longrightarrow>
               safe_relative_path (task_artifact t) \<and> length (task_artifact t) \<le> maximum_field_bytes limits) \<and>
            (task_kind t \<noteq> Flash \<longrightarrow>
               task_artifact t = [] \<and> task_slot t = Slot_default \<and> \<not> task_apply_vbmeta t) \<and>
            (conditional_on_wipe t \<longrightarrow> wants_wipe)) \<and>
         distinct (map (\<lambda>t. (task_slot t, task_partition t))
           (filter (\<lambda>t. task_kind t = Flash) (manifest_tasks plan))) \<and>
         fastboot_info_version plan \<in> {None, Some 0, Some 1} \<and>
         length (manifest_tasks plan) \<le> maximum_tasks limits \<and>
         length (manifest_requirements plan) \<le> maximum_requirements limits \<and>
         (\<Sum>r\<leftarrow>manifest_requirements plan. length (req_options r)) \<le> maximum_total_options limits \<and>
         (\<forall>r \<in> set (manifest_requirements plan).
            req_options r \<noteq> [] \<and> length (req_options r) \<le> maximum_options_per_requirement limits)"
    (is "?tasks \<and> ?targets \<and> ?version \<and> ?length \<and> ?requirements")
proof -
  from assms(1) obtain s where inv: "parser_inv limits s" and m: "m = ps_manifest s"
    by (rule parse_update_manifest_inv)
  have ?tasks ?version
    using inv m by (auto simp: assms(2) make_update_plan_def parser_inv_def task_ok_def
        kFrozenFastbootInfoVersion_def le_Suc_eq)
  moreover have ?requirements
    using inv m by (auto simp: assms(2) make_update_plan_def parser_inv_def requirements_ok_def option_count_def)
  moreover have ?length
    using inv m by (auto simp: assms(2) make_update_plan_def parser_inv_def intro: le_trans [OF length_filter_le])
  moreover have ?targets
  proof -
    have "distinct (map key_of (map flash_target (flash_tasks (manifest_tasks m))))"
      using inv m by (auto simp: parser_inv_def)
    then have "distinct (map flash_target (flash_tasks (manifest_tasks m)))" by (simp only: distinct_map)
    then have "distinct (map flash_target (filter (\<lambda>t. \<not> conditional_on_wipe t \<or> wants_wipe)
        (flash_tasks (manifest_tasks m))))" by (rule distinct_map_filter)
    then show ?thesis
      by (simp add: assms(2) make_update_plan_def flash_tasks_def flash_target_def [abs_def] conj_commute)
  qed
  ultimately show ?thesis by blast
qed

definition small_limits :: update_plan_limits where
  "small_limits =
     \<lparr>maximum_file_bytes = 48, maximum_lines = 4, maximum_line_bytes = 32, maximum_field_bytes = 16,
      maximum_tokens_per_line = 4, maximum_requirements = 2, maximum_options_per_requirement = 2,
      maximum_total_options = 3, maximum_tasks = 3\<rparr>"

lemma example_manifest:
  "\<exists>m. parse_update_manifest ''require board=a|b'' ''flash boot'' small_limits = Inr m \<and>
       map task_artifact (manifest_tasks m) = [''boot.img''] \<and> map req_variable (manifest_requirements m) = [''product'']"
proof -
  have "(case parse_update_manifest ''require board=a|b'' ''flash boot'' small_limits of Inl _ \<Rightarrow> False
     | Inr m \<Rightarrow> map task_artifact (manifest_tasks m) = [''boot.img''] \<and>
         map req_variable (manifest_requirements m) = [''product''])"
    by code_simp
  then show ?thesis by (auto split: sum.splits)
qed

theorem accepted_manifest_safe_witness:
  "\<exists>m. parse_update_manifest ''require board=a|b'' ''flash boot'' small_limits = Inr m \<and>
       map task_artifact (manifest_tasks m) = [''boot.img''] \<and>
       distinct (map (\<lambda>t. (task_slot t, task_partition t))
         (filter (\<lambda>t. task_kind t = Flash) (manifest_tasks (make_update_plan m False)))) \<and>
       fastboot_info_version (make_update_plan m False) \<in> {None, Some 0, Some 1}"
proof -
  from example_manifest obtain m where
    m: "parse_update_manifest ''require board=a|b'' ''flash boot'' small_limits = Inr m"
      "map task_artifact (manifest_tasks m) = [''boot.img'']" by auto
  note safe = accepted_manifest_safe [OF m(1) refl, of False, THEN conjunct2]
  show ?thesis
    by (intro exI [of _ m] conjI m safe [THEN conjunct1] safe [THEN conjunct2, THEN conjunct1])
qed

text \<open>
  C35. Every error of the manifest parser has a consistent location: it is the position, in the file it names, of a byte
  offset within that file or at its end (line and column counted from the line feeds before that offset).
\<close>

theorem parse_error_location_exact:
  assumes "parse_update_manifest android_info fastboot_info limits = Inl e"
  shows "upe_location e = location_at_offset Android_info android_info (loc_byte_offset (upe_location e)) \<and>
           loc_byte_offset (upe_location e) \<le> length android_info \<or>
         upe_location e = location_at_offset Fastboot_info fastboot_info (loc_byte_offset (upe_location e)) \<and>
           loc_byte_offset (upe_location e) \<le> length fastboot_info"
proof -
  from assms have "exact_location Android_info android_info (upe_location e) \<or>
      exact_location Fastboot_info fastboot_info (upe_location e)"
    by (auto simp: parse_update_manifest_def parse_update_manifest_impl_def split: outcome_splits
        dest: android_located.for_each_line_located fastboot_located.for_each_line_located)
  then show ?thesis by (auto simp: exact_location_def)
qed

theorem parse_error_location_exact_witness:
  "\<exists>e. parse_update_manifest [] ''erase a\<newline>flash ../b'' small_limits = Inl e \<and>
       (upe_location e = location_at_offset Android_info [] (loc_byte_offset (upe_location e)) \<and>
          loc_byte_offset (upe_location e) \<le> length ([] :: string) \<or>
        upe_location e = location_at_offset Fastboot_info ''erase a\<newline>flash ../b'' (loc_byte_offset (upe_location e)) \<and>
          loc_byte_offset (upe_location e) \<le> length ''erase a\<newline>flash ../b'')"
proof -
  have "(case parse_update_manifest [] ''erase a\<newline>flash ../b'' small_limits of Inl _ \<Rightarrow> True | Inr m \<Rightarrow> False)"
    by code_simp
  then obtain e where e: "parse_update_manifest [] ''erase a\<newline>flash ../b'' small_limits = Inl e"
    by (auto split: sum.splits)
  show ?thesis
    by (intro exI conjI, rule e, rule parse_error_location_exact [OF e])
qed

text \<open>
  C36. The scanning work is linear, also on input that is rejected: each byte is searched at most once for a NUL and once
  for a line feed, and a byte of fastboot-info is tested by the tokenizer at most twice. The instrumented entry point
  returns the same result as the plain one.
\<close>

theorem parse_work_linear:
  "case parse_update_manifest_with_work android_info fastboot_info limits of
     (result, w) \<Rightarrow>
       result = parse_update_manifest android_info fastboot_info limits \<and>
       nul_characters w \<le> length android_info + length fastboot_info \<and>
       line_characters w \<le> length android_info + length fastboot_info \<and>
       token_characters w \<le> 2 * length fastboot_info"
proof -
  let ?a = "length android_info" and ?f = "length fastboot_info"
  obtain r w where run: "parse_update_manifest_impl android_info fastboot_info limits no_work = (r, w)" by fastforce
  obtain r1 w1 where first: "for_each_line Android_info android_info limits
      (\<lambda>l s w. (parse_android_line limits l s, w)) initial_parser_state no_work = (r1, w1)" by fastforce
  have a: "work_within no_work ?a ?a (0 * ?a) w1" by (rule android_costs.for_each_line_costs [OF first])
  have "work_within no_work (?a + ?f) (?a + ?f) (2 * ?f) w"
  proof (cases r1)
    case (Inl e)
    with run first have "w = w1" by (simp add: parse_update_manifest_impl_def)
    with work_within_mono [OF a] show ?thesis by simp
  next
    case (Inr s1)
    obtain r2 w2 where second: "for_each_line Fastboot_info fastboot_info limits (parse_fastboot_line limits) s1 w1 = (r2, w2)"
      by fastforce
    with run first Inr have "w = w2" by (auto simp: parse_update_manifest_impl_def split: sum.splits)
    with work_within_trans [OF a fastboot_costs.for_each_line_costs [OF second]] show ?thesis by simp
  qed
  then have "nul_characters w \<le> ?a + ?f \<and> line_characters w \<le> ?a + ?f \<and> token_characters w \<le> 2 * ?f"
    by (simp add: work_within_def no_work_def)
  then show ?thesis
    by (simp add: parse_update_manifest_with_work_def parse_update_manifest_def run)
qed

end
