(* ===== verification/Flash_Plan.thy ===== *)
theory Flash_Plan
  imports Sparse_Cancel
begin

text \<open>
  The planner of \<^verbatim>\<open>src/image/sparse_flash_plan.{hpp,cpp}\<close>: an artifact that exceeds the download limit of a device is
  cut into parts, each a sparse image of its own, with the chunk boundaries that AOSP fastboot produces.

  Block numbers and counts are \<^verbatim>\<open>std::uint32_t\<close> fields modelled by naturals; every narrowing cast of the source is
  \<open>cast32\<close>. The \<^verbatim>\<open>checked_add\<close>, \<^verbatim>\<open>checked_multiply\<close> and \<^verbatim>\<open>read_u32\<close> of the file are the same functions as in the
  sparse reader. Both loops over fragments keep a \<^verbatim>\<open>pending\<close> fragment beside an index into the input; together these are
  the queue of fragments still to be placed, pending one first. Failing allocations are not modelled.
\<close>

section \<open>Data\<close>

definition kDefaultResparseLimitBytes :: nat where "kDefaultResparseLimitBytes = 1024 * 1024 * 1024"
definition kSparseHeaderBytes :: nat where "kSparseHeaderBytes = 28"
definition kChunkHeaderBytes :: nat where "kChunkHeaderBytes = 12"
definition kFillPayloadBytes :: nat where "kFillPayloadBytes = 4"
definition kAospResparseReservedOverhead :: nat where "kAospResparseReservedOverhead = 56"
definition kRawResparseBlockSize :: nat where "kRawResparseBlockSize = 4096"
definition kMaxPlannerFragments :: nat where "kMaxPlannerFragments = kMaxSparseChunks"

definition cast32 :: "nat \<Rightarrow> nat" where "cast32 n = n mod (u32_max + 1)"
definition cast64 :: "nat \<Rightarrow> nat" where "cast64 n = n mod (u64_max + 1)"

datatype sparse_flash_plan_error_kind =
  Plan_invalid_argument | Plan_unsupported | Plan_source | Plan_arithmetic_overflow | Plan_cancelled

record sparse_flash_plan_error =
  fpe_kind :: sparse_flash_plan_error_kind
  fpe_output_offset :: nat
  fpe_message :: string

definition plan_error :: "sparse_flash_plan_error_kind \<Rightarrow> nat \<Rightarrow> string \<Rightarrow> sparse_flash_plan_error" where
  "plan_error kind output_offset message =
     \<lparr>fpe_kind = kind, fpe_output_offset = output_offset, fpe_message = message\<rparr>"

definition plan_cancelled :: "nat \<Rightarrow> string \<Rightarrow> sparse_flash_plan_error" where
  "plan_cancelled output_offset phase =
     plan_error Plan_cancelled output_offset (''sparse flash planning cancelled while '' @ phase)"

record fragment =
  fr_kind :: sparse_chunk_kind
  fr_start_block :: nat
  fr_block_count :: nat
  fr_source_offset :: nat
  fr_fill_value :: u32

definition fragment_end_block :: "fragment \<Rightarrow> nat" where
  "fragment_end_block f = fr_start_block f + fr_block_count f"

definition fragment_output_offset :: "fragment \<Rightarrow> nat \<Rightarrow> nat" where
  "fragment_output_offset f block_sz = fr_start_block f * block_sz"

definition fragment_data_bytes :: "fragment \<Rightarrow> nat \<Rightarrow> sparse_flash_plan_error + nat" where
  "fragment_data_bytes f block_sz =
     (case checked_multiply (fr_block_count f) block_sz of
        None \<Rightarrow> Inl (plan_error Plan_arithmetic_overflow (fragment_output_offset f block_sz)
                  ''sparse backed-block length overflows'')
      | Some bytes \<Rightarrow> Inr bytes)"

definition fragment_encoded_bytes :: "fragment \<Rightarrow> nat \<Rightarrow> sparse_flash_plan_error + nat" where
  "fragment_encoded_bytes f block_sz =
     (if fr_kind f = Chunk_fill then Inr (kChunkHeaderBytes + kFillPayloadBytes)
      else case fragment_data_bytes f block_sz of
        Inl e \<Rightarrow> Inl e
      | Inr data_bytes \<Rightarrow>
          (case checked_add kChunkHeaderBytes data_bytes of
             None \<Rightarrow> Inl (plan_error Plan_arithmetic_overflow (fragment_output_offset f block_sz)
                       ''sparse RAW encoded length overflows'')
           | Some encoded \<Rightarrow> Inr encoded))"

section \<open>Collecting fragments\<close>

text \<open>Whether the last fragment continues into the next one.\<close>

definition fragment_continues ::
    "fragment \<Rightarrow> fragment \<Rightarrow> nat \<Rightarrow> sparse_flash_plan_error + bool" where
  "fragment_continues previous f block_sz =
     (if fragment_end_block previous = fr_start_block f \<and> fr_kind previous = fr_kind f then
        if fr_kind f = Chunk_fill then Inr (fr_fill_value previous = fr_fill_value f)
        else case fragment_data_bytes previous block_sz of
          Inl e \<Rightarrow> Inl e
        | Inr previous_bytes \<Rightarrow>
            (case checked_add (fr_source_offset previous) previous_bytes of
               None \<Rightarrow> Inl (plan_error Plan_arithmetic_overflow (fragment_output_offset previous block_sz)
                         ''sparse source interval overflows'')
             | Some expected_source_offset \<Rightarrow> Inr (expected_source_offset = fr_source_offset f))
      else Inr False)"

definition append_merged_fragment ::
    "fragment list \<Rightarrow> fragment \<Rightarrow> nat \<Rightarrow> sparse_flash_plan_error + fragment list" where
  "append_merged_fragment fragments f block_sz =
     (if fr_block_count f = 0 then
        Inl (plan_error Plan_invalid_argument (fragment_output_offset f block_sz)
          ''zero-length sparse backed block is invalid'')
      else
        case (if fragments \<noteq> [] then fragment_continues (last fragments) f block_sz else Inr False) of
          Inl e \<Rightarrow> Inl e
        | Inr merge \<Rightarrow>
            if merge then
              let previous = last fragments;
                  merged_blocks = fr_block_count previous + fr_block_count f in
              if merged_blocks > u32_max then
                Inl (plan_error Plan_arithmetic_overflow (fragment_output_offset previous block_sz)
                  ''merged sparse block count exceeds 32 bits'')
              else Inr (butlast fragments @ [previous\<lparr>fr_block_count := merged_blocks\<rparr>])
            else if length fragments \<ge> kMaxPlannerFragments then
              Inl (plan_error Plan_unsupported (fragment_output_offset f block_sz)
                ''sparse planning metadata exceeds its bounded fragment limit'')
            else Inr (fragments @ [f]))"

definition kScanningPhase :: string where "kScanningPhase = ''scanning raw backed blocks''"

function read_source_loop ::
    "image_source \<Rightarrow> nat \<Rightarrow> stop_token \<Rightarrow> nat \<Rightarrow> byte list \<Rightarrow>
     (sparse_flash_plan_error, byte list) polled" where
  "read_source_loop source source_offset stop completed destination =
     (if completed < length destination then
        (case checked_add source_offset completed of
           None \<Rightarrow> pfail (plan_error Plan_arithmetic_overflow source_offset ''raw image read offset overflows'')
         | Some current_offset \<Rightarrow>
             pbind (poll stop (plan_cancelled current_offset kScanningPhase)) (\<lambda>_.
             (case is_read_at source current_offset (length destination - completed) of
                Inl message \<Rightarrow>
                  pfail (plan_error Plan_source current_offset (''unable to scan raw image: '' @ message))
              | Inr (count, data) \<Rightarrow>
                  if count = 0 \<or> count > length destination - completed then
                    pfail (plan_error Plan_source current_offset
                      ''raw image source returned an invalid short read'')
                  else
                    pbind (poll stop (plan_cancelled (source_offset + (completed + count)) kScanningPhase)) (\<lambda>_.
                      read_source_loop source source_offset stop (completed + count)
                        (write_span destination completed data)))))
      else preturn destination)"
  by pat_completeness auto
termination
  by (relation "measure (\<lambda>(source, source_offset, stop, completed, destination).
        length destination - completed)") auto

declare read_source_loop.simps [simp del]

definition read_source_exact ::
    "image_source \<Rightarrow> nat \<Rightarrow> byte list \<Rightarrow> stop_token \<Rightarrow> (sparse_flash_plan_error, byte list) polled" where
  "read_source_exact source source_offset destination stop =
     read_source_loop source source_offset stop 0 destination"

definition block_is_fill :: "byte list \<Rightarrow> bool \<times> u32" where
  "block_is_fill block =
     (let fill_value = read_u32 block 0 in
      (list_all (\<lambda>i. read_u32 block (4 * i) = fill_value) [1..<length block div 4], fill_value))"

text \<open>The scan of a raw image; the block buffer is reused from one block to the next.\<close>

function raw_fragments_loop ::
    "image_source \<Rightarrow> stop_token \<Rightarrow> nat \<Rightarrow> nat \<Rightarrow> byte list \<Rightarrow> fragment list \<Rightarrow>
     (sparse_flash_plan_error, fragment list) polled" where
  "raw_fragments_loop source stop total_blocks index block result =
     (if index < total_blocks then
        let source_offset = index * kRawResparseBlockSize in
        pbind (poll stop (plan_cancelled source_offset kScanningPhase)) (\<lambda>_.
        pbind (read_source_exact source source_offset block stop) (\<lambda>block.
        let (is_fill, fill_value) = block_is_fill block;
            f = \<lparr>fr_kind = (if is_fill then Chunk_fill else Chunk_raw), fr_start_block = index,
                 fr_block_count = 1, fr_source_offset = source_offset, fr_fill_value = fill_value\<rparr> in
        pbind (plift (append_merged_fragment result f kRawResparseBlockSize)) (\<lambda>result.
          raw_fragments_loop source stop total_blocks (index + 1) block result)))
      else preturn result)"
  by pat_completeness auto
termination
  by (relation "measure (\<lambda>(source, stop, total_blocks, index, block, result). total_blocks - index)") auto

declare raw_fragments_loop.simps [simp del]

definition chunk_fragment :: "sparse_chunk \<Rightarrow> nat \<Rightarrow> fragment" where
  "chunk_fragment chunk block_sz =
     \<lparr>fr_kind = sc_kind chunk, fr_start_block = cast32 (sc_output_offset chunk div block_sz),
      fr_block_count = sc_block_count chunk, fr_source_offset = sc_input_offset chunk,
      fr_fill_value = (case sc_fill_value chunk of None \<Rightarrow> 0 | Some v \<Rightarrow> v)\<rparr>"

primrec sparse_fragments_loop ::
    "stop_token \<Rightarrow> nat \<Rightarrow> sparse_chunk list \<Rightarrow> fragment list \<Rightarrow>
     (sparse_flash_plan_error, fragment list) polled" where
  "sparse_fragments_loop stop block_sz [] result = preturn result"
| "sparse_fragments_loop stop block_sz (chunk # chunks) result =
     pbind (poll stop (plan_cancelled (sc_output_offset chunk) ''importing sparse backed blocks'')) (\<lambda>_.
     if sc_kind chunk \<noteq> Chunk_raw \<and> sc_kind chunk \<noteq> Chunk_fill then
       sparse_fragments_loop stop block_sz chunks result
     else if sc_output_offset chunk mod block_sz \<noteq> 0 then
       pfail (plan_error Plan_invalid_argument (sc_output_offset chunk)
         ''sparse backed block is not block aligned'')
     else if sc_kind chunk = Chunk_fill \<and> sc_fill_value chunk = None then
       pfail (plan_error Plan_invalid_argument (sc_output_offset chunk)
         ''sparse FILL chunk is missing its fill value'')
     else
       pbind (plift (append_merged_fragment result (chunk_fragment chunk block_sz) block_sz)) (\<lambda>result.
         sparse_fragments_loop stop block_sz chunks result))"

text \<open>The fragments, the block size and the number of blocks.\<close>

definition artifact_fragments ::
    "flash_artifact \<Rightarrow> stop_token \<Rightarrow> (sparse_flash_plan_error, fragment list \<times> nat \<times> nat) polled" where
  "artifact_fragments artifact stop =
     (if fa_kind artifact = Artifact_raw then
        if fa_expanded_size artifact mod kRawResparseBlockSize \<noteq> 0 then
          pfail (plan_error Plan_unsupported (fa_expanded_size artifact)
            ''AOSP Fastboot 37.0.1 rejects oversized raw images that are not 4096-byte aligned'')
        else
          let blocks = fa_expanded_size artifact div kRawResparseBlockSize in
          if blocks > u32_max then
            pfail (plan_error Plan_unsupported (fa_expanded_size artifact)
              ''raw image is too large for Android sparse block counts'')
          else
            pbind (raw_fragments_loop (fa_source artifact) stop blocks 0
                     (replicate kRawResparseBlockSize 0) []) (\<lambda>result.
              preturn (result, kRawResparseBlockSize, blocks))
      else case fa_sparse_image artifact of
        None \<Rightarrow> pfail (plan_error Plan_invalid_argument 0
                  ''validated sparse artifact is missing its parsed image'')
      | Some sparse \<Rightarrow>
          let block_sz = sh_block_size (si_header sparse) in
          pbind (sparse_fragments_loop stop block_sz (si_chunks sparse) []) (\<lambda>result.
            preturn (result, block_sz, sh_total_blocks (si_header sparse))))"

section \<open>The source of a part\<close>

datatype source_piece_kind = Piece_literal | Piece_source | Piece_zero

record source_piece =
  pc_logical_offset :: nat
  pc_backing_offset :: nat
  pc_size :: nat
  pc_kind :: source_piece_kind

record sparse_part_source =
  sps_input :: image_source
  sps_pieces :: "source_piece list"
  sps_literals :: "byte list"
  sps_size :: nat

text \<open>What a piece stores for a read of \<open>amount\<close> octets from \<open>within\<close> on; only a source piece may store less.\<close>

definition piece_read ::
    "sparse_part_source \<Rightarrow> source_piece \<Rightarrow> nat \<Rightarrow> nat \<Rightarrow> string + (nat \<times> byte list)" where
  "piece_read p piece within amount =
     (case pc_kind piece of
        Piece_literal \<Rightarrow> Inr (amount, take amount (drop (pc_backing_offset piece + within) (sps_literals p)))
      | Piece_zero \<Rightarrow> Inr (amount, replicate amount 0)
      | Piece_source \<Rightarrow>
          (case is_read_at (sps_input p) (pc_backing_offset piece + within) amount of
             Inl message \<Rightarrow> Inl message
           | Inr (count, data) \<Rightarrow>
               if count = 0 \<or> count > amount then
                 Inl ''sparse flash part backing source returned an invalid short read''
               else Inr (count, data)))"

text \<open>
  The loop of \<^verbatim>\<open>read_at\<close> from piece \<open>i\<close> on. It fills \<open>destination\<close> and returns the count; the octets behind the count
  are not the caller's. A piece that stored less than asked for ends the read.
\<close>

function part_read_loop ::
    "sparse_part_source \<Rightarrow> nat \<Rightarrow> nat \<Rightarrow> nat \<Rightarrow> nat \<Rightarrow> byte list \<Rightarrow> string + (nat \<times> byte list)" where
  "part_read_loop p offset requested i completed destination =
     (if completed < requested then
        if i \<ge> length (sps_pieces p) then
          Inl ''sparse flash part metadata ended before the read''
        else
          let piece = sps_pieces p ! i;
              position = offset + completed in
          if position < pc_logical_offset piece \<or> position - pc_logical_offset piece \<ge> pc_size piece then
            part_read_loop p offset requested (i + 1) completed destination
          else
            let within = position - pc_logical_offset piece;
                amount = min (pc_size piece - within) (requested - completed) in
            (case piece_read p piece within amount of
               Inl message \<Rightarrow> Inl message
             | Inr (count, data) \<Rightarrow>
                 if count < amount then Inr (completed + count, write_span destination completed data)
                 else
                   part_read_loop p offset requested
                     (if within + amount = pc_size piece then i + 1 else i) (completed + amount)
                     (write_span destination completed data))
      else Inr (completed, destination))"
  by pat_completeness auto
termination
  by (relation "measure (\<lambda>(p, offset, requested, i, completed, destination).
        (length (sps_pieces p) - i) + (requested - completed))") auto

declare part_read_loop.simps [simp del]

definition part_read_at :: "sparse_part_source \<Rightarrow> nat \<Rightarrow> nat \<Rightarrow> string + (nat \<times> byte list)" where
  "part_read_at p offset n =
     (if offset > sps_size p then Inl ''sparse flash part read starts beyond its end''
      else
        let requested = min n (sps_size p - offset) in
        if requested = 0 then Inr (0, [])
        else
          let i = lower_bound (\<lambda>i. \<not> offset < pc_logical_offset (sps_pieces p ! i)) 0 (length (sps_pieces p)) in
          if i = 0 then Inl ''sparse flash part metadata has an uncovered read''
          else
            case part_read_loop p offset requested (i - 1) 0 (replicate n 0) of
              Inl message \<Rightarrow> Inl message
            | Inr (count, destination) \<Rightarrow> Inr (count, take count destination))"

definition part_image_source :: "sparse_part_source \<Rightarrow> image_source" where
  "part_image_source p = \<lparr>is_size = sps_size p, is_read_at = part_read_at p\<rparr>"

section \<open>Building a part\<close>

definition append_piece ::
    "source_piece_kind \<Rightarrow> nat \<Rightarrow> nat \<Rightarrow> sparse_part_source \<Rightarrow>
     sparse_flash_plan_error + sparse_part_source" where
  "append_piece kind backing_offset bytes p =
     (if bytes = 0 then Inr p
      else case checked_add (sps_size p) bytes of
        None \<Rightarrow> Inl (plan_error Plan_arithmetic_overflow (sps_size p) ''sparse part size overflows'')
      | Some new_size \<Rightarrow>
          let previous = last (sps_pieces p);
              backing_is_contiguous =
                (kind = Piece_zero \<or>
                 checked_add (pc_backing_offset previous) (pc_size previous) = Some backing_offset) in
          if sps_pieces p \<noteq> [] \<and> pc_kind previous = kind \<and> backing_is_contiguous \<and>
             pc_logical_offset previous + pc_size previous = sps_size p then
            Inr (p\<lparr>sps_pieces := butlast (sps_pieces p) @ [previous\<lparr>pc_size := pc_size previous + bytes\<rparr>],
                   sps_size := new_size\<rparr>)
          else
            Inr (p\<lparr>sps_pieces := sps_pieces p @
                     [\<lparr>pc_logical_offset = sps_size p, pc_backing_offset = backing_offset, pc_size = bytes,
                       pc_kind = kind\<rparr>],
                   sps_size := new_size\<rparr>))"

definition append_literal ::
    "byte list \<Rightarrow> sparse_part_source \<Rightarrow> sparse_flash_plan_error + sparse_part_source" where
  "append_literal bytes p =
     (case checked_add (sps_size p) (length bytes) of
        None \<Rightarrow> Inl (plan_error Plan_arithmetic_overflow (sps_size p) ''sparse literal interval overflows'')
      | Some _ \<Rightarrow>
          append_piece Piece_literal (length (sps_literals p)) (length bytes)
            (p\<lparr>sps_literals := sps_literals p @ bytes\<rparr>))"

definition append_source ::
    "nat \<Rightarrow> nat \<Rightarrow> sparse_part_source \<Rightarrow> sparse_flash_plan_error + sparse_part_source" where
  "append_source source_offset bytes p =
     (if source_offset > is_size (sps_input p) \<or> bytes > is_size (sps_input p) - source_offset then
        Inl (plan_error Plan_source source_offset ''sparse RAW backing interval exceeds its source'')
      else append_piece Piece_source source_offset bytes p)"

definition append_zero :: "nat \<Rightarrow> sparse_part_source \<Rightarrow> sparse_flash_plan_error + sparse_part_source" where
  "append_zero bytes p = append_piece Piece_zero 0 bytes p"

definition write_u16 :: "byte list \<Rightarrow> nat \<Rightarrow> u16 \<Rightarrow> byte list" where
  "write_u16 output offset v = output[offset := ucast v, offset + 1 := ucast (drop_bit 8 v)]"

definition write_u32 :: "byte list \<Rightarrow> nat \<Rightarrow> u32 \<Rightarrow> byte list" where
  "write_u32 output offset v =
     output[offset := ucast v, offset + 1 := ucast (drop_bit 8 v), offset + 2 := ucast (drop_bit 16 v),
            offset + 3 := ucast (drop_bit 24 v)]"

definition chunk_header :: "u16 \<Rightarrow> nat \<Rightarrow> nat \<Rightarrow> byte list" where
  "chunk_header type block_count payload_bytes =
     (let bytes = replicate kChunkHeaderBytes 0;
          bytes = write_u16 bytes 0 type;
          bytes = write_u16 bytes 2 0;
          bytes = write_u32 bytes 4 (of_nat block_count)
      in write_u32 bytes 8 (of_nat kChunkHeaderBytes + of_nat payload_bytes))"

definition append_chunk_header ::
    "u16 \<Rightarrow> nat \<Rightarrow> nat \<Rightarrow> sparse_part_source \<Rightarrow> sparse_flash_plan_error + sparse_part_source" where
  "append_chunk_header type block_count payload_bytes p =
     (if payload_bytes > u32_max - kChunkHeaderBytes then
        Inl (plan_error Plan_arithmetic_overflow (sps_size p) ''sparse chunk total size exceeds 32 bits'')
      else append_literal (chunk_header type block_count payload_bytes) p)"

text \<open>The number of chunks: one per fragment and one per gap.\<close>

definition count_chunks :: "fragment list \<Rightarrow> nat \<Rightarrow> nat" where
  "count_chunks fragments total_blocks =
     (case foldl (\<lambda>(chunk_count, cursor) f.
              (chunk_count + (if fr_start_block f > cursor then 1 else 0) + 1, fragment_end_block f))
            (0, 0) fragments of
        (chunk_count, cursor) \<Rightarrow> chunk_count + (if cursor < total_blocks then 1 else 0))"

text \<open>The size of the literal storage that is reserved, if it can be computed.\<close>

definition literal_headers_reserve :: "nat \<Rightarrow> nat option" where
  "literal_headers_reserve n =
     Option.bind (checked_multiply n 2) (\<lambda>a.
     Option.bind (checked_add a 1) (\<lambda>b.
     Option.bind (checked_multiply b kChunkHeaderBytes) (\<lambda>c. checked_add kSparseHeaderBytes c)))"

definition literal_reserve :: "nat \<Rightarrow> nat \<Rightarrow> nat option" where
  "literal_reserve headers n =
     Option.bind (checked_multiply n kFillPayloadBytes) (\<lambda>maximum_fill_bytes.
       checked_add headers maximum_fill_bytes)"

definition sparse_file_header :: "nat \<Rightarrow> nat \<Rightarrow> nat \<Rightarrow> byte list" where
  "sparse_file_header block_sz total_blocks chunk_count =
     (let header = replicate kSparseHeaderBytes 0;
          header = write_u32 header 0 kAndroidSparseMagic;
          header = write_u16 header 4 kAndroidSparseMajorVersion;
          header = write_u16 header 6 0;
          header = write_u16 header 8 (of_nat kSparseHeaderBytes);
          header = write_u16 header 10 (of_nat kChunkHeaderBytes);
          header = write_u32 header 12 (of_nat block_sz);
          header = write_u32 header 16 (of_nat total_blocks);
          header = write_u32 header 20 (of_nat chunk_count)
      in write_u32 header 24 0)"

text \<open>The chunk of one fragment, and with the gap before it.\<close>

definition append_data_chunk ::
    "nat \<Rightarrow> fragment \<Rightarrow> nat \<Rightarrow> sparse_part_source \<Rightarrow> sparse_flash_plan_error + sparse_part_source" where
  "append_data_chunk block_sz f data_bytes p =
     (if fr_kind f = Chunk_raw then
        if data_bytes > u32_max then
          Inl (plan_error Plan_arithmetic_overflow (fragment_output_offset f block_sz)
            ''sparse RAW payload exceeds 32 bits'')
        else
          (case append_chunk_header kSparseChunkRaw (fr_block_count f) (cast32 data_bytes) p of
             Inl e \<Rightarrow> Inl e
           | Inr p \<Rightarrow>
          (case append_source (fr_source_offset f) data_bytes p of
             Inl e \<Rightarrow> Inl e
           | Inr p \<Rightarrow>
               let rounded_bytes = cast64 (fr_block_count f * block_sz) in
               if rounded_bytes > data_bytes then append_zero (rounded_bytes - data_bytes) p
               else Inr p))
      else
        (case append_chunk_header kSparseChunkFill (fr_block_count f) 4 p of
           Inl e \<Rightarrow> Inl e
         | Inr p \<Rightarrow> append_literal (write_u32 (replicate 4 0) 0 (fr_fill_value f)) p))"

definition append_fragment ::
    "nat \<Rightarrow> nat \<Rightarrow> fragment \<Rightarrow> sparse_part_source \<Rightarrow> sparse_flash_plan_error + sparse_part_source" where
  "append_fragment block_sz cursor f p =
     (case (if fr_start_block f > cursor
            then append_chunk_header kSparseChunkDontCare (cast32 (fr_start_block f - cursor)) 0 p
            else Inr p) of
        Inl e \<Rightarrow> Inl e
      | Inr p \<Rightarrow>
          (case fragment_data_bytes f block_sz of
             Inl e \<Rightarrow> Inl e
           | Inr data_bytes \<Rightarrow> append_data_chunk block_sz f data_bytes p))"

primrec build_fragments ::
    "stop_token \<Rightarrow> nat \<Rightarrow> fragment list \<Rightarrow> nat \<Rightarrow> sparse_part_source \<Rightarrow>
     (sparse_flash_plan_error, nat \<times> sparse_part_source) polled" where
  "build_fragments stop block_sz [] cursor p = preturn (cursor, p)"
| "build_fragments stop block_sz (f # fs) cursor p =
     pbind (poll stop (plan_cancelled (fragment_output_offset f block_sz)
              ''building sparse part metadata'')) (\<lambda>_.
     pbind (plift (append_fragment block_sz cursor f p)) (\<lambda>p.
       build_fragments stop block_sz fs (fragment_end_block f) p))"

definition build_sparse_part ::
    "nat \<Rightarrow> nat \<Rightarrow> fragment list \<Rightarrow> stop_token \<Rightarrow> sparse_part_source \<Rightarrow>
     (sparse_flash_plan_error, sparse_part_source) polled" where
  "build_sparse_part block_sz total_blocks fragments stop p =
     pbind (poll stop (plan_cancelled 0 ''building sparse part metadata'')) (\<lambda>_.
     if length fragments > (u64_max - 3) div 2 then
       pfail (plan_error Plan_arithmetic_overflow 0 ''sparse part descriptor count overflows'')
     else
       let chunk_count = count_chunks fragments total_blocks in
       if chunk_count > u32_max then
         pfail (plan_error Plan_arithmetic_overflow 0 ''sparse output chunk count exceeds 32 bits'')
       else
       (case literal_headers_reserve (length fragments) of
          None \<Rightarrow> pfail (plan_error Plan_arithmetic_overflow 0 ''sparse literal metadata size overflows'')
        | Some headers \<Rightarrow>
       (case literal_reserve headers (length fragments) of
          None \<Rightarrow> pfail (plan_error Plan_arithmetic_overflow 0 ''sparse literal metadata is not addressable'')
        | Some _ \<Rightarrow>
            pbind (plift (append_literal (sparse_file_header block_sz total_blocks chunk_count) p)) (\<lambda>p.
            pbind (build_fragments stop block_sz fragments 0 p) (\<lambda>(cursor, p).
              if cursor < total_blocks then
                plift (append_chunk_header kSparseChunkDontCare (cast32 (total_blocks - cursor)) 0 p)
              else preturn p)))))"

definition create_part_source ::
    "image_source \<Rightarrow> nat \<Rightarrow> nat \<Rightarrow> fragment list \<Rightarrow> stop_token \<Rightarrow>
     (sparse_flash_plan_error, sparse_part_source) polled" where
  "create_part_source input block_sz total_blocks fragments stop =
     build_sparse_part block_sz total_blocks fragments stop
       \<lparr>sps_input = input, sps_pieces = [], sps_literals = [], sps_size = 0\<rparr>"

end
