(* ===== verification/Flash_Resparse.thy ===== *)
theory Flash_Resparse
  imports Flash_Plan
begin

text \<open>
  The second half of \<^verbatim>\<open>src/image/sparse_flash_plan.cpp\<close>: the counting pass that cuts fragments, the pass that builds the
  parts, and \<^verbatim>\<open>SparseFlashPlan::create\<close>.
\<close>

section \<open>Placing a fragment\<close>

definition counter_bytes_for_fragment :: "fragment \<Rightarrow> nat \<Rightarrow> nat \<Rightarrow> sparse_flash_plan_error + nat" where
  "counter_bytes_for_fragment f last_block block_sz =
     (case fragment_encoded_bytes f block_sz of
        Inl e \<Rightarrow> Inl e
      | Inr count \<Rightarrow>
          if fr_start_block f > last_block then
            (case checked_add count kChunkHeaderBytes of
               None \<Rightarrow> Inl (plan_error Plan_arithmetic_overflow (fragment_output_offset f block_sz)
                         ''sparse gap metadata size overflows'')
             | Some count \<Rightarrow> Inr count)
          else Inr count)"

text \<open>The prefix and the remainder.\<close>

definition take_prefix :: "fragment \<Rightarrow> nat \<Rightarrow> nat \<Rightarrow> sparse_flash_plan_error + fragment \<times> fragment" where
  "take_prefix remainder available_bytes block_sz =
     (let available_blocks = available_bytes div block_sz;
          prefix_blocks = cast32 (min available_blocks (fr_block_count remainder)) in
      if prefix_blocks = 0 then
        Inl (plan_error Plan_unsupported (fragment_output_offset remainder block_sz)
          ''device maximum download size cannot hold one AOSP sparse backed block'')
      else
        let prefix = remainder\<lparr>fr_block_count := prefix_blocks\<rparr> in
        if prefix_blocks = fr_block_count remainder then Inr (prefix, remainder\<lparr>fr_block_count := 0\<rparr>)
        else
          let prefix_bytes = prefix_blocks * block_sz;
              remainder = remainder\<lparr>fr_start_block := cast32 (fr_start_block remainder + prefix_blocks),
                fr_block_count := fr_block_count remainder - prefix_blocks\<rparr> in
          if fr_kind remainder = Chunk_raw then
            (case checked_add (fr_source_offset remainder) prefix_bytes of
               None \<Rightarrow> Inl (plan_error Plan_arithmetic_overflow (fragment_output_offset prefix block_sz)
                         ''split sparse RAW source offset overflows'')
             | Some offset \<Rightarrow> Inr (prefix, remainder\<lparr>fr_source_offset := offset\<rparr>))
          else Inr (prefix, remainder))"

text \<open>The size of the part so far with the fragment added.\<close>

definition candidate_size :: "nat \<Rightarrow> nat \<Rightarrow> fragment \<Rightarrow> nat \<Rightarrow> sparse_flash_plan_error + nat" where
  "candidate_size file_len last_block f block_sz =
     (case counter_bytes_for_fragment f last_block block_sz of
        Inl e \<Rightarrow> Inl e
      | Inr count \<Rightarrow>
          (case checked_add file_len count of
             None \<Rightarrow> Inl (plan_error Plan_arithmetic_overflow (fragment_output_offset f block_sz)
                       ''AOSP sparse counter size overflows'')
           | Some candidate \<Rightarrow> Inr candidate))"

text \<open>
  A fragment that does not fit, with \<open>rest\<close> behind it: the prefix that is still placed, if any, the queue that is left,
  and whether the prefix was the very last thing to place.
\<close>

definition split_fragment ::
    "nat \<Rightarrow> nat \<Rightarrow> nat \<Rightarrow> bool \<Rightarrow> fragment \<Rightarrow> fragment list \<Rightarrow>
     sparse_flash_plan_error + fragment option \<times> fragment list \<times> bool" where
  "split_fragment payload_budget block_sz file_len has_last f rest =
     (case checked_add file_len kChunkHeaderBytes of
        None \<Rightarrow> Inl (plan_error Plan_arithmetic_overflow (fragment_output_offset f block_sz)
                  ''AOSP sparse split accounting overflows'')
      | Some split_accounting \<Rightarrow>
          let remaining = (if split_accounting \<le> payload_budget then payload_budget - split_accounting else 0);
              should_split = (\<not> has_last \<or>
                split_accounting \<le> payload_budget \<and> remaining > payload_budget div 8) in
          if should_split then
            if split_accounting > payload_budget then
              Inl (plan_error Plan_unsupported (fragment_output_offset f block_sz)
                ''device maximum download size is too small for AOSP resparse overhead'')
            else
              (case take_prefix f remaining block_sz of
                 Inl e \<Rightarrow> Inl e
               | Inr (prefix, f) \<Rightarrow>
                   let consumed_whole = (fr_block_count f = 0) in
                   Inr (Some prefix, (if consumed_whole then rest else f # rest), consumed_whole \<and> rest = []))
          else Inr (None, f # rest, False))"

section \<open>The counting pass\<close>

record segmentation =
  seg_fragments :: "fragment list"
  seg_part_count :: nat

record segment_turn =
  st_queue :: "fragment list"
  st_has_last :: bool
  st_part_counted :: bool
  st_trailing_empty_part :: bool
  st_result :: segmentation

definition count_part ::
    "nat \<Rightarrow> segmentation \<Rightarrow> sparse_flash_plan_error + segmentation" where
  "count_part offset result =
     (if seg_part_count result \<ge> kMaxPlannerFragments then
        Inl (plan_error Plan_unsupported offset ''AOSP resparse part count exceeds its bounded limit'')
      else Inr (result\<lparr>seg_part_count := seg_part_count result + 1\<rparr>))"

definition push_segment ::
    "fragment \<Rightarrow> nat \<Rightarrow> segmentation \<Rightarrow> sparse_flash_plan_error + segmentation" where
  "push_segment f block_sz result =
     (if length (seg_fragments result) \<ge> kMaxPlannerFragments then
        Inl (plan_error Plan_unsupported (fragment_output_offset f block_sz)
          ''AOSP resparse segmentation exceeds its bounded metadata limit'')
      else Inr (result\<lparr>seg_fragments := seg_fragments result @ [f]\<rparr>))"

text \<open>The end of a part in the counting pass.\<close>

definition segment_break ::
    "nat \<Rightarrow> nat \<Rightarrow> nat \<Rightarrow> bool \<Rightarrow> fragment \<Rightarrow> fragment list \<Rightarrow> segmentation \<Rightarrow>
     sparse_flash_plan_error + segment_turn" where
  "segment_break payload_budget block_sz file_len has_last f rest result =
     (case split_fragment payload_budget block_sz file_len has_last f rest of
        Inl e \<Rightarrow> Inl e
      | Inr (prefix, queue, trailing_empty_part) \<Rightarrow>
      (case (case prefix of None \<Rightarrow> Inr result | Some prefix \<Rightarrow> push_segment prefix block_sz result) of
        Inl e \<Rightarrow> Inl e
      | Inr result \<Rightarrow>
          let has_last = (has_last \<or> prefix \<noteq> None) in
          if \<not> has_last then
            Inl (plan_error Plan_unsupported (fragment_output_offset f block_sz)
              ''AOSP resparse pass made no forward progress'')
          else
            (case count_part (fragment_output_offset f block_sz) result of
               Inl e \<Rightarrow> Inl e
             | Inr result \<Rightarrow>
                 Inr \<lparr>st_queue = queue, st_has_last = has_last, st_part_counted = True,
                      st_trailing_empty_part = trailing_empty_part, st_result = result\<rparr>)))"

text \<open>The inner loop: one part.\<close>

primrec segment_part ::
    "stop_token \<Rightarrow> nat \<Rightarrow> nat \<Rightarrow> fragment list \<Rightarrow> bool \<Rightarrow> nat \<Rightarrow> nat \<Rightarrow> segmentation \<Rightarrow>
     (sparse_flash_plan_error, segment_turn) polled" where
  "segment_part stop payload_budget block_sz [] has_last file_len last_block result =
     preturn \<lparr>st_queue = [], st_has_last = has_last, st_part_counted = False,
              st_trailing_empty_part = False, st_result = result\<rparr>"
| "segment_part stop payload_budget block_sz (f # rest) has_last file_len last_block result =
     pbind (poll stop (plan_cancelled (fragment_output_offset f block_sz)
              ''computing AOSP resparse boundaries'')) (\<lambda>_.
     pbind (plift (candidate_size file_len last_block f block_sz)) (\<lambda>candidate.
     if candidate \<le> payload_budget then
       pbind (plift (push_segment f block_sz result)) (\<lambda>result.
         segment_part stop payload_budget block_sz rest True candidate (fragment_end_block f) result)
     else plift (segment_break payload_budget block_sz file_len has_last f rest result)))"

text \<open>The blocks still to be placed, a bound on the number of parts.\<close>

definition queue_blocks :: "fragment list \<Rightarrow> nat" where
  "queue_blocks queue = sum_list (map (\<lambda>f. fr_block_count f + 1) queue)"

lemma queue_blocks_simps [simp]:
  "queue_blocks [] = 0" "queue_blocks (f # fs) = fr_block_count f + 1 + queue_blocks fs"
  by (simp_all add: queue_blocks_def)

lemma take_prefix_blocks:
  "take_prefix f available block_sz = Inr (prefix, f') \<Longrightarrow>
   fr_block_count f' < fr_block_count f \<or> fr_block_count f' = 0 \<and> fr_block_count f = 0"
  by (auto simp: take_prefix_def Let_def split: outcome_splits)

lemma split_fragment_blocks:
  "split_fragment payload_budget block_sz file_len has_last f rest = Inr (prefix, queue, trailing) \<Longrightarrow>
   queue_blocks queue < queue_blocks (f # rest) \<or> has_last \<and> queue = f # rest \<and> prefix = None"
  by (auto simp: split_fragment_def Let_def split: outcome_splits dest: take_prefix_blocks)

lemma segment_part_blocks:
  "segment_part stop payload_budget block_sz queue has_last file_len last_block result t = (Inr r, t') \<Longrightarrow>
   queue_blocks (st_queue r) < queue_blocks queue \<or> (has_last \<or> queue = []) \<and> st_queue r = queue"
proof (induction queue arbitrary: has_last file_len last_block result t)
  case (Cons f rest)
  then show ?case
    by (fastforce simp: segment_break_def Let_def count_part_def split: outcome_splits dest: split_fragment_blocks)
qed auto

definition finish_segmentation :: "segment_turn \<Rightarrow> sparse_flash_plan_error + segmentation" where
  "finish_segmentation r =
     (case (if st_has_last r \<and> \<not> st_part_counted r then count_part 0 (st_result r) else Inr (st_result r)) of
        Inl e \<Rightarrow> Inl e
      | Inr result \<Rightarrow> if st_trailing_empty_part r then count_part 0 result else Inr result)"

declare pbind_cong [fundef_cong del] pbind_cong_result [fundef_cong]

function segment_parts ::
    "stop_token \<Rightarrow> nat \<Rightarrow> nat \<Rightarrow> fragment list \<Rightarrow> segmentation \<Rightarrow>
     (sparse_flash_plan_error, segmentation) polled" where
  "segment_parts stop payload_budget block_sz queue result =
     (if queue \<noteq> [] then
        pbind (segment_part stop payload_budget block_sz queue False 0 0 result) (\<lambda>r.
          if st_queue r = [] then plift (finish_segmentation r)
          else segment_parts stop payload_budget block_sz (st_queue r) (st_result r))
      else preturn result)"
  by pat_completeness auto
termination
  by (relation "measure (\<lambda>(stop, payload_budget, block_sz, queue, result). queue_blocks queue)")
    (auto dest: segment_part_blocks)

declare segment_parts.simps [simp del]

definition segment_like_aosp_first_pass ::
    "fragment list \<Rightarrow> nat \<Rightarrow> nat \<Rightarrow> stop_token \<Rightarrow> (sparse_flash_plan_error, segmentation) polled" where
  "segment_like_aosp_first_pass input payload_budget block_sz stop =
     (if input = [] then preturn \<lparr>seg_fragments = [], seg_part_count = 1\<rparr>
      else segment_parts stop payload_budget block_sz input \<lparr>seg_fragments = [], seg_part_count = 0\<rparr>)"

section \<open>The parts\<close>

record sparse_flash_part =
  fp_source :: image_source
  fp_first_data_offset :: nat
  fp_data_end_offset :: nat

definition build_part ::
    "image_source \<Rightarrow> fragment list \<Rightarrow> nat \<Rightarrow> nat \<Rightarrow> stop_token \<Rightarrow>
     (sparse_flash_plan_error, sparse_flash_part) polled" where
  "build_part input fragments block_sz total_blocks stop =
     pbind (create_part_source input block_sz total_blocks fragments stop) (\<lambda>source.
       preturn
         \<lparr>fp_source = part_image_source source,
          fp_first_data_offset =
            (if fragments = [] then 0 else fragment_output_offset (hd fragments) block_sz),
          fp_data_end_offset =
            (if fragments = [] then 0 else cast64 (fragment_end_block (last fragments) * block_sz))\<rparr>)"

text \<open>The variables of the serializing pass; \<open>ser_input\<close> to \<open>ser_limit\<close> do not change.\<close>

record serialization =
  ser_input :: image_source
  ser_block_size :: nat
  ser_total_blocks :: nat
  ser_budget :: nat
  ser_limit :: nat
  ser_current :: "fragment list"
  ser_parts :: "sparse_flash_part list"
  ser_total :: nat

definition add_part :: "string \<Rightarrow> sparse_flash_part \<Rightarrow> nat \<Rightarrow> serialization \<Rightarrow> sparse_flash_plan_error + serialization" where
  "add_part too_large part offset s =
     (if is_size (fp_source part) > ser_limit s then Inl (plan_error Plan_unsupported offset too_large)
      else case checked_add (ser_total s) (is_size (fp_source part)) of
        None \<Rightarrow> Inl (plan_error Plan_arithmetic_overflow offset ''aggregate sparse transfer size overflows'')
      | Some new_total \<Rightarrow> Inr (s\<lparr>ser_total := new_total, ser_parts := ser_parts s @ [part]\<rparr>))"

definition flush :: "stop_token \<Rightarrow> serialization \<Rightarrow> (sparse_flash_plan_error, serialization) polled" where
  "flush stop s =
     (if ser_current s = [] then preturn s
      else
        pbind (build_part (ser_input s) (ser_current s) (ser_block_size s) (ser_total_blocks s) stop) (\<lambda>part.
        pbind (plift (add_part ''AOSP sparse part exceeds the effective download limit'' part
                 (fp_first_data_offset part) s)) (\<lambda>s.
          preturn (s\<lparr>ser_current := []\<rparr>))))"

definition add_empty_part :: "stop_token \<Rightarrow> serialization \<Rightarrow> (sparse_flash_plan_error, serialization) polled" where
  "add_empty_part stop s =
     pbind (build_part (ser_input s) [] (ser_block_size s) (ser_total_blocks s) stop) (\<lambda>part.
       plift (add_part ''device maximum download size cannot hold sparse metadata'' part 0 s))"

definition push_current :: "fragment \<Rightarrow> serialization \<Rightarrow> serialization" where
  "push_current f s = s\<lparr>ser_current := ser_current s @ [f]\<rparr>"

text \<open>The end of a part in the serializing pass; it returns the queue that is left.\<close>

definition serialize_break ::
    "stop_token \<Rightarrow> nat \<Rightarrow> bool \<Rightarrow> fragment \<Rightarrow> fragment list \<Rightarrow> serialization \<Rightarrow>
     (sparse_flash_plan_error, fragment list \<times> serialization) polled" where
  "serialize_break stop file_len has_last f rest s =
     pbind (plift (split_fragment (ser_budget s) (ser_block_size s) file_len has_last f rest))
       (\<lambda>(prefix, queue, trailing_empty_part).
     let s = (case prefix of None \<Rightarrow> s | Some prefix \<Rightarrow> push_current prefix s) in
     if \<not> (has_last \<or> prefix \<noteq> None) then
       pfail (plan_error Plan_unsupported (fragment_output_offset f (ser_block_size s))
         ''AOSP resparse pass made no forward progress'')
     else
       pbind (flush stop s) (\<lambda>s.
       pbind (if trailing_empty_part then add_empty_part stop s else preturn s) (\<lambda>s.
         preturn (queue, s))))"

primrec serialize_part ::
    "stop_token \<Rightarrow> fragment list \<Rightarrow> bool \<Rightarrow> nat \<Rightarrow> nat \<Rightarrow> serialization \<Rightarrow>
     (sparse_flash_plan_error, fragment list \<times> serialization) polled" where
  "serialize_part stop [] has_last file_len last_block s = preturn ([], s)"
| "serialize_part stop (f # rest) has_last file_len last_block s =
     pbind (poll stop (plan_cancelled (fragment_output_offset f (ser_block_size s))
              ''serializing AOSP resparse parts'')) (\<lambda>_.
     pbind (plift (candidate_size file_len last_block f (ser_block_size s))) (\<lambda>candidate.
     if candidate \<le> ser_budget s then
       serialize_part stop rest True candidate (fragment_end_block f) (push_current f s)
     else serialize_break stop file_len has_last f rest s))"

lemma serialize_part_blocks:
  "serialize_part stop queue has_last file_len last_block s t = (Inr (queue', s'), t') \<Longrightarrow>
   queue_blocks queue' < queue_blocks queue \<or> (has_last \<or> queue = []) \<and> queue' = queue"
proof (induction queue arbitrary: has_last file_len last_block s t)
  case (Cons f rest)
  then show ?case
    by (fastforce simp: serialize_break_def Let_def split: if_splits dest: split_fragment_blocks)
qed auto

function serialize_parts ::
    "stop_token \<Rightarrow> fragment list \<Rightarrow> serialization \<Rightarrow> (sparse_flash_plan_error, serialization) polled" where
  "serialize_parts stop queue s =
     (if queue \<noteq> [] then
        pbind (serialize_part stop queue False 0 0 s) (\<lambda>(queue, s).
          if queue = [] then flush stop s else serialize_parts stop queue s)
      else preturn s)"
  by pat_completeness auto
termination
  by (relation "measure (\<lambda>(stop, queue, s). queue_blocks queue)") (auto dest: serialize_part_blocks)

declare serialize_parts.simps [simp del]

section \<open>The plan\<close>

definition effective_sparse_download_limit :: "nat \<Rightarrow> nat \<Rightarrow> nat" where
  "effective_sparse_download_limit target_max_download_size explicit_host_limit =
     (if explicit_host_limit = 0 then target_max_download_size
      else
        let host_limit = min explicit_host_limit kDefaultResparseLimitBytes in
        if target_max_download_size = 0 then host_limit
        else min target_max_download_size host_limit)"

record sparse_flash_plan =
  sfp_parts :: "sparse_flash_part list"
  sfp_reparsed :: bool
  sfp_expanded_size :: nat
  sfp_transfer_size :: nat

definition target_limit_of :: "nat \<Rightarrow> nat" where
  "target_limit_of target_max_download_size =
     (if target_max_download_size = 0 then u32_max else min target_max_download_size u32_max)"

text \<open>The parts of an artifact that does not fit, under \<open>effective_limit\<close>.\<close>

definition resparse ::
    "flash_artifact \<Rightarrow> nat \<Rightarrow> stop_token \<Rightarrow> (sparse_flash_plan_error, sparse_flash_plan) polled" where
  "resparse artifact effective_limit stop =
     (let payload_budget = effective_limit - kAospResparseReservedOverhead in
      pbind (artifact_fragments artifact stop) (\<lambda>(initial_fragments, block_sz, total_blocks).
      pbind (segment_like_aosp_first_pass initial_fragments payload_budget block_sz stop) (\<lambda>segmentation.
      let s = \<lparr>ser_input = fa_source artifact, ser_block_size = block_sz, ser_total_blocks = total_blocks,
               ser_budget = payload_budget, ser_limit = effective_limit, ser_current = [],
               ser_parts = [], ser_total = 0\<rparr> in
      pbind (if seg_fragments segmentation = [] then add_empty_part stop s
             else serialize_parts stop (seg_fragments segmentation) s) (\<lambda>s.
      if length (ser_parts s) \<noteq> seg_part_count segmentation then
        pfail (plan_error Plan_unsupported 0 ''AOSP resparse counting and serialization passes disagree'')
      else
        preturn \<lparr>sfp_parts = ser_parts s, sfp_reparsed = True,
                 sfp_expanded_size = fa_expanded_size artifact, sfp_transfer_size = ser_total s\<rparr>))))"

definition create_plan ::
    "flash_artifact \<Rightarrow> nat \<Rightarrow> nat \<Rightarrow> stop_token \<Rightarrow> (sparse_flash_plan_error, sparse_flash_plan) polled" where
  "create_plan artifact target_max_download_size host_resparse_limit stop =
     pbind (poll stop (plan_cancelled 0 ''starting'')) (\<lambda>_.
     let target_limit = target_limit_of target_max_download_size in
     if fa_transfer_size artifact \<le> target_limit then
       preturn
         \<lparr>sfp_parts = [\<lparr>fp_source = fa_source artifact, fp_first_data_offset = 0,
                        fp_data_end_offset = fa_expanded_size artifact\<rparr>],
          sfp_reparsed = False, sfp_expanded_size = fa_expanded_size artifact,
          sfp_transfer_size = fa_transfer_size artifact\<rparr>
     else if host_resparse_limit = 0 then
       pfail (plan_error Plan_invalid_argument 0 ''host sparse split limit must not be zero'')
     else
       let effective_limit = min target_limit host_resparse_limit in
       if effective_limit \<le> kAospResparseReservedOverhead then
         pfail (plan_error Plan_unsupported 0
           ''device maximum download size cannot hold AOSP sparse resparse overhead'')
       else resparse artifact effective_limit stop)"

end
