(* ===== verification/Flash_Cancel.thy ===== *)
theory Flash_Cancel
  imports Flash_Resparse
begin

text \<open>
  Cancellation of the planner: routine by routine, a stop request can only replace an outcome by the error of kind
  \<open>Plan_cancelled\<close>.
\<close>

definition plan_is_cancelled :: "sparse_flash_plan_error \<Rightarrow> bool" where
  "plan_is_cancelled e \<longleftrightarrow> fpe_kind e = Plan_cancelled"

lemma plan_is_cancelled_simps [simp]: "plan_is_cancelled (plan_cancelled offset phase)"
  by (simp add: plan_is_cancelled_def plan_cancelled_def plan_error_def)

lemma read_source_loop_agrees:
  "agrees_unless plan_is_cancelled (read_source_loop source offset stop completed destination)
     (read_source_loop source offset never_stop completed destination)"
proof (induction "length destination - completed" arbitrary: completed destination rule: less_induct)
  case less
  show ?case
    by (subst (1 2) read_source_loop.simps) (intro agrees_unless_intros less; force)
qed

lemma raw_fragments_loop_agrees:
  "agrees_unless plan_is_cancelled (raw_fragments_loop source stop tb i block fs)
     (raw_fragments_loop source never_stop tb i block fs)"
proof (induction "tb - i" arbitrary: i block fs rule: less_induct)
  case less
  show ?case
    by (subst (1 2) raw_fragments_loop.simps, unfold Let_def read_source_exact_def)
      (intro agrees_unless_intros less read_source_loop_agrees; simp)
qed

lemma sparse_fragments_loop_agrees:
  "agrees_unless plan_is_cancelled (sparse_fragments_loop stop bs cs fs) (sparse_fragments_loop never_stop bs cs fs)"
  by (induction cs arbitrary: fs) (auto intro!: agrees_unless_bind)

lemma artifact_fragments_agrees:
  "agrees_unless plan_is_cancelled (artifact_fragments a stop) (artifact_fragments a never_stop)"
  unfolding artifact_fragments_def Let_def
  by (intro agrees_unless_intros raw_fragments_loop_agrees sparse_fragments_loop_agrees) simp_all

lemma segment_part_agrees:
  "agrees_unless plan_is_cancelled (segment_part stop budget bs queue has_last file_len last_block result)
     (segment_part never_stop budget bs queue has_last file_len last_block result)"
proof (induction queue arbitrary: has_last file_len last_block result)
  case (Cons f rest)
  show ?case
    unfolding segment_part.simps by (intro agrees_unless_intros Cons) simp_all
qed simp

lemma segment_parts_agrees:
  "agrees_unless plan_is_cancelled (segment_parts stop budget bs queue result)
     (segment_parts never_stop budget bs queue result)"
proof (induction "queue_blocks queue" arbitrary: queue result rule: less_induct)
  case less
  show ?case
    by (subst (1 2) segment_parts.simps)
      (intro agrees_unless_intros less segment_part_agrees; force dest: segment_part_blocks)
qed

lemma build_fragments_agrees:
  "agrees_unless plan_is_cancelled (build_fragments stop bs fs cursor p) (build_fragments never_stop bs fs cursor p)"
  by (induction fs arbitrary: cursor p) (auto intro!: agrees_unless_bind)

lemma build_part_agrees:
  "agrees_unless plan_is_cancelled (build_part input fs bs tb stop) (build_part input fs bs tb never_stop)"
  unfolding build_part_def create_part_source_def build_sparse_part_def Let_def
  by (intro agrees_unless_intros build_fragments_agrees) simp_all

lemma flush_agrees: "agrees_unless plan_is_cancelled (flush stop s) (flush never_stop s)"
  unfolding flush_def by (intro agrees_unless_intros build_part_agrees) simp_all

lemma add_empty_part_agrees: "agrees_unless plan_is_cancelled (add_empty_part stop s) (add_empty_part never_stop s)"
  unfolding add_empty_part_def by (intro agrees_unless_intros build_part_agrees) simp_all

lemma serialize_part_agrees:
  "agrees_unless plan_is_cancelled (serialize_part stop queue has_last file_len last_block s)
     (serialize_part never_stop queue has_last file_len last_block s)"
proof (induction queue arbitrary: has_last file_len last_block s)
  case (Cons f rest)
  show ?case
    unfolding serialize_part.simps serialize_break_def Let_def
    by (intro agrees_unless_intros Cons flush_agrees add_empty_part_agrees) simp_all
qed simp

lemma serialize_parts_agrees:
  "agrees_unless plan_is_cancelled (serialize_parts stop queue s) (serialize_parts never_stop queue s)"
proof (induction "queue_blocks queue" arbitrary: queue s rule: less_induct)
  case less
  show ?case
    by (subst (1 2) serialize_parts.simps)
      (intro agrees_unless_intros less serialize_part_agrees flush_agrees; force dest: serialize_part_blocks)
qed

lemma resparse_agrees: "agrees_unless plan_is_cancelled (resparse a limit stop) (resparse a limit never_stop)"
  unfolding resparse_def segment_like_aosp_first_pass_def Let_def
  by (intro agrees_unless_intros artifact_fragments_agrees segment_parts_agrees serialize_parts_agrees
      add_empty_part_agrees) simp_all

text \<open>
  Cancellation of planning is transparent: for every artifact and every limits, whenever the stop request arrives,
  \<^verbatim>\<open>SparseFlashPlan::create\<close> gives exactly the outcome of an uncancelled call or an error of kind \<open>Plan_cancelled\<close>. It
  never delivers a plan with parts missing, nor another error.
\<close>

theorem create_plan_cancellation:
  "fst (create_plan a target_limit host_limit stop t) = fst (create_plan a target_limit host_limit never_stop t0) \<or>
   (\<exists>e. fst (create_plan a target_limit host_limit stop t) = Inl e \<and> fpe_kind e = Plan_cancelled)"
proof -
  have "agrees_unless plan_is_cancelled (create_plan a target_limit host_limit stop)
      (create_plan a target_limit host_limit never_stop)"
    unfolding create_plan_def Let_def by (intro agrees_unless_intros resparse_agrees) simp_all
  from this [unfolded agrees_unless_def, rule_format, of t t0] show ?thesis by (simp add: plan_is_cancelled_def)
qed

end
