(* ===== verification/Flash_Content.thy ===== *)
theory Flash_Content
  imports Flash_Resparse
begin

text \<open>
  What fragments mean, and that collecting, merging and splitting them keeps that meaning. A list of fragments stands
  for writes to the device: each overwrites the blocks it covers with octets of the image or with its fill pattern.
\<close>

section \<open>Writes\<close>

lemma write_span_append:
  assumes "start + length a \<le> length buffer"
  shows "write_span (write_span buffer start a) (start + length a) b = write_span buffer start (a @ b)"
proof -
  have "write_span buffer start a = take start buffer @ a @ drop (start + length a) buffer"
    and "length (write_span buffer start a) = length buffer"
    using assms by (auto simp: write_span_def)
  with assms show ?thesis by (simp add: write_span_def ac_simps)
qed

lemma write_span_all: "length data = length buffer \<Longrightarrow> write_span buffer 0 data = data"
  by (simp add: write_span_def)

lemma repeat_bytes_append:
  assumes "length pattern dvd m" and "pattern \<noteq> []"
  shows "repeat_bytes pattern m @ repeat_bytes pattern n = repeat_bytes pattern (m + n)"
proof -
  let ?l = "length pattern"
  have "(m + n) div ?l = m div ?l + n div ?l" "(m + n) mod ?l = n mod ?l"
    using assms by (auto simp: div_plus_div_distrib_dvd_left mod_add_eq elim: dvdE)
  with assms(1) show ?thesis by (simp add: repeat_bytes_def replicate_add)
qed

section \<open>Fragments as writes\<close>

definition fragment_bytes :: "byte list \<Rightarrow> nat \<Rightarrow> fragment \<Rightarrow> byte list" where
  "fragment_bytes content block_sz f =
     (if fr_kind f = Chunk_fill
      then repeat_bytes (fill_pattern (fr_fill_value f)) (fr_block_count f * block_sz)
      else take (fr_block_count f * block_sz) (drop (fr_source_offset f) content))"

definition apply_fragment :: "byte list \<Rightarrow> nat \<Rightarrow> fragment \<Rightarrow> byte list \<Rightarrow> byte list" where
  "apply_fragment content block_sz f dev =
     write_span dev (fr_start_block f * block_sz) (fragment_bytes content block_sz f)"

definition apply_fragments :: "byte list \<Rightarrow> nat \<Rightarrow> fragment list \<Rightarrow> byte list \<Rightarrow> byte list" where
  "apply_fragments content block_sz fs dev = fold (apply_fragment content block_sz) fs dev"

definition fragment_ok :: "byte list \<Rightarrow> nat \<Rightarrow> nat \<Rightarrow> fragment \<Rightarrow> bool" where
  "fragment_ok content block_sz total_blocks f \<longleftrightarrow>
     0 < fr_block_count f \<and> fragment_end_block f \<le> total_blocks \<and>
     (fr_kind f = Chunk_fill \<or>
      fr_kind f = Chunk_raw \<and> fr_source_offset f + fr_block_count f * block_sz \<le> length content)"

text \<open>Fragments in ascending order from block \<open>cursor\<close> on, without overlap.\<close>

fun fragments_ok :: "byte list \<Rightarrow> nat \<Rightarrow> nat \<Rightarrow> nat \<Rightarrow> fragment list \<Rightarrow> bool" where
  "fragments_ok content block_sz total_blocks cursor [] \<longleftrightarrow> True"
| "fragments_ok content block_sz total_blocks cursor (f # fs) \<longleftrightarrow>
     fragment_ok content block_sz total_blocks f \<and> cursor \<le> fr_start_block f \<and>
     fragments_ok content block_sz total_blocks (fragment_end_block f) fs"

definition end_of :: "nat \<Rightarrow> fragment list \<Rightarrow> nat" where
  "end_of cursor fs = (if fs = [] then cursor else fragment_end_block (last fs))"

lemma end_of_simps [simp]:
  "end_of c [] = c" "end_of c (fs @ [f]) = fragment_end_block f" "end_of c (f # fs) = end_of (fragment_end_block f) fs"
  by (simp_all add: end_of_def)

lemma end_of_append: "end_of c (fs @ gs) = end_of (end_of c fs) gs"
  by (simp add: end_of_def)

lemma fragments_ok_append:
  "fragments_ok content block_sz total_blocks c (fs @ gs) \<longleftrightarrow>
     fragments_ok content block_sz total_blocks c fs \<and>
     fragments_ok content block_sz total_blocks (end_of c fs) gs"
  by (induction fs arbitrary: c) auto

lemma fragments_ok_mono:
  "\<lbrakk>fragments_ok content block_sz total_blocks c fs; c' \<le> c\<rbrakk> \<Longrightarrow> fragments_ok content block_sz total_blocks c' fs"
  by (cases fs) auto

lemma apply_fragments_simps [simp]:
  "apply_fragments content block_sz [] dev = dev"
  "apply_fragments content block_sz (f # fs) dev =
     apply_fragments content block_sz fs (apply_fragment content block_sz f dev)"
  by (simp_all add: apply_fragments_def)

lemma apply_fragments_append:
  "apply_fragments content block_sz (fs @ gs) dev =
     apply_fragments content block_sz gs (apply_fragments content block_sz fs dev)"
  by (simp add: apply_fragments_def)

text \<open>Two lists of fragments that can replace one another on a device of the size of the image.\<close>

definition same_writes :: "byte list \<Rightarrow> nat \<Rightarrow> nat \<Rightarrow> fragment list \<Rightarrow> fragment list \<Rightarrow> bool" where
  "same_writes content block_sz total_blocks fs gs \<longleftrightarrow>
     (\<forall>dev. length dev = total_blocks * block_sz \<longrightarrow>
        apply_fragments content block_sz fs dev = apply_fragments content block_sz gs dev)"

lemma length_fragment_bytes:
  "fragment_ok content bs tb f \<Longrightarrow> length (fragment_bytes content bs f) = fr_block_count f * bs"
  by (auto simp: fragment_bytes_def fragment_ok_def)

lemma fragment_fits:
  assumes "fragment_ok content bs tb f"
  shows "fr_start_block f * bs + fr_block_count f * bs \<le> tb * bs"
  using assms by (simp add: fragment_ok_def fragment_end_block_def flip: add_mult_distrib)

lemma length_apply_fragment:
  "\<lbrakk>fragment_ok content bs tb f; length dev = tb * bs\<rbrakk> \<Longrightarrow>
   length (apply_fragment content bs f dev) = tb * bs"
  by (simp add: apply_fragment_def)

lemma length_apply_fragments:
  "\<lbrakk>fragments_ok content bs tb c fs; length dev = tb * bs\<rbrakk> \<Longrightarrow>
   length (apply_fragments content bs fs dev) = tb * bs"
  by (induction fs arbitrary: c dev) (auto simp: length_apply_fragment)

lemma same_writes_refl [simp]: "same_writes content bs tb fs fs"
  by (simp add: same_writes_def)

lemma same_writes_trans:
  "\<lbrakk>same_writes content bs tb fs gs; same_writes content bs tb gs hs\<rbrakk> \<Longrightarrow>
   same_writes content bs tb fs hs"
  by (simp add: same_writes_def)

lemma same_writes_append:
  "\<lbrakk>same_writes content bs tb fs gs; same_writes content bs tb hs ks; fragments_ok content bs tb c gs\<rbrakk> \<Longrightarrow>
   same_writes content bs tb (fs @ hs) (gs @ ks)"
  by (simp add: same_writes_def apply_fragments_append length_apply_fragments)

text \<open>
  Two adjacent fragments of the same backing are one fragment: the fact behind both merging and splitting.
\<close>

definition joins :: "nat \<Rightarrow> fragment \<Rightarrow> fragment \<Rightarrow> bool" where
  "joins block_sz f g \<longleftrightarrow>
     fr_kind g = fr_kind f \<and> fr_start_block g = fragment_end_block f \<and>
     (if fr_kind f = Chunk_fill then fr_fill_value g = fr_fill_value f
      else fr_source_offset g = fr_source_offset f + fr_block_count f * block_sz)"

definition joined :: "fragment \<Rightarrow> fragment \<Rightarrow> fragment" where
  "joined f g = f\<lparr>fr_block_count := fr_block_count f + fr_block_count g\<rparr>"

lemma joined_end: "joins bs f g \<Longrightarrow> fragment_end_block (joined f g) = fragment_end_block g"
  by (simp add: joins_def joined_def fragment_end_block_def)

lemma joined_ok:
  "\<lbrakk>joins bs f g; 0 < fr_block_count f; 0 < fr_block_count g\<rbrakk> \<Longrightarrow>
   fragment_ok content bs tb (joined f g) \<longleftrightarrow> fragment_ok content bs tb f \<and> fragment_ok content bs tb g"
  by (auto simp: joins_def joined_def fragment_ok_def fragment_end_block_def add_mult_distrib)

lemma joined_bytes:
  assumes "joins bs f g" and "4 dvd bs"
  shows "fragment_bytes content bs f @ fragment_bytes content bs g = fragment_bytes content bs (joined f g)"
  using assms repeat_bytes_append [of "fill_pattern (fr_fill_value f)" "fr_block_count f * bs"]
  by (auto simp: joins_def joined_def fragment_bytes_def add_mult_distrib take_add add.commute)

lemma joined_writes:
  assumes "joins bs f g" and "4 dvd bs" and "fragment_ok content bs tb f"
  shows "same_writes content bs tb [f, g] [joined f g]"
proof -
  have "fr_start_block g * bs = fr_start_block f * bs + length (fragment_bytes content bs f)"
    using assms by (simp add: joins_def fragment_end_block_def add_mult_distrib length_fragment_bytes [OF assms(3)])
  moreover have "fr_start_block (joined f g) = fr_start_block f" by (simp add: joined_def)
  moreover have "fr_start_block f * bs + length (fragment_bytes content bs f) \<le> tb * bs"
    using fragment_fits [OF assms(3)] length_fragment_bytes [OF assms(3)] by simp
  ultimately show ?thesis
    using write_span_append [of "fr_start_block f * bs" "fragment_bytes content bs f" _ "fragment_bytes content bs g"]
    by (simp add: same_writes_def apply_fragment_def joined_bytes [OF assms(1,2)])
qed

section \<open>Collecting and cutting keep the writes\<close>

lemma fragment_continues_joins:
  assumes "fragment_continues f g bs = Inr True"
  shows "joins bs f g"
  using assms
  by (auto simp: fragment_continues_def joins_def fragment_data_bytes_def checked_add_Some checked_multiply_Some
      split: outcome_splits)

lemma same_writes_snoc:
  assumes "fragments_ok content bs tb c fs" and "same_writes content bs tb gs hs"
  shows "same_writes content bs tb (fs @ gs) (fs @ hs)"
  using assms by (intro same_writes_append) auto

lemma append_merged_fragment_ok:
  assumes "append_merged_fragment fs f bs = Inr fs'" and "4 dvd bs"
    and "fragments_ok content bs tb c fs" and "fragment_ok content bs tb f" and "end_of c fs \<le> fr_start_block f"
  shows "fragments_ok content bs tb c fs' \<and> end_of c fs' = fragment_end_block f \<and>
         same_writes content bs tb fs' (fs @ [f])"
proof (cases "fs \<noteq> [] \<and> fragment_continues (last fs) f bs = Inr True")
  case True
  then obtain hs g where fs: "fs = hs @ [g]" by (metis append_butlast_last_id)
  with True have j: "joins bs g f" by (simp add: fragment_continues_joins)
  from True assms(1) fs have fs': "fs' = hs @ [joined g f]"
    by (auto simp: append_merged_fragment_def joined_def Let_def split: if_splits)
  have ok: "fragments_ok content bs tb c hs" "fragment_ok content bs tb g" "end_of c hs \<le> fr_start_block g"
    using assms(3) by (simp_all add: fs fragments_ok_append)
  have jok: "fragment_ok content bs tb (joined g f)"
    using joined_ok [OF j] ok(2) assms(4) by (auto simp: fragment_ok_def)
  have "same_writes content bs tb [joined g f] [g, f]"
    using joined_writes [OF j assms(2) ok(2)] by (simp add: same_writes_def)
  from same_writes_snoc [OF ok(1) this] show ?thesis
    using ok jok joined_end [OF j] by (simp add: fs fs' fragments_ok_append joined_def)
next
  case False
  with assms(1) have "fs' = fs @ [f]"
    by (auto simp: append_merged_fragment_def Let_def split: outcome_splits)
  with assms(3-5) show ?thesis by (simp add: fragments_ok_append)
qed

lemma cast32_id: "n \<le> u32_max \<Longrightarrow> cast32 n = n"
  by (simp add: cast32_def)

lemma take_prefix_Inr:
  assumes "take_prefix f available bs = Inr (p, g)" and "fragment_ok content bs tb f" and "tb \<le> u32_max"
  shows "0 < fr_block_count p" and "fr_block_count p * bs \<le> available"
    and "fr_block_count g = 0 \<Longrightarrow> p = f"
    and "fr_block_count g \<noteq> 0 \<Longrightarrow> joins bs p g \<and> joined p g = f"
proof -
  have cnt: "fr_block_count f \<le> u32_max" "fragment_end_block f \<le> u32_max"
    using assms(2,3) by (auto simp: fragment_ok_def fragment_end_block_def)
  define n where "n = min (available div bs) (fr_block_count f)"
  have "n \<le> available div bs" by (simp add: n_def)
  then have "n * bs \<le> available" using mult_le_mono1 [of n "available div bs" bs] div_times_less_eq_dividend le_trans
    by blast
  moreover have "n \<le> fr_block_count f" by (simp add: n_def)
  ultimately have n: "cast32 n = n" "n \<le> fr_block_count f" "n * bs \<le> available"
    using cnt by (auto simp: cast32_id)
  have fields: "p = f\<lparr>fr_block_count := n\<rparr>" "0 < n"
    using assms(1) n(1) by (auto simp: take_prefix_def Let_def simp flip: n_def split: outcome_splits)
  show "0 < fr_block_count p" and "fr_block_count p * bs \<le> available" using fields n by auto
  have start: "cast32 (fr_start_block f + n) = fr_start_block f + n"
    using cnt n by (intro cast32_id) (simp add: fragment_end_block_def)
  show "p = f" if "fr_block_count g = 0"
    using that assms(1) n fields by (auto simp: take_prefix_def Let_def simp flip: n_def split: outcome_splits)
  show "joins bs p g \<and> joined p g = f" if "fr_block_count g \<noteq> 0"
    using that assms(1,2) n fields start
    by (auto simp: take_prefix_def Let_def joins_def joined_def fragment_end_block_def checked_add_Some fragment_ok_def
        simp flip: n_def split: outcome_splits)
qed

definition placed :: "fragment option \<Rightarrow> fragment list" where
  "placed prefix = (case prefix of None \<Rightarrow> [] | Some f \<Rightarrow> [f])"

lemma split_fragment_Inr:
  assumes "split_fragment budget bs file_len has_last f rest = Inr (prefix, queue, trailing)"
    and "4 dvd bs" and "tb \<le> u32_max" and "fragments_ok content bs tb c (f # rest)"
  shows "fragments_ok content bs tb c (placed prefix @ queue) \<and>
         same_writes content bs tb (placed prefix @ queue) (f # rest) \<and>
         (\<forall>p. prefix = Some p \<longrightarrow> fr_start_block p = fr_start_block f \<and>
            file_len + kChunkHeaderBytes + fr_block_count p * bs \<le> budget) \<and>
         (trailing \<longrightarrow> queue = [] \<and> prefix \<noteq> None)"
proof (cases prefix)
  case None
  with assms(1,4) show ?thesis
    by (auto simp: split_fragment_def placed_def Let_def split: outcome_splits)
next
  case (Some p)
  with assms(1) obtain g where room: "file_len + kChunkHeaderBytes \<le> budget"
    and tp: "take_prefix f (budget - (file_len + kChunkHeaderBytes)) bs = Inr (p, g)"
    and queue: "queue = (if fr_block_count g = 0 then rest else g # rest)"
    and trailing: "trailing = (fr_block_count g = 0 \<and> rest = [])"
    by (auto simp: split_fragment_def Let_def checked_add_Some not_less split: outcome_splits)
  have f: "fragment_ok content bs tb f" using assms(4) by simp
  note p = take_prefix_Inr [OF tp f assms(3)]
  show ?thesis
  proof (cases "fr_block_count g = 0")
    case True
    with p assms(4) room Some queue trailing show ?thesis by (auto simp: placed_def)
  next
    case False
    then have j: "joins bs p g" and f_eq: "joined p g = f" using p(4) by auto
    have ok: "fragment_ok content bs tb p" "fragment_ok content bs tb g"
      using joined_ok [OF j p(1)] False f by (auto simp: f_eq)
    have "same_writes content bs tb ([p, g] @ rest) ([f] @ rest)"
      using joined_writes [OF j assms(2) ok(1)] f by (intro same_writes_append [of _ _ _ _ _ _ _ 0]) (auto simp: f_eq)
    moreover have "fr_start_block p = fr_start_block f" using f_eq by (auto simp: joined_def)
    moreover have "fragment_end_block f = fragment_end_block g" using joined_end [OF j] f_eq by simp
    moreover have "fr_start_block g = fragment_end_block p" using j by (simp add: joins_def)
    ultimately show ?thesis
      using False ok p(2) room Some queue trailing assms(4) by (auto simp: placed_def)
  qed
qed

end
