(* ===== verification/Flash_Passes.thy ===== *)
theory Flash_Passes
  imports Flash_Content
begin

text \<open>
  The two passes of the planner keep the writes of the fragments, and every part is built from a group of consecutive
  fragments.
\<close>

section \<open>The counting pass\<close>

lemma push_segment_Inr:
  "push_segment f bs result = Inr result' \<Longrightarrow> seg_fragments result' = seg_fragments result @ [f]"
  by (auto simp: push_segment_def split: if_splits)

lemma count_part_Inr: "count_part off result = Inr result' \<Longrightarrow> seg_fragments result' = seg_fragments result"
  by (auto simp: count_part_def split: if_splits)

lemma segment_break_Inr:
  assumes "segment_break budget bs file_len has_last f rest result = Inr r"
    and "4 dvd bs" and "tb \<le> u32_max" and ok: "fragments_ok content bs tb 0 (seg_fragments result @ f # rest)"
  shows "fragments_ok content bs tb 0 (seg_fragments (st_result r) @ st_queue r) \<and>
         same_writes content bs tb (seg_fragments (st_result r) @ st_queue r) (seg_fragments result @ f # rest)"
proof -
  from assms(1) obtain prefix trailing where
    split: "split_fragment budget bs file_len has_last f rest = Inr (prefix, st_queue r, trailing)"
    and segs: "seg_fragments (st_result r) = seg_fragments result @ placed prefix"
    by (auto simp: segment_break_def placed_def Let_def dest!: push_segment_Inr count_part_Inr split: outcome_splits)
  have pre: "fragments_ok content bs tb 0 (seg_fragments result)"
    and "fragments_ok content bs tb (end_of 0 (seg_fragments result)) (f # rest)"
    using ok by (simp_all add: fragments_ok_append)
  from split_fragment_Inr [OF split assms(2,3) this(2)] pre show ?thesis
    by (simp add: segs fragments_ok_append same_writes_snoc)
qed

lemma segment_part_Inr:
  assumes "segment_part stop budget bs queue has_last file_len last_block result t = (Inr r, t')"
    and "4 dvd bs" and "tb \<le> u32_max" and "fragments_ok content bs tb 0 (seg_fragments result @ queue)"
  shows "fragments_ok content bs tb 0 (seg_fragments (st_result r) @ st_queue r) \<and>
         same_writes content bs tb (seg_fragments (st_result r) @ st_queue r) (seg_fragments result @ queue)"
  using assms(1,4)
proof (induction queue arbitrary: has_last file_len last_block result t)
  case (Cons f rest)
  from Cons.prems(1) consider
    (fits) u result' candidate where "push_segment f bs result = Inr result'"
      "segment_part stop budget bs rest True candidate (fragment_end_block f) result' u = (Inr r, t')"
  | (breaks) "segment_break budget bs file_len has_last f rest result = Inr r"
    by (auto split: if_splits)
  then show ?case
  proof cases
    case fits
    with Cons.IH [OF fits(2)] Cons.prems(2) show ?thesis by (simp add: push_segment_Inr)
  next
    case breaks
    with segment_break_Inr [OF breaks assms(2,3) Cons.prems(2)] show ?thesis by simp
  qed
qed simp

lemma segment_parts_Inr:
  assumes "segment_parts stop budget bs queue result t = (Inr result', t')"
    and "4 dvd bs" and "tb \<le> u32_max" and "fragments_ok content bs tb 0 (seg_fragments result @ queue)"
  shows "fragments_ok content bs tb 0 (seg_fragments result') \<and>
         same_writes content bs tb (seg_fragments result') (seg_fragments result @ queue)"
  using assms(1,4)
proof (induction "queue_blocks queue" arbitrary: queue result t rule: less_induct)
  case less
  show ?case
  proof (cases "queue = []")
    case True
    with less.prems show ?thesis by (simp add: segment_parts.simps)
  next
    case False
    with less.prems(1) obtain r u where
      part: "segment_part stop budget bs queue False 0 0 result t = (Inr r, u)"
      and rest: "st_queue r = [] \<and> finish_segmentation r = Inr result' \<or>
        st_queue r \<noteq> [] \<and> segment_parts stop budget bs (st_queue r) (st_result r) u = (Inr result', t')"
      by (subst (asm) segment_parts.simps) (auto split: if_splits)
    note kept = segment_part_Inr [OF part assms(2,3) less.prems(2)]
    from rest show ?thesis
    proof (elim disjE conjE)
      assume "st_queue r = []" and "finish_segmentation r = Inr result'"
      moreover from this have "seg_fragments result' = seg_fragments (st_result r)"
        by (auto simp: finish_segmentation_def dest!: count_part_Inr split: outcome_splits)
      ultimately show ?thesis using kept by simp
    next
      assume run: "segment_parts stop budget bs (st_queue r) (st_result r) u = (Inr result', t')"
      have "queue_blocks (st_queue r) < queue_blocks queue"
        using segment_part_blocks [OF part] False by auto
      from less.hyps [OF this run] kept show ?thesis using same_writes_trans by blast
    qed
  qed
qed

lemma first_pass_Inr:
  assumes "segment_like_aosp_first_pass fs budget bs stop t = (Inr seg, t')"
    and "4 dvd bs" and "tb \<le> u32_max" and "fragments_ok content bs tb 0 fs"
  shows "fragments_ok content bs tb 0 (seg_fragments seg) \<and> same_writes content bs tb (seg_fragments seg) fs"
  using assms segment_parts_Inr [of stop budget bs fs "\<lparr>seg_fragments = [], seg_part_count = 0\<rparr>" t seg t' tb content]
  by (auto simp: segment_like_aosp_first_pass_def split: if_splits)

section \<open>The serializing pass\<close>

definition part_of :: "image_source \<Rightarrow> nat \<Rightarrow> nat \<Rightarrow> sparse_flash_part \<Rightarrow> fragment list \<Rightarrow> bool" where
  "part_of input bs tb part fs = (\<exists>stop t t'. build_part input fs bs tb stop t = (Inr part, t'))"

text \<open>The parts so far are built from \<open>groups\<close>, one group of fragments each.\<close>

definition parts_from :: "serialization \<Rightarrow> fragment list list \<Rightarrow> bool" where
  "parts_from s groups =
     (list_all2 (part_of (ser_input s) (ser_block_size s) (ser_total_blocks s)) (ser_parts s) groups \<and>
      (\<forall>part \<in> set (ser_parts s). is_size (fp_source part) \<le> ser_limit s) \<and>
      ser_total s = sum_list (map (\<lambda>part. is_size (fp_source part)) (ser_parts s)))"

definition same_setup :: "serialization \<Rightarrow> serialization \<Rightarrow> bool" where
  "same_setup s s' =
     (ser_input s' = ser_input s \<and> ser_block_size s' = ser_block_size s \<and>
      ser_total_blocks s' = ser_total_blocks s \<and> ser_budget s' = ser_budget s \<and> ser_limit s' = ser_limit s)"

lemma same_setup_refl [simp]: "same_setup s s"
  by (simp add: same_setup_def)

lemma same_setup_trans: "\<lbrakk>same_setup s s'; same_setup s' s''\<rbrakk> \<Longrightarrow> same_setup s s''"
  by (simp add: same_setup_def)

lemma add_part_Inr:
  assumes "add_part message part offset s = Inr s'" and "parts_from s groups"
    and "part_of (ser_input s) (ser_block_size s) (ser_total_blocks s) part fs"
  shows "parts_from s' (groups @ [fs]) \<and> same_setup s s' \<and> ser_current s' = ser_current s"
  using assms
  by (auto simp: add_part_def parts_from_def same_setup_def checked_add_Some not_less
      split: outcome_splits intro!: list_all2_appendI)

lemma flush_Inr:
  assumes "flush stop s t = (Inr s', t')" and "parts_from s groups"
  shows "\<exists>groups'. parts_from s' groups' \<and> concat groups' = concat groups @ ser_current s \<and> ser_current s' = [] \<and>
           same_setup s s'"
proof (cases "ser_current s = []")
  case True
  with assms show ?thesis by (intro exI [of _ groups]) (simp add: flush_def)
next
  case False
  with assms(1) obtain part u s1 where
    build: "build_part (ser_input s) (ser_current s) (ser_block_size s) (ser_total_blocks s) stop t = (Inr part, u)"
    and add: "add_part ''AOSP sparse part exceeds the effective download limit'' part (fp_first_data_offset part) s = Inr s1"
    and s': "s' = s1\<lparr>ser_current := []\<rparr>"
    by (auto simp: flush_def)
  from build have "part_of (ser_input s) (ser_block_size s) (ser_total_blocks s) part (ser_current s)"
    by (auto simp: part_of_def)
  from add_part_Inr [OF add assms(2) this] show ?thesis
    by (intro exI [of _ "groups @ [ser_current s]"]) (auto simp: s' parts_from_def same_setup_def)
qed

lemma add_empty_part_Inr:
  assumes "add_empty_part stop s t = (Inr s', t')" and "parts_from s groups"
  shows "parts_from s' (groups @ [[]]) \<and> same_setup s s' \<and> ser_current s' = ser_current s"
proof -
  from assms(1) obtain part u where
    build: "build_part (ser_input s) [] (ser_block_size s) (ser_total_blocks s) stop t = (Inr part, u)"
    and add: "add_part ''device maximum download size cannot hold sparse metadata'' part 0 s = Inr s'"
    by (auto simp: add_empty_part_def)
  from build have "part_of (ser_input s) (ser_block_size s) (ser_total_blocks s) part []"
    by (auto simp: part_of_def)
  from add_part_Inr [OF add assms(2) this] show ?thesis .
qed

text \<open>What is placed and what is still to be placed together write what they wrote before.\<close>

definition serialized :: "byte list \<Rightarrow> fragment list \<Rightarrow> serialization \<Rightarrow> fragment list \<Rightarrow> bool" where
  "serialized content goal s queue =
     (\<exists>groups. parts_from s groups \<and>
        fragments_ok content (ser_block_size s) (ser_total_blocks s) 0 (concat groups @ ser_current s @ queue) \<and>
        same_writes content (ser_block_size s) (ser_total_blocks s) (concat groups @ ser_current s @ queue) goal)"

lemma serialized_push: "serialized content goal s (f # rest) \<Longrightarrow> serialized content goal (push_current f s) rest"
  by (simp add: serialized_def push_current_def parts_from_def)

lemma serialized_flush:
  assumes "flush stop s t = (Inr s', t')" and "serialized content goal s queue"
  shows "serialized content goal s' queue \<and> ser_current s' = [] \<and> same_setup s s'"
proof -
  from assms(2) obtain groups where g: "parts_from s groups"
      "fragments_ok content (ser_block_size s) (ser_total_blocks s) 0 (concat groups @ ser_current s @ queue)"
      "same_writes content (ser_block_size s) (ser_total_blocks s) (concat groups @ ser_current s @ queue) goal"
    by (auto simp: serialized_def)
  from flush_Inr [OF assms(1) g(1)] obtain groups' where
    "parts_from s' groups'" "concat groups' = concat groups @ ser_current s" "ser_current s' = []" "same_setup s s'"
    by blast
  with g(2,3) show ?thesis
    by (auto simp: serialized_def same_setup_def intro!: exI [of _ groups'])
qed

lemma serialized_split:
  assumes "serialized content goal s (f # rest)"
    and "split_fragment (ser_budget s) (ser_block_size s) file_len has_last f rest = Inr (prefix, queue, trailing)"
    and "4 dvd ser_block_size s" and "ser_total_blocks s \<le> u32_max"
  shows "serialized content goal (case prefix of None \<Rightarrow> s | Some p \<Rightarrow> push_current p s) queue"
proof -
  let ?ok = "fragments_ok content (ser_block_size s) (ser_total_blocks s)"
  let ?same = "same_writes content (ser_block_size s) (ser_total_blocks s)"
  from assms(1) obtain groups where g: "parts_from s groups"
      "?ok 0 ((concat groups @ ser_current s) @ f # rest)" "?same ((concat groups @ ser_current s) @ f # rest) goal"
    by (auto simp: serialized_def)
  let ?pre = "concat groups @ ser_current s"
  have pre: "?ok 0 ?pre" "?ok (end_of 0 ?pre) (f # rest)" using g(2) by (simp_all only: fragments_ok_append)
  from split_fragment_Inr [OF assms(2-4) pre(2)]
  have new: "?ok (end_of 0 ?pre) (placed prefix @ queue)" "?same (placed prefix @ queue) (f # rest)" by auto
  have "?ok 0 (?pre @ placed prefix @ queue)" using pre(1) new(1) by (simp only: fragments_ok_append)
  moreover have "?same (?pre @ placed prefix @ queue) goal"
    using same_writes_trans [OF same_writes_snoc [OF pre(1) new(2)] g(3)] .
  ultimately have "serialized content goal s (placed prefix @ queue)"
    using g(1) by (auto simp: serialized_def)
  then show ?thesis by (cases prefix) (auto simp: placed_def serialized_push)
qed

lemma serialize_break_Inr:
  assumes "serialize_break stop file_len has_last f rest s t = (Inr (queue, s'), t')"
    and "serialized content goal s (f # rest)" and "4 dvd ser_block_size s" and "ser_total_blocks s \<le> u32_max"
  shows "serialized content goal s' queue \<and> same_setup s s'"
proof -
  from assms(1) obtain prefix trailing s1 u where
    split: "split_fragment (ser_budget s) (ser_block_size s) file_len has_last f rest = Inr (prefix, queue, trailing)"
    and fl: "flush stop (case prefix of None \<Rightarrow> s | Some p \<Rightarrow> push_current p s) t = (Inr s1, u)"
    and tr: "(if trailing then add_empty_part stop s1 else preturn s1) u = (Inr s', t')"
    by (auto simp: serialize_break_def Let_def split: if_splits option.splits)
  note one = serialized_flush [OF fl serialized_split [OF assms(2) split assms(3,4)]]
  have fixed: "same_setup s s1" using one by (cases prefix) (auto simp: same_setup_def push_current_def)
  show ?thesis
  proof (cases trailing)
    case False
    with tr one fixed show ?thesis by simp
  next
    case True
    with tr have add: "add_empty_part stop s1 u = (Inr s', t')" by simp
    from one obtain groups where g: "parts_from s1 groups"
      "fragments_ok content (ser_block_size s1) (ser_total_blocks s1) 0 (concat groups @ ser_current s1 @ queue)"
      "same_writes content (ser_block_size s1) (ser_total_blocks s1) (concat groups @ ser_current s1 @ queue) goal"
      by (auto simp: serialized_def)
    from add_empty_part_Inr [OF add g(1)] g(2,3) fixed show ?thesis
      by (auto simp: serialized_def same_setup_def intro!: exI [of _ "groups @ [[]]"])
  qed
qed

lemma serialize_part_Inr:
  "\<lbrakk>serialize_part stop queue has_last file_len last_block s t = (Inr (queue', s'), t');
    serialized content goal s queue; 4 dvd ser_block_size s; ser_total_blocks s \<le> u32_max\<rbrakk> \<Longrightarrow>
   serialized content goal s' queue' \<and> same_setup s s'"
proof (induction queue arbitrary: has_last file_len last_block s t)
  case (Cons f rest)
  from Cons.prems(1) consider
    (fits) u candidate where
      "serialize_part stop rest True candidate (fragment_end_block f) (push_current f s) u = (Inr (queue', s'), t')"
  | (breaks) u where "serialize_break stop file_len has_last f rest s u = (Inr (queue', s'), t')"
    by (auto split: if_splits)
  then show ?case
  proof cases
    case fits
    from Cons.IH [OF this serialized_push [OF Cons.prems(2)]] Cons.prems(3,4) show ?thesis
      by (simp add: push_current_def same_setup_def)
  next
    case breaks
    from serialize_break_Inr [OF this Cons.prems(2-4)] show ?thesis .
  qed
qed simp

lemma serialize_parts_Inr:
  assumes "serialize_parts stop queue s t = (Inr s', t')" and "queue \<noteq> []"
    and "serialized content goal s queue" and "4 dvd ser_block_size s" and "ser_total_blocks s \<le> u32_max"
  shows "serialized content goal s' [] \<and> ser_current s' = [] \<and> same_setup s s'"
  using assms
proof (induction "queue_blocks queue" arbitrary: queue s t rule: less_induct)
  case less
  from less.prems(1,2) obtain queue1 s1 u where
    part: "serialize_part stop queue False 0 0 s t = (Inr (queue1, s1), u)"
    and rest: "queue1 = [] \<and> flush stop s1 u = (Inr s', t') \<or>
      queue1 \<noteq> [] \<and> serialize_parts stop queue1 s1 u = (Inr s', t')"
    by (subst (asm) serialize_parts.simps) (auto split: if_splits)
  note kept = serialize_part_Inr [OF part less.prems(3-5)]
  from rest show ?case
  proof (elim disjE conjE)
    assume "queue1 = []" and fl: "flush stop s1 u = (Inr s', t')"
    with serialized_flush [OF fl, of content goal "[]"] kept show ?thesis by (auto intro: same_setup_trans)
  next
    assume ne: "queue1 \<noteq> []" and run: "serialize_parts stop queue1 s1 u = (Inr s', t')"
    have "queue_blocks queue1 < queue_blocks queue"
      using serialize_part_blocks [OF part] less.prems(2) by auto
    from less.hyps [OF this run ne] kept less.prems(4,5) show ?thesis
      by (auto simp: same_setup_def)
  qed
qed

end
