(* ===== verification/Flash_Import.thy ===== *)
theory Flash_Import
  imports Flash_Content
begin

text \<open>
  The fragments of an artifact write what the artifact expands to: the scan of a raw image, with its detection of
  blocks that repeat one word, and the import of a sparse chunk table.
\<close>

section \<open>Blocks that repeat a word\<close>

lemma concat_words:
  "length block = 4 * n \<Longrightarrow> concat (map (\<lambda>i. take 4 (drop (4 * i) block)) [0..<n]) = block"
proof (induction n arbitrary: block)
  case (Suc n)
  let ?rest = "drop 4 block"
  have "map (\<lambda>i. take 4 (drop (4 * i) block)) [0..<Suc n] =
      take 4 block # map (\<lambda>i. take 4 (drop (4 * i) ?rest)) [0..<n]"
    by (simp add: upt_conv_Cons map_Suc_upt [symmetric] add.commute del: upt_Suc)
  with Suc.IH [of ?rest] Suc.prems show ?case by simp
qed simp

lemma block_is_fill_bytes:
  assumes "block_is_fill block = (True, v)" and "length block = 4 * n" and "0 < n"
  shows "repeat_bytes (fill_pattern v) (length block) = block"
proof -
  have v: "v = read_u32 block 0" and all: "\<forall>i \<in> {1..<n}. read_u32 block (4 * i) = v"
    using assms by (auto simp: block_is_fill_def Let_def list_all_iff)
  have "take 4 (drop (4 * i) block) = fill_pattern v" if "i < n" for i
    using that v all assms(2) fill_pattern_read_u32 [of "4 * i" block] by (cases "i = 0") auto
  then have "map (\<lambda>i. take 4 (drop (4 * i) block)) [0..<n] = map (\<lambda>i. fill_pattern v) [0..<n]"
    by (intro map_cong) auto
  with concat_words [OF assms(2)] have "concat (replicate n (fill_pattern v)) = block"
    by (simp add: map_replicate_const)
  then show ?thesis using assms(2) by (simp add: repeat_bytes_def)
qed

section \<open>Raw images\<close>

context image_content
begin

lemma read_source_loop_content:
  assumes "read_source_loop source offset stop completed destination t = (Inr result, t')"
    and "completed \<le> length destination"
    and "take completed destination = take completed (drop offset content)"
  shows "result = take (length destination) (drop offset content)"
  using assms
proof (induction "length destination - completed" arbitrary: completed destination t rule: less_induct)
  case less
  show ?case
  proof (cases "completed < length destination")
    case False
    with less.prems show ?thesis by (simp add: read_source_loop.simps)
  next
    case True
    with less.prems(1) obtain n data u where
      rd: "is_read_at source (offset + completed) (length destination - completed) = Inr (n, data)"
      and n: "0 < n" "n \<le> length destination - completed"
      and rec: "read_source_loop source offset stop (completed + n) (write_span destination completed data) u =
                  (Inr result, t')"
      by (subst (asm) read_source_loop.simps) (auto simp: checked_add_Some split: outcome_splits)
    from read_content [OF rd n(2)] have data: "n \<le> length data"
      "take n data = take n (drop (offset + completed) content)" by auto
    have "take (completed + n) (write_span destination completed data) = take (completed + n) (drop offset content)"
      using take_write_span [of n data completed destination] data n True less.prems(3)
      by (simp add: take_add add.commute)
    with less.hyps [OF _ rec] n True show ?thesis by simp
  qed
qed

lemma read_source_exact_content:
  "read_source_exact source offset destination stop t = (Inr result, t') \<Longrightarrow>
   result = take (length destination) (drop offset content)"
  unfolding read_source_exact_def by (drule read_source_loop_content) auto

text \<open>The fragment of one scanned block writes that block.\<close>

lemma scanned_block_bytes:
  assumes "block = take kRawResparseBlockSize (drop (i * kRawResparseBlockSize) content)"
    and "block_is_fill block = (is_fill, v)" and "length block = kRawResparseBlockSize"
    and "f = \<lparr>fr_kind = (if is_fill then Chunk_fill else Chunk_raw), fr_start_block = i, fr_block_count = 1,
             fr_source_offset = i * kRawResparseBlockSize, fr_fill_value = v\<rparr>"
  shows "fragment_bytes content kRawResparseBlockSize f = block"
  using assms block_is_fill_bytes [of block v 1024]
  by (cases is_fill) (auto simp: fragment_bytes_def kRawResparseBlockSize_def)

lemma raw_fragments_loop_Inr:
  assumes "raw_fragments_loop source stop tb i block fs t = (Inr fs', t')"
    and "length content = tb * kRawResparseBlockSize" and "i \<le> tb" and "length block = kRawResparseBlockSize"
    and "fragments_ok content kRawResparseBlockSize tb 0 fs" and "end_of 0 fs = i"
    and "\<And>dev. length dev = length content \<Longrightarrow>
      apply_fragments content kRawResparseBlockSize fs dev =
        take (i * kRawResparseBlockSize) content @ drop (i * kRawResparseBlockSize) dev"
  shows "fragments_ok content kRawResparseBlockSize tb 0 fs' \<and>
         (\<forall>dev. length dev = length content \<longrightarrow> apply_fragments content kRawResparseBlockSize fs' dev = content)"
  using assms
proof (induction "tb - i" arbitrary: i block fs t)
  case 0
  then show ?case by (simp add: raw_fragments_loop.simps)
next
  case (Suc n)
  let ?bs = kRawResparseBlockSize
  have i: "i < tb" using Suc.hyps(2) by simp
  define frag where "frag = (\<lambda>block. \<lparr>fr_kind = (if fst (block_is_fill block) then Chunk_fill else Chunk_raw),
    fr_start_block = i, fr_block_count = 1, fr_source_offset = i * ?bs, fr_fill_value = snd (block_is_fill block)\<rparr>)"
  from i Suc.prems(1) obtain block' u v fs1 where
    rd: "read_source_exact source (i * ?bs) block stop u = (Inr block', v)"
    and merge: "append_merged_fragment fs (frag block') ?bs = Inr fs1"
    and rec: "raw_fragments_loop source stop tb (i + 1) block' fs1 v = (Inr fs', t')"
    unfolding raw_fragments_loop.simps [of source stop tb i block fs]
    by (auto simp: Let_def split_beta frag_def)
  define f where f: "f = frag block'"
  obtain is_fill fill_value where bf: "block_is_fill block' = (is_fill, fill_value)" by fastforce
  have f: "f = \<lparr>fr_kind = (if is_fill then Chunk_fill else Chunk_raw), fr_start_block = i, fr_block_count = 1,
             fr_source_offset = i * ?bs, fr_fill_value = fill_value\<rparr>"
    and merge: "append_merged_fragment fs f ?bs = Inr fs1"
    using merge by (simp_all add: f frag_def bf)
  have le: "(i + 1) * ?bs \<le> length content" using i Suc.prems(2) by (metis Suc_eq_plus1 Suc_leI mult_le_mono1)
  have block': "block' = take ?bs (drop (i * ?bs) content)" "length block' = ?bs"
    using read_source_exact_content [OF rd] Suc.prems(4) le by auto
  have f_ok: "fragment_ok content ?bs tb f"
    using i le by (auto simp: f fragment_ok_def fragment_end_block_def)
  have four: "4 dvd ?bs" by (simp add: kRawResparseBlockSize_def)
  have "end_of 0 fs \<le> fr_start_block f" using Suc.prems(6) by (simp add: f)
  from append_merged_fragment_ok [OF merge four Suc.prems(5) f_ok this]
  have fs1: "fragments_ok content ?bs tb 0 fs1" "end_of 0 fs1 = i + 1" "same_writes content ?bs tb fs1 (fs @ [f])"
    by (auto simp: f fragment_end_block_def)
  have bytes: "fragment_bytes content ?bs f = block'"
    using scanned_block_bytes [OF block'(1) bf block'(2) f] .
  have writes: "apply_fragments content ?bs fs1 dev = take ((i + 1) * ?bs) content @ drop ((i + 1) * ?bs) dev"
    if dev: "length dev = length content" for dev
  proof -
    have "apply_fragments content ?bs fs1 dev =
        write_span (take (i * ?bs) content @ drop (i * ?bs) dev) (i * ?bs) block'"
      using fs1(3) Suc.prems(2,7) dev
      by (simp add: same_writes_def apply_fragments_append apply_fragment_def bytes) (simp add: f)
    also have "\<dots> = take (i * ?bs) content @ block' @ drop ((i + 1) * ?bs) dev"
      using dev le block'(2) by (simp add: write_span_def)
    finally show ?thesis
      using take_add [of "i * ?bs" ?bs content] block'(1) by (simp add: add.commute)
  qed
  show ?case
    using Suc.hyps(1) [OF _ rec Suc.prems(2) _ block'(2) fs1(1,2) writes] Suc.hyps(2) i by simp
qed

end

section \<open>Sparse images\<close>

text \<open>What a device does with the chunks of a sparse image: it writes the data chunks and skips the others.\<close>

definition flash_chunk :: "byte list \<Rightarrow> sparse_chunk \<Rightarrow> byte list \<Rightarrow> byte list" where
  "flash_chunk content c dev =
     (if sc_kind c = Chunk_raw \<or> sc_kind c = Chunk_fill
      then write_span dev (sc_output_offset c) (expand_chunk content c) else dev)"

definition flash_chunks :: "byte list \<Rightarrow> sparse_chunk list \<Rightarrow> byte list \<Rightarrow> byte list" where
  "flash_chunks content cs dev = fold (flash_chunk content) cs dev"

lemma flash_chunks_simps [simp]:
  "flash_chunks content [] dev = dev"
  "flash_chunks content (c # cs) dev = flash_chunks content cs (flash_chunk content c dev)"
  by (simp_all add: flash_chunks_def)

fun tiled_from :: "nat \<Rightarrow> sparse_chunk list \<Rightarrow> bool" where
  "tiled_from off [] \<longleftrightarrow> True"
| "tiled_from off (c # cs) \<longleftrightarrow> sc_output_offset c = off \<and> tiled_from (off + sc_output_size c) cs"

lemma tiled_from_nth:
  "(\<forall>i < length cs. sc_output_offset (cs ! i) = off + chunks_size (take i cs)) \<Longrightarrow> tiled_from off cs"
proof (induction cs arbitrary: off)
  case (Cons c cs)
  have "sc_output_offset (cs ! i) = (off + sc_output_size c) + chunks_size (take i cs)" if "i < length cs" for i
    using Cons.prems [rule_format, of "Suc i"] that by simp
  with Cons.IH Cons.prems [rule_format, of 0] show ?case by simp
qed simp

lemma tiled_tiled_from: "tiled cs \<Longrightarrow> tiled_from 0 cs"
  by (rule tiled_from_nth) (simp add: tiled_def)

lemma chunk_fragment_facts:
  assumes "wf_chunk content h c" and "sc_kind c = Chunk_raw \<or> sc_kind c = Chunk_fill"
    and "sc_output_offset c = b * sh_block_size h" and "0 < sh_block_size h"
    and "b + sc_block_count c \<le> tb" and "tb \<le> u32_max"
  shows "fr_start_block (chunk_fragment c (sh_block_size h)) = b"
    and "fragment_end_block (chunk_fragment c (sh_block_size h)) = b + sc_block_count c"
    and "fragment_ok content (sh_block_size h) tb (chunk_fragment c (sh_block_size h))"
    and "apply_fragment content (sh_block_size h) (chunk_fragment c (sh_block_size h)) dev = flash_chunk content c dev"
proof -
  let ?f = "chunk_fragment c (sh_block_size h)"
  show start: "fr_start_block ?f = b"
    using assms by (simp add: chunk_fragment_def cast32_id)
  then show "fragment_end_block ?f = b + sc_block_count c"
    by (simp add: fragment_end_block_def) (simp add: chunk_fragment_def)
  then show "fragment_ok content (sh_block_size h) tb ?f"
    using assms by (auto simp: fragment_ok_def wf_chunk_def chunk_fragment_def)
  have "fragment_bytes content (sh_block_size h) ?f = expand_chunk content c"
    using assms by (auto simp: fragment_bytes_def chunk_fragment_def expand_chunk_def wf_chunk_def)
  then show "apply_fragment content (sh_block_size h) ?f dev = flash_chunk content c dev"
    using assms(2,3) start by (auto simp: apply_fragment_def flash_chunk_def)
qed

lemma sparse_fragments_loop_Inr:
  assumes "sparse_fragments_loop stop (sh_block_size h) cs fs t = (Inr fs', t')"
    and "\<forall>c \<in> set cs. wf_chunk content h c" and "tiled_from (b * sh_block_size h) cs"
    and "b * sh_block_size h + chunks_size cs = tb * sh_block_size h"
    and "0 < sh_block_size h" and "4 dvd sh_block_size h" and "tb \<le> u32_max"
    and "fragments_ok content (sh_block_size h) tb 0 fs" and "end_of 0 fs \<le> b"
  shows "fragments_ok content (sh_block_size h) tb 0 fs' \<and>
         (\<forall>dev. length dev = tb * sh_block_size h \<longrightarrow>
            apply_fragments content (sh_block_size h) fs' dev =
            flash_chunks content cs (apply_fragments content (sh_block_size h) fs dev))"
  using assms
proof (induction cs arbitrary: fs b t)
  case (Cons c cs)
  let ?bs = "sh_block_size h" and ?f = "chunk_fragment c (sh_block_size h)"
  have wf: "wf_chunk content h c" "\<forall>c \<in> set cs. wf_chunk content h c"
    and off: "sc_output_offset c = b * ?bs" and sz: "sc_output_size c = sc_block_count c * ?bs"
    using Cons.prems(2,3) by (auto simp: wf_chunk_def)
  have tl: "tiled_from ((b + sc_block_count c) * ?bs) cs"
    using Cons.prems(3) sz by (simp add: add_mult_distrib)
  have sum: "(b + sc_block_count c) * ?bs + chunks_size cs = tb * ?bs"
    using Cons.prems(4) sz by (simp add: add_mult_distrib)
  then have blocks: "b + sc_block_count c \<le> tb"
    using Cons.prems(5) by (metis le_add1 mult_le_cancel2)
  show ?case
  proof (cases "sc_kind c = Chunk_raw \<or> sc_kind c = Chunk_fill")
    case False
    with Cons.prems(1) obtain u where "sparse_fragments_loop stop ?bs cs fs u = (Inr fs', t')" by auto
    from Cons.IH [OF this wf(2) tl sum Cons.prems(5-8)] Cons.prems(9) False show ?thesis
      by (simp add: flash_chunk_def)
  next
    case True
    with Cons.prems(1) obtain u fs1 where merge: "append_merged_fragment fs ?f ?bs = Inr fs1"
      and rec: "sparse_fragments_loop stop ?bs cs fs1 u = (Inr fs', t')"
      by (auto split: if_splits)
    note f = chunk_fragment_facts [OF wf(1) True off Cons.prems(5) blocks Cons.prems(7)]
    from append_merged_fragment_ok [OF merge Cons.prems(6,8) f(3)] Cons.prems(9) f(1,2)
    have fs1: "fragments_ok content ?bs tb 0 fs1" "end_of 0 fs1 \<le> b + sc_block_count c"
      "same_writes content ?bs tb fs1 (fs @ [?f])" by auto
    from Cons.IH [OF rec wf(2) tl sum Cons.prems(5-7) fs1(1,2)] fs1(3) show ?thesis
      by (simp add: same_writes_def apply_fragments_append f(4))
  qed
qed simp

end
