(* ===== verification/Flash_Part.thy ===== *)
theory Flash_Part
  imports Flash_Import
begin

text \<open>
  The source of a part: its pieces stand for a list of octets, building a part appends the sparse encoding of its
  fragments, and a read returns those octets.
\<close>

section \<open>The octets behind the pieces\<close>

definition piece_bytes :: "byte list \<Rightarrow> byte list \<Rightarrow> source_piece \<Rightarrow> byte list" where
  "piece_bytes content literals pc =
     (case pc_kind pc of
        Piece_literal \<Rightarrow> take (pc_size pc) (drop (pc_backing_offset pc) literals)
      | Piece_source \<Rightarrow> take (pc_size pc) (drop (pc_backing_offset pc) content)
      | Piece_zero \<Rightarrow> replicate (pc_size pc) 0)"

definition piece_ok :: "byte list \<Rightarrow> byte list \<Rightarrow> source_piece \<Rightarrow> bool" where
  "piece_ok content literals pc \<longleftrightarrow>
     0 < pc_size pc \<and>
     (pc_kind pc = Piece_literal \<longrightarrow> pc_backing_offset pc + pc_size pc \<le> length literals) \<and>
     (pc_kind pc = Piece_source \<longrightarrow> pc_backing_offset pc + pc_size pc \<le> length content)"

fun pieces_from :: "nat \<Rightarrow> source_piece list \<Rightarrow> bool" where
  "pieces_from off [] \<longleftrightarrow> True"
| "pieces_from off (pc # pcs) \<longleftrightarrow> pc_logical_offset pc = off \<and> pieces_from (off + pc_size pc) pcs"

definition pieces_size :: "source_piece list \<Rightarrow> nat" where
  "pieces_size pcs = sum_list (map pc_size pcs)"

definition part_octets :: "byte list \<Rightarrow> sparse_part_source \<Rightarrow> byte list" where
  "part_octets content p = concat (map (piece_bytes content (sps_literals p)) (sps_pieces p))"

definition part_wf :: "byte list \<Rightarrow> sparse_part_source \<Rightarrow> bool" where
  "part_wf content p \<longleftrightarrow>
     (\<forall>pc \<in> set (sps_pieces p). piece_ok content (sps_literals p) pc) \<and> pieces_from 0 (sps_pieces p) \<and>
     sps_size p = pieces_size (sps_pieces p)"

lemma pieces_size_simps [simp]:
  "pieces_size [] = 0" "pieces_size (pc # pcs) = pc_size pc + pieces_size pcs"
  "pieces_size (pcs @ qcs) = pieces_size pcs + pieces_size qcs"
  by (simp_all add: pieces_size_def)

lemma pieces_from_append:
  "pieces_from off (pcs @ qcs) \<longleftrightarrow> pieces_from off pcs \<and> pieces_from (off + pieces_size pcs) qcs"
  by (induction pcs arbitrary: off) (auto simp: add.assoc)

lemma length_piece_bytes: "piece_ok content literals pc \<Longrightarrow> length (piece_bytes content literals pc) = pc_size pc"
  by (auto simp: piece_ok_def piece_bytes_def split: source_piece_kind.split)

lemma length_pieces:
  "\<forall>pc \<in> set pcs. piece_ok content literals pc \<Longrightarrow>
   length (concat (map (piece_bytes content literals) pcs)) = pieces_size pcs"
  by (induction pcs) (auto simp: length_piece_bytes)

lemma length_part_octets: "part_wf content p \<Longrightarrow> length (part_octets content p) = sps_size p"
  by (simp add: part_wf_def part_octets_def length_pieces)

text \<open>A new piece, with a piece that it extends or on its own.\<close>

lemma piece_bytes_extended:
  assumes "pc_kind pc = Piece_zero \<or> pc_backing_offset pc + pc_size pc = off"
  shows "piece_bytes content literals (pc\<lparr>pc_size := pc_size pc + n\<rparr>) =
         piece_bytes content literals pc @
         piece_bytes content literals \<lparr>pc_logical_offset = l, pc_backing_offset = off, pc_size = n, pc_kind = pc_kind pc\<rparr>"
  using assms
  by (auto simp: piece_bytes_def take_add replicate_add split: source_piece_kind.split) (simp_all add: add.commute)

lemma append_piece_Inr:
  assumes "append_piece kind off n p = Inr p'" and "part_wf content p"
    and "new = \<lparr>pc_logical_offset = sps_size p, pc_backing_offset = off, pc_size = n, pc_kind = kind\<rparr>"
    and "0 < n \<Longrightarrow> piece_ok content (sps_literals p) new"
  shows "part_wf content p' \<and> sps_input p' = sps_input p \<and> sps_literals p' = sps_literals p \<and>
         part_octets content p' = part_octets content p @ piece_bytes content (sps_literals p) new"
proof (cases "n = 0")
  case True
  with assms(1-3) show ?thesis
    by (auto simp: append_piece_def piece_bytes_def split: source_piece_kind.split)
next
  case False
  then have new_ok: "piece_ok content (sps_literals p) new" using assms(4) by simp
  let ?last = "last (sps_pieces p)"
  show ?thesis
  proof (cases "sps_pieces p \<noteq> [] \<and> pc_kind ?last = kind \<and>
      (kind = Piece_zero \<or> checked_add (pc_backing_offset ?last) (pc_size ?last) = Some off) \<and>
      pc_logical_offset ?last + pc_size ?last = sps_size p")
    case True
    then obtain pcs pc where pcs: "sps_pieces p = pcs @ [pc]" by (metis append_butlast_last_id)
    have cont: "pc_kind pc = Piece_zero \<or> pc_backing_offset pc + pc_size pc = off" and kind: "pc_kind pc = kind"
      using True by (auto simp: pcs checked_add_Some)
    have p': "p' = p\<lparr>sps_pieces := pcs @ [pc\<lparr>pc_size := pc_size pc + n\<rparr>], sps_size := sps_size p + n\<rparr>"
      using assms(1) False True by (auto simp: append_piece_def pcs checked_add_Some Let_def split: outcome_splits)
    have "piece_ok content (sps_literals p) (pc\<lparr>pc_size := pc_size pc + n\<rparr>)"
      using assms(2) new_ok cont kind by (auto simp: part_wf_def pcs piece_ok_def assms(3))
    then show ?thesis
      using assms(2) piece_bytes_extended [OF cont, of content "sps_literals p" n "sps_size p"]
      by (auto simp: p' part_wf_def pcs pieces_from_append part_octets_def assms(3) kind)
  next
    case single: False
    have "p' = p\<lparr>sps_pieces := sps_pieces p @ [new], sps_size := sps_size p + n\<rparr>"
      using assms(1) False single by (auto simp: append_piece_def checked_add_Some Let_def assms(3) split: outcome_splits)
    with assms(2) new_ok show ?thesis
      by (auto simp: part_wf_def pieces_from_append part_octets_def assms(3))
  qed
qed

lemma append_literal_Inr:
  assumes "append_literal bytes p = Inr p'" and "part_wf content p"
  shows "part_wf content p' \<and> sps_input p' = sps_input p \<and>
         part_octets content p' = part_octets content p @ bytes"
proof -
  let ?q = "p\<lparr>sps_literals := sps_literals p @ bytes\<rparr>"
  have old: "piece_ok content (sps_literals p @ bytes) pc \<and>
      piece_bytes content (sps_literals p @ bytes) pc = piece_bytes content (sps_literals p) pc"
    if "pc \<in> set (sps_pieces p)" for pc
    using that assms(2) by (auto simp: part_wf_def piece_ok_def piece_bytes_def split: source_piece_kind.split)
  then have q: "part_wf content ?q" "part_octets content ?q = part_octets content p"
    using assms(2) by (auto simp: part_wf_def part_octets_def intro!: arg_cong [of _ _ concat])
  from assms(1) have run: "append_piece Piece_literal (length (sps_literals p)) (length bytes) ?q = Inr p'"
    by (auto simp: append_literal_def split: outcome_splits)
  from append_piece_Inr [OF run q(1) refl] q(2) show ?thesis
    by (auto simp: piece_ok_def piece_bytes_def)
qed

lemma append_source_Inr:
  assumes "append_source off n p = Inr p'" and "part_wf content p" and "is_size (sps_input p) = length content"
  shows "part_wf content p' \<and> sps_input p' = sps_input p \<and>
         part_octets content p' = part_octets content p @ take n (drop off content)"
proof -
  from assms(1,3) have run: "append_piece Piece_source off n p = Inr p'" and le: "off + n \<le> length content"
    by (auto simp: append_source_def split: outcome_splits)
  from append_piece_Inr [OF run assms(2) refl] le show ?thesis
    by (auto simp: piece_ok_def piece_bytes_def)
qed

section \<open>The encoding of a part\<close>

definition encode_fragment :: "byte list \<Rightarrow> nat \<Rightarrow> nat \<Rightarrow> fragment \<Rightarrow> byte list" where
  "encode_fragment content bs cursor f =
     (if fr_start_block f > cursor then chunk_header kSparseChunkDontCare (fr_start_block f - cursor) 0 else []) @
     (if fr_kind f = Chunk_raw
      then chunk_header kSparseChunkRaw (fr_block_count f) (fr_block_count f * bs) @ fragment_bytes content bs f
      else chunk_header kSparseChunkFill (fr_block_count f) 4 @ fill_pattern (fr_fill_value f))"

fun encode_fragments :: "byte list \<Rightarrow> nat \<Rightarrow> nat \<Rightarrow> nat \<Rightarrow> fragment list \<Rightarrow> byte list" where
  "encode_fragments content bs tb cursor [] =
     (if cursor < tb then chunk_header kSparseChunkDontCare (tb - cursor) 0 else [])"
| "encode_fragments content bs tb cursor (f # fs) =
     encode_fragment content bs cursor f @ encode_fragments content bs tb (fragment_end_block f) fs"

definition encode_part :: "byte list \<Rightarrow> nat \<Rightarrow> nat \<Rightarrow> fragment list \<Rightarrow> byte list" where
  "encode_part content bs tb fs =
     sparse_file_header bs tb (count_chunks fs tb) @ encode_fragments content bs tb 0 fs"

lemma fill_octets: "write_u32 (replicate 4 0) 0 v = fill_pattern v"
proof -
  have "replicate 4 (0 :: byte) = [0, 0, 0, 0]" by (simp add: numeral_eq_Suc)
  then show ?thesis
    by (auto simp: write_u32_def fill_pattern_def low_octet intro!: bit_word_eqI simp: bit_simps)
qed

text \<open>Raw fragments of a part never exceed 32 bits, or building fails.\<close>

definition small_raw :: "nat \<Rightarrow> fragment \<Rightarrow> bool" where
  "small_raw bs f \<longleftrightarrow> (fr_kind f = Chunk_raw \<longrightarrow> kChunkHeaderBytes + fr_block_count f * bs \<le> u32_max)"

lemma append_chunk_header_Inr:
  assumes "append_chunk_header type count payload p = Inr p'" and "part_wf content p"
  shows "part_wf content p' \<and> sps_input p' = sps_input p \<and> kChunkHeaderBytes + payload \<le> u32_max \<and>
         part_octets content p' = part_octets content p @ chunk_header type count payload"
  using assms append_literal_Inr [OF _ assms(2)]
  by (auto simp: append_chunk_header_def kChunkHeaderBytes_def split: if_splits)

lemma append_fragment_Inr:
  assumes "append_fragment bs cursor f p = Inr p'" and "part_wf content p"
    and "is_size (sps_input p) = length content" and "fragment_ok content bs tb f" and "tb \<le> u32_max"
  shows "part_wf content p' \<and> sps_input p' = sps_input p \<and> small_raw bs f \<and>
         part_octets content p' = part_octets content p @ encode_fragment content bs cursor f"
proof -
  let ?gap = "if fr_start_block f > cursor then chunk_header kSparseChunkDontCare (fr_start_block f - cursor) 0 else []"
  have narrow: "cast32 (fr_start_block f - cursor) = fr_start_block f - cursor"
    using assms(4,5) by (intro cast32_id) (auto simp: fragment_ok_def fragment_end_block_def)
  from assms(1) obtain p1 data_bytes where
    gap: "(if fr_start_block f > cursor
           then append_chunk_header kSparseChunkDontCare (cast32 (fr_start_block f - cursor)) 0 p
           else Inr p) = Inr p1"
    and data: "fragment_data_bytes f bs = Inr data_bytes"
    and rest: "append_data_chunk bs f data_bytes p1 = Inr p'"
    by (auto simp: append_fragment_def split: sum.splits)
  have p1: "part_wf content p1" "sps_input p1 = sps_input p"
    "part_octets content p1 = part_octets content p @ ?gap"
    using gap narrow append_chunk_header_Inr [OF _ assms(2)] assms(2) by (auto split: if_splits)
  have data_eq: "data_bytes = fr_block_count f * bs"
    using data by (auto simp: fragment_data_bytes_def checked_multiply_Some split: outcome_splits)
  show ?thesis
  proof (cases "fr_kind f = Chunk_raw")
    case True
    with rest have small: "data_bytes \<le> u32_max"
      by (auto simp: append_data_chunk_def not_less split: if_splits)
    with rest True data_eq obtain p2 where
      hd: "append_chunk_header kSparseChunkRaw (fr_block_count f) data_bytes p1 = Inr p2"
      and src: "append_source (fr_source_offset f) data_bytes p2 = Inr p'"
      by (auto simp: append_data_chunk_def cast32_id cast64_def Let_def split: outcome_splits)
    note h = append_chunk_header_Inr [OF hd p1(1)]
    then have "is_size (sps_input p2) = length content" using p1(2) assms(3) by simp
    from append_source_Inr [OF src _ this] h p1 True data_eq show ?thesis
      by (auto simp: encode_fragment_def fragment_bytes_def small_raw_def)
  next
    case False
    with rest obtain p2 where hd: "append_chunk_header kSparseChunkFill (fr_block_count f) 4 p1 = Inr p2"
      and lit: "append_literal (write_u32 (replicate 4 0) 0 (fr_fill_value f)) p2 = Inr p'"
      by (auto simp: append_data_chunk_def split: sum.splits)
    note h = append_chunk_header_Inr [OF hd p1(1)]
    from append_literal_Inr [OF lit] h p1 False show ?thesis
      by (auto simp: encode_fragment_def small_raw_def fill_octets)
  qed
qed

lemma build_fragments_Inr:
  assumes "build_fragments stop bs fs cursor p t = (Inr (cursor', p'), t')" and "part_wf content p"
    and "is_size (sps_input p) = length content" and "fragments_ok content bs tb cursor fs" and "tb \<le> u32_max"
  shows "part_wf content p' \<and> sps_input p' = sps_input p \<and> (\<forall>f \<in> set fs. small_raw bs f) \<and>
         cursor' = end_of cursor fs \<and>
         part_octets content p' @ encode_fragments content bs tb cursor' [] =
           part_octets content p @ encode_fragments content bs tb cursor fs"
  using assms
proof (induction fs arbitrary: cursor p t)
  case (Cons f fs)
  from Cons.prems(1) obtain p1 u where one: "append_fragment bs cursor f p = Inr p1"
    and rec: "build_fragments stop bs fs (fragment_end_block f) p1 u = (Inr (cursor', p'), t')" by auto
  from append_fragment_Inr [OF one Cons.prems(2,3) _ Cons.prems(5)] Cons.prems(4)
  have p1: "part_wf content p1" "sps_input p1 = sps_input p" "small_raw bs f"
    "part_octets content p1 = part_octets content p @ encode_fragment content bs cursor f" by auto
  from Cons.IH [OF rec p1(1) _ _ Cons.prems(5)] Cons.prems(3,4) p1 show ?case
    by (auto simp del: encode_fragments.simps(1))
qed simp

lemma build_sparse_part_Inr:
  assumes "create_part_source input bs tb fs stop t = (Inr p, t')" and "is_size input = length content"
    and "fragments_ok content bs tb 0 fs" and "tb \<le> u32_max"
  shows "part_wf content p \<and> sps_input p = input \<and> (\<forall>f \<in> set fs. small_raw bs f) \<and>
         count_chunks fs tb \<le> u32_max \<and> part_octets content p = encode_part content bs tb fs"
proof -
  let ?empty = "\<lparr>sps_input = input, sps_pieces = [], sps_literals = [], sps_size = 0\<rparr>"
  from assms(1) obtain p1 cursor p2 u v where count: "count_chunks fs tb \<le> u32_max"
    and hd: "append_literal (sparse_file_header bs tb (count_chunks fs tb)) ?empty = Inr p1"
    and frs: "build_fragments stop bs fs 0 p1 u = (Inr (cursor, p2), v)"
    and tl: "(if cursor < tb then append_chunk_header kSparseChunkDontCare (cast32 (tb - cursor)) 0 p2
              else Inr p2) = Inr p"
    by (auto simp: create_part_source_def build_sparse_part_def Let_def not_less split: outcome_splits)
  have "part_wf content ?empty" by (simp add: part_wf_def)
  from append_literal_Inr [OF hd this]
  have p1: "part_wf content p1" "sps_input p1 = input"
    "part_octets content p1 = sparse_file_header bs tb (count_chunks fs tb)"
    by (auto simp: part_octets_def)
  from build_fragments_Inr [OF frs p1(1) _ assms(3,4)] p1(2) assms(2)
  have p2: "part_wf content p2" "sps_input p2 = input" "\<forall>f \<in> set fs. small_raw bs f"
    "part_octets content p2 @ encode_fragments content bs tb cursor [] =
       part_octets content p1 @ encode_fragments content bs tb 0 fs"
    by auto
  have "cast32 (tb - cursor) = tb - cursor" using assms(4) by (intro cast32_id) simp
  with tl append_chunk_header_Inr [OF _ p2(1)] p2 p1(3) count show ?thesis
    by (auto simp: encode_part_def split: if_splits)
qed

end
