(* ===== verification/Flash_Part_Read.thy ===== *)
theory Flash_Part_Read
  imports Flash_Part
begin

text \<open>
  Reading the source of a part: whatever a read returns are octets of the part, and a read succeeds in full when the
  backing image does.
\<close>

section \<open>Pieces by position\<close>

lemma pieces_from_nth:
  "\<lbrakk>pieces_from off pcs; i < length pcs\<rbrakk> \<Longrightarrow> pc_logical_offset (pcs ! i) = off + pieces_size (take i pcs)"
proof (induction pcs arbitrary: off i)
  case (Cons pc pcs)
  then show ?case by (cases i) auto
qed simp

lemma concat_map_nth:
  "i < length xs \<Longrightarrow>
   concat (map g xs) = concat (map g (take i xs)) @ g (xs ! i) @ concat (map g (drop (Suc i) xs))"
  by (metis append_Cons append_take_drop_id concat.simps(2) concat_append list.simps(9) map_append
      Cons_nth_drop_Suc)

lemma part_octets_slice:
  assumes "part_wf content p" and "i < length (sps_pieces p)" and "within + n \<le> pc_size (sps_pieces p ! i)"
  shows "take n (drop (pc_logical_offset (sps_pieces p ! i) + within) (part_octets content p)) =
         take n (drop within (piece_bytes content (sps_literals p) (sps_pieces p ! i)))"
proof -
  let ?g = "piece_bytes content (sps_literals p)" and ?pcs = "sps_pieces p"
  have ok: "\<forall>pc \<in> set (take i ?pcs). piece_ok content (sps_literals p) pc"
      "piece_ok content (sps_literals p) (?pcs ! i)"
    using assms(1,2) by (auto simp: part_wf_def dest: in_set_takeD)
  have "pc_logical_offset (?pcs ! i) = length (concat (map ?g (take i ?pcs)))"
    using pieces_from_nth [of 0 ?pcs i] assms(1,2) length_pieces [OF ok(1)] by (simp add: part_wf_def)
  moreover have "length (?g (?pcs ! i)) = pc_size (?pcs ! i)" using length_piece_bytes [OF ok(2)] .
  ultimately show ?thesis
    using assms(3) unfolding part_octets_def concat_map_nth [OF assms(2)] by simp
qed

lemma piece_end_le:
  assumes "part_wf content p" and "i < length (sps_pieces p)"
  shows "pc_logical_offset (sps_pieces p ! i) + pc_size (sps_pieces p ! i) \<le> sps_size p"
    and "Suc i < length (sps_pieces p) \<Longrightarrow>
      pc_logical_offset (sps_pieces p ! Suc i) = pc_logical_offset (sps_pieces p ! i) + pc_size (sps_pieces p ! i)"
    and "Suc i = length (sps_pieces p) \<Longrightarrow>
      pc_logical_offset (sps_pieces p ! i) + pc_size (sps_pieces p ! i) = sps_size p"
proof -
  let ?pcs = "sps_pieces p"
  have l: "pc_logical_offset (?pcs ! j) = pieces_size (take j ?pcs)" if "j < length ?pcs" for j
    using pieces_from_nth [of 0 ?pcs j] assms(1) that by (simp add: part_wf_def)
  have s: "pieces_size (take (Suc i) ?pcs) = pieces_size (take i ?pcs) + pc_size (?pcs ! i)"
    using assms(2) by (simp add: take_Suc_conv_app_nth)
  have "sps_size p = pieces_size (take (Suc i) ?pcs) + pieces_size (drop (Suc i) ?pcs)"
    using assms(1) pieces_size_simps(3) [of "take (Suc i) ?pcs" "drop (Suc i) ?pcs"]
    by (simp add: part_wf_def)
  then show "pc_logical_offset (?pcs ! i) + pc_size (?pcs ! i) \<le> sps_size p"
    and "Suc i < length ?pcs \<Longrightarrow>
      pc_logical_offset (?pcs ! Suc i) = pc_logical_offset (?pcs ! i) + pc_size (?pcs ! i)"
    and "Suc i = length ?pcs \<Longrightarrow> pc_logical_offset (?pcs ! i) + pc_size (?pcs ! i) = sps_size p"
    using l [OF assms(2)] l [of "Suc i"] s by auto
qed

section \<open>What a read returns\<close>

context image_content
begin

lemma piece_read_content:
  assumes "piece_read p pc within amount = Inr (count, data)" and "sps_input p = source"
    and "piece_ok content (sps_literals p) pc" and "within + amount \<le> pc_size pc"
  shows "count \<le> amount \<and> count \<le> length data \<and>
         take count data = take count (drop within (piece_bytes content (sps_literals p) pc))"
proof (cases "pc_kind pc")
  case Piece_source
  with assms(1,2) have rd: "is_read_at source (pc_backing_offset pc + within) amount = Inr (count, data)"
    and le: "count \<le> amount" by (auto simp: piece_read_def split: outcome_splits)
  from read_content [OF rd le] le assms(4) show ?thesis
    by (simp add: piece_bytes_def Piece_source drop_take add.commute min_def)
next
  case Piece_literal
  with assms show ?thesis
    by (auto simp: piece_read_def piece_bytes_def piece_ok_def drop_take add.commute min_def)
next
  case Piece_zero
  with assms show ?thesis by (auto simp: piece_read_def piece_bytes_def)
qed

lemma part_read_loop_content:
  assumes "part_read_loop p offset requested i completed destination = Inr (count, result)"
    and "part_wf content p" and "sps_input p = source" and "offset + requested \<le> sps_size p"
    and "completed \<le> requested" and "requested \<le> length destination"
    and "take completed destination = take completed (drop offset (part_octets content p))"
  shows "count \<le> requested \<and> count \<le> length result \<and>
         take count result = take count (drop offset (part_octets content p))"
  using assms
proof (induction p offset requested i completed destination rule: part_read_loop.induct)
  case (1 p offset requested i completed destination)
  let ?pc = "sps_pieces p ! i" and ?octets = "part_octets content p"
  show ?case
  proof (cases "completed < requested")
    case False
    with "1.prems" show ?thesis by (simp add: part_read_loop.simps)
  next
    case more: True
    with "1.prems"(1) have i: "i < length (sps_pieces p)"
      by (subst (asm) part_read_loop.simps) (auto split: if_splits)
    show ?thesis
    proof (cases "offset + completed < pc_logical_offset ?pc \<or>
        offset + completed - pc_logical_offset ?pc \<ge> pc_size ?pc")
      case True
      have "part_read_loop p offset requested (i + 1) completed destination = Inr (count, result)"
        using "1.prems"(1) more i True by (subst (asm) part_read_loop.simps) (auto simp: Let_def)
      from "1.IH"(1) [OF more _ refl refl True this "1.prems"(2-7)] i show ?thesis by simp
    next
      case False
      define within where "within = offset + completed - pc_logical_offset ?pc"
      define amount where "amount = min (pc_size ?pc - within) (requested - completed)"
      have w: "within + amount \<le> pc_size ?pc" and at: "pc_logical_offset ?pc + within = offset + completed"
        and am: "0 < amount" "completed + amount \<le> requested"
        using False more by (auto simp: within_def amount_def)
      have run: "part_read_loop p offset requested i completed destination =
          (case piece_read p ?pc within amount of
             Inl message \<Rightarrow> Inl message
           | Inr (count, data) \<Rightarrow>
               if count < amount then Inr (completed + count, write_span destination completed data)
               else part_read_loop p offset requested (if within + amount = pc_size ?pc then i + 1 else i)
                      (completed + amount) (write_span destination completed data))"
        by (subst part_read_loop.simps)
          (simp only: Let_def more i [unfolded not_le [symmetric]] False within_def amount_def if_True if_False)
      with "1.prems"(1) obtain c data where rd: "piece_read p ?pc within amount = Inr (c, data)"
        by (auto split: sum.splits)
      have pc: "piece_ok content (sps_literals p) ?pc" using "1.prems"(2) i by (auto simp: part_wf_def)
      note got = piece_read_content [OF rd "1.prems"(3) pc w]
      have "take c (take amount (drop (offset + completed) ?octets)) =
          take c (take amount (drop within (piece_bytes content (sps_literals p) ?pc)))"
        using part_octets_slice [OF "1.prems"(2) i w] by (simp only: at)
      then have data: "take c data = take c (drop (offset + completed) ?octets)"
        using got by (simp add: min_absorb1)
      have new: "take (completed + c) (write_span destination completed data) =
          take (completed + c) (drop offset ?octets)"
        using take_write_span [of c data completed destination] got data am "1.prems"(6,7)
        by (simp add: take_add [of completed c "drop offset _"] add.commute [of completed offset])
      have len: "length (write_span destination completed data) = length destination"
        using am "1.prems"(6) by simp
      show ?thesis
      proof (cases "c < amount")
        case True
        with run rd "1.prems"(1) have "count = completed + c" "result = write_span destination completed data"
          by auto
        with new len am True "1.prems"(6) show ?thesis by simp
      next
        case full: False
        with got have c: "c = amount" by simp
        have rec: "part_read_loop p offset requested (if within + amount = pc_size ?pc then i + 1 else i)
            (completed + amount) (write_span destination completed data) = Inr (count, result)"
          using "1.prems"(1) run rd full by simp
        have "requested \<le> length (write_span destination completed data)" using len "1.prems"(6) by simp
        from "1.IH"(2) [OF more _ refl refl _ within_def amount_def rd refl _ rec "1.prems"(2-4) am(2) this]
          new i False full c show ?thesis by simp
      qed
    qed
  qed
qed

lemma part_source_content:
  assumes "part_wf content p" and "sps_input p = source"
  shows "image_content (part_image_source p) (part_octets content p)"
proof
  show "is_size (part_image_source p) = length (part_octets content p)"
    by (simp add: part_image_source_def length_part_octets [OF assms(1)])
  fix offset n k data
  assume rd: "is_read_at (part_image_source p) offset n = Inr (k, data)" and "k \<le> n"
  let ?requested = "min n (sps_size p - offset)"
  from rd consider "k = 0" "data = []" | i result where "offset \<le> sps_size p"
    "part_read_loop p offset ?requested i 0 (replicate n 0) = Inr (k, result)" "data = take k result"
    by (auto simp: part_image_source_def part_read_at_def Let_def split: outcome_splits)
  then show "k \<le> length data \<and> offset + k \<le> max offset (length (part_octets content p)) \<and>
      take k data = take k (drop offset (part_octets content p))"
  proof cases
    case 2
    have "offset + ?requested \<le> sps_size p" using 2(1) by simp
    from part_read_loop_content [OF 2(2) assms this] 2 show ?thesis
      by (auto simp: length_part_octets [OF assms(1)])
  qed auto
qed

end

section \<open>Reads that succeed in full\<close>

lemma piece_read_full:
  assumes "piece_ok content (sps_literals p) pc" and "sps_input p = policy_source content full_reads"
    and "0 < amount" and "within + amount \<le> pc_size pc"
  shows "\<exists>data. piece_read p pc within amount = Inr (amount, data)"
  using assms
  by (cases "pc_kind pc") (auto simp: piece_read_def piece_ok_def policy_source_def Let_def)

lemma part_read_loop_full:
  assumes "part_wf content p" and "sps_input p = policy_source content full_reads"
    and "offset + requested \<le> sps_size p" and "completed \<le> requested"
    and "completed < requested \<Longrightarrow> i < length (sps_pieces p) \<and> pc_logical_offset (sps_pieces p ! i) \<le> offset + completed \<and>
      offset + completed < pc_logical_offset (sps_pieces p ! i) + pc_size (sps_pieces p ! i)"
  shows "\<exists>result. part_read_loop p offset requested i completed destination = Inr (requested, result)"
  using assms
proof (induction p offset requested i completed destination rule: part_read_loop.induct)
  case (1 p offset requested i completed destination)
  let ?pc = "sps_pieces p ! i"
  show ?case
  proof (cases "completed < requested")
    case False
    with "1.prems"(4) show ?thesis by (simp add: part_read_loop.simps)
  next
    case more: True
    note at = "1.prems"(5) [OF more]
    define within where "within = offset + completed - pc_logical_offset ?pc"
    define amount where "amount = min (pc_size ?pc - within) (requested - completed)"
    have w: "within + amount \<le> pc_size ?pc" "0 < amount" "completed + amount \<le> requested"
      and inside: "\<not> (offset + completed < pc_logical_offset ?pc \<or> offset + completed - pc_logical_offset ?pc \<ge> pc_size ?pc)"
      using at more by (auto simp: within_def amount_def)
    have pc: "piece_ok content (sps_literals p) ?pc" using "1.prems"(1) at by (auto simp: part_wf_def)
    from piece_read_full [OF pc "1.prems"(2) w(2,1)] obtain data where
      rd: "piece_read p ?pc within amount = Inr (amount, data)" by blast
    let ?i = "if within + amount = pc_size ?pc then i + 1 else i"
    have step: "part_read_loop p offset requested i completed destination =
        part_read_loop p offset requested ?i (completed + amount) (write_span destination completed data)"
      using at more inside rd by (subst part_read_loop.simps) (simp add: Let_def flip: within_def amount_def)
    have pos: "?i < length (sps_pieces p) \<and> pc_logical_offset (sps_pieces p ! ?i) \<le> offset + (completed + amount) \<and>
        offset + (completed + amount) < pc_logical_offset (sps_pieces p ! ?i) + pc_size (sps_pieces p ! ?i)"
      if left: "completed + amount < requested"
    proof (cases "within + amount = pc_size ?pc")
      case False
      with left w at show ?thesis by (auto simp: within_def amount_def)
    next
      case True
      then have here: "offset + (completed + amount) = pc_logical_offset ?pc + pc_size ?pc"
        using at unfolding within_def by linarith
      have i: "i < length (sps_pieces p)" using at by simp
      have "Suc i \<noteq> length (sps_pieces p)"
        using piece_end_le(3) [OF "1.prems"(1) i] here left "1.prems"(3) by auto
      with i have suc: "Suc i < length (sps_pieces p)" by simp
      then have "0 < pc_size (sps_pieces p ! Suc i)" using "1.prems"(1) by (auto simp: part_wf_def piece_ok_def)
      with suc here piece_end_le(2) [OF "1.prems"(1) i suc] True show ?thesis by simp
    qed
    from "1.IH"(2) [OF more _ refl refl inside within_def amount_def rd refl _ "1.prems"(1-3) w(3) pos] at
    show ?thesis unfolding step by simp
  qed
qed

lemma part_read_at_full:
  assumes "part_wf content p" and "sps_input p = policy_source content full_reads" and "offset \<le> sps_size p"
  shows "part_read_at p offset n = Inr (min n (sps_size p - offset), take n (drop offset (part_octets content p)))"
proof (cases "min n (sps_size p - offset) = 0")
  case True
  with assms(3) length_part_octets [OF assms(1)] show ?thesis by (auto simp: part_read_at_def)
next
  case False
  let ?requested = "min n (sps_size p - offset)"
  let ?starts = "\<lambda>i. \<not> offset < pc_logical_offset (sps_pieces p ! i)"
  define k where "k = lower_bound ?starts 0 (length (sps_pieces p))"
  have mono: "pc_logical_offset (sps_pieces p ! i) \<le> pc_logical_offset (sps_pieces p ! j)"
    if "i \<le> j" "j < length (sps_pieces p)" for i j
    using that
  proof (induction j)
    case (Suc j)
    then show ?case using piece_end_le(2) [OF assms(1), of j] by (cases "i = Suc j") auto
  qed simp
  have k: "k \<le> length (sps_pieces p)" "\<And>i. i < k \<Longrightarrow> ?starts i" "\<And>i. k \<le> i \<Longrightarrow> i < length (sps_pieces p) \<Longrightarrow> \<not> ?starts i"
  proof -
    have spec: "k \<le> 0 + length (sps_pieces p) \<and> 0 \<le> k \<and> (\<forall>i. 0 \<le> i \<longrightarrow> i < k \<longrightarrow> ?starts i) \<and>
        (\<forall>i. k \<le> i \<longrightarrow> i < 0 + length (sps_pieces p) \<longrightarrow> \<not> ?starts i)"
      unfolding k_def
    proof (rule lower_bound_spec)
      fix i j assume "i \<le> j" "j < 0 + length (sps_pieces p)" "?starts j"
      then show "?starts i" using mono [of i j] by simp
    qed
    then show "k \<le> length (sps_pieces p)" by simp
    show "?starts i" if "i < k" for i using spec that by blast
    show "\<not> ?starts i" if "k \<le> i" "i < length (sps_pieces p)" for i
    proof -
      have "i < 0 + length (sps_pieces p)" using that(2) by simp
      with spec that(1) show ?thesis by blast
    qed
  qed
  have ne: "sps_pieces p \<noteq> []" using False assms(1) by (auto simp: part_wf_def)
  then have "pc_logical_offset (sps_pieces p ! 0) = 0"
    using assms(1) by (cases "sps_pieces p") (auto simp: part_wf_def)
  with k(3) [of 0] ne have pos: "k \<noteq> 0" by auto
  have inside: "k - 1 < length (sps_pieces p) \<and> pc_logical_offset (sps_pieces p ! (k - 1)) \<le> offset + 0 \<and>
      offset + 0 < pc_logical_offset (sps_pieces p ! (k - 1)) + pc_size (sps_pieces p ! (k - 1))"
  proof -
    have i: "k - 1 < length (sps_pieces p)" using k(1) pos by auto
    show ?thesis
    proof (cases "k = length (sps_pieces p)")
      case True
      with piece_end_le(3) [OF assms(1) i] k(2) [of "k - 1"] pos i False show ?thesis by auto
    next
      case less: False
      with piece_end_le(2) [OF assms(1) i] k(2) [of "k - 1"] k(3) [of k] k(1) pos i show ?thesis by auto
    qed
  qed
  have fits: "offset + ?requested \<le> sps_size p" using assms(3) by simp
  from part_read_loop_full [OF assms(1,2) fits _ inside] obtain result where
    run: "part_read_loop p offset ?requested (k - 1) 0 (replicate n 0) = Inr (?requested, result)" by blast
  have out: "take ?requested result = take ?requested (drop offset (part_octets content p))"
    using policy.part_read_loop_content [OF run assms(1,2) fits] by simp
  also have "\<dots> = take n (drop offset (part_octets content p))"
    using length_part_octets [OF assms(1)] by (cases "n \<le> sps_size p - offset") auto
  finally show ?thesis
    using run pos assms(3) False unfolding part_read_at_def Let_def k_def by auto
qed

end
