(* ===== verification/Flash_Decode.thy ===== *)
theory Flash_Decode
  imports Flash_Part
begin

text \<open>
  The octets of a part are a sparse image: the reader opens them, and the chunks it finds write what the fragments of
  the part write. The proof goes through a list of items, the chunks of an encoded image with their payloads.
\<close>

section \<open>Fields\<close>

lemma chunk_header_octets:
  "chunk_header type b n =
     [ucast type, ucast (drop_bit 8 type), 0, 0] @ fill_pattern (of_nat b) @ fill_pattern (of_nat (kChunkHeaderBytes + n))"
proof -
  have "replicate kChunkHeaderBytes (0 :: byte) = [0, 0, 0, 0, 0, 0, 0, 0, 0, 0, 0, 0]"
    by (simp add: kChunkHeaderBytes_def numeral_eq_Suc)
  moreover have "ucast (w AND 0xFF) = (ucast w :: byte)" for w :: u32
    unfolding low_octet by (intro bit_word_eqI) (auto simp: bit_simps)
  ultimately show ?thesis
    by (simp add: chunk_header_def write_u16_def write_u32_def fill_pattern_def Let_def)
qed

lemma sparse_file_header_octets:
  "sparse_file_header bs tb n =
     fill_pattern kAndroidSparseMagic @ [1, 0, 0, 0, 28, 0, 12, 0] @ fill_pattern (of_nat bs) @
     fill_pattern (of_nat tb) @ fill_pattern (of_nat n) @ [0, 0, 0, 0]"
proof -
  have "replicate kSparseHeaderBytes (0 :: byte) = replicate 12 0 @ replicate 12 0 @ [0, 0, 0, 0]"
    by (simp add: kSparseHeaderBytes_def numeral_eq_Suc)
  moreover have "replicate 12 (0 :: byte) = [0, 0, 0, 0, 0, 0, 0, 0, 0, 0, 0, 0]" by (simp add: numeral_eq_Suc)
  moreover have "ucast (w AND 0xFF) = (ucast w :: byte)" for w :: u32
    unfolding low_octet by (intro bit_word_eqI) (auto simp: bit_simps)
  ultimately show ?thesis
    by (simp add: sparse_file_header_def write_u16_def write_u32_def fill_pattern_def Let_def
        kAndroidSparseMajorVersion_def kSparseHeaderBytes_def kChunkHeaderBytes_def)
qed

lemma length_headers [simp]:
  "length (chunk_header type b n) = 12" "length (sparse_file_header bs tb n) = 28"
  by (simp_all add: chunk_header_octets sparse_file_header_octets)

lemma unat_narrow: "n \<le> u32_max \<Longrightarrow> unat (of_nat n :: u32) = n"
  by (simp add: unat_of_nat take_bit_nat_eq_self)

lemma chunk_header_fields:
  assumes "b \<le> u32_max" and "kChunkHeaderBytes + n \<le> u32_max"
  shows "read_u16 (chunk_header type b n) 0 = type"
    and "unat (read_u32 (chunk_header type b n) 4) = b"
    and "unat (read_u32 (chunk_header type b n) 8) = kChunkHeaderBytes + n"
proof -
  show "read_u16 (chunk_header type b n) 0 = type"
    by (auto simp: chunk_header_octets read_u16_def bit_simps intro!: bit_word_eqI)
  have "read_u32 (chunk_header type b n) 4 = of_nat b"
    by (rule read_u32_at) (simp_all add: chunk_header_octets)
  moreover have "read_u32 (chunk_header type b n) 8 = of_nat (kChunkHeaderBytes + n)"
    by (rule read_u32_at) (simp_all add: chunk_header_octets fill_pattern_def)
  ultimately show "unat (read_u32 (chunk_header type b n) 4) = b"
    and "unat (read_u32 (chunk_header type b n) 8) = kChunkHeaderBytes + n"
    using assms by (simp_all only: unat_narrow)
qed

section \<open>Items\<close>

record item =
  it_kind :: sparse_chunk_kind
  it_blocks :: nat
  it_payload :: "byte list"

definition type_of :: "sparse_chunk_kind \<Rightarrow> u16" where
  "type_of kind =
     (case kind of
        Chunk_raw \<Rightarrow> kSparseChunkRaw
      | Chunk_fill \<Rightarrow> kSparseChunkFill
      | Chunk_dont_care \<Rightarrow> kSparseChunkDontCare
      | Chunk_crc32 \<Rightarrow> kSparseChunkCrc32)"

definition encode_item :: "item \<Rightarrow> byte list" where
  "encode_item it = chunk_header (type_of (it_kind it)) (it_blocks it) (length (it_payload it)) @ it_payload it"

definition item_ok :: "nat \<Rightarrow> item \<Rightarrow> bool" where
  "item_ok bs it \<longleftrightarrow>
     0 < it_blocks it \<and> it_blocks it \<le> u32_max \<and> kChunkHeaderBytes + length (it_payload it) \<le> u32_max \<and>
     (case it_kind it of
        Chunk_raw \<Rightarrow> length (it_payload it) = it_blocks it * bs
      | Chunk_fill \<Rightarrow> length (it_payload it) = 4
      | Chunk_dont_care \<Rightarrow> it_payload it = []
      | Chunk_crc32 \<Rightarrow> False)"

text \<open>The chunk that the reader makes of an item at \<open>pos\<close> whose output starts at \<open>off\<close>.\<close>

definition item_chunk :: "nat \<Rightarrow> nat \<Rightarrow> nat \<Rightarrow> item \<Rightarrow> sparse_chunk" where
  "item_chunk bs pos off it =
     \<lparr>sc_kind = it_kind it, sc_block_count = it_blocks it, sc_input_offset = pos + kChunkHeaderSize,
      sc_output_offset = off, sc_output_size = it_blocks it * bs,
      sc_fill_value = (if it_kind it = Chunk_fill then Some (read_u32 (it_payload it) 0) else None),
      sc_checksum = None\<rparr>"

fun item_chunks :: "nat \<Rightarrow> nat \<Rightarrow> nat \<Rightarrow> item list \<Rightarrow> sparse_chunk list" where
  "item_chunks bs pos off [] = []"
| "item_chunks bs pos off (it # its) =
     item_chunk bs pos off it # item_chunks bs (pos + length (encode_item it)) (off + it_blocks it * bs) its"

lemma kind_of_type: "chunk_kind_of (type_of kind) = Some kind"
  by (cases kind) (simp_all add: chunk_kind_of_def type_of_def kSparseChunkRaw_def kSparseChunkFill_def
      kSparseChunkDontCare_def kSparseChunkCrc32_def)

lemma length_encode_item: "length (encode_item it) = kChunkHeaderSize + length (it_payload it)"
  by (simp add: encode_item_def kChunkHeaderSize_def)

lemma length_item_chunks [simp]: "length (item_chunks bs pos off its) = length its"
  by (induction its arbitrary: pos off) auto

lemma parse_payload_item:
  assumes "item_ok bs it" and "drop pos octets = encode_item it @ tail" and "pos \<le> length octets"
    and "length octets \<le> u64_max"
  shows "\<exists>u. parse_payload (policy_source octets full_reads) (length octets) never_stop pos (it_kind it)
           (pos + kChunkHeaderSize) (length (it_payload it)) (it_blocks it * bs) t =
         (Inr (if it_kind it = Chunk_fill then Some (read_u32 (it_payload it) 0) else None), u)"
proof (cases "it_kind it = Chunk_fill")
  case False
  with assms(1) show ?thesis
    by (cases "it_kind it") (auto simp: parse_payload_def item_ok_def preturn_def)
next
  case True
  with assms(1) have four: "length (it_payload it) = 4" by (simp add: item_ok_def)
  have "drop (pos + kChunkHeaderSize) octets = it_payload it @ tail"
    using arg_cong [OF assms(2), of "drop kChunkHeaderSize"]
    by (simp add: encode_item_def kChunkHeaderSize_def add.commute)
  moreover have "pos + kChunkHeaderSize + 4 \<le> length octets"
    using arg_cong [OF assms(2), of length] assms(3) four by (simp add: length_encode_item)
  ultimately show ?thesis
    using True four read_exact_full [of "[0, 0, 0, 0]" "pos + kChunkHeaderSize" octets kCancelledChunkTable t] assms(4)
    by (simp add: parse_payload_def pbind_def preturn_def)
qed

lemma checked_multiply_within:
  assumes "a * b \<le> u64_max"
  shows "checked_multiply a b = Some (a * b)"
proof (cases "a = 0")
  case False
  define limit where "limit = u64_max"
  with assms False have "b \<le> limit div a" by (metis div_le_mono nonzero_mult_div_cancel_left)
  then show ?thesis by (auto simp: checked_multiply_def limit_def)
qed (simp add: checked_multiply_def)

text \<open>One turn of the chunk loop at an item.\<close>

definition advance :: "nat \<Rightarrow> item \<Rightarrow> sparse_cursor \<Rightarrow> sparse_cursor" where
  "advance bs it cur =
     \<lparr>cur_input_offset = cur_input_offset cur + length (encode_item it),
      cur_output_offset = cur_output_offset cur + it_blocks it * bs,
      cur_produced_blocks = cur_produced_blocks cur + it_blocks it,
      cur_chunks = cur_chunks cur @ [item_chunk bs (cur_input_offset cur) (cur_output_offset cur) it],
      cur_indices = cur_indices cur @ [length (cur_chunks cur)]\<rparr>"

lemma parse_chunk_item:
  assumes "item_ok bs it" and "drop (cur_input_offset cur) octets = encode_item it @ tail"
    and "cur_input_offset cur \<le> length octets" and "length octets \<le> u64_max"
    and "sh_chunk_header_size h = kChunkHeaderSize" and "sh_block_size h = bs"
    and "cur_produced_blocks cur + it_blocks it \<le> sh_total_blocks h" and "sh_total_blocks h * bs \<le> u64_max"
    and "cur_output_offset cur = cur_produced_blocks cur * bs" and "sh_total_blocks h \<le> u32_max"
  shows "\<exists>u. parse_chunk (policy_source octets full_reads) (length octets) never_stop h (sh_total_blocks h * bs) cur t =
         (Inr (advance bs it cur), u)"
proof -
  let ?pos = "cur_input_offset cur" and ?n = "length (it_payload it)"
  let ?hd = "chunk_header (type_of (it_kind it)) (it_blocks it) ?n"
  have fits: "?pos + (kChunkHeaderSize + ?n) \<le> length octets"
    using arg_cong [OF assms(2), of length] assms(3) by (simp add: length_encode_item)
  have ok: "0 < it_blocks it" "it_blocks it \<le> u32_max" "kChunkHeaderBytes + ?n \<le> u32_max" "it_kind it \<noteq> Chunk_crc32"
    using assms(1) by (auto simp: item_ok_def)
  note fields = chunk_header_fields [OF ok(2,3), of "type_of (it_kind it)"]
  have raw: "read_exact (policy_source octets full_reads) (length octets) ?pos (replicate kChunkHeaderSize 0)
      never_stop kCancelledChunkTable t = (Inr ?hd, t + 3)"
    using read_exact_full [of "replicate kChunkHeaderSize 0" ?pos octets] fits assms(2,4)
    by (simp add: kChunkHeaderSize_def encode_item_def)
  have out: "cur_output_offset cur + it_blocks it * bs \<le> sh_total_blocks h * bs"
    using mult_le_mono1 [OF assms(7), of bs] by (simp add: assms(9) add_mult_distrib)
  obtain u where payload: "parse_payload (policy_source octets full_reads) (length octets) never_stop ?pos (it_kind it)
      (?pos + kChunkHeaderSize) ?n (it_blocks it * bs) (t + 3) =
      (Inr (if it_kind it = Chunk_fill then Some (read_u32 (it_payload it) 0) else None), u)"
    using parse_payload_item [OF assms(1-4)] by blast
  have sums: "checked_add ?pos (kChunkHeaderSize + ?n) = Some (?pos + (kChunkHeaderSize + ?n))"
    "checked_add ?pos kChunkHeaderSize = Some (?pos + kChunkHeaderSize)"
    "checked_add (cur_output_offset cur) (it_blocks it * bs) = Some (cur_output_offset cur + it_blocks it * bs)"
    "checked_add (cur_produced_blocks cur) (it_blocks it) = Some (cur_produced_blocks cur + it_blocks it)"
    "checked_multiply (it_blocks it) bs = Some (it_blocks it * bs)"
    using fits assms(4,7,8,10) out by (auto intro!: checked_add_within checked_multiply_within)
  have bytes: "kChunkHeaderBytes = kChunkHeaderSize" by (simp add: kChunkHeaderBytes_def kChunkHeaderSize_def)
  show ?thesis
    using fields raw out payload sums fits ok(1,4) assms(5-7)
    by (simp add: parse_chunk_def parse_data_chunk_def pbind_def preturn_def Let_def kind_of_type bytes advance_def
        length_encode_item item_chunk_def not_less [symmetric])
qed

section \<open>Opening encoded items\<close>

definition encode_items :: "item list \<Rightarrow> byte list" where
  "encode_items its = concat (map encode_item its)"

definition items_blocks :: "item list \<Rightarrow> nat" where
  "items_blocks its = sum_list (map it_blocks its)"

lemma encode_items_simps [simp]:
  "encode_items [] = []" "encode_items (it # its) = encode_item it @ encode_items its"
  "encode_items (its @ jts) = encode_items its @ encode_items jts"
  by (simp_all add: encode_items_def)

lemma items_blocks_simps [simp]:
  "items_blocks [] = 0" "items_blocks (it # its) = it_blocks it + items_blocks its"
  "items_blocks (its @ jts) = items_blocks its + items_blocks jts"
  by (simp_all add: items_blocks_def)

lemma parse_chunks_items:
  assumes "\<forall>it \<in> set its. item_ok bs it" and "drop (cur_input_offset cur) octets = encode_items its"
    and "cur_input_offset cur \<le> length octets" and "length octets \<le> u64_max"
    and "sh_chunk_header_size h = kChunkHeaderSize" and "sh_block_size h = bs"
    and "cur_produced_blocks cur + items_blocks its \<le> sh_total_blocks h" and "sh_total_blocks h * bs \<le> u64_max"
    and "cur_output_offset cur = cur_produced_blocks cur * bs" and "sh_total_blocks h \<le> u32_max"
  shows "\<exists>u. parse_chunks (policy_source octets full_reads) (length octets) never_stop h (sh_total_blocks h * bs)
           (length its) cur t = (Inr (fold (advance bs) its cur), u)"
  using assms
proof (induction its arbitrary: cur t)
  case (Cons it its)
  from Cons.prems(1,7) have it: "item_ok bs it" "cur_produced_blocks cur + it_blocks it \<le> sh_total_blocks h" by auto
  from Cons.prems(2) have at: "drop (cur_input_offset cur) octets = encode_item it @ encode_items its" by simp
  from parse_chunk_item [OF it(1) at Cons.prems(3-6) it(2) Cons.prems(8-10)] obtain u where
    one: "parse_chunk (policy_source octets full_reads) (length octets) never_stop h (sh_total_blocks h * bs) cur t =
      (Inr (advance bs it cur), u)" by blast
  have next_at: "drop (cur_input_offset (advance bs it cur)) octets = encode_items its"
    using arg_cong [OF at, of "drop (length (encode_item it))"] by (simp add: advance_def add.commute)
  have next_le: "cur_input_offset (advance bs it cur) \<le> length octets"
    using arg_cong [OF at, of length] Cons.prems(3) by (simp add: advance_def)
  have next_blocks: "cur_produced_blocks (advance bs it cur) + items_blocks its \<le> sh_total_blocks h"
    using Cons.prems(7) by (simp add: advance_def)
  have next_off: "cur_output_offset (advance bs it cur) = cur_produced_blocks (advance bs it cur) * bs"
    using Cons.prems(9) by (simp add: advance_def add_mult_distrib)
  from Cons.IH [OF _ next_at next_le Cons.prems(4-6) next_blocks Cons.prems(8) next_off Cons.prems(10), of u]
    Cons.prems(1) one show ?case by (auto simp: pbind_def)
qed (simp add: preturn_def)

lemma fold_advance:
  "cur_input_offset (fold (advance bs) its cur) = cur_input_offset cur + length (encode_items its) \<and>
   cur_output_offset (fold (advance bs) its cur) = cur_output_offset cur + items_blocks its * bs \<and>
   cur_produced_blocks (fold (advance bs) its cur) = cur_produced_blocks cur + items_blocks its \<and>
   cur_chunks (fold (advance bs) its cur) =
     cur_chunks cur @ item_chunks bs (cur_input_offset cur) (cur_output_offset cur) its"
  by (induction its arbitrary: cur) (simp_all add: advance_def add_mult_distrib)

lemma no_crc_items:
  "\<forall>it \<in> set its. item_ok bs it \<Longrightarrow> \<exists>u. has_crc_chunk never_stop (item_chunks bs pos off its) t = (Inr False, u)"
proof (induction its arbitrary: pos off t)
  case (Cons it its)
  then have "it_kind it \<noteq> Chunk_crc32" by (auto simp: item_ok_def)
  with Cons.IH [of "pos + length (encode_item it)" "off + it_blocks it * bs" "t + 1"] Cons.prems show ?case
    by (auto simp: pbind_def poll_def never_stop_def item_chunk_def)
qed (simp add: preturn_def)

lemma encode_items_headers: "length its * kChunkHeaderSize \<le> length (encode_items its)"
  by (induction its) (auto simp: length_encode_item)

definition items_header :: "nat \<Rightarrow> nat \<Rightarrow> nat \<Rightarrow> sparse_header" where
  "items_header bs tb n =
     \<lparr>sh_major_version = 1, sh_minor_version = 0, sh_file_header_size = 28, sh_chunk_header_size = 12,
      sh_block_size = bs, sh_total_blocks = tb, sh_total_chunks = n, sh_image_checksum = 0\<rparr>"

lemma parse_items_header:
  assumes "bs \<le> u32_max" and "tb \<le> u32_max" and "n \<le> u32_max"
  shows "parse_sparse_header (sparse_file_header bs tb n) = items_header bs tb n"
    and "read_u32 (sparse_file_header bs tb n) 0 = kAndroidSparseMagic"
proof -
  have "read_u32 (sparse_file_header bs tb n) 12 = of_nat bs" "read_u32 (sparse_file_header bs tb n) 16 = of_nat tb"
    "read_u32 (sparse_file_header bs tb n) 20 = of_nat n"
    by (rule read_u32_at; simp add: sparse_file_header_octets fill_pattern_def)+
  moreover have "read_u16 (sparse_file_header bs tb n) 4 = 1" "read_u16 (sparse_file_header bs tb n) 6 = 0"
    "read_u16 (sparse_file_header bs tb n) 8 = 28" "read_u16 (sparse_file_header bs tb n) 10 = 12"
    "read_u32 (sparse_file_header bs tb n) 24 = 0"
    by (simp_all add: sparse_file_header_octets fill_pattern_def read_u16_def read_u32_def)
  ultimately show "parse_sparse_header (sparse_file_header bs tb n) = items_header bs tb n"
    using assms by (simp add: parse_sparse_header_def items_header_def unat_narrow)
  show "read_u32 (sparse_file_header bs tb n) 0 = kAndroidSparseMagic"
    by (rule read_u32_at) (simp_all add: sparse_file_header_octets)
qed

lemma check_items_header:
  assumes "0 < bs" and "4 dvd bs" and "n \<le> kMaxSparseChunks" and "tb * bs \<le> u64_max"
    and "28 + n * kChunkHeaderSize \<le> size_octets"
  shows "check_sparse_header size_octets (items_header bs tb n) = Inr (tb * bs)"
proof -
  have "checked_multiply n 12 = Some (n * 12)"
    using assms(3) by (intro checked_multiply_within) (simp add: kMaxSparseChunks_def)
  moreover have "n \<le> chunks_max_size" using assms(3) by (simp add: kMaxSparseChunks_def chunks_max_size_def)
  moreover have "n * 12 \<le> size_octets - 28" "28 \<le> size_octets"
    using assms(5) by (simp_all add: kChunkHeaderSize_def)
  ultimately show ?thesis
    using assms checked_multiply_within [OF assms(4)]
    by (auto simp: check_sparse_header_def items_header_def kAndroidSparseMajorVersion_def kSparseHeaderSize_def
        kChunkHeaderSize_def dvd_eq_mod_eq_0)
qed

lemma open_items:
  assumes "octets = sparse_file_header bs tb (length its) @ encode_items its" and "\<forall>it \<in> set its. item_ok bs it"
    and "items_blocks its = tb" and "0 < bs" and "4 dvd bs" and "bs \<le> u32_max" and "tb \<le> u32_max"
    and "tb * bs \<le> u64_max" and "length its \<le> kMaxSparseChunks" and "length octets \<le> u64_max"
  shows "\<exists>img u. open_sparse_image (Some (policy_source octets full_reads)) never_stop t = (Inr img, u) \<and>
           si_chunks img = item_chunks bs 28 0 its \<and> si_output_size img = tb * bs \<and>
           si_header img = items_header bs tb (length its)"
proof -
  let ?src = "policy_source octets full_reads" and ?h = "items_header bs tb (length its)"
  have n: "length its \<le> u32_max" using assms(9) by (simp add: kMaxSparseChunks_def)
  have sz: "is_size ?src = length octets" by (simp add: policy_source_def)
  have long: "28 + length its * kChunkHeaderSize \<le> length octets"
    using encode_items_headers [of its] by (simp add: assms(1))
  have raw: "read_exact ?src (length octets) 0 (replicate kSparseHeaderSize 0) never_stop kCancelledFileHeader (t + 1) =
      (Inr (sparse_file_header bs tb (length its)), t + 4)"
    using read_exact_full [of "replicate kSparseHeaderSize 0" 0 octets kCancelledFileHeader "t + 1"] long assms(10)
    by (simp add: kSparseHeaderSize_def) (simp add: assms(1))
  have start: "drop (cur_input_offset (initial_cursor ?h)) octets = encode_items its"
    "cur_input_offset (initial_cursor ?h) \<le> length octets"
    by (simp_all add: initial_cursor_def items_header_def assms(1))
  obtain u where chunks: "parse_chunks ?src (length octets) never_stop ?h (tb * bs) (length its) (initial_cursor ?h)
      (t + 6) = (Inr (fold (advance bs) its (initial_cursor ?h)), u)"
    using parse_chunks_items [OF assms(2) start assms(10), of ?h "t + 6"] assms(3,7,8)
    by (auto simp: items_header_def initial_cursor_def kChunkHeaderSize_def)
  let ?cur = "fold (advance bs) its (initial_cursor ?h)"
  have cur: "cur_input_offset ?cur = length octets" "cur_output_offset ?cur = tb * bs" "cur_produced_blocks ?cur = tb"
    "cur_chunks ?cur = item_chunks bs 28 0 its"
    using fold_advance [of bs its "initial_cursor ?h"] assms(3)
    by (simp_all add: initial_cursor_def items_header_def assms(1))
  obtain v where crc: "has_crc_chunk never_stop (item_chunks bs 28 0 its) (Suc u) = (Inr False, v)"
    using no_crc_items [OF assms(2)] by blast
  have sums: "verify_checksums ?src (length octets) ?h (item_chunks bs 28 0 its) never_stop (Suc u) = (Inr (), v)"
    by (simp add: verify_checksums_def pbind_def crc preturn_def items_header_def)
  have h: "sh_total_chunks ?h = length its" "sh_total_blocks ?h = tb" by (simp_all add: items_header_def)
  show ?thesis
    using raw parse_items_header [OF assms(6,7) n] check_items_header [OF assms(4,5,9,8) long] chunks cur sums h
    by (simp add: open_sparse_image_def sz pbind_def poll_def never_stop_def preturn_def Let_def numeral_eq_Suc)
qed

section \<open>The items of a part\<close>

definition gap_items :: "nat \<Rightarrow> nat \<Rightarrow> item list" where
  "gap_items cursor block =
     (if cursor < block then [\<lparr>it_kind = Chunk_dont_care, it_blocks = block - cursor, it_payload = []\<rparr>] else [])"

definition fragment_item :: "byte list \<Rightarrow> nat \<Rightarrow> fragment \<Rightarrow> item" where
  "fragment_item content bs f =
     \<lparr>it_kind = fr_kind f, it_blocks = fr_block_count f,
      it_payload = (if fr_kind f = Chunk_fill then fill_pattern (fr_fill_value f) else fragment_bytes content bs f)\<rparr>"

fun part_items :: "byte list \<Rightarrow> nat \<Rightarrow> nat \<Rightarrow> nat \<Rightarrow> fragment list \<Rightarrow> item list" where
  "part_items content bs tb cursor [] = gap_items cursor tb"
| "part_items content bs tb cursor (f # fs) =
     gap_items cursor (fr_start_block f) @ fragment_item content bs f #
     part_items content bs tb (fragment_end_block f) fs"

lemma fragment_kind: "fragment_ok content bs tb f \<Longrightarrow> fr_kind f = Chunk_raw \<or> fr_kind f = Chunk_fill"
  by (auto simp: fragment_ok_def)

lemma encode_gap:
  "encode_items (gap_items cursor block) =
     (if block > cursor then chunk_header kSparseChunkDontCare (block - cursor) 0 else [])"
  by (simp add: gap_items_def encode_item_def type_of_def)

lemma encode_fragment_item:
  assumes "fragment_ok content bs tb f"
  shows "encode_fragment content bs cursor f =
         encode_items (gap_items cursor (fr_start_block f)) @ encode_item (fragment_item content bs f)"
  using fragment_kind [OF assms] length_fragment_bytes [OF assms]
  by (auto simp: encode_fragment_def encode_gap encode_item_def fragment_item_def type_of_def)

lemma encode_part_items:
  "fragments_ok content bs tb cursor fs \<Longrightarrow>
   encode_fragments content bs tb cursor fs = encode_items (part_items content bs tb cursor fs)"
  by (induction fs arbitrary: cursor) (auto simp: encode_gap encode_fragment_item)

lemma count_part_items:
  "foldl (\<lambda>(chunk_count, cursor) f.
     (chunk_count + (if fr_start_block f > cursor then 1 else 0) + 1, fragment_end_block f)) (n, cursor) fs =
   (n + length (part_items content bs tb cursor fs) - (if end_of cursor fs < tb then 1 else 0), end_of cursor fs)"
proof (induction fs arbitrary: n cursor)
  case (Cons f fs)
  have "end_of (fragment_end_block f) fs < tb \<Longrightarrow> 0 < length (part_items content bs tb (fragment_end_block f) fs)"
    by (induction fs arbitrary: f) (auto simp: gap_items_def)
  with Cons.IH show ?case by (auto simp: gap_items_def)
qed (simp add: gap_items_def)

lemma count_chunks_items: "count_chunks fs tb = length (part_items content bs tb 0 fs)"
proof -
  have "end_of cursor fs < tb \<Longrightarrow> 0 < length (part_items content bs tb cursor fs)" for cursor
    by (induction fs arbitrary: cursor) (auto simp: gap_items_def)
  then show ?thesis
    using count_part_items [where n = 0 and cursor = 0 and fs = fs and content = content and bs = bs and tb = tb]
    by (auto simp: count_chunks_def)
qed

lemma part_items_ok:
  assumes "fragments_ok content bs tb cursor fs" and "\<forall>f \<in> set fs. small_raw bs f" and "tb \<le> u32_max"
  shows "\<forall>it \<in> set (part_items content bs tb cursor fs). item_ok bs it"
  using assms
proof (induction fs arbitrary: cursor)
  case Nil
  then show ?case by (auto simp: gap_items_def item_ok_def kChunkHeaderBytes_def)
next
  case (Cons f fs)
  have f: "fragment_ok content bs tb f" using Cons.prems(1) by simp
  then have bound: "0 < fr_block_count f" "fr_start_block f + fr_block_count f \<le> tb"
    by (auto simp: fragment_ok_def fragment_end_block_def)
  have "item_ok bs (fragment_item content bs f)"
    using fragment_kind [OF f] length_fragment_bytes [OF f] Cons.prems(2,3) bound
    by (auto simp: item_ok_def fragment_item_def small_raw_def kChunkHeaderBytes_def)
  moreover have "\<forall>it \<in> set (gap_items cursor (fr_start_block f)). item_ok bs it"
    using bound Cons.prems(3) by (auto simp: gap_items_def item_ok_def kChunkHeaderBytes_def)
  ultimately show ?case using Cons.IH [of "fragment_end_block f"] Cons.prems by auto
qed

lemma part_items_blocks:
  "\<lbrakk>fragments_ok content bs tb cursor fs; cursor \<le> tb\<rbrakk> \<Longrightarrow>
   cursor + items_blocks (part_items content bs tb cursor fs) = tb"
proof (induction fs arbitrary: cursor)
  case (Cons f fs)
  from Cons.prems(1) have f: "fragment_end_block f \<le> tb" "cursor \<le> fr_start_block f" by (auto simp: fragment_ok_def)
  with Cons.IH [of "fragment_end_block f"] Cons.prems(1) show ?case
    by (auto simp: gap_items_def fragment_item_def fragment_end_block_def)
qed (simp add: gap_items_def)

section \<open>What the decoded chunks write\<close>

lemma flash_chunks_append:
  "flash_chunks octets (cs @ ds) dev = flash_chunks octets ds (flash_chunks octets cs dev)"
  by (simp add: flash_chunks_def)

lemma item_chunks_append:
  "item_chunks bs pos off (its @ jts) =
     item_chunks bs pos off its @
     item_chunks bs (pos + length (encode_items its)) (off + items_blocks its * bs) jts"
  by (induction its arbitrary: pos off) (auto simp: add_mult_distrib add.assoc)

lemma flash_gap: "flash_chunks octets (item_chunks bs pos off (gap_items cursor block)) dev = dev"
  by (simp add: gap_items_def flash_chunk_def item_chunk_def)

lemma flash_fragment_item:
  assumes "drop pos octets = encode_item (fragment_item content bs f) @ tail" and "fragment_ok content bs tb f"
  shows "flash_chunk octets (item_chunk bs pos (fr_start_block f * bs) (fragment_item content bs f)) dev =
         apply_fragment content bs f dev"
proof -
  let ?it = "fragment_item content bs f"
  have payload: "drop (pos + kChunkHeaderSize) octets = it_payload ?it @ tail"
    using arg_cong [OF assms(1), of "drop kChunkHeaderSize"]
    by (simp add: encode_item_def kChunkHeaderSize_def add.commute)
  have fill: "read_u32 (fill_pattern v) 0 = v" for v using read_u32_pattern [of "[]" v "[]"] by simp
  from fragment_kind [OF assms(2)] show ?thesis
  proof
    assume "fr_kind f = Chunk_raw"
    with payload length_fragment_bytes [OF assms(2)] show ?thesis
      by (simp add: flash_chunk_def item_chunk_def expand_chunk_def apply_fragment_def fragment_item_def)
  next
    assume "fr_kind f = Chunk_fill"
    then show ?thesis
      by (simp add: flash_chunk_def item_chunk_def expand_chunk_def apply_fragment_def fragment_item_def
          fragment_bytes_def fill)
  qed
qed

lemma flash_part_items:
  "\<lbrakk>fragments_ok content bs tb cursor fs; drop pos octets = encode_items (part_items content bs tb cursor fs)\<rbrakk> \<Longrightarrow>
   flash_chunks octets (item_chunks bs pos (cursor * bs) (part_items content bs tb cursor fs)) dev =
   apply_fragments content bs fs dev"
proof (induction fs arbitrary: cursor pos dev)
  case (Cons f fs)
  let ?gap = "gap_items cursor (fr_start_block f)" and ?it = "fragment_item content bs f"
  let ?pos = "pos + length (encode_items ?gap)"
  have f: "fragment_ok content bs tb f" "fragments_ok content bs tb (fragment_end_block f) fs"
    and le: "cursor \<le> fr_start_block f" using Cons.prems(1) by auto
  have at: "drop ?pos octets = encode_item ?it @ encode_items (part_items content bs tb (fragment_end_block f) fs)"
    using arg_cong [OF Cons.prems(2), of "drop (length (encode_items ?gap))"] by (simp add: add.commute)
  have rest: "drop (?pos + length (encode_item ?it)) octets =
      encode_items (part_items content bs tb (fragment_end_block f) fs)"
    using arg_cong [OF at, of "drop (length (encode_item ?it))"] by (simp add: add.commute)
  have off: "cursor * bs + items_blocks ?gap * bs = fr_start_block f * bs"
    using le by (simp add: gap_items_def flip: add_mult_distrib)
  have off': "fr_start_block f * bs + it_blocks ?it * bs = fragment_end_block f * bs"
    by (simp add: fragment_item_def fragment_end_block_def add_mult_distrib)
  show ?case
    using Cons.IH [OF f(2) rest] flash_fragment_item [OF at f(1)]
    by (simp add: item_chunks_append flash_chunks_append flash_gap off off')
qed (simp add: flash_gap)

text \<open>Flashing a payload: the reader opens it and its data chunks are written.\<close>

definition flash_payload :: "byte list \<Rightarrow> byte list \<Rightarrow> byte list option" where
  "flash_payload octets dev =
     (case fst (open_sparse_image (Some (policy_source octets full_reads)) never_stop 0) of
        Inl e \<Rightarrow> None
      | Inr img \<Rightarrow>
          if si_output_size img = length dev then Some (flash_chunks octets (si_chunks img) dev) else None)"

lemma flash_encoded_part:
  assumes "fragments_ok content bs tb 0 fs" and "\<forall>f \<in> set fs. small_raw bs f" and "0 < bs" and "4 dvd bs"
    and "bs \<le> u32_max" and "tb \<le> u32_max" and "tb * bs \<le> u64_max" and "length (encode_part content bs tb fs) \<le> u64_max"
    and "count_chunks fs tb \<le> kMaxSparseChunks" and "length dev = tb * bs"
  shows "flash_payload (encode_part content bs tb fs) dev = Some (apply_fragments content bs fs dev)"
proof -
  let ?its = "part_items content bs tb 0 fs" and ?octets = "encode_part content bs tb fs"
  have eq: "?octets = sparse_file_header bs tb (length ?its) @ encode_items ?its"
    by (simp add: encode_part_def encode_part_items [OF assms(1)] count_chunks_items [of fs tb content bs])
  have blocks: "items_blocks ?its = tb" using part_items_blocks [OF assms(1)] by simp
  have few: "length ?its \<le> kMaxSparseChunks" using assms(9) by (simp add: count_chunks_items [of fs tb content bs])
  from open_items [OF eq part_items_ok [OF assms(1,2,6)] blocks assms(3-7) few assms(8), of 0] obtain img u where
    run: "open_sparse_image (Some (policy_source ?octets full_reads)) never_stop 0 = (Inr img, u)"
      "si_chunks img = item_chunks bs 28 0 ?its" "si_output_size img = tb * bs"
    by blast
  have "drop 28 ?octets = encode_items ?its" by (simp add: eq)
  from flash_part_items [OF assms(1) this] run assms(10) show ?thesis by (simp add: flash_payload_def)
qed

end
