(* ===== verification/Flash_Correct.thy ===== *)
theory Flash_Correct
  imports Flash_Passes Flash_Part_Read Flash_Decode
begin

text \<open>
  Plans as a whole: the payloads of a plan, flashed one after the other, write to the device what the artifact itself
  expands to.
\<close>

section \<open>The header of an opened image\<close>

lemma open_sparse_image_header:
  assumes "open_sparse_image (Some source) stop t = (Inr img, t')"
  shows "4 dvd sh_block_size (si_header img) \<and> sh_block_size (si_header img) \<le> u32_max \<and>
         sh_total_blocks (si_header img) \<le> u32_max"
proof -
  from assms obtain raw declared where h: "si_header img = parse_sparse_header raw"
    and ok: "check_sparse_header (is_size source) (si_header img) = Inr declared"
    by (auto simp: open_sparse_image_def Let_def split: if_splits sum.splits)
  have narrow: "unat w \<le> u32_max" for w :: u32
    using unsigned_less [of w, where 'a = nat] by simp
  from ok have "sh_block_size (si_header img) mod 4 = 0"
    by (auto simp: check_sparse_header_def split: if_splits)
  then show ?thesis using narrow by (auto simp: h parse_sparse_header_def dvd_eq_mod_eq_0)
qed

lemma inspect_artifact_image:
  assumes "inspect_artifact (Some source) stop t = (Inr a, t')" and "fa_sparse_image a = Some img"
  shows "\<exists>u v. open_sparse_image (Some source) stop u = (Inr img, v)"
  using assms by (auto simp: inspect_artifact_def raw_artifact_def Let_def split: if_splits) blast

section \<open>The fragments of an artifact\<close>

text \<open>What flashing the artifact in one piece leaves on a device of its expanded size.\<close>

definition artifact_writes :: "byte list \<Rightarrow> flash_artifact \<Rightarrow> byte list \<Rightarrow> byte list" where
  "artifact_writes content a dev =
     (case fa_sparse_image a of None \<Rightarrow> content | Some img \<Rightarrow> flash_chunks content (si_chunks img) dev)"

definition planned :: "byte list \<Rightarrow> flash_artifact \<Rightarrow> fragment list \<Rightarrow> nat \<Rightarrow> nat \<Rightarrow> bool" where
  "planned content a fs bs tb \<longleftrightarrow>
     0 < bs \<and> 4 dvd bs \<and> bs \<le> u32_max \<and> tb \<le> u32_max \<and> tb * bs \<le> u64_max \<and> fa_expanded_size a = tb * bs \<and>
     fragments_ok content bs tb 0 fs \<and>
     (\<forall>dev. length dev = tb * bs \<longrightarrow> apply_fragments content bs fs dev = artifact_writes content a dev)"

lemma full_reads_serves: "serves_fully (policy_source content full_reads) content"
  by (simp add: serves_fully_def policy_source_def min_def)

context image_content
begin

lemma artifact_fragments_Inr:
  assumes "inspect_artifact (Some source) stop t = (Inr a, t')"
    and "artifact_fragments a stop' u = (Inr (fs, bs, tb), u')"
  shows "planned content a fs bs tb"
proof (cases "fa_sparse_image a")
  case None
  with inspect_artifact_Inr [OF assms(1)] have a: "fa_kind a = Artifact_raw" "fa_expanded_size a = length content"
    "fa_source a = source" by auto
  have bs: "bs = kRawResparseBlockSize" and tb: "tb = length content div kRawResparseBlockSize" "tb \<le> u32_max"
    and whole: "length content mod kRawResparseBlockSize = 0"
    and run: "raw_fragments_loop source stop' tb 0 (replicate kRawResparseBlockSize 0) [] u = (Inr fs, u')"
    using assms(2) a by (auto simp: artifact_fragments_def Let_def split: if_splits)
  have len: "length content = tb * kRawResparseBlockSize" using whole div_mult_mod_eq [of "length content" kRawResparseBlockSize] by (simp add: tb)
  have "tb * kRawResparseBlockSize \<le> u64_max" using tb(2) by (simp add: kRawResparseBlockSize_def)
  with raw_fragments_loop_Inr [OF run len] None a tb(2) len show ?thesis
    by (simp add: planned_def bs artifact_writes_def kRawResparseBlockSize_def)
next
  case (Some img)
  with inspect_artifact_Inr [OF assms(1)] have a: "fa_kind a = Artifact_android_sparse" "sparse_table_ok content img"
    "fa_expanded_size a = length (expand_chunks content (si_chunks img))" by auto
  from inspect_artifact_image [OF assms(1) Some] obtain v w where
    "open_sparse_image (Some source) stop v = (Inr img, w)" by blast
  note h = open_sparse_image_header [OF this]
  have bs: "bs = sh_block_size (si_header img)" and tb: "tb = sh_total_blocks (si_header img)"
    and run: "sparse_fragments_loop stop' (sh_block_size (si_header img)) (si_chunks img) [] u = (Inr fs, u')"
    using assms(2) a Some by (auto simp: artifact_fragments_def Let_def split: if_splits)
  have table: "\<forall>c \<in> set (si_chunks img). wf_chunk content (si_header img) c" "tiled_from 0 (si_chunks img)"
    "0 < bs" "chunks_size (si_chunks img) = tb * bs" "tb * bs \<le> u64_max"
    using a(2) tiled_tiled_from by (auto simp: sparse_table_ok_def bs tb)
  from sparse_fragments_loop_Inr [where b = 0, OF run table(1)] table h Some a(3) show ?thesis
    by (simp add: planned_def artifact_writes_def bs tb length_expand_chunks)
qed

section \<open>The payload of a part\<close>

lemma part_of_payload:
  assumes "part_of source bs tb part fs" and "fragments_ok content bs tb 0 fs" and "tb \<le> u32_max"
  shows "image_content (fp_source part) (encode_part content bs tb fs) \<and> (\<forall>f \<in> set fs. small_raw bs f) \<and>
         count_chunks fs tb \<le> u32_max \<and>
         (source = policy_source content full_reads \<longrightarrow>
            serves_fully (fp_source part) (encode_part content bs tb fs))"
proof -
  from assms(1) obtain stop t t' p where "create_part_source source bs tb fs stop t = (Inr p, t')"
    and part: "fp_source part = part_image_source p"
    by (auto simp: part_of_def build_part_def)
  from build_sparse_part_Inr [OF this(1) size_content assms(2,3)]
  have p: "part_wf content p" "sps_input p = source" "part_octets content p = encode_part content bs tb fs"
    "\<forall>f \<in> set fs. small_raw bs f" "count_chunks fs tb \<le> u32_max" by auto
  have "serves_fully (part_image_source p) (part_octets content p)" if "source = policy_source content full_reads"
    using part_read_at_full [OF p(1)] p(2) that length_part_octets [OF p(1)]
    by (simp add: serves_fully_def part_image_source_def)
  with part_source_content [OF p(1,2)] p show ?thesis by (simp add: part)
qed

end

section \<open>The payloads of a plan\<close>

definition flash_payloads :: "byte list list \<Rightarrow> byte list \<Rightarrow> byte list option" where
  "flash_payloads payloads dev = fold (\<lambda>octets d. Option.bind d (flash_payload octets)) payloads (Some dev)"

lemma flash_payloads_simps [simp]:
  "flash_payloads [] dev = Some dev"
  "flash_payload octets dev = Some dev' \<Longrightarrow> flash_payloads (octets # payloads) dev = flash_payloads payloads dev'"
  by (simp_all add: flash_payloads_def)

lemma flash_groups:
  assumes "\<forall>fs \<in> set groups. \<forall>f \<in> set fs. small_raw bs f" and "fragments_ok content bs tb c (concat groups)"
    and "0 < bs" and "4 dvd bs" and "bs \<le> u32_max" and "tb \<le> u32_max" and "tb * bs \<le> u64_max"
    and "\<forall>fs \<in> set groups. length (encode_part content bs tb fs) \<le> u64_max \<and> count_chunks fs tb \<le> kMaxSparseChunks"
    and "length dev = tb * bs"
  shows "flash_payloads (map (encode_part content bs tb) groups) dev =
         Some (apply_fragments content bs (concat groups) dev)"
  using assms
proof (induction groups arbitrary: c dev)
  case (Cons fs groups)
  have fs: "fragments_ok content bs tb 0 fs" "fragments_ok content bs tb (end_of c fs) (concat groups)"
    using Cons.prems(2) by (auto simp: fragments_ok_append intro: fragments_ok_mono)
  have one: "flash_payload (encode_part content bs tb fs) dev = Some (apply_fragments content bs fs dev)"
    using flash_encoded_part [OF fs(1) _ Cons.prems(3-7)] Cons.prems(1,8,9) by simp
  from Cons.IH [OF _ fs(2) Cons.prems(3-7) _ length_apply_fragments [OF fs(1) Cons.prems(9)]] Cons.prems(1,8) one
  show ?case by (simp add: apply_fragments_append)
qed simp

context image_content
begin

lemma parts_payloads:
  assumes "list_all2 (part_of source bs tb) parts groups" and "fragments_ok content bs tb c (concat groups)"
    and "tb \<le> u32_max"
  shows "list_all2 (\<lambda>part octets. image_content (fp_source part) octets \<and>
           (source = policy_source content full_reads \<longrightarrow> serves_fully (fp_source part) octets))
           parts (map (encode_part content bs tb) groups) \<and>
         (\<forall>fs \<in> set groups. (\<forall>f \<in> set fs. small_raw bs f) \<and> count_chunks fs tb \<le> u32_max)"
  using assms
proof (induction parts groups arbitrary: c rule: list_all2_induct)
  case (Cons part parts fs groups)
  have "fragments_ok content bs tb 0 fs" "fragments_ok content bs tb (end_of c fs) (concat groups)"
    using Cons.prems(1) by (auto simp: fragments_ok_append intro: fragments_ok_mono)
  with part_of_payload [OF Cons.hyps(1) _ assms(3)] Cons.IH assms(3) show ?case by auto
qed simp

lemma resparse_Inr:
  assumes "inspect_artifact (Some source) stop t = (Inr a, t')" and "resparse a limit stop' u = (Inr plan, u')"
  shows "\<exists>groups bs tb. planned content a (concat groups) bs tb \<and>
           list_all2 (part_of source bs tb) (sfp_parts plan) groups \<and>
           (\<forall>part \<in> set (sfp_parts plan). is_size (fp_source part) \<le> limit) \<and>
           sfp_transfer_size plan = sum_list (map (\<lambda>part. is_size (fp_source part)) (sfp_parts plan)) \<and>
           sfp_reparsed plan \<and> sfp_expanded_size plan = fa_expanded_size a"
proof -
  have src: "fa_source a = source" using inspect_artifact_Inr [OF assms(1)] by simp
  define s0 where "s0 = (\<lambda>bs tb. \<lparr>ser_input = source, ser_block_size = bs, ser_total_blocks = tb,
    ser_budget = limit - kAospResparseReservedOverhead, ser_limit = limit, ser_current = [], ser_parts = [],
    ser_total = 0\<rparr>)"
  define run where "run = (\<lambda>bs tb (seg :: segmentation). if seg_fragments seg = [] then add_empty_part stop' (s0 bs tb)
    else serialize_parts stop' (seg_fragments seg) (s0 bs tb))"
  have folded: "\<lparr>ser_input = source, ser_block_size = bs, ser_total_blocks = tb,
      ser_budget = limit - kAospResparseReservedOverhead, ser_limit = limit, ser_current = [], ser_parts = [],
      ser_total = 0\<rparr> = s0 bs tb"
    "(if seg_fragments seg = [] then add_empty_part stop' (s0 bs tb)
      else serialize_parts stop' (seg_fragments seg) (s0 bs tb)) = run bs tb seg" for bs tb seg
    by (simp_all add: s0_def run_def)
  from assms(2) [unfolded resparse_def Let_def src folded] obtain fs bs tb v seg w s where
    frs: "artifact_fragments a stop' u = (Inr (fs, bs, tb), v)"
    and seg: "segment_like_aosp_first_pass fs (limit - kAospResparseReservedOverhead) bs stop' v = (Inr seg, w)"
    and ser: "run bs tb seg w = (Inr s, u')"
    and plan: "plan = \<lparr>sfp_parts = ser_parts s, sfp_reparsed = True,
       sfp_expanded_size = fa_expanded_size a, sfp_transfer_size = ser_total s\<rparr>"
    by (auto split: if_splits)
  note p = artifact_fragments_Inr [OF assms(1) frs, unfolded planned_def]
  then have ok: "4 dvd bs" "tb \<le> u32_max" "fragments_ok content bs tb 0 fs" by auto
  note cut = first_pass_Inr [OF seg ok]
  have start: "serialized content fs (s0 bs tb) (seg_fragments seg)"
    using cut by (auto simp: serialized_def s0_def parts_from_def intro!: exI [of _ "[]"])
  have "serialized content fs s [] \<and> ser_current s = [] \<and> same_setup (s0 bs tb) s"
  proof (cases "seg_fragments seg = []")
    case False
    with serialize_parts_Inr [of stop' _ "s0 bs tb" w s u', OF _ _ start] ser ok(1,2) show ?thesis
      by (simp add: s0_def run_def)
  next
    case True
    with ser have "add_empty_part stop' (s0 bs tb) w = (Inr s, u')" by (simp add: run_def)
    moreover have "parts_from (s0 bs tb) []" by (simp add: parts_from_def s0_def)
    ultimately have "parts_from s ([] @ [[]]) \<and> same_setup (s0 bs tb) s \<and> ser_current s = ser_current (s0 bs tb)"
      by (rule add_empty_part_Inr)
    with start True show ?thesis
      by (auto simp: serialized_def same_setup_def s0_def parts_from_def intro!: exI [of _ "[[]]"])
  qed
  then obtain groups where g: "parts_from s groups" "fragments_ok content bs tb 0 (concat groups)"
      "same_writes content bs tb (concat groups) fs" "ser_input s = source" "ser_block_size s = bs"
      "ser_total_blocks s = tb" "ser_limit s = limit"
    by (auto simp: serialized_def same_setup_def s0_def)
  from p g(2,3) have "planned content a (concat groups) bs tb" by (auto simp: planned_def same_writes_def)
  with g show ?thesis by (intro exI [of _ groups] exI [of _ bs] exI [of _ tb]) (auto simp: parts_from_def plan)
qed

end

lemma create_plan_Inr:
  assumes "create_plan a target_limit host_limit stop u = (Inr plan, u')"
  shows "(sfp_reparsed plan \<longrightarrow> target_limit_of target_limit < fa_transfer_size a \<and>
            (\<exists>v. resparse a (min (target_limit_of target_limit) host_limit) stop v = (Inr plan, u'))) \<and>
         (\<not> sfp_reparsed plan \<longrightarrow> fa_transfer_size a \<le> target_limit_of target_limit \<and>
            map fp_source (sfp_parts plan) = [fa_source a] \<and> sfp_transfer_size plan = fa_transfer_size a \<and>
            sfp_expanded_size plan = fa_expanded_size a)"
proof -
  have "sfp_reparsed plan" if "resparse a n stop v = (Inr plan, u')" for n v
    using that by (auto simp: resparse_def Let_def split: if_splits)
  then show ?thesis using assms by (auto simp: create_plan_def Let_def split: if_splits)
qed

lemma declared_chunks:
  "n \<le> u32_max \<Longrightarrow> sh_total_chunks (parse_sparse_header (sparse_file_header bs tb n @ octets)) = n"
proof -
  assume n: "n \<le> u32_max"
  have "read_u32 (sparse_file_header bs tb n @ octets) 20 = of_nat n"
    by (rule read_u32_at [where ys = "[0, 0, 0, 0] @ octets"]) (simp_all add: sparse_file_header_octets fill_pattern_def)
  with n show ?thesis by (simp add: parse_sparse_header_def unat_narrow)
qed

lemma fragments_ok_group:
  "\<lbrakk>fragments_ok content bs tb c (concat groups); fs \<in> set groups\<rbrakk> \<Longrightarrow> fragments_ok content bs tb 0 fs"
  by (induction groups arbitrary: c) (auto simp: fragments_ok_append intro: fragments_ok_mono)

section \<open>Properties\<close>

text \<open>
  C6. A plan flashes the artifact. Whenever an artifact was inspected and a plan was made of it, from a source that may
  read short, fail or misreport and under any cancellation schedules, every part of the plan is a source of definite
  octets, its payload: reads of the part return octets of the payload and nothing else, and return all that was asked
  for when the backing source does. A plan without resparsing has the unchanged artifact as its only payload. A plan with
  resparsing has sparse payloads that the sparse reader accepts, provided none declares more chunks than the reader
  allows, and flashing them in order leaves on any device of the expanded size exactly what the artifact expands to: all
  of a raw image, and the data chunks of a sparse image over what the device held before.
\<close>

theorem create_plan_flashes_artifact:
  assumes "inspect_artifact (Some (policy_source content policy)) stop t = (Inr a, t')"
    and "create_plan a target_limit host_limit stop' u = (Inr plan, u')"
  shows "\<exists>payloads.
    list_all2 (\<lambda>part octets. image_content (fp_source part) octets \<and>
      (policy = full_reads \<longrightarrow> serves_fully (fp_source part) octets)) (sfp_parts plan) payloads \<and>
    (if sfp_reparsed plan then
       (\<forall>octets \<in> set payloads.
          kSparseHeaderBytes + sh_total_chunks (parse_sparse_header octets) * kChunkHeaderBytes \<le> length octets) \<and>
       (\<forall>dev. length dev = fa_expanded_size a \<longrightarrow>
          (\<forall>octets \<in> set payloads. sh_total_chunks (parse_sparse_header octets) \<le> kMaxSparseChunks) \<longrightarrow>
          flash_payloads payloads dev = Some (artifact_writes content a dev))
     else payloads = [content])"
proof (cases "sfp_reparsed plan")
  case False
  have "fa_source a = policy_source content policy" using policy.inspect_artifact_Inr [OF assms(1)] by simp
  with False create_plan_Inr [OF assms(2)] obtain part where
    "sfp_parts plan = [part]" "fp_source part = policy_source content policy" by auto
  with False full_reads_serves policy.image_content_axioms show ?thesis
    by (intro exI [of _ "[content]"]) auto
next
  case True
  let ?src = "policy_source content policy" and ?limit = "min (target_limit_of target_limit) host_limit"
  have small: "?limit \<le> u32_max" by (simp add: target_limit_of_def min_def)
  from True create_plan_Inr [OF assms(2)] obtain v where "resparse a ?limit stop' v = (Inr plan, u')" by blast
  from policy.resparse_Inr [OF assms(1) this] obtain groups bs tb where
    p: "planned content a (concat groups) bs tb" and parts: "list_all2 (part_of ?src bs tb) (sfp_parts plan) groups"
    and sized: "\<forall>part \<in> set (sfp_parts plan). is_size (fp_source part) \<le> ?limit"
    by blast
  let ?payloads = "map (encode_part content bs tb) groups"
  note q = p [unfolded planned_def]
  then have tb: "tb \<le> u32_max" and ok: "fragments_ok content bs tb 0 (concat groups)" by auto
  note pay = policy.parts_payloads [OF parts ok tb]
  have len: "length octets \<le> u64_max" if "octets \<in> set ?payloads" for octets
  proof -
    from pay that obtain part where "part \<in> set (sfp_parts plan)" "image_content (fp_source part) octets"
      by (auto simp: list_all2_conv_all_nth in_set_conv_nth) blast
    then have "length octets \<le> ?limit" using sized image_content.size_content by fastforce
    from le_trans [OF this small] show ?thesis by simp
  qed
  have declared: "kSparseHeaderBytes + sh_total_chunks (parse_sparse_header octets) * kChunkHeaderBytes \<le> length octets"
    if "octets \<in> set ?payloads" for octets
  proof -
    from that obtain fs where fs: "fs \<in> set groups" and octets: "octets = encode_part content bs tb fs" by auto
    have "fragments_ok content bs tb 0 fs" using ok fs fragments_ok_group by blast
    moreover have "count_chunks fs tb \<le> u32_max" using pay fs by blast
    ultimately show ?thesis
      using declared_chunks [of "count_chunks fs tb"] encode_items_headers [of "part_items content bs tb 0 fs"]
      by (simp add: octets encode_part_def encode_part_items count_chunks_items [of fs tb content bs]
          kSparseHeaderBytes_def kChunkHeaderBytes_def kChunkHeaderSize_def)
  qed
  have flash: "flash_payloads ?payloads dev = Some (artifact_writes content a dev)"
    if dev: "length dev = fa_expanded_size a"
      and few: "\<forall>octets \<in> set ?payloads. sh_total_chunks (parse_sparse_header octets) \<le> kMaxSparseChunks" for dev
  proof -
    have "count_chunks fs tb \<le> kMaxSparseChunks" if "fs \<in> set groups" for fs
      using few pay that declared_chunks [of "count_chunks fs tb" bs tb] by (auto simp: encode_part_def)
    with flash_groups [of groups bs content tb 0 dev] q pay len dev ok show ?thesis by auto
  qed
  have "policy = full_reads \<longrightarrow> ?src = policy_source content full_reads" by simp
  with pay have "list_all2 (\<lambda>part octets. image_content (fp_source part) octets \<and>
      (policy = full_reads \<longrightarrow> serves_fully (fp_source part) octets)) (sfp_parts plan) ?payloads"
    by (auto elim: list_all2_mono)
  with True flash declared show ?thesis by (intro exI [of _ ?payloads]) auto
qed

text \<open>
  C34. Every payload fits. An artifact is resparsed exactly when it is larger than the device accepts; then no part is
  larger than the limit of the device or of the host, otherwise the only part is the artifact itself and fits. The
  transfer size of the plan is the sum of the sizes of its parts, and its expanded size is that of the artifact.
\<close>

theorem create_plan_bounds:
  assumes "inspect_artifact (Some (policy_source content policy)) stop t = (Inr a, t')"
    and "create_plan a target_limit host_limit stop' u = (Inr plan, u')"
  shows "(sfp_reparsed plan \<longleftrightarrow> length content > target_limit_of target_limit) \<and>
         (\<forall>part \<in> set (sfp_parts plan). is_size (fp_source part) \<le> target_limit_of target_limit \<and>
            (sfp_reparsed plan \<longrightarrow> is_size (fp_source part) \<le> host_limit)) \<and>
         sfp_transfer_size plan = sum_list (map (\<lambda>part. is_size (fp_source part)) (sfp_parts plan)) \<and>
         sfp_expanded_size plan = fa_expanded_size a"
proof -
  have a: "fa_source a = policy_source content policy" "fa_transfer_size a = length content"
    using policy.inspect_artifact_Inr [OF assms(1)] by simp_all
  note plan = create_plan_Inr [OF assms(2)]
  show ?thesis
  proof (cases "sfp_reparsed plan")
    case False
    with plan a have "map fp_source (sfp_parts plan) = [policy_source content policy]"
      "length content \<le> target_limit_of target_limit" "sfp_transfer_size plan = length content"
      "sfp_expanded_size plan = fa_expanded_size a" by auto
    with False policy.size_content show ?thesis by (auto simp: map_eq_Cons_conv)
  next
    case True
    with plan obtain v where "resparse a (min (target_limit_of target_limit) host_limit) stop' v = (Inr plan, u')"
      by blast
    from policy.resparse_Inr [OF assms(1) this] True plan a show ?thesis by auto
  qed
qed

end
