(* ===== verification/Flash_Example.thy ===== *)
theory Flash_Example
  imports Flash_Correct
begin

text \<open>
  The planner on a small sparse image of one raw chunk of sixteen blocks, for a device that accepts 100 octets: it is cut
  into two parts of eight blocks and, as the second part ends with the image, an empty part behind them.
\<close>

section \<open>The image\<close>

definition example_item :: item where
  "example_item = \<lparr>it_kind = Chunk_raw, it_blocks = 16, it_payload = replicate 64 7\<rparr>"

definition example_image :: "byte list" where
  "example_image = sparse_file_header 4 16 1 @ encode_items [example_item]"

lemma length_example_image: "length example_image = 104"
  by (simp add: example_image_def length_encode_item example_item_def kChunkHeaderSize_def)

lemma example_open:
  "\<exists>img u. open_sparse_image (Some (policy_source example_image full_reads)) never_stop t = (Inr img, u) \<and>
     si_chunks img = item_chunks 4 28 0 [example_item] \<and> si_output_size img = 16 * 4 \<and>
     si_header img = items_header 4 16 (length [example_item])"
  by (rule open_items)
    (simp_all add: example_image_def example_item_def item_ok_def kChunkHeaderBytes_def kMaxSparseChunks_def
      length_encode_item kChunkHeaderSize_def)

lemma example_magic: "read_u32 (take 4 example_image) 0 = kAndroidSparseMagic"
proof -
  have "read_u32 (take 4 (drop 0 example_image)) 0 = read_u32 example_image 0" 
    by (rule read_u32_take_drop) (simp add: length_example_image)
  moreover have "read_u32 example_image 0 = kAndroidSparseMagic"
    by (rule read_u32_at) (simp_all add: example_image_def sparse_file_header_octets)
  ultimately show ?thesis by simp
qed

definition example_chunk :: sparse_chunk where
  "example_chunk = item_chunk 4 28 0 example_item"

lemma example_inspect:
  "\<exists>a u img. inspect_artifact (Some (policy_source example_image full_reads)) never_stop 0 = (Inr a, u) \<and>
     fa_source a = policy_source example_image full_reads \<and> fa_kind a = Artifact_android_sparse \<and>
     fa_transfer_size a = 104 \<and> fa_expanded_size a = 64 \<and> fa_sparse_image a = Some img \<and>
     si_chunks img = [example_chunk] \<and> sh_block_size (si_header img) = 4 \<and> sh_total_blocks (si_header img) = 16"
proof -
  let ?src = "policy_source example_image full_reads"
  obtain img u where img: "open_sparse_image (Some ?src) never_stop 4 = (Inr img, u)"
    "si_chunks img = [example_chunk]" "si_output_size img = 64" "si_header img = items_header 4 16 1"
    using example_open [of 4] by (auto simp: example_chunk_def)
  have four: "length [0, 0, 0, 0 :: byte] = 4" by simp
  have rd: "read_exact ?src 104 0 [0, 0, 0, 0] never_stop kCancelledArtifactInspection 1 =
      (Inr (take 4 example_image), 4)"
    using read_exact_full [of "[0, 0, 0, 0]" 0 example_image kCancelledArtifactInspection 1]
    unfolding four length_example_image by simp
  have sz: "is_size ?src = 104" by (simp add: policy_source_def length_example_image)
  show ?thesis
    using img rd example_magic
    by (simp add: inspect_artifact_def sz pbind_def poll_def never_stop_def preturn_def items_header_def)
qed

section \<open>The plan\<close>

lemma example_fragments:
  assumes "fa_kind a = Artifact_android_sparse" and "fa_sparse_image a = Some img" and "si_chunks img = [example_chunk]"
    and "sh_block_size (si_header img) = 4" and "sh_total_blocks (si_header img) = 16"
  shows "\<exists>u. artifact_fragments a never_stop t =
    (Inr ([\<lparr>fr_kind = Chunk_raw, fr_start_block = 0, fr_block_count = 16, fr_source_offset = 40, fr_fill_value = 0\<rparr>],
      4, 16), u)"
  using assms
  by (simp add: artifact_fragments_def pbind_def poll_def never_stop_def preturn_def example_chunk_def item_chunk_def
      example_item_def chunk_fragment_def append_merged_fragment_def kMaxPlannerFragments_def kMaxSparseChunks_def
      cast32_def plift_def kChunkHeaderSize_def)

definition half :: "nat \<Rightarrow> fragment" where
  "half i = \<lparr>fr_kind = Chunk_raw, fr_start_block = 8 * i, fr_block_count = 8, fr_source_offset = 40 + 32 * i,
             fr_fill_value = 0\<rparr>"

lemmas placing = candidate_size_def counter_bytes_for_fragment_def fragment_encoded_bytes_def fragment_data_bytes_def
  checked_add_def checked_multiply_def split_fragment_def take_prefix_def Let_def cast32_def fragment_end_block_def
  kChunkHeaderBytes_def kFillPayloadBytes_def half_def

lemmas stepping = pbind_def poll_def never_stop_def preturn_def plift_def

lemma example_first_pass:
  "\<exists>u. segment_like_aosp_first_pass
     [\<lparr>fr_kind = Chunk_raw, fr_start_block = 0, fr_block_count = 16, fr_source_offset = 40, fr_fill_value = 0\<rparr>] 44 4
     never_stop t = (Inr \<lparr>seg_fragments = [half 0, half 1], seg_part_count = 3\<rparr>, u)"
  by (simp add: segment_like_aosp_first_pass_def segment_parts.simps segment_break_def push_segment_def count_part_def
      finish_segmentation_def kMaxPlannerFragments_def kMaxSparseChunks_def placing stepping)

lemmas building = build_part_def create_part_source_def build_sparse_part_def count_chunks_def literal_headers_reserve_def
  literal_reserve_def append_literal_def append_piece_def append_source_def append_zero_def append_chunk_header_def
  append_fragment_def append_data_chunk_def cast64_def kSparseHeaderBytes_def part_image_source_def

lemma example_part:
  assumes "fs = [] \<or> fs = [half 0] \<or> fs = [half 1]"
  shows "\<exists>part u. build_part (policy_source example_image full_reads) fs 4 16 never_stop t = (Inr part, u) \<and>
    is_size (fp_source part) = (if fs = [] then 40 else 84)"
proof -
  have sz: "is_size (policy_source example_image full_reads) = 104"
    by (simp add: policy_source_def length_example_image)
  from assms show ?thesis
    by (elim disjE) (simp_all add: building placing stepping sz)
qed

definition example_setup :: serialization where
  "example_setup =
     \<lparr>ser_input = policy_source example_image full_reads, ser_block_size = 4, ser_total_blocks = 16, ser_budget = 44,
      ser_limit = 100, ser_current = [], ser_parts = [], ser_total = 0\<rparr>"

lemma example_serialize:
  "\<exists>s u. serialize_parts never_stop [half 0, half 1] example_setup t = (Inr s, u) \<and> length (ser_parts s) = 3 \<and>
     (\<forall>part \<in> set (ser_parts s). is_size (fp_source part) \<le> 100)"
proof -
  let ?src = "policy_source example_image full_reads"
  obtain part0 u0 where p0: "build_part ?src [half 0] 4 16 never_stop (Suc (Suc t)) = (Inr part0, u0)"
    "is_size (fp_source part0) = 84" using example_part [of "[half 0]"] by simp blast
  obtain part1 u1 where p1: "build_part ?src [half 1] 4 16 never_stop (Suc u0) = (Inr part1, u1)"
    "is_size (fp_source part1) = 84" using example_part [of "[half 1]"] by simp blast
  obtain part2 u2 where p2: "build_part ?src [] 4 16 never_stop u1 = (Inr part2, u2)"
    "is_size (fp_source part2) = 40" using example_part [of "[]"] by simp blast
  show ?thesis
    using p0 p1 p2 unfolding half_def
    by (simp add: serialize_parts.simps serialize_break_def push_current_def flush_def add_empty_part_def add_part_def
        example_setup_def placing stepping)
qed

lemma example_plan:
  assumes "fa_source a = policy_source example_image full_reads" and "fa_kind a = Artifact_android_sparse"
    and "fa_transfer_size a = 104" and "fa_sparse_image a = Some img" and "si_chunks img = [example_chunk]"
    and "sh_block_size (si_header img) = 4" and "sh_total_blocks (si_header img) = 16"
  shows "\<exists>plan u. create_plan a 100 kDefaultResparseLimitBytes never_stop t = (Inr plan, u) \<and>
    sfp_reparsed plan \<and> length (sfp_parts plan) = 3 \<and> (\<forall>part \<in> set (sfp_parts plan). is_size (fp_source part) \<le> 100)"
proof -
  obtain u0 where fr: "artifact_fragments a never_stop (Suc t) =
    (Inr ([\<lparr>fr_kind = Chunk_raw, fr_start_block = 0, fr_block_count = 16, fr_source_offset = 40, fr_fill_value = 0\<rparr>],
      4, 16), u0)" using example_fragments [OF assms(2,4-7)] by blast
  obtain u1 where seg: "segment_like_aosp_first_pass
     [\<lparr>fr_kind = Chunk_raw, fr_start_block = 0, fr_block_count = 16, fr_source_offset = 40, fr_fill_value = 0\<rparr>] 44 4
     never_stop u0 = (Inr \<lparr>seg_fragments = [half 0, half 1], seg_part_count = 3\<rparr>, u1)"
    using example_first_pass by blast
  obtain s u2 where ser: "serialize_parts never_stop [half 0, half 1] example_setup u1 = (Inr s, u2)"
    "length (ser_parts s) = 3" "\<forall>part \<in> set (ser_parts s). is_size (fp_source part) \<le> 100" using example_serialize by blast
  have limit: "target_limit_of 100 = 100" "min 100 kDefaultResparseLimitBytes = (100 :: nat)"
    "kDefaultResparseLimitBytes \<noteq> 0"
    by (simp_all add: target_limit_of_def kDefaultResparseLimitBytes_def)
  show ?thesis
    using fr seg ser assms(1,3)
    by (simp add: create_plan_def resparse_def limit kAospResparseReservedOverhead_def stepping
        example_setup_def Let_def)
qed

section \<open>The properties at the example\<close>

theorem create_plan_flashes_artifact_witness:
  "\<exists>a plan payloads.
     fst (inspect_artifact (Some (policy_source example_image full_reads)) never_stop 0) = Inr a \<and>
     fst (create_plan a 100 kDefaultResparseLimitBytes never_stop 0) = Inr plan \<and> sfp_reparsed plan \<and>
     length payloads = 3 \<and> list_all2 (\<lambda>part octets. serves_fully (fp_source part) octets) (sfp_parts plan) payloads \<and>
     flash_payloads payloads (replicate 64 0) = Some (artifact_writes example_image a (replicate 64 0))"
proof -
  obtain a u img where a: "inspect_artifact (Some (policy_source example_image full_reads)) never_stop 0 = (Inr a, u)"
    and facts: "fa_source a = policy_source example_image full_reads" "fa_kind a = Artifact_android_sparse"
     "fa_transfer_size a = 104" "fa_sparse_image a = Some img"
     "si_chunks img = [example_chunk]" "sh_block_size (si_header img) = 4" "sh_total_blocks (si_header img) = 16"
    and sz: "fa_expanded_size a = 64"
    using example_inspect by blast
  obtain plan v where p: "create_plan a 100 kDefaultResparseLimitBytes never_stop 0 = (Inr plan, v)"
    "sfp_reparsed plan" "length (sfp_parts plan) = 3" "\<forall>part \<in> set (sfp_parts plan). is_size (fp_source part) \<le> 100"
    using example_plan [OF facts] by blast
  from create_plan_flashes_artifact [OF a p(1)] p(2) obtain payloads where
    serves: "list_all2 (\<lambda>part octets. image_content (fp_source part) octets \<and> serves_fully (fp_source part) octets)
      (sfp_parts plan) payloads"
    and declared: "\<forall>octets \<in> set payloads.
      kSparseHeaderBytes + sh_total_chunks (parse_sparse_header octets) * kChunkHeaderBytes \<le> length octets"
    and flash: "\<forall>dev. length dev = fa_expanded_size a \<longrightarrow>
      (\<forall>octets \<in> set payloads. sh_total_chunks (parse_sparse_header octets) \<le> kMaxSparseChunks) \<longrightarrow>
      flash_payloads payloads dev = Some (artifact_writes example_image a dev)"
    by auto
  have "sh_total_chunks (parse_sparse_header octets) \<le> kMaxSparseChunks" if octets: "octets \<in> set payloads" for octets
  proof -
    from serves octets obtain part where part: "part \<in> set (sfp_parts plan)" "image_content (fp_source part) octets"
      by (auto simp: list_all2_conv_all_nth in_set_conv_nth) blast
    from image_content.size_content [OF part(2)] p(4) part(1) have "length octets \<le> 100" by auto
    moreover have "kSparseHeaderBytes + sh_total_chunks (parse_sparse_header octets) * kChunkHeaderBytes \<le> length octets"
      using declared octets by blast
    ultimately show ?thesis by (simp add: kChunkHeaderBytes_def kSparseHeaderBytes_def kMaxSparseChunks_def)
  qed
  with flash sz have flashed:
    "flash_payloads payloads (replicate 64 0) = Some (artifact_writes example_image a (replicate 64 0))"
    by simp
  have "list_all2 (\<lambda>part octets. serves_fully (fp_source part) octets) (sfp_parts plan) payloads"
    using serves by (rule list_all2_mono) simp
  moreover from list_all2_lengthD [OF this] p(3) have "length payloads = 3" by simp
  ultimately show ?thesis
    using flashed p a by (intro exI [of _ a] exI [of _ plan] exI [of _ payloads]) simp
qed

theorem create_plan_bounds_witness:
  "\<exists>a plan. fst (inspect_artifact (Some (policy_source example_image full_reads)) never_stop 0) = Inr a \<and>
     fst (create_plan a 100 kDefaultResparseLimitBytes never_stop 0) = Inr plan \<and> sfp_reparsed plan \<and>
     (\<forall>part \<in> set (sfp_parts plan). is_size (fp_source part) \<le> 100)"
proof -
  obtain a u img where a: "inspect_artifact (Some (policy_source example_image full_reads)) never_stop 0 = (Inr a, u)"
    and facts: "fa_source a = policy_source example_image full_reads" "fa_kind a = Artifact_android_sparse"
     "fa_transfer_size a = 104" "fa_sparse_image a = Some img"
     "si_chunks img = [example_chunk]" "sh_block_size (si_header img) = 4" "sh_total_blocks (si_header img) = 16"
    using example_inspect by blast
  obtain plan v where p: "create_plan a 100 kDefaultResparseLimitBytes never_stop 0 = (Inr plan, v)"
    "sfp_reparsed plan"
    using example_plan [OF facts] by blast
  from create_plan_bounds [OF a p(1)] have "\<forall>part \<in> set (sfp_parts plan). is_size (fp_source part) \<le> target_limit_of 100"
    by blast
  with p a show ?thesis by (auto simp: target_limit_of_def)
qed

end
