(* ===== verification/Boot_Image.thy ===== *)
theory Boot_Image
  imports Sparse_Source
begin

text \<open>
  The boot image builder of \<^verbatim>\<open>src/image/boot_image_builder.{hpp,cpp}\<close>: the encoded operating-system version, the header
  page of the five header versions, the page-aligned layout of the components, and the random-access source of the result.
  Component sources stay behind the pieces of a table; a null pointer is \<open>None\<close>.
\<close>

section \<open>Data\<close>

datatype boot_image_build_error_kind =
  Boot_invalid_argument | Boot_size_overflow | Boot_source | Boot_truncated | Boot_cancelled | Boot_allocation

record boot_image_build_error =
  bbe_kind :: boot_image_build_error_kind
  bbe_message :: string

definition boot_error :: "boot_image_build_error_kind \<Rightarrow> string \<Rightarrow> boot_image_build_error" where
  "boot_error kind message = \<lparr>bbe_kind = kind, bbe_message = message\<rparr>"

record boot_image_options =
  bo_command_line :: string
  bo_base :: u32
  bo_page_size :: u32
  bo_kernel_offset :: u32
  bo_ramdisk_offset :: u32
  bo_second_offset :: u32
  bo_tags_offset :: u32
  bo_header_version :: u32
  bo_os_version :: string
  bo_os_patch_level :: string
  bo_dtb_path :: string
  bo_dtb_offset :: u64
  bo_maximum_output_bytes :: nat

definition default_boot_options :: boot_image_options where
  "default_boot_options =
     \<lparr>bo_command_line = [], bo_base = 0x10000000, bo_page_size = 2048, bo_kernel_offset = 0x00008000,
      bo_ramdisk_offset = 0x01000000, bo_second_offset = 0x00F00000, bo_tags_offset = 0x00000100, bo_header_version = 0,
      bo_os_version = [], bo_os_patch_level = [], bo_dtb_path = [], bo_dtb_offset = 0x01100000,
      bo_maximum_output_bytes = 16 * 1024 * 1024 * 1024\<rparr>"

section \<open>Helpers\<close>

definition supported_page_size :: "u32 \<Rightarrow> bool" where
  "supported_page_size v \<longleftrightarrow> v = 2048 \<or> v = 4096 \<or> v = 8192 \<or> v = 16384"

definition align_up :: "nat \<Rightarrow> u32 \<Rightarrow> boot_image_build_error + nat" where
  "align_up v alignment =
     (let low = (ucast (alignment - 1) :: u64) in
      case checked_add v (unat low) of
        None \<Rightarrow> Inl (boot_error Boot_size_overflow ''boot image alignment overflows 64-bit size'')
      | Some adjusted \<Rightarrow> Inr (unat ((of_nat adjusted :: u64) AND NOT low)))"

definition boot_write_u32 :: "byte list \<Rightarrow> nat \<Rightarrow> u32 \<Rightarrow> byte list" where
  "boot_write_u32 bytes offset v =
     foldl (\<lambda>bytes index. bytes[offset + index := ucast (drop_bit (index * 8) v AND 0xFF)]) bytes [0..<4]"

definition boot_write_u64 :: "byte list \<Rightarrow> nat \<Rightarrow> u64 \<Rightarrow> byte list" where
  "boot_write_u64 bytes offset v =
     foldl (\<lambda>bytes index. bytes[offset + index := ucast (drop_bit (index * 8) v AND 0xFF)]) bytes [0..<8]"

definition parse_decimal :: "string \<Rightarrow> nat option" where
  "parse_decimal s =
     (if s = [] then None
      else case from_chars u32_max 10 s of (e, v, rest) \<Rightarrow> if e = Errc_ok \<and> rest = [] then Some v else None)"

definition kOsVersionMessage :: string where
  "kOsVersionMessage = ''boot OS version must be MAJOR[.MINOR[.PATCH]] with each component in [0, 127]''"

text \<open>
  The loop over the components of a version from \<open>cursor\<close> on. It returns the components and the cursor, which is behind
  the end of the string when the last component was read.
\<close>

function os_version_loop :: "string \<Rightarrow> nat \<Rightarrow> nat list \<Rightarrow> boot_image_build_error + nat list \<times> nat" where
  "os_version_loop s cursor parts =
     (if cursor \<le> length s \<and> length parts < 3 then
        let separator = find_char (CHR ''.'') s cursor;
            stop = (case separator of None \<Rightarrow> length s | Some i \<Rightarrow> i) in
        case parse_decimal (take (stop - cursor) (drop cursor s)) of
          None \<Rightarrow> Inl (boot_error Boot_invalid_argument kOsVersionMessage)
        | Some part \<Rightarrow>
            if part > 0x7F then Inl (boot_error Boot_invalid_argument kOsVersionMessage)
            else case separator of
              None \<Rightarrow> Inr (parts @ [part], length s + 1)
            | Some i \<Rightarrow> os_version_loop s (i + 1) (parts @ [part])
      else Inr (parts, cursor))"
  by pat_completeness auto
termination
  by (relation "measure (\<lambda>(s, cursor, parts). 3 - length parts)") auto

declare os_version_loop.simps [simp del]

text \<open>The array of three components, those that were not read being zero.\<close>

definition version_part :: "nat list \<Rightarrow> nat \<Rightarrow> u32" where
  "version_part parts i = (if i < length parts then of_nat (parts ! i) else 0)"

definition encode_os_version :: "string \<Rightarrow> boot_image_build_error + u32" where
  "encode_os_version s =
     (if s = [] then Inr 0
      else case os_version_loop s 0 [] of
        Inl e \<Rightarrow> Inl e
      | Inr (parts, cursor) \<Rightarrow>
          if cursor \<le> length s \<or> parts = [] then Inl (boot_error Boot_invalid_argument kOsVersionMessage)
          else Inr (push_bit 25 (version_part parts 0) OR push_bit 18 (version_part parts 1) OR
                    push_bit 11 (version_part parts 2)))"

definition leap_year :: "nat \<Rightarrow> bool" where
  "leap_year year \<longleftrightarrow> year mod 4 = 0 \<and> year mod 100 \<noteq> 0 \<or> year mod 400 = 0"

definition days_per_month :: "nat list" where
  "days_per_month = [31, 28, 31, 30, 31, 30, 31, 31, 30, 31, 30, 31]"

text \<open>
  When a number does not parse, \<^verbatim>\<open>std::from_chars\<close> leaves the variable at zero, but the result is an error in any case.
\<close>

definition encode_patch_level :: "string \<Rightarrow> boot_image_build_error + u32" where
  "encode_patch_level s =
     (if s = [] then Inr 0
      else if length s \<noteq> 10 \<or> s ! 4 \<noteq> CHR ''-'' \<or> s ! 7 \<noteq> CHR ''-'' then
        Inl (boot_error Boot_invalid_argument ''boot OS patch level must be YYYY-MM-DD'')
      else
        case (parse_decimal (take 4 s), parse_decimal (take 2 (drop 5 s)), parse_decimal (take 2 (drop 8 s))) of
          (Some year, Some month, Some day) \<Rightarrow>
            if year < 2000 \<or> year \<ge> 2128 \<or> month = 0 \<or> month > 12 then
              Inl (boot_error Boot_invalid_argument ''boot OS patch level is outside the encodable range'')
            else
              let maximum_day = (if month = 2 \<and> leap_year year then 29 else days_per_month ! (month - 1)) in
              if day = 0 \<or> day > maximum_day then
                Inl (boot_error Boot_invalid_argument ''boot OS patch level is not a valid calendar date'')
              else Inr (push_bit 4 (of_nat (year - 2000)) OR of_nat month)
        | _ \<Rightarrow> Inl (boot_error Boot_invalid_argument ''boot OS patch level is outside the encodable range''))"

section \<open>The source of a boot image\<close>

record boot_piece =
  bp_output_offset :: nat
  bp_size :: nat
  bp_source_offset :: nat
  bp_source :: "image_source option"
  bp_bytes :: "byte list option"
  bp_zero :: bool

record boot_image =
  bi_size :: nat
  bi_pieces :: "boot_piece list"

text \<open>
  What a piece stores for \<open>amount\<close> octets from \<open>within\<close> on. A piece has octets, a source, or is zero; the builder makes no
  other pieces, and the last branch stands for the null pointer of such a piece.
\<close>

definition boot_piece_read :: "boot_piece \<Rightarrow> nat \<Rightarrow> nat \<Rightarrow> string + (nat \<times> byte list)" where
  "boot_piece_read piece within amount =
     (if bp_zero piece then Inr (amount, replicate amount 0)
      else case bp_bytes piece of
        Some bytes \<Rightarrow> Inr (amount, take amount (drop within bytes))
      | None \<Rightarrow>
          (case bp_source piece of
             None \<Rightarrow> Inl ''null source''
           | Some source \<Rightarrow>
               (case is_read_at source (bp_source_offset piece + within) amount of
                  Inl message \<Rightarrow> Inl message
                | Inr (count, data) \<Rightarrow>
                    if count = 0 \<or> count > amount then Inl ''boot image payload violated its declared size''
                    else Inr (count, data))))"

lemma boot_piece_read_count:
  "\<lbrakk>boot_piece_read piece within amount = Inr (count, data); 0 < amount\<rbrakk> \<Longrightarrow> 0 < count \<and> count \<le> amount"
  by (auto simp: boot_piece_read_def split: if_splits option.splits sum.splits prod.splits)

definition piece_covers :: "nat \<Rightarrow> boot_piece \<Rightarrow> bool" where
  "piece_covers current piece \<longleftrightarrow>
     current \<ge> bp_output_offset piece \<and> current - bp_output_offset piece < bp_size piece"

function boot_read_loop ::
    "boot_piece list \<Rightarrow> nat \<Rightarrow> nat \<Rightarrow> nat \<Rightarrow> byte list \<Rightarrow> string + (nat \<times> byte list)" where
  "boot_read_loop pieces offset requested completed destination =
     (if completed < requested then
        let current = offset + completed in
        case find (piece_covers current) pieces of
          None \<Rightarrow> Inl ''boot image piece table has a gap''
        | Some found \<Rightarrow>
            let within = current - bp_output_offset found;
                amount = min (requested - completed) (bp_size found - within) in
            (case boot_piece_read found within amount of
               Inl message \<Rightarrow> Inl message
             | Inr (count, data) \<Rightarrow>
                 boot_read_loop pieces offset requested (completed + count) (write_span destination completed data))
      else Inr (completed, destination))"
  by pat_completeness auto
termination
proof (relation "measure (\<lambda>(pieces, offset, requested, completed, destination). requested - completed)", goal_cases)
  case (2 pieces offset requested completed destination current found within amount p count data)
  then have "0 < amount" using find_SomeD [OF 2(3)] by (auto simp: piece_covers_def)
  with 2 boot_piece_read_count [of found within amount count data] have "0 < count" by simp
  with 2(1) show ?case by simp
qed simp

declare boot_read_loop.simps [simp del]

definition boot_read_at :: "boot_image \<Rightarrow> nat \<Rightarrow> nat \<Rightarrow> string + (nat \<times> byte list)" where
  "boot_read_at img offset n =
     (if n = 0 \<or> offset \<ge> bi_size img then Inr (0, [])
      else
        let requested = min n (bi_size img - offset) in
        case boot_read_loop (bi_pieces img) offset requested 0 (replicate n 0) of
          Inl message \<Rightarrow> Inl message
        | Inr (count, destination) \<Rightarrow> Inr (count, take count destination))"

definition boot_image_source :: "boot_image \<Rightarrow> image_source" where
  "boot_image_source img = \<lparr>is_size = bi_size img, is_read_at = boot_read_at img\<rparr>"

section \<open>Building\<close>

definition v3_or_later :: "boot_image_options \<Rightarrow> bool" where
  "v3_or_later options \<longleftrightarrow> bo_header_version options \<ge> 3"

definition effective_page_size :: "boot_image_options \<Rightarrow> u32" where
  "effective_page_size options = (if v3_or_later options then 4096 else bo_page_size options)"

text \<open>The checks on kernel, version, page size and command line, and the encoded version field.\<close>

definition check_boot_request ::
    "image_source option \<Rightarrow> boot_image_options \<Rightarrow> (boot_image_build_error, u32) polled" where
  "check_boot_request krn options =
     pbind (pguard (case krn of None \<Rightarrow> False | Some source \<Rightarrow> is_size source \<noteq> 0)
       (boot_error Boot_invalid_argument ''boot image requires a non-empty kernel'')) (\<lambda>_.
     pbind (pguard (\<not> bo_header_version options > 4)
       (boot_error Boot_invalid_argument ''boot header version must be in [0, 4]'')) (\<lambda>_.
     pbind (pguard (v3_or_later options \<or> supported_page_size (effective_page_size options))
       (boot_error Boot_invalid_argument ''boot page size must be 2048, 4096, 8192, or 16384'')) (\<lambda>_.
     pbind (pguard (\<not> bo_maximum_output_bytes options < unat (effective_page_size options))
       (boot_error Boot_invalid_argument ''boot image output limit is smaller than its header page'')) (\<lambda>_.
     pbind (pguard (find_char (CHR 0x00) (bo_command_line options) 0 = None \<and>
         length (bo_command_line options) \<le> (if v3_or_later options then 1535 else 1534))
       (boot_error Boot_invalid_argument
         ''boot command line must be NUL-free and fit the selected header version'')) (\<lambda>_.
     pbind (plift (encode_os_version (bo_os_version options))) (\<lambda>encoded_version.
     pbind (plift (encode_patch_level (bo_os_patch_level options))) (\<lambda>encoded_patch.
       preturn (encoded_version OR encoded_patch))))))))"

definition legacy_options_default :: "boot_image_options \<Rightarrow> bool" where
  "legacy_options_default options \<longleftrightarrow>
     bo_base options = bo_base default_boot_options \<and>
     bo_page_size options = bo_page_size default_boot_options \<and>
     bo_kernel_offset options = bo_kernel_offset default_boot_options \<and>
     bo_ramdisk_offset options = bo_ramdisk_offset default_boot_options \<and>
     bo_second_offset options = bo_second_offset default_boot_options \<and>
     bo_tags_offset options = bo_tags_offset default_boot_options \<and>
     bo_dtb_offset options = bo_dtb_offset default_boot_options"

text \<open>The checks on what a header version supports.\<close>

definition check_boot_version ::
    "image_source option \<Rightarrow> image_source option \<Rightarrow> boot_image_options \<Rightarrow> (boot_image_build_error, unit) polled" where
  "check_boot_version second dtb options =
     pbind
       (if v3_or_later options then
          pbind (pguard (second = None)
            (boot_error Boot_invalid_argument ''boot header v3/v4 does not support a second-stage payload'')) (\<lambda>_.
          pbind (pguard (dtb = None \<and> bo_dtb_path options = [])
            (boot_error Boot_invalid_argument ''boot header v3/v4 does not support a DTB payload'')) (\<lambda>_.
          pguard (legacy_options_default options)
            (boot_error Boot_invalid_argument
              ''legacy address, page-size, and DTB-offset options are not applicable to boot header v3/v4'')))
        else if bo_header_version options \<noteq> 2 then
          pguard (dtb = None \<and> bo_dtb_path options = [])
            (boot_error Boot_invalid_argument ''a DTB payload is supported only by boot header v2'')
        else preturn ()) (\<lambda>_.
     pguard (case dtb of None \<Rightarrow> True | Some source \<Rightarrow> is_size source \<noteq> 0)
       (boot_error Boot_invalid_argument ''boot DTB payload must not be empty''))"

text \<open>The checks on the 32-bit size fields and on the load addresses.\<close>

definition check_boot_fields ::
    "image_source option list \<Rightarrow> boot_image_options \<Rightarrow> (boot_image_build_error, unit) polled" where
  "check_boot_fields components options =
     pbind (pguard (list_all (\<lambda>component. case component of None \<Rightarrow> True | Some source \<Rightarrow> is_size source \<le> u32_max) components)
       (boot_error Boot_size_overflow ''boot component exceeds its 32-bit size field'')) (\<lambda>_.
     if v3_or_later options then preturn ()
     else
       pbind (pguard (list_all (\<lambda>offset. \<not> offset > - 1 - bo_base options)
           [bo_kernel_offset options, bo_ramdisk_offset options, bo_second_offset options, bo_tags_offset options])
         (boot_error Boot_size_overflow ''boot base plus address offset exceeds UINT32_MAX'')) (\<lambda>_.
       pguard (\<not> (bo_header_version options = 2 \<and> bo_dtb_offset options > - 1 - ucast (bo_base options)))
         (boot_error Boot_size_overflow ''boot base plus DTB offset exceeds UINT64_MAX'')))"

primrec planned_boot_size ::
    "u32 \<Rightarrow> image_source option list \<Rightarrow> nat \<Rightarrow> boot_image_build_error + nat" where
  "planned_boot_size page_size [] planned_size = Inr planned_size"
| "planned_boot_size page_size (component # components) planned_size =
     (case (case component of None \<Rightarrow> Some planned_size | Some source \<Rightarrow> checked_add planned_size (is_size source)) of
        None \<Rightarrow> Inl (boot_error Boot_size_overflow ''boot image size overflows 64 bits'')
      | Some planned_size \<Rightarrow>
          (case align_up planned_size page_size of
             Inl e \<Rightarrow> Inl e
           | Inr aligned \<Rightarrow> planned_boot_size page_size components aligned))"

definition size_field :: "image_source option \<Rightarrow> u32" where
  "size_field component = (case component of None \<Rightarrow> 0 | Some source \<Rightarrow> of_nat (is_size source))"

definition boot_magic :: "byte list" where "boot_magic = string_bytes ''ANDROID!''"

definition boot_header_v3 ::
    "boot_image_options \<Rightarrow> image_source option \<Rightarrow> image_source option \<Rightarrow> u32 \<Rightarrow> byte list \<Rightarrow> byte list" where
  "boot_header_v3 options krn ramdisk os_version header =
     (let header = boot_write_u32 header 8 (size_field krn);
          header = boot_write_u32 header 12 (size_field ramdisk);
          header = boot_write_u32 header 16 os_version;
          header = boot_write_u32 header 20 1580;
          header = boot_write_u32 header 40 (bo_header_version options)
      in write_span header 44 (string_bytes (bo_command_line options)))"

definition legacy_fields ::
    "boot_image_options \<Rightarrow> image_source option \<Rightarrow> image_source option \<Rightarrow> image_source option \<Rightarrow> u32 \<Rightarrow> byte list \<Rightarrow>
     byte list" where
  "legacy_fields options krn ramdisk second os_version header =
     (let header = boot_write_u32 header 8 (size_field krn);
          header = boot_write_u32 header 12 (bo_base options + bo_kernel_offset options);
          header = boot_write_u32 header 16 (size_field ramdisk);
          header = boot_write_u32 header 20 (bo_base options + bo_ramdisk_offset options);
          header = boot_write_u32 header 24 (size_field second);
          header = boot_write_u32 header 28 (bo_base options + bo_second_offset options);
          header = boot_write_u32 header 32 (bo_base options + bo_tags_offset options);
          header = boot_write_u32 header 36 (effective_page_size options);
          header = boot_write_u32 header 40 (bo_header_version options);
          header = boot_write_u32 header 44 os_version
      in boot_write_u64 header 1652 (bo_dtb_offset options))"

definition legacy_command_line :: "boot_image_options \<Rightarrow> byte list \<Rightarrow> byte list" where
  "legacy_command_line options header =
     (let first_length = min 511 (length (bo_command_line options));
          header = write_span header 64 (take first_length (string_bytes (bo_command_line options)))
      in write_span header 608 (drop first_length (string_bytes (bo_command_line options))))"

definition legacy_version_fields :: "boot_image_options \<Rightarrow> image_source option \<Rightarrow> byte list \<Rightarrow> byte list" where
  "legacy_version_fields options dtb header =
     (if bo_header_version options = 1 then boot_write_u32 header 1644 1648
      else if bo_header_version options = 2 then
        boot_write_u64 (boot_write_u32 (boot_write_u32 header 1644 1660) 1648 (size_field dtb))
          1652 (ucast (bo_base options) + bo_dtb_offset options)
      else header)"

definition boot_header_legacy ::
    "boot_image_options \<Rightarrow> image_source option \<Rightarrow> image_source option \<Rightarrow> image_source option \<Rightarrow> image_source option \<Rightarrow>
     u32 \<Rightarrow> byte list \<Rightarrow> byte list" where
  "boot_header_legacy options krn ramdisk second dtb os_version header =
     legacy_version_fields options dtb
       (legacy_command_line options (legacy_fields options krn ramdisk second os_version header))"

definition boot_header ::
    "boot_image_options \<Rightarrow> image_source option \<Rightarrow> image_source option \<Rightarrow> image_source option \<Rightarrow> image_source option \<Rightarrow>
     u32 \<Rightarrow> byte list" where
  "boot_header options krn ramdisk second dtb os_version =
     (let header = write_span (replicate (unat (effective_page_size options)) 0) 0 boot_magic in
      if v3_or_later options then boot_header_v3 options krn ramdisk os_version header
      else boot_header_legacy options krn ramdisk second dtb os_version header)"

definition component_piece :: "nat \<Rightarrow> image_source \<Rightarrow> boot_piece" where
  "component_piece cursor source =
     \<lparr>bp_output_offset = cursor, bp_size = is_size source, bp_source_offset = 0, bp_source = Some source,
      bp_bytes = None, bp_zero = False\<rparr>"

definition padding_piece :: "nat \<Rightarrow> nat \<Rightarrow> boot_piece" where
  "padding_piece cursor bytes =
     \<lparr>bp_output_offset = cursor, bp_size = bytes, bp_source_offset = 0, bp_source = None, bp_bytes = None, bp_zero = True\<rparr>"

text \<open>The loop that appends the pieces of the components, with the padding behind each.\<close>

primrec append_components ::
    "u32 \<Rightarrow> image_source option list \<Rightarrow> nat \<Rightarrow> boot_piece list \<Rightarrow> boot_image_build_error + nat \<times> boot_piece list" where
  "append_components page_size [] cursor pieces = Inr (cursor, pieces)"
| "append_components page_size (component # components) cursor pieces =
     (case (case component of
              None \<Rightarrow> Some (cursor, pieces)
            | Some source \<Rightarrow>
                if is_size source \<noteq> 0 then
                  map_option (\<lambda>cursor'. (cursor', pieces @ [component_piece cursor source]))
                    (checked_add cursor (is_size source))
                else Some (cursor, pieces)) of
        None \<Rightarrow> Inl (boot_error Boot_size_overflow ''boot image size overflows 64 bits'')
      | Some (cursor, pieces) \<Rightarrow>
          (case align_up cursor page_size of
             Inl e \<Rightarrow> Inl e
           | Inr aligned \<Rightarrow>
               if aligned \<noteq> cursor then
                 append_components page_size components aligned (pieces @ [padding_piece cursor (aligned - cursor)])
               else append_components page_size components cursor pieces))"

definition header_piece :: "byte list \<Rightarrow> nat \<Rightarrow> boot_piece" where
  "header_piece header bytes =
     \<lparr>bp_output_offset = 0, bp_size = bytes, bp_source_offset = 0, bp_source = None, bp_bytes = Some header,
      bp_zero = False\<rparr>"

definition build_boot_image ::
    "image_source option \<Rightarrow> image_source option \<Rightarrow> image_source option \<Rightarrow> image_source option \<Rightarrow> boot_image_options \<Rightarrow>
     stop_token \<Rightarrow> (boot_image_build_error, boot_image) polled" where
  "build_boot_image krn ramdisk second dtb options stop =
     pbind (check_boot_request krn options) (\<lambda>os_version.
     pbind (check_boot_version second dtb options) (\<lambda>_.
     let components = [krn, ramdisk, second, dtb];
         page_size = effective_page_size options in
     pbind (check_boot_fields components options) (\<lambda>_.
     pbind (plift (planned_boot_size page_size components (unat page_size))) (\<lambda>planned_size.
     pbind (pguard (\<not> planned_size > bo_maximum_output_bytes options)
       (boot_error Boot_size_overflow ''legacy boot image exceeds the configured output limit'')) (\<lambda>_.
     pbind (poll stop (boot_error Boot_cancelled ''boot image construction was cancelled'')) (\<lambda>_.
     let header = boot_header options krn ramdisk second dtb os_version in
     pbind (plift (append_components page_size components (unat page_size) [header_piece header (unat page_size)]))
       (\<lambda>(cursor, pieces).
     pbind (pguard (cursor = planned_size)
       (boot_error Boot_size_overflow ''boot image plan changed during construction'')) (\<lambda>_.
       preturn \<lparr>bi_size = cursor, bi_pieces = pieces\<rparr>))))))))"

definition build_legacy_boot_image ::
    "image_source option \<Rightarrow> image_source option \<Rightarrow> image_source option \<Rightarrow> boot_image_options \<Rightarrow>
     stop_token \<Rightarrow> (boot_image_build_error, boot_image) polled" where
  "build_legacy_boot_image krn ramdisk second options stop =
     build_boot_image krn ramdisk second None options stop"

end
