(* ===== verification/Boot_Layout.thy ===== *)
theory Boot_Layout
  imports Boot_Image Word_Octets
begin

text \<open>
  What a built boot image holds: the header page, then every component padded to full pages. Reads of the image return
  these octets.
\<close>

section \<open>Alignment\<close>

lemma unat_and_not_mask: "unat (w AND NOT (mask k) :: u64) = unat w div 2 ^ k * 2 ^ k"
proof -
  have "unat (w AND NOT (mask k)) = push_bit k (drop_bit k (unat w))"
    by (rule bit_eqI) (auto simp: bit_simps dest: bit_imp_le_length)
  then show ?thesis by (simp add: push_bit_eq_mult drop_bit_eq_div)
qed

definition page_shift :: "u32 \<Rightarrow> nat" where
  "page_shift page = (if page = 2048 then 11 else if page = 4096 then 12 else if page = 8192 then 13 else 14)"

lemma page_mask:
  assumes "supported_page_size page"
  shows "(ucast (page - 1) :: u64) = mask (page_shift page)" and "unat page = 2 ^ page_shift page"
  using assms by (auto simp: supported_page_size_def page_shift_def mask_eq_exp_minus_1)

definition round_up :: "nat \<Rightarrow> nat \<Rightarrow> nat" where
  "round_up page n = (n + page - 1) div page * page"

lemma align_up_Inr:
  assumes "align_up v page = Inr a" and "supported_page_size page"
  shows "a = round_up (unat page) v"
proof -
  let ?k = "page_shift page"
  from assms obtain adjusted where "checked_add v (unat (mask ?k :: u64)) = Some adjusted"
    and a: "a = unat ((of_nat adjusted :: u64) AND NOT (mask ?k))"
    by (auto simp: align_up_def Let_def page_mask split: option.splits)
  then have "adjusted = v + unat (mask ?k :: u64)" "adjusted \<le> u64_max" by (auto simp: checked_add_Some)
  moreover have "unat (mask ?k :: u64) = 2 ^ ?k - 1"
    using assms(2) by (auto simp: page_shift_def mask_eq_exp_minus_1)
  moreover have "unat (of_nat adjusted :: u64) = adjusted"
    using calculation(2) by (simp add: unat_of_nat take_bit_nat_eq_self)
  moreover have "(1 :: nat) \<le> 2 ^ ?k" by simp
  ultimately have "unat (of_nat adjusted :: u64) = v + 2 ^ ?k - 1" by linarith
  then show ?thesis by (simp only: a unat_and_not_mask round_up_def page_mask(2) [OF assms(2)])
qed

lemma round_up_multiple:
  assumes "0 < page"
  shows "round_up page (m * page + n) = m * page + round_up page n"
    and "page dvd round_up page n" and "n \<le> round_up page n" and "round_up page n < n + page"
proof -
  show "round_up page (m * page + n) = m * page + round_up page n"
    using div_mult_self1 [of page "n + page - 1" m] assms by (simp add: round_up_def algebra_simps)
  show "page dvd round_up page n" by (simp add: round_up_def)
  have "(n + page - 1) mod page < page" using assms by simp
  with div_mult_mod_eq [of "n + page - 1" page] assms show "n \<le> round_up page n" "round_up page n < n + page"
    unfolding round_up_def by linarith+
qed

section \<open>The piece table\<close>

definition piece_holds :: "boot_piece \<Rightarrow> byte list \<Rightarrow> bool" where
  "piece_holds piece bs \<longleftrightarrow>
     length bs = bp_size piece \<and>
     (if bp_zero piece then bs = replicate (bp_size piece) 0
      else case bp_bytes piece of
        Some bytes \<Rightarrow> bytes = bs
      | None \<Rightarrow> bp_source_offset piece = 0 \<and> (\<exists>source. bp_source piece = Some source \<and> image_content source bs))"

definition piece_serves :: "boot_piece \<Rightarrow> byte list \<Rightarrow> bool" where
  "piece_serves piece bs \<longleftrightarrow> (\<forall>source. bp_source piece = Some source \<longrightarrow> serves_fully source bs)"

fun pieces_hold :: "nat \<Rightarrow> boot_piece list \<Rightarrow> byte list list \<Rightarrow> bool" where
  "pieces_hold off [] [] \<longleftrightarrow> True"
| "pieces_hold off (piece # pieces) (bs # bss) \<longleftrightarrow>
     bp_output_offset piece = off \<and> piece_holds piece bs \<and> pieces_hold (off + length bs) pieces bss"
| "pieces_hold off pieces bss \<longleftrightarrow> False"

lemma pieces_hold_append:
  "pieces_hold off pieces bss \<Longrightarrow>
   pieces_hold off (pieces @ pieces') (bss @ bss') \<longleftrightarrow> pieces_hold (off + length (concat bss)) pieces' bss'"
  by (induction off pieces bss rule: pieces_hold.induct) (auto simp: add.assoc)

lemma pieces_hold_length: "pieces_hold off pieces bss \<Longrightarrow> length pieces = length bss"
  by (induction off pieces bss rule: pieces_hold.induct) auto

lemma pieces_hold_start: "pieces_hold off pieces bss \<Longrightarrow> \<forall>piece \<in> set pieces. off \<le> bp_output_offset piece"
  by (induction off pieces bss rule: pieces_hold.induct) auto

text \<open>The piece that the search finds for a position holds the octets from that position on.\<close>

lemma found_piece:
  assumes "pieces_hold off pieces bss" and "find (piece_covers cur) pieces = Some piece"
  shows "\<exists>bs. (piece, bs) \<in> set (zip pieces bss) \<and> piece_holds piece bs \<and> off \<le> cur \<and>
     (\<forall>n. cur - bp_output_offset piece + n \<le> length bs \<longrightarrow>
        take n (drop (cur - off) (concat bss)) = take n (drop (cur - bp_output_offset piece) bs))"
  using assms
proof (induction off pieces bss rule: pieces_hold.induct)
  case (2 off first pieces bs bss)
  show ?case
  proof (cases "piece_covers cur first")
    case True
    with "2.prems" have "piece = first" by simp
    with "2.prems"(1) True show ?thesis by (auto simp: piece_covers_def)
  next
    case False
    with "2.prems" have rest: "pieces_hold (off + length bs) pieces bss" "find (piece_covers cur) pieces = Some piece"
      by auto
    from "2.IH" [OF rest] obtain bs' where bs': "(piece, bs') \<in> set (zip pieces bss)" "piece_holds piece bs'"
      "off + length bs \<le> cur"
      "\<And>n. cur - bp_output_offset piece + n \<le> length bs' \<Longrightarrow>
         take n (drop (cur - (off + length bs)) (concat bss)) = take n (drop (cur - bp_output_offset piece) bs')"
      by blast
    then show ?thesis by (intro exI [of _ bs']) (auto simp: diff_diff_left)
  qed
qed auto

lemma search_finds:
  "\<lbrakk>pieces_hold off pieces bss; off \<le> cur; cur < off + length (concat bss)\<rbrakk> \<Longrightarrow> find (piece_covers cur) pieces \<noteq> None"
proof (induction off pieces bss rule: pieces_hold.induct)
  case (2 off first pieces bs bss)
  then show ?case
    by (cases "cur < off + length bs") (auto simp: piece_covers_def piece_holds_def)
qed auto

lemma boot_piece_read_content:
  assumes "boot_piece_read piece within amount = Inr (count, data)" and "piece_holds piece bs" and "0 < amount"
    and "within + amount \<le> bp_size piece"
  shows "count \<le> length data \<and> take count data = take count (drop within bs)"
proof (cases "bp_zero piece \<or> bp_bytes piece \<noteq> None")
  case True
  with assms show ?thesis by (auto simp: boot_piece_read_def piece_holds_def drop_take split: if_splits)
next
  case False
  with assms(2) obtain source where s: "bp_source piece = Some source" "image_content source bs" "bp_source_offset piece = 0"
    by (auto simp: piece_holds_def)
  with assms(1) False have rd: "is_read_at source within amount = Inr (count, data)" and le: "count \<le> amount"
    by (auto simp: boot_piece_read_def split: outcome_splits)
  from image_content.read_content [OF s(2) rd le] show ?thesis by simp
qed

lemma boot_piece_read_full:
  assumes "piece_holds piece bs" and "piece_serves piece bs" and "0 < amount" and "within + amount \<le> bp_size piece"
  shows "\<exists>data. boot_piece_read piece within amount = Inr (amount, data)"
proof (cases "bp_zero piece \<or> bp_bytes piece \<noteq> None")
  case True
  then show ?thesis by (auto simp: boot_piece_read_def)
next
  case False
  with assms(1) obtain source where s: "bp_source piece = Some source" "bp_source_offset piece = 0" "length bs = bp_size piece"
    by (auto simp: piece_holds_def)
  with assms(2-4) have "is_read_at source within amount = Inr (amount, take amount (drop within bs))"
    by (auto simp: piece_serves_def serves_fully_def min_def)
  with False s assms(3) show ?thesis by (auto simp: boot_piece_read_def)
qed

section \<open>Reads\<close>

lemma boot_read_step:
  assumes "pieces_hold 0 pieces bss" and "completed < requested" and "offset + requested \<le> length (concat bss)"
  obtains found bs within amount where "(found, bs) \<in> set (zip pieces bss)" "piece_holds found bs"
    "0 < amount" "completed + amount \<le> requested" "within + amount \<le> bp_size found"
    "take amount (drop (offset + completed) (concat bss)) = take amount (drop within bs)"
    "\<And>destination. boot_read_loop pieces offset requested completed destination =
       (case boot_piece_read found within amount of
          Inl message \<Rightarrow> Inl message
        | Inr (count, data) \<Rightarrow>
            boot_read_loop pieces offset requested (completed + count) (write_span destination completed data))"
proof -
  let ?cur = "offset + completed"
  from search_finds [OF assms(1), of ?cur] assms(2,3) obtain found where
    f: "find (piece_covers ?cur) pieces = Some found" by fastforce
  then have cov: "piece_covers ?cur found" using find_SomeD by metis
  from found_piece [OF assms(1) f] obtain bs where bs: "(found, bs) \<in> set (zip pieces bss)" "piece_holds found bs"
    "\<And>n. ?cur - bp_output_offset found + n \<le> length bs \<Longrightarrow>
        take n (drop ?cur (concat bss)) = take n (drop (?cur - bp_output_offset found) bs)" by auto
  define within where "within = ?cur - bp_output_offset found"
  define amount where "amount = min (requested - completed) (bp_size found - within)"
  have am: "0 < amount" "completed + amount \<le> requested" "within + amount \<le> bp_size found"
    using assms(2) cov by (auto simp: amount_def within_def piece_covers_def)
  moreover have "boot_read_loop pieces offset requested completed destination =
       (case boot_piece_read found within amount of
          Inl message \<Rightarrow> Inl message
        | Inr (count, data) \<Rightarrow>
            boot_read_loop pieces offset requested (completed + count) (write_span destination completed data))" for destination
    using assms(2) f by (subst boot_read_loop.simps) (simp add: Let_def within_def amount_def)
  moreover have "take amount (drop ?cur (concat bss)) = take amount (drop within bs)"
    using bs(2) bs(3) [of amount] am(3) by (simp add: within_def piece_holds_def)
  ultimately show ?thesis using that bs(1,2) by blast
qed

lemma boot_read_loop_content:
  assumes "boot_read_loop pieces offset requested completed destination = Inr (count, result)"
    and "pieces_hold 0 pieces bss" and "offset + requested \<le> length (concat bss)"
    and "completed \<le> requested" and "requested \<le> length destination"
    and "take completed destination = take completed (drop offset (concat bss))"
  shows "count = requested \<and> requested \<le> length result \<and>
         take requested result = take requested (drop offset (concat bss))"
  using assms(1,4-6)
proof (induction "requested - completed" arbitrary: completed destination rule: less_induct)
  case less
  show ?case
  proof (cases "completed < requested")
    case False
    with less.prems show ?thesis by (simp add: boot_read_loop.simps)
  next
    case True
    from boot_read_step [OF assms(2) True assms(3)] obtain found bs within amount where
      f: "piece_holds found bs" "0 < amount" "completed + amount \<le> requested" "within + amount \<le> bp_size found"
      and slice: "take amount (drop (offset + completed) (concat bss)) = take amount (drop within bs)"
      and step: "boot_read_loop pieces offset requested completed destination =
       (case boot_piece_read found within amount of
          Inl message \<Rightarrow> Inl message
        | Inr (count, data) \<Rightarrow>
            boot_read_loop pieces offset requested (completed + count) (write_span destination completed data))"
      by metis
    with less.prems(1) obtain c data where rd: "boot_piece_read found within amount = Inr (c, data)"
      and rec: "boot_read_loop pieces offset requested (completed + c) (write_span destination completed data) =
        Inr (count, result)" by (auto split: sum.splits)
    note c = boot_piece_read_count [OF rd f(2)] and got = boot_piece_read_content [OF rd f(1,2,4)]
    have "take c (take amount (drop (offset + completed) (concat bss))) = take c (take amount (drop within bs))"
      by (simp only: slice)
    then have data: "take c data = take c (drop (offset + completed) (concat bss))"
      using c got by (simp add: min_absorb1)
    have "take (completed + c) (write_span destination completed data) = take (completed + c) (drop offset (concat bss))"
      using take_write_span [of c data completed destination] got data c f(3) less.prems(3,4)
      by (simp add: take_add [of completed c "drop offset _"] add.commute [of completed offset])
    moreover have "requested - (completed + c) < requested - completed" using c True by linarith
    ultimately show ?thesis using less.hyps [OF _ rec] c f(3) less.prems(3) by simp
  qed
qed

lemma boot_read_loop_full:
  assumes "pieces_hold 0 pieces bss" and "offset + requested \<le> length (concat bss)" and "completed \<le> requested"
    and "\<forall>(piece, bs) \<in> set (zip pieces bss). piece_serves piece bs"
  shows "\<exists>result. boot_read_loop pieces offset requested completed destination = Inr (requested, result)"
  using assms(3)
proof (induction "requested - completed" arbitrary: completed destination rule: less_induct)
  case less
  show ?case
  proof (cases "completed < requested")
    case False
    with less.prems show ?thesis by (simp add: boot_read_loop.simps)
  next
    case True
    from boot_read_step [OF assms(1) True assms(2)] obtain found bs within amount where
      f: "(found, bs) \<in> set (zip pieces bss)" "piece_holds found bs" "0 < amount" "completed + amount \<le> requested"
        "within + amount \<le> bp_size found"
      and step: "boot_read_loop pieces offset requested completed destination =
       (case boot_piece_read found within amount of
          Inl message \<Rightarrow> Inl message
        | Inr (count, data) \<Rightarrow>
            boot_read_loop pieces offset requested (completed + count) (write_span destination completed data))"
      by metis
    have "piece_serves found bs" using assms(4) f(1) by auto
    from boot_piece_read_full [OF f(2) this f(3,5)] obtain data where
      "boot_piece_read found within amount = Inr (amount, data)" by blast
    with step less.hyps [of "completed + amount"] f(3,4) True show ?thesis by simp
  qed
qed

lemma boot_source_content:
  assumes "pieces_hold 0 (bi_pieces img) bss" and "bi_size img = length (concat bss)"
  shows "image_content (boot_image_source img) (concat bss)"
    and "\<forall>(piece, bs) \<in> set (zip (bi_pieces img) bss). piece_serves piece bs \<Longrightarrow>
      serves_fully (boot_image_source img) (concat bss)"
proof -
  show "image_content (boot_image_source img) (concat bss)"
  proof
    show "is_size (boot_image_source img) = length (concat bss)" by (simp add: boot_image_source_def assms(2))
    fix offset n k data
    assume rd: "is_read_at (boot_image_source img) offset n = Inr (k, data)"
    let ?requested = "min n (bi_size img - offset)"
    from rd consider "k = 0" "data = []" | result where "offset < bi_size img"
      "boot_read_loop (bi_pieces img) offset ?requested 0 (replicate n 0) = Inr (k, result)" "data = take k result"
      by (auto simp: boot_image_source_def boot_read_at_def Let_def not_le split: outcome_splits)
    then show "k \<le> length data \<and> offset + k \<le> max offset (length (concat bss)) \<and>
        take k data = take k (drop offset (concat bss))"
    proof cases
      case 2
      have "offset + ?requested \<le> length (concat bss)" using 2(1) assms(2) by simp
      from boot_read_loop_content [OF 2(2) assms(1) this] 2 assms(2) show ?thesis by auto
    qed auto
  qed
  assume serves: "\<forall>(piece, bs) \<in> set (zip (bi_pieces img) bss). piece_serves piece bs"
  show "serves_fully (boot_image_source img) (concat bss)"
    unfolding serves_fully_def
  proof (intro allI impI)
    fix offset n assume le: "offset \<le> length (concat bss)"
    let ?requested = "min n (bi_size img - offset)"
    show "is_read_at (boot_image_source img) offset n =
        Inr (min n (length (concat bss) - offset), take n (drop offset (concat bss)))"
    proof (cases "n = 0 \<or> bi_size img \<le> offset")
      case True
      with le assms(2) show ?thesis by (auto simp: boot_image_source_def boot_read_at_def)
    next
      case False
      have fits: "offset + ?requested \<le> length (concat bss)" using False assms(2) by (auto simp: min_def)
      from boot_read_loop_full [OF assms(1) fits _ serves, of 0 "replicate n 0"] obtain result where
        run: "boot_read_loop (bi_pieces img) offset ?requested 0 (replicate n 0) = Inr (?requested, result)" by auto
      have "take ?requested result = take ?requested (drop offset (concat bss))"
        using boot_read_loop_content [OF run assms(1) fits] by simp
      also have "\<dots> = take n (drop offset (concat bss))"
        using assms(2) by (cases "n \<le> bi_size img - offset") auto
      finally show ?thesis
        using run False assms(2) by (simp add: boot_image_source_def boot_read_at_def)
    qed
  qed
qed

end
