(* ===== verification/Boot_Header.thy ===== *)
theory Boot_Header
  imports Boot_Layout
begin

text \<open>The fields of the header page, read back at the offsets of the boot header layouts.\<close>

section \<open>Writes of the header\<close>

definition octets64 :: "u64 \<Rightarrow> byte list" where
  "octets64 v = map (\<lambda>index. ucast (drop_bit (index * 8) v AND 0xFF)) [0..<8]"

lemma length_octets64 [simp]: "length (octets64 v) = 8"
  by (simp add: octets64_def)

lemma boot_write_u32_span:
  assumes "offset + 4 \<le> length bytes"
  shows "boot_write_u32 bytes offset v = write_span bytes offset (fill_pattern v)"
proof -
  have "map (\<lambda>index. ucast (drop_bit (index * 8) v AND 0xFF)) [0..<4] = fill_pattern v"
    by (simp add: upt_rec fill_pattern_def)
  with foldl_store_span [OF assms, of "\<lambda>index. ucast (drop_bit (index * 8) v AND 0xFF)"] show ?thesis
    by (simp only: boot_write_u32_def)
qed

lemma boot_write_u64_span:
  "offset + 8 \<le> length bytes \<Longrightarrow> boot_write_u64 bytes offset v = write_span bytes offset (octets64 v)"
  by (simp only: boot_write_u64_def octets64_def foldl_store_span)

lemma window_write_span:
  assumes "start + m \<le> length buffer" and "length data \<le> m"
  shows "take m (drop start (write_span buffer start data)) = data @ drop (length data) (take m (drop start buffer))"
  using assms by (simp add: write_span_def drop_take add.commute)

lemma window_replicate: "take m (drop k (replicate n x)) = replicate (min m (n - k)) x"
  by simp

text \<open>A string that ends with the first zero of a window.\<close>

definition c_string :: "byte list \<Rightarrow> nat \<Rightarrow> nat \<Rightarrow> byte list" where
  "c_string bytes start m = takeWhile (\<lambda>b. b \<noteq> 0) (take m (drop start bytes))"

lemma c_string_written:
  assumes "take m (drop start bytes) = data @ replicate (m - length data) 0" and "0 \<notin> set data"
  shows "c_string bytes start m = data"
  using assms by (auto simp: c_string_def takeWhile_append intro: takeWhile_eq_all_conv [THEN iffD2])

section \<open>The fields\<close>

lemmas header_spans = boot_write_u32_span boot_write_u64_span read_u32_write_span_same read_u32_write_span_other
  take_drop_write_span_other window_write_span

definition zero_page :: "boot_image_options \<Rightarrow> byte list" where
  "zero_page options = write_span (replicate (unat (effective_page_size options)) 0) 0 boot_magic"

lemma length_boot_magic [simp]: "length boot_magic = 8"
  by (simp add: boot_magic_def)

lemma zero_page_facts:
  assumes "2048 \<le> unat (effective_page_size options)"
  shows "length (zero_page options) = unat (effective_page_size options)" and "take 8 (zero_page options) = boot_magic"
    and "8 \<le> k \<Longrightarrow> k + m \<le> unat (effective_page_size options) \<Longrightarrow> take m (drop k (zero_page options)) = replicate m 0"
  using assms take_drop_write_span_same [of 0 boot_magic "replicate (unat (effective_page_size options)) 0"]
  by (simp_all add: zero_page_def take_drop_write_span_other)

lemma boot_header_v3_fields:
  assumes "length header = page" and "4096 \<le> page" and "length (bo_command_line options) \<le> 1535"
    and "\<And>k m. 8 \<le> k \<Longrightarrow> k + m \<le> page \<Longrightarrow> take m (drop k header) = replicate m 0"
    and h: "h = boot_header_v3 options krn ramdisk os_version header"
  shows "length h = page" and "take 8 h = take 8 header"
    and "read_u32 h 8 = size_field krn" and "read_u32 h 12 = size_field ramdisk"
    and "read_u32 h 16 = os_version" and "read_u32 h 20 = 1580" and "read_u32 h 40 = bo_header_version options"
    and "take 1536 (drop 44 h) =
      string_bytes (bo_command_line options) @ replicate (1536 - length (bo_command_line options)) 0"
  using assms(1-4) take_drop_write_span_other [where k = 0 and n = 8]
  by (simp_all add: h boot_header_v3_def Let_def header_spans)

text \<open>The three groups of writes of the older layout: the last two leave the fields of the first alone.\<close>

lemma legacy_fields_read:
  assumes "length header = page" and "2048 \<le> page"
    and h: "h = legacy_fields options krn ramdisk second os_version header"
  shows "length h = page" and "take 8 h = take 8 header"
    and "read_u32 h 8 = size_field krn" and "read_u32 h 12 = bo_base options + bo_kernel_offset options"
    and "read_u32 h 16 = size_field ramdisk" and "read_u32 h 20 = bo_base options + bo_ramdisk_offset options"
    and "read_u32 h 24 = size_field second" and "read_u32 h 28 = bo_base options + bo_second_offset options"
    and "read_u32 h 32 = bo_base options + bo_tags_offset options" and "read_u32 h 36 = effective_page_size options"
    and "read_u32 h 40 = bo_header_version options" and "read_u32 h 44 = os_version"
    and "48 \<le> k \<Longrightarrow> k + m \<le> 1652 \<Longrightarrow> take m (drop k h) = take m (drop k header)"
  using assms(1,2) take_drop_write_span_other [where k = 0 and n = 8]
  by (simp_all add: h legacy_fields_def Let_def header_spans)

lemma legacy_command_line_read:
  assumes "length header = page" and "2048 \<le> page" and "length (bo_command_line options) \<le> 1534"
    and "take 512 (drop 64 header) = replicate 512 0" and "take 1024 (drop 608 header) = replicate 1024 0"
    and h: "h = legacy_command_line options header" and cmd: "cmd = string_bytes (bo_command_line options)"
  shows "length h = page" and "take 8 h = take 8 header" and "k + 4 \<le> 64 \<Longrightarrow> read_u32 h k = read_u32 header k"
    and "take 512 (drop 64 h) = take 511 cmd @ replicate (512 - length (take 511 cmd)) 0"
    and "take 1024 (drop 608 h) = drop 511 cmd @ replicate (1024 - length (drop 511 cmd)) 0"
proof -
  have parts: "take (min 511 (length (bo_command_line options))) cmd = take 511 cmd"
    "drop (min 511 (length (bo_command_line options))) cmd = drop 511 cmd"
    by (simp_all add: cmd min_def)
  have h': "h = write_span (write_span header 64 (take 511 cmd)) 608 (drop 511 cmd)"
    unfolding h legacy_command_line_def Let_def cmd [symmetric] parts ..
  have len: "length cmd \<le> 1534" using assms(3) by (simp add: cmd)
  show "length h = page" "take 8 h = take 8 header" "k + 4 \<le> 64 \<Longrightarrow> read_u32 h k = read_u32 header k"
    using assms(1,2) len take_drop_write_span_other [where k = 0 and n = 8]
    by (simp_all add: h' read_u32_write_span_other)
  show "take 512 (drop 64 h) = take 511 cmd @ replicate (512 - length (take 511 cmd)) 0"
    using assms(1,2,4) len by (simp add: h' take_drop_write_span_other window_write_span)
  show "take 1024 (drop 608 h) = drop 511 cmd @ replicate (1024 - length (drop 511 cmd)) 0"
    using assms(1,2,5) len by (simp add: h' take_drop_write_span_other window_write_span)
qed

lemma legacy_version_fields_read:
  assumes "length header = page" and "2048 \<le> page" and h: "h = legacy_version_fields options dtb header"
  shows "length h = page" and "take 8 h = take 8 header" and "k + 4 \<le> 1644 \<Longrightarrow> read_u32 h k = read_u32 header k"
    and "k + m \<le> 1644 \<Longrightarrow> take m (drop k h) = take m (drop k header)"
    and "bo_header_version options = 2 \<Longrightarrow> read_u32 h 1648 = size_field dtb"
  using assms(1,2) take_drop_write_span_other [where k = 0 and n = 8]
  by (simp_all add: h legacy_version_fields_def header_spans)

lemma boot_header_legacy_fields:
  assumes "length header = page" and "2048 \<le> page" and "length (bo_command_line options) \<le> 1534"
    and "\<And>k m. 8 \<le> k \<Longrightarrow> k + m \<le> page \<Longrightarrow> take m (drop k header) = replicate m 0"
    and h: "h = boot_header_legacy options krn ramdisk second dtb os_version header"
    and cmd: "cmd = string_bytes (bo_command_line options)"
  shows "length h = page" and "take 8 h = take 8 header"
    and "read_u32 h 8 = size_field krn" and "read_u32 h 12 = bo_base options + bo_kernel_offset options"
    and "read_u32 h 16 = size_field ramdisk" and "read_u32 h 20 = bo_base options + bo_ramdisk_offset options"
    and "read_u32 h 24 = size_field second" and "read_u32 h 28 = bo_base options + bo_second_offset options"
    and "read_u32 h 32 = bo_base options + bo_tags_offset options" and "read_u32 h 36 = effective_page_size options"
    and "read_u32 h 40 = bo_header_version options" and "read_u32 h 44 = os_version"
    and "bo_header_version options = 2 \<Longrightarrow> read_u32 h 1648 = size_field dtb"
    and "take 512 (drop 64 h) = take 511 cmd @ replicate (512 - length (take 511 cmd)) 0"
    and "take 1024 (drop 608 h) = drop 511 cmd @ replicate (1024 - length (drop 511 cmd)) 0"
proof -
  define h1 where "h1 = legacy_fields options krn ramdisk second os_version header"
  define h2 where "h2 = legacy_command_line options h1"
  have h3: "h = legacy_version_fields options dtb h2" by (simp add: h boot_header_legacy_def h1_def h2_def)
  note r1 = legacy_fields_read [OF assms(1,2) h1_def]
  have zero: "take 512 (drop 64 h1) = replicate 512 0" "take 1024 (drop 608 h1) = replicate 1024 0"
    using r1(13) assms(2,4) by simp_all
  note r2 = legacy_command_line_read [OF r1(1) assms(2,3) zero h2_def cmd]
  note r3 = legacy_version_fields_read [OF r2(1) assms(2) h3]
  show "length h = page" "take 8 h = take 8 header"
    "read_u32 h 8 = size_field krn" "read_u32 h 12 = bo_base options + bo_kernel_offset options"
    "read_u32 h 16 = size_field ramdisk" "read_u32 h 20 = bo_base options + bo_ramdisk_offset options"
    "read_u32 h 24 = size_field second" "read_u32 h 28 = bo_base options + bo_second_offset options"
    "read_u32 h 32 = bo_base options + bo_tags_offset options" "read_u32 h 36 = effective_page_size options"
    "read_u32 h 40 = bo_header_version options" "read_u32 h 44 = os_version"
    "bo_header_version options = 2 \<Longrightarrow> read_u32 h 1648 = size_field dtb"
    "take 512 (drop 64 h) = take 511 cmd @ replicate (512 - length (take 511 cmd)) 0"
    "take 1024 (drop 608 h) = drop 511 cmd @ replicate (1024 - length (drop 511 cmd)) 0"
    by (simp_all only: r1 r2 r3; simp)+
qed

end
