(* ===== verification/Boot_Correct.thy ===== *)
theory Boot_Correct
  imports Boot_Header
begin

text \<open>A built boot image is its header page and its padded components, and the header describes them.\<close>

section \<open>Components\<close>

definition component_holds :: "image_source option \<Rightarrow> byte list \<Rightarrow> bool" where
  "component_holds component bs =
     (case component of None \<Rightarrow> bs = [] | Some source \<Rightarrow> image_content source bs)"

definition component_serves :: "image_source option \<Rightarrow> byte list \<Rightarrow> bool" where
  "component_serves component bs = (\<forall>source. component = Some source \<longrightarrow> serves_fully source bs)"

definition pad :: "nat \<Rightarrow> byte list \<Rightarrow> byte list" where
  "pad page bs = bs @ replicate (round_up page (length bs) - length bs) 0"

definition all_serve :: "boot_piece list \<Rightarrow> byte list list \<Rightarrow> bool" where
  "all_serve pieces bss = (\<forall>(piece, bs) \<in> set (zip pieces bss). piece_serves piece bs)"

lemma all_serve_snoc:
  "length pieces = length bss \<Longrightarrow> all_serve (pieces @ [piece]) (bss @ [bs]) \<longleftrightarrow> all_serve pieces bss \<and> piece_serves piece bs"
  by (auto simp: all_serve_def)

text \<open>A table that holds the octets \<open>bss\<close> and ends at \<open>cursor\<close>.\<close>

definition table :: "nat \<Rightarrow> boot_piece list \<Rightarrow> byte list list \<Rightarrow> bool" where
  "table cursor pieces bss \<longleftrightarrow> pieces_hold 0 pieces bss \<and> cursor = length (concat bss)"

lemma table_snoc:
  assumes "table cursor pieces bss" and "bp_output_offset piece = cursor" and "piece_holds piece bs"
  shows "table (cursor + length bs) (pieces @ [piece]) (bss @ [bs])"
  using assms pieces_hold_append [of 0 pieces bss "[piece]" "[bs]"] by (simp add: table_def)

lemma append_component:
  assumes "table cursor pieces bss" and "component_holds component bs"
    and "(case component of
            None \<Rightarrow> Some (cursor, pieces)
          | Some source \<Rightarrow>
              if is_size source \<noteq> 0 then
                map_option (\<lambda>cursor'. (cursor', pieces @ [component_piece cursor source])) (checked_add cursor (is_size source))
              else Some (cursor, pieces)) = Some (cursor', pieces')"
  shows "\<exists>bss'. table cursor' pieces' bss' \<and> concat bss' = concat bss @ bs \<and> cursor' = cursor + length bs \<and>
           (component_serves component bs \<and> all_serve pieces bss \<longrightarrow> all_serve pieces' bss')"
proof (cases "bs = []")
  case True
  with assms have "cursor' = cursor" "pieces' = pieces"
    by (auto simp: component_holds_def image_content.size_content split: option.splits if_splits)
  with True assms(1) show ?thesis by (intro exI [of _ bss]) simp
next
  case False
  with assms(2) obtain source where c: "component = Some source" "image_content source bs"
    by (auto simp: component_holds_def split: option.splits)
  have size: "is_size source = length bs" using image_content.size_content [OF c(2)] .
  with assms(3) c False have new: "cursor' = cursor + length bs" "pieces' = pieces @ [component_piece cursor source]"
    by (auto simp: checked_add_Some)
  have "piece_holds (component_piece cursor source) bs"
    using c(2) size by (auto simp: piece_holds_def component_piece_def)
  from table_snoc [OF assms(1) _ this] new have "table cursor' pieces' (bss @ [bs])"
    by (simp add: component_piece_def)
  moreover have "length pieces = length bss" using assms(1) pieces_hold_length by (auto simp: table_def)
  ultimately show ?thesis
    using new c(1)
    by (intro exI [of _ "bss @ [bs]"])
      (auto simp: all_serve_snoc component_serves_def piece_serves_def component_piece_def)
qed

lemma append_components_Inr:
  assumes "append_components page components cursor pieces = Inr (cursor', pieces')" and "supported_page_size page"
    and "list_all2 component_holds components contents" and "table cursor pieces bss" and "unat page dvd cursor"
  shows "\<exists>bss'. table cursor' pieces' bss' \<and> concat bss' = concat bss @ concat (map (pad (unat page)) contents) \<and>
           (list_all2 component_serves components contents \<and> all_serve pieces bss \<longrightarrow> all_serve pieces' bss')"
  using assms(3,1,4,5)
proof (induction components contents arbitrary: cursor pieces bss rule: list_all2_induct)
  case (Cons component components bs contents)
  let ?page = "unat page"
  have pos: "0 < ?page" using page_mask(2) [OF assms(2)] by simp
  from Cons.prems(1) obtain cursor1 pieces1 aligned where
    one: "(case component of
            None \<Rightarrow> Some (cursor, pieces)
          | Some source \<Rightarrow>
              if is_size source \<noteq> 0 then
                map_option (\<lambda>cursor'. (cursor', pieces @ [component_piece cursor source])) (checked_add cursor (is_size source))
              else Some (cursor, pieces)) = Some (cursor1, pieces1)"
    and al: "align_up cursor1 page = Inr aligned"
    and rest: "append_components page components aligned
      (if aligned \<noteq> cursor1 then pieces1 @ [padding_piece cursor1 (aligned - cursor1)] else pieces1) = Inr (cursor', pieces')"
    by (auto split: option.splits sum.splits if_splits)
  from append_component [OF Cons.prems(2) Cons.hyps(1) one] obtain bss1 where
    b1: "table cursor1 pieces1 bss1" "concat bss1 = concat bss @ bs" "cursor1 = cursor + length bs"
      "component_serves component bs \<and> all_serve pieces bss \<longrightarrow> all_serve pieces1 bss1" by blast
  from Cons.prems(3) obtain m where m: "cursor = m * ?page" by (metis dvd_def mult.commute)
  have aligned: "aligned = cursor + round_up ?page (length bs)"
    using align_up_Inr [OF al assms(2)] round_up_multiple(1) [OF pos, of m "length bs"] by (simp add: b1(3) m)
  let ?gap = "round_up ?page (length bs) - length bs"
  have gap: "aligned - cursor1 = ?gap" "aligned = cursor1 + ?gap"
    using round_up_multiple(3) [OF pos, of "length bs"] by (auto simp: aligned b1(3))
  define pieces2 where
    "pieces2 = (if aligned \<noteq> cursor1 then pieces1 @ [padding_piece cursor1 (aligned - cursor1)] else pieces1)"
  have "\<exists>bss2. table aligned pieces2 bss2 \<and> concat bss2 = concat bss @ pad ?page bs \<and>
      (all_serve pieces1 bss1 \<longrightarrow> all_serve pieces2 bss2)"
  proof (cases "aligned = cursor1")
    case True
    with gap b1 show ?thesis by (intro exI [of _ bss1]) (simp add: pieces2_def pad_def)
  next
    case False
    have "piece_holds (padding_piece cursor1 ?gap) (replicate ?gap 0)" by (simp add: piece_holds_def padding_piece_def)
    from table_snoc [OF b1(1) _ this] have "table (cursor1 + ?gap) (pieces1 @ [padding_piece cursor1 ?gap]) (bss1 @ [replicate ?gap 0])"
      by (simp add: padding_piece_def)
    moreover have "length pieces1 = length bss1" using b1(1) pieces_hold_length by (auto simp: table_def)
    ultimately show ?thesis
      using False b1(2) gap
      by (intro exI [of _ "bss1 @ [replicate ?gap 0]"])
        (auto simp: pieces2_def pad_def all_serve_snoc piece_serves_def padding_piece_def)
  qed
  then obtain bss2 where b2: "table aligned pieces2 bss2" "concat bss2 = concat bss @ pad ?page bs"
    "all_serve pieces1 bss1 \<longrightarrow> all_serve pieces2 bss2" by blast
  have "?page dvd aligned" using Cons.prems(3) round_up_multiple(2) [OF pos] by (simp add: aligned)
  from Cons.IH [OF rest [folded pieces2_def] b2(1) this] b2 b1(4) show ?case by auto
qed auto

section \<open>The header describes the image\<close>

definition boot_command_line :: "boot_image_options \<Rightarrow> byte list \<Rightarrow> byte list" where
  "boot_command_line options header =
     (if v3_or_later options then c_string header 44 1536 else c_string header 64 512 @ c_string header 608 1024)"

definition legacy_addresses :: "boot_image_options \<Rightarrow> byte list \<Rightarrow> bool" where
  "legacy_addresses options header \<longleftrightarrow>
     read_u32 header 12 = bo_base options + bo_kernel_offset options \<and>
     read_u32 header 20 = bo_base options + bo_ramdisk_offset options \<and>
     read_u32 header 28 = bo_base options + bo_second_offset options \<and>
     read_u32 header 32 = bo_base options + bo_tags_offset options \<and>
     read_u32 header 36 = effective_page_size options"

text \<open>Sizes, addresses, version and command line of an image with the given component sizes, at the offsets of its layout.\<close>

definition describes :: "boot_image_options \<Rightarrow> nat \<Rightarrow> nat \<Rightarrow> nat \<Rightarrow> nat \<Rightarrow> u32 \<Rightarrow> byte list \<Rightarrow> bool" where
  "describes options kernel_size ramdisk_size second_size dtb_size os_version header \<longleftrightarrow>
     length header = unat (effective_page_size options) \<and> take 8 header = boot_magic \<and>
     unat (read_u32 header 8) = kernel_size \<and> read_u32 header 40 = bo_header_version options \<and>
     (if v3_or_later options then
        unat (read_u32 header 12) = ramdisk_size \<and> read_u32 header 16 = os_version \<and> read_u32 header 20 = 1580
      else
        unat (read_u32 header 16) = ramdisk_size \<and> unat (read_u32 header 24) = second_size \<and>
        read_u32 header 44 = os_version \<and> legacy_addresses options header \<and>
        (bo_header_version options = 2 \<longrightarrow> unat (read_u32 header 1648) = dtb_size)) \<and>
     boot_command_line options header = string_bytes (bo_command_line options)"

lemma no_nul: "find_char (CHR 0x00) s 0 = None \<Longrightarrow> 0 \<notin> set (string_bytes s)"
proof
  assume none: "find_char (CHR 0x00) s 0 = None" and "0 \<in> set (string_bytes s)"
  then obtain c where c: "c \<in> set s" "byte_of_char c = 0" by (auto simp: string_bytes_def)
  from c(2) have "char_of_byte (byte_of_char c) = char_of_byte 0" by simp
  then have "c = char_of_byte 0" by (simp only: char_of_byte_of_char)
  then have "c = CHR 0x00" by (simp add: char_of_byte_def char_of_def)
  moreover have "length s \<le> length (takeWhile (\<lambda>x. x \<noteq> CHR 0x00) s)"
    using none by (simp add: find_char_def skip_while_def Let_def not_less split: if_splits)
  then have "takeWhile (\<lambda>x. x \<noteq> CHR 0x00) s = s" by (subst takeWhile_eq_take, intro take_all)
  then have "\<forall>x \<in> set s. x \<noteq> CHR 0x00" by (simp only: takeWhile_eq_all_conv)
  ultimately show False using c(1) by blast
qed

lemma boot_header_describes:
  assumes "supported_page_size (effective_page_size options)" and "find_char (CHR 0x00) (bo_command_line options) 0 = None"
    and "length (bo_command_line options) \<le> (if v3_or_later options then 1535 else 1534)"
    and "unat (size_field krn) = kernel_size" and "unat (size_field ramdisk) = ramdisk_size"
    and "unat (size_field second) = second_size" and "unat (size_field dtb) = dtb_size"
  shows "describes options kernel_size ramdisk_size second_size dtb_size os_version
           (boot_header options krn ramdisk second dtb os_version)"
proof -
  let ?page = "unat (effective_page_size options)" and ?cmd = "string_bytes (bo_command_line options)"
  have page: "2048 \<le> ?page" using assms(1) by (auto simp: supported_page_size_def)
  note zero = zero_page_facts [OF page]
  have nul: "0 \<notin> set ?cmd" using no_nul [OF assms(2)] .
  show ?thesis
  proof (cases "v3_or_later options")
    case True
    then have big: "4096 \<le> ?page" and len: "length (bo_command_line options) \<le> 1535"
      using assms(3) by (simp_all add: effective_page_size_def)
    define h where "h = boot_header_v3 options krn ramdisk os_version (zero_page options)"
    note r = boot_header_v3_fields [OF zero(1) big len zero(3) h_def]
    have "c_string h 44 1536 = ?cmd" by (rule c_string_written) (use r(8) nul in simp_all)
    with True r assms(4,5) zero(2) show ?thesis
      by (simp add: describes_def boot_header_def zero_page_def [symmetric] h_def [symmetric] boot_command_line_def)
  next
    case False
    then have len: "length (bo_command_line options) \<le> 1534" using assms(3) by simp
    define h where "h = boot_header_legacy options krn ramdisk second dtb os_version (zero_page options)"
    note r = boot_header_legacy_fields [OF zero(1) page len zero(3) h_def refl]
    have "c_string h 64 512 = take 511 ?cmd" by (rule c_string_written [OF r(14)]) (use nul in \<open>auto dest: in_set_takeD\<close>)
    moreover have "c_string h 608 1024 = drop 511 ?cmd" by (rule c_string_written [OF r(15)]) (use nul in \<open>auto dest: in_set_dropD\<close>)
    ultimately have "boot_command_line options h = ?cmd" using False by (simp add: boot_command_line_def)
    with False r assms(4-7) zero(2) show ?thesis
      by (simp add: describes_def boot_header_def zero_page_def [symmetric] h_def [symmetric] legacy_addresses_def)
  qed
qed

section \<open>Properties\<close>

type_synonym component = "(byte list \<times> (nat \<Rightarrow> nat \<Rightarrow> string + nat)) option"

definition component_source :: "component \<Rightarrow> image_source option" where
  "component_source component = map_option (\<lambda>(content, policy). policy_source content policy) component"

definition component_content :: "component \<Rightarrow> byte list" where
  "component_content component = (case component of None \<Rightarrow> [] | Some (content, policy) \<Rightarrow> content)"

definition reads_fully :: "component \<Rightarrow> bool" where
  "reads_fully component = (case component of None \<Rightarrow> True | Some (content, policy) \<Rightarrow> serves_fully (policy_source content policy) content)"

lemma component_source_holds: "component_holds (component_source c) (component_content c)"
  using policy.image_content_axioms
  by (auto simp: component_holds_def component_source_def component_content_def split: option.splits)

lemma component_source_serves: "reads_fully c \<Longrightarrow> component_serves (component_source c) (component_content c)"
  by (auto simp: component_serves_def component_source_def component_content_def reads_fully_def split: option.splits)

lemma size_field_content:
  assumes "case component_source c of None \<Rightarrow> True | Some source \<Rightarrow> is_size source \<le> u32_max"
  shows "unat (size_field (component_source c)) = length (component_content c)"
  using assms
  by (cases c) (auto simp: size_field_def component_source_def component_content_def policy.size_content unat_of_nat
      take_bit_nat_eq_self split: prod.splits)

text \<open>
  C19. A built boot image is its header page followed by kernel, ramdisk, second stage and device tree, each padded with
  zeros to full pages, within the output limit. The header carries, at the offsets of the selected version, the magic, the
  sizes of the components, the load addresses of kernel, ramdisk and second stage, the encoded operating-system version and a command line that reads back as
  the one given. Reads of the image return these octets and nothing else, and all that was asked for when the component
  sources do; the components may read short, fail or misreport, and a stop request may arrive at any poll.
\<close>

theorem build_boot_image_layout:
  assumes "build_boot_image (component_source krn) (component_source ramdisk) (component_source second)
             (component_source dtb) options stop t = (Inr img, t')"
  shows "\<exists>header os_version patch_level.
    let page = unat (effective_page_size options);
        contents = map component_content [krn, ramdisk, second, dtb];
        octets = header @ concat (map (pad page) contents)
    in encode_os_version (bo_os_version options) = Inr os_version \<and>
       encode_patch_level (bo_os_patch_level options) = Inr patch_level \<and>
       describes options (length (component_content krn)) (length (component_content ramdisk))
         (length (component_content second)) (length (component_content dtb)) (os_version OR patch_level) header \<and>
       page \<in> {2048, 4096, 8192, 16384} \<and> length octets \<le> bo_maximum_output_bytes options \<and>
       image_content (boot_image_source img) octets \<and>
       (list_all reads_fully [krn, ramdisk, second, dtb] \<longrightarrow> serves_fully (boot_image_source img) octets)"
proof -
  let ?components = "map component_source [krn, ramdisk, second, dtb]"
  let ?contents = "map component_content [krn, ramdisk, second, dtb]"
  let ?page = "effective_page_size options"
  define header where "header = (\<lambda>os. boot_header options (component_source krn) (component_source ramdisk)
    (component_source second) (component_source dtb) os)"
  from assms obtain os u1 u2 u3 planned pieces where
    req: "check_boot_request (component_source krn) options t = (Inr os, u1)"
    and fields: "check_boot_fields ?components options u2 = (Inr (), u3)"
    and limit: "planned \<le> bo_maximum_output_bytes options"
    and app: "append_components ?page ?components (unat ?page) [header_piece (header os) (unat ?page)] = Inr (planned, pieces)"
    and img: "img = \<lparr>bi_size = planned, bi_pieces = pieces\<rparr>"
    by (auto simp: build_boot_image_def Let_def not_less header_def)
  from req obtain version patch where enc: "encode_os_version (bo_os_version options) = Inr version"
      "encode_patch_level (bo_os_patch_level options) = Inr patch" "os = version OR patch"
    and cmd: "find_char (CHR 0x00) (bo_command_line options) 0 = None"
      "length (bo_command_line options) \<le> (if v3_or_later options then 1535 else 1534)"
    and page: "supported_page_size ?page"
    by (auto simp: check_boot_request_def supported_page_size_def effective_page_size_def)
  have small: "case component_source c of None \<Rightarrow> True | Some source \<Rightarrow> is_size source \<le> u32_max"
    if "c \<in> {krn, ramdisk, second, dtb}" for c
    using fields that by (auto simp: check_boot_fields_def)
  have desc: "describes options (length (component_content krn)) (length (component_content ramdisk))
      (length (component_content second)) (length (component_content dtb)) os (header os)"
    unfolding header_def by (rule boot_header_describes [OF page cmd]) (auto intro!: size_field_content small)
  then have len: "length (header os) = unat ?page" by (simp add: describes_def)
  have holds: "list_all2 component_holds ?components ?contents" by (simp add: component_source_holds)
  have "piece_holds (header_piece (header os) (unat ?page)) (header os)"
    by (simp add: piece_holds_def header_piece_def len)
  then have start: "table (unat ?page) [header_piece (header os) (unat ?page)] [header os]"
    by (simp add: table_def header_piece_def len)
  from append_components_Inr [OF app page holds start] obtain bss where
    b: "table planned pieces bss" "concat bss = header os @ concat (map (pad (unat ?page)) ?contents)"
      "list_all2 component_serves ?components ?contents \<and> all_serve [header_piece (header os) (unat ?page)] [header os] \<longrightarrow>
       all_serve pieces bss" by auto
  have hold: "pieces_hold 0 (bi_pieces img) bss" "bi_size img = length (concat bss)"
    using b(1) by (auto simp: table_def img)
  have first: "all_serve [header_piece (header os) (unat ?page)] [header os]"
    by (simp add: all_serve_def piece_serves_def header_piece_def)
  have serve: "serves_fully (boot_image_source img) (concat bss)" if "list_all reads_fully [krn, ramdisk, second, dtb]"
  proof -
    have "list_all2 component_serves ?components ?contents"
      using that by (simp add: component_source_serves)
    with b(3) first have "all_serve pieces bss" by blast
    then show ?thesis using boot_source_content(2) [OF hold] by (simp add: all_serve_def img)
  qed
  have "unat ?page \<in> {2048, 4096, 8192, 16384}" using page by (auto simp: supported_page_size_def)
  moreover have "length (concat bss) \<le> bo_maximum_output_bytes options" using limit b(1) by (simp add: table_def)
  ultimately show ?thesis
    using enc(1,2) desc [unfolded enc(3)] boot_source_content(1) [OF hold] serve
    unfolding Let_def b(2) [unfolded enc(3)]
    by (intro exI [of _ "header (version OR patch)"] exI [of _ version] exI [of _ patch]) blast
qed

definition example_options :: boot_image_options where
  "example_options =
     default_boot_options\<lparr>bo_command_line := ''ro'', bo_os_version := ''12.1'', bo_os_patch_level := ''2024-02-29''\<rparr>"

lemma example_boot_image:
  "\<exists>img u. build_boot_image (component_source (Some ([1, 2, 3], \<lambda>offset n. Inr n))) (component_source None)
     (component_source None) (component_source None) example_options never_stop 0 = (Inr img, u) \<and> bi_size img = 4096"
proof -
  have version: "encode_os_version ''12.1'' = Inr 0x18040000"
    by (simp add: encode_os_version_def os_version_loop.simps find_char_def skip_while_def parse_decimal_def from_chars_def
        is_digit_def digit_value_def digit_def version_part_def Let_def)
  have patch: "encode_patch_level ''2024-02-29'' = Inr 0x182"
    by (simp add: encode_patch_level_def parse_decimal_def from_chars_def is_digit_def digit_value_def digit_def
        leap_year_def Let_def)
  have align: "align_up 2051 2048 = Inr 4096" "align_up 4096 2048 = Inr 4096"
    by (simp_all add: align_up_def checked_add_def)
  show ?thesis
    by (simp add: build_boot_image_def check_boot_request_def check_boot_version_def check_boot_fields_def
        example_options_def default_boot_options_def v3_or_later_def effective_page_size_def supported_page_size_def
        component_source_def policy_source_def pbind_def pguard_def preturn_def plift_def poll_def never_stop_def
        version patch align find_char_def skip_while_def checked_add_def component_piece_def padding_piece_def)
qed

theorem build_boot_image_layout_witness:
  "\<exists>img octets. fst (build_boot_image (component_source (Some ([1, 2, 3], \<lambda>offset n. Inr n))) (component_source None)
       (component_source None) (component_source None) example_options never_stop 0) = Inr img \<and>
     length octets = 4096 \<and> unat (read_u32 octets 8) = 3 \<and> serves_fully (boot_image_source img) octets"
proof -
  let ?k = "Some ([1, 2, 3], \<lambda>offset n. Inr n) :: component"
  obtain img u where run: "build_boot_image (component_source ?k) (component_source None)
     (component_source None) (component_source None) example_options never_stop 0 = (Inr img, u)" and size: "bi_size img = 4096"
    using example_boot_image by blast
  from build_boot_image_layout [OF run, unfolded Let_def] obtain header os patch where
    d: "describes example_options (length (component_content ?k)) (length (component_content None))
      (length (component_content None)) (length (component_content None)) (os OR patch) header" and
    ic: "image_content (boot_image_source img) (header @ concat (map (pad (unat (effective_page_size example_options)))
       (map component_content [?k, None, None, None])))" and
    sf: "list_all reads_fully [?k, None, None, None] \<longrightarrow> serves_fully (boot_image_source img)
      (header @ concat (map (pad (unat (effective_page_size example_options))) (map component_content [?k, None, None, None])))"
    by blast
  let ?octets = "header @ concat (map (pad (unat (effective_page_size example_options)))
       (map component_content [?k, None, None, None]))"
  have "length ?octets = 4096"
    using image_content.size_content [OF ic] size by (simp add: boot_image_source_def)
  moreover have "reads_fully ?k"
    by (simp add: reads_fully_def serves_fully_def policy_source_def min_def)
  then have "serves_fully (boot_image_source img) ?octets" using sf by (simp add: reads_fully_def)
  moreover have "unat (read_u32 ?octets 8) = 3"
  proof -
    have "12 \<le> length header"
      using d by (simp add: describes_def effective_page_size_def v3_or_later_def example_options_def default_boot_options_def)
    then have "read_u32 ?octets 8 = read_u32 header 8" by (simp add: read_u32_def nth_append)
    with d show ?thesis by (simp add: describes_def component_content_def)
  qed
  ultimately show ?thesis using run by (intro exI [of _ img] exI [of _ ?octets]) simp
qed

end
