(* ===== verification/Operation_State.thy ===== *)
theory Operation_State
  imports KB_Prelude "HOL-Library.Multiset"
begin

text \<open>
  The asynchronous operation of \<^verbatim>\<open>src/api/operation_state.{hpp,cpp}\<close>: one worker thread runs a task, any thread may
  cancel. Each section under the mutex is one function on the shared state and one step of a relation; a wait on a
  condition variable is a step that is enabled when its predicate holds. The task is arbitrary: while it runs it may
  register a cancellation hook and drop a registration, and it ends by returning any outcome or by throwing.
\<close>

section \<open>Data\<close>

datatype kb_status =
  KB_OK | KB_E_INVALID_ARGUMENT | KB_E_OUT_OF_MEMORY | KB_E_NOT_SUPPORTED | KB_E_NO_DEVICE | KB_E_AMBIGUOUS_DEVICE
| KB_E_BUSY | KB_E_TIMEOUT | KB_E_CANCELLED | KB_E_IO | KB_E_INTERNAL | KB_E_PROTOCOL | KB_E_DEVICE_FAIL

datatype kb_transfer_state = KB_TRANSFER_NOT_SENT | KB_TRANSFER_PARTIAL_OR_UNKNOWN | KB_TRANSFER_FULLY_TRANSFERRED

datatype operation_phase = Phase_created | Phase_running | Phase_succeeded | Phase_failed | Phase_cancelled

datatype command_message_kind = Message_info | Message_text

record command_message_payload =
  cm_kind :: command_message_kind
  cm_text :: string

record operation_error_payload =
  oe_status :: kb_status
  oe_message :: string
  oe_native_code :: int
  oe_transfer_state :: kb_transfer_state
  oe_device_identifier :: string
  oe_device_message :: string
  oe_command_messages :: "command_message_payload list"
  oe_inbound_expected :: "nat option"
  oe_inbound_transferred :: nat
  oe_inbound_transfer_state :: kb_transfer_state
  oe_session_poisoned :: bool

record command_result_payload =
  cr_terminal_payload :: string
  cr_messages :: "command_message_payload list"
  cr_data :: "byte list"
  cr_output_path :: string
  cr_received_bytes :: nat
  cr_device_identifier :: string

record operation_outcome =
  oo_phase :: operation_phase
  oo_error :: "operation_error_payload option"
  oo_command_result :: "command_result_payload option"

definition plain_error :: "kb_status \<Rightarrow> string \<Rightarrow> kb_transfer_state \<Rightarrow> operation_error_payload" where
  "plain_error status message transfer_state =
     \<lparr>oe_status = status, oe_message = message, oe_native_code = 0, oe_transfer_state = transfer_state,
      oe_device_identifier = [], oe_device_message = [], oe_command_messages = [], oe_inbound_expected = None,
      oe_inbound_transferred = 0, oe_inbound_transfer_state = KB_TRANSFER_NOT_SENT, oe_session_poisoned = False\<rparr>"

definition op_cancelled_error :: operation_error_payload where
  "op_cancelled_error = plain_error KB_E_CANCELLED ''operation cancelled'' KB_TRANSFER_NOT_SENT"

definition internal_error :: "string \<Rightarrow> operation_error_payload" where
  "internal_error message = plain_error KB_E_INTERNAL message KB_TRANSFER_NOT_SENT"

definition outcome_succeeded :: "command_result_payload option \<Rightarrow> operation_outcome" where
  "outcome_succeeded command_result =
     \<lparr>oo_phase = Phase_succeeded, oo_error = None, oo_command_result = command_result\<rparr>"

definition outcome_failed :: "operation_error_payload \<Rightarrow> operation_outcome" where
  "outcome_failed e =
     (let e = (if oe_status e = KB_OK \<or> oe_status e = KB_E_CANCELLED then e\<lparr>oe_status := KB_E_INTERNAL\<rparr> else e);
          e = (if oe_message e = [] then e\<lparr>oe_message := ''operation failed''\<rparr> else e)
      in \<lparr>oo_phase = Phase_failed, oo_error = Some e, oo_command_result = None\<rparr>)"

definition outcome_cancelled :: "operation_error_payload \<Rightarrow> operation_outcome" where
  "outcome_cancelled e =
     (let e = e\<lparr>oe_status := KB_E_CANCELLED\<rparr>;
          e = (if oe_message e = [] then e\<lparr>oe_message := ''operation cancelled''\<rparr> else e)
      in \<lparr>oo_phase = Phase_cancelled, oo_error = Some e, oo_command_result = None\<rparr>)"

section \<open>The shared state\<close>

text \<open>A cancellation hook is named by a number; the generation counter keeps its width.\<close>

type_synonym cancellation_hook = nat

record hook_record =
  hr_generation :: u64
  hr_callback :: cancellation_hook

record operation_state =
  os_phase :: operation_phase
  os_error :: "operation_error_payload option"
  os_command_result :: "command_result_payload option"
  os_task :: bool
  os_stop_requested :: bool
  os_cancellation_hook :: "hook_record option"
  os_next_hook_generation :: u64
  os_hook_invocations_in_flight :: nat
  os_started :: bool
  os_cancel_requested :: bool

definition new_operation :: "bool \<Rightarrow> operation_state" where
  "new_operation task =
     \<lparr>os_phase = Phase_created, os_error = None, os_command_result = None, os_task = task, os_stop_requested = False,
      os_cancellation_hook = None, os_next_hook_generation = 1, os_hook_invocations_in_flight = 0, os_started = False,
      os_cancel_requested = False\<rparr>"

definition terminal :: "operation_phase \<Rightarrow> bool" where
  "terminal phase \<longleftrightarrow> phase = Phase_succeeded \<or> phase = Phase_failed \<or> phase = Phase_cancelled"

text \<open>\<^verbatim>\<open>start\<close>; when the thread cannot be constructed the exception leaves the state as it was.\<close>

definition op_start :: "operation_state \<Rightarrow> bool \<times> operation_state" where
  "op_start s =
     (if os_started s \<or> os_phase s \<noteq> Phase_created \<or> os_cancel_requested s then (False, s)
      else (True, s\<lparr>os_started := True\<rparr>))"

text \<open>The locked section of \<^verbatim>\<open>cancel\<close>: nothing on an early return, else the hook to call.\<close>

definition cancel_enter :: "operation_state \<Rightarrow> cancellation_hook option option \<times> operation_state" where
  "cancel_enter s =
     (if terminal (os_phase s) \<or> os_cancel_requested s then (None, s)
      else
        let s = s\<lparr>os_cancel_requested := True\<rparr> in
        if \<not> os_started s then (Some None, s\<lparr>os_phase := Phase_cancelled, os_error := Some op_cancelled_error\<rparr>)
        else case os_cancellation_hook s of
          None \<Rightarrow> (Some None, s)
        | Some hook \<Rightarrow>
            (Some (Some (hr_callback hook)),
             s\<lparr>os_hook_invocations_in_flight := os_hook_invocations_in_flight s + 1\<rparr>))"

definition request_stop :: "operation_state \<Rightarrow> operation_state" where
  "request_stop s = s\<lparr>os_stop_requested := True\<rparr>"

definition finish_hook_invocation :: "operation_state \<Rightarrow> operation_state" where
  "finish_hook_invocation s =
     (if os_hook_invocations_in_flight s \<noteq> 0
      then s\<lparr>os_hook_invocations_in_flight := os_hook_invocations_in_flight s - 1\<rparr> else s)"

definition op_status :: "operation_state \<Rightarrow> kb_status" where
  "op_status s =
     (case os_phase s of
        Phase_succeeded \<Rightarrow> KB_OK
      | Phase_cancelled \<Rightarrow> KB_E_CANCELLED
      | Phase_failed \<Rightarrow> (case os_error s of None \<Rightarrow> KB_E_INTERNAL | Some e \<Rightarrow> oe_status e)
      | _ \<Rightarrow> KB_E_BUSY)"

datatype operation_wait_result = Wait_terminal | Wait_timeout

text \<open>
  \<^verbatim>\<open>wait_for\<close> with the state at the call and the state when the wait ends: the predicate becomes true or the deadline,
  which is capped at the end of the clock, has passed.
\<close>

definition wait_deadline :: "int \<Rightarrow> int \<Rightarrow> int \<Rightarrow> int" where
  "wait_deadline clock_max now timeout = (if timeout \<ge> clock_max - now then clock_max else now + timeout)"

definition wait_for :: "operation_state \<Rightarrow> int \<Rightarrow> operation_state \<Rightarrow> operation_wait_result" where
  "wait_for s timeout later =
     (if terminal (os_phase s) then Wait_terminal
      else if timeout \<le> 0 then Wait_timeout
      else if terminal (os_phase later) then Wait_terminal else Wait_timeout)"

text \<open>The locked section of \<^verbatim>\<open>register_cancellation_hook\<close>; an empty function is rejected before.\<close>

datatype register_result = Register_rejected | Register_invoke | Register_done u64

definition register_enter :: "cancellation_hook \<Rightarrow> operation_state \<Rightarrow> register_result \<times> operation_state" where
  "register_enter hook s =
     (if terminal (os_phase s) then (Register_rejected, s)
      else if os_cancel_requested s then (Register_invoke, s)
      else case os_cancellation_hook s of
        Some _ \<Rightarrow> (Register_rejected, s)
      | None \<Rightarrow>
          (Register_done (os_next_hook_generation s),
           s\<lparr>os_next_hook_generation := os_next_hook_generation s + 1,
             os_cancellation_hook := Some \<lparr>hr_generation = os_next_hook_generation s, hr_callback = hook\<rparr>\<rparr>))"

definition unregister_enter :: "u64 \<Rightarrow> operation_state \<Rightarrow> operation_state" where
  "unregister_enter generation s =
     (case os_cancellation_hook s of
        Some hook \<Rightarrow> if hr_generation hook = generation then s\<lparr>os_cancellation_hook := None\<rparr> else s
      | None \<Rightarrow> s)"

text \<open>
  The handle of a registration: it is active or empty; moving empties the moved handle, and \<^verbatim>\<open>reset\<close>, which the destructor
  and the move assignment call too, unregisters the generation of an active handle.
\<close>

type_synonym cancellation_registration = "u64 option"

definition registration_of :: "register_result \<Rightarrow> cancellation_registration" where
  "registration_of result = (case result of Register_done generation \<Rightarrow> Some generation | _ \<Rightarrow> None)"

definition registration_move :: "cancellation_registration \<Rightarrow> cancellation_registration \<times> cancellation_registration" where
  "registration_move other = (other, None)"

definition registration_reset :: "cancellation_registration \<Rightarrow> operation_state \<Rightarrow> cancellation_registration \<times> operation_state" where
  "registration_reset r s = (None, case r of None \<Rightarrow> s | Some generation \<Rightarrow> unregister_enter generation s)"

definition registration_move_assign ::
    "cancellation_registration \<Rightarrow> cancellation_registration \<Rightarrow> operation_state \<Rightarrow>
     cancellation_registration \<times> cancellation_registration \<times> operation_state" where
  "registration_move_assign r other s = (case registration_reset r s of (_, s) \<Rightarrow> (other, None, s))"

definition clear_hook :: "operation_state \<Rightarrow> operation_state" where
  "clear_hook s = s\<lparr>os_cancellation_hook := None\<rparr>"

text \<open>The corrections of \<^verbatim>\<open>publish_terminal\<close>, in order.\<close>

definition settle_outcome :: "bool \<Rightarrow> operation_outcome \<Rightarrow> operation_outcome" where
  "settle_outcome cancel_requested outcome =
     (let outcome = (if \<not> terminal (oo_phase outcome)
            then outcome_failed (internal_error ''operation task returned a non-terminal state'') else outcome);
          outcome = (if cancel_requested \<and> oo_phase outcome = Phase_succeeded
            then outcome_cancelled (plain_error KB_E_CANCELLED ''operation cancelled after completing its work''
                   KB_TRANSFER_FULLY_TRANSFERRED)
            else outcome);
          outcome = (if oo_phase outcome = Phase_succeeded then outcome\<lparr>oo_error := None\<rparr>
            else if oo_error outcome = None then
              (if oo_phase outcome = Phase_cancelled then outcome_cancelled op_cancelled_error
               else outcome_failed (internal_error ''operation task returned no error''))
            else outcome)
      in if oo_phase outcome \<noteq> Phase_succeeded then outcome\<lparr>oo_command_result := None\<rparr> else outcome)"

definition publish_terminal :: "operation_outcome \<Rightarrow> operation_state \<Rightarrow> operation_state" where
  "publish_terminal outcome s =
     (if os_phase s \<noteq> Phase_running then s
      else
        let outcome = settle_outcome (os_cancel_requested s) outcome in
        s\<lparr>os_phase := oo_phase outcome, os_error := oo_error outcome, os_command_result := oo_command_result outcome\<rparr>)"

text \<open>The first locked section of \<^verbatim>\<open>run\<close>: whether there is a task, or nothing when the operation is not fresh.\<close>

definition run_enter :: "operation_state \<Rightarrow> bool option \<times> operation_state" where
  "run_enter s =
     (if os_phase s \<noteq> Phase_created then (None, s)
      else (Some (os_task s), s\<lparr>os_phase := Phase_running, os_task := False\<rparr>))"

datatype task_end = Task_returned operation_outcome | Task_bad_alloc | Task_exception string | Task_unknown

definition task_outcome :: "task_end \<Rightarrow> operation_outcome" where
  "task_outcome e =
     (case e of
        Task_returned outcome \<Rightarrow> outcome
      | Task_bad_alloc \<Rightarrow>
          outcome_failed (plain_error KB_E_OUT_OF_MEMORY ''operation task exhausted memory'' KB_TRANSFER_NOT_SENT)
      | Task_exception what \<Rightarrow> outcome_failed (plain_error KB_E_INTERNAL what KB_TRANSFER_NOT_SENT)
      | Task_unknown \<Rightarrow> outcome_failed (internal_error ''operation task threw an unknown exception''))"

section \<open>Threads\<close>

datatype worker_pc =
  Worker_absent
| Worker_start
| Worker_poll bool
| Worker_task
| Worker_invoke cancellation_hook
| Worker_unregister
| Worker_clear operation_outcome
| Worker_drain operation_outcome
| Worker_publish operation_outcome
| Worker_done

text \<open>A call of \<^verbatim>\<open>cancel\<close> behind its locked section.\<close>

datatype cancel_pc = Cancel_stop "cancellation_hook option" | Cancel_call cancellation_hook | Cancel_finish

type_synonym operation = "operation_state \<times> worker_pc \<times> cancel_pc multiset"

text \<open>Calls from outside: \<^verbatim>\<open>start\<close> and \<^verbatim>\<open>cancel\<close>, from any thread and at any time.\<close>

inductive call_step :: "operation \<Rightarrow> operation \<Rightarrow> bool" where
  start: "op_start s = (True, s') \<Longrightarrow> call_step (s, Worker_absent, cs) (s', Worker_start, cs)"
| cancel: "cancel_enter s = (Some hook, s') \<Longrightarrow> call_step (s, w, cs) (s', w, add_mset (Cancel_stop hook) cs)"

text \<open>What the task may do.\<close>

inductive task_step :: "operation \<Rightarrow> operation \<Rightarrow> bool" where
  register: "register_enter hook s = (result, s') \<Longrightarrow>
    task_step (s, Worker_task, cs) (s', if result = Register_invoke then Worker_invoke hook else Worker_task, cs)"
| unregister: "task_step (s, Worker_task, cs) (unregister_enter generation s, Worker_unregister, cs)"

text \<open>The other steps of the threads.\<close>

inductive own_step :: "operation \<Rightarrow> operation \<Rightarrow> bool" where
  enter: "run_enter s = (Some task, s') \<Longrightarrow> own_step (s, Worker_start, cs) (s', Worker_poll task, cs)"
| leave: "run_enter s = (None, s') \<Longrightarrow> own_step (s, Worker_start, cs) (s', Worker_done, cs)"
| stopped: "os_stop_requested s \<Longrightarrow>
    own_step (s, Worker_poll task, cs) (s, Worker_clear (outcome_cancelled op_cancelled_error), cs)"
| no_task: "\<not> os_stop_requested s \<Longrightarrow>
    own_step (s, Worker_poll False, cs)
      (s, Worker_clear (outcome_failed (internal_error ''operation task is empty'')), cs)"
| run_task: "\<not> os_stop_requested s \<Longrightarrow> own_step (s, Worker_poll True, cs) (s, Worker_task, cs)"
| invoked: "own_step (s, Worker_invoke hook, cs) (s, Worker_task, cs)"
| unregistered: "os_hook_invocations_in_flight s = 0 \<Longrightarrow> own_step (s, Worker_unregister, cs) (s, Worker_task, cs)"
| task_ends: "own_step (s, Worker_task, cs) (s, Worker_clear (task_outcome e), cs)"
| clear: "own_step (s, Worker_clear outcome, cs) (clear_hook s, Worker_drain outcome, cs)"
| drained: "os_hook_invocations_in_flight s = 0 \<Longrightarrow>
    own_step (s, Worker_drain outcome, cs) (s, Worker_publish outcome, cs)"
| publish: "own_step (s, Worker_publish outcome, cs) (publish_terminal outcome s, Worker_done, cs)"
| stop_only: "own_step (s, w, add_mset (Cancel_stop None) cs) (request_stop s, w, cs)"
| stop_and_call: "own_step (s, w, add_mset (Cancel_stop (Some hook)) cs)
    (request_stop s, w, add_mset (Cancel_call hook) cs)"
| hook_returns: "own_step (s, w, add_mset (Cancel_call hook) cs) (s, w, add_mset Cancel_finish cs)"
| finish: "own_step (s, w, add_mset Cancel_finish cs) (finish_hook_invocation s, w, cs)"

inductive operation_step :: "operation \<Rightarrow> operation \<Rightarrow> bool" where
  call: "call_step c c' \<Longrightarrow> operation_step c c'"
| task: "task_step c c' \<Longrightarrow> operation_step c c'"
| own: "own_step c c' \<Longrightarrow> operation_step c c'"

inductive operation_reach :: "operation \<Rightarrow> bool" where
  init: "operation_reach (new_operation task, Worker_absent, {#})"
| step: "\<lbrakk>operation_reach c; operation_step c c'\<rbrakk> \<Longrightarrow> operation_reach c'"

inductive_cases call_stepE: "call_step c c'"
inductive_cases task_stepE: "task_step c c'"
inductive_cases own_stepE: "own_step c c'"
inductive_cases operation_stepE: "operation_step c c'"

text \<open>The destructor returns from joining once the worker is through or was never started.\<close>

definition joined_worker :: "worker_pc \<Rightarrow> bool" where
  "joined_worker w \<longleftrightarrow> w = Worker_absent \<or> w = Worker_done"

section \<open>The invariant\<close>

definition with_hook :: "cancel_pc \<Rightarrow> bool" where
  "with_hook c \<longleftrightarrow> c \<noteq> Cancel_stop None"

definition running_worker :: "worker_pc \<Rightarrow> bool" where
  "running_worker w \<longleftrightarrow> w \<noteq> Worker_absent \<and> w \<noteq> Worker_start \<and> w \<noteq> Worker_done"

definition may_hold_hook :: "worker_pc \<Rightarrow> bool" where
  "may_hold_hook w \<longleftrightarrow> w = Worker_task \<or> (\<exists>h. w = Worker_invoke h) \<or> w = Worker_unregister \<or> (\<exists>out. w = Worker_clear out)"

definition drained_worker :: "worker_pc \<Rightarrow> bool" where
  "drained_worker w \<longleftrightarrow> (\<exists>out. w = Worker_publish out) \<or> w = Worker_done \<or> w = Worker_absent"

text \<open>The published values agree with the phase.\<close>

definition published :: "operation_state \<Rightarrow> bool" where
  "published s \<longleftrightarrow>
     (case os_phase s of
        Phase_created \<Rightarrow> os_error s = None \<and> os_command_result s = None
      | Phase_running \<Rightarrow> os_error s = None \<and> os_command_result s = None
      | Phase_succeeded \<Rightarrow> os_error s = None \<and> \<not> os_cancel_requested s
      | _ \<Rightarrow> os_error s \<noteq> None \<and> os_command_result s = None)"

definition operation_inv :: "operation \<Rightarrow> bool" where
  "operation_inv c \<longleftrightarrow>
     (case c of (s, w, cs) \<Rightarrow>
        (os_started s \<longleftrightarrow> w \<noteq> Worker_absent) \<and>
        (w = Worker_absent \<longrightarrow> os_phase s = Phase_created \<and> \<not> os_cancel_requested s \<or>
           os_phase s = Phase_cancelled \<and> os_cancel_requested s) \<and>
        (w = Worker_start \<longrightarrow> os_phase s = Phase_created) \<and>
        (running_worker w \<longrightarrow> os_phase s = Phase_running) \<and>
        (w = Worker_done \<longrightarrow> terminal (os_phase s)) \<and>
        os_hook_invocations_in_flight s = size (filter_mset with_hook cs) \<and>
        size cs \<le> (if os_cancel_requested s then 1 else 0) \<and>
        (os_cancellation_hook s \<noteq> None \<longrightarrow> may_hold_hook w) \<and>
        (drained_worker w \<longrightarrow> os_hook_invocations_in_flight s = 0) \<and>
        published s)"

end
