(* ===== verification/Operation_Contract.thy ===== *)
theory Operation_Contract
  imports Operation_State
begin

text \<open>
  The contract of an operation: its invariant under every interleaving, the finality of a terminal phase, and progress
  of its threads.
\<close>

section \<open>The invariant is kept\<close>

lemmas pc_kinds = running_worker_def may_hold_hook_def drained_worker_def with_hook_def

lemma settle_outcome_facts:
  "terminal (oo_phase (settle_outcome cancelled outcome)) \<and>
   (oo_phase (settle_outcome cancelled outcome) = Phase_succeeded \<longrightarrow>
      \<not> cancelled \<and> oo_error (settle_outcome cancelled outcome) = None) \<and>
   (oo_phase (settle_outcome cancelled outcome) \<noteq> Phase_succeeded \<longrightarrow>
      oo_error (settle_outcome cancelled outcome) \<noteq> None \<and> oo_command_result (settle_outcome cancelled outcome) = None)"
  by (cases "oo_phase outcome"; cases cancelled; cases "oo_error outcome")
    (simp_all add: settle_outcome_def Let_def terminal_def outcome_failed_def outcome_cancelled_def)

lemma published_simps [simp]:
  "published (s\<lparr>os_started := b\<rparr>) = published s" "published (s\<lparr>os_stop_requested := b\<rparr>) = published s"
  "published (s\<lparr>os_hook_invocations_in_flight := n\<rparr>) = published s"
  "published (s\<lparr>os_cancellation_hook := h\<rparr>) = published s"
  "published (s\<lparr>os_next_hook_generation := g\<rparr>) = published s"
  by (simp_all add: published_def split: operation_phase.splits)

lemma published_cancel:
  "\<lbrakk>published s; \<not> terminal (os_phase s)\<rbrakk> \<Longrightarrow> published (s\<lparr>os_cancel_requested := True\<rparr>)"
  by (auto simp: published_def terminal_def split: operation_phase.splits)

lemma call_step_inv: "\<lbrakk>call_step c c'; operation_inv c\<rbrakk> \<Longrightarrow> operation_inv c'"
proof (induction rule: call_step.induct)
  case (start s s' cs)
  then show ?case by (auto simp: operation_inv_def op_start_def pc_kinds split: if_splits)
next
  case (cancel s hook s' w cs)
  then have go: "\<not> terminal (os_phase s)" "\<not> os_cancel_requested s" by (auto simp: cancel_enter_def split: if_splits)
  with cancel have cs: "cs = {#}" by (auto simp: operation_inv_def)
  show ?case
  proof (cases "os_started s")
    case False
    with cancel go have "hook = None" "s' = s\<lparr>os_cancel_requested := True, os_phase := Phase_cancelled, os_error := Some op_cancelled_error\<rparr>"
      by (auto simp: cancel_enter_def Let_def)
    with False cancel.prems go cs show ?thesis
      by (auto simp: operation_inv_def pc_kinds published_def terminal_def)
  next
    case True
    with cancel go have s': "hook = map_option hr_callback (os_cancellation_hook s)"
      "s' = (if os_cancellation_hook s = None then s\<lparr>os_cancel_requested := True\<rparr>
         else s\<lparr>os_cancel_requested := True, os_hook_invocations_in_flight := os_hook_invocations_in_flight s + 1\<rparr>)"
      by (auto simp: cancel_enter_def Let_def split: option.splits)
    have "published (s\<lparr>os_cancel_requested := True\<rparr>)" using published_cancel cancel.prems go by (auto simp: operation_inv_def)
    with True cancel.prems go cs s' show ?thesis
      by (auto simp: operation_inv_def pc_kinds)
  qed
qed

lemma task_step_inv: "\<lbrakk>task_step c c'; operation_inv c\<rbrakk> \<Longrightarrow> operation_inv c'"
proof (induction rule: task_step.induct)
  case (register hook s result s' cs)
  then show ?case
    by (auto simp: operation_inv_def register_enter_def pc_kinds split: if_splits option.splits)
next
  case (unregister s cs generation)
  then show ?case
    by (auto simp: operation_inv_def unregister_enter_def pc_kinds split: option.splits)
qed

lemma own_step_inv: "\<lbrakk>own_step c c'; operation_inv c\<rbrakk> \<Longrightarrow> operation_inv c'"
proof (induction rule: own_step.induct)
  case (enter s task s' cs)
  then show ?case
    by (auto simp: operation_inv_def run_enter_def pc_kinds published_def split: if_splits)
next
  case (publish s outcome cs)
  then show ?case
    using settle_outcome_facts [of "os_cancel_requested s" outcome]
    by (auto simp: operation_inv_def publish_terminal_def pc_kinds published_def Let_def terminal_def
        split: operation_phase.splits)
qed (auto simp: operation_inv_def run_enter_def request_stop_def finish_hook_invocation_def clear_hook_def pc_kinds
      split: if_splits)

lemma operation_reach_inv: "operation_reach c \<Longrightarrow> operation_inv c"
proof (induction rule: operation_reach.induct)
  case (init task)
  then show ?case by (simp add: operation_inv_def new_operation_def pc_kinds published_def)
next
  case (step c c')
  then show ?case
    by (auto elim!: operation_stepE intro: call_step_inv task_step_inv own_step_inv)
qed

section \<open>Finality\<close>

definition same_result :: "operation_state \<Rightarrow> operation_state \<Rightarrow> bool" where
  "same_result s s' \<longleftrightarrow>
     os_phase s' = os_phase s \<and> os_error s' = os_error s \<and> os_command_result s' = os_command_result s \<and>
     os_cancel_requested s' = os_cancel_requested s"

lemma terminal_step:
  assumes "operation_step c c'" and "operation_inv c" and "terminal (os_phase (fst c))"
  shows "same_result (fst c) (fst c')"
proof -
  from assms(1) consider "call_step c c'" | "task_step c c'" | "own_step c c'" by (auto elim: operation_stepE)
  then show ?thesis
  proof cases
    case 1
    then show ?thesis
      using assms(3) by cases (auto simp: same_result_def op_start_def cancel_enter_def terminal_def split: if_splits)
  next
    case 2
    then show ?thesis
      using assms(2,3) by cases (auto simp: operation_inv_def running_worker_def terminal_def)
  next
    case 3
    then show ?thesis
      using assms(2,3)
      by cases (auto simp: operation_inv_def same_result_def running_worker_def terminal_def run_enter_def
          request_stop_def finish_hook_invocation_def split: if_splits)
  qed
qed

section \<open>Progress\<close>

definition worker_rank :: "worker_pc \<Rightarrow> nat" where
  "worker_rank w =
     (case w of
        Worker_absent \<Rightarrow> 0 | Worker_start \<Rightarrow> 7 | Worker_poll task \<Rightarrow> 6 | Worker_invoke h \<Rightarrow> 5 | Worker_unregister \<Rightarrow> 5
      | Worker_task \<Rightarrow> 4 | Worker_clear out \<Rightarrow> 3 | Worker_drain out \<Rightarrow> 2 | Worker_publish out \<Rightarrow> 1 | Worker_done \<Rightarrow> 0)"

definition cancel_rank :: "cancel_pc \<Rightarrow> nat" where
  "cancel_rank c = (case c of Cancel_stop h \<Rightarrow> 3 | Cancel_call h \<Rightarrow> 2 | Cancel_finish \<Rightarrow> 1)"

definition remaining_work :: "operation \<Rightarrow> nat" where
  "remaining_work c = (case c of (s, w, cs) \<Rightarrow> worker_rank w + sum_mset (image_mset cancel_rank cs))"

lemma own_step_decreases: "own_step c c' \<Longrightarrow> remaining_work c' < remaining_work c"
  by (induction rule: own_step.induct) (simp_all add: remaining_work_def worker_rank_def cancel_rank_def split: bool.split)

lemma canceller_moves: "cs \<noteq> {#} \<Longrightarrow> \<exists>c'. own_step (s, w, cs) c'"
proof -
  assume "cs \<noteq> {#}"
  then obtain c cs' where cs: "cs = add_mset c cs'" by (metis multiset_cases)
  show ?thesis
  proof (cases c)
    case (Cancel_stop hook)
    then show ?thesis using stop_only stop_and_call cs by (cases hook) blast+
  qed (use cs hook_returns finish in blast)+
qed

lemma own_step_enabled:
  assumes "operation_inv (s, w, cs)" and "os_started s" and "\<not> terminal (os_phase s)"
  shows "\<exists>c'. own_step (s, w, cs) c'"
proof (cases "cs = {#}")
  case False
  then show ?thesis by (rule canceller_moves)
next
  case True
  with assms have idle: "os_hook_invocations_in_flight s = 0" and w: "w \<noteq> Worker_absent" "w \<noteq> Worker_done"
    by (auto simp: operation_inv_def)
  show ?thesis
  proof (cases w)
    case Worker_start
    with assms(1) have "os_phase s = Phase_created" by (simp add: operation_inv_def)
    then have "run_enter s = (Some (os_task s), s\<lparr>os_phase := Phase_running, os_task := False\<rparr>)"
      by (simp add: run_enter_def)
    from enter [OF this] Worker_start show ?thesis by blast
  next
    case (Worker_poll task)
    then show ?thesis
      using stopped [of s task cs] no_task [of s cs] run_task [of s cs] by (cases "os_stop_requested s"; cases task) metis+
  next
    case Worker_unregister
    then show ?thesis using unregistered [OF idle] by blast
  next
    case (Worker_drain outcome)
    then show ?thesis using drained [OF idle] by blast
  qed (use w in \<open>blast intro: invoked task_ends clear publish\<close>)+
qed

lemma completes_from:
  assumes "operation_inv c" and "os_started (fst c)"
  shows "\<exists>c'. own_step\<^sup>*\<^sup>* c c' \<and> terminal (os_phase (fst c'))"
  using assms
proof (induction "remaining_work c" arbitrary: c rule: less_induct)
  case less
  show ?case
  proof (cases "terminal (os_phase (fst c))")
    case False
    obtain s w cs where c: "c = (s, w, cs)" by (cases c)
    with own_step_enabled [of s w cs] less.prems False obtain c1 where one: "own_step c c1" by auto
    have "os_started (fst c1)"
      using one less.prems(2) by cases (auto simp: run_enter_def clear_hook_def publish_terminal_def request_stop_def
          finish_hook_invocation_def Let_def split: if_splits)
    from less.hyps [OF own_step_decreases [OF one] own_step_inv [OF one less.prems(1)] this] one show ?thesis
      by (meson converse_rtranclp_into_rtranclp)
  qed blast
qed

section \<open>Properties\<close>

text \<open>
  C10. In every state that an operation can reach, whatever the task does and whenever \<^verbatim>\<open>start\<close> and \<^verbatim>\<open>cancel\<close> are called
  from any number of threads: once the phase is terminal no cancellation hook is registered and no call of \<^verbatim>\<open>cancel\<close> is
  about to invoke one or inside one; success means that no cancellation was requested before it was published and that
  there is no error, failure and cancellation carry an error and no result; at most one call of \<^verbatim>\<open>cancel\<close> ever gets past
  its guard; and a worker that is through has published a terminal phase.
\<close>

theorem operation_states:
  assumes "operation_reach (s, w, cs)"
  shows "(terminal (os_phase s) \<longrightarrow>
            os_cancellation_hook s = None \<and> os_hook_invocations_in_flight s = 0 \<and> (\<forall>c \<in># cs. c = Cancel_stop None)) \<and>
         (os_phase s = Phase_succeeded \<longrightarrow> \<not> os_cancel_requested s \<and> os_error s = None \<and> op_status s = KB_OK) \<and>
         (os_phase s \<in> {Phase_failed, Phase_cancelled} \<longrightarrow> os_error s \<noteq> None \<and> os_command_result s = None) \<and>
         size cs \<le> 1 \<and> (w = Worker_done \<longrightarrow> terminal (os_phase s)) \<and>
         (joined_worker w \<and> os_started s \<longrightarrow> terminal (os_phase s))"
proof -
  note inv = operation_reach_inv [OF assms]
  have over: "drained_worker w" "\<not> may_hold_hook w" if "terminal (os_phase s)"
    using inv that by (cases w; auto simp: operation_inv_def pc_kinds terminal_def)+
  have quiet: "\<forall>c \<in># cs. c = Cancel_stop None" if "terminal (os_phase s)"
    using inv over(1) [OF that] by (auto simp: operation_inv_def with_hook_def)
  have "size cs \<le> 1" using inv by (auto simp: operation_inv_def split: if_splits)
  with inv over quiet show ?thesis
    by (auto simp: operation_inv_def published_def op_status_def joined_worker_def split: operation_phase.splits)
qed

text \<open>
  C25. A terminal phase is final: from there on, no step of any thread and no further call changes the phase, the error, the
  result or whether a cancellation counts as requested.
\<close>

theorem terminal_phase_final:
  assumes "operation_reach c" and "terminal (os_phase (fst c))" and "operation_step\<^sup>*\<^sup>* c c'"
  shows "same_result (fst c) (fst c')"
  using assms(3)
proof (induction rule: rtranclp_induct)
  case (step c1 c2)
  have "operation_reach c1" using step.hyps(1) assms(1) by (induction rule: rtranclp_induct) (auto intro: operation_reach.step)
  moreover have "terminal (os_phase (fst c1))" using step.IH assms(2) by (simp add: same_result_def)
  ultimately show ?case
    using terminal_step [OF step.hyps(2)] operation_reach_inv step.IH by (auto simp: same_result_def)
qed (simp add: same_result_def)

text \<open>
  C18. A started operation ends. In every reachable state after \<^verbatim>\<open>start\<close> that is not terminal some thread can move, so that
  no wait for a running hook deadlocks; every move that is neither a new call nor a registration of the task decreases the
  remaining work; and so the threads, left to themselves once the task returns, reach a terminal phase. Hooks are taken to return and
  not to call the operation again.
\<close>

theorem operation_completes:
  assumes "operation_reach c" and "os_started (fst c)"
  shows "(\<not> terminal (os_phase (fst c)) \<longrightarrow> (\<exists>c'. own_step c c')) \<and>
         (\<forall>c'. own_step c c' \<longrightarrow> remaining_work c' < remaining_work c) \<and>
         (\<exists>c'. own_step\<^sup>*\<^sup>* c c' \<and> terminal (os_phase (fst c')))"
proof -
  obtain s w cs where c: "c = (s, w, cs)" by (cases c)
  note inv = operation_reach_inv [OF assms(1)]
  from own_step_enabled [of s w cs] inv assms(2) own_step_decreases completes_from [OF inv assms(2)] show ?thesis
    by (auto simp: c)
qed

section \<open>A cancelled run\<close>

definition example_task_state :: operation_state where
  "example_task_state = (new_operation True)\<lparr>os_started := True, os_phase := Phase_running, os_task := False\<rparr>"

lemma example_reach: "operation_reach (example_task_state, Worker_task, {#})"
proof -
  let ?s1 = "(new_operation True)\<lparr>os_started := True\<rparr>"
  have "call_step (new_operation True, Worker_absent, {#}) (?s1, Worker_start, {#})"
    by (rule call_step.start) (simp add: op_start_def new_operation_def)
  moreover have "own_step (?s1, Worker_start, {#}) (example_task_state, Worker_poll True, {#})"
    by (rule own_step.enter) (simp add: run_enter_def new_operation_def example_task_state_def)
  moreover have "own_step (example_task_state, Worker_poll True, {#}) (example_task_state, Worker_task, {#})"
    by (rule own_step.run_task) (simp add: new_operation_def example_task_state_def)
  ultimately show ?thesis
    using operation_reach.init operation_reach.step operation_step.call operation_step.own by meson
qed

definition example_final :: operation_state where
  "example_final = example_task_state\<lparr>os_phase := Phase_succeeded\<rparr>"

lemma example_reach_final: "operation_reach (example_final, Worker_done, {#})"
proof -
  let ?out = "outcome_succeeded None"
  have "own_step (example_task_state, Worker_task, {#}) (example_task_state, Worker_clear ?out, {#})"
    using own_step.task_ends [of example_task_state "{#}" "Task_returned ?out"] by (simp add: task_outcome_def)
  moreover have "own_step (example_task_state, Worker_clear ?out, {#}) (example_task_state, Worker_drain ?out, {#})"
    using own_step.clear [of example_task_state ?out "{#}"]
    by (simp add: clear_hook_def example_task_state_def new_operation_def)
  moreover have "own_step (example_task_state, Worker_drain ?out, {#}) (example_task_state, Worker_publish ?out, {#})"
    by (rule own_step.drained) (simp add: example_task_state_def new_operation_def)
  moreover have "own_step (example_task_state, Worker_publish ?out, {#}) (example_final, Worker_done, {#})"
    using own_step.publish [of example_task_state ?out "{#}"]
    by (simp add: publish_terminal_def settle_outcome_def outcome_succeeded_def terminal_def Let_def example_final_def
        example_task_state_def new_operation_def)
  ultimately show ?thesis
    using example_reach operation_reach.step operation_step.own by meson
qed

theorem operation_states_witness:
  "terminal (os_phase example_final) \<and> os_cancellation_hook example_final = None \<and> op_status example_final = KB_OK"
proof -
  have "os_phase example_final = Phase_succeeded" by (simp add: example_final_def)
  with operation_states [OF example_reach_final] show ?thesis by (auto simp: terminal_def)
qed

definition example_cancelled :: operation_state where
  "example_cancelled =
     (new_operation True)\<lparr>os_cancel_requested := True, os_phase := Phase_cancelled, os_error := Some op_cancelled_error\<rparr>"

theorem terminal_phase_final_witness:
  "operation_reach (example_cancelled, Worker_absent, {#Cancel_stop None#}) \<and>
   operation_step (example_cancelled, Worker_absent, {#Cancel_stop None#}) (request_stop example_cancelled, Worker_absent, {#}) \<and>
   same_result example_cancelled (request_stop example_cancelled)"
proof -
  have "call_step (new_operation True, Worker_absent, {#}) (example_cancelled, Worker_absent, {#Cancel_stop None#})"
    by (rule call_step.cancel) (simp add: cancel_enter_def new_operation_def terminal_def example_cancelled_def)
  then have reach: "operation_reach (example_cancelled, Worker_absent, {#Cancel_stop None#})"
    using operation_reach.init operation_reach.step operation_step.call by meson
  have step: "operation_step (example_cancelled, Worker_absent, {#Cancel_stop None#})
      (request_stop example_cancelled, Worker_absent, {#})"
    by (rule operation_step.own, rule own_step.stop_only)
  have "terminal (os_phase (fst (example_cancelled, Worker_absent, {#Cancel_stop None#})))"
    by (simp add: example_cancelled_def terminal_def)
  from terminal_phase_final [OF reach this r_into_rtranclp, OF step] reach step show ?thesis by simp
qed

theorem operation_completes_witness:
  "\<exists>c'. own_step\<^sup>*\<^sup>* (example_task_state, Worker_task, {#}) c' \<and> terminal (os_phase (fst c'))"
proof -
  have "os_started (fst (example_task_state, Worker_task, {#} :: cancel_pc multiset))" by (simp add: example_task_state_def)
  from operation_completes [OF example_reach this] show ?thesis by blast
qed

end
