(* ===== verification/Super_Metadata.thy ===== *)
theory Super_Metadata
  imports Sha256 "HOL-Library.Product_Lexorder"
begin

text \<open>
  The reading half of \<^verbatim>\<open>src/image/super_metadata.cpp\<close>: the geometry of a fetched super partition, with its backup, and the
  logical partition metadata of one slot, with its checksums, tables and the checks between them.

  Unsigned integers are naturals below the bound of their type; a field of \<open>n\<close> octets is read by \<open>read_le n\<close>. Where the
  source computes without a check the wrap-around of \<^verbatim>\<open>std::uint64_t\<close> is written out (\<open>u64_add\<close>, \<open>u64_sub\<close>, \<open>u64_mul\<close>).
\<close>

section \<open>Arithmetic of 64-bit unsigned integers\<close>

definition u64_add :: "nat \<Rightarrow> nat \<Rightarrow> nat" where
  "u64_add a b = (a + b) mod 2 ^ 64"

definition u64_sub :: "nat \<Rightarrow> nat \<Rightarrow> nat" where
  "u64_sub a b = (a + 2 ^ 64 - b) mod 2 ^ 64"

definition u64_mul :: "nat \<Rightarrow> nat \<Rightarrow> nat" where
  "u64_mul a b = (a * b) mod 2 ^ 64"

section \<open>Results\<close>

definition and_then :: "'e + 'a \<Rightarrow> ('a \<Rightarrow> 'e + 'b) \<Rightarrow> 'e + 'b" where
  "and_then r f = (case r of Inl e \<Rightarrow> Inl e | Inr x \<Rightarrow> f x)"

text \<open>A loop that appends one result per element and returns the first error.\<close>

fun collect :: "('a \<Rightarrow> 'e + 'b) \<Rightarrow> 'a list \<Rightarrow> 'e + 'b list" where
  "collect f [] = Inr []"
| "collect f (x # xs) = and_then (f x) (\<lambda>y. and_then (collect f xs) (\<lambda>ys. Inr (y # ys)))"

lemma and_then_Inr [simp]: "and_then r f = Inr y \<longleftrightarrow> (\<exists>x. r = Inr x \<and> f x = Inr y)"
  by (auto simp: and_then_def split: sum.splits)

lemma and_then_simps [simp]: "and_then (Inr x) f = f x" "and_then (Inl e) f = Inl e"
  by (simp_all add: and_then_def)

lemma collect_Inr: "collect f xs = Inr ys \<longleftrightarrow> list_all2 (\<lambda>x y. f x = Inr y) xs ys"
  by (induction xs arbitrary: ys) (auto simp: list_all2_Cons1)

section \<open>Constants\<close>

definition kGeometryMagic :: nat where "kGeometryMagic = 0x616c4467"
definition kHeaderMagic :: nat where "kHeaderMagic = 0x414c5030"
definition kMetadataMajorVersion :: nat where "kMetadataMajorVersion = 10"
definition kMaximumMetadataMinorVersion :: nat where "kMaximumMetadataMinorVersion = 2"
definition kSectorSize :: nat where "kSectorSize = 512"
definition kReservedBytes :: nat where "kReservedBytes = 4096"
definition kGeometrySize :: nat where "kGeometrySize = 4096"
definition kPrimaryGeometryOffset :: nat where "kPrimaryGeometryOffset = kReservedBytes"
definition kBackupGeometryOffset :: nat where "kBackupGeometryOffset = kReservedBytes + kGeometrySize"
definition kPrimaryMetadataOffset :: nat where "kPrimaryMetadataOffset = kReservedBytes + 2 * kGeometrySize"
definition kGeometryStructSize :: nat where "kGeometryStructSize = 52"
definition kHeaderV10Size :: nat where "kHeaderV10Size = 128"
definition kHeaderV12Size :: nat where "kHeaderV12Size = 256"
definition kPartitionEntrySize :: nat where "kPartitionEntrySize = 52"
definition kExtentEntrySize :: nat where "kExtentEntrySize = 24"
definition kGroupEntrySize :: nat where "kGroupEntrySize = 48"
definition kBlockDeviceEntrySize :: nat where "kBlockDeviceEntrySize = 64"
definition kLinearExtent :: nat where "kLinearExtent = 0"
definition kZeroExtent :: nat where "kZeroExtent = 1"
definition kMaximumMetadataBytes :: nat where "kMaximumMetadataBytes = 1024 * 1024"

section \<open>Data\<close>

datatype super_metadata_error_kind =
  Super_malformed | Super_unsupported | Super_partition_not_found | Super_no_space | Super_overflow

record super_metadata_error =
  sme_kind :: super_metadata_error_kind
  sme_message :: string

definition super_error :: "super_metadata_error_kind \<Rightarrow> string \<Rightarrow> super_metadata_error" where
  "super_error kind message = \<lparr>sme_kind = kind, sme_message = message\<rparr>"

record geometry =
  metadata_max_size :: nat
  metadata_slot_count :: nat
  logical_block_size :: nat

record descriptor =
  desc_offset :: nat
  desc_count :: nat
  desc_entry_size :: nat

record lp_partition =
  lp_raw :: "byte list"
  lp_name :: string
  lp_attributes :: nat
  lp_group_index :: nat
  lp_extent_indices :: "nat list"

record extent =
  ex_raw :: "byte list"
  ex_sectors :: nat
  ex_type :: nat
  ex_target_data :: nat
  ex_target_source :: nat

record lp_group =
  gr_raw :: "byte list"
  gr_maximum_size :: nat

record block_device =
  bd_raw :: "byte list"
  bd_first_sector :: nat
  bd_alignment :: nat
  bd_alignment_offset :: nat
  bd_size :: nat

record metadata =
  md_geometry :: geometry
  md_slot :: nat
  md_header :: "byte list"
  md_minor_version :: nat
  md_partition_descriptor :: descriptor
  md_extent_descriptor :: descriptor
  md_group_descriptor :: descriptor
  md_block_device_descriptor :: descriptor
  md_partitions :: "lp_partition list"
  md_extents :: "extent list"
  md_groups :: "lp_group list"
  md_block_devices :: "block_device list"

section \<open>Fields and checksums\<close>

definition read_le :: "nat \<Rightarrow> byte list \<Rightarrow> nat \<Rightarrow> nat option" where
  "read_le width bytes offset =
     (if length bytes < offset \<or> length bytes - offset < width then None
      else Some (foldl (\<lambda>v index. v OR push_bit (index * 8) (unat (bytes ! (offset + index)))) 0 [0..<width]))"

definition sm_digest :: "byte list \<Rightarrow> byte list" where
  "sm_digest bytes = sha_finish (sha_update bytes new_sha256_state)"

definition checksum_matches :: "byte list \<Rightarrow> nat \<Rightarrow> bool" where
  "checksum_matches bytes checksum_offset \<longleftrightarrow>
     \<not> (length bytes < checksum_offset \<or> length bytes - checksum_offset < kSha256DigestSize) \<and>
     (let expected = take kSha256DigestSize (drop checksum_offset bytes);
          copy = write_span bytes checksum_offset (replicate kSha256DigestSize 0)
      in sm_digest copy = expected)"

section \<open>Geometry\<close>

definition parse_geometry_at :: "byte list \<Rightarrow> nat \<Rightarrow> geometry option" where
  "parse_geometry_at bytes offset =
     (if length bytes < offset \<or> length bytes - offset < kGeometryStructSize then None
      else
        let geometry_bytes = take kGeometryStructSize (drop offset bytes) in
        case (read_le 4 geometry_bytes 0, read_le 4 geometry_bytes 4, read_le 4 geometry_bytes 40,
              read_le 4 geometry_bytes 44, read_le 4 geometry_bytes 48) of
          (Some magic, Some structure_size, Some maximum, Some slots, Some logical_block) \<Rightarrow>
            if magic \<noteq> kGeometryMagic \<or> structure_size \<noteq> kGeometryStructSize \<or>
               \<not> checksum_matches geometry_bytes 8 \<or> maximum = 0 \<or>
               kMaximumMetadataBytes < maximum \<or> maximum mod kSectorSize \<noteq> 0 \<or>
               slots = 0 \<or> 32 < slots \<or> logical_block < kSectorSize \<or>
               logical_block mod kSectorSize \<noteq> 0
            then None
            else Some \<lparr>metadata_max_size = maximum, metadata_slot_count = slots, logical_block_size = logical_block\<rparr>
        | _ \<Rightarrow> None)"

definition parse_geometry :: "byte list \<Rightarrow> super_metadata_error + geometry" where
  "parse_geometry bytes =
     (case parse_geometry_at bytes kPrimaryGeometryOffset of
        Some primary \<Rightarrow> Inr primary
      | None \<Rightarrow>
          (case parse_geometry_at bytes kBackupGeometryOffset of
             Some backup \<Rightarrow> Inr backup
           | None \<Rightarrow> Inl (super_error Super_malformed ''fetched super image has no valid primary or backup geometry'')))"

definition metadata_slot_for :: "string \<Rightarrow> geometry \<Rightarrow> nat option" where
  "metadata_slot_for name geometry =
     (if 2 \<le> length name \<and> name ! (length name - 2) = CHR ''_'' \<and>
         of_char CHR ''a'' \<le> (of_char (last name) :: nat) \<and> of_char (last name) \<le> (of_char CHR ''z'' :: nat)
      then let slot = of_char (last name) - of_char CHR ''a'' in
           if slot < metadata_slot_count geometry then Some slot else None
      else Some 0)"

section \<open>Tables\<close>

definition checked_table_bytes :: "descriptor \<Rightarrow> nat \<Rightarrow> nat option" where
  "checked_table_bytes d tables_size =
     (if desc_entry_size d = 0 \<or> u64_max div desc_entry_size d < desc_count d then None
      else let result = desc_count d * desc_entry_size d in
           if desc_offset d \<le> tables_size \<and> result \<le> tables_size - desc_offset d then Some result else None)"

definition read_descriptor :: "byte list \<Rightarrow> nat \<Rightarrow> descriptor option" where
  "read_descriptor header offset =
     (case (read_le 4 header offset, read_le 4 header (offset + 4), read_le 4 header (offset + 8)) of
        (Some table_offset, Some count, Some entry_size) \<Rightarrow>
          Some \<lparr>desc_offset = table_offset, desc_count = count, desc_entry_size = entry_size\<rparr>
      | _ \<Rightarrow> None)"

definition name_octet :: "byte \<Rightarrow> bool" where
  "name_octet b \<longleftrightarrow>
     (let character = unat b in
      (of_char CHR ''0'' \<le> character \<and> character \<le> of_char CHR ''9'') \<or>
      (of_char CHR ''A'' \<le> character \<and> character \<le> of_char CHR ''Z'') \<or>
      (of_char CHR ''a'' \<le> character \<and> character \<le> of_char CHR ''z'') \<or>
      character = of_char CHR ''_'')"

definition parse_name :: "byte list \<Rightarrow> string option" where
  "parse_name bytes =
     (let octets = takeWhile (\<lambda>b. b \<noteq> 0) bytes in
      if octets = [] then None
      else if list_all name_octet octets then Some (map char_of_byte octets) else None)"

definition table_entry :: "byte list \<Rightarrow> descriptor \<Rightarrow> nat \<Rightarrow> byte list" where
  "table_entry tables d index = take (desc_entry_size d) (drop (desc_offset d + index * desc_entry_size d) tables)"

definition parse_extent :: "byte list \<Rightarrow> super_metadata_error + extent" where
  "parse_extent entry =
     (case (read_le 8 entry 0, read_le 4 entry 8, read_le 8 entry 12, read_le 4 entry 20) of
        (Some sectors, Some type, Some target_data, Some target_source) \<Rightarrow>
          if type \<noteq> kLinearExtent \<and> type \<noteq> kZeroExtent
          then Inl (super_error Super_malformed ''logical partition extent is invalid'')
          else Inr \<lparr>ex_raw = entry, ex_sectors = sectors, ex_type = type, ex_target_data = target_data,
                    ex_target_source = target_source\<rparr>
      | _ \<Rightarrow> Inl (super_error Super_malformed ''logical partition extent is invalid''))"

definition parse_group :: "byte list \<Rightarrow> super_metadata_error + lp_group" where
  "parse_group entry =
     (case read_le 8 entry 40 of
        Some maximum \<Rightarrow> Inr \<lparr>gr_raw = entry, gr_maximum_size = maximum\<rparr>
      | None \<Rightarrow> Inl (super_error Super_malformed ''logical partition group is invalid''))"

definition parse_block_device :: "byte list \<Rightarrow> super_metadata_error + block_device" where
  "parse_block_device entry =
     (case (read_le 8 entry 0, read_le 4 entry 8, read_le 4 entry 12, read_le 8 entry 16) of
        (Some first, Some alignment, Some alignment_offset, Some byte_size) \<Rightarrow>
          if byte_size = 0 \<or> byte_size mod kSectorSize \<noteq> 0 \<or> byte_size div kSectorSize \<le> first \<or>
             (alignment \<noteq> 0 \<and> alignment mod kSectorSize \<noteq> 0)
          then Inl (super_error Super_malformed ''logical partition block device is invalid'')
          else Inr \<lparr>bd_raw = entry, bd_first_sector = first, bd_alignment = alignment,
                    bd_alignment_offset = alignment_offset, bd_size = byte_size\<rparr>
      | _ \<Rightarrow> Inl (super_error Super_malformed ''logical partition block device is invalid''))"

text \<open>The check of an extent against the block device it names. The subtraction is not guarded.\<close>

definition exceeds_device :: "block_device list \<Rightarrow> extent \<Rightarrow> bool" where
  "exceeds_device devices e \<longleftrightarrow>
     ex_type e = kLinearExtent \<and>
     (length devices \<le> ex_target_source e \<or>
      ex_target_data e < bd_first_sector (devices ! ex_target_source e) \<or>
      u64_sub (bd_size (devices ! ex_target_source e) div kSectorSize) (ex_target_data e) < ex_sectors e)"

section \<open>Partitions\<close>

text \<open>The inner loop over the extents of a partition.\<close>

fun own_extents :: "nat list \<Rightarrow> bool list \<Rightarrow> super_metadata_error + bool list" where
  "own_extents [] owned = Inr owned"
| "own_extents (extent_index # rest) owned =
     (if owned ! extent_index
      then Inl (super_error Super_malformed ''logical partition extents have multiple owners'')
      else own_extents rest (owned[extent_index := True]))"

definition parse_partition ::
  "nat \<Rightarrow> nat \<Rightarrow> byte list \<Rightarrow> bool list \<Rightarrow> string list \<Rightarrow> super_metadata_error + lp_partition \<times> bool list" where
  "parse_partition group_count extent_count entry owned names =
     (case (parse_name (take 36 entry), read_le 4 entry 36, read_le 4 entry 40, read_le 4 entry 44, read_le 4 entry 48) of
        (Some name, Some attributes, Some first, Some count, Some group_index) \<Rightarrow>
          if name \<in> set names \<or> group_count \<le> group_index \<or> extent_count < first \<or> extent_count - first < count
          then Inl (super_error Super_malformed ''logical partition entry is invalid'')
          else and_then (own_extents [first..<first + count] owned) (\<lambda>owned.
            Inr (\<lparr>lp_raw = entry, lp_name = name, lp_attributes = attributes, lp_group_index = group_index,
                  lp_extent_indices = [first..<first + count]\<rparr>, owned))
      | _ \<Rightarrow> Inl (super_error Super_malformed ''logical partition entry is invalid''))"

text \<open>The loop over the entries; \<open>names\<close> are the names inserted so far.\<close>

fun parse_partitions ::
  "nat \<Rightarrow> nat \<Rightarrow> byte list list \<Rightarrow> bool list \<Rightarrow> string list \<Rightarrow>
   super_metadata_error + lp_partition list \<times> bool list" where
  "parse_partitions group_count extent_count [] owned names = Inr ([], owned)"
| "parse_partitions group_count extent_count (entry # entries) owned names =
     and_then (parse_partition group_count extent_count entry owned names) (\<lambda>(p, owned).
     and_then (parse_partitions group_count extent_count entries owned (lp_name p # names)) (\<lambda>(ps, owned).
     Inr (p # ps, owned)))"

section \<open>Metadata\<close>

text \<open>The fixed fields of the header: minor version, header size and tables size.\<close>

definition parse_header :: "byte list \<Rightarrow> super_metadata_error + nat \<times> nat \<times> nat" where
  "parse_header area =
     (case (read_le 4 area 0, read_le 2 area 4, read_le 2 area 6, read_le 4 area 8, read_le 4 area 44) of
        (Some magic, Some major, Some minor, Some header_size, Some tables_size) \<Rightarrow>
          if magic \<noteq> kHeaderMagic \<or> major \<noteq> kMetadataMajorVersion \<or> kMaximumMetadataMinorVersion < minor \<or>
             (header_size \<noteq> kHeaderV10Size \<and> header_size \<noteq> kHeaderV12Size) \<or>
             length area < header_size \<or> length area - header_size < tables_size
          then Inl (super_error Super_malformed ''logical partition metadata header is invalid'')
          else Inr (minor, header_size, tables_size)
      | _ \<Rightarrow> Inl (super_error Super_malformed ''logical partition metadata header is invalid''))"

definition parse_descriptors ::
  "byte list \<Rightarrow> super_metadata_error + descriptor \<times> descriptor \<times> descriptor \<times> descriptor" where
  "parse_descriptors header =
     (case (read_descriptor header 80, read_descriptor header 92, read_descriptor header 104,
            read_descriptor header 116) of
        (Some p, Some e, Some g, Some d) \<Rightarrow>
          if desc_entry_size p < kPartitionEntrySize \<or> desc_entry_size e < kExtentEntrySize \<or>
             desc_entry_size g < kGroupEntrySize \<or> desc_entry_size d < kBlockDeviceEntrySize
          then Inl (super_error Super_unsupported ''logical partition table layout is unsupported'')
          else Inr (p, e, g, d)
      | _ \<Rightarrow> Inl (super_error Super_unsupported ''logical partition table layout is unsupported''))"

definition table_range :: "nat \<Rightarrow> descriptor \<Rightarrow> super_metadata_error + nat \<times> nat" where
  "table_range tables_size d =
     (case checked_table_bytes d tables_size of
        None \<Rightarrow> Inl (super_error Super_malformed ''logical partition table exceeds metadata bounds'')
      | Some bytes \<Rightarrow> Inr (desc_offset d, desc_offset d + bytes))"

definition check_ranges :: "(nat \<times> nat) list \<Rightarrow> super_metadata_error + unit" where
  "check_ranges ranges =
     (let sorted = sort ranges in
      if list_ex (\<lambda>index. fst (sorted ! index) < snd (sorted ! (index - 1))) [1..<length sorted]
      then Inl (super_error Super_malformed ''logical partition tables overlap'')
      else Inr ())"

definition table_entries :: "byte list \<Rightarrow> descriptor \<Rightarrow> byte list list" where
  "table_entries tables d = map (table_entry tables d) [0..<desc_count d]"

definition parse_tables ::
  "byte list \<Rightarrow> descriptor \<times> descriptor \<times> descriptor \<times> descriptor \<Rightarrow>
   super_metadata_error + lp_partition list \<times> extent list \<times> lp_group list \<times> block_device list" where
  "parse_tables tables = (\<lambda>(p, e, g, d).
     and_then (collect parse_extent (table_entries tables e)) (\<lambda>extents.
     and_then (collect parse_group (table_entries tables g)) (\<lambda>groups.
     and_then (collect parse_block_device (table_entries tables d)) (\<lambda>devices.
     if devices = [] \<or> groups = []
     then Inl (super_error Super_malformed ''logical partition metadata has no group or block device'')
     else if list_ex (exceeds_device devices) extents
     then Inl (super_error Super_malformed ''logical partition extent exceeds its block device'')
     else
       and_then (parse_partitions (length groups) (length extents) (table_entries tables p)
         (replicate (length extents) False) []) (\<lambda>(partitions, owned).
       if False \<in> set owned
       then Inl (super_error Super_malformed ''logical partition metadata has orphan extents'')
       else Inr (partitions, extents, groups, devices))))))"

definition parse_metadata_at :: "byte list \<Rightarrow> geometry \<Rightarrow> nat \<Rightarrow> nat \<Rightarrow> super_metadata_error + metadata" where
  "parse_metadata_at fetched geometry slot offset =
     (if length fetched < offset \<or> length fetched - offset < metadata_max_size geometry
      then Inl (super_error Super_malformed ''fetched super image does not contain the selected metadata slot'')
      else
        let area = take (metadata_max_size geometry) (drop offset fetched) in
        and_then (parse_header area) (\<lambda>(minor, header_size, tables_size).
        let header = take header_size area;
            tables = take tables_size (drop header_size area)
        in
        if \<not> checksum_matches header 12 \<or> sm_digest tables \<noteq> take kSha256DigestSize (drop 48 area)
        then Inl (super_error Super_malformed ''logical partition metadata checksum is invalid'')
        else
          and_then (parse_descriptors header) (\<lambda>(p, e, g, d).
          and_then (collect (table_range (length tables)) [p, e, g, d]) (\<lambda>ranges.
          and_then (check_ranges ranges) (\<lambda>_.
          and_then (parse_tables tables (p, e, g, d)) (\<lambda>(partitions, extents, groups, devices).
          Inr \<lparr>md_geometry = geometry, md_slot = slot, md_header = header, md_minor_version = minor,
               md_partition_descriptor = p, md_extent_descriptor = e, md_group_descriptor = g,
               md_block_device_descriptor = d, md_partitions = partitions, md_extents = extents,
               md_groups = groups, md_block_devices = devices\<rparr>))))))"

definition parse_metadata :: "byte list \<Rightarrow> geometry \<Rightarrow> nat \<Rightarrow> super_metadata_error + metadata" where
  "parse_metadata fetched geometry slot =
     (let primary = kPrimaryMetadataOffset + slot * metadata_max_size geometry;
          backup = kPrimaryMetadataOffset + metadata_slot_count geometry * metadata_max_size geometry +
                   slot * metadata_max_size geometry
      in
      case parse_metadata_at fetched geometry slot primary of
        Inr parsed \<Rightarrow> Inr parsed
      | Inl e \<Rightarrow>
          (case parse_metadata_at fetched geometry slot backup of
             Inr backup_parsed \<Rightarrow> Inr backup_parsed
           | Inl _ \<Rightarrow> Inl e))"

end
