(* ===== verification/Super_Resize.thy ===== *)
theory Super_Resize
  imports Super_Metadata
begin

text \<open>
  The writing half of \<^verbatim>\<open>src/image/super_metadata.cpp\<close>: resizing a logical partition, serializing the metadata of the slot
  and wrapping it into an Android sparse image. A metadata object is passed and returned; on an error the caller drops it,
  so that only the error is returned.
\<close>

section \<open>Sizes\<close>

fun sum_sectors :: "extent list \<Rightarrow> nat list \<Rightarrow> nat \<Rightarrow> super_metadata_error + nat" where
  "sum_sectors extents [] sectors = Inr sectors"
| "sum_sectors extents (index # rest) sectors =
     (let count = ex_sectors (extents ! index) in
      if u64_max - sectors < count
      then Inl (super_error Super_overflow ''logical partition size overflows uint64'')
      else sum_sectors extents rest (sectors + count))"

definition partition_bytes :: "metadata \<Rightarrow> lp_partition \<Rightarrow> super_metadata_error + nat" where
  "partition_bytes md p =
     and_then (sum_sectors (md_extents md) (lp_extent_indices p) 0) (\<lambda>sectors.
       if u64_max div kSectorSize < sectors
       then Inl (super_error Super_overflow ''logical partition byte size overflows uint64'')
       else Inr (sectors * kSectorSize))"

definition sm_align_up :: "nat \<Rightarrow> nat \<Rightarrow> nat" where
  "sm_align_up v alignment =
     (if alignment = 0 \<or> v mod alignment = 0 then v
      else let delta = alignment - v mod alignment in
           if u64_max - v < delta then u64_max else v + delta)"

section \<open>Free space\<close>

definition used_intervals :: "extent list \<Rightarrow> nat \<Rightarrow> (nat \<times> nat) list" where
  "used_intervals extents device_index =
     map (\<lambda>e. (ex_target_data e, u64_add (ex_target_data e) (ex_sectors e)))
       (filter (\<lambda>e. ex_type e = kLinearExtent \<and> ex_target_source e = device_index \<and> ex_sectors e \<noteq> 0) extents)"

definition merge_interval :: "(nat \<times> nat) list \<Rightarrow> nat \<times> nat \<Rightarrow> (nat \<times> nat) list" where
  "merge_interval merged interval =
     (if merged \<noteq> [] \<and> fst interval \<le> snd (last merged)
      then butlast merged @ [(fst (last merged), max (snd (last merged)) (snd interval))]
      else merged @ [interval])"

fun gaps :: "nat \<Rightarrow> nat \<Rightarrow> (nat \<times> nat) list \<Rightarrow> (nat \<times> nat) list" where
  "gaps cursor limit [] = (if cursor < limit then [(cursor, limit)] else [])"
| "gaps cursor limit (interval # rest) =
     (if cursor < fst interval then [(cursor, fst interval)] else []) @ gaps (max cursor (snd interval)) limit rest"

definition free_intervals :: "block_device \<Rightarrow> extent list \<Rightarrow> nat \<Rightarrow> (nat \<times> nat) list" where
  "free_intervals device extents device_index =
     gaps (bd_first_sector device) (bd_size device div kSectorSize)
       (foldl merge_interval [] (sort (used_intervals extents device_index)))"

definition aligned_sector :: "block_device \<Rightarrow> nat \<Rightarrow> nat \<Rightarrow> nat" where
  "aligned_sector device sector logical_block =
     (let alignment = max logical_block (if bd_alignment device = 0 then logical_block else bd_alignment device);
          bytes = u64_mul sector kSectorSize;
          offset = bd_alignment_offset device mod alignment;
          adjusted = (if offset \<le> bytes then bytes - offset else 0);
          aligned = sm_align_up adjusted alignment
      in if aligned = u64_max \<or> u64_max - offset < aligned then u64_max
         else (aligned + offset) div kSectorSize)"

section \<open>Resizing\<close>

definition find_partition :: "metadata \<Rightarrow> string \<Rightarrow> nat option" where
  "find_partition md name = find (\<lambda>i. lp_name (md_partitions md ! i) = name) [0..<length (md_partitions md)]"

text \<open>The loop that adds up the other partitions of the group of the partition at \<open>self\<close>.\<close>

fun group_other_bytes :: "metadata \<Rightarrow> nat \<Rightarrow> nat list \<Rightarrow> nat \<Rightarrow> super_metadata_error + nat" where
  "group_other_bytes md self [] group_other = Inr group_other"
| "group_other_bytes md self (i # rest) group_other =
     (if i = self \<or> lp_group_index (md_partitions md ! i) \<noteq> lp_group_index (md_partitions md ! self)
      then group_other_bytes md self rest group_other
      else case partition_bytes md (md_partitions md ! i) of
        Inl _ \<Rightarrow> Inl (super_error Super_overflow ''logical partition group size overflows'')
      | Inr bytes \<Rightarrow>
          if u64_max - group_other < bytes
          then Inl (super_error Super_overflow ''logical partition group size overflows'')
          else group_other_bytes md self rest (group_other + bytes))"

definition check_group :: "metadata \<Rightarrow> nat \<Rightarrow> nat \<Rightarrow> super_metadata_error + unit" where
  "check_group md self aligned_size =
     (let group_limit = gr_maximum_size (md_groups md ! lp_group_index (md_partitions md ! self)) in
      if group_limit = 0 then Inr ()
      else and_then (group_other_bytes md self [0..<length (md_partitions md)] 0) (\<lambda>group_other.
        if group_limit < group_other \<or> group_limit - group_other < aligned_size
        then Inl (super_error Super_no_space ''logical partition group has insufficient space'')
        else Inr ()))"

text \<open>The loop that removes sectors from the end of a partition, given its extents and its extent indices.\<close>

function shrink_extents :: "extent list \<Rightarrow> nat list \<Rightarrow> nat \<Rightarrow> extent list \<times> nat list \<times> nat" where
  "shrink_extents extents indices remove =
     (if remove \<noteq> 0 \<and> indices \<noteq> [] then
        let e = extents ! last indices in
        if remove < ex_sectors e
        then (extents[last indices := e\<lparr>ex_sectors := ex_sectors e - remove\<rparr>], indices, 0)
        else shrink_extents (extents[last indices := e\<lparr>ex_sectors := 0\<rparr>]) (butlast indices) (remove - ex_sectors e)
      else (extents, indices, remove))"
  by pat_completeness auto
termination by (relation "measure (\<lambda>(_, indices, _). length indices)") auto

declare shrink_extents.simps [simp del]

text \<open>How far the final extent may reach: up to the next extent behind it, or the end of its device.\<close>

definition free_end_after :: "extent list \<Rightarrow> block_device list \<Rightarrow> nat \<Rightarrow> nat \<Rightarrow> nat" where
  "free_end_after extents devices tail_index tail_end =
     foldl (\<lambda>free_end index.
        let candidate = extents ! index in
        if index \<noteq> tail_index \<and> ex_type candidate = kLinearExtent \<and>
           ex_target_source candidate = ex_target_source (extents ! tail_index) \<and> tail_end \<le> ex_target_data candidate
        then min free_end (ex_target_data candidate) else free_end)
       (bd_size (devices ! ex_target_source (extents ! tail_index)) div kSectorSize) [0..<length extents]"

definition extend_tail ::
  "block_device list \<Rightarrow> nat \<Rightarrow> extent list \<Rightarrow> nat list \<Rightarrow> nat \<Rightarrow> extent list \<times> nat" where
  "extend_tail devices logical_sectors extents indices remaining =
     (if indices = [] then (extents, remaining)
      else
        let t = last indices; tail = extents ! t in
        if ex_type tail = kLinearExtent \<and> ex_target_source tail < length devices then
          let tail_end = u64_add (ex_target_data tail) (ex_sectors tail);
              free_end = free_end_after extents devices t tail_end
          in
          if tail_end < free_end then
            let available = free_end - tail_end;
                available = available - available mod logical_sectors;
                amount = min remaining available
            in (extents[t := tail\<lparr>ex_sectors := u64_add (ex_sectors tail) amount\<rparr>], remaining - amount)
          else (extents, remaining)
        else (extents, remaining))"

record allocation =
  al_extents :: "extent list"
  al_indices :: "nat list"
  al_remaining :: nat

definition allocate_interval ::
  "geometry \<Rightarrow> block_device \<Rightarrow> nat \<Rightarrow> nat \<Rightarrow> nat \<Rightarrow> allocation \<Rightarrow> nat \<times> nat \<Rightarrow> allocation" where
  "allocate_interval geometry device device_index entry_size logical_sectors al interval =
     (if al_remaining al = 0 then al
      else
        let start = aligned_sector device (fst interval) (logical_block_size geometry) in
        if start = u64_max \<or> snd interval \<le> start then al
        else
          let available = snd interval - start;
              available = available - available mod logical_sectors;
              amount = min (al_remaining al) available;
              amount = amount - amount mod logical_sectors
          in
          if amount = 0 then al
          else
            al\<lparr>al_extents := al_extents al @
                 [\<lparr>ex_raw = replicate entry_size 0, ex_sectors = amount, ex_type = kLinearExtent,
                   ex_target_data = start, ex_target_source = device_index\<rparr>],
               al_indices := al_indices al @ [length (al_extents al)],
               al_remaining := al_remaining al - amount\<rparr>)"

definition allocate_on_device :: "metadata \<Rightarrow> nat \<Rightarrow> allocation \<Rightarrow> nat \<Rightarrow> allocation" where
  "allocate_on_device md logical_sectors al device_index =
     (if al_remaining al = 0 then al
      else
        let device = md_block_devices md ! device_index in
        foldl (allocate_interval (md_geometry md) device device_index (desc_entry_size (md_extent_descriptor md))
                 logical_sectors)
          al (free_intervals device (al_extents al) device_index))"

definition device_order :: "block_device list \<Rightarrow> extent list \<Rightarrow> nat list \<Rightarrow> nat list" where
  "device_order devices extents indices =
     (let first =
        (if indices = [] then []
         else let source = ex_target_source (extents ! last indices) in
              if source < length devices then [source] else [])
      in foldl (\<lambda>order index. if index \<in> set order then order else order @ [index]) first [0..<length devices])"

definition grow_partition :: "metadata \<Rightarrow> nat list \<Rightarrow> nat \<Rightarrow> allocation" where
  "grow_partition md indices remaining =
     (let logical_sectors = logical_block_size (md_geometry md) div kSectorSize;
          (extents, remaining) = extend_tail (md_block_devices md) logical_sectors (md_extents md) indices remaining
      in foldl (allocate_on_device md logical_sectors)
           \<lparr>al_extents = extents, al_indices = indices, al_remaining = remaining\<rparr>
           (device_order (md_block_devices md) extents indices))"

definition store_partition :: "metadata \<Rightarrow> nat \<Rightarrow> extent list \<Rightarrow> nat list \<Rightarrow> metadata" where
  "store_partition md self extents indices =
     md\<lparr>md_extents := extents,
        md_partitions := (md_partitions md)[self := (md_partitions md ! self)\<lparr>lp_extent_indices := indices\<rparr>]\<rparr>"

definition resize_partition :: "metadata \<Rightarrow> string \<Rightarrow> nat \<Rightarrow> super_metadata_error + metadata" where
  "resize_partition md name requested_size =
     (case find_partition md name of
        None \<Rightarrow> Inl (super_error Super_partition_not_found ''logical partition was not found in super metadata'')
      | Some self \<Rightarrow>
          let p = md_partitions md ! self;
              aligned_size = sm_align_up requested_size (logical_block_size (md_geometry md))
          in
          if aligned_size = u64_max
          then Inl (super_error Super_overflow ''requested logical partition size overflows alignment'')
          else and_then (partition_bytes md p) (\<lambda>current_size.
            if aligned_size = current_size then Inr md
            else if length (md_groups md) \<le> lp_group_index p
            then Inl (super_error Super_malformed ''logical partition group index is invalid'')
            else and_then (check_group md self aligned_size) (\<lambda>_.
              let target_sectors = aligned_size div kSectorSize;
                  partition_sectors = current_size div kSectorSize
              in
              if target_sectors < partition_sectors then
                (case shrink_extents (md_extents md) (lp_extent_indices p) (partition_sectors - target_sectors) of
                   (extents, indices, remove) \<Rightarrow>
                     if remove = 0 then Inr (store_partition md self extents indices)
                     else Inl (super_error Super_malformed ''logical partition shrink exceeded its extents''))
              else
                let al = grow_partition md (lp_extent_indices p) (target_sectors - partition_sectors) in
                if al_remaining al \<noteq> 0
                then Inl (super_error Super_no_space ''super partition has insufficient free space'')
                else Inr (store_partition md self (al_extents al) (al_indices al)))))"

end
