(* ===== verification/Super_Serialize.thy ===== *)
theory Super_Serialize
  imports Super_Resize Sparse_Image
begin

text \<open>
  Serialization of resized metadata into its slot, the sparse image that carries the slot to the device, and the whole
  operation \<^verbatim>\<open>resize_fetched_super_metadata\<close> of \<^verbatim>\<open>src/image/super_metadata.{hpp,cpp}\<close>.
\<close>

section \<open>Writing fields\<close>

definition le_octet :: "nat \<Rightarrow> nat \<Rightarrow> byte" where
  "le_octet v index = word_of_nat (drop_bit (index * 8) v AND 0xFF)"

definition write_le :: "nat \<Rightarrow> byte list \<Rightarrow> nat \<Rightarrow> nat \<Rightarrow> bool \<times> byte list" where
  "write_le width bytes offset v =
     (if length bytes < offset \<or> length bytes - offset < width then (False, bytes)
      else (True, foldl (\<lambda>bytes index. bytes[offset + index := le_octet v index]) bytes [0..<width]))"

definition put_le :: "nat \<Rightarrow> nat \<Rightarrow> nat \<Rightarrow> byte list \<Rightarrow> byte list" where
  "put_le width offset v bytes = snd (write_le width bytes offset v)"

section \<open>Tables\<close>

text \<open>The loop over the partitions that keeps their extents with sectors, in order, and renumbers them.\<close>

definition kept_indices :: "extent list \<Rightarrow> nat list \<Rightarrow> nat list" where
  "kept_indices extents indices = filter (\<lambda>i. i < length extents \<and> ex_sectors (extents ! i) \<noteq> 0) indices"

fun order_extents :: "extent list \<Rightarrow> lp_partition list \<Rightarrow> extent list \<Rightarrow> lp_partition list \<times> extent list" where
  "order_extents extents [] ordered = ([], ordered)"
| "order_extents extents (p # ps) ordered =
     (let kept = kept_indices extents (lp_extent_indices p);
          (ps', ordered') = order_extents extents ps (ordered @ map (nth extents) kept)
      in (p\<lparr>lp_extent_indices := [length ordered..<length ordered + length kept]\<rparr> # ps', ordered'))"

definition reorder_metadata :: "metadata \<Rightarrow> metadata" where
  "reorder_metadata md =
     (let (ps, ordered) = order_extents (md_extents md) (md_partitions md) []
      in md\<lparr>md_partitions := ps, md_extents := ordered\<rparr>)"

definition checked_size :: "nat \<Rightarrow> nat \<Rightarrow> nat option" where
  "checked_size count entry_size =
     (if entry_size = 0 \<or> u64_max div entry_size < count then None else Some (count * entry_size))"

text \<open>The sizes of the four tables.\<close>

definition table_sizes :: "metadata \<Rightarrow> super_metadata_error + nat \<times> nat \<times> nat \<times> nat" where
  "table_sizes md =
     (case (checked_size (length (md_partitions md)) (desc_entry_size (md_partition_descriptor md)),
            checked_size (length (md_extents md)) (desc_entry_size (md_extent_descriptor md)),
            checked_size (length (md_groups md)) (desc_entry_size (md_group_descriptor md)),
            checked_size (length (md_block_devices md)) (desc_entry_size (md_block_device_descriptor md))) of
        (Some p, Some e, Some g, Some d) \<Rightarrow>
          if u64_max - e < p \<or> u64_max - g < p + e \<or> u64_max - d < p + e + g
          then Inl (super_error Super_overflow ''serialized logical partition tables overflow'')
          else Inr (p, e, g, d)
      | _ \<Rightarrow> Inl (super_error Super_overflow ''serialized logical partition tables overflow''))"

definition check_slot :: "metadata \<Rightarrow> nat \<Rightarrow> super_metadata_error + unit" where
  "check_slot md tables_size =
     (if metadata_max_size (md_geometry md) < length (md_header md) \<or>
         metadata_max_size (md_geometry md) - length (md_header md) < tables_size \<or>
         u32_max < tables_size \<or> u32_max < length (md_partitions md) \<or> u32_max < length (md_extents md) \<or>
         u32_max < length (md_groups md) \<or> u32_max < length (md_block_devices md)
      then Inl (super_error Super_no_space ''resized logical partition metadata exceeds its slot'')
      else Inr ())"

definition describe_tables :: "metadata \<Rightarrow> nat \<times> nat \<times> nat \<times> nat \<Rightarrow> metadata" where
  "describe_tables md = (\<lambda>(p, e, g, d).
     md\<lparr>md_partition_descriptor :=
          \<lparr>desc_offset = 0, desc_count = length (md_partitions md),
           desc_entry_size = desc_entry_size (md_partition_descriptor md)\<rparr>,
        md_extent_descriptor :=
          \<lparr>desc_offset = p, desc_count = length (md_extents md),
           desc_entry_size = desc_entry_size (md_extent_descriptor md)\<rparr>,
        md_group_descriptor :=
          \<lparr>desc_offset = p + e, desc_count = length (md_groups md),
           desc_entry_size = desc_entry_size (md_group_descriptor md)\<rparr>,
        md_block_device_descriptor :=
          \<lparr>desc_offset = p + e + g, desc_count = length (md_block_devices md),
           desc_entry_size = desc_entry_size (md_block_device_descriptor md)\<rparr>\<rparr>)"

text \<open>
  Each loop writes at a cursor into the table buffer: an entry is the span of its size, the raw octets are copied into it
  and the fields are written over them. Groups and block devices are copied as they are.
\<close>

definition write_entry ::
  "nat \<Rightarrow> byte list \<Rightarrow> (byte list \<Rightarrow> byte list) \<Rightarrow> byte list \<times> nat \<Rightarrow> byte list \<times> nat" where
  "write_entry entry_size raw put = (\<lambda>(tables, cursor).
     let entry = take entry_size (drop cursor tables)
     in (write_span tables cursor (put (write_span entry 0 raw)), cursor + length entry))"

definition partition_fields :: "lp_partition \<Rightarrow> nat \<Rightarrow> byte list \<Rightarrow> byte list" where
  "partition_fields p next_extent =
     put_le 4 48 (lp_group_index p) \<circ> put_le 4 44 (length (lp_extent_indices p)) \<circ>
     put_le 4 40 next_extent \<circ> put_le 4 36 (lp_attributes p)"

definition extent_fields :: "extent \<Rightarrow> byte list \<Rightarrow> byte list" where
  "extent_fields e =
     put_le 4 20 (ex_target_source e) \<circ> put_le 8 12 (ex_target_data e) \<circ>
     put_le 4 8 (ex_type e) \<circ> put_le 8 0 (ex_sectors e)"

fun write_partitions :: "nat \<Rightarrow> lp_partition list \<Rightarrow> nat \<Rightarrow> byte list \<times> nat \<Rightarrow> byte list \<times> nat" where
  "write_partitions entry_size [] next_extent buffer = buffer"
| "write_partitions entry_size (p # ps) next_extent buffer =
     write_partitions entry_size ps ((next_extent + length (lp_extent_indices p)) mod 2 ^ 32)
       (write_entry entry_size (lp_raw p) (partition_fields p next_extent) buffer)"

definition copy_raw :: "byte list \<times> nat \<Rightarrow> byte list \<Rightarrow> byte list \<times> nat" where
  "copy_raw = (\<lambda>(tables, cursor) raw. (write_span tables cursor raw, cursor + length raw))"

definition write_tables :: "metadata \<Rightarrow> nat \<Rightarrow> byte list" where
  "write_tables md tables_size =
     (let buffer = write_partitions (desc_entry_size (md_partition_descriptor md)) (md_partitions md) 0
                     (replicate tables_size 0, 0);
          buffer = foldl (\<lambda>buffer e.
                     write_entry (desc_entry_size (md_extent_descriptor md)) (ex_raw e) (extent_fields e) buffer)
                     buffer (md_extents md);
          buffer = foldl copy_raw buffer (map gr_raw (md_groups md));
          buffer = foldl copy_raw buffer (map bd_raw (md_block_devices md))
      in fst buffer)"

section \<open>The slot\<close>

definition write_descriptor :: "nat \<Rightarrow> descriptor \<Rightarrow> bool \<times> byte list \<Rightarrow> bool \<times> byte list" where
  "write_descriptor offset d = (\<lambda>(ok, header).
     if \<not> ok then (False, header)
     else let (ok, header) = write_le 4 header offset (desc_offset d) in
     if \<not> ok then (False, header)
     else let (ok, header) = write_le 4 header (offset + 4) (desc_count d) in
     if \<not> ok then (False, header)
     else write_le 4 header (offset + 8) (desc_entry_size d))"

definition write_header :: "metadata \<Rightarrow> byte list \<Rightarrow> super_metadata_error + byte list" where
  "write_header md tables =
     (let header = put_le 4 44 (length tables) (md_header md);
          (ok, header) =
            write_descriptor 116 (md_block_device_descriptor md)
              (write_descriptor 104 (md_group_descriptor md)
                (write_descriptor 92 (md_extent_descriptor md)
                  (write_descriptor 80 (md_partition_descriptor md) (True, header))))
      in
      if \<not> ok then Inl (super_error Super_malformed ''logical partition metadata header is truncated'')
      else
        let header = write_span header 48 (sm_digest tables);
            header = write_span header 12 (replicate kSha256DigestSize 0)
        in Inr (write_span header 12 (sm_digest header)))"

definition serialize_metadata :: "metadata \<Rightarrow> super_metadata_error + metadata \<times> byte list" where
  "serialize_metadata md0 =
     (let md1 = reorder_metadata md0 in
      and_then (table_sizes md1) (\<lambda>(p, e, g, d).
      let tables_size = p + e + g + d in
      and_then (check_slot md1 tables_size) (\<lambda>_.
      let md2 = describe_tables md1 (p, e, g, d);
          tables = write_tables md2 tables_size
      in
      and_then (write_header md2 tables) (\<lambda>header.
      let area = replicate (metadata_max_size (md_geometry md2)) 0;
          area = write_span area 0 header;
          area = write_span area (length header) tables
      in Inr (md2, area)))))"

section \<open>The sparse image\<close>

definition kSparseBlockSize :: nat where "kSparseBlockSize = 4096"
definition kSparseRawChunk :: nat where "kSparseRawChunk = 0xcac1"
definition kSparseDontCareChunk :: nat where "kSparseDontCareChunk = 0xcac3"

definition append_u16 :: "byte list \<Rightarrow> nat \<Rightarrow> byte list" where
  "append_u16 output v = output @ [le_octet v 0] @ [le_octet v 1]"

definition append_u32 :: "byte list \<Rightarrow> nat \<Rightarrow> byte list" where
  "append_u32 output v = foldl (\<lambda>output index. output @ [le_octet v index]) output [0..<4]"

definition sparse_metadata_octets :: "nat \<Rightarrow> nat \<Rightarrow> byte list \<Rightarrow> byte list" where
  "sparse_metadata_octets leading_blocks raw_blocks area =
     (let output = append_u32 [] (unat kAndroidSparseMagic);
          output = append_u16 output (unat kAndroidSparseMajorVersion);
          output = append_u16 output 0;
          output = append_u16 output 28;
          output = append_u16 output 12;
          output = append_u32 output kSparseBlockSize;
          output = append_u32 output (leading_blocks + raw_blocks);
          output = append_u32 output 2;
          output = append_u32 output 0;
          output = append_u16 output kSparseDontCareChunk;
          output = append_u16 output 0;
          output = append_u32 output leading_blocks;
          output = append_u32 output 12;
          output = append_u16 output kSparseRawChunk;
          output = append_u16 output 0;
          output = append_u32 output raw_blocks;
          output = append_u32 output (12 + length area)
      in output @ area)"

definition make_sparse_metadata_image :: "metadata \<Rightarrow> byte list \<Rightarrow> super_metadata_error + byte list" where
  "make_sparse_metadata_image md area =
     (let metadata_offset = kPrimaryMetadataOffset + md_slot md * metadata_max_size (md_geometry md) in
      if metadata_offset mod kSparseBlockSize \<noteq> 0 \<or> length area mod kSparseBlockSize \<noteq> 0
      then Inl (super_error Super_unsupported
             ''logical partition metadata is not aligned for Android sparse output'')
      else
        let leading_blocks = metadata_offset div kSparseBlockSize;
            raw_blocks = length area div kSparseBlockSize
        in
        if leading_blocks = 0 \<or> u32_max < leading_blocks \<or> raw_blocks = 0 \<or> u32_max < raw_blocks \<or>
           u32_max < leading_blocks + raw_blocks \<or> u32_max - 12 < length area
        then Inl (super_error Super_overflow ''Android sparse metadata image exceeds format limits'')
        else Inr (sparse_metadata_octets leading_blocks raw_blocks area))"

definition resize_fetched_super_metadata :: "byte list \<Rightarrow> string \<Rightarrow> nat \<Rightarrow> super_metadata_error + byte list" where
  "resize_fetched_super_metadata fetched_super name requested_size =
     (if name = [] then Inl (super_error Super_malformed ''logical partition name is empty'')
      else
        and_then (parse_geometry fetched_super) (\<lambda>geometry.
        case metadata_slot_for name geometry of
          None \<Rightarrow> Inl (super_error Super_unsupported ''logical partition slot is unsupported'')
        | Some slot \<Rightarrow>
            and_then (parse_metadata fetched_super geometry slot) (\<lambda>md.
            and_then (resize_partition md name requested_size) (\<lambda>md.
            and_then (serialize_metadata md) (\<lambda>(md, area).
            make_sparse_metadata_image md area)))))"

end
