(* ===== verification/Super_Fields.thy ===== *)
theory Super_Fields
  imports Super_Serialize Word_Octets Sha256_Spec
begin

text \<open>
  Little-endian fields of any width: a field is determined by its octets, stays within its width, reads back what was
  written, and is not touched by a write elsewhere. Also the length of a digest.
\<close>

section \<open>Reading\<close>

lemma read_le_Some_iff: "(\<exists>v. read_le w bytes k = Some v) \<longleftrightarrow> k + w \<le> length bytes"
  by (auto simp: read_le_def)

lemma read_le_cong:
  assumes "k + w \<le> length bytes" and "j + w \<le> length bytes'"
    and "take w (drop k bytes) = take w (drop j bytes')"
  shows "read_le w bytes k = read_le w bytes' j"
proof -
  have "bytes ! (k + i) = bytes' ! (j + i)" if "i < w" for i
    using arg_cong [OF assms(3), of "\<lambda>xs. xs ! i"] that assms(1,2) by simp
  then have "foldl (\<lambda>v index. v OR push_bit (index * 8) (unat (bytes ! (k + index)))) 0 [0..<w] =
      foldl (\<lambda>v index. v OR push_bit (index * 8) (unat (bytes' ! (j + index)))) 0 [0..<w]"
    by (intro foldl_cong) auto
  with assms(1,2) show ?thesis by (auto simp: read_le_def)
qed

lemma octets_bound: "take_bit (w * 8) (foldl (\<lambda>v index. v OR push_bit (index * 8) (unat (f index :: byte))) 0 [0..<w]) =
    foldl (\<lambda>v index. v OR push_bit (index * 8) (unat (f index))) 0 [0..<w]"
proof (induction w)
  case (Suc w)
  let ?r = "foldl (\<lambda>v index. v OR push_bit (index * 8) (unat (f index))) 0 [0..<w]"
  have "take_bit (Suc w * 8) ?r = ?r"
    by (subst (1 2) Suc [symmetric]) (simp only: take_bit_take_bit min_def, simp)
  moreover have "take_bit (Suc w * 8) (push_bit (w * 8) (unat (f w))) = push_bit (w * 8) (unat (f w))"
    using unsigned_less [of "f w", where 'a = nat] by (simp add: take_bit_push_bit take_bit_nat_eq_self)
  ultimately show ?case by simp
qed simp

lemma read_le_bound: "read_le w bytes k = Some v \<Longrightarrow> v < 2 ^ (w * 8)"
  using octets_bound [of w "\<lambda>index. bytes ! (k + index)"]
  by (auto simp: read_le_def take_bit_nat_eq_self_iff split: if_splits)

lemmas read_le_bounds [dest] = read_le_bound [of 2, simplified] read_le_bound [of 4, simplified]
  read_le_bound [of 8, simplified]

section \<open>Writing\<close>

definition le_octets :: "nat \<Rightarrow> nat \<Rightarrow> byte list" where
  "le_octets w v = map (le_octet v) [0..<w]"

lemma length_le_octets [simp]: "length (le_octets w v) = w"
  by (simp add: le_octets_def)

lemma write_le_span:
  "k + w \<le> length bytes \<Longrightarrow> write_le w bytes k v = (True, write_span bytes k (le_octets w v))"
  by (simp add: write_le_def foldl_store_span le_octets_def)

lemma put_le_span: "k + w \<le> length bytes \<Longrightarrow> put_le w k v bytes = write_span bytes k (le_octets w v)"
  by (simp add: put_le_def write_le_span)

lemma length_put_le [simp]: "length (put_le w k v bytes) = length bytes"
  by (cases "k + w \<le> length bytes") (auto simp: put_le_span, auto simp: put_le_def write_le_def)

lemma unat_le_octet: "unat (le_octet v i) = take_bit 8 (drop_bit (i * 8) v)"
proof -
  have "(255 :: nat) = mask 8" by (simp add: mask_eq_exp_minus_1)
  then show ?thesis by (simp only: le_octet_def unat_of_nat flip: take_bit_eq_mask) (simp add: take_bit_eq_mod)
qed

lemma read_octets:
  "foldl (\<lambda>x index. x OR push_bit (index * 8) (unat (le_octet v index))) 0 [0..<w] = take_bit (w * 8) v"
proof (induction w)
  case (Suc w)
  have "take_bit (w * 8) v OR push_bit (w * 8) (take_bit 8 (drop_bit (w * 8) v)) = take_bit (8 + w * 8) v"
    by (auto intro!: bit_eqI simp: bit_simps)
  with Suc show ?case by (simp add: unat_le_octet)
qed simp

lemma read_le_octets:
  assumes "take w (drop k bytes) = le_octets w v" and "k + w \<le> length bytes" and "v < 2 ^ (w * 8)"
  shows "read_le w bytes k = Some v"
proof -
  have "read_le w bytes k = read_le w (le_octets w v) 0"
    using assms by (intro read_le_cong) simp_all
  also have "\<dots> = Some (foldl (\<lambda>x index. x OR push_bit (index * 8) (unat (le_octet v index))) 0 [0..<w])"
    by (auto simp: read_le_def le_octets_def intro!: foldl_cong)
  also have "\<dots> = Some v" using assms(3) by (simp only: read_octets take_bit_nat_eq_self)
  finally show ?thesis .
qed

lemma read_put_same:
  "k + w \<le> length bytes \<Longrightarrow> v < 2 ^ (w * 8) \<Longrightarrow> read_le w (put_le w k v bytes) k = Some v"
  using take_drop_write_span_same [of k "le_octets w v" bytes]
  by (intro read_le_octets) (simp_all add: put_le_span)

lemma read_span_other:
  assumes "k + length data \<le> length bytes" and "j + w \<le> k \<or> k + length data \<le> j"
  shows "read_le w (write_span bytes k data) j = read_le w bytes j"
proof (cases "j + w \<le> length bytes")
  case True
  with assms show ?thesis by (intro read_le_cong) (simp_all add: take_drop_write_span_other length_write_span)
qed (auto simp: read_le_def length_write_span)

lemma read_put_other:
  "j + w \<le> k \<or> k + w' \<le> j \<Longrightarrow> read_le w (put_le w' k v bytes) j = read_le w bytes j"
proof (cases "k + w' \<le> length bytes")
  case True
  then show "j + w \<le> k \<or> k + w' \<le> j \<Longrightarrow> ?thesis" by (simp add: put_le_span read_span_other)
next
  case False
  then show ?thesis by (auto simp: put_le_def write_le_def)
qed

lemma take_put_le: "n \<le> k \<Longrightarrow> take n (put_le w k v bytes) = take n bytes"
  by (cases "k + w \<le> length bytes") (auto simp: put_le_span write_span_def, auto simp: put_le_def write_le_def)

section \<open>Digests\<close>

lemma length_sm_digest [simp]: "length (sm_digest bytes) = 32"
proof -
  have "sm_digest bytes = sha256 bytes"
    unfolding sm_digest_def using sha_update_holds [OF sha_holds_new, of bytes] by (simp add: sha_finish_eq)
  moreover have "length (sha_chain initial_state m) = 8" for m
    using absorb_length [of initial_state m] by (simp add: sha_chain_absorb initial_state_def)
  ultimately show ?thesis
    by (simp add: sha256_def digest_of_def length_concat o_def sum_list_triv)
qed

end
