(* ===== verification/Super_Invariant.thy ===== *)
theory Super_Invariant
  imports Super_Fields
begin

text \<open>
  What an accepted geometry and accepted metadata satisfy: the well-formedness of the header and of the entries of the
  tables, distinct partition names, and extents owned by exactly one partition.
\<close>

section \<open>Well-formed metadata\<close>

definition geometry_wf :: "geometry \<Rightarrow> bool" where
  "geometry_wf g \<longleftrightarrow>
     0 < metadata_max_size g \<and> metadata_max_size g \<le> kMaximumMetadataBytes \<and> metadata_max_size g mod kSectorSize = 0 \<and>
     0 < metadata_slot_count g \<and> metadata_slot_count g \<le> 32 \<and>
     kSectorSize \<le> logical_block_size g \<and> logical_block_size g mod kSectorSize = 0 \<and> logical_block_size g < 2 ^ 32"

definition header_wf :: "byte list \<Rightarrow> nat \<Rightarrow> bool" where
  "header_wf header minor \<longleftrightarrow>
     length header \<in> {kHeaderV10Size, kHeaderV12Size} \<and> read_le 4 header 0 = Some kHeaderMagic \<and>
     read_le 2 header 4 = Some kMetadataMajorVersion \<and> read_le 2 header 6 = Some minor \<and>
     minor \<le> kMaximumMetadataMinorVersion \<and> read_le 4 header 8 = Some (length header)"

definition partition_wf :: "nat \<Rightarrow> nat \<Rightarrow> lp_partition \<Rightarrow> bool" where
  "partition_wf entry_size group_count p \<longleftrightarrow>
     length (lp_raw p) = entry_size \<and> parse_name (take 36 (lp_raw p)) = Some (lp_name p) \<and>
     lp_attributes p < 2 ^ 32 \<and> lp_group_index p < group_count"

definition extent_wf :: "nat \<Rightarrow> extent \<Rightarrow> bool" where
  "extent_wf entry_size e \<longleftrightarrow>
     length (ex_raw e) = entry_size \<and> ex_sectors e < 2 ^ 64 \<and> (ex_type e = kLinearExtent \<or> ex_type e = kZeroExtent) \<and>
     ex_target_data e < 2 ^ 64 \<and> ex_target_source e < 2 ^ 32"

definition group_wf :: "nat \<Rightarrow> lp_group \<Rightarrow> bool" where
  "group_wf entry_size g \<longleftrightarrow> length (gr_raw g) = entry_size \<and> parse_group (gr_raw g) = Inr g"

definition device_wf :: "nat \<Rightarrow> block_device \<Rightarrow> bool" where
  "device_wf entry_size d \<longleftrightarrow> length (bd_raw d) = entry_size \<and> parse_block_device (bd_raw d) = Inr d"

definition descriptors_wf :: "metadata \<Rightarrow> bool" where
  "descriptors_wf md \<longleftrightarrow>
     kPartitionEntrySize \<le> desc_entry_size (md_partition_descriptor md) \<and>
     kExtentEntrySize \<le> desc_entry_size (md_extent_descriptor md) \<and>
     kGroupEntrySize \<le> desc_entry_size (md_group_descriptor md) \<and>
     kBlockDeviceEntrySize \<le> desc_entry_size (md_block_device_descriptor md) \<and>
     desc_entry_size (md_partition_descriptor md) < 2 ^ 32 \<and> desc_entry_size (md_extent_descriptor md) < 2 ^ 32 \<and>
     desc_entry_size (md_group_descriptor md) < 2 ^ 32 \<and> desc_entry_size (md_block_device_descriptor md) < 2 ^ 32"

definition all_indices :: "lp_partition list \<Rightarrow> nat list" where
  "all_indices ps = concat (map lp_extent_indices ps)"

definition owners_wf :: "metadata \<Rightarrow> bool" where
  "owners_wf md \<longleftrightarrow>
     distinct (all_indices (md_partitions md)) \<and> set (all_indices (md_partitions md)) \<subseteq> {..<length (md_extents md)} \<and>
     distinct (map lp_name (md_partitions md))"

definition metadata_wf :: "metadata \<Rightarrow> bool" where
  "metadata_wf md \<longleftrightarrow>
     geometry_wf (md_geometry md) \<and> header_wf (md_header md) (md_minor_version md) \<and> descriptors_wf md \<and>
     list_all (partition_wf (desc_entry_size (md_partition_descriptor md)) (length (md_groups md))) (md_partitions md) \<and>
     list_all (extent_wf (desc_entry_size (md_extent_descriptor md))) (md_extents md) \<and>
     list_all (group_wf (desc_entry_size (md_group_descriptor md))) (md_groups md) \<and>
     list_all (device_wf (desc_entry_size (md_block_device_descriptor md))) (md_block_devices md) \<and>
     md_groups md \<noteq> [] \<and> md_block_devices md \<noteq> [] \<and> length (md_block_devices md) < 2 ^ 32 \<and> owners_wf md"

text \<open>Every extent passes the check against its block device.\<close>

definition extents_accepted :: "metadata \<Rightarrow> bool" where
  "extents_accepted md \<longleftrightarrow> list_all (\<lambda>e. \<not> exceeds_device (md_block_devices md) e) (md_extents md)"

lemma all_indices_simps [simp]:
  "all_indices [] = []" "all_indices (p # ps) = lp_extent_indices p @ all_indices ps"
  "all_indices (ps @ qs) = all_indices ps @ all_indices qs"
  by (simp_all add: all_indices_def)

section \<open>Geometry\<close>

lemma parse_geometry_at_wf: "parse_geometry_at bytes k = Some g \<Longrightarrow> geometry_wf g"
  by (auto simp: parse_geometry_at_def geometry_wf_def Let_def split: if_splits option.splits)

lemma parse_geometry_wf: "parse_geometry bytes = Inr g \<Longrightarrow> geometry_wf g"
  by (auto simp: parse_geometry_def split: option.splits intro: parse_geometry_at_wf)

lemma metadata_slot_for_less: "geometry_wf g \<Longrightarrow> metadata_slot_for name g = Some slot \<Longrightarrow> slot < metadata_slot_count g"
  by (auto simp: metadata_slot_for_def geometry_wf_def Let_def split: if_splits)

section \<open>Entries\<close>

lemma read_le_take: "j + w \<le> n \<Longrightarrow> n \<le> length bytes \<Longrightarrow> read_le w (take n bytes) j = read_le w bytes j"
  by (rule read_le_cong) (auto simp: drop_take min_def)

lemma parse_extent_wf: "parse_extent entry = Inr e \<Longrightarrow> extent_wf (length entry) e"
  by (auto simp: parse_extent_def extent_wf_def split: option.splits if_splits)

lemma parse_group_wf: "parse_group entry = Inr g \<Longrightarrow> group_wf (length entry) g"
  by (auto simp: parse_group_def group_wf_def split: option.splits)

lemma parse_block_device_wf: "parse_block_device entry = Inr d \<Longrightarrow> device_wf (length entry) d"
  by (auto simp: parse_block_device_def device_wf_def split: option.splits if_splits)

lemma length_table_entry:
  assumes "desc_offset d + desc_count d * desc_entry_size d \<le> length tables" and "i < desc_count d"
  shows "length (table_entry tables d i) = desc_entry_size d"
proof -
  have "Suc i * desc_entry_size d \<le> desc_count d * desc_entry_size d"
    using assms(2) by (intro mult_right_mono) simp_all
  with assms(1) show ?thesis by (simp add: table_entry_def)
qed

lemma collect_entries:
  assumes "collect parse (table_entries tables d) = Inr xs"
    and "desc_offset d + desc_count d * desc_entry_size d \<le> length tables"
    and "\<And>entry x. parse entry = Inr x \<Longrightarrow> P (length entry) x"
  shows "list_all (P (desc_entry_size d)) xs"
proof -
  from assms(1) have "list_all2 (\<lambda>entry x. parse entry = Inr x) (table_entries tables d) xs"
    by (simp add: collect_Inr)
  then show ?thesis
    using assms(2,3) length_table_entry [OF assms(2)]
    by (auto simp: list_all_length list_all2_conv_all_nth table_entries_def) metis
qed

section \<open>Ownership\<close>

lemma own_extents_owned:
  assumes "own_extents indices owned = Inr owned'" and "set indices \<subseteq> {..<length owned}"
  shows "length owned' = length owned \<and> distinct indices \<and> (\<forall>i \<in> set indices. \<not> owned ! i) \<and>
    (\<forall>i < length owned. owned' ! i \<longleftrightarrow> owned ! i \<or> i \<in> set indices)"
  using assms
proof (induction indices owned rule: own_extents.induct)
  case (2 i rest owned)
  then have step: "\<not> owned ! i" "own_extents rest (owned[i := True]) = Inr owned'" "set rest \<subseteq> {..<length owned}"
    "i < length owned"
    by (auto split: if_splits)
  from "2.IH" [OF step(1,2)] step(3,4) show ?case using step(1)
    by (auto simp: nth_list_update split: if_splits)
qed auto

lemma parse_partition_entry:
  assumes "parse_partition gc ec entry owned names = Inr (p, owned')" and "length owned = ec"
  shows "lp_raw p = entry \<and> partition_wf (length entry) gc p \<and> lp_name p \<notin> set names \<and>
    set (lp_extent_indices p) \<subseteq> {..<ec} \<and> own_extents (lp_extent_indices p) owned = Inr owned'"
  using assms
  by (auto simp: parse_partition_def partition_wf_def split: option.splits if_splits)

lemma parse_partitions_entries:
  assumes "parse_partitions gc ec entries owned names = Inr (ps, owned')" and "length owned = ec"
  shows "list_all2 (\<lambda>entry p. lp_raw p = entry \<and> partition_wf (length entry) gc p) entries ps \<and>
    distinct (map lp_name ps) \<and> set names \<inter> set (map lp_name ps) = {} \<and> length owned' = ec \<and>
    distinct (all_indices ps) \<and> set (all_indices ps) \<subseteq> {i. i < ec \<and> \<not> owned ! i} \<and>
    (\<forall>i < ec. owned' ! i \<longleftrightarrow> owned ! i \<or> i \<in> set (all_indices ps))"
  using assms
proof (induction gc ec entries owned names arbitrary: ps owned' rule: parse_partitions.induct)
  case (2 gc ec entry entries owned names)
  then obtain p owned1 ps' where p: "parse_partition gc ec entry owned names = Inr (p, owned1)"
    and rest: "parse_partitions gc ec entries owned1 (lp_name p # names) = Inr (ps', owned')" and ps: "ps = p # ps'"
    by (auto split: prod.splits)
  note entry = parse_partition_entry [OF p "2.prems"(2)]
  from entry "2.prems"(2) have own: "length owned1 = ec \<and> distinct (lp_extent_indices p) \<and>
      (\<forall>i \<in> set (lp_extent_indices p). \<not> owned ! i) \<and>
      (\<forall>i < ec. owned1 ! i \<longleftrightarrow> owned ! i \<or> i \<in> set (lp_extent_indices p))"
    using own_extents_owned [of "lp_extent_indices p" owned owned1] by auto
  from "2.IH" [OF rest] own entry show ?case unfolding ps by auto
qed auto

section \<open>Accepted metadata\<close>

lemma table_range_bound:
  "table_range n d = Inr r \<Longrightarrow> desc_offset d + desc_count d * desc_entry_size d \<le> n"
  by (auto simp: table_range_def checked_table_bytes_def Let_def split: option.splits if_splits)

lemma parse_tables_wf:
  assumes "parse_tables tables (p, e, g, d) = Inr (partitions, extents, groups, devices)"
    and "\<forall>x \<in> {p, e, g, d}. desc_offset x + desc_count x * desc_entry_size x \<le> length tables"
  shows "list_all (partition_wf (desc_entry_size p) (length groups)) partitions"
    and "list_all (extent_wf (desc_entry_size e)) extents" and "list_all (group_wf (desc_entry_size g)) groups"
    and "list_all (device_wf (desc_entry_size d)) devices" and "groups \<noteq> []" and "devices \<noteq> []"
    and "list_all (\<lambda>x. \<not> exceeds_device devices x) extents" and "distinct (all_indices partitions)"
    and "set (all_indices partitions) = {..<length extents}" and "distinct (map lp_name partitions)"
    and "length devices = desc_count d"
proof -
  from assms(1) obtain owned where ex: "collect parse_extent (table_entries tables e) = Inr extents"
    and gr: "collect parse_group (table_entries tables g) = Inr groups"
    and dev: "collect parse_block_device (table_entries tables d) = Inr devices"
    and non: "groups \<noteq> []" "devices \<noteq> []" "\<not> list_ex (exceeds_device devices) extents"
    and ps: "parse_partitions (length groups) (length extents) (table_entries tables p)
      (replicate (length extents) False) [] = Inr (partitions, owned)" and all: "False \<notin> set owned"
    by (auto simp: parse_tables_def split: if_splits prod.splits)
  note parts = parse_partitions_entries [OF ps, simplified]
  show "list_all (extent_wf (desc_entry_size e)) extents"
    by (rule collect_entries [OF ex, where P = extent_wf]) (use assms(2) in \<open>simp_all add: parse_extent_wf\<close>)
  show "list_all (group_wf (desc_entry_size g)) groups"
    by (rule collect_entries [OF gr, where P = group_wf]) (use assms(2) in \<open>simp_all add: parse_group_wf\<close>)
  show "list_all (device_wf (desc_entry_size d)) devices"
    by (rule collect_entries [OF dev, where P = device_wf]) (use assms(2) in \<open>simp_all add: parse_block_device_wf\<close>)
  show "list_all (partition_wf (desc_entry_size p) (length groups)) partitions"
    using parts length_table_entry [of p tables] assms(2)
    by (auto simp: list_all_length list_all2_conv_all_nth table_entries_def)
  show "length devices = desc_count d"
    using dev by (auto simp: collect_Inr table_entries_def dest: list_all2_lengthD)
  show "groups \<noteq> []" "devices \<noteq> []" "list_all (\<lambda>x. \<not> exceeds_device devices x) extents"
    "distinct (all_indices partitions)" "distinct (map lp_name partitions)"
    using non parts by (auto simp: list_all_iff list_ex_iff)
  have "i \<in> set (all_indices partitions)" if "i < length extents" for i
    using parts that all nth_mem [of i owned] by (metis (full_types))
  with parts show "set (all_indices partitions) = {..<length extents}" by auto
qed

lemma parse_header_wf:
  assumes "parse_header area = Inr (minor, header_size, tables_size)"
  shows "header_wf (take header_size area) minor \<and> header_size + tables_size \<le> length area"
proof -
  from assms have h: "read_le 4 area 0 = Some kHeaderMagic" "read_le 2 area 4 = Some kMetadataMajorVersion"
    "read_le 2 area 6 = Some minor" "read_le 4 area 8 = Some header_size" "minor \<le> kMaximumMetadataMinorVersion"
    "header_size \<in> {kHeaderV10Size, kHeaderV12Size}" "header_size + tables_size \<le> length area"
    by (auto simp: parse_header_def split: option.splits if_splits)
  then have size: "128 \<le> header_size" "header_size \<le> length area"
    by (auto simp: kHeaderV10Size_def kHeaderV12Size_def)
  with h show ?thesis by (simp add: header_wf_def read_le_take)
qed

lemma parse_descriptors_wf:
  assumes "parse_descriptors header = Inr (p, e, g, d)"
  shows "kPartitionEntrySize \<le> desc_entry_size p \<and> kExtentEntrySize \<le> desc_entry_size e \<and>
    kGroupEntrySize \<le> desc_entry_size g \<and> kBlockDeviceEntrySize \<le> desc_entry_size d \<and>
    desc_entry_size p < 2 ^ 32 \<and> desc_entry_size e < 2 ^ 32 \<and> desc_entry_size g < 2 ^ 32 \<and> desc_entry_size d < 2 ^ 32 \<and>
    desc_count d < 2 ^ 32"
proof -
  have "desc_entry_size x < 2 ^ 32 \<and> desc_count x < 2 ^ 32" if "read_descriptor header k = Some x" for x k
    using that by (auto simp: read_descriptor_def split: option.splits)
  with assms show ?thesis
    by (auto simp: parse_descriptors_def split: option.splits if_splits)
qed

lemma parse_metadata_at_wf:
  assumes "parse_metadata_at fetched geometry slot k = Inr md" and "geometry_wf geometry"
  shows "metadata_wf md" and "extents_accepted md" and "md_geometry md = geometry" and "md_slot md = slot"
    and "set (all_indices (md_partitions md)) = {..<length (md_extents md)}"
proof -
  define area where "area = take (metadata_max_size geometry) (drop k fetched)"
  from assms(1) obtain minor header_size tables_size p e g d ranges partitions extents groups devices tables
    where header: "parse_header area = Inr (minor, header_size, tables_size)"
      and desc: "parse_descriptors (take header_size area) = Inr (p, e, g, d)"
      and ranges: "collect (table_range (length tables)) [p, e, g, d] = Inr ranges"
      and tables: "parse_tables tables (p, e, g, d) = Inr (partitions, extents, groups, devices)"
      and md: "md = \<lparr>md_geometry = geometry, md_slot = slot, md_header = take header_size area,
        md_minor_version = minor, md_partition_descriptor = p, md_extent_descriptor = e, md_group_descriptor = g,
        md_block_device_descriptor = d, md_partitions = partitions, md_extents = extents,
        md_groups = groups, md_block_devices = devices\<rparr>"
    unfolding parse_metadata_at_def Let_def area_def [symmetric]
    by (auto simp del: collect.simps length_take split: if_splits prod.splits)
  from ranges have "\<forall>x \<in> {p, e, g, d}. desc_offset x + desc_count x * desc_entry_size x \<le> length tables"
    by (auto dest: table_range_bound)
  note t = parse_tables_wf [OF tables this]
  show "metadata_wf md"
    unfolding metadata_wf_def descriptors_wf_def owners_wf_def md
    using t parse_header_wf [OF header] parse_descriptors_wf [OF desc] assms(2) by simp
  show "extents_accepted md" "md_geometry md = geometry" "md_slot md = slot"
    "set (all_indices (md_partitions md)) = {..<length (md_extents md)}"
    using t by (simp_all add: extents_accepted_def md)
qed

lemma parse_metadata_wf:
  assumes "parse_metadata fetched geometry slot = Inr md" and "geometry_wf geometry"
  shows "metadata_wf md \<and> extents_accepted md \<and> md_geometry md = geometry \<and> md_slot md = slot \<and>
    set (all_indices (md_partitions md)) = {..<length (md_extents md)}"
proof -
  from assms(1) obtain k where "parse_metadata_at fetched geometry slot k = Inr md"
    by (auto simp: parse_metadata_def Let_def split: sum.splits)
  from parse_metadata_at_wf [OF this assms(2)] show ?thesis by blast
qed

end
