(* ===== verification/Super_Space.thy ===== *)
theory Super_Space
  imports Super_Invariant
begin

text \<open>
  Where extents lie. an extent is well placed when it is inside the usable sectors of its block device, and two extents are
  apart when no sector belongs to both. The free intervals of a device are inside the device, in order, and contain no
  used sector; the aligned start of an allocation is not before the interval.
\<close>

section \<open>Placement\<close>

definition device_limit :: "block_device \<Rightarrow> nat" where
  "device_limit d = bd_size d div kSectorSize"

definition extent_end :: "extent \<Rightarrow> nat" where
  "extent_end e = ex_target_data e + ex_sectors e"

definition occupies :: "nat \<Rightarrow> extent \<Rightarrow> bool" where
  "occupies device_index e \<longleftrightarrow>
     ex_type e = kLinearExtent \<and> ex_target_source e = device_index \<and> ex_sectors e \<noteq> 0"

definition well_placed :: "block_device list \<Rightarrow> extent \<Rightarrow> bool" where
  "well_placed devices e \<longleftrightarrow>
     (\<forall>k. occupies k e \<longrightarrow>
        k < length devices \<and> bd_first_sector (devices ! k) \<le> ex_target_data e \<and> extent_end e \<le> device_limit (devices ! k))"

definition apart :: "extent \<Rightarrow> extent \<Rightarrow> bool" where
  "apart e f \<longleftrightarrow>
     (\<forall>k. occupies k e \<and> occupies k f \<longrightarrow> extent_end e \<le> ex_target_data f \<or> extent_end f \<le> ex_target_data e)"

definition extents_apart :: "extent list \<Rightarrow> bool" where
  "extents_apart extents \<longleftrightarrow>
     (\<forall>i < length extents. \<forall>j < length extents. i \<noteq> j \<longrightarrow> apart (extents ! i) (extents ! j))"

lemma apart_sym: "apart e f \<Longrightarrow> apart f e"
  by (auto simp: apart_def)

lemma extents_apartD: "extents_apart extents \<Longrightarrow> i < length extents \<Longrightarrow> j < length extents \<Longrightarrow> i \<noteq> j \<Longrightarrow>
    apart (extents ! i) (extents ! j)"
  by (simp add: extents_apart_def)

lemma u64_sub_le: "b \<le> a \<Longrightarrow> a < 2 ^ 64 \<Longrightarrow> u64_sub a b = a - b"
proof -
  assume "b \<le> a" "a < 2 ^ 64"
  moreover have "(a - b + 2 ^ 64) mod 2 ^ 64 = (a - b) mod 2 ^ 64" by (rule mod_add_self2)
  ultimately show "u64_sub a b = a - b" by (simp add: u64_sub_def)
qed

lemma parse_block_device_fields:
  "parse_block_device entry = Inr d \<Longrightarrow> bd_first_sector d < device_limit d \<and> bd_size d < 2 ^ 64"
  by (auto simp: parse_block_device_def device_limit_def split: option.splits if_splits)

lemma device_wf_fields:
  assumes "device_wf n d"
  shows "bd_first_sector d < device_limit d" and "device_limit d * kSectorSize < 2 ^ 64"
proof -
  from assms have "bd_first_sector d < device_limit d \<and> bd_size d < 2 ^ 64"
    by (auto simp: device_wf_def dest: parse_block_device_fields)
  moreover have "device_limit d * kSectorSize \<le> bd_size d"
    by (simp add: device_limit_def)
  ultimately show "bd_first_sector d < device_limit d" "device_limit d * kSectorSize < 2 ^ 64" by auto
qed

lemma placed_accepted:
  assumes "well_placed devices e" and "list_all (device_wf n) devices" and "ex_sectors e \<noteq> 0"
  shows "\<not> exceeds_device devices e"
proof (cases "ex_type e = kLinearExtent")
  case True
  with assms have le: "extent_end e \<le> device_limit (devices ! ex_target_source e)"
    and wf: "device_wf n (devices ! ex_target_source e)"
    by (auto simp: well_placed_def occupies_def list_all_length)
  from device_wf_fields(2) [OF wf] have "device_limit (devices ! ex_target_source e) < 2 ^ 64"
    by (simp add: kSectorSize_def)
  with True assms(1,3) le show ?thesis
    by (auto simp: exceeds_device_def well_placed_def occupies_def extent_end_def u64_sub_le device_limit_def)
qed (simp add: exceeds_device_def)

section \<open>Merging\<close>

definition covers :: "(nat \<times> nat) list \<Rightarrow> (nat \<times> nat) list \<Rightarrow> bool" where
  "covers merged used \<longleftrightarrow> (\<forall>u \<in> set used. \<exists>m \<in> set merged. fst m \<le> fst u \<and> snd u \<le> snd m)"

definition ordered_within :: "nat \<Rightarrow> (nat \<times> nat) list \<Rightarrow> bool" where
  "ordered_within limit intervals \<longleftrightarrow>
     sorted_wrt (\<lambda>x y. fst x \<le> fst y) intervals \<and> (\<forall>x \<in> set intervals. fst x \<le> snd x \<and> snd x \<le> limit)"

lemma merge_interval_step:
  assumes "ordered_within limit merged" and "\<forall>m \<in> set merged. fst m \<le> fst u" and "fst u \<le> snd u" and "snd u \<le> limit"
  shows "ordered_within limit (merge_interval merged u)" and "covers (merge_interval merged u) (u # merged)"
    and "\<forall>m \<in> set (merge_interval merged u). fst m \<le> fst u"
proof -
  consider "merge_interval merged u = merged @ [u]"
    | xs m where "merged = xs @ [m]" "fst u \<le> snd m" "merge_interval merged u = xs @ [(fst m, max (snd m) (snd u))]"
    by (cases merged rule: rev_cases; cases "fst u \<le> snd (last merged)") (auto simp: merge_interval_def)
  then have "ordered_within limit (merge_interval merged u) \<and> covers (merge_interval merged u) (u # merged) \<and>
      (\<forall>m \<in> set (merge_interval merged u). fst m \<le> fst u)"
  proof cases
    case 1
    with assms show ?thesis by (auto simp: ordered_within_def covers_def sorted_wrt_append)
  next
    case (2 xs m)
    with assms show ?thesis
      by (auto simp: ordered_within_def covers_def sorted_wrt_append max_def)
  qed
  then show "ordered_within limit (merge_interval merged u)" "covers (merge_interval merged u) (u # merged)"
    "\<forall>m \<in> set (merge_interval merged u). fst m \<le> fst u" by auto
qed

lemma covers_trans: "covers xs ys \<Longrightarrow> covers ys zs \<Longrightarrow> covers xs zs"
  unfolding covers_def by (meson le_trans)

lemma merge_intervals:
  assumes "sorted used" and "\<forall>u \<in> set used. fst u \<le> snd u \<and> snd u \<le> limit"
  shows "ordered_within limit (foldl merge_interval [] used) \<and> covers (foldl merge_interval [] used) used \<and>
    (\<forall>m \<in> set (foldl merge_interval [] used). \<exists>u \<in> set used. fst m \<le> fst u)"
  using assms
proof (induction used rule: rev_induct)
  case (snoc u used)
  let ?m = "foldl merge_interval [] used"
  from snoc have IH: "ordered_within limit ?m" "covers ?m used" "\<forall>m \<in> set ?m. \<exists>v \<in> set used. fst m \<le> fst v"
    by (simp_all add: sorted_append)
  have le: "\<forall>m \<in> set ?m. fst m \<le> fst u"
    using IH(3) snoc.prems(1) by (fastforce simp: sorted_append less_eq_prod_def)
  note step = merge_interval_step [OF IH(1) le]
  have "covers (merge_interval ?m u) (u # used)"
    using step(2) IH(2) snoc.prems(2) covers_trans [of "merge_interval ?m u" "u # ?m" "u # used"]
    by (fastforce simp: covers_def)
  with step snoc.prems(2) show ?case by (fastforce simp: covers_def)
qed (simp add: ordered_within_def covers_def)

section \<open>Gaps\<close>

definition clear_of :: "nat \<times> nat \<Rightarrow> nat \<times> nat \<Rightarrow> bool" where
  "clear_of gap u \<longleftrightarrow> snd u \<le> fst gap \<or> snd gap \<le> fst u"

lemma gaps_clear:
  assumes "ordered_within limit merged" and "gap \<in> set (gaps cursor limit merged)"
  shows "cursor \<le> fst gap \<and> fst gap < snd gap \<and> snd gap \<le> limit \<and> (\<forall>m \<in> set merged. clear_of gap m)"
  using assms
proof (induction cursor limit merged rule: gaps.induct)
  case (2 cursor limit i rest)
  from "2.prems"(1) have rest: "ordered_within limit rest" and i: "fst i \<le> snd i" "snd i \<le> limit"
    and le: "\<forall>m \<in> set rest. fst i \<le> fst m"
    by (auto simp: ordered_within_def)
  from "2.prems"(2) consider "gap = (cursor, fst i)" "cursor < fst i" | "gap \<in> set (gaps (max cursor (snd i)) limit rest)"
    by (auto split: if_splits)
  then show ?case
  proof cases
    case 1
    with i le show ?thesis by (auto simp: clear_of_def)
  next
    case 2
    from "2.IH" [OF rest 2] show ?thesis by (auto simp: clear_of_def)
  qed
qed (auto split: if_splits)

lemma gaps_ordered:
  "ordered_within limit merged \<Longrightarrow> sorted_wrt (\<lambda>x y. snd x \<le> fst y) (gaps cursor limit merged)"
proof (induction cursor limit merged rule: gaps.induct)
  case (2 cursor limit i rest)
  then have rest: "ordered_within limit rest" and i: "fst i \<le> snd i" by (auto simp: ordered_within_def)
  from gaps_clear [OF rest] have "fst i \<le> fst gap" if "gap \<in> set (gaps (max cursor (snd i)) limit rest)" for gap
    using that i by fastforce
  with "2.IH" [OF rest] show ?case by (auto simp: sorted_wrt_append)
qed simp

section \<open>Free intervals\<close>

definition free_in :: "block_device \<Rightarrow> nat \<Rightarrow> extent list \<Rightarrow> nat \<times> nat \<Rightarrow> bool" where
  "free_in device device_index extents gap \<longleftrightarrow>
     bd_first_sector device \<le> fst gap \<and> fst gap < snd gap \<and> snd gap \<le> device_limit device \<and>
     (\<forall>e \<in> set extents. occupies device_index e \<longrightarrow> clear_of gap (ex_target_data e, extent_end e))"

lemma free_intervals_free:
  assumes "list_all (well_placed devices) extents" and "device_index < length devices" and "list_all (device_wf n) devices"
  shows "\<forall>gap \<in> set (free_intervals (devices ! device_index) extents device_index).
      free_in (devices ! device_index) device_index extents gap"
    and "sorted_wrt (\<lambda>x y. snd x \<le> fst y) (free_intervals (devices ! device_index) extents device_index)"
proof -
  let ?d = "devices ! device_index"
  let ?merged = "foldl merge_interval [] (sort (used_intervals extents device_index))"
  have "device_wf n ?d" using assms(2,3) by (simp add: list_all_length)
  from device_wf_fields(2) [OF this] have limit: "device_limit ?d < 2 ^ 64" by (simp add: kSectorSize_def)
  have le: "extent_end e \<le> device_limit ?d" if "e \<in> set extents" "occupies device_index e" for e
    using that assms(1) by (auto simp: list_all_iff well_placed_def occupies_def)
  then have used: "set (used_intervals extents device_index) =
      {(ex_target_data e, extent_end e) | e. e \<in> set extents \<and> occupies device_index e}"
    using limit by (fastforce simp: used_intervals_def occupies_def extent_end_def u64_add_def)
  have m: "ordered_within (device_limit ?d) ?merged \<and> covers ?merged (sort (used_intervals extents device_index))"
  proof -
    have "\<forall>u \<in> set (sort (used_intervals extents device_index)). fst u \<le> snd u \<and> snd u \<le> device_limit ?d"
      using le by (auto simp: used extent_end_def)
    from merge_intervals [OF sorted_sort this] show ?thesis by blast
  qed
  have gaps: "free_intervals ?d extents device_index = gaps (bd_first_sector ?d) (device_limit ?d) ?merged"
    by (simp add: free_intervals_def device_limit_def)
  show "sorted_wrt (\<lambda>x y. snd x \<le> fst y) (free_intervals ?d extents device_index)"
    unfolding gaps using m by (simp add: gaps_ordered)
  show "\<forall>gap \<in> set (free_intervals ?d extents device_index). free_in ?d device_index extents gap"
  proof
    fix gap assume "gap \<in> set (free_intervals ?d extents device_index)"
    then have gap: "bd_first_sector ?d \<le> fst gap \<and> fst gap < snd gap \<and> snd gap \<le> device_limit ?d \<and>
        (\<forall>m \<in> set ?merged. clear_of gap m)"
      unfolding gaps using gaps_clear m by blast
    have "clear_of gap (ex_target_data e, extent_end e)" if e: "e \<in> set extents" "occupies device_index e" for e
    proof -
      have "(ex_target_data e, extent_end e) \<in> set (used_intervals extents device_index)"
        unfolding used using e by blast
      with m obtain m where "m \<in> set ?merged" "fst m \<le> ex_target_data e" "extent_end e \<le> snd m"
        unfolding covers_def by (metis fst_conv set_sort snd_conv)
      with gap show ?thesis by (fastforce simp: clear_of_def)
    qed
    with gap show "free_in ?d device_index extents gap" by (simp add: free_in_def)
  qed
qed

section \<open>Alignment\<close>

lemma sm_align_up_ge: "v \<le> u64_max \<Longrightarrow> v \<le> sm_align_up v a"
  by (auto simp: sm_align_up_def Let_def simp del: Nat.add_diff_assoc)

lemma sm_align_up_dvd:
  assumes "sm_align_up v a \<noteq> u64_max" and "0 < a"
  shows "a dvd sm_align_up v a"
proof (cases "v mod a = 0")
  case False
  have "v = a * (v div a) + v mod a" "v mod a < a" using assms(2) by simp_all
  then have "v + (a - v mod a) = a * (v div a) + a" by linarith
  then have "a dvd v + (a - v mod a)" by simp
  with False assms show ?thesis by (auto simp: sm_align_up_def Let_def split: if_splits)
qed (use assms in \<open>auto simp: sm_align_up_def\<close>)

lemma aligned_sector_ge:
  assumes "aligned_sector d sector logical_block \<noteq> u64_max" and "sector * kSectorSize < 2 ^ 64"
  shows "sector \<le> aligned_sector d sector logical_block"
proof -
  define al where "al = max logical_block (if bd_alignment d = 0 then logical_block else bd_alignment d)"
  define k where "k = bd_alignment_offset d mod al"
  define adjusted where "adjusted = (if k \<le> sector * kSectorSize then sector * kSectorSize - k else 0)"
  have whole: "u64_mul sector kSectorSize = sector * kSectorSize" using assms(2) by (simp add: u64_mul_def)
  have eq: "aligned_sector d sector logical_block =
      (if sm_align_up adjusted al = u64_max \<or> u64_max - k < sm_align_up adjusted al then u64_max
       else (sm_align_up adjusted al + k) div kSectorSize)"
    unfolding aligned_sector_def Let_def whole al_def [symmetric] k_def [symmetric] adjusted_def [symmetric] ..
  have "sector * kSectorSize \<le> adjusted + k" by (simp add: adjusted_def)
  also have "adjusted \<le> sm_align_up adjusted al"
    using assms(2) by (intro sm_align_up_ge) (auto simp: adjusted_def)
  finally have "sector \<le> (sm_align_up adjusted al + k) div kSectorSize"
    by (simp add: kSectorSize_def)
  with eq assms(1) show ?thesis by (simp split: if_splits)
qed

end
