(* ===== verification/Super_Grow.thy ===== *)
theory Super_Grow
  imports Super_Space
begin

text \<open>
  The sectors of a partition as a map: element \<open>k\<close> says which sector of which block device holds sector \<open>k\<close> of the
  partition. Shrinking cuts the map, growing appends to it, and neither touches an extent of another partition.
\<close>

section \<open>Sector maps\<close>

definition extent_map :: "extent \<Rightarrow> (nat \<times> nat) option list" where
  "extent_map e =
     map (\<lambda>k. if ex_type e = kLinearExtent then Some (ex_target_source e, ex_target_data e + k) else None)
       [0..<ex_sectors e]"

definition index_map :: "extent list \<Rightarrow> nat list \<Rightarrow> (nat \<times> nat) option list" where
  "index_map extents indices = concat (map (\<lambda>i. extent_map (extents ! i)) indices)"

lemma length_extent_map [simp]: "length (extent_map e) = ex_sectors e"
  by (simp add: extent_map_def)

lemma extent_map_resize: "s \<le> s' \<Longrightarrow> take s (extent_map (e\<lparr>ex_sectors := s'\<rparr>)) = extent_map (e\<lparr>ex_sectors := s\<rparr>)"
  by (simp add: extent_map_def take_map)

lemma index_map_simps [simp]:
  "index_map extents [] = []" "index_map extents (i # is) = extent_map (extents ! i) @ index_map extents is"
  "index_map extents (is @ js) = index_map extents is @ index_map extents js"
  by (simp_all add: index_map_def)

lemma index_map_cong: "(\<And>i. i \<in> set indices \<Longrightarrow> extents ! i = extents' ! i) \<Longrightarrow> index_map extents indices = index_map extents' indices"
  unfolding index_map_def by (metis map_cong)

lemma index_map_update: "k \<notin> set indices \<Longrightarrow> index_map (extents[k := e]) indices = index_map extents indices"
  by (rule index_map_cong) (metis nth_list_update_neq)

lemma index_map_append: "set indices \<subseteq> {..<length extents} \<Longrightarrow> index_map (extents @ new) indices = index_map extents indices"
  by (rule index_map_cong) (auto simp: nth_append)

lemma sum_sectors_length: "sum_sectors extents indices s = Inr t \<Longrightarrow> t = s + length (index_map extents indices)"
  by (induction extents indices s rule: sum_sectors.induct) (auto simp: Let_def split: if_splits)

lemma partition_bytes_length:
  "partition_bytes md p = Inr n \<Longrightarrow> n = length (index_map (md_extents md) (lp_extent_indices p)) * kSectorSize"
  by (auto simp: partition_bytes_def dest!: sum_sectors_length split: if_splits)

section \<open>Shrinking\<close>

definition shrunk :: "extent \<Rightarrow> extent \<Rightarrow> bool" where
  "shrunk e e' \<longleftrightarrow>
     ex_raw e' = ex_raw e \<and> ex_sectors e' \<le> ex_sectors e \<and> ex_type e' = ex_type e \<and>
     ex_target_data e' = ex_target_data e \<and> ex_target_source e' = ex_target_source e"

lemma shrunk_refl: "shrunk e e"
  by (simp add: shrunk_def)

lemma shrunk_trans: "shrunk e f \<Longrightarrow> shrunk f g \<Longrightarrow> shrunk e g"
  by (simp add: shrunk_def)

lemma shrunk_keeps:
  assumes "shrunk e e'"
  shows "well_placed devices e \<Longrightarrow> well_placed devices e'" and "extent_wf n e \<Longrightarrow> extent_wf n e'"
    and "occupies k e' \<Longrightarrow> occupies k e" and "extent_end e' \<le> extent_end e" and "ex_target_data e' = ex_target_data e"
  using assms by (auto simp: shrunk_def well_placed_def extent_wf_def occupies_def extent_end_def)

lemma shrunk_apart:
  assumes "list_all2 shrunk extents extents'" and "extents_apart extents"
  shows "extents_apart extents'"
  unfolding extents_apart_def
proof (intro allI impI)
  fix i j assume ij: "i < length extents'" "j < length extents'" "i \<noteq> j"
  with assms(1) have s: "shrunk (extents ! i) (extents' ! i)" "shrunk (extents ! j) (extents' ! j)"
    and len: "length extents' = length extents"
    by (auto simp: list_all2_conv_all_nth)
  from extents_apartD [OF assms(2)] ij len have "apart (extents ! i) (extents ! j)" by simp
  then show "apart (extents' ! i) (extents' ! j)"
    using shrunk_keeps(3-5) [OF s(1)] shrunk_keeps(3-5) [OF s(2)] unfolding apart_def by (metis le_trans)
qed

lemma shrunk_update:
  "s \<le> ex_sectors (extents ! t) \<Longrightarrow> t < length extents \<Longrightarrow> list_all2 shrunk extents (extents[t := (extents ! t)\<lparr>ex_sectors := s\<rparr>])"
  unfolding list_all2_conv_all_nth by (auto simp: nth_list_update shrunk_def)

lemma shrink_extents_correct:
  assumes "shrink_extents extents indices remove = (extents', indices', r)"
    and "distinct indices" and "set indices \<subseteq> {..<length extents}"
  shows "index_map extents' indices' = take (length (index_map extents indices) - remove) (index_map extents indices) \<and>
    list_all2 shrunk extents extents' \<and> (\<forall>i. i \<notin> set indices \<longrightarrow> extents' ! i = extents ! i) \<and>
    (\<exists>n. indices' = take n indices) \<and> r = remove - length (index_map extents indices)"
  using assms
proof (induction extents indices remove rule: shrink_extents.induct)
  case (1 extents indices remove)
  note unfold = "1.prems"(1) [unfolded shrink_extents.simps [of extents indices remove]]
  show ?case
  proof (cases "remove \<noteq> 0 \<and> indices \<noteq> []")
    case False
    with unfold show ?thesis
      by (auto simp: list_all2_conv_all_nth shrunk_refl intro: exI [of _ "length indices"])
  next
    case True
    define t where "t = last indices"
    define e where "e = extents ! t"
    define rest where "rest = butlast indices"
    have ind: "indices = rest @ [t]" using True by (simp add: rest_def t_def)
    have dist: "distinct rest" "t \<notin> set rest" "t < length extents" "set rest \<subseteq> {..<length extents}"
      using "1.prems"(2,3) unfolding ind by auto
    have cut: "index_map (extents[t := f]) rest = index_map extents rest" for f
      using dist by (simp add: index_map_update)
    have same: "extents[t := e\<lparr>ex_sectors := s\<rparr>] = zs \<Longrightarrow> s \<le> ex_sectors e \<Longrightarrow> list_all2 shrunk extents zs" for s zs
      using dist(3) shrunk_update [of s extents t] by (auto simp: e_def)
    show ?thesis
    proof (cases "remove < ex_sectors e")
      case less: True
      with True unfold have res: "extents' = extents[t := e\<lparr>ex_sectors := ex_sectors e - remove\<rparr>]"
          "indices' = indices" "r = 0"
        by (auto simp: Let_def t_def e_def)
      have "extent_map (e\<lparr>ex_sectors := ex_sectors e - remove\<rparr>) = take (ex_sectors e - remove) (extent_map e)"
        using extent_map_resize [of "ex_sectors e - remove" "ex_sectors e" e] by simp
      with less dist same [OF res(1) [symmetric]] show ?thesis
        unfolding ind res using cut by (auto simp: e_def intro: exI [of _ "length (rest @ [t])"])
    next
      case geq: False
      let ?ex = "extents[t := e\<lparr>ex_sectors := 0\<rparr>]"
      from geq True unfold have rec: "shrink_extents ?ex rest (remove - ex_sectors e) = (extents', indices', r)"
        by (simp add: Let_def t_def e_def rest_def)
      have IH: "index_map extents' indices' = take (length (index_map ?ex rest) - (remove - ex_sectors e)) (index_map ?ex rest) \<and>
          list_all2 shrunk ?ex extents' \<and> (\<forall>i. i \<notin> set rest \<longrightarrow> extents' ! i = ?ex ! i) \<and>
          (\<exists>n. indices' = take n rest) \<and> r = remove - ex_sectors e - length (index_map ?ex rest)"
        using "1.IH" [OF True _ geq [unfolded e_def t_def]] rec dist by (simp add: e_def t_def rest_def)
      have "list_all2 shrunk extents extents'"
        using IH same [OF refl, of 0] list_all2_trans [of shrunk shrunk shrunk extents ?ex extents'] shrunk_trans by blast
      moreover have "\<exists>n. indices' = take n indices"
      proof -
        from IH obtain n where "indices' = take n rest" by blast
        then have "indices' = take (min n (length rest)) indices" by (simp add: ind min_def)
        then show ?thesis ..
      qed
      ultimately show ?thesis
        using IH cut geq unfolding ind by (auto simp: e_def)
    qed
  qed
qed

section \<open>Growing\<close>

text \<open>A state of the allocator in which the extents lie well, and the relation between two such states.\<close>

definition alloc_ok :: "block_device list \<Rightarrow> nat \<Rightarrow> extent list \<Rightarrow> nat list \<Rightarrow> bool" where
  "alloc_ok devices entry_size extents indices \<longleftrightarrow>
     list_all (well_placed devices) extents \<and> extents_apart extents \<and> list_all (extent_wf entry_size) extents \<and>
     distinct indices \<and> set indices \<subseteq> {..<length extents}"

definition grows :: "extent list \<Rightarrow> nat list \<Rightarrow> nat \<Rightarrow> extent list \<Rightarrow> nat list \<Rightarrow> nat \<Rightarrow> bool" where
  "grows extents indices remaining extents' indices' remaining' \<longleftrightarrow>
     length extents \<le> length extents' \<and> set indices' \<subseteq> set indices \<union> {length extents..} \<and>
     (\<forall>i < length extents. i \<notin> set indices \<longrightarrow> extents' ! i = extents ! i) \<and>
     (\<exists>more. index_map extents' indices' = index_map extents indices @ more \<and> length more + remaining' = remaining)"

lemma grows_refl: "grows extents indices remaining extents indices remaining"
  by (auto simp: grows_def)

lemma grows_trans:
  assumes "grows ex ind rem ex1 ind1 rem1" and "grows ex1 ind1 rem1 ex2 ind2 rem2"
  shows "grows ex ind rem ex2 ind2 rem2"
proof -
  from assms obtain more more1
    where "index_map ex1 ind1 = index_map ex ind @ more" "length more + rem1 = rem"
      "index_map ex2 ind2 = index_map ex1 ind1 @ more1" "length more1 + rem2 = rem1"
    by (auto simp: grows_def)
  then have "index_map ex2 ind2 = index_map ex ind @ (more @ more1) \<and> length (more @ more1) + rem2 = rem" by simp
  moreover have "ex2 ! i = ex ! i" if "i < length ex" "i \<notin> set ind" for i
    using assms that unfolding grows_def by (metis UnE atLeast_iff leD order.strict_trans2 subsetD)
  moreover have "length ex \<le> length ex2" "set ind2 \<subseteq> set ind \<union> {length ex..}"
    using assms by (auto simp: grows_def)
  ultimately show ?thesis unfolding grows_def by blast
qed

lemma list_all_update: "list_all P xs \<Longrightarrow> P x \<Longrightarrow> list_all P (xs[i := x])"
  using set_update_subset_insert [of xs i x] by (auto simp: list_all_iff)

text \<open>Extending the final extent. An empty final extent is excluded: it says nothing about the sectors around it.\<close>

lemma foldl_min_bound: "foldl (\<lambda>m i. if P i then min m (f i) else m) b is \<le> (b :: nat)"
proof (induction "is" arbitrary: b)
  case (Cons x xs)
  from Cons [of b] Cons [of "min b (f x)"] show ?case by auto
qed simp

lemma foldl_min_le:
  "i \<in> set is \<Longrightarrow> P i \<Longrightarrow> foldl (\<lambda>m i. if P i then min m (f i) else m) b is \<le> (f i :: nat)"
proof (induction "is" arbitrary: b)
  case (Cons x xs)
  then show ?case
    using foldl_min_bound [of P f "min b (f i)" xs] by (cases "x = i") auto
qed simp

lemma free_end_after_le:
  assumes "tail_end = extent_end (extents ! t)" and "ex_type (extents ! t) = kLinearExtent"
  shows "free_end_after extents devices t tail_end \<le> device_limit (devices ! ex_target_source (extents ! t))"
    and "i < length extents \<Longrightarrow> i \<noteq> t \<Longrightarrow> occupies (ex_target_source (extents ! t)) (extents ! i) \<Longrightarrow>
      tail_end \<le> ex_target_data (extents ! i) \<Longrightarrow>
      free_end_after extents devices t tail_end \<le> ex_target_data (extents ! i)"
  unfolding free_end_after_def Let_def device_limit_def [symmetric]
  by (rule foldl_min_bound) (rule foldl_min_le, auto simp: occupies_def)

lemma extend_last:
  assumes "indices = rest @ [t]" and "distinct indices" and "t < length extents"
  shows "\<exists>more. index_map (extents[t := (extents ! t)\<lparr>ex_sectors := ex_sectors (extents ! t) + n\<rparr>]) indices =
      index_map extents indices @ more \<and> length more = n"
proof -
  let ?e = "extents ! t"
  let ?more = "drop (ex_sectors ?e) (extent_map (?e\<lparr>ex_sectors := ex_sectors ?e + n\<rparr>))"
  have "extent_map (?e\<lparr>ex_sectors := ex_sectors ?e + n\<rparr>) = extent_map ?e @ ?more"
    using extent_map_resize [of "ex_sectors ?e" "ex_sectors ?e + n" ?e]
      append_take_drop_id [of "ex_sectors ?e" "extent_map (?e\<lparr>ex_sectors := ex_sectors ?e + n\<rparr>)"] by simp
  then have "index_map (extents[t := ?e\<lparr>ex_sectors := ex_sectors ?e + n\<rparr>]) indices = index_map extents indices @ ?more"
    using assms by (simp add: index_map_update)
  then show ?thesis by (intro exI [of _ ?more]) simp
qed

lemma extents_apart_update:
  assumes "extents_apart extents" and "\<And>i. i < length extents \<Longrightarrow> i \<noteq> t \<Longrightarrow> apart e (extents ! i)"
  shows "extents_apart (extents[t := e])"
  unfolding extents_apart_def
proof (intro allI impI)
  fix i j assume "i < length (extents[t := e])" "j < length (extents[t := e])" "i \<noteq> j"
  then show "apart (extents[t := e] ! i) (extents[t := e] ! j)"
    using assms extents_apartD [OF assms(1), of i j] apart_sym [of e "extents ! i"]
    by (cases "i = t"; cases "j = t") simp_all
qed

lemma extend_tail_grows:
  assumes ok: "alloc_ok devices es extents indices" and wf: "list_all (device_wf n) devices"
    and nonempty: "indices \<noteq> [] \<Longrightarrow> ex_sectors (extents ! last indices) \<noteq> 0"
    and res: "extend_tail devices ls extents indices remaining = (extents', remaining')"
  shows "alloc_ok devices es extents' indices \<and> grows extents indices remaining extents' indices remaining'"
proof (cases "(extents', remaining') = (extents, remaining)")
  case True
  with ok show ?thesis by (simp add: grows_refl)
next
  case False
  define t where "t = last indices"
  define e where "e = extents ! t"
  define tail_end where "tail_end = u64_add (ex_target_data e) (ex_sectors e)"
  define free_end where "free_end = free_end_after extents devices t tail_end"
  define av where "av = free_end - tail_end - (free_end - tail_end) mod ls"
  define amount where "amount = min remaining av"
  from res False have cond: "indices \<noteq> []" "ex_type e = kLinearExtent" "ex_target_source e < length devices"
      "tail_end < free_end"
    and new: "extents' = extents[t := e\<lparr>ex_sectors := u64_add (ex_sectors e) amount\<rparr>]" "remaining' = remaining - amount"
    unfolding extend_tail_def Let_def t_def [symmetric] e_def [symmetric] tail_end_def [symmetric]
      free_end_def [symmetric] av_def [symmetric] amount_def [symmetric]
    by (auto split: if_splits)
  have t: "t < length extents" "indices = butlast indices @ [t]"
    using ok cond(1) last_in_set [of indices] by (auto simp: alloc_ok_def t_def subset_eq simp del: last_in_set)
  let ?d = "devices ! ex_target_source e"
  have well_placed: "well_placed devices e" and ewf: "extent_wf es e"
    using ok t by (auto simp: alloc_ok_def list_all_length e_def)
  have occ: "occupies (ex_target_source e) e" using cond(1,2) nonempty by (simp add: occupies_def e_def t_def)
  have limit: "device_limit ?d < 2 ^ 64"
    using wf cond(3) device_wf_fields(2) [of n ?d] by (simp add: list_all_length kSectorSize_def)
  have tail: "tail_end = extent_end e"
    using well_placed occ limit by (auto simp: tail_end_def u64_add_def well_placed_def extent_end_def)
  have free: "free_end \<le> device_limit ?d"
    using free_end_after_le(1) [of tail_end extents t devices] tail cond(2) by (simp add: free_end_def e_def)
  have amount: "tail_end + amount \<le> free_end" "amount \<le> remaining"
    using cond(4) by (auto simp: amount_def av_def)
  then have sum: "u64_add (ex_sectors e) amount = ex_sectors e + amount"
    using tail free limit by (simp add: u64_add_def extent_end_def)
  let ?e = "e\<lparr>ex_sectors := ex_sectors e + amount\<rparr>"
  have "apart ?e (extents ! i)" if i: "i < length extents" "i \<noteq> t" for i
  proof -
    have "apart e (extents ! i)" using ok i t by (auto simp: alloc_ok_def e_def intro: extents_apartD)
    then show ?thesis
      using free_end_after_le(2) [of tail_end extents t i devices] i cond(1,2) nonempty tail amount
      by (fastforce simp: apart_def occupies_def extent_end_def e_def t_def free_end_def)
  qed
  then have "alloc_ok devices es extents' indices"
    using ok well_placed ewf occ amount free limit tail unfolding new sum
    by (auto simp: alloc_ok_def intro!: extents_apart_update list_all_update)
      (auto simp: well_placed_def extent_wf_def extent_end_def occupies_def)
  moreover from extend_last [OF t(2) _ t(1), of amount] obtain more
    where "index_map (extents[t := ?e]) indices = index_map extents indices @ more" "length more = amount"
    using ok by (auto simp: alloc_ok_def e_def)
  moreover have "extents[t := ?e] ! i = extents ! i" if "i \<notin> set indices" for i
    using that last_in_set [OF cond(1)] by (metis nth_list_update_neq t_def)
  ultimately show ?thesis
    using amount unfolding grows_def new sum by auto
qed

text \<open>Allocating in a free interval.\<close>

lemma extents_apart_snoc:
  "extents_apart xs \<Longrightarrow> (\<And>e. e \<in> set xs \<Longrightarrow> apart e x) \<Longrightarrow> extents_apart (xs @ [x])"
  unfolding extents_apart_def by (auto simp: nth_append less_Suc_eq intro: apart_sym)

lemma allocate_interval_grows:
  assumes ok: "alloc_ok devices es (al_extents al) (al_indices al)" and wf: "list_all (device_wf n) devices"
    and k: "k < length devices" "k < 2 ^ 32" and gap: "free_in (devices ! k) k (al_extents al) gap"
    and al': "al' = allocate_interval geometry (devices ! k) k es ls al gap"
  shows "alloc_ok devices es (al_extents al') (al_indices al')"
    and "grows (al_extents al) (al_indices al) (al_remaining al) (al_extents al') (al_indices al') (al_remaining al')"
    and "\<forall>e \<in> set (al_extents al') - set (al_extents al). fst gap \<le> ex_target_data e \<and> extent_end e \<le> snd gap"
proof -
  let ?d = "devices ! k"
  define start where "start = aligned_sector ?d (fst gap) (logical_block_size geometry)"
  define av where "av = snd gap - start - (snd gap - start) mod ls"
  define amount where "amount = min (al_remaining al) av - min (al_remaining al) av mod ls"
  define x where "x = \<lparr>ex_raw = replicate es 0, ex_sectors = amount, ex_type = kLinearExtent, ex_target_data = start,
    ex_target_source = k\<rparr>"
  have "al' = al \<or> start \<noteq> u64_max \<and> start < snd gap \<and>
      al' = al\<lparr>al_extents := al_extents al @ [x], al_indices := al_indices al @ [length (al_extents al)],
        al_remaining := al_remaining al - amount\<rparr>"
    unfolding al' allocate_interval_def Let_def start_def [symmetric] av_def [symmetric] amount_def [symmetric]
      x_def [symmetric] by auto
  then have "alloc_ok devices es (al_extents al') (al_indices al') \<and>
    grows (al_extents al) (al_indices al) (al_remaining al) (al_extents al') (al_indices al') (al_remaining al') \<and>
    (\<forall>e \<in> set (al_extents al') - set (al_extents al). fst gap \<le> ex_target_data e \<and> extent_end e \<le> snd gap)"
  proof (elim disjE conjE)
    assume "al' = al"
    with ok show ?thesis by (simp add: grows_refl)
  next
    assume start: "start \<noteq> u64_max" "start < snd gap"
      and new: "al' = al\<lparr>al_extents := al_extents al @ [x], al_indices := al_indices al @ [length (al_extents al)],
        al_remaining := al_remaining al - amount\<rparr>"
    have "device_wf n ?d" using wf k(1) by (simp add: list_all_length)
    note d = device_wf_fields [OF this]
    have inside: "bd_first_sector ?d \<le> fst gap" "fst gap < snd gap" "snd gap \<le> device_limit ?d"
      using gap by (simp_all add: free_in_def)
    then have "fst gap * kSectorSize < 2 ^ 64" using d(2) by (simp add: kSectorSize_def)
    then have ge: "fst gap \<le> start" using start(1) by (simp add: start_def aligned_sector_ge)
    have amount: "start + amount \<le> snd gap" "amount \<le> al_remaining al"
      using start(2) by (auto simp: amount_def av_def)
    have limit: "device_limit ?d < 2 ^ 64" using d(2) by (simp add: kSectorSize_def)
    have x: "well_placed devices x" "extent_wf es x"
      using inside ge amount k limit by (auto simp: x_def well_placed_def occupies_def extent_wf_def extent_end_def)
    have clear: "apart e x" if "e \<in> set (al_extents al)" for e
      using gap that ge amount
      by (fastforce simp: apart_def occupies_def free_in_def clear_of_def x_def extent_end_def)
    have ok': "alloc_ok devices es (al_extents al') (al_indices al')"
      using ok x clear unfolding new by (auto simp: alloc_ok_def intro!: extents_apart_snoc)
    have "index_map (al_extents al @ [x]) (al_indices al @ [length (al_extents al)]) =
        index_map (al_extents al) (al_indices al) @ extent_map x"
      using ok by (simp add: index_map_append alloc_ok_def)
    then have "grows (al_extents al) (al_indices al) (al_remaining al) (al_extents al') (al_indices al') (al_remaining al')"
      using amount unfolding new grows_def by (auto simp: nth_append x_def)
    with ok' ge amount show ?thesis unfolding new by (auto simp: x_def extent_end_def)
  qed
  then show "alloc_ok devices es (al_extents al') (al_indices al')"
    "grows (al_extents al) (al_indices al) (al_remaining al) (al_extents al') (al_indices al') (al_remaining al')"
    "\<forall>e \<in> set (al_extents al') - set (al_extents al). fst gap \<le> ex_target_data e \<and> extent_end e \<le> snd gap"
    by blast+
qed

lemma allocate_intervals_grow:
  assumes "alloc_ok devices es (al_extents al) (al_indices al)" and "list_all (device_wf n) devices"
    and "k < length devices" and "k < 2 ^ 32" and "\<forall>gap \<in> set free. free_in (devices ! k) k (al_extents al) gap"
    and "sorted_wrt (\<lambda>x y. snd x \<le> fst y) free"
    and "al' = foldl (allocate_interval geometry (devices ! k) k es ls) al free"
  shows "alloc_ok devices es (al_extents al') (al_indices al') \<and>
    grows (al_extents al) (al_indices al) (al_remaining al) (al_extents al') (al_indices al') (al_remaining al')"
  using assms
proof (induction free arbitrary: al)
  case (Cons gap free)
  define al1 where "al1 = allocate_interval geometry (devices ! k) k es ls al gap"
  have gap: "free_in (devices ! k) k (al_extents al) gap" using Cons.prems by simp
  note step = allocate_interval_grows [OF Cons.prems(1-4) gap al1_def]
  have "\<forall>g \<in> set free. free_in (devices ! k) k (al_extents al1) g"
  proof
    fix g assume g: "g \<in> set free"
    with Cons.prems(5,6) have "free_in (devices ! k) k (al_extents al) g" "snd gap \<le> fst g" by auto
    then show "free_in (devices ! k) k (al_extents al1) g"
      using step(3) unfolding free_in_def clear_of_def by (metis DiffI fst_conv le_trans snd_conv)
  qed
  then have "alloc_ok devices es (al_extents al') (al_indices al') \<and>
      grows (al_extents al1) (al_indices al1) (al_remaining al1) (al_extents al') (al_indices al') (al_remaining al')"
    using Cons.IH [of al1] Cons.prems step(1) by (simp add: al1_def)
  with grows_trans [OF step(2)] show ?case by blast
qed (simp add: grows_refl)

lemma allocate_on_device_grows:
  assumes "alloc_ok (md_block_devices md) es (al_extents al) (al_indices al)"
    and "list_all (device_wf n) (md_block_devices md)" and "k < length (md_block_devices md)" and "k < 2 ^ 32"
    and "es = desc_entry_size (md_extent_descriptor md)" and "al' = allocate_on_device md ls al k"
  shows "alloc_ok (md_block_devices md) es (al_extents al') (al_indices al') \<and>
    grows (al_extents al) (al_indices al) (al_remaining al) (al_extents al') (al_indices al') (al_remaining al')"
proof (cases "al_remaining al = 0")
  case True
  with assms(1,6) show ?thesis by (simp add: allocate_on_device_def grows_refl)
next
  case False
  let ?d = "md_block_devices md ! k"
  have "list_all (well_placed (md_block_devices md)) (al_extents al)" using assms(1) by (simp add: alloc_ok_def)
  note free = free_intervals_free [OF this assms(3,2)]
  have "al' = foldl (allocate_interval (md_geometry md) ?d k es ls) al (free_intervals ?d (al_extents al) k)"
    using False assms(5,6) by (simp add: allocate_on_device_def Let_def)
  from allocate_intervals_grow [OF assms(1-4) free this] show ?thesis .
qed

lemma allocate_devices_grow:
  assumes "alloc_ok (md_block_devices md) es (al_extents al) (al_indices al)"
    and "list_all (device_wf n) (md_block_devices md)" and "set ks \<subseteq> {..<length (md_block_devices md)}"
    and "length (md_block_devices md) < 2 ^ 32"
    and "es = desc_entry_size (md_extent_descriptor md)" and "al' = foldl (allocate_on_device md ls) al ks"
  shows "alloc_ok (md_block_devices md) es (al_extents al') (al_indices al') \<and>
    grows (al_extents al) (al_indices al) (al_remaining al) (al_extents al') (al_indices al') (al_remaining al')"
  using assms
proof (induction ks arbitrary: al)
  case (Cons k ks)
  define al1 where "al1 = allocate_on_device md ls al k"
  have step: "alloc_ok (md_block_devices md) es (al_extents al1) (al_indices al1) \<and>
      grows (al_extents al) (al_indices al) (al_remaining al) (al_extents al1) (al_indices al1) (al_remaining al1)"
    using Cons.prems by (intro allocate_on_device_grows [OF Cons.prems(1,2) _ _ Cons.prems(5) al1_def]) auto
  with Cons.IH [of al1] Cons.prems grows_trans show ?case by (fastforce simp: al1_def)
qed (simp add: grows_refl)

lemma device_order_bound: "set (device_order devices extents indices) \<subseteq> {..<length devices}"
proof -
  have "set (foldl (\<lambda>order i. if i \<in> set order then order else order @ [i]) xs is) \<subseteq> set xs \<union> set is" for xs "is" :: "nat list"
  proof (induction "is" arbitrary: xs)
    case (Cons i "is")
    from Cons [of xs] Cons [of "xs @ [i]"] show ?case by auto
  qed simp
  then show ?thesis unfolding device_order_def Let_def by (rule order_trans) auto
qed

theorem grow_partition_grows:
  assumes "alloc_ok (md_block_devices md) es (md_extents md) indices"
    and "list_all (device_wf n) (md_block_devices md)" and "length (md_block_devices md) < 2 ^ 32"
    and "indices \<noteq> [] \<Longrightarrow> ex_sectors (md_extents md ! last indices) \<noteq> 0"
    and "es = desc_entry_size (md_extent_descriptor md)" and "al = grow_partition md indices remaining"
  shows "alloc_ok (md_block_devices md) es (al_extents al) (al_indices al) \<and>
    grows (md_extents md) indices remaining (al_extents al) (al_indices al) (al_remaining al)"
proof -
  let ?ls = "logical_block_size (md_geometry md) div kSectorSize"
  obtain extents1 remaining1 where
    tail: "extend_tail (md_block_devices md) ?ls (md_extents md) indices remaining = (extents1, remaining1)"
    by force
  define al1 where "al1 = \<lparr>al_extents = extents1, al_indices = indices, al_remaining = remaining1\<rparr>"
  note step = extend_tail_grows [OF assms(1,2,4) tail]
  have "al = foldl (allocate_on_device md ?ls) al1 (device_order (md_block_devices md) extents1 indices)"
    using assms(6) tail by (simp add: grow_partition_def al1_def)
  from allocate_devices_grow [OF _ assms(2) device_order_bound assms(3,5) this] step
  have "alloc_ok (md_block_devices md) es (al_extents al) (al_indices al) \<and>
      grows extents1 indices remaining1 (al_extents al) (al_indices al) (al_remaining al)"
    by (simp add: al1_def)
  with step grows_trans show ?thesis by blast
qed

end
