(* ===== verification/Super_Resized.thy ===== *)
theory Super_Resized
  imports Super_Grow
begin

text \<open>
  What resizing a logical partition does to the sector maps of all partitions, and that it keeps the metadata well formed
  and the device sectors exclusive.
\<close>

section \<open>Sectors in use\<close>

definition partition_map :: "metadata \<Rightarrow> nat \<Rightarrow> (nat \<times> nat) option list" where
  "partition_map md j = index_map (md_extents md) (lp_extent_indices (md_partitions md ! j))"

text \<open>The device sectors of all partitions, with repetitions.\<close>

definition mapped_sectors :: "metadata \<Rightarrow> (nat \<times> nat) list" where
  "mapped_sectors md = List.map_filter id (index_map (md_extents md) (all_indices (md_partitions md)))"

definition sectors_exclusive :: "metadata \<Rightarrow> bool" where
  "sectors_exclusive md \<longleftrightarrow> distinct (mapped_sectors md)"

definition sectors_usable :: "metadata \<Rightarrow> bool" where
  "sectors_usable md \<longleftrightarrow>
     (\<forall>(k, s) \<in> set (mapped_sectors md).
        k < length (md_block_devices md) \<and> bd_first_sector (md_block_devices md ! k) \<le> s \<and>
        s < device_limit (md_block_devices md ! k))"

definition no_empty_extents :: "metadata \<Rightarrow> bool" where
  "no_empty_extents md \<longleftrightarrow> list_all (\<lambda>e. ex_sectors e \<noteq> 0) (md_extents md)"

definition extent_sectors :: "extent \<Rightarrow> (nat \<times> nat) list" where
  "extent_sectors e = List.map_filter id (extent_map e)"

lemma set_extent_sectors:
  "set (extent_sectors e) = {(k, s). occupies k e \<and> ex_target_data e \<le> s \<and> s < extent_end e}"
proof -
  have "(ex_target_source e, s) \<in> set (extent_sectors e) \<longleftrightarrow> ex_target_data e \<le> s \<and> s < extent_end e"
    if "ex_type e = kLinearExtent" for s
    using that nat_le_iff_add [of "ex_target_data e" s]
    by (auto simp: extent_sectors_def extent_map_def List.map_filter_def extent_end_def image_iff)
  moreover have "k = ex_target_source e" if "(k, s) \<in> set (extent_sectors e)" for k s
    using that by (auto simp: extent_sectors_def extent_map_def List.map_filter_def split: if_splits)
  moreover have "set (extent_sectors e) = {}" if "ex_type e \<noteq> kLinearExtent"
    using that by (auto simp: extent_sectors_def extent_map_def List.map_filter_def)
  ultimately show ?thesis by (cases "ex_type e = kLinearExtent") (auto simp: occupies_def extent_end_def)
qed

lemma distinct_extent_sectors: "distinct (extent_sectors e)"
proof (cases "ex_type e = kLinearExtent")
  case True
  then have "extent_sectors e = map (\<lambda>k. (ex_target_source e, ex_target_data e + k)) [0..<ex_sectors e]"
    by (simp add: extent_sectors_def extent_map_def List.map_filter_def comp_def)
  then show ?thesis by (simp add: distinct_map inj_on_def)
next
  case False
  with set_extent_sectors [of e] have "extent_sectors e = []" by (simp add: occupies_def)
  then show ?thesis by simp
qed

lemma apart_sectors: "apart e f \<longleftrightarrow> set (extent_sectors e) \<inter> set (extent_sectors f) = {}"
proof
  assume "set (extent_sectors e) \<inter> set (extent_sectors f) = {}"
  then have none: "\<not> (occupies k e \<and> occupies k f \<and> ex_target_data e \<le> s \<and> s < extent_end e \<and>
      ex_target_data f \<le> s \<and> s < extent_end f)" for k s
    unfolding set_extent_sectors by blast
  have "extent_end e \<le> ex_target_data f \<or> extent_end f \<le> ex_target_data e"
    if "occupies k e" "occupies k f" for k
    using none [of k "ex_target_data e"] none [of k "ex_target_data f"] that
    by (auto simp: occupies_def extent_end_def)
  then show "apart e f" unfolding apart_def by blast
qed (auto simp: apart_def set_extent_sectors)

lemma map_filter_index_map:
  "List.map_filter id (index_map extents indices) = concat (map (\<lambda>i. extent_sectors (extents ! i)) indices)"
  by (induction indices) (simp_all add: extent_sectors_def List.map_filter_def)

lemma distinct_concat_map:
  assumes "distinct xs"
  shows "distinct (concat (map f xs)) \<longleftrightarrow>
    (\<forall>x \<in> set xs. distinct (f x)) \<and> (\<forall>x \<in> set xs. \<forall>y \<in> set xs. x \<noteq> y \<longrightarrow> set (f x) \<inter> set (f y) = {})"
  using assms
proof (induction xs)
  case (Cons x xs)
  let ?pair = "\<lambda>x y. x \<noteq> y \<longrightarrow> set (f x) \<inter> set (f y) = {}"
  have "distinct (concat (map f (x # xs))) \<longleftrightarrow>
      distinct (f x) \<and> distinct (concat (map f xs)) \<and> (\<forall>y \<in> set xs. set (f x) \<inter> set (f y) = {})"
    by auto
  also have "\<dots> \<longleftrightarrow> distinct (f x) \<and> (\<forall>y \<in> set xs. distinct (f y)) \<and> (\<forall>y \<in> set xs. \<forall>z \<in> set xs. ?pair y z) \<and>
      (\<forall>y \<in> set xs. ?pair x y)"
    using Cons by (auto simp only: distinct.simps)
  also have "\<dots> \<longleftrightarrow> (\<forall>y \<in> set (x # xs). distinct (f y)) \<and> (\<forall>y \<in> set (x # xs). \<forall>z \<in> set (x # xs). ?pair y z)"
  proof -
    have "(\<forall>y \<in> insert a A. \<forall>z \<in> insert a A. D y z) \<longleftrightarrow>
        D a a \<and> (\<forall>y \<in> A. D a y) \<and> (\<forall>y \<in> A. D y a) \<and> (\<forall>y \<in> A. \<forall>z \<in> A. D y z)" for D and a :: 'a and A
      by blast
    from this [of x "set xs" ?pair] have "(\<forall>y \<in> set (x # xs). \<forall>z \<in> set (x # xs). ?pair y z) \<longleftrightarrow>
        (\<forall>y \<in> set xs. ?pair x y) \<and> (\<forall>y \<in> set xs. ?pair y x) \<and> (\<forall>y \<in> set xs. \<forall>z \<in> set xs. ?pair y z)"
      by (simp only: list.set) simp
    moreover have "(\<forall>y \<in> set xs. ?pair y x) \<longleftrightarrow> (\<forall>y \<in> set xs. ?pair x y)" by (metis Int_commute)
    ultimately show ?thesis by (simp only: list.set ball_simps(7)) argo
  qed
  finally show ?case .
qed simp

lemma sectors_exclusive_apart:
  assumes "distinct (all_indices (md_partitions md))"
  shows "sectors_exclusive md \<longleftrightarrow>
    (\<forall>i \<in> set (all_indices (md_partitions md)). \<forall>j \<in> set (all_indices (md_partitions md)).
       i \<noteq> j \<longrightarrow> apart (md_extents md ! i) (md_extents md ! j))"
  unfolding sectors_exclusive_def mapped_sectors_def map_filter_index_map distinct_concat_map [OF assms]
  by (simp add: distinct_extent_sectors apart_sectors)

lemma sectors_usable_placed:
  "sectors_usable md \<longleftrightarrow>
    (\<forall>i \<in> set (all_indices (md_partitions md)). well_placed (md_block_devices md) (md_extents md ! i))"
proof -
  have "(\<forall>(k, s) \<in> set (extent_sectors e). k < length ds \<and> bd_first_sector (ds ! k) \<le> s \<and> s < device_limit (ds ! k)) \<longleftrightarrow>
      well_placed ds e" for e ds
  proof
    assume all: "\<forall>(k, s) \<in> set (extent_sectors e). k < length ds \<and> bd_first_sector (ds ! k) \<le> s \<and> s < device_limit (ds ! k)"
    have "k < length ds \<and> bd_first_sector (ds ! k) \<le> ex_target_data e \<and> extent_end e \<le> device_limit (ds ! k)"
      if "occupies k e" for k
    proof -
      from that have "(k, ex_target_data e) \<in> set (extent_sectors e)" "(k, extent_end e - 1) \<in> set (extent_sectors e)"
        unfolding set_extent_sectors by (auto simp: occupies_def extent_end_def)
      with all have "k < length ds" "bd_first_sector (ds ! k) \<le> ex_target_data e" "extent_end e - 1 < device_limit (ds ! k)"
        by fastforce+
      then show ?thesis by linarith
    qed
    then show "well_placed ds e" by (simp add: well_placed_def)
  qed (auto simp: well_placed_def set_extent_sectors)
  then show ?thesis
    unfolding sectors_usable_def mapped_sectors_def map_filter_index_map by auto
qed

section \<open>Storing a partition\<close>

lemma all_indices_update:
  assumes "self < length ps"
  shows "all_indices (ps[self := p]) =
    all_indices (take self ps) @ lp_extent_indices p @ all_indices (drop (Suc self) ps)"
    and "all_indices ps = all_indices (take self ps) @ lp_extent_indices (ps ! self) @ all_indices (drop (Suc self) ps)"
proof -
  show "all_indices (ps[self := p]) =
      all_indices (take self ps) @ lp_extent_indices p @ all_indices (drop (Suc self) ps)"
    using assms by (simp add: upd_conv_take_nth_drop)
  show "all_indices ps = all_indices (take self ps) @ lp_extent_indices (ps ! self) @ all_indices (drop (Suc self) ps)"
    by (subst (1) id_take_nth_drop [OF assms]) simp
qed

text \<open>Extents and indices that a resize may leave for the partition at \<open>self\<close>.\<close>

definition keeps_others :: "metadata \<Rightarrow> nat \<Rightarrow> extent list \<Rightarrow> nat list \<Rightarrow> bool" where
  "keeps_others md self extents indices \<longleftrightarrow>
     (let old = lp_extent_indices (md_partitions md ! self) in
      length (md_extents md) \<le> length extents \<and> distinct indices \<and> set indices \<subseteq> {..<length extents} \<and>
      set indices \<subseteq> set old \<union> {length (md_extents md)..} \<and>
      (\<forall>i < length (md_extents md). i \<notin> set old \<longrightarrow> extents ! i = md_extents md ! i))"

lemma swap_middle:
  assumes "distinct (xs @ old @ zs)" and "set (xs @ old @ zs) \<subseteq> {..<n :: nat}" and "distinct new"
    and "set new \<subseteq> set old \<union> {n..}"
  shows "distinct (xs @ new @ zs)"
  using assms by (fastforce simp: disjoint_iff)

lemma own_indices_disjoint:
  assumes "distinct (all_indices ps)" and "self < length ps" and "j < length ps" and "j \<noteq> self"
  shows "set (lp_extent_indices (ps ! j)) \<inter> set (lp_extent_indices (ps ! self)) = {}"
proof -
  have "ps ! j \<in> set (take self ps) \<union> set (drop (Suc self) ps)"
  proof (cases "j < self")
    case True
    with assms(3) show ?thesis by (auto simp: in_set_conv_nth)
  next
    case False
    with assms(3,4) have "ps ! j = drop (Suc self) ps ! (j - Suc self)" "j - Suc self < length (drop (Suc self) ps)" by auto
    then show ?thesis by (metis UnI2 nth_mem)
  qed
  then have "set (lp_extent_indices (ps ! j)) \<subseteq>
      set (all_indices (take self ps)) \<union> set (all_indices (drop (Suc self) ps))"
    by (auto simp: all_indices_def)
  moreover have "distinct (all_indices (take self ps) @ lp_extent_indices (ps ! self) @ all_indices (drop (Suc self) ps))"
    using assms(1) all_indices_update(2) [OF assms(2)] by simp
  ultimately show ?thesis by auto
qed

lemma store_partition_owners:
  assumes "owners_wf md" and "self < length (md_partitions md)" and "keeps_others md self extents indices"
  shows "owners_wf (store_partition md self extents indices)"
proof -
  let ?p = "md_partitions md ! self"
  let ?ps = "(md_partitions md)[self := ?p\<lparr>lp_extent_indices := indices\<rparr>]"
  have "map lp_name ?ps = map lp_name (md_partitions md)"
    using assms(2) by (simp add: map_update list_update_same_conv)
  moreover define xs zs where "xs = all_indices (take self (md_partitions md))"
    and "zs = all_indices (drop (Suc self) (md_partitions md))"
  have split: "all_indices (md_partitions md) = xs @ lp_extent_indices ?p @ zs" "all_indices ?ps = xs @ indices @ zs"
    using all_indices_update(2) [OF assms(2)] all_indices_update(1) [OF assms(2)] by (simp_all add: xs_def zs_def)
  have old: "distinct (xs @ lp_extent_indices ?p @ zs)" "set (xs @ lp_extent_indices ?p @ zs) \<subseteq> {..<length (md_extents md)}"
    using assms(1) split(1) by (simp_all add: owners_wf_def)
  have new: "distinct indices" "set indices \<subseteq> set (lp_extent_indices ?p) \<union> {length (md_extents md)..}"
      "set indices \<subseteq> {..<length extents}" "length (md_extents md) \<le> length extents"
    using assms(3) by (simp_all add: keeps_others_def Let_def)
  have "distinct (all_indices ?ps)" unfolding split by (rule swap_middle [OF old new(1,2)])
  moreover have "set (all_indices ?ps) \<subseteq> {..<length extents}" unfolding split using old(2) new(3,4) by auto
  ultimately show ?thesis
    using assms(1) by (simp add: owners_wf_def store_partition_def)
qed

lemma store_partition_others:
  assumes "owners_wf md" and "self < length (md_partitions md)" and "keeps_others md self extents indices"
    and "j < length (md_partitions md)" and "j \<noteq> self"
  shows "partition_map (store_partition md self extents indices) j = partition_map md j"
proof -
  let ?ps = "md_partitions md"
  have "extents ! i = md_extents md ! i" if i: "i \<in> set (lp_extent_indices (?ps ! j))" for i
  proof -
    have "i < length (md_extents md)"
      using assms(1,4) i by (force simp: owners_wf_def all_indices_def)
    moreover have "i \<notin> set (lp_extent_indices (?ps ! self))"
    proof -
      have "set (lp_extent_indices (?ps ! j)) \<inter> set (lp_extent_indices (?ps ! self)) = {}"
        by (rule own_indices_disjoint) (use assms in \<open>simp_all add: owners_wf_def\<close>)
      with i show ?thesis by blast
    qed
    ultimately show ?thesis using assms(3) by (simp add: keeps_others_def Let_def)
  qed
  then have "index_map extents (lp_extent_indices (?ps ! j)) = index_map (md_extents md) (lp_extent_indices (?ps ! j))"
    by (rule index_map_cong)
  then show ?thesis using assms(5) by (simp add: partition_map_def store_partition_def)
qed

section \<open>Groups\<close>

definition group_bytes :: "metadata \<Rightarrow> nat \<Rightarrow> nat" where
  "group_bytes md g =
     (\<Sum>j \<in> {j. j < length (md_partitions md) \<and> lp_group_index (md_partitions md ! j) = g}.
        length (partition_map md j) * kSectorSize)"

lemma group_other_bytes_sum:
  "group_other_bytes md self js acc = Inr n \<Longrightarrow>
   n = acc + sum_list (map (\<lambda>j. length (partition_map md j) * kSectorSize)
     (filter (\<lambda>j. j \<noteq> self \<and> lp_group_index (md_partitions md ! j) = lp_group_index (md_partitions md ! self)) js))"
  by (induction md self js acc rule: group_other_bytes.induct)
    (auto simp: partition_map_def dest!: partition_bytes_length split: if_splits sum.splits)

lemma check_group_bound:
  assumes "check_group md self aligned = Inr ()" and "self < length (md_partitions md)"
    and "g = lp_group_index (md_partitions md ! self)" and "gr_maximum_size (md_groups md ! g) \<noteq> 0"
    and "md' = store_partition md self extents indices" and "length (partition_map md' self) * kSectorSize = aligned"
    and "\<And>j. j < length (md_partitions md) \<Longrightarrow> j \<noteq> self \<Longrightarrow> partition_map md' j = partition_map md j"
  shows "group_bytes md' g \<le> gr_maximum_size (md_groups md ! g)"
proof -
  let ?n = "length (md_partitions md)"
  let ?members = "{j. j < ?n \<and> lp_group_index (md_partitions md ! j) = g}"
  from assms(1,3,4) obtain other where other: "group_other_bytes md self [0..<?n] 0 = Inr other"
    and fits: "other + aligned \<le> gr_maximum_size (md_groups md ! g)"
    by (auto simp: check_group_def Let_def split: if_splits)
  have "other = (\<Sum>j \<in> set (filter (\<lambda>j. j \<noteq> self \<and> lp_group_index (md_partitions md ! j) = g) [0..<?n]).
      length (partition_map md j) * kSectorSize)"
    using group_other_bytes_sum [OF other] assms(3) by (simp add: sum_list_distinct_conv_sum_set)
  also have "set (filter (\<lambda>j. j \<noteq> self \<and> lp_group_index (md_partitions md ! j) = g) [0..<?n]) = ?members - {self}" by auto
  also have "(\<Sum>j \<in> ?members - {self}. length (partition_map md j) * kSectorSize) =
      (\<Sum>j \<in> ?members - {self}. length (partition_map md' j) * kSectorSize)"
    using assms(7) by (intro sum.cong) auto
  finally have "other + aligned = (\<Sum>j \<in> ?members. length (partition_map md' j) * kSectorSize)"
    using assms(2,3,6) by (subst sum.remove [of _ self]) auto
  moreover have "{j. j < length (md_partitions md') \<and> lp_group_index (md_partitions md' ! j) = g} = ?members"
    using assms(2,3) by (auto simp: assms(5) store_partition_def nth_list_update split: if_splits)
  ultimately show ?thesis using fits by (simp add: group_bytes_def)
qed

section \<open>Resizing\<close>

definition extents_owned :: "metadata \<Rightarrow> bool" where
  "extents_owned md \<longleftrightarrow> set (all_indices (md_partitions md)) = {..<length (md_extents md)}"

text \<open>Metadata on which the allocator may rely.\<close>

definition metadata_sound :: "metadata \<Rightarrow> bool" where
  "metadata_sound md \<longleftrightarrow>
     metadata_wf md \<and> extents_owned md \<and> no_empty_extents md \<and> sectors_usable md \<and> sectors_exclusive md"

lemma metadata_sound_alloc:
  assumes "metadata_sound md" and "self < length (md_partitions md)"
  shows "alloc_ok (md_block_devices md) (desc_entry_size (md_extent_descriptor md)) (md_extents md)
    (lp_extent_indices (md_partitions md ! self))"
proof -
  have own: "set (all_indices (md_partitions md)) = {..<length (md_extents md)}" "distinct (all_indices (md_partitions md))"
    using assms(1) by (auto simp: metadata_sound_def extents_owned_def metadata_wf_def owners_wf_def)
  have "list_all (well_placed (md_block_devices md)) (md_extents md)"
    using assms(1) own by (auto simp: metadata_sound_def sectors_usable_placed list_all_length)
  moreover have "extents_apart (md_extents md)"
    using assms(1) own by (auto simp: metadata_sound_def sectors_exclusive_apart extents_apart_def)
  moreover have "distinct (lp_extent_indices (md_partitions md ! self))"
      "set (lp_extent_indices (md_partitions md ! self)) \<subseteq> {..<length (md_extents md)}"
    using own all_indices_update(2) [OF assms(2)] by auto
  ultimately show ?thesis
    using assms(1) by (simp add: alloc_ok_def metadata_sound_def metadata_wf_def)
qed

lemma find_partition_Some:
  "find_partition md name = Some self \<Longrightarrow> self < length (md_partitions md) \<and> lp_name (md_partitions md ! self) = name"
  by (auto simp: find_partition_def dest: find_SomeD)

text \<open>What the two branches leave.\<close>

definition fits_old :: "metadata \<Rightarrow> nat \<Rightarrow> nat \<Rightarrow> extent list \<Rightarrow> nat list \<Rightarrow> bool" where
  "fits_old md self sectors extents indices \<longleftrightarrow>
     alloc_ok (md_block_devices md) (desc_entry_size (md_extent_descriptor md)) extents indices \<and>
     keeps_others md self extents indices \<and> length (index_map extents indices) = sectors \<and>
     take (min (length (partition_map md self)) sectors) (index_map extents indices) =
     take (min (length (partition_map md self)) sectors) (partition_map md self)"

lemma shrink_fits_old:
  assumes "metadata_sound md" and "self < length (md_partitions md)" and "remove \<le> length (partition_map md self)"
    and "shrink_extents (md_extents md) (lp_extent_indices (md_partitions md ! self)) remove = (extents, indices, r)"
  shows "fits_old md self (length (partition_map md self) - remove) extents indices"
proof -
  let ?old = "lp_extent_indices (md_partitions md ! self)"
  note ok = metadata_sound_alloc [OF assms(1,2)]
  then have old: "distinct ?old" "set ?old \<subseteq> {..<length (md_extents md)}" by (simp_all add: alloc_ok_def)
  from shrink_extents_correct [OF assms(4) old] obtain n where
    map: "index_map extents indices = take (length (partition_map md self) - remove) (partition_map md self)"
    and sh: "list_all2 shrunk (md_extents md) extents" and same: "\<forall>i. i \<notin> set ?old \<longrightarrow> extents ! i = md_extents md ! i"
    and ind: "indices = take n ?old"
    by (auto simp: partition_map_def)
  have len: "length extents = length (md_extents md)" using sh by (simp add: list_all2_lengthD)
  have "list_all (well_placed (md_block_devices md)) extents"
      "list_all (extent_wf (desc_entry_size (md_extent_descriptor md))) extents"
    using ok sh shrunk_keeps(1,2) by (auto simp: alloc_ok_def list_all_length list_all2_conv_all_nth)
  moreover have "extents_apart extents" using ok sh by (auto simp: alloc_ok_def intro: shrunk_apart)
  moreover have "distinct indices" "set indices \<subseteq> set ?old" using old by (auto simp: ind dest: in_set_takeD)
  ultimately show ?thesis
    using old same len by (auto simp: fits_old_def alloc_ok_def keeps_others_def map)
qed

lemma grow_fits_old:
  assumes "metadata_sound md" and "self < length (md_partitions md)"
    and "al = grow_partition md (lp_extent_indices (md_partitions md ! self)) extra" and "al_remaining al = 0"
  shows "fits_old md self (length (partition_map md self) + extra) (al_extents al) (al_indices al)"
proof -
  let ?old = "lp_extent_indices (md_partitions md ! self)"
  note ok = metadata_sound_alloc [OF assms(1,2)]
  have wf: "metadata_wf md" "no_empty_extents md" using assms(1) by (simp_all add: metadata_sound_def)
  have nonempty: "ex_sectors (md_extents md ! last ?old) \<noteq> 0" if "?old \<noteq> []"
    using ok last_in_set [OF that] wf(2) by (auto simp: alloc_ok_def no_empty_extents_def list_all_length)
  have "alloc_ok (md_block_devices md) (desc_entry_size (md_extent_descriptor md)) (al_extents al) (al_indices al) \<and>
      grows (md_extents md) ?old extra (al_extents al) (al_indices al) (al_remaining al)"
    using wf(1) by (intro grow_partition_grows [OF ok _ _ nonempty refl assms(3)]) (auto simp: metadata_wf_def)
  then show ?thesis
    using assms(4) by (auto simp: fits_old_def grows_def keeps_others_def partition_map_def alloc_ok_def)
qed

text \<open>The three ways in which a resize succeeds.\<close>

lemma resize_partition_cases:
  assumes "metadata_wf md" and "resize_partition md name requested = Inr md'"
    and aligned_def: "aligned = sm_align_up requested (logical_block_size (md_geometry md))"
  obtains self where "find_partition md name = Some self" and "aligned \<noteq> u64_max"
    and "aligned = length (partition_map md self) * kSectorSize" and "md' = md"
  | self extents indices where "find_partition md name = Some self" and "aligned \<noteq> u64_max"
    and "check_group md self aligned = Inr ()" and "aligned div kSectorSize < length (partition_map md self)"
    and "shrink_extents (md_extents md) (lp_extent_indices (md_partitions md ! self))
           (length (partition_map md self) - aligned div kSectorSize) = (extents, indices, 0)"
    and "md' = store_partition md self extents indices"
  | self al where "find_partition md name = Some self" and "aligned \<noteq> u64_max"
    and "check_group md self aligned = Inr ()" and "length (partition_map md self) \<le> aligned div kSectorSize"
    and "al = grow_partition md (lp_extent_indices (md_partitions md ! self))
           (aligned div kSectorSize - length (partition_map md self))" and "al_remaining al = 0"
    and "md' = store_partition md self (al_extents al) (al_indices al)"
proof -
  from assms(2) obtain self current where self: "find_partition md name = Some self"
    and no_max: "aligned \<noteq> u64_max"
    and bytes: "partition_bytes md (md_partitions md ! self) = Inr current"
    and cases: "(if aligned = current then Inr md
      else if length (md_groups md) \<le> lp_group_index (md_partitions md ! self)
      then Inl (super_error Super_malformed ''logical partition group index is invalid'')
      else and_then (check_group md self aligned) (\<lambda>_.
        if aligned div kSectorSize < current div kSectorSize then
          (case shrink_extents (md_extents md) (lp_extent_indices (md_partitions md ! self))
                  (current div kSectorSize - aligned div kSectorSize) of
             (extents, indices, remove) \<Rightarrow>
               if remove = 0 then Inr (store_partition md self extents indices)
               else Inl (super_error Super_malformed ''logical partition shrink exceeded its extents''))
        else
          let al = grow_partition md (lp_extent_indices (md_partitions md ! self))
                     (aligned div kSectorSize - current div kSectorSize) in
          if al_remaining al \<noteq> 0
          then Inl (super_error Super_no_space ''super partition has insufficient free space'')
          else Inr (store_partition md self (al_extents al) (al_indices al)))) = Inr md'"
    unfolding resize_partition_def by (auto simp: Let_def aligned_def split: option.splits if_splits)
  let ?current = "length (partition_map md self) * kSectorSize"
  have len: "self < length (md_partitions md)" using find_partition_Some [OF self] by blast
  have sectors: "?current div kSectorSize = length (partition_map md self)" by (simp add: kSectorSize_def)
  have current: "current = ?current" using partition_bytes_length [OF bytes] by (simp add: partition_map_def)
  show thesis
  proof (cases "aligned = ?current")
    case True
    from cases have "Inr md = (Inr md' :: super_metadata_error + metadata)" unfolding current if_P [OF True] .
    with True that(1) self no_max show ?thesis by blast
  next
    case False
    have valid: "\<not> length (md_groups md) \<le> lp_group_index (md_partitions md ! self)"
      using assms(1) len by (auto simp: metadata_wf_def list_all_length partition_wf_def)
    from cases obtain u where group: "check_group md self aligned = Inr u"
      and rest: "(if aligned div kSectorSize < length (partition_map md self) then
          (case shrink_extents (md_extents md) (lp_extent_indices (md_partitions md ! self))
                  (length (partition_map md self) - aligned div kSectorSize) of
             (extents, indices, remove) \<Rightarrow>
               if remove = 0 then Inr (store_partition md self extents indices)
               else Inl (super_error Super_malformed ''logical partition shrink exceeded its extents''))
        else
          let al = grow_partition md (lp_extent_indices (md_partitions md ! self))
                     (aligned div kSectorSize - length (partition_map md self)) in
          if al_remaining al \<noteq> 0
          then Inl (super_error Super_no_space ''super partition has insufficient free space'')
          else Inr (store_partition md self (al_extents al) (al_indices al))) = Inr md'"
      unfolding current sectors if_not_P [OF False] if_not_P [OF valid] and_then_Inr by blast
    show ?thesis
    proof (cases "aligned div kSectorSize < length (partition_map md self)")
      case True
      from rest obtain extents indices where
        "shrink_extents (md_extents md) (lp_extent_indices (md_partitions md ! self))
           (length (partition_map md self) - aligned div kSectorSize) = (extents, indices, 0)"
        "md' = store_partition md self extents indices"
        unfolding if_P [OF True] by (auto split: if_splits prod.splits)
      with True that(2) self no_max group show ?thesis by simp
    next
      case ge: False
      from rest have "al_remaining (grow_partition md (lp_extent_indices (md_partitions md ! self))
           (aligned div kSectorSize - length (partition_map md self))) = 0"
        "md' = store_partition md self (al_extents (grow_partition md (lp_extent_indices (md_partitions md ! self))
           (aligned div kSectorSize - length (partition_map md self)))) (al_indices (grow_partition md
           (lp_extent_indices (md_partitions md ! self)) (aligned div kSectorSize - length (partition_map md self))))"
        unfolding if_not_P [OF ge] Let_def by (auto split: if_splits)
      with ge that(3) self no_max group show ?thesis by (simp add: not_less)
    qed
  qed
qed

lemma resize_partition_fits:
  assumes "metadata_sound md" and "resize_partition md name requested = Inr md'"
  obtains self extents indices aligned where "find_partition md name = Some self"
    and "aligned = sm_align_up requested (logical_block_size (md_geometry md))" and "kSectorSize dvd aligned"
    and "md' = store_partition md self extents indices" and "fits_old md self (aligned div kSectorSize) extents indices"
    and "aligned \<noteq> length (partition_map md self) * kSectorSize \<Longrightarrow> check_group md self aligned = Inr ()"
proof -
  define aligned where "aligned = sm_align_up requested (logical_block_size (md_geometry md))"
  have wf: "metadata_wf md" using assms(1) by (simp add: metadata_sound_def)
  then have "kSectorSize dvd logical_block_size (md_geometry md)" "0 < logical_block_size (md_geometry md)"
    by (auto simp: metadata_wf_def geometry_wf_def kSectorSize_def)
  with sm_align_up_dvd have dvd: "kSectorSize dvd aligned" if "aligned \<noteq> u64_max"
    using that unfolding aligned_def by (meson dvd_trans)
  from wf assms(2) aligned_def show thesis
  proof (cases rule: resize_partition_cases)
    case (1 self)
    then have len: "self < length (md_partitions md)" by (blast dest: find_partition_Some)
    have "fits_old md self (aligned div kSectorSize) (md_extents md) (lp_extent_indices (md_partitions md ! self))"
      using metadata_sound_alloc [OF assms(1) len] 1(3)
      by (auto simp: fits_old_def keeps_others_def alloc_ok_def partition_map_def kSectorSize_def)
    moreover have "md' = store_partition md self (md_extents md) (lp_extent_indices (md_partitions md ! self))"
      using 1(4) by (simp add: store_partition_def)
    ultimately show ?thesis using that [OF 1(1) aligned_def dvd [OF 1(2)]] 1(3) by blast
  next
    case (2 self extents indices)
    then have len: "self < length (md_partitions md)" by (blast dest: find_partition_Some)
    from shrink_fits_old [OF assms(1) len _ 2(5)] 2(4)
    have "fits_old md self (aligned div kSectorSize) extents indices" by simp
    with that [OF 2(1) aligned_def dvd [OF 2(2)] 2(6)] 2(3) show ?thesis by blast
  next
    case (3 self al)
    then have len: "self < length (md_partitions md)" by (blast dest: find_partition_Some)
    from grow_fits_old [OF assms(1) len 3(5,6)] 3(4)
    have "fits_old md self (aligned div kSectorSize) (al_extents al) (al_indices al)" by simp
    with that [OF 3(1) aligned_def dvd [OF 3(2)] 3(7)] 3(3) show ?thesis by blast
  qed
qed

lemma store_partition_wf:
  assumes "metadata_wf md" and "self < length (md_partitions md)" and "fits_old md self sectors extents indices"
    and "md' = store_partition md self extents indices"
  shows "metadata_wf md'" and "sectors_usable md'" and "sectors_exclusive md'"
proof -
  have fit: "alloc_ok (md_block_devices md) (desc_entry_size (md_extent_descriptor md)) extents indices"
    "keeps_others md self extents indices"
    using assms(3) by (simp_all add: fits_old_def)
  have owners: "owners_wf md'"
    unfolding assms(4) using assms(1) fit(2) by (intro store_partition_owners assms(2)) (simp_all add: metadata_wf_def)
  have ps: "list_all P ((md_partitions md)[self := (md_partitions md ! self)\<lparr>lp_extent_indices := indices\<rparr>])"
    if "list_all P (md_partitions md)" "\<And>p is. P p \<Longrightarrow> P (p\<lparr>lp_extent_indices := is\<rparr>)" for P
    using that assms(2) by (intro list_all_update) (auto simp: list_all_length)
  have "list_all (partition_wf (desc_entry_size (md_partition_descriptor md)) (length (md_groups md)))
      ((md_partitions md)[self := (md_partitions md ! self)\<lparr>lp_extent_indices := indices\<rparr>])"
    using assms(1) by (intro ps) (auto simp: metadata_wf_def partition_wf_def)
  with owners fit(1) assms(1) show "metadata_wf md'"
    unfolding metadata_wf_def descriptors_wf_def assms(4) by (simp add: store_partition_def alloc_ok_def)
  have bound: "set (all_indices (md_partitions md')) \<subseteq> {..<length extents}" "distinct (all_indices (md_partitions md'))"
    using owners by (simp_all add: owners_wf_def assms(4) store_partition_def)
  have fields: "md_extents md' = extents" "md_block_devices md' = md_block_devices md"
    by (simp_all add: assms(4) store_partition_def)
  show "sectors_usable md'"
    unfolding sectors_usable_placed fields using fit(1) bound(1) by (auto simp: alloc_ok_def list_all_length)
  show "sectors_exclusive md'"
    unfolding sectors_exclusive_apart [OF bound(2)] fields
    using fit(1) bound(1) by (auto simp: alloc_ok_def intro!: extents_apartD)
qed

end
