(* ===== verification/Super_Tables.thy ===== *)
theory Super_Tables
  imports Super_Resized
begin

text \<open>
  The tables that serialization writes: the buffer is the concatenation of the entries, the parser finds these entries
  again, and each entry is parsed to what it was written from.
\<close>

section \<open>Filling the buffer\<close>

definition filled :: "byte list \<Rightarrow> nat \<Rightarrow> byte list \<times> nat" where
  "filled octets k = (octets @ replicate k 0, length octets)"

lemma write_span_filled:
  "length data \<le> k \<Longrightarrow> write_span (octets @ replicate k 0) (length octets) data = (octets @ data) @ replicate (k - length data) 0"
  by (simp add: write_span_def)

lemma write_span_whole: "length raw = length entry \<Longrightarrow> write_span entry 0 raw = raw"
  by (simp add: write_span_def)

lemma write_entry_filled:
  assumes "length raw = es" and "\<And>xs. length (put xs) = length xs" and "es \<le> k"
  shows "write_entry es raw put (filled octets k) = filled (octets @ put raw) (k - es)"
proof -
  have "take es (drop (length octets) (octets @ replicate k (0 :: byte))) = replicate es 0" using assms(3) by simp
  then show ?thesis
    using assms write_span_filled [of "put raw" k octets]
    by (simp add: write_entry_def filled_def write_span_whole Let_def)
qed

lemma copy_raw_filled: "length raw \<le> k \<Longrightarrow> copy_raw (filled octets k) raw = filled (octets @ raw) (k - length raw)"
  by (simp add: copy_raw_def filled_def write_span_filled)

definition partition_octets :: "lp_partition \<Rightarrow> nat \<Rightarrow> byte list" where
  "partition_octets p next_extent = partition_fields p next_extent (lp_raw p)"

definition extent_octets :: "extent \<Rightarrow> byte list" where
  "extent_octets e = extent_fields e (ex_raw e)"

fun partitions_octets :: "lp_partition list \<Rightarrow> nat \<Rightarrow> byte list list" where
  "partitions_octets [] next_extent = []"
| "partitions_octets (p # ps) next_extent =
     partition_octets p next_extent # partitions_octets ps ((next_extent + length (lp_extent_indices p)) mod 2 ^ 32)"

lemma length_entry_octets [simp]:
  "length (partition_octets p n) = length (lp_raw p)" "length (extent_octets e) = length (ex_raw e)"
  "length (partitions_octets ps n) = length ps"
  by (simp_all add: partition_octets_def partition_fields_def extent_octets_def extent_fields_def)
    (induction ps arbitrary: n, simp_all)

lemma partitions_octets_lengths:
  "list_all (\<lambda>p. length (lp_raw p) = es) ps \<Longrightarrow> list_all (\<lambda>xs. length xs = es) (partitions_octets ps n)"
  by (induction ps arbitrary: n) auto

lemma write_partitions_filled:
  assumes "list_all (\<lambda>p. length (lp_raw p) = es) ps" and "length ps * es \<le> k"
  shows "write_partitions es ps n (filled octets k) = filled (octets @ concat (partitions_octets ps n)) (k - length ps * es)"
  using assms
proof (induction ps arbitrary: n octets k)
  case (Cons p ps)
  have "write_entry es (lp_raw p) (partition_fields p n) (filled octets k) =
      filled (octets @ partition_octets p n) (k - es)"
    unfolding partition_octets_def using Cons.prems by (intro write_entry_filled) (simp_all add: partition_fields_def)
  with Cons show ?case by simp
qed simp

lemma write_extents_filled:
  assumes "list_all (\<lambda>e. length (ex_raw e) = es) xs" and "length xs * es \<le> k"
  shows "foldl (\<lambda>buffer e. write_entry es (ex_raw e) (extent_fields e) buffer) (filled octets k) xs =
    filled (octets @ concat (map extent_octets xs)) (k - length xs * es)"
  using assms
proof (induction xs arbitrary: octets k)
  case (Cons e xs)
  have "write_entry es (ex_raw e) (extent_fields e) (filled octets k) = filled (octets @ extent_octets e) (k - es)"
    unfolding extent_octets_def using Cons.prems by (intro write_entry_filled) (simp_all add: extent_fields_def)
  with Cons show ?case by simp
qed simp

lemma copy_raws_filled:
  assumes "list_all (\<lambda>xs. length xs = es) raws" and "length raws * es \<le> k"
  shows "foldl copy_raw (filled octets k) raws = filled (octets @ concat raws) (k - length raws * es)"
  using assms by (induction raws arbitrary: octets k) (auto simp: copy_raw_filled)

section \<open>Entries of a table\<close>

lemma length_concat_uniform: "list_all (\<lambda>xs. length xs = es) xss \<Longrightarrow> length (concat xss) = length xss * es"
  by (induction xss) auto

lemma uniform_entry:
  "list_all (\<lambda>xs. length xs = es) xss \<Longrightarrow> i < length xss \<Longrightarrow> take es (drop (i * es) (concat xss @ post)) = xss ! i"
proof (induction xss arbitrary: i)
  case (Cons xs xss)
  then show ?case by (cases i) auto
qed simp

lemma table_entries_concat:
  assumes "list_all (\<lambda>xs. length xs = es) xss" and "n = length pre"
  shows "table_entries (pre @ concat xss @ post) \<lparr>desc_offset = n, desc_count = length xss, desc_entry_size = es\<rparr> = xss"
proof (rule nth_equalityI)
  fix i assume "i < length (table_entries (pre @ concat xss @ post)
    \<lparr>desc_offset = n, desc_count = length xss, desc_entry_size = es\<rparr>)"
  then show "table_entries (pre @ concat xss @ post) \<lparr>desc_offset = n, desc_count = length xss, desc_entry_size = es\<rparr> ! i =
      xss ! i"
    using uniform_entry [OF assms(1), of i post] assms(2) by (simp add: table_entries_def table_entry_def)
qed (simp add: table_entries_def)

section \<open>Parsing written entries\<close>

definition reparsed_extent :: "extent \<Rightarrow> extent" where
  "reparsed_extent e = e\<lparr>ex_raw := extent_octets e\<rparr>"

definition reparsed_partition :: "lp_partition \<Rightarrow> nat \<Rightarrow> lp_partition" where
  "reparsed_partition p n = p\<lparr>lp_raw := partition_octets p n\<rparr>"

lemma parse_extent_octets:
  assumes "extent_wf es e" and "24 \<le> es"
  shows "parse_extent (extent_octets e) = Inr (reparsed_extent e)"
proof -
  have "24 \<le> length (ex_raw e)" using assms by (simp add: extent_wf_def)
  then have "read_le 8 (extent_octets e) 0 = Some (ex_sectors e)" "read_le 4 (extent_octets e) 8 = Some (ex_type e)"
    "read_le 8 (extent_octets e) 12 = Some (ex_target_data e)" "read_le 4 (extent_octets e) 20 = Some (ex_target_source e)"
    using assms(1) unfolding extent_octets_def extent_fields_def comp_def
    by (auto simp: read_put_same read_put_other extent_wf_def kLinearExtent_def kZeroExtent_def)
  with assms(1) show ?thesis by (simp add: parse_extent_def extent_wf_def reparsed_extent_def)
qed

lemma own_extents_contiguous:
  "c \<le> m \<Longrightarrow> own_extents [a..<a + c] (replicate a True @ replicate m False) =
    Inr (replicate (a + c) True @ replicate (m - c) False)"
proof (induction c arbitrary: a m)
  case (Suc c)
  then obtain m' where m: "m = Suc m'" by (cases m) auto
  have "(replicate a True @ replicate m False)[a := True] = replicate (Suc a) True @ replicate m' False"
    by (simp add: m list_update_append replicate_app_Cons_same)
  moreover have "\<not> (replicate a True @ replicate m False) ! a" by (simp add: m nth_append)
  ultimately show ?case
    using Suc.IH [of m' "Suc a"] Suc.prems by (simp add: m upt_rec [of a] del: upt_Suc)
qed simp

lemma parse_partition_octets:
  assumes "partition_wf es gc p" and "52 \<le> es" and "gc \<le> u32_max" and "lp_extent_indices p = [n..<n + c]" and "n + c \<le> ec"
    and "ec \<le> u32_max" and "lp_name p \<notin> set names"
  shows "parse_partition gc ec (partition_octets p n) (replicate n True @ replicate (ec - n) False) names =
    Inr (reparsed_partition p n, replicate (n + c) True @ replicate (ec - (n + c)) False)"
proof -
  have len: "52 \<le> length (lp_raw p)" using assms(1,2) by (simp add: partition_wf_def)
  then have "read_le 4 (partition_octets p n) 36 = Some (lp_attributes p)" "read_le 4 (partition_octets p n) 40 = Some n"
    "read_le 4 (partition_octets p n) 44 = Some c" "read_le 4 (partition_octets p n) 48 = Some (lp_group_index p)"
    using assms unfolding partition_octets_def partition_fields_def comp_def
    by (simp_all add: read_put_same read_put_other partition_wf_def)
  moreover have "parse_name (take 36 (partition_octets p n)) = Some (lp_name p)"
    using assms(1) by (simp add: partition_octets_def partition_fields_def take_put_le partition_wf_def)
  moreover have "own_extents [n..<n + c] (replicate n True @ replicate (ec - n) False) =
      Inr (replicate (n + c) True @ replicate (ec - (n + c)) False)"
    using own_extents_contiguous [of c "ec - n" n] assms(5) by simp
  ultimately show ?thesis
    using assms(1,4,5,7) by (simp add: parse_partition_def partition_wf_def reparsed_partition_def)
qed

section \<open>Renumbered extents\<close>

fun reparsed_partitions :: "lp_partition list \<Rightarrow> nat \<Rightarrow> lp_partition list" where
  "reparsed_partitions [] n = []"
| "reparsed_partitions (p # ps) n = reparsed_partition p n # reparsed_partitions ps (n + length (lp_extent_indices p))"

definition kept_extents :: "extent list \<Rightarrow> lp_partition \<Rightarrow> extent list" where
  "kept_extents extents p = map (nth extents) (kept_indices extents (lp_extent_indices p))"

lemma order_extents_snd:
  "snd (order_extents extents ps ordered) = ordered @ concat (map (kept_extents extents) ps)"
  by (induction ps arbitrary: ordered) (auto simp: Let_def kept_extents_def split: prod.splits, metis append.assoc snd_conv)

lemma order_extents_Cons:
  "order_extents extents (p # ps) ordered =
    (p\<lparr>lp_extent_indices := [length ordered..<length ordered + length (kept_extents extents p)]\<rparr> #
       fst (order_extents extents ps (ordered @ kept_extents extents p)),
     snd (order_extents extents ps (ordered @ kept_extents extents p)))"
  by (simp add: Let_def kept_extents_def split: prod.splits)

declare order_extents.simps(2) [simp del]

lemma length_order_extents [simp]: "length (fst (order_extents extents ps ordered)) = length ps"
  by (induction ps arbitrary: ordered) (auto simp: order_extents_Cons)

lemma order_extents_fields:
  "map lp_raw (fst (order_extents extents ps ordered)) = map lp_raw ps"
  "map lp_name (fst (order_extents extents ps ordered)) = map lp_name ps"
  "map lp_attributes (fst (order_extents extents ps ordered)) = map lp_attributes ps"
  "map lp_group_index (fst (order_extents extents ps ordered)) = map lp_group_index ps"
  by (induction ps arbitrary: ordered) (simp_all add: order_extents_Cons)

lemma parse_partitions_octets:
  assumes "list_all (partition_wf es gc) ps" and "52 \<le> es" and "gc \<le> u32_max" and "ec \<le> u32_max"
    and "distinct (map lp_name ps)" and "set names \<inter> set (map lp_name ps) = {}"
    and "order_extents extents ps ordered = (ps', ordered')" and "length ordered' \<le> ec"
  shows "parse_partitions gc ec (partitions_octets ps' (length ordered))
      (replicate (length ordered) True @ replicate (ec - length ordered) False) names =
    Inr (reparsed_partitions ps' (length ordered), replicate (length ordered') True @ replicate (ec - length ordered') False)"
  using assms
proof (induction ps arbitrary: ordered ps' names)
  case (Cons p ps)
  let ?n = "length ordered" and ?c = "length (kept_extents extents p)"
  define q where "q = p\<lparr>lp_extent_indices := [?n..<?n + ?c]\<rparr>"
  obtain qs where rest: "order_extents extents ps (ordered @ kept_extents extents p) = (qs, ordered')" and ps': "ps' = q # qs"
    using Cons.prems(7)
    by (cases "order_extents extents ps (ordered @ kept_extents extents p)") (auto simp: order_extents_Cons q_def)
  have "length (ordered @ kept_extents extents p) \<le> length ordered'"
    using order_extents_snd [of extents ps "ordered @ kept_extents extents p"] rest by simp
  then have bound: "?n + ?c \<le> ec" using Cons.prems(8) by simp
  have wf: "partition_wf es gc q" "lp_name q \<notin> set names" "lp_extent_indices q = [?n..<?n + ?c]"
    using Cons.prems(1,6) by (auto simp: q_def partition_wf_def)
  note head = parse_partition_octets [OF wf(1) Cons.prems(2,3) wf(3) bound Cons.prems(4) wf(2)]
  have "parse_partitions gc ec (partitions_octets qs (length (ordered @ kept_extents extents p)))
      (replicate (length (ordered @ kept_extents extents p)) True @
       replicate (ec - length (ordered @ kept_extents extents p)) False) (lp_name q # names) =
    Inr (reparsed_partitions qs (length (ordered @ kept_extents extents p)),
      replicate (length ordered') True @ replicate (ec - length ordered') False)"
    using Cons.prems by (intro Cons.IH [OF _ _ _ _ _ _ rest]) (auto simp: q_def)
  moreover have "lp_name (reparsed_partition q ?n) = lp_name q" by (simp add: reparsed_partition_def)
  ultimately show ?case
    using head bound Cons.prems(4) wf(3) by (simp add: ps')
qed simp

section \<open>Maps of renumbered extents\<close>

lemma index_map_kept:
  "set indices \<subseteq> {..<length extents} \<Longrightarrow> index_map extents (kept_indices extents indices) = index_map extents indices"
  by (induction indices) (auto simp: kept_indices_def extent_map_def)

lemma index_map_upt: "index_map (xs @ ys @ zs) [length xs..<length xs + length ys] = concat (map extent_map ys)"
proof -
  have "map (\<lambda>i. (xs @ ys @ zs) ! i) [length xs..<length xs + length ys] = ys"
    by (intro nth_equalityI) (simp_all add: nth_append)
  then have "map extent_map (map (\<lambda>i. (xs @ ys @ zs) ! i) [length xs..<length xs + length ys]) = map extent_map ys" by simp
  then show ?thesis by (simp add: index_map_def comp_def)
qed

lemma index_map_reparsed: "set indices \<subseteq> {..<length extents} \<Longrightarrow>
    index_map (map reparsed_extent extents) indices = index_map extents indices"
  by (induction indices) (auto simp: reparsed_extent_def extent_map_def)

lemma order_extents_maps:
  assumes "order_extents extents ps ordered = (ps', ordered')" and "set (all_indices ps) \<subseteq> {..<length extents}"
  shows "map (\<lambda>p. index_map ordered' (lp_extent_indices p)) ps' = map (\<lambda>p. index_map extents (lp_extent_indices p)) ps"
  using assms
proof (induction ps arbitrary: ordered ps')
  case (Cons p ps)
  let ?k = "kept_extents extents p"
  obtain qs where rest: "order_extents extents ps (ordered @ ?k) = (qs, ordered')"
    and ps': "ps' = p\<lparr>lp_extent_indices := [length ordered..<length ordered + length ?k]\<rparr> # qs"
    using Cons.prems(1) by (cases "order_extents extents ps (ordered @ ?k)") (auto simp: order_extents_Cons)
  have ordered': "ordered' = ordered @ ?k @ concat (map (kept_extents extents) ps)"
    using order_extents_snd [of extents ps "ordered @ ?k"] rest by simp
  have "index_map ordered' [length ordered..<length ordered + length ?k] = concat (map extent_map ?k)"
    unfolding ordered' by (rule index_map_upt)
  also have "\<dots> = index_map extents (kept_indices extents (lp_extent_indices p))"
    by (simp add: kept_extents_def index_map_def comp_def)
  also have "\<dots> = index_map extents (lp_extent_indices p)"
    using Cons.prems(2) by (simp add: index_map_kept)
  finally show ?case using Cons.IH [OF rest] Cons.prems(2) by (simp add: ps')
qed simp

end
