(* ===== verification/Super_Roundtrip.thy ===== *)
theory Super_Roundtrip
  imports Super_Tables
begin

text \<open>
  A slot that serialization writes is accepted by the parser, which finds the same partitions with the same sector maps,
  the same groups and the same block devices.
\<close>

section \<open>The header\<close>

lemma write_span_again:
  "length x = length y \<Longrightarrow> k + length x \<le> length b \<Longrightarrow> write_span (write_span b k x) k y = write_span b k y"
  by (simp add: write_span_def)

definition put_descriptor :: "nat \<Rightarrow> descriptor \<Rightarrow> byte list \<Rightarrow> byte list" where
  "put_descriptor k d header =
     put_le 4 (k + 8) (desc_entry_size d) (put_le 4 (k + 4) (desc_count d) (put_le 4 k (desc_offset d) header))"

lemma length_put_descriptor [simp]: "length (put_descriptor k d header) = length header"
  by (simp add: put_descriptor_def)

lemma write_descriptor_put:
  "k + 12 \<le> length header \<Longrightarrow> write_descriptor k d (True, header) = (True, put_descriptor k d header)"
  by (simp add: write_descriptor_def put_descriptor_def write_le_span put_le_span)

definition descriptor_ok :: "descriptor \<Rightarrow> bool" where
  "descriptor_ok d \<longleftrightarrow> desc_offset d < 2 ^ 32 \<and> desc_count d < 2 ^ 32 \<and> desc_entry_size d < 2 ^ 32"

lemma read_put_descriptor:
  "descriptor_ok d \<Longrightarrow> k + 12 \<le> length header \<Longrightarrow> read_descriptor (put_descriptor k d header) k = Some d"
  by (simp add: read_descriptor_def put_descriptor_def read_put_same read_put_other descriptor_ok_def)

lemma read_put_descriptor_other:
  "j + w \<le> k \<or> k + 12 \<le> j \<Longrightarrow> read_le w (put_descriptor k d header) j = read_le w header j"
  by (auto simp: put_descriptor_def read_put_other)

lemma read_descriptor_other:
  assumes "\<And>w i. j \<le> i \<Longrightarrow> i + w \<le> j + 12 \<Longrightarrow> read_le w header' i = read_le w header i"
  shows "read_descriptor header' j = read_descriptor header j"
  using assms by (simp add: read_descriptor_def)

definition described_header :: "metadata \<Rightarrow> nat \<Rightarrow> byte list" where
  "described_header md tables_size =
     put_descriptor 116 (md_block_device_descriptor md)
       (put_descriptor 104 (md_group_descriptor md)
         (put_descriptor 92 (md_extent_descriptor md)
           (put_descriptor 80 (md_partition_descriptor md) (put_le 4 44 tables_size (md_header md)))))"

definition header_descriptors_ok :: "metadata \<Rightarrow> bool" where
  "header_descriptors_ok md \<longleftrightarrow>
     descriptor_ok (md_partition_descriptor md) \<and> descriptor_ok (md_extent_descriptor md) \<and>
     descriptor_ok (md_group_descriptor md) \<and> descriptor_ok (md_block_device_descriptor md)"

lemma described_header_fields:
  assumes "128 \<le> length (md_header md)" and "n < 2 ^ 32" and "header_descriptors_ok md" and "h = described_header md n"
  shows "length h = length (md_header md)" and "i + w \<le> 44 \<Longrightarrow> read_le w h i = read_le w (md_header md) i"
    and "read_le 4 h 44 = Some n" and "read_descriptor h 80 = Some (md_partition_descriptor md)"
    and "read_descriptor h 92 = Some (md_extent_descriptor md)" and "read_descriptor h 104 = Some (md_group_descriptor md)"
    and "read_descriptor h 116 = Some (md_block_device_descriptor md)"
proof -
  have ok: "descriptor_ok (md_partition_descriptor md)" "descriptor_ok (md_extent_descriptor md)"
    "descriptor_ok (md_group_descriptor md)" "descriptor_ok (md_block_device_descriptor md)"
    using assms(3) by (simp_all add: header_descriptors_ok_def)
  have other: "j + 12 \<le> k \<or> k + 12 \<le> j \<Longrightarrow>
      read_descriptor (put_descriptor k d header) j = read_descriptor header j" for j k d header
    by (rule read_descriptor_other) (auto intro!: read_put_descriptor_other)
  show "length h = length (md_header md)" "i + w \<le> 44 \<Longrightarrow> read_le w h i = read_le w (md_header md) i"
    "read_le 4 h 44 = Some n"
    using assms(1,2) by (simp_all add: assms(4) described_header_def read_put_descriptor_other read_put_same read_put_other)
  show "read_descriptor h 80 = Some (md_partition_descriptor md)" "read_descriptor h 92 = Some (md_extent_descriptor md)"
    "read_descriptor h 104 = Some (md_group_descriptor md)" "read_descriptor h 116 = Some (md_block_device_descriptor md)"
    using assms(1) ok by (simp_all add: assms(4) described_header_def read_put_descriptor other)
qed

text \<open>The header with both digests.\<close>

definition sealed_header :: "metadata \<Rightarrow> byte list \<Rightarrow> byte list" where
  "sealed_header md tables =
     (let header = write_span (described_header md (length tables)) 48 (sm_digest tables);
          header = write_span header 12 (replicate kSha256DigestSize 0)
      in write_span header 12 (sm_digest header))"

lemma write_header_sealed:
  "128 \<le> length (md_header md) \<Longrightarrow> write_header md tables = Inr (sealed_header md tables)"
  by (simp add: write_header_def sealed_header_def described_header_def write_descriptor_put Let_def)

lemma sealed_header_fields:
  assumes "128 \<le> length (md_header md)" and "length tables < 2 ^ 32" and "header_descriptors_ok md"
    and "h = sealed_header md tables"
  shows "length h = length (md_header md)" and "i + w \<le> 12 \<Longrightarrow> read_le w h i = read_le w (md_header md) i"
    and "read_le 4 h 44 = Some (length tables)" and "read_descriptor h 80 = Some (md_partition_descriptor md)"
    and "read_descriptor h 92 = Some (md_extent_descriptor md)" and "read_descriptor h 104 = Some (md_group_descriptor md)"
    and "read_descriptor h 116 = Some (md_block_device_descriptor md)"
    and "checksum_matches h 12" and "take kSha256DigestSize (drop 48 h) = sm_digest tables"
proof -
  define h1 where "h1 = write_span (described_header md (length tables)) 48 (sm_digest tables)"
  define h2 where "h2 = write_span h1 12 (replicate kSha256DigestSize 0)"
  have h: "h = write_span h2 12 (sm_digest h2)" by (simp add: assms(4) sealed_header_def h2_def h1_def Let_def)
  note d = described_header_fields [OF assms(1-3) refl]
  have len: "length h1 = length (md_header md)" "length h2 = length (md_header md)"
    using d(1) by (simp_all add: h1_def h2_def)
  show "length h = length (md_header md)" using len by (simp add: h)
  have keep: "read_le w h i = read_le w (described_header md (length tables)) i"
    if "i + w \<le> 12 \<or> 44 \<le> i \<and> i + w \<le> 48 \<or> 80 \<le> i" for w i
    using that assms(1) len d(1)
    by (auto simp: h h2_def h1_def read_span_other kSha256DigestSize_def)
  have desc: "read_descriptor h j = read_descriptor (described_header md (length tables)) j" if "80 \<le> j" for j
    using that by (intro read_descriptor_other keep) auto
  show "i + w \<le> 12 \<Longrightarrow> read_le w h i = read_le w (md_header md) i" "read_le 4 h 44 = Some (length tables)"
    using d keep by simp_all
  show "read_descriptor h 80 = Some (md_partition_descriptor md)" "read_descriptor h 92 = Some (md_extent_descriptor md)"
    "read_descriptor h 104 = Some (md_group_descriptor md)" "read_descriptor h 116 = Some (md_block_device_descriptor md)"
    using d desc by simp_all
  have "write_span h 12 (replicate kSha256DigestSize 0) = h2"
    using assms(1) len by (simp add: h h2_def write_span_again kSha256DigestSize_def)
  moreover have "take kSha256DigestSize (drop 12 h) = sm_digest h2"
    using take_drop_write_span_same [of 12 "sm_digest h2" h2] assms(1) len by (simp add: h kSha256DigestSize_def)
  ultimately show "checksum_matches h 12"
    using assms(1) len by (simp add: checksum_matches_def h kSha256DigestSize_def)
  have "take 32 (drop 48 h) = take 32 (drop 48 h1)"
    using assms(1) len by (simp add: h h2_def take_drop_write_span_other kSha256DigestSize_def)
  then show "take kSha256DigestSize (drop 48 h) = sm_digest tables"
    using take_drop_write_span_same [of 48 "sm_digest tables" "described_header md (length tables)"] assms(1) d(1)
    by (simp add: h1_def kSha256DigestSize_def)
qed

section \<open>The tables\<close>

definition tables_octets :: "metadata \<Rightarrow> byte list" where
  "tables_octets md =
     concat (partitions_octets (md_partitions md) 0) @ concat (map extent_octets (md_extents md)) @
     concat (map gr_raw (md_groups md)) @ concat (map bd_raw (md_block_devices md))"

definition raws_fit :: "metadata \<Rightarrow> bool" where
  "raws_fit md \<longleftrightarrow>
     list_all (\<lambda>p. length (lp_raw p) = desc_entry_size (md_partition_descriptor md)) (md_partitions md) \<and>
     list_all (\<lambda>e. length (ex_raw e) = desc_entry_size (md_extent_descriptor md)) (md_extents md) \<and>
     list_all (\<lambda>xs. length xs = desc_entry_size (md_group_descriptor md)) (map gr_raw (md_groups md)) \<and>
     list_all (\<lambda>xs. length xs = desc_entry_size (md_block_device_descriptor md)) (map bd_raw (md_block_devices md))"

definition table_bytes :: "metadata \<Rightarrow> nat \<times> nat \<times> nat \<times> nat" where
  "table_bytes md =
     (length (md_partitions md) * desc_entry_size (md_partition_descriptor md),
      length (md_extents md) * desc_entry_size (md_extent_descriptor md),
      length (md_groups md) * desc_entry_size (md_group_descriptor md),
      length (md_block_devices md) * desc_entry_size (md_block_device_descriptor md))"

lemma write_tables_octets:
  assumes "raws_fit md" and "table_bytes md = (p, e, g, d)"
  shows "write_tables md (p + e + g + d) = tables_octets md" and "length (tables_octets md) = p + e + g + d"
    and "length (concat (partitions_octets (md_partitions md) 0)) = p"
    and "length (concat (map extent_octets (md_extents md))) = e"
    and "length (concat (map gr_raw (md_groups md))) = g"
proof -
  have sizes: "p = length (md_partitions md) * desc_entry_size (md_partition_descriptor md)"
    "e = length (md_extents md) * desc_entry_size (md_extent_descriptor md)"
    "g = length (map gr_raw (md_groups md)) * desc_entry_size (md_group_descriptor md)"
    "d = length (map bd_raw (md_block_devices md)) * desc_entry_size (md_block_device_descriptor md)"
    using assms(2) by (auto simp: table_bytes_def)
  note fit = assms(1) [unfolded raws_fit_def]
  let ?n = "p + e + g + d"
  have p1: "write_partitions (desc_entry_size (md_partition_descriptor md)) (md_partitions md) 0 (filled [] ?n) =
      filled (concat (partitions_octets (md_partitions md) 0)) (e + g + d)"
    using write_partitions_filled [of _ "md_partitions md" ?n 0 "[]"] fit sizes(1) by (simp add: add.assoc)
  have p2: "foldl (\<lambda>buffer x. write_entry (desc_entry_size (md_extent_descriptor md)) (ex_raw x) (extent_fields x) buffer)
      (filled octets (e + g + d)) (md_extents md) = filled (octets @ concat (map extent_octets (md_extents md))) (g + d)" for octets
    using write_extents_filled [of _ "md_extents md" "e + g + d" octets] fit sizes(2) by (simp add: add.assoc)
  have p3: "foldl copy_raw (filled octets (g + d)) (map gr_raw (md_groups md)) =
      filled (octets @ concat (map gr_raw (md_groups md))) d" for octets
    using copy_raws_filled [of "desc_entry_size (md_group_descriptor md)" "map gr_raw (md_groups md)" "g + d" octets] fit sizes(3) by simp
  have p4: "foldl copy_raw (filled octets d) (map bd_raw (md_block_devices md)) =
      filled (octets @ concat (map bd_raw (md_block_devices md))) 0" for octets
    using copy_raws_filled [of "desc_entry_size (md_block_device_descriptor md)" "map bd_raw (md_block_devices md)" d octets] fit sizes(4) by simp
  have z: "(replicate ?n 0, 0) = filled [] ?n" by (simp add: filled_def)
  show "write_tables md ?n = tables_octets md"
    unfolding write_tables_def Let_def z p1 p2 p3 p4 by (simp add: filled_def tables_octets_def)
  show lens: "length (concat (partitions_octets (md_partitions md) 0)) = p"
    "length (concat (map extent_octets (md_extents md))) = e" "length (concat (map gr_raw (md_groups md))) = g"
    using fit length_concat_uniform [OF partitions_octets_lengths, of _ "md_partitions md" 0]
      length_concat_uniform [of _ "map extent_octets (md_extents md)"]
      length_concat_uniform [of _ "map gr_raw (md_groups md)"] sizes
    by (auto simp: list_all_length)
  have "length (concat (map bd_raw (md_block_devices md))) = d"
    using fit length_concat_uniform [of _ "map bd_raw (md_block_devices md)"] sizes by auto
  with lens show "length (tables_octets md) = ?n" by (simp only: tables_octets_def length_append)
qed

lemma described_entries:
  assumes "raws_fit md" and "md2 = describe_tables md (table_bytes md)"
  shows "table_entries (tables_octets md) (md_partition_descriptor md2) = partitions_octets (md_partitions md) 0"
    and "table_entries (tables_octets md) (md_extent_descriptor md2) = map extent_octets (md_extents md)"
    and "table_entries (tables_octets md) (md_group_descriptor md2) = map gr_raw (md_groups md)"
    and "table_entries (tables_octets md) (md_block_device_descriptor md2) = map bd_raw (md_block_devices md)"
proof -
  obtain p e g d where b: "table_bytes md = (p, e, g, d)" by (cases "table_bytes md") auto
  note lens = write_tables_octets(3-5) [OF assms(1) b]
  note fit = assms(1) [unfolded raws_fit_def]
  let ?P = "concat (partitions_octets (md_partitions md) 0)" and ?E = "concat (map extent_octets (md_extents md))"
    and ?G = "concat (map gr_raw (md_groups md))" and ?D = "concat (map bd_raw (md_block_devices md))"
  have ext: "list_all (\<lambda>xs. length xs = desc_entry_size (md_extent_descriptor md)) (map extent_octets (md_extents md))"
    using fit by (simp add: list_all_length)
  show "table_entries (tables_octets md) (md_partition_descriptor md2) = partitions_octets (md_partitions md) 0"
    using table_entries_concat [OF partitions_octets_lengths, of _ "md_partitions md" 0 "[]" 0 "?E @ ?G @ ?D"] fit
    by (simp add: assms(2) b describe_tables_def tables_octets_def)
  show "table_entries (tables_octets md) (md_extent_descriptor md2) = map extent_octets (md_extents md)"
    using table_entries_concat [OF ext, of p ?P "?G @ ?D"] lens
    by (simp add: assms(2) b describe_tables_def tables_octets_def)
  show "table_entries (tables_octets md) (md_group_descriptor md2) = map gr_raw (md_groups md)"
    using table_entries_concat [of _ "map gr_raw (md_groups md)" "p + e" "?P @ ?E" ?D] lens fit
    by (simp add: assms(2) b describe_tables_def tables_octets_def)
  show "table_entries (tables_octets md) (md_block_device_descriptor md2) = map bd_raw (md_block_devices md)"
    using table_entries_concat [of _ "map bd_raw (md_block_devices md)" "p + e + g" "?P @ ?E @ ?G" "[]"] lens fit
    by (simp add: assms(2) b describe_tables_def tables_octets_def)
qed

lemma described_ranges:
  assumes "table_bytes md = (p, e, g, d)" and "p + e + g + d \<le> u32_max" and "md2 = describe_tables md (p, e, g, d)"
    and "descriptors_wf md"
  shows "collect (table_range (p + e + g + d)) [md_partition_descriptor md2, md_extent_descriptor md2,
      md_group_descriptor md2, md_block_device_descriptor md2] =
    Inr [(0, p), (p, p + e), (p + e, p + e + g), (p + e + g, p + e + g + d)]"
    and "check_ranges [(0, p), (p, p + e), (p + e, p + e + g), (p + e + g, p + e + g + d)] = Inr ()"
proof -
  have range: "table_range n \<lparr>desc_offset = k, desc_count = c, desc_entry_size = es\<rparr> = Inr (k, k + c * es)"
    if "0 < es" "k + c * es \<le> n" "n \<le> u32_max" for n k c es
  proof -
    have "c \<le> u64_max div es" using that by (subst less_eq_div_iff_mult_less_eq) auto
    with that show ?thesis by (auto simp: table_range_def checked_table_bytes_def Let_def)
  qed
  have sizes: "length (md_partitions md) * desc_entry_size (md_partition_descriptor md) = p"
    "length (md_extents md) * desc_entry_size (md_extent_descriptor md) = e"
    "length (md_groups md) * desc_entry_size (md_group_descriptor md) = g"
    "length (md_block_devices md) * desc_entry_size (md_block_device_descriptor md) = d"
    using assms(1) by (simp_all add: table_bytes_def)
  have pos: "0 < desc_entry_size (md_partition_descriptor md)" "0 < desc_entry_size (md_extent_descriptor md)"
    "0 < desc_entry_size (md_group_descriptor md)" "0 < desc_entry_size (md_block_device_descriptor md)"
    using assms(4) by (auto simp: descriptors_wf_def kPartitionEntrySize_def kExtentEntrySize_def kGroupEntrySize_def
        kBlockDeviceEntrySize_def)
  show "collect (table_range (p + e + g + d)) [md_partition_descriptor md2, md_extent_descriptor md2,
      md_group_descriptor md2, md_block_device_descriptor md2] =
    Inr [(0, p), (p, p + e), (p + e, p + e + g), (p + e + g, p + e + g + d)]"
    using assms(2) pos by (simp add: assms(3) describe_tables_def range sizes)
  have "sorted [(0, p), (p, p + e), (p + e, p + e + g), (p + e + g, p + e + g + d)]"
    by (auto simp: less_eq_prod_def)
  then show "check_ranges [(0, p), (p, p + e), (p + e, p + e + g), (p + e + g, p + e + g + d)] = Inr ()"
    by (simp add: check_ranges_def sorted_sort_id upt_conv_Cons)
qed

section \<open>Parsing the tables\<close>

lemma reorder_metadata_parts:
  assumes "order_extents (md_extents md) (md_partitions md) [] = (ps, ordered)"
  shows "reorder_metadata md = md\<lparr>md_partitions := ps, md_extents := ordered\<rparr>"
  using assms by (simp add: reorder_metadata_def)

lemma ordered_extents:
  assumes "order_extents extents ps [] = (ps', ordered)"
  shows "set ordered = {extents ! i | i. i \<in> set (all_indices ps) \<and> i < length extents \<and> ex_sectors (extents ! i) \<noteq> 0}"
proof -
  have "ordered = concat (map (kept_extents extents) ps)" using order_extents_snd [of extents ps "[]"] assms by simp
  then show ?thesis by (auto simp: kept_extents_def kept_indices_def all_indices_def)
qed

lemma reordered_raws_fit:
  assumes "metadata_wf md" and "order_extents (md_extents md) (md_partitions md) [] = (ps, ordered)"
  shows "raws_fit (md\<lparr>md_partitions := ps, md_extents := ordered\<rparr>)"
proof -
  note wf = assms(1) [unfolded metadata_wf_def]
  have "map lp_raw ps = map lp_raw (md_partitions md)"
    using order_extents_fields(1) [of "md_extents md" "md_partitions md" "[]"] assms(2) by simp
  then have "list_all (\<lambda>xs. length xs = desc_entry_size (md_partition_descriptor md)) (map lp_raw ps)"
    using wf by (auto simp: list_all_iff partition_wf_def)
  moreover have "set ordered \<subseteq> set (md_extents md)" using ordered_extents [OF assms(2)] by auto
  ultimately show ?thesis
    using wf by (auto simp: raws_fit_def list_all_iff group_wf_def device_wf_def extent_wf_def)
qed

lemma parse_written_tables:
  assumes "metadata_wf md" and order: "order_extents (md_extents md) (md_partitions md) [] = (ps, ordered)"
    and md1: "md1 = md\<lparr>md_partitions := ps, md_extents := ordered\<rparr>" and md2: "md2 = describe_tables md1 (table_bytes md1)"
    and bounds: "length ordered \<le> u32_max" "length (md_groups md) \<le> u32_max"
    and accepted: "list_all (\<lambda>e. \<not> exceeds_device (md_block_devices md) e) ordered"
  shows "parse_tables (tables_octets md1)
      (md_partition_descriptor md2, md_extent_descriptor md2, md_group_descriptor md2, md_block_device_descriptor md2) =
    Inr (reparsed_partitions ps 0, map reparsed_extent ordered, md_groups md, md_block_devices md)"
proof -
  note wf = assms(1) [unfolded metadata_wf_def descriptors_wf_def owners_wf_def]
  note entries = described_entries [OF reordered_raws_fit [OF assms(1) order] md2 [unfolded md1], folded md1]
  have "extent_wf (desc_entry_size (md_extent_descriptor md)) e" if "e \<in> set ordered" for e
    using wf that ordered_extents [OF order] by (auto simp: list_all_iff)
  then have "collect parse_extent (map extent_octets ordered) = Inr (map reparsed_extent ordered)"
    using wf by (auto simp: collect_Inr list_all2_conv_all_nth kExtentEntrySize_def intro!: parse_extent_octets)
  moreover have "collect parse_group (map gr_raw (md_groups md)) = Inr (md_groups md)"
    "collect parse_block_device (map bd_raw (md_block_devices md)) = Inr (md_block_devices md)"
    using wf by (auto simp: collect_Inr list_all2_conv_all_nth list_all_length group_wf_def device_wf_def)
  moreover have "\<not> list_ex (exceeds_device (md_block_devices md)) (map reparsed_extent ordered)"
    using accepted by (auto simp: list_ex_iff list_all_iff exceeds_device_def reparsed_extent_def)
  moreover have "parse_partitions (length (md_groups md)) (length ordered) (partitions_octets ps 0)
      (replicate (length ordered) False) [] = Inr (reparsed_partitions ps 0, replicate (length ordered) True)"
    using parse_partitions_octets [OF _ _ bounds(2,1) _ _ order, of "desc_entry_size (md_partition_descriptor md)" "[]"] wf
    by (simp add: kPartitionEntrySize_def)
  ultimately show ?thesis
    using entries wf by (simp add: parse_tables_def md1)
qed

section \<open>Serialization\<close>

lemma checked_size_Some: "checked_size c es = Some n \<Longrightarrow> n = c * es"
  by (auto simp: checked_size_def split: if_splits)

lemma table_sizes_bytes: "table_sizes md = Inr r \<Longrightarrow> r = table_bytes md"
  by (auto simp: table_sizes_def table_bytes_def dest!: checked_size_Some split: option.splits if_splits)

lemma serialize_metadata_parts:
  assumes "metadata_wf md" and "serialize_metadata md = Inr (md2, area)"
  obtains ps ordered md1 where "order_extents (md_extents md) (md_partitions md) [] = (ps, ordered)"
    and "md1 = md\<lparr>md_partitions := ps, md_extents := ordered\<rparr>" and "md2 = describe_tables md1 (table_bytes md1)"
    and "check_slot md1 (length (tables_octets md1)) = Inr ()"
    and "area = sealed_header md2 (tables_octets md1) @ tables_octets md1 @
      replicate (metadata_max_size (md_geometry md) - length (md_header md) - length (tables_octets md1)) 0"
    and "length area = metadata_max_size (md_geometry md)"
proof -
  obtain ps ordered where order: "order_extents (md_extents md) (md_partitions md) [] = (ps, ordered)" by force
  define md1 where "md1 = md\<lparr>md_partitions := ps, md_extents := ordered\<rparr>"
  obtain p e g d where bytes: "table_bytes md1 = (p, e, g, d)" by (cases "table_bytes md1") auto
  have fit: "raws_fit md1" unfolding md1_def by (rule reordered_raws_fit [OF assms(1) order])
  note t = write_tables_octets [OF fit bytes]
  have same: "tables_octets (describe_tables md1 x) = tables_octets md1" for x
    by (simp add: describe_tables_def tables_octets_def split: prod.splits)
  have fit2: "raws_fit (describe_tables md1 x)" "table_bytes (describe_tables md1 x) = table_bytes md1" for x
    using fit by (simp_all add: raws_fit_def describe_tables_def table_bytes_def split: prod.splits)
  note t2 = write_tables_octets [OF fit2(1) fit2(2) [unfolded bytes], unfolded same]
  have hdr: "128 \<le> length (md_header md)"
    using assms(1) by (auto simp: metadata_wf_def header_wf_def kHeaderV10Size_def kHeaderV12Size_def)
  have fields: "md_header (describe_tables md1 x) = md_header md" "md_geometry (describe_tables md1 x) = md_geometry md" for x
    by (simp_all add: describe_tables_def md1_def split: prod.splits)
  from assms(2) have slot: "check_slot md1 (p + e + g + d) = Inr ()" and md2: "md2 = describe_tables md1 (p, e, g, d)"
    and area: "area = write_span (write_span (replicate (metadata_max_size (md_geometry md)) 0) 0
        (sealed_header md2 (tables_octets md1))) (length (sealed_header md2 (tables_octets md1))) (tables_octets md1)"
    using table_sizes_bytes [of md1] bytes hdr
    by (auto simp: serialize_metadata_def reorder_metadata_parts [OF order] md1_def [symmetric] Let_def t2 fields
        write_header_sealed split: prod.splits)
  have len: "length (sealed_header md2 (tables_octets md1)) = length (md_header md)"
    by (simp add: sealed_header_def described_header_def Let_def md2 fields)
  from slot have fits: "length (md_header md) + (p + e + g + d) \<le> metadata_max_size (md_geometry md)"
    by (auto simp: check_slot_def md1_def split: if_splits)
  have "area = sealed_header md2 (tables_octets md1) @ tables_octets md1 @
      replicate (metadata_max_size (md_geometry md) - length (md_header md) - length (tables_octets md1)) 0"
    unfolding area using fits len t(2) by (simp add: write_span_def)
  moreover have "length area = metadata_max_size (md_geometry md)" unfolding area by simp
  ultimately show thesis using that [OF order md1_def] md2 slot bytes t(2) by simp
qed

text \<open>Serialization succeeds whenever header and tables fit into the slot.\<close>

lemma checked_size_fits: "0 < es \<Longrightarrow> c * es \<le> u64_max \<Longrightarrow> checked_size c es = Some (c * es)"
proof -
  assume "0 < es" "c * es \<le> u64_max"
  then have "c \<le> u64_max div es" by (subst less_eq_div_iff_mult_less_eq) auto
  with \<open>0 < es\<close> show "checked_size c es = Some (c * es)" by (auto simp: checked_size_def)
qed

lemma serialize_metadata_fits:
  assumes "metadata_wf md" and order: "order_extents (md_extents md) (md_partitions md) [] = (ps, ordered)"
    and md1: "md1 = md\<lparr>md_partitions := ps, md_extents := ordered\<rparr>" and bytes: "table_bytes md1 = (p, e, g, d)"
    and room: "length (md_header md) + (p + e + g + d) \<le> metadata_max_size (md_geometry md)"
  shows "\<exists>area. serialize_metadata md = Inr (describe_tables md1 (p, e, g, d), area)"
proof -
  have max: "p + e + g + d \<le> kMaximumMetadataBytes"
    using assms(1) room by (simp add: metadata_wf_def geometry_wf_def)
  have sizes: "p = length (md_partitions md1) * desc_entry_size (md_partition_descriptor md1)"
    "e = length (md_extents md1) * desc_entry_size (md_extent_descriptor md1)"
    "g = length (md_groups md1) * desc_entry_size (md_group_descriptor md1)"
    "d = length (md_block_devices md1) * desc_entry_size (md_block_device_descriptor md1)"
    using bytes by (simp_all add: table_bytes_def)
  have pos: "0 < desc_entry_size (md_partition_descriptor md1)" "0 < desc_entry_size (md_extent_descriptor md1)"
    "0 < desc_entry_size (md_group_descriptor md1)" "0 < desc_entry_size (md_block_device_descriptor md1)"
    using assms(1) by (auto simp: md1 metadata_wf_def descriptors_wf_def kPartitionEntrySize_def kExtentEntrySize_def
        kGroupEntrySize_def kBlockDeviceEntrySize_def)
  have count: "c \<le> c * es" if "0 < es" for c es :: nat using that by simp
  have "length (md_partitions md1) \<le> p" "length (md_extents md1) \<le> e" "length (md_groups md1) \<le> g"
    "length (md_block_devices md1) \<le> d"
    unfolding sizes by (rule count, rule pos)+
  then have "check_slot md1 (p + e + g + d) = Inr ()"
    using room max by (auto simp: check_slot_def kMaximumMetadataBytes_def md1)
  moreover have "checked_size (length (md_partitions md1)) (desc_entry_size (md_partition_descriptor md1)) = Some p"
    "checked_size (length (md_extents md1)) (desc_entry_size (md_extent_descriptor md1)) = Some e"
    "checked_size (length (md_groups md1)) (desc_entry_size (md_group_descriptor md1)) = Some g"
    "checked_size (length (md_block_devices md1)) (desc_entry_size (md_block_device_descriptor md1)) = Some d"
    unfolding sizes by (rule checked_size_fits, rule pos, use max sizes in \<open>simp add: kMaximumMetadataBytes_def\<close>)+
  then have "table_sizes md1 = Inr (p, e, g, d)"
    using max by (auto simp: table_sizes_def kMaximumMetadataBytes_def)
  moreover have "128 \<le> length (md_header (describe_tables md1 (p, e, g, d)))"
    using assms(1) by (auto simp: describe_tables_def md1 metadata_wf_def header_wf_def kHeaderV10Size_def kHeaderV12Size_def)
  ultimately show ?thesis
    unfolding serialize_metadata_def reorder_metadata_parts [OF order] md1 [symmetric] Let_def
    by (simp add: write_header_sealed)
qed

section \<open>Reading a written slot\<close>

definition same_layout :: "metadata \<Rightarrow> metadata \<Rightarrow> bool" where
  "same_layout md md' \<longleftrightarrow>
     md_minor_version md' = md_minor_version md \<and> md_groups md' = md_groups md \<and> md_block_devices md' = md_block_devices md \<and>
     map lp_name (md_partitions md') = map lp_name (md_partitions md) \<and>
     map lp_attributes (md_partitions md') = map lp_attributes (md_partitions md) \<and>
     map lp_group_index (md_partitions md') = map lp_group_index (md_partitions md) \<and>
     map (partition_map md') [0..<length (md_partitions md')] = map (partition_map md) [0..<length (md_partitions md)]"

lemma read_le_append: "j + w \<le> length xs \<Longrightarrow> read_le w (xs @ ys) j = read_le w xs j"
  using read_le_take [of j w "length xs" "xs @ ys"] by simp

lemma reparsed_partitions_fields:
  "map lp_name (reparsed_partitions ps n) = map lp_name ps"
  "map lp_attributes (reparsed_partitions ps n) = map lp_attributes ps"
  "map lp_group_index (reparsed_partitions ps n) = map lp_group_index ps"
  "map lp_extent_indices (reparsed_partitions ps n) = map lp_extent_indices ps"
  "length (reparsed_partitions ps n) = length ps"
  by (induction ps arbitrary: n) (simp_all add: reparsed_partition_def)

lemma partition_maps: "map (partition_map md) [0..<length (md_partitions md)] =
    map (index_map (md_extents md)) (map lp_extent_indices (md_partitions md))"
  by (rule nth_equalityI) (simp_all add: partition_map_def)

lemma order_extents_indices:
  "set (all_indices (fst (order_extents extents ps ordered))) \<subseteq> {..<length (snd (order_extents extents ps ordered))}"
proof (induction ps arbitrary: ordered)
  case (Cons p ps)
  from Cons [of "ordered @ kept_extents extents p"] show ?case
    by (auto simp: order_extents_Cons order_extents_snd)
qed simp

lemma written_layout:
  assumes "metadata_wf md" and order: "order_extents (md_extents md) (md_partitions md) [] = (ps, ordered)"
    and "md_partitions md3 = reparsed_partitions ps 0" and "md_extents md3 = map reparsed_extent ordered"
    and "md_groups md3 = md_groups md" and "md_block_devices md3 = md_block_devices md"
    and "md_minor_version md3 = md_minor_version md"
  shows "same_layout md md3" and "no_empty_extents md3"
proof -
  have bound: "set (all_indices (md_partitions md)) \<subseteq> {..<length (md_extents md)}"
    using assms(1) by (simp add: metadata_wf_def owners_wf_def)
  have ind: "set (lp_extent_indices p) \<subseteq> {..<length ordered}" if "p \<in> set ps" for p
    using order_extents_indices [of "md_extents md" "md_partitions md" "[]"] that order by (force simp: all_indices_def)
  have "map (partition_map md3) [0..<length (md_partitions md3)] =
      map (index_map (map reparsed_extent ordered)) (map lp_extent_indices ps)"
    unfolding partition_maps [of md3] unfolding assms(3,4) reparsed_partitions_fields(4) ..
  also have "\<dots> = map (\<lambda>p. index_map ordered (lp_extent_indices p)) ps"
    using ind by (auto simp: index_map_reparsed)
  also have "\<dots> = map (partition_map md) [0..<length (md_partitions md)]"
    unfolding partition_maps order_extents_maps [OF order bound] by simp
  finally show "same_layout md md3"
    using order_extents_fields [of "md_extents md" "md_partitions md" "[]"] order assms
    by (simp add: same_layout_def reparsed_partitions_fields)
  show "no_empty_extents md3"
    using ordered_extents [OF order] by (auto simp: no_empty_extents_def assms(4) list_all_iff reparsed_extent_def)
qed

lemma kept_accepted:
  assumes "metadata_wf md" and "sectors_usable md"
    and "order_extents (md_extents md) (md_partitions md) [] = (ps, ordered)"
  shows "list_all (\<lambda>e. \<not> exceeds_device (md_block_devices md) e) ordered"
  unfolding list_all_iff
proof
  fix e assume "e \<in> set ordered"
  then have "well_placed (md_block_devices md) e" "ex_sectors e \<noteq> 0"
    using assms(2) ordered_extents [OF assms(3)] by (auto simp: sectors_usable_placed)
  moreover have "list_all (device_wf (desc_entry_size (md_block_device_descriptor md))) (md_block_devices md)"
    using assms(1) by (simp add: metadata_wf_def)
  ultimately show "\<not> exceeds_device (md_block_devices md) e" by (metis placed_accepted)
qed

lemma described_ok:
  assumes "metadata_wf md" and md1: "md1 = md\<lparr>md_partitions := ps, md_extents := ordered\<rparr>"
    and "md2 = describe_tables md1 (table_bytes md1)" and fit: "raws_fit md1"
    and "check_slot md1 (length (tables_octets md1)) = Inr ()"
  shows "header_descriptors_ok md2"
proof -
  obtain p e g d where bytes: "table_bytes md1 = (p, e, g, d)" by (cases "table_bytes md1") auto
  with write_tables_octets(2) [OF fit bytes] assms(5) have "p + e + g + d \<le> u32_max" "length ps \<le> u32_max"
    "length ordered \<le> u32_max" "length (md_groups md) \<le> u32_max" "length (md_block_devices md) \<le> u32_max"
    by (auto simp: check_slot_def md1 split: if_splits)
  then show ?thesis
    using assms(1,3) bytes
    by (simp add: header_descriptors_ok_def descriptor_ok_def describe_tables_def md1 metadata_wf_def descriptors_wf_def)
qed

definition reparsed :: "metadata \<Rightarrow> nat \<Rightarrow> byte list \<Rightarrow> metadata" where
  "reparsed md2 slot header =
     md2\<lparr>md_slot := slot, md_header := header, md_partitions := reparsed_partitions (md_partitions md2) 0,
         md_extents := map reparsed_extent (md_extents md2)\<rparr>"

lemma parse_written_slot:
  assumes "metadata_wf md" and "sectors_usable md" and "serialize_metadata md = Inr (md2, area)"
    and bytes: "k + metadata_max_size (md_geometry md) \<le> length bytes"
      "take (metadata_max_size (md_geometry md)) (drop k bytes) = area"
  shows "\<exists>header. parse_metadata_at bytes (md_geometry md) slot k = Inr (reparsed md2 slot header)"
proof -
  from assms(1,3) obtain ps ordered md1 where order: "order_extents (md_extents md) (md_partitions md) [] = (ps, ordered)"
    and md1: "md1 = md\<lparr>md_partitions := ps, md_extents := ordered\<rparr>" and md2: "md2 = describe_tables md1 (table_bytes md1)"
    and slot: "check_slot md1 (length (tables_octets md1)) = Inr ()"
    and area: "area = sealed_header md2 (tables_octets md1) @ tables_octets md1 @
      replicate (metadata_max_size (md_geometry md) - length (md_header md) - length (tables_octets md1)) 0"
    and area_len: "length area = metadata_max_size (md_geometry md)"
    by (rule serialize_metadata_parts)
  let ?t = "tables_octets md1" and ?h = "sealed_header md2 (tables_octets md1)"
  have fit: "raws_fit md1" unfolding md1 by (rule reordered_raws_fit [OF assms(1) order])
  have ok: "header_descriptors_ok md2" by (rule described_ok [OF assms(1) md1 md2 fit slot])
  from slot have small: "length ?t \<le> u32_max" "length (md_header md) + length ?t \<le> metadata_max_size (md_geometry md)"
    "length ordered \<le> u32_max" "length (md_groups md) \<le> u32_max"
    by (auto simp: check_slot_def md1 split: if_splits)
  have wf: "header_wf (md_header md) (md_minor_version md)" "descriptors_wf md" using assms(1) by (simp_all add: metadata_wf_def)
  have hdr: "md_header md2 = md_header md" "128 \<le> length (md_header md2)"
    using wf(1) by (auto simp: md2 md1 describe_tables_def table_bytes_def header_wf_def kHeaderV10Size_def kHeaderV12Size_def)
  note h = sealed_header_fields [OF hdr(2) _ ok refl, of ?t]
  have len: "length ?h = length (md_header md)" using h(1) hdr small by simp
  have read: "read_le w area j = read_le w ?h j" if "j + w \<le> 128" for w j
    unfolding area using that len hdr by (intro read_le_append) simp
  have header: "parse_header area = Inr (md_minor_version md, length (md_header md), length ?t)"
    using wf(1) h(2,3) small hdr area_len by (auto simp: parse_header_def read header_wf_def)
  have desc: "parse_descriptors ?h = Inr (md_partition_descriptor md2, md_extent_descriptor md2, md_group_descriptor md2,
      md_block_device_descriptor md2)"
    using h(4-7) small wf(2) by (simp add: parse_descriptors_def descriptors_wf_def md2 md1 describe_tables_def table_bytes_def)
  obtain p e g d where b: "table_bytes md1 = (p, e, g, d)" by (cases "table_bytes md1") auto
  have "descriptors_wf md1" using wf(2) by (simp add: descriptors_wf_def md1)
  from described_ranges [OF b _ _ this, of md2] small(1) write_tables_octets(2) [OF fit b] md2 b
  have ranges: "\<exists>r. collect (table_range (length ?t)) [md_partition_descriptor md2, md_extent_descriptor md2,
      md_group_descriptor md2, md_block_device_descriptor md2] = Inr r \<and> check_ranges r = Inr ()" by (simp del: collect.simps)
  note tables = parse_written_tables [OF assms(1) order md1 md2 small(3,4) kept_accepted [OF assms(1,2) order]]
  have cut: "take (length (md_header md)) area = ?h" "take (length ?t) (drop (length (md_header md)) area) = ?t"
    "take kSha256DigestSize (drop 48 area) = sm_digest ?t"
    using len h(9) small hdr unfolding area by (simp_all add: kSha256DigestSize_def)
  let ?r = "\<lparr>md_geometry = md_geometry md, md_slot = slot, md_header = ?h, md_minor_version = md_minor_version md,
    md_partition_descriptor = md_partition_descriptor md2, md_extent_descriptor = md_extent_descriptor md2,
    md_group_descriptor = md_group_descriptor md2, md_block_device_descriptor = md_block_device_descriptor md2,
    md_partitions = reparsed_partitions ps 0, md_extents = map reparsed_extent ordered, md_groups = md_groups md,
    md_block_devices = md_block_devices md\<rparr>"
  have "parse_metadata_at bytes (md_geometry md) slot k = Inr ?r"
    using bytes header desc ranges tables h(8) small
    by (auto simp: parse_metadata_at_def Let_def cut simp del: collect.simps)
  also have "?r = reparsed md2 slot ?h"
    by (rule metadata.equality) (simp_all add: reparsed_def md2 md1 describe_tables_def table_bytes_def)
  finally have "parse_metadata_at bytes (md_geometry md) slot k = Inr (reparsed md2 slot ?h)" .
  then show ?thesis ..
qed

lemma parse_serialized:
  assumes "metadata_wf md" and "sectors_usable md" and "serialize_metadata md = Inr (md2, area)"
    and bytes: "k + metadata_max_size (md_geometry md) \<le> length bytes"
      "take (metadata_max_size (md_geometry md)) (drop k bytes) = area"
  shows "\<exists>md3. parse_metadata_at bytes (md_geometry md) slot k = Inr md3 \<and> same_layout md md3 \<and> no_empty_extents md3"
proof -
  obtain header where parsed: "parse_metadata_at bytes (md_geometry md) slot k = Inr (reparsed md2 slot header)"
    using parse_written_slot [OF assms] by blast
  from assms(1,3) obtain ps ordered md1 where order: "order_extents (md_extents md) (md_partitions md) [] = (ps, ordered)"
    and md1: "md1 = md\<lparr>md_partitions := ps, md_extents := ordered\<rparr>" and md2: "md2 = describe_tables md1 (table_bytes md1)"
    by (rule serialize_metadata_parts)
  have "same_layout md (reparsed md2 slot header) \<and> no_empty_extents (reparsed md2 slot header)"
    by (intro conjI written_layout [OF assms(1) order])
      (simp_all add: reparsed_def md2 md1 describe_tables_def table_bytes_def)
  with parsed show ?thesis by blast
qed

end
