(* ===== verification/Super_Correct.thy ===== *)
theory Super_Correct
  imports Super_Roundtrip Flash_Decode
begin

text \<open>
  The whole operation: the sparse image that carries a resized slot is opened by the sparse reader, flashing it replaces
  exactly that slot, and the metadata that is fetched afterwards describes the resized partition.
\<close>

section \<open>The sparse image\<close>

lemma append_u32_pattern: "append_u32 out v = out @ fill_pattern (of_nat v)"
proof -
  have "ucast (drop_bit (8 * i) (of_nat v :: u32) AND 0xFF) = le_octet v i" if "i < 4" for i
  proof -
    have m: "(0xFF :: nat) = mask 8" by (simp add: mask_eq_exp_minus_1)
    show ?thesis
      unfolding le_octet_def low_octet m using that by (auto intro!: bit_word_eqI simp: bit_simps mult.commute)
  qed
  from this [of 0] this [of 1] this [of 2] this [of 3] show ?thesis
    by (simp add: append_u32_def fill_pattern_def numeral_eq_Suc upt_rec)
qed

definition slot_items :: "nat \<Rightarrow> nat \<Rightarrow> byte list \<Rightarrow> item list" where
  "slot_items leading raw area =
     [\<lparr>it_kind = Chunk_dont_care, it_blocks = leading, it_payload = []\<rparr>,
      \<lparr>it_kind = Chunk_raw, it_blocks = raw, it_payload = area\<rparr>]"

lemma sparse_metadata_items:
  "sparse_metadata_octets leading raw area =
     sparse_file_header kSparseBlockSize (leading + raw) (length (slot_items leading raw area)) @
     encode_items (slot_items leading raw area)"
proof -
  have u16: "append_u16 out 0 = out @ [0, 0]" "append_u16 out 28 = out @ [28, 0]"
    "append_u16 out 12 = out @ [12, 0]" "append_u16 out (unat kAndroidSparseMajorVersion) = out @ [1, 0]"
    "append_u16 out kSparseDontCareChunk = out @ [ucast kSparseChunkDontCare, ucast (drop_bit 8 kSparseChunkDontCare)]"
    "append_u16 out kSparseRawChunk = out @ [ucast kSparseChunkRaw, ucast (drop_bit 8 kSparseChunkRaw)]" for out
    by (simp_all add: append_u16_def le_octet_def kAndroidSparseMajorVersion_def kSparseDontCareChunk_def
        kSparseRawChunk_def kSparseChunkDontCare_def kSparseChunkRaw_def)
  have zero: "fill_pattern 0 = [0, 0, 0, 0]" by (simp add: fill_pattern_def)
  show ?thesis
    unfolding sparse_metadata_octets_def Let_def u16 append_u32_pattern
    by (simp add: sparse_file_header_octets chunk_header_octets encode_item_def encode_items_def slot_items_def type_of_def
        kChunkHeaderBytes_def zero)
qed

lemma make_sparse_metadata_image_flash:
  assumes "make_sparse_metadata_image md area = Inr wire"
    and "k = kPrimaryMetadataOffset + md_slot md * metadata_max_size (md_geometry md)" and "length dev = k + length area"
  shows "flash_payload wire dev = Some (take k dev @ area)"
proof -
  define leading where "leading = k div kSparseBlockSize"
  define raw where "raw = length area div kSparseBlockSize"
  let ?its = "slot_items leading raw area"
  from assms(1,2) have wire: "wire = sparse_metadata_octets leading raw area"
    and whole: "k mod kSparseBlockSize = 0" "length area mod kSparseBlockSize = 0"
    and bounds: "0 < leading" "0 < raw" "leading + raw \<le> u32_max" "length area \<le> u32_max - 12"
    by (auto simp: make_sparse_metadata_image_def Let_def leading_def raw_def split: if_splits)
  have sizes: "leading * kSparseBlockSize = k" "raw * kSparseBlockSize = length area"
    using whole by (auto simp: leading_def raw_def)
  have ok: "\<forall>it \<in> set ?its. item_ok kSparseBlockSize it"
    using bounds sizes by (simp add: slot_items_def item_ok_def kChunkHeaderBytes_def)
  have total: "items_blocks ?its = leading + raw" by (simp add: slot_items_def items_blocks_def)
  have len: "length wire \<le> u64_max"
    using bounds(4) by (simp add: wire sparse_metadata_items slot_items_def length_encode_item kChunkHeaderSize_def)
  obtain img u where run: "open_sparse_image (Some (policy_source wire full_reads)) never_stop 0 = (Inr img, u)"
    "si_chunks img = item_chunks kSparseBlockSize 28 0 ?its" "si_output_size img = (leading + raw) * kSparseBlockSize"
    using open_items [OF sparse_metadata_items ok total, of 0] bounds len
    by (auto simp: wire kSparseBlockSize_def slot_items_def kMaxSparseChunks_def)
  have "drop 52 wire = area"
    by (simp add: wire sparse_metadata_items slot_items_def encode_item_def)
  then have "flash_chunks wire (item_chunks kSparseBlockSize 28 0 ?its) dev = write_span dev k area"
    using sizes by (simp add: slot_items_def item_chunk_def flash_chunk_def expand_chunk_def length_encode_item
        kChunkHeaderSize_def)
  with run sizes assms(3) show ?thesis
    by (simp add: flash_payload_def add_mult_distrib write_span_def)
qed

section \<open>Layouts\<close>

text \<open>
  What a resize of the partition \<open>name\<close> to \<open>bytes\<close> bytes means: the sectors that the partition had and still has stay where they
  are, no other partition changes, and the partitions of its group still fit the limit of the group.
\<close>

definition resized_layout :: "metadata \<Rightarrow> string \<Rightarrow> nat \<Rightarrow> metadata \<Rightarrow> bool" where
  "resized_layout md name bytes md' \<longleftrightarrow>
     md_groups md' = md_groups md \<and> md_block_devices md' = md_block_devices md \<and>
     map lp_name (md_partitions md') = map lp_name (md_partitions md) \<and>
     map lp_attributes (md_partitions md') = map lp_attributes (md_partitions md) \<and>
     map lp_group_index (md_partitions md') = map lp_group_index (md_partitions md) \<and>
     (\<exists>self < length (md_partitions md).
        let old = partition_map md self; new = partition_map md' self;
            g = lp_group_index (md_partitions md ! self); limit = gr_maximum_size (md_groups md ! g)
        in
        lp_name (md_partitions md ! self) = name \<and> length new * kSectorSize = bytes \<and>
        take (min (length old) (length new)) new = take (min (length old) (length new)) old \<and>
        (\<forall>j < length (md_partitions md). j \<noteq> self \<longrightarrow> partition_map md' j = partition_map md j) \<and>
        (length new \<noteq> length old \<and> limit \<noteq> 0 \<longrightarrow> group_bytes md' g \<le> limit))"

lemma resize_partition_layout:
  assumes "metadata_sound md" and "resize_partition md name requested = Inr md'"
  shows "resized_layout md name (sm_align_up requested (logical_block_size (md_geometry md))) md'"
    and "metadata_wf md'" and "sectors_usable md'" and "sectors_exclusive md'"
    and "md_geometry md' = md_geometry md" and "md_slot md' = md_slot md"
proof -
  from assms obtain self extents indices aligned where find: "find_partition md name = Some self"
    and aligned: "aligned = sm_align_up requested (logical_block_size (md_geometry md))" "kSectorSize dvd aligned"
    and md': "md' = store_partition md self extents indices" and fit: "fits_old md self (aligned div kSectorSize) extents indices"
    and group: "aligned \<noteq> length (partition_map md self) * kSectorSize \<Longrightarrow> check_group md self aligned = Inr ()"
    by (rule resize_partition_fits) blast
  have self: "self < length (md_partitions md)" "lp_name (md_partitions md ! self) = name"
    using find_partition_Some [OF find] by auto
  have wf: "metadata_wf md" "owners_wf md" using assms(1) by (simp_all add: metadata_sound_def metadata_wf_def)
  show "metadata_wf md'" "sectors_usable md'" "sectors_exclusive md'"
    by (rule store_partition_wf [OF wf(1) self(1) fit md'])+
  show "md_geometry md' = md_geometry md" "md_slot md' = md_slot md" by (simp_all add: md' store_partition_def)
  have new: "partition_map md' self = index_map extents indices" using self by (simp add: md' store_partition_def partition_map_def)
  have bytes: "length (partition_map md' self) * kSectorSize = aligned" using fit aligned(2) by (simp add: new fits_old_def)
  have others: "partition_map md' j = partition_map md j" if "j < length (md_partitions md)" "j \<noteq> self" for j
    unfolding md' by (rule store_partition_others [OF wf(2) self(1) _ that]) (use fit in \<open>simp add: fits_old_def\<close>)
  have limit: "group_bytes md' (lp_group_index (md_partitions md ! self)) \<le>
      gr_maximum_size (md_groups md ! lp_group_index (md_partitions md ! self))"
    if "length (partition_map md' self) \<noteq> length (partition_map md self)"
      "gr_maximum_size (md_groups md ! lp_group_index (md_partitions md ! self)) \<noteq> 0"
  proof -
    have "check_group md self aligned = Inr ()" using group bytes that(1) by (auto simp: kSectorSize_def)
    from check_group_bound [OF this self(1) refl that(2) md' bytes others] show ?thesis .
  qed
  have "map lp_name (md_partitions md') = map lp_name (md_partitions md)"
    "map lp_attributes (md_partitions md') = map lp_attributes (md_partitions md)"
    "map lp_group_index (md_partitions md') = map lp_group_index (md_partitions md)"
    using self(1) by (simp_all add: md' store_partition_def map_update list_update_same_conv)
  moreover have "take (min (length (partition_map md self)) (length (partition_map md' self))) (partition_map md' self) =
      take (min (length (partition_map md self)) (length (partition_map md' self))) (partition_map md self)"
    using fit by (simp add: new fits_old_def)
  moreover have "md_groups md' = md_groups md" "md_block_devices md' = md_block_devices md"
    by (simp_all add: md' store_partition_def)
  ultimately show "resized_layout md name (sm_align_up requested (logical_block_size (md_geometry md))) md'"
    unfolding resized_layout_def Let_def aligned(1) [symmetric]
    using self bytes others limit by (intro conjI exI [of _ self]) auto
qed

lemma same_layout_maps:
  assumes "same_layout md md'"
  shows "length (md_partitions md') = length (md_partitions md)"
    and "j < length (md_partitions md) \<Longrightarrow> partition_map md' j = partition_map md j"
    and "j < length (md_partitions md) \<Longrightarrow> lp_group_index (md_partitions md' ! j) = lp_group_index (md_partitions md ! j)"
proof -
  show len: "length (md_partitions md') = length (md_partitions md)"
    using assms map_eq_imp_length_eq by (auto simp: same_layout_def)
  show "j < length (md_partitions md) \<Longrightarrow> partition_map md' j = partition_map md j"
    using assms len by (simp add: same_layout_def)
  show "j < length (md_partitions md) \<Longrightarrow> lp_group_index (md_partitions md' ! j) = lp_group_index (md_partitions md ! j)"
    using assms len unfolding same_layout_def by (metis nth_map)
qed

lemma same_layout_group_bytes: "same_layout md md' \<Longrightarrow> group_bytes md' g = group_bytes md g"
  unfolding group_bytes_def by (rule sum.cong) (auto simp: same_layout_maps)

lemma mapped_sectors_maps: "mapped_sectors md = List.map_filter id (concat (map (partition_map md) [0..<length (md_partitions md)]))"
proof -
  have "index_map extents (all_indices ps) = concat (map (\<lambda>p. index_map extents (lp_extent_indices p)) ps)" for extents ps
    by (induction ps) simp_all
  then show ?thesis unfolding mapped_sectors_def partition_maps by (simp add: comp_def)
qed

lemma same_layout_sectors:
  "same_layout md md' \<Longrightarrow> sectors_usable md \<Longrightarrow> sectors_usable md'"
  "same_layout md md' \<Longrightarrow> sectors_exclusive md \<Longrightarrow> sectors_exclusive md'"
  by (simp_all add: sectors_usable_def sectors_exclusive_def mapped_sectors_maps same_layout_def)

lemma resized_same_layout:
  assumes "resized_layout md name bytes md1" and "same_layout md1 md2"
  shows "resized_layout md name bytes md2"
proof -
  have len: "length (md_partitions md1) = length (md_partitions md)"
    using assms(1) map_eq_imp_length_eq by (auto simp: resized_layout_def)
  have maps: "partition_map md2 j = partition_map md1 j" if "j < length (md_partitions md)" for j
    using same_layout_maps(2) [OF assms(2)] that len by simp
  show ?thesis
    using assms(1) assms(2) [unfolded same_layout_def] same_layout_group_bytes [OF assms(2)]
    unfolding resized_layout_def Let_def by (auto simp: maps)
qed

section \<open>The operation\<close>

lemma parse_geometry_cong:
  assumes "length bytes = length bytes'" and "take kPrimaryMetadataOffset bytes = take kPrimaryMetadataOffset bytes'"
  shows "parse_geometry bytes = parse_geometry bytes'"
proof -
  have "take kGeometryStructSize (drop k bytes) = take kGeometryStructSize (drop k bytes')"
    if "k + kGeometryStructSize \<le> kPrimaryMetadataOffset" for k
    using arg_cong [OF assms(2), of "\<lambda>xs. take kGeometryStructSize (drop k xs)"] that
    by (auto simp: drop_take min_def split: if_splits)
  then have at: "parse_geometry_at bytes k = parse_geometry_at bytes' k"
    if "k + kGeometryStructSize \<le> kPrimaryMetadataOffset" for k
    using that by (simp only: parse_geometry_at_def assms(1))
  have "parse_geometry_at bytes kPrimaryGeometryOffset = parse_geometry_at bytes' kPrimaryGeometryOffset"
    "parse_geometry_at bytes kBackupGeometryOffset = parse_geometry_at bytes' kBackupGeometryOffset"
    by (rule at, simp add: kPrimaryGeometryOffset_def kBackupGeometryOffset_def kPrimaryMetadataOffset_def
        kReservedBytes_def kGeometrySize_def kGeometryStructSize_def)+
  then show ?thesis by (simp only: parse_geometry_def)
qed

lemma parse_metadata_room:
  assumes "parse_metadata fetched geometry slot = Inr md"
  shows "kPrimaryMetadataOffset + slot * metadata_max_size geometry + metadata_max_size geometry \<le> length fetched"
proof -
  from assms obtain k where "parse_metadata_at fetched geometry slot k = Inr md"
    and k: "kPrimaryMetadataOffset + slot * metadata_max_size geometry \<le> k"
    by (auto simp: parse_metadata_def Let_def split: sum.splits)
  moreover have "parse_metadata_at fetched geometry slot k =
      Inl (super_error Super_malformed ''fetched super image does not contain the selected metadata slot'')"
    if "length fetched < k \<or> length fetched - k < metadata_max_size geometry"
    unfolding parse_metadata_at_def using that by (rule if_P)
  ultimately have "\<not> (length fetched < k \<or> length fetched - k < metadata_max_size geometry)" by auto
  with k show ?thesis by linarith
qed

lemma serialize_metadata_fields:
  assumes "metadata_wf md" and "serialize_metadata md = Inr (md2, area)"
  shows "length area = metadata_max_size (md_geometry md)" and "md_slot md2 = md_slot md" and "md_geometry md2 = md_geometry md"
proof -
  from assms obtain ps ordered md1 where "md1 = md\<lparr>md_partitions := ps, md_extents := ordered\<rparr>"
    "md2 = describe_tables md1 (table_bytes md1)" "length area = metadata_max_size (md_geometry md)"
    by (rule serialize_metadata_parts)
  then show "length area = metadata_max_size (md_geometry md)" "md_slot md2 = md_slot md" "md_geometry md2 = md_geometry md"
    by (simp_all add: describe_tables_def table_bytes_def)
qed

lemma rewritten_slot:
  assumes "geometry_wf geometry" and "metadata_wf md" and "sectors_usable md" and "sectors_exclusive md"
    and "md_geometry md = geometry" and "serialize_metadata md = Inr (md2, area)"
    and k: "k = kPrimaryMetadataOffset + slot * metadata_max_size geometry"
    and "k + metadata_max_size geometry \<le> length fetched"
    and fetched': "fetched' = take k fetched @ area @ drop (k + metadata_max_size geometry) fetched"
  shows "\<exists>md'. parse_metadata fetched' geometry slot = Inr md' \<and> metadata_sound md' \<and> same_layout md md'"
proof -
  have len: "length area = metadata_max_size geometry" using serialize_metadata_fields [OF assms(2,6)] assms(5) by simp
  have "k + metadata_max_size (md_geometry md) \<le> length fetched'"
    "take (metadata_max_size (md_geometry md)) (drop k fetched') = area"
    using assms(5,8) len by (simp_all add: fetched')
  from parse_serialized [OF assms(2,3,6) this, of slot] obtain md' where
    at: "parse_metadata_at fetched' geometry slot k = Inr md'" and same: "same_layout md md'" and full: "no_empty_extents md'"
    using assms(5) by auto
  then have parsed: "parse_metadata fetched' geometry slot = Inr md'" by (simp add: parse_metadata_def Let_def k)
  have "metadata_sound md'"
    using parse_metadata_wf [OF parsed assms(1)] full same_layout_sectors [OF same] assms(3,4)
    by (simp add: metadata_sound_def extents_owned_def)
  with parsed same show ?thesis by blast
qed

text \<open>
  C7. Resizing a logical partition from fetched super metadata, over the whole path. The theorem assumes that the
  metadata in the fetched image is sound: no extent is without sectors, no device sector is used twice and every used sector is
  usable. The parser does not establish this, since it accepts extents without sectors, overlapping extents and extents behind
  the end of their device; and it is needed, since \<open>empty_tail_grows_into_other\<close> of \<open>Super_Example\<close> shows an extent without
  sectors that the allocator grows over the sectors of another partition. Under this assumption: when the operation returns an image, flashing that image
  with the sparse reader to the start of the super partition replaces exactly the metadata slot; the geometry still reads
  the same; and the metadata then read from the slot is again sound and describes the same partitions, groups and block
  devices, except that the named partition has the requested size rounded up to the logical block. The sectors it had and
  still has stay where they are, no other partition moves, and the limit of its group is respected.
\<close>

theorem resize_fetched_super_metadata_correct:
  assumes "parse_geometry fetched = Inr geometry" and "metadata_slot_for name geometry = Some slot"
    and "parse_metadata fetched geometry slot = Inr md" and "metadata_sound md"
    and "resize_fetched_super_metadata fetched name requested = Inr wire"
  shows "\<exists>fetched' md'.
    (let n = kPrimaryMetadataOffset + slot * metadata_max_size geometry + metadata_max_size geometry in
     flash_payload wire (take n fetched) = Some (take n fetched') \<and> drop n fetched' = drop n fetched \<and>
     take (n - metadata_max_size geometry) fetched' = take (n - metadata_max_size geometry) fetched) \<and>
    parse_geometry fetched' = Inr geometry \<and> parse_metadata fetched' geometry slot = Inr md' \<and> metadata_sound md' \<and>
    resized_layout md name (sm_align_up requested (logical_block_size geometry)) md'"
proof -
  let ?max = "metadata_max_size geometry"
  define k where "k = kPrimaryMetadataOffset + slot * ?max"
  from assms obtain md1 md2 area where resize: "resize_partition md name requested = Inr md1"
    and ser: "serialize_metadata md1 = Inr (md2, area)" and make: "make_sparse_metadata_image md2 area = Inr wire"
    by (auto simp: resize_fetched_super_metadata_def split: if_splits)
  have gwf: "geometry_wf geometry" by (rule parse_geometry_wf [OF assms(1)])
  note md = parse_metadata_wf [OF assms(3) gwf]
  note r = resize_partition_layout [OF assms(4) resize]
  note s = serialize_metadata_fields [OF r(2) ser]
  have room: "k + ?max \<le> length fetched" unfolding k_def by (rule parse_metadata_room [OF assms(3)])
  define fetched' where "fetched' = take k fetched @ area @ drop (k + ?max) fetched"
  have len: "length area = ?max" using s(1) r(5) md by simp
  have cut: "take (k + ?max) fetched' = take k fetched @ area" "drop (k + ?max) fetched' = drop (k + ?max) fetched"
    "take k fetched' = take k fetched" "length fetched' = length fetched"
    using room len by (simp_all add: fetched'_def)
  have flash: "flash_payload wire (take (k + ?max) fetched) = Some (take (k + ?max) fetched')"
    using make_sparse_metadata_image_flash [OF make, of k "take (k + ?max) fetched"] room len s r(5,6) md cut
    by (simp add: k_def min_def)
  have "take kPrimaryMetadataOffset fetched' = take kPrimaryMetadataOffset fetched"
    using arg_cong [OF cut(3), of "take kPrimaryMetadataOffset"] by (simp add: k_def min_def)
  then have geo: "parse_geometry fetched' = Inr geometry"
    using parse_geometry_cong [OF cut(4)] assms(1) by simp
  obtain md' where "parse_metadata fetched' geometry slot = Inr md'" "metadata_sound md'" "same_layout md1 md'"
    using rewritten_slot [OF gwf r(2-4) _ ser k_def room fetched'_def] r(5) md by auto
  moreover have "resized_layout md name (sm_align_up requested (logical_block_size geometry)) md'"
    using resized_same_layout [OF r(1)] calculation(3) md by simp
  ultimately show ?thesis
    using flash cut geo unfolding k_def [symmetric] Let_def by (intro exI [of _ fetched'] exI [of _ md']) simp
qed

text \<open>
  C20. The round trip of a metadata slot. Whatever serialization writes for well-formed metadata whose used sectors are usable, the
  parser accepts at any position of any image, checksums included, and it finds the same partitions with the same names,
  attributes, groups and sector maps, the same groups and the same block devices; extents without sectors are gone.
\<close>

theorem serialized_metadata_reads_back:
  assumes "metadata_wf md" and "sectors_usable md" and "serialize_metadata md = Inr (md2, area)"
  shows "\<exists>md'. parse_metadata_at (before @ area @ after) (md_geometry md) slot (length before) = Inr md' \<and>
    same_layout md md' \<and> no_empty_extents md'"
proof (rule parse_serialized [OF assms])
  show "length before + metadata_max_size (md_geometry md) \<le> length (before @ area @ after)"
    "take (metadata_max_size (md_geometry md)) (drop (length before) (before @ area @ after)) = area"
    using serialize_metadata_fields(1) [OF assms(1,3)] by simp_all
qed

lemma accepted_placed:
  assumes "\<not> exceeds_device devices e" and "list_all (device_wf n) devices"
    and "ex_type e = kLinearExtent \<Longrightarrow> ex_target_data e \<le> device_limit (devices ! ex_target_source e)"
  shows "well_placed devices e"
proof (cases "ex_type e = kLinearExtent")
  case True
  with assms(1) have src: "ex_target_source e < length devices"
    "bd_first_sector (devices ! ex_target_source e) \<le> ex_target_data e"
    "ex_sectors e \<le> u64_sub (device_limit (devices ! ex_target_source e)) (ex_target_data e)"
    by (auto simp: exceeds_device_def device_limit_def)
  from assms(2) src(1) have "device_wf n (devices ! ex_target_source e)" by (simp add: list_all_length)
  from device_wf_fields(2) [OF this] have "device_limit (devices ! ex_target_source e) < 2 ^ 64" by (simp add: kSectorSize_def)
  with src assms(3) [OF True] True show ?thesis
    by (auto simp: well_placed_def occupies_def u64_sub_le extent_end_def)
qed (simp add: well_placed_def occupies_def)

text \<open>
  C21. Metadata that the parser accepts is well typed: the geometry is within its limits, every field fits its width, raw entries
  have the size their table declares, group and extent indices are in range, every extent is owned by exactly one
  partition and names are distinct, so that no lookup of a later step is out of range. When in addition no linear extent
  starts behind the end of its block device, every sector in use is usable.
\<close>

theorem parsed_metadata_well_formed:
  assumes "parse_geometry fetched = Inr geometry" and "parse_metadata fetched geometry slot = Inr md"
  shows "geometry_wf geometry \<and> metadata_wf md \<and> extents_owned md \<and> md_geometry md = geometry \<and> md_slot md = slot \<and>
    (list_all (\<lambda>e. ex_type e = kLinearExtent \<longrightarrow>
        ex_target_data e \<le> device_limit (md_block_devices md ! ex_target_source e)) (md_extents md) \<longrightarrow> sectors_usable md)"
proof -
  have g: "geometry_wf geometry" by (rule parse_geometry_wf [OF assms(1)])
  note md = parse_metadata_wf [OF assms(2) g]
  have "list_all (device_wf (desc_entry_size (md_block_device_descriptor md))) (md_block_devices md)"
    using md by (simp add: metadata_wf_def)
  with md accepted_placed have "sectors_usable md"
    if "list_all (\<lambda>e. ex_type e = kLinearExtent \<longrightarrow>
        ex_target_data e \<le> device_limit (md_block_devices md ! ex_target_source e)) (md_extents md)"
    using that unfolding sectors_usable_placed extents_accepted_def list_all_length by auto
  with g md show ?thesis by (auto simp: extents_owned_def)
qed

end
