(* ===== verification/Super_Example.thy ===== *)
theory Super_Example
  imports Super_Correct
begin

text \<open>
  A super partition with two logical partitions next to each other, the resize of the first into free space behind the
  second, and two metadata tables that the checks of the parser let through although growing a partition then goes wrong.
\<close>

section \<open>The example\<close>

definition example_geometry :: geometry where
  "example_geometry = \<lparr>metadata_max_size = 4096, metadata_slot_count = 1, logical_block_size = 4096\<rparr>"

definition example_partition :: "string \<Rightarrow> nat \<Rightarrow> lp_partition" where
  "example_partition name i =
     \<lparr>lp_raw = string_bytes name @ replicate (52 - length name) 0, lp_name = name, lp_attributes = 0, lp_group_index = 0,
      lp_extent_indices = [i]\<rparr>"

definition example_extent :: "nat \<Rightarrow> extent" where
  "example_extent start =
     \<lparr>ex_raw = replicate 24 0, ex_sectors = 8, ex_type = kLinearExtent, ex_target_data = start, ex_target_source = 0\<rparr>"

definition example_group :: lp_group where
  "example_group = \<lparr>gr_raw = replicate 40 0 @ le_octets 8 1048576, gr_maximum_size = 1048576\<rparr>"

definition example_device :: block_device where
  "example_device =
     \<lparr>bd_raw = le_octets 8 64 @ le_octets 4 4096 @ le_octets 4 0 @ le_octets 8 524288 @ replicate 40 0,
      bd_first_sector = 64, bd_alignment = 4096, bd_alignment_offset = 0, bd_size = 524288\<rparr>"

definition example_header :: "byte list" where
  "example_header =
     le_octets 4 kHeaderMagic @ le_octets 2 10 @ le_octets 2 0 @ le_octets 4 128 @ replicate 116 0"

definition example_metadata :: metadata where
  "example_metadata =
     \<lparr>md_geometry = example_geometry, md_slot = 0, md_header = example_header, md_minor_version = 0,
      md_partition_descriptor = \<lparr>desc_offset = 0, desc_count = 2, desc_entry_size = 52\<rparr>,
      md_extent_descriptor = \<lparr>desc_offset = 104, desc_count = 2, desc_entry_size = 24\<rparr>,
      md_group_descriptor = \<lparr>desc_offset = 152, desc_count = 1, desc_entry_size = 48\<rparr>,
      md_block_device_descriptor = \<lparr>desc_offset = 200, desc_count = 1, desc_entry_size = 64\<rparr>,
      md_partitions = [example_partition ''system'' 0, example_partition ''vendor'' 1],
      md_extents = [example_extent 64, example_extent 72], md_groups = [example_group],
      md_block_devices = [example_device]\<rparr>"

lemma example_geometry_wf: "geometry_wf example_geometry"
  by (simp add: geometry_wf_def example_geometry_def kMaximumMetadataBytes_def kSectorSize_def)

lemma example_header_wf: "header_wf example_header 0"
proof -
  have len: "length example_header = 128" by (simp add: example_header_def)
  have "read_le 4 example_header 0 = Some kHeaderMagic" "read_le 2 example_header 4 = Some 10"
    "read_le 2 example_header 6 = Some 0" "read_le 4 example_header 8 = Some 128"
    by (rule read_le_octets; simp add: example_header_def kHeaderMagic_def)+
  with len show ?thesis
    by (simp add: header_wf_def kMetadataMajorVersion_def kMaximumMetadataMinorVersion_def kHeaderV10Size_def)
qed

lemma example_entries_wf:
  "partition_wf 52 1 (example_partition ''system'' i)" "partition_wf 52 1 (example_partition ''vendor'' i)"
  "extent_wf 24 (example_extent 64)" "extent_wf 24 (example_extent 72)"
  "group_wf 48 example_group" "device_wf 64 example_device"
proof -
  show "partition_wf 52 1 (example_partition ''system'' i)" "partition_wf 52 1 (example_partition ''vendor'' i)"
    by (simp_all add: partition_wf_def example_partition_def parse_name_def string_bytes_def byte_of_char_def
        name_octet_def char_of_byte_def char_of_def bit_Suc_0_iff Let_def)
  show "extent_wf 24 (example_extent 64)" "extent_wf 24 (example_extent 72)"
    by (simp_all add: extent_wf_def example_extent_def)
  have "read_le 8 (gr_raw example_group) 40 = Some 1048576"
    by (rule read_le_octets) (simp_all add: example_group_def)
  then show "group_wf 48 example_group"
    by (simp add: group_wf_def parse_group_def) (simp add: example_group_def)
  have "read_le 8 (bd_raw example_device) 0 = Some 64" "read_le 4 (bd_raw example_device) 8 = Some 4096"
    "read_le 4 (bd_raw example_device) 12 = Some 0" "read_le 8 (bd_raw example_device) 16 = Some 524288"
    by (rule read_le_octets; simp add: example_device_def)+
  then show "device_wf 64 example_device"
    by (simp add: device_wf_def parse_block_device_def kSectorSize_def) (simp add: example_device_def)
qed

lemma example_metadata_wf: "metadata_wf example_metadata"
  using example_geometry_wf example_header_wf example_entries_wf
  by (simp add: metadata_wf_def example_metadata_def descriptors_wf_def owners_wf_def kPartitionEntrySize_def
      kExtentEntrySize_def kGroupEntrySize_def kBlockDeviceEntrySize_def) (simp add: example_partition_def)

lemma example_fields:
  "md_geometry example_metadata = example_geometry" "metadata_max_size example_geometry = 4096"
  by (simp_all add: example_metadata_def example_geometry_def)

lemma example_order:
  "order_extents (md_extents example_metadata) (md_partitions example_metadata) [] =
     (md_partitions example_metadata, md_extents example_metadata)"
  by (simp add: example_metadata_def example_partition_def example_extent_def order_extents_Cons kept_extents_def
      kept_indices_def upt_rec)

lemma example_table_bytes: "table_bytes example_metadata = (104, 48, 48, 64)"
  by (simp add: table_bytes_def example_metadata_def)

lemma example_described: "describe_tables example_metadata (104, 48, 48, 64) = example_metadata"
  by (simp add: describe_tables_def example_metadata_def)

definition example_area :: "byte list" where
  "example_area = (case serialize_metadata example_metadata of Inr (_, area) \<Rightarrow> area | Inl _ \<Rightarrow> [])"

lemma example_serialized: "serialize_metadata example_metadata = Inr (example_metadata, example_area)"
proof -
  have "\<exists>area. serialize_metadata example_metadata = Inr (describe_tables example_metadata (104, 48, 48, 64), area)"
    by (rule serialize_metadata_fits [OF example_metadata_wf example_order _ example_table_bytes])
      (simp_all add: example_metadata_def example_header_def example_geometry_def)
  then show ?thesis unfolding example_described by (auto simp: example_area_def)
qed

lemma example_sectors: "sectors_usable example_metadata" "sectors_exclusive example_metadata"
proof -
  have ind: "all_indices (md_partitions example_metadata) = [0, 1]"
    by (simp add: example_metadata_def example_partition_def)
  show "sectors_usable example_metadata"
    unfolding sectors_usable_placed ind
    by (simp add: example_metadata_def well_placed_def occupies_def example_extent_def extent_end_def example_device_def
        device_limit_def kSectorSize_def)
  show "sectors_exclusive example_metadata"
    using sectors_exclusive_apart [of example_metadata] unfolding ind
    by (simp add: example_metadata_def apart_def occupies_def example_extent_def extent_end_def)
qed

section \<open>The fetched image\<close>

definition example_geometry_struct :: "byte list" where
  "example_geometry_struct =
     le_octets 4 kGeometryMagic @ le_octets 4 52 @ replicate 32 0 @ le_octets 4 4096 @ le_octets 4 1 @ le_octets 4 4096"

definition example_geometry_octets :: "byte list" where
  "example_geometry_octets = write_span example_geometry_struct 8 (sm_digest example_geometry_struct)"

definition example_fetched :: "byte list" where
  "example_fetched =
     replicate kReservedBytes 0 @ example_geometry_octets @ replicate (kGeometrySize - 52) 0 @
     replicate kGeometrySize 0 @ example_area"

lemma length_example_struct [simp]: "length example_geometry_struct = 52" "length example_geometry_octets = 52"
  by (simp_all add: example_geometry_octets_def) (simp_all add: example_geometry_struct_def)

lemma example_geometry_fields:
  "read_le 4 example_geometry_octets 0 = Some kGeometryMagic" "read_le 4 example_geometry_octets 4 = Some 52"
  "read_le 4 example_geometry_octets 40 = Some 4096" "read_le 4 example_geometry_octets 44 = Some 1"
  "read_le 4 example_geometry_octets 48 = Some 4096"
proof -
  have "read_le 4 example_geometry_octets k = read_le 4 example_geometry_struct k" if "k + 4 \<le> 8 \<or> 40 \<le> k" for k
    unfolding example_geometry_octets_def using that by (intro read_span_other) auto
  moreover have "read_le 4 example_geometry_struct 0 = Some kGeometryMagic" "read_le 4 example_geometry_struct 4 = Some 52"
    "read_le 4 example_geometry_struct 40 = Some 4096" "read_le 4 example_geometry_struct 44 = Some 1"
    "read_le 4 example_geometry_struct 48 = Some 4096"
    by (rule read_le_octets; simp add: example_geometry_struct_def kGeometryMagic_def)+
  ultimately show "read_le 4 example_geometry_octets 0 = Some kGeometryMagic" "read_le 4 example_geometry_octets 4 = Some 52"
    "read_le 4 example_geometry_octets 40 = Some 4096" "read_le 4 example_geometry_octets 44 = Some 1"
    "read_le 4 example_geometry_octets 48 = Some 4096" by simp_all
qed

lemma example_geometry_checksum: "checksum_matches example_geometry_octets 8"
proof -
  have "write_span example_geometry_octets 8 (replicate 32 0) = write_span example_geometry_struct 8 (replicate 32 0)"
    unfolding example_geometry_octets_def by (rule write_span_again) simp_all
  also have "\<dots> = example_geometry_struct" by (simp add: write_span_def example_geometry_struct_def)
  finally show ?thesis
    using take_drop_write_span_same [of 8 "sm_digest example_geometry_struct" example_geometry_struct]
    by (simp add: checksum_matches_def kSha256DigestSize_def example_geometry_octets_def)
qed

lemma length_example_area: "length example_area = 4096"
  using serialize_metadata_fields(1) [OF example_metadata_wf example_serialized]
  by (simp add: example_metadata_def example_geometry_def)

lemma example_parse_geometry: "parse_geometry example_fetched = Inr example_geometry"
proof -
  have "take kGeometryStructSize (drop kPrimaryGeometryOffset example_fetched) = example_geometry_octets"
    by (simp add: example_fetched_def kPrimaryGeometryOffset_def kGeometryStructSize_def)
  moreover have "kPrimaryGeometryOffset + kGeometryStructSize \<le> length example_fetched"
    by (simp add: example_fetched_def kPrimaryGeometryOffset_def kGeometryStructSize_def)
  ultimately have "parse_geometry_at example_fetched kPrimaryGeometryOffset = Some example_geometry"
    using example_geometry_checksum
    by (simp add: parse_geometry_at_def example_geometry_fields example_geometry_def kGeometryStructSize_def
        kMaximumMetadataBytes_def kSectorSize_def)
  then show ?thesis by (simp add: parse_geometry_def)
qed

lemma example_parse_metadata:
  "\<exists>header. parse_metadata example_fetched example_geometry 0 = Inr (reparsed example_metadata 0 header)"
proof -
  have "drop kPrimaryMetadataOffset example_fetched = example_area"
    by (simp add: example_fetched_def kPrimaryMetadataOffset_def kGeometrySize_def)
  moreover have "kPrimaryMetadataOffset + 4096 \<le> length example_fetched"
    by (simp add: example_fetched_def kPrimaryMetadataOffset_def length_example_area kGeometrySize_def)
  ultimately obtain header where
    "parse_metadata_at example_fetched example_geometry 0 kPrimaryMetadataOffset = Inr (reparsed example_metadata 0 header)"
    using parse_written_slot [OF example_metadata_wf example_sectors(1) example_serialized, of kPrimaryMetadataOffset
        example_fetched 0] length_example_area by (auto simp: example_fields)
  then show ?thesis by (auto simp: parse_metadata_def)
qed

lemma example_sound: "metadata_sound (reparsed example_metadata 0 header)"
  if "parse_metadata example_fetched example_geometry 0 = Inr (reparsed example_metadata 0 header)"
proof -
  have "same_layout example_metadata (reparsed example_metadata 0 header) \<and>
      no_empty_extents (reparsed example_metadata 0 header)"
    by (intro conjI written_layout [OF example_metadata_wf example_order]) (simp_all add: reparsed_def)
  with parse_metadata_wf [OF that example_geometry_wf] example_sectors show ?thesis
    by (auto simp: metadata_sound_def extents_owned_def intro: same_layout_sectors)
qed

section \<open>Resizing\<close>

definition example_new_extent :: extent where
  "example_new_extent =
     \<lparr>ex_raw = replicate 24 0, ex_sectors = 8, ex_type = kLinearExtent, ex_target_data = 80, ex_target_source = 0\<rparr>"

lemma example_grow:
  "al_remaining (grow_partition (reparsed example_metadata 0 header) [0] 8) = 0 \<and>
   al_indices (grow_partition (reparsed example_metadata 0 header) [0] 8) = [0, 2] \<and>
   al_extents (grow_partition (reparsed example_metadata 0 header) [0] 8) =
     [reparsed_extent (example_extent 64), reparsed_extent (example_extent 72), example_new_extent]"
proof -
  let ?ex = "[reparsed_extent (example_extent 64), reparsed_extent (example_extent 72)]"
  have tail: "extend_tail [example_device] 8 ?ex [0] 8 = (?ex, 8)"
    by (simp add: extend_tail_def reparsed_extent_def example_extent_def u64_add_def free_end_after_def example_device_def
        kSectorSize_def upt_rec)
  have free: "free_intervals example_device ?ex 0 = [(80, 1024)]"
    by (simp add: free_intervals_def used_intervals_def reparsed_extent_def example_extent_def u64_add_def
        example_device_def merge_interval_def kSectorSize_def)
  have start: "aligned_sector example_device 80 4096 = 80"
    by (simp add: aligned_sector_def example_device_def kSectorSize_def u64_mul_def sm_align_up_def)
  have order: "device_order [example_device] ?ex [0] = [0]"
    by (simp add: device_order_def reparsed_extent_def example_extent_def)
  have fields: "md_block_devices (reparsed example_metadata 0 header) = [example_device]"
    "md_extents (reparsed example_metadata 0 header) = ?ex" "md_geometry (reparsed example_metadata 0 header) = example_geometry"
    "desc_entry_size (md_extent_descriptor (reparsed example_metadata 0 header)) = 24"
    by (simp_all add: reparsed_def example_metadata_def)
  show ?thesis
    by (simp add: grow_partition_def fields tail order allocate_on_device_def free allocate_interval_def start
        example_geometry_def kSectorSize_def example_new_extent_def)
qed

lemma example_resize:
  "\<exists>md. resize_partition (reparsed example_metadata 0 header) ''system'' 8192 = Inr md \<and>
     length (md_partitions md) = 2 \<and> length (md_extents md) = 3 \<and> md_header md = header \<and>
     md_partition_descriptor md = md_partition_descriptor example_metadata \<and>
     md_extent_descriptor md = md_extent_descriptor example_metadata \<and>
     md_group_descriptor md = md_group_descriptor example_metadata \<and>
     md_block_device_descriptor md = md_block_device_descriptor example_metadata \<and>
     md_groups md = [example_group] \<and> md_block_devices md = [example_device] \<and> md_slot md = 0 \<and>
     md_geometry md = example_geometry"
proof -
  let ?md = "reparsed example_metadata 0 header"
  let ?ps = "[reparsed_partition (example_partition ''system'' 0) 0, reparsed_partition (example_partition ''vendor'' 1) 1]"
  have ps: "md_partitions ?md = ?ps" by (simp add: reparsed_def example_metadata_def example_partition_def)
  have fields: "lp_name (reparsed_partition (example_partition name i) n) = name"
    "lp_extent_indices (reparsed_partition (example_partition name i) n) = [i]"
    "lp_group_index (reparsed_partition (example_partition name i) n) = 0"
    "ex_sectors (reparsed_extent (example_extent start)) = 8" for name i n start
    by (simp_all add: reparsed_partition_def example_partition_def reparsed_extent_def example_extent_def)
  have ex: "md_extents ?md = [reparsed_extent (example_extent 64), reparsed_extent (example_extent 72)]"
    and other: "md_geometry ?md = example_geometry" "md_groups ?md = [example_group]"
    by (simp_all add: reparsed_def example_metadata_def)
  have find: "find_partition ?md ''system'' = Some 0" by (simp add: find_partition_def ps fields)
  have bytes: "partition_bytes ?md (reparsed_partition (example_partition name i) n) = Inr 4096" if "i \<in> {0, 1}" for name i n
  proof -
    have "sum_sectors (md_extents ?md) [i] 0 = Inr 8" using that by (auto simp: ex fields)
    then show ?thesis by (simp add: partition_bytes_def fields kSectorSize_def del: and_then_Inr)
  qed
  have limit: "gr_maximum_size example_group = 1048576" by (simp add: example_group_def)
  have group: "check_group ?md 0 8192 = Inr ()"
    by (simp add: check_group_def ps fields other limit bytes)
  have aligned: "sm_align_up 8192 (logical_block_size example_geometry) = 8192"
    by (simp add: sm_align_up_def example_geometry_def)
  have "resize_partition ?md ''system'' 8192 =
      Inr (store_partition ?md 0 [reparsed_extent (example_extent 64), reparsed_extent (example_extent 72), example_new_extent] [0, 2])"
    using example_grow [of header] group
    by (simp add: resize_partition_def find other aligned Let_def kSectorSize_def ps bytes fields)
  then show ?thesis
    by (simp add: store_partition_def) (simp add: reparsed_def example_metadata_def)
qed

lemma example_returns:
  assumes parsed: "parse_metadata example_fetched example_geometry 0 = Inr (reparsed example_metadata 0 header)"
  shows "\<exists>wire. resize_fetched_super_metadata example_fetched ''system'' 8192 = Inr wire"
proof -
  obtain md where resize: "resize_partition (reparsed example_metadata 0 header) ''system'' 8192 = Inr md"
    and len: "length (md_partitions md) = 2" "length (md_extents md) = 3" "md_header md = header"
    and desc: "md_partition_descriptor md = md_partition_descriptor example_metadata"
      "md_extent_descriptor md = md_extent_descriptor example_metadata"
      "md_group_descriptor md = md_group_descriptor example_metadata"
      "md_block_device_descriptor md = md_block_device_descriptor example_metadata"
      "md_groups md = [example_group]" "md_block_devices md = [example_device]"
    and slot: "md_slot md = 0" "md_geometry md = example_geometry"
    using example_resize by blast
  have wf: "metadata_wf md" by (rule resize_partition_layout(2) [OF example_sound [OF parsed] resize])
  then have hdr: "length header \<le> 256"
    using len(3) by (auto simp: metadata_wf_def header_wf_def kHeaderV10Size_def kHeaderV12Size_def)
  obtain ps ordered where order: "order_extents (md_extents md) (md_partitions md) [] = (ps, ordered)" by force
  define md1 where "md1 = md\<lparr>md_partitions := ps, md_extents := ordered\<rparr>"
  have counts: "length ps = 2" "length ordered \<le> 3"
  proof -
    show "length ps = 2" using length_order_extents [of "md_extents md" "md_partitions md" "[]"] order len by simp
    have "length ordered = length (concat (map (kept_extents (md_extents md)) (md_partitions md)))"
      using order_extents_snd [of "md_extents md" "md_partitions md" "[]"] order by simp
    also have "\<dots> \<le> length (all_indices (md_partitions md))"
      by (auto simp: length_concat all_indices_def kept_extents_def kept_indices_def comp_def intro!: sum_list_mono)
    also have "\<dots> = card (set (all_indices (md_partitions md)))"
      using wf by (simp add: metadata_wf_def owners_wf_def distinct_card)
    also have "\<dots> \<le> card {..<length (md_extents md)}"
      using wf by (intro card_mono) (auto simp: metadata_wf_def owners_wf_def)
    finally show "length ordered \<le> 3" using len by simp
  qed
  obtain p e g d where bytes: "table_bytes md1 = (p, e, g, d)" by (cases "table_bytes md1") auto
  then have "p + e + g + d \<le> 104 + 72 + 48 + 64"
    using counts by (auto simp: table_bytes_def md1_def desc example_metadata_def)
  with hdr have "length (md_header md) + (p + e + g + d) \<le> metadata_max_size (md_geometry md)"
    by (simp add: len slot example_geometry_def)
  from serialize_metadata_fits [OF wf order md1_def bytes this] obtain md2 area
    where ser: "serialize_metadata md = Inr (md2, area)" by blast
  note fields = serialize_metadata_fields [OF wf ser]
  have "\<exists>wire. make_sparse_metadata_image md2 area = Inr wire"
    using fields by (simp add: make_sparse_metadata_image_def slot example_geometry_def kPrimaryMetadataOffset_def
        kReservedBytes_def kGeometrySize_def kSparseBlockSize_def)
  moreover have "metadata_slot_for ''system'' example_geometry = Some 0" by (simp add: metadata_slot_for_def)
  ultimately show ?thesis
    using resize ser parsed by (simp add: resize_fetched_super_metadata_def example_parse_geometry)
qed

theorem resize_fetched_super_metadata_correct_witness:
  "\<exists>wire md fetched' md'. resize_fetched_super_metadata example_fetched ''system'' 8192 = Inr wire \<and>
     parse_metadata example_fetched example_geometry 0 = Inr md \<and> metadata_sound md \<and>
     flash_payload wire (take 16384 example_fetched) = Some (take 16384 fetched') \<and>
     parse_metadata fetched' example_geometry 0 = Inr md' \<and> metadata_sound md' \<and> resized_layout md ''system'' 8192 md'"
proof -
  obtain header where parsed: "parse_metadata example_fetched example_geometry 0 = Inr (reparsed example_metadata 0 header)"
    using example_parse_metadata by blast
  obtain wire where wire: "resize_fetched_super_metadata example_fetched ''system'' 8192 = Inr wire"
    using example_returns [OF parsed] by blast
  have slot: "metadata_slot_for ''system'' example_geometry = Some 0" by (simp add: metadata_slot_for_def)
  have nums: "kPrimaryMetadataOffset = 12288" "metadata_max_size example_geometry = 4096"
    "sm_align_up 8192 (logical_block_size example_geometry) = 8192"
    by (simp_all add: kPrimaryMetadataOffset_def kReservedBytes_def kGeometrySize_def example_geometry_def sm_align_up_def)
  from resize_fetched_super_metadata_correct [OF example_parse_geometry slot parsed example_sound [OF parsed] wire]
  show ?thesis
    unfolding Let_def nums using wire parsed example_sound [OF parsed] by simp blast
qed

theorem serialized_metadata_reads_back_witness:
  "\<exists>md'. parse_metadata_at ([1, 2, 3] @ example_area @ [4]) example_geometry 0 3 = Inr md' \<and>
     same_layout example_metadata md' \<and> no_empty_extents md'"
  using serialized_metadata_reads_back [OF example_metadata_wf example_sectors(1) example_serialized,
      of "[1, 2, 3]" "[4]" 0] example_fields(1)
  by (simp add: numeral_eq_Suc)

theorem parsed_metadata_well_formed_witness:
  "\<exists>md. parse_metadata example_fetched example_geometry 0 = Inr md \<and> metadata_wf md \<and> extents_owned md \<and> sectors_usable md"
proof -
  obtain header where parsed: "parse_metadata example_fetched example_geometry 0 = Inr (reparsed example_metadata 0 header)"
    using example_parse_metadata by blast
  have "list_all (\<lambda>e. ex_type e = kLinearExtent \<longrightarrow> ex_target_data e \<le>
      device_limit (md_block_devices (reparsed example_metadata 0 header) ! ex_target_source e))
      (md_extents (reparsed example_metadata 0 header))"
    by (simp add: reparsed_def example_metadata_def reparsed_extent_def example_extent_def device_limit_def
        example_device_def kSectorSize_def)
  with parsed_metadata_well_formed [OF example_parse_geometry parsed] parsed show ?thesis by blast
qed

section \<open>Checks that let bad tables through\<close>

text \<open>
  C40. The check of an extent against its block device subtracts without a guard. Exactly: a linear extent that starts behind
  the end of its device is rejected only when its end lies more than the size of the device beyond the 64-bit range. So every
  such extent whose end fits into 64 bits is accepted, although the check is there to reject extents that exceed the device.
\<close>

theorem extent_behind_device_accepted:
  assumes "ex_type e = kLinearExtent" and "ex_target_source e < length devices"
    and "device_wf n (devices ! ex_target_source e)"
    and "device_limit (devices ! ex_target_source e) < ex_target_data e" and "ex_target_data e < 2 ^ 64"
  shows "exceeds_device devices e \<longleftrightarrow> 2 ^ 64 + device_limit (devices ! ex_target_source e) < extent_end e"
proof -
  let ?d = "devices ! ex_target_source e"
  have "u64_sub (device_limit ?d) (ex_target_data e) = device_limit ?d + 2 ^ 64 - ex_target_data e"
    unfolding u64_sub_def using assms(4) by (intro mod_less) simp
  moreover have "bd_first_sector ?d \<le> ex_target_data e" using device_wf_fields(1) [OF assms(3)] assms(4) by simp
  ultimately show ?thesis
    using assms by (auto simp: exceeds_device_def extent_end_def device_limit_def)
qed

theorem extent_behind_device_accepted_witness:
  "device_limit example_device < 2000 \<and> \<not> exceeds_device [example_device] (example_extent 2000) \<and>
   free_intervals example_device [example_extent 64, example_extent 2000] 0 = [(72, 2000)]"
proof -
  have limit: "device_limit example_device = 1024" by (simp add: device_limit_def example_device_def kSectorSize_def)
  have "\<not> exceeds_device [example_device] (example_extent 2000)"
    by (subst extent_behind_device_accepted [where n = 64])
      (use example_entries_wf(6) limit in \<open>simp_all add: example_extent_def extent_end_def\<close>)
  moreover have "free_intervals example_device [example_extent 64, example_extent 2000] 0 = [(72, 2000)]"
    by (simp add: free_intervals_def used_intervals_def example_extent_def u64_add_def merge_interval_def example_device_def
        kSectorSize_def)
  ultimately show ?thesis using limit by simp
qed

text \<open>
  An extent without sectors is accepted wherever it points. Extending it as the final extent of a partition looks only for
  extents that start behind it, so that it grows into an extent that contains it.
\<close>

theorem empty_tail_grows_into_other:
  "let empty = (example_extent 68)\<lparr>ex_sectors := 0\<rparr>; grown = example_extent 68 in
   \<not> exceeds_device [example_device] empty \<and>
   extend_tail [example_device] 8 [empty, example_extent 64] [0] 8 = ([grown, example_extent 64], 0) \<and>
   \<not> apart grown (example_extent 64)"
  by (simp add: example_extent_def exceeds_device_def example_device_def kSectorSize_def u64_sub_def extend_tail_def
      u64_add_def free_end_after_def apart_def occupies_def extent_end_def)

end
