(* ===== verification/Transfer_Ring.thy ===== *)
theory Transfer_Ring
  imports Transport_Session Scheduler_Model "HOL-Library.AList"
begin

text \<open>
  The pipelined transfer ring of \<^verbatim>\<open>src/transport/transfer_ring.{hpp,cpp}\<close>: a source is cut into chunks, each chunk needs a permit
  (a buffer charged to the memory budget, or granted by a scheduler), up to \<open>depth\<close> chunks are with the backend at a time, and
  completions arrive in any order. All calls of a ring are serialized by its owner.

  The interfaces that a ring calls (backend, permit provider, budget, source, clock) are answers that may depend on
  everything that happened before: an environment maps the history of events to an answer, and the ring appends its events
  to the history. Exceptions of the permit provider and of allocation leave the pump by unwinding and are not modelled;
  those of the backend are. The transfers in flight are kept in the order of their submission; the hash map of the code has
  none, and no property depends on the order in which \<open>cancel_outstanding\<close> visits them.
\<close>

section \<open>Data\<close>

datatype submit_result = Submit_accepted | Submit_no_device | Submit_resource_exhausted | Submit_io_error

datatype completion_code =
  Code_success | Code_cancelled | Code_no_device | Code_timeout | Code_stall | Code_io_error

datatype transfer_error_kind =
  Invalid_configuration | Source_read | Submit_err_no_device | Submit_err_resource_exhausted | Submit_err_io
  | Partial_transfer | Completion_no_device | Completion_timeout | Completion_stall | Completion_io
  | Unexpected_cancellation | Invalid_completion | User_cancelled

datatype delivery_certainty = Delivery_not_sent | Delivery_partial_or_unknown | Delivery_fully_transferred

datatype ring_state =
  Ring_idle | Ring_running | Ring_cancelling | Ring_draining_failure | Ring_completed | Ring_cancelled | Ring_failed

record transfer_submission =
  sub_id :: nat
  sub_offset :: nat
  sub_payload :: "byte list"
  sub_logical_message_end :: bool

record transfer_completion =
  cmp_id :: nat
  cmp_code :: completion_code
  cmp_transferred :: nat

record transfer_error =
  te_kind :: transfer_error_kind
  te_certainty :: delivery_certainty

record ring_config =
  rc_chunk_size :: nat
  rc_depth :: nat

text \<open>The outcome of \<^verbatim>\<open>TransferBackend::submit\<close>: a result, or an exception.\<close>

datatype submit_outcome = Returned submit_result | Threw

text \<open>
  What a ring does to its environment, oldest event last. \<open>Permit_settled\<close> is the call of the provider, with token and size;
  \<open>Buffer_released\<close> is the release of the storage. A completion is an input of the ring and enters the history when
  it belongs to a transfer in flight.
\<close>

datatype ring_event =
    Permit_requested nat "transfer_permit option"
  | Permit_settled nat nat transfer_permit_settlement
  | Buffer_released nat
  | Source_was_read nat nat "byte list option"
  | Chunk_submitted transfer_submission submit_outcome
  | Cancel_requested nat
  | Wait_was_cancelled
  | Completion_delivered transfer_completion
  | Waited nat transfer_permit_wait_result

type_synonym history = "ring_event list"

text \<open>
  The environment. A permit is granted as its lease and its token. \<open>env_budget_limit\<close> is the limit of the budget when there is
  one, and \<open>env_provider\<close> says whether there is a permit provider.
\<close>

record ring_env =
  env_config :: ring_config
  env_provider :: bool
  env_budget_limit :: "nat option"
  env_try_acquire :: "history \<Rightarrow> nat \<Rightarrow> transfer_permit option"
  env_budget_acquire :: "history \<Rightarrow> nat \<Rightarrow> bool"
  env_generation :: "history \<Rightarrow> nat"
  env_wait_for_ready :: "history \<Rightarrow> nat \<Rightarrow> transfer_permit_wait_result"
  env_read_exact :: "history \<Rightarrow> nat \<Rightarrow> nat \<Rightarrow> byte list option"
  env_submit :: "history \<Rightarrow> transfer_submission \<Rightarrow> submit_outcome"
  env_now :: "history \<Rightarrow> nat"

record telemetry =
  tl_source_read_count :: nat
  tl_source_read_bytes :: nat
  tl_source_read_time :: nat
  tl_budget_acquire_attempt_count :: nat
  tl_budget_acquire_count :: nat
  tl_budget_acquire_time :: nat
  tl_budget_wait_count :: nat
  tl_budget_wait_time :: nat
  tl_submit_attempt_count :: nat
  tl_submit_count :: nat
  tl_submitted_bytes :: nat
  tl_completion_count :: nat
  tl_completed_bytes :: nat
  tl_current_in_flight :: nat
  tl_peak_in_flight :: nat
  tl_contiguous_watermark :: nat
  tl_cancel_count :: nat
  tl_backend_cancel_count :: nat
  tl_cancelled_completion_count :: nat
  tl_error_count :: nat

record permit =
  pm_buffer :: buffer_lease
  pm_token :: nat
  pm_accepted :: bool

record in_flight =
  fl_offset :: nat
  fl_requested :: nat
  fl_permit :: permit

text \<open>The ring. Maps are association lists; \<open>rg_telemetry\<close> is \<open>None\<close> when telemetry is not enabled.\<close>

record ring =
  rg_state :: ring_state
  rg_error :: "transfer_error option"
  rg_in_flight :: "(nat \<times> in_flight) list"
  rg_segments :: "(nat \<times> nat) list"
  rg_next_id :: nat
  rg_total_bytes :: nat
  rg_next_offset :: nat
  rg_completed_bytes :: nat
  rg_watermark :: nat
  rg_logical_message_end :: bool
  rg_wait_generation :: nat
  rg_telemetry :: "telemetry option"
  rg_history :: history

definition new_telemetry :: telemetry where
  "new_telemetry =
     \<lparr>tl_source_read_count = 0, tl_source_read_bytes = 0, tl_source_read_time = 0, tl_budget_acquire_attempt_count = 0,
      tl_budget_acquire_count = 0, tl_budget_acquire_time = 0, tl_budget_wait_count = 0, tl_budget_wait_time = 0,
      tl_submit_attempt_count = 0, tl_submit_count = 0, tl_submitted_bytes = 0, tl_completion_count = 0,
      tl_completed_bytes = 0, tl_current_in_flight = 0, tl_peak_in_flight = 0, tl_contiguous_watermark = 0,
      tl_cancel_count = 0, tl_backend_cancel_count = 0, tl_cancelled_completion_count = 0, tl_error_count = 0\<rparr>"

definition new_ring :: "bool \<Rightarrow> ring" where
  "new_ring telemetry_enabled =
     \<lparr>rg_state = Ring_idle, rg_error = None, rg_in_flight = [], rg_segments = [], rg_next_id = 1, rg_total_bytes = 0,
      rg_next_offset = 0, rg_completed_bytes = 0, rg_watermark = 0, rg_logical_message_end = False,
      rg_wait_generation = 0, rg_telemetry = (if telemetry_enabled then Some new_telemetry else None), rg_history = []\<rparr>"

section \<open>Telemetry\<close>

definition telemetry_elapsed :: "nat \<Rightarrow> nat \<Rightarrow> nat" where
  "telemetry_elapsed started finished = (if finished \<le> started then 0 else finished - started)"

definition observe_telemetry :: "(telemetry \<Rightarrow> telemetry) \<Rightarrow> ring \<Rightarrow> ring" where
  "observe_telemetry f r = r\<lparr>rg_telemetry := map_option f (rg_telemetry r)\<rparr>"

text \<open>The wait for a permit is timed by the loop that owns the ring.\<close>

definition record_budget_wait :: "nat \<Rightarrow> nat \<Rightarrow> telemetry \<Rightarrow> telemetry" where
  "record_budget_wait started finished t =
     t\<lparr>tl_budget_wait_count := tl_budget_wait_count t + 1,
       tl_budget_wait_time := tl_budget_wait_time t + telemetry_elapsed started finished\<rparr>"

definition record_source_read :: "nat \<Rightarrow> bool \<Rightarrow> nat \<Rightarrow> nat \<Rightarrow> telemetry \<Rightarrow> telemetry" where
  "record_source_read bytes succeeded started finished t =
     (let t = t\<lparr>tl_source_read_count := tl_source_read_count t + 1\<rparr>;
          t = (if succeeded then t\<lparr>tl_source_read_bytes := tl_source_read_bytes t + bytes\<rparr> else t)
      in t\<lparr>tl_source_read_time := tl_source_read_time t + telemetry_elapsed started finished\<rparr>)"

definition record_budget_acquire :: "bool \<Rightarrow> nat \<Rightarrow> nat \<Rightarrow> telemetry \<Rightarrow> telemetry" where
  "record_budget_acquire acquired started finished t =
     (let t = t\<lparr>tl_budget_acquire_attempt_count := tl_budget_acquire_attempt_count t + 1\<rparr>;
          t = (if acquired then t\<lparr>tl_budget_acquire_count := tl_budget_acquire_count t + 1\<rparr> else t)
      in t\<lparr>tl_budget_acquire_time := tl_budget_acquire_time t + telemetry_elapsed started finished\<rparr>)"

definition record_submit_attempt :: "telemetry \<Rightarrow> telemetry" where
  "record_submit_attempt t = t\<lparr>tl_submit_attempt_count := tl_submit_attempt_count t + 1\<rparr>"

definition record_submit :: "nat \<Rightarrow> nat \<Rightarrow> telemetry \<Rightarrow> telemetry" where
  "record_submit bytes current_in_flight t =
     t\<lparr>tl_submit_count := tl_submit_count t + 1, tl_submitted_bytes := tl_submitted_bytes t + bytes,
       tl_current_in_flight := current_in_flight,
       tl_peak_in_flight := max (tl_peak_in_flight t) current_in_flight\<rparr>"

definition record_completion :: "nat \<Rightarrow> nat \<Rightarrow> nat \<Rightarrow> bool \<Rightarrow> telemetry \<Rightarrow> telemetry" where
  "record_completion bytes current_in_flight contiguous_watermark cancelled t =
     (let t = t\<lparr>tl_completion_count := tl_completion_count t + 1, tl_completed_bytes := tl_completed_bytes t + bytes,
                tl_current_in_flight := current_in_flight, tl_contiguous_watermark := contiguous_watermark\<rparr>
      in if cancelled then t\<lparr>tl_cancelled_completion_count := tl_cancelled_completion_count t + 1\<rparr> else t)"

definition record_cancel :: "telemetry \<Rightarrow> telemetry" where
  "record_cancel t = t\<lparr>tl_cancel_count := tl_cancel_count t + 1\<rparr>"

definition record_backend_cancel :: "telemetry \<Rightarrow> telemetry" where
  "record_backend_cancel t = t\<lparr>tl_backend_cancel_count := tl_backend_cancel_count t + 1\<rparr>"

definition record_error :: "telemetry \<Rightarrow> telemetry" where
  "record_error t = t\<lparr>tl_error_count := tl_error_count t + 1\<rparr>"

section \<open>Helpers of the ring\<close>

definition emit :: "ring_event \<Rightarrow> ring \<Rightarrow> ring" where
  "emit e r = r\<lparr>rg_history := e # rg_history r\<rparr>"

definition submit_error_kind :: "submit_result \<Rightarrow> transfer_error_kind" where
  "submit_error_kind result =
     (case result of
        Submit_no_device \<Rightarrow> Submit_err_no_device
      | Submit_resource_exhausted \<Rightarrow> Submit_err_resource_exhausted
      | Submit_io_error \<Rightarrow> Submit_err_io
      | Submit_accepted \<Rightarrow> Submit_err_io)"

definition completion_error_kind :: "completion_code \<Rightarrow> transfer_error_kind" where
  "completion_error_kind code =
     (case code of
        Code_no_device \<Rightarrow> Completion_no_device
      | Code_timeout \<Rightarrow> Completion_timeout
      | Code_stall \<Rightarrow> Completion_stall
      | Code_io_error \<Rightarrow> Completion_io
      | Code_cancelled \<Rightarrow> Unexpected_cancellation
      | Code_success \<Rightarrow> Completion_io)"

definition current_certainty :: "ring \<Rightarrow> delivery_certainty" where
  "current_certainty r =
     (if rg_total_bytes r \<noteq> 0 \<and> rg_watermark r = rg_total_bytes r then Delivery_fully_transferred
      else if rg_next_offset r = 0 then Delivery_not_sent
      else Delivery_partial_or_unknown)"

definition settle_terminal_state :: "ring \<Rightarrow> ring" where
  "settle_terminal_state r =
     (if rg_state r = Ring_running \<and> rg_next_offset r = rg_total_bytes r \<and> rg_in_flight r = []
      then r\<lparr>rg_state := Ring_completed\<rparr>
      else if rg_state r = Ring_cancelling \<and> rg_in_flight r = []
      then r\<lparr>rg_state := Ring_cancelled, rg_error := map_option (\<lambda>e. e\<lparr>te_certainty := current_certainty r\<rparr>) (rg_error r)\<rparr>
      else if rg_state r = Ring_draining_failure \<and> rg_in_flight r = []
      then r\<lparr>rg_state := Ring_failed, rg_error := map_option (\<lambda>e. e\<lparr>te_certainty := current_certainty r\<rparr>) (rg_error r)\<rparr>
      else r)"

definition cancel_outstanding :: "ring \<Rightarrow> ring" where
  "cancel_outstanding r =
     foldl (\<lambda>r id. observe_telemetry record_backend_cancel (emit (Cancel_requested id) r)) r (map fst (rg_in_flight r))"

definition cancel_wait :: "ring_env \<Rightarrow> ring \<Rightarrow> ring" where
  "cancel_wait env r = (if env_provider env then emit Wait_was_cancelled r else r)"

definition begin_failure :: "ring_env \<Rightarrow> transfer_error_kind \<Rightarrow> ring \<Rightarrow> ring" where
  "begin_failure env kind r =
     (let r = (if rg_error r = None
               then observe_telemetry record_error (r\<lparr>rg_error := Some \<lparr>te_kind = kind, te_certainty = current_certainty r\<rparr>\<rparr>)
               else r);
          r = (if rg_state r = Ring_running
               then cancel_outstanding (cancel_wait env (r\<lparr>rg_state := Ring_draining_failure\<rparr>))
               else r)
      in settle_terminal_state r)"

text \<open>The loop that advances the watermark over the segments that start there.\<close>

function advance_watermark :: "nat \<Rightarrow> (nat \<times> nat) list \<Rightarrow> nat \<times> (nat \<times> nat) list" where
  "advance_watermark watermark segments =
     (case map_of segments watermark of
        None \<Rightarrow> (watermark, segments)
      | Some bytes \<Rightarrow> advance_watermark (watermark + bytes) (AList.delete watermark segments))"
  by pat_completeness auto
termination
proof (relation "measure (\<lambda>(_, segments). length segments)", goal_cases)
  case (2 watermark segments bytes)
  then have "(watermark, bytes) \<in> set segments" by (simp add: map_of_SomeD)
  then have "length (AList.delete watermark segments) < length segments"
    by (auto simp: AList.delete_eq intro!: length_filter_less)
  then show ?case by simp
qed simp

declare advance_watermark.simps [simp del]

definition record_success :: "nat \<Rightarrow> nat \<Rightarrow> ring \<Rightarrow> ring" where
  "record_success offset bytes r =
     (let (watermark, segments) = advance_watermark (rg_watermark r) (AList.update offset bytes (rg_segments r))
      in r\<lparr>rg_segments := segments, rg_completed_bytes := rg_completed_bytes r + bytes, rg_watermark := watermark\<rparr>)"

section \<open>The memory-backed source\<close>

definition memory_transfer_source_read_exact :: "byte list \<Rightarrow> nat \<Rightarrow> nat \<Rightarrow> byte list option" where
  "memory_transfer_source_read_exact bytes offset n =
     (if length bytes < offset then None
      else if length bytes - offset < n then None
      else Some (take n (drop offset bytes)))"

section \<open>Permits\<close>

text \<open>\<^verbatim>\<open>TransferPermit::settle\<close>: a permit without buffer has nothing to settle; otherwise the provider is told before
  the storage is released. A permit that was settled is not used again, so its cleared fields are not kept.\<close>

definition settle_permit :: "ring_env \<Rightarrow> permit \<Rightarrow> transfer_permit_settlement \<Rightarrow> ring \<Rightarrow> ring" where
  "settle_permit env p result r =
     (if \<not> lease_holds (pm_buffer p) then r
      else
        let bytes = lease_size (pm_buffer p);
            r = (if env_provider env then emit (Permit_settled (pm_token p) bytes result) r else r)
        in emit (Buffer_released bytes) r)"

definition destroy_permit :: "ring_env \<Rightarrow> permit \<Rightarrow> ring \<Rightarrow> ring" where
  "destroy_permit env p r = settle_permit env p (if pm_accepted p then Partial_or_unknown else Not_submitted) r"

definition acquire_permit :: "ring_env \<Rightarrow> nat \<Rightarrow> ring \<Rightarrow> permit option \<times> ring" where
  "acquire_permit env maximum_chunk r =
     (let started = env_now env (rg_history r);
          granted = (if env_provider env then env_try_acquire env (rg_history r) maximum_chunk
                     else if env_budget_acquire env (rg_history r) maximum_chunk 
                     then Some (Some (make_lease_storage maximum_chunk), 0) else None);
          r = emit (Permit_requested maximum_chunk granted) r;
          finished = env_now env (rg_history r);
          r = observe_telemetry (record_budget_acquire (granted \<noteq> None) started finished) r
      in (map_option (\<lambda>(buffer, token). \<lparr>pm_buffer = buffer, pm_token = token, pm_accepted = False\<rparr>) granted, r))"

text \<open>The source writes into the buffer of the permit.\<close>

definition fill_permit :: "byte list \<Rightarrow> permit \<Rightarrow> permit" where
  "fill_permit octets p =
     p\<lparr>pm_buffer := map_option (\<lambda>storage. storage\<lparr>lease_buffer := write_span (lease_buffer storage) 0 octets\<rparr>) (pm_buffer p)\<rparr>"

definition read_chunk_source :: "ring_env \<Rightarrow> nat \<Rightarrow> ring \<Rightarrow> byte list option \<times> ring" where
  "read_chunk_source env chunk r =
     (let started = env_now env (rg_history r);
          octets = env_read_exact env (rg_history r) (rg_next_offset r) chunk;
          r = emit (Source_was_read (rg_next_offset r) chunk octets) r;
          finished = env_now env (rg_history r)
      in (octets, observe_telemetry (record_source_read chunk (octets \<noteq> None) started finished) r))"

section \<open>The pump\<close>

text \<open>
  The submission of a chunk that was read into its permit. The result is whether the loop goes on.
\<close>

definition submit_chunk :: "ring_env \<Rightarrow> permit \<Rightarrow> nat \<Rightarrow> ring \<Rightarrow> bool \<times> ring" where
  "submit_chunk env p chunk r =
     (let id = rg_next_id r; offset = rg_next_offset r;
          r = r\<lparr>rg_next_id := id + 1\<rparr>
      in
      if id \<in> fst ` set (rg_in_flight r) then (False, begin_failure env Submit_err_io (destroy_permit env p r))
      else
        let submission = \<lparr>sub_id = id, sub_offset = offset, sub_payload = lease_bytes (pm_buffer p),
              sub_logical_message_end = (rg_logical_message_end r \<and> offset + chunk = rg_total_bytes r)\<rparr>;
            p = p\<lparr>pm_accepted := True\<rparr>;
            entry = \<lparr>fl_offset = offset, fl_requested = chunk, fl_permit = p\<rparr>;
            r = observe_telemetry record_submit_attempt (r\<lparr>rg_in_flight := rg_in_flight r @ [(id, entry)]\<rparr>);
            outcome = env_submit env (rg_history r) submission;
            r = emit (Chunk_submitted submission outcome) r
        in
        (case outcome of
          Threw \<Rightarrow> (False, begin_failure env Submit_err_io (r\<lparr>rg_next_offset := offset + chunk\<rparr>))
        | Returned result \<Rightarrow>
            if result \<noteq> Submit_accepted
            then (False, begin_failure env (submit_error_kind result)
                   (settle_permit env p Not_submitted (r\<lparr>rg_in_flight := AList.delete id (rg_in_flight r)\<rparr>)))
            else
              let r = r\<lparr>rg_next_offset := offset + chunk\<rparr>
              in (True, observe_telemetry (record_submit chunk (length (rg_in_flight r))) r)))"

text \<open>One iteration of the loop: whether it submitted a chunk, which is also whether the loop goes on.\<close>

definition pump_step :: "ring_env \<Rightarrow> ring \<Rightarrow> bool \<times> ring" where
  "pump_step env r =
     (let maximum_chunk = min (rg_total_bytes r - rg_next_offset r) (rc_chunk_size (env_config env));
          observed_generation = (if env_provider env then env_generation env (rg_history r) else 0)
      in
      case acquire_permit env maximum_chunk r of
        (None, r) \<Rightarrow> (False, r\<lparr>rg_wait_generation := observed_generation\<rparr>)
      | (Some p, r) \<Rightarrow>
          let chunk = lease_size (pm_buffer p) in
          if chunk = 0 \<or> maximum_chunk < chunk
          then (False, begin_failure env Invalid_configuration (settle_permit env p Not_submitted r))
          else
            (case read_chunk_source env chunk r of
               (None, r) \<Rightarrow> (False, destroy_permit env p (begin_failure env Source_read r))
             | (Some octets, r) \<Rightarrow> submit_chunk env (fill_permit octets p) chunk r))"

lemma pump_step_advances:
  assumes "pump_step env r = (True, r')"
  shows "rg_next_offset r < rg_next_offset r' \<and> rg_total_bytes r' = rg_total_bytes r"
  using assms
  by (auto simp: pump_step_def acquire_permit_def read_chunk_source_def submit_chunk_def observe_telemetry_def emit_def Let_def
      split: option.splits prod.splits if_splits submit_outcome.splits)

function pump_loop :: "ring_env \<Rightarrow> bool \<Rightarrow> ring \<Rightarrow> bool \<times> ring" where
  "pump_loop env submitted r =
     (if rg_state r = Ring_running \<and> length (rg_in_flight r) < rc_depth (env_config env) \<and>
         rg_next_offset r < rg_total_bytes r
      then (case pump_step env r of
              (True, r') \<Rightarrow> pump_loop env True r'
            | (False, r') \<Rightarrow> (submitted, r'))
      else (submitted, r))"
  by pat_completeness auto
termination
proof (relation "measure (\<lambda>(_, _, r). rg_total_bytes r - rg_next_offset r)", goal_cases)
  case (2 env submitted r x r')
  then have "pump_step env r = (True, r')" by (simp add: prod_eq_iff)
  from pump_step_advances [OF this] 2(1) show ?case by auto
qed simp

declare pump_loop.simps [simp del]

definition pump :: "ring_env \<Rightarrow> ring \<Rightarrow> bool \<times> ring" where
  "pump env r =
     (if rg_state r \<noteq> Ring_running then (False, r)
      else let (submitted, r) = pump_loop env False r in (submitted, settle_terminal_state r))"

section \<open>Operations\<close>

text \<open>The source is given by its size; a null pointer is \<open>None\<close>.\<close>

definition start :: "ring_env \<Rightarrow> nat option \<Rightarrow> bool \<Rightarrow> ring \<Rightarrow> bool \<times> ring" where
  "start env source logical_message_end r =
     (let config = env_config env in
      if rg_state r \<noteq> Ring_idle \<or> source = None \<or> (env_budget_limit env = None \<and> \<not> env_provider env) \<or>
         rc_chunk_size config = 0 \<or> rc_depth config = 0 \<or>
         (\<not> env_provider env \<and> the (env_budget_limit env) < rc_chunk_size config)
      then (False,
        if rg_state r = Ring_idle
        then observe_telemetry record_error
          (r\<lparr>rg_error := Some \<lparr>te_kind = Invalid_configuration, te_certainty = Delivery_not_sent\<rparr>, rg_state := Ring_failed\<rparr>)
        else r)
      else
        let r = r\<lparr>rg_total_bytes := the source, rg_logical_message_end := logical_message_end, rg_state := Ring_running\<rparr> in
        if rg_total_bytes r = 0 then (True, r\<lparr>rg_state := Ring_completed\<rparr>)
        else
          let r = snd (pump env r)
          in (rg_state r = Ring_running \<or> rg_state r = Ring_completed, r))"

definition wait_for_permit_until :: "ring_env \<Rightarrow> ring \<Rightarrow> bool \<times> ring" where
  "wait_for_permit_until env r =
     (if rg_state r \<noteq> Ring_running \<or> \<not> env_provider env \<or> rg_in_flight r \<noteq> [] then (False, r)
      else
        let result = env_wait_for_ready env (rg_history r) (rg_wait_generation r);
            r = emit (Waited (rg_wait_generation r) result) r
        in if result \<noteq> Wait_ready then (False, r) else pump env r)"

text \<open>What a completion means for the transfer it belongs to, which has left the table already.\<close>

definition settle_completion :: "ring_env \<Rightarrow> in_flight \<Rightarrow> transfer_completion \<Rightarrow> ring \<Rightarrow> ring" where
  "settle_completion env e c r =
     (let settle = settle_permit env (fl_permit e) in
      if fl_requested e < cmp_transferred c then begin_failure env Invalid_completion (settle Partial_or_unknown r)
      else if cmp_code c = Code_success \<and> cmp_transferred c = fl_requested e
      then record_success (fl_offset e) (fl_requested e) (settle Fully_transferred r)
      else if cmp_code c = Code_success then begin_failure env Partial_transfer (settle Partial_or_unknown r)
      else if cmp_code c = Code_cancelled \<and> (rg_state r = Ring_cancelling \<or> rg_state r = Ring_draining_failure)
      then settle Partial_or_unknown r
      else begin_failure env (completion_error_kind (cmp_code c)) (settle Partial_or_unknown r))"

definition handle_completion :: "ring_env \<Rightarrow> transfer_completion \<Rightarrow> ring \<Rightarrow> bool \<times> ring" where
  "handle_completion env c r =
     (case map_of (rg_in_flight r) (cmp_id c) of
        None \<Rightarrow> (False, r)
      | Some e \<Rightarrow>
          let valid_completed_bytes = (if cmp_transferred c \<le> fl_requested e then cmp_transferred c else 0);
              r = emit (Completion_delivered c) r;
              r = settle_completion env e c (r\<lparr>rg_in_flight := AList.delete (cmp_id c) (rg_in_flight r)\<rparr>);
              r = (if rg_state r = Ring_running then snd (pump env r) else r);
              r = settle_terminal_state r
          in (True, observe_telemetry (record_completion valid_completed_bytes (length (rg_in_flight r)) (rg_watermark r)
                (cmp_code c = Code_cancelled)) r))"

definition cancel :: "ring_env \<Rightarrow> ring \<Rightarrow> ring" where
  "cancel env r =
     (if rg_state r \<noteq> Ring_running then r
      else
        let r = observe_telemetry record_cancel r;
            r = r\<lparr>rg_error := Some \<lparr>te_kind = User_cancelled, te_certainty = current_certainty r\<rparr>, rg_state := Ring_cancelling\<rparr>
        in settle_terminal_state (cancel_outstanding (cancel_wait env r)))"

end
