(* ===== verification/Ring_Views.thy ===== *)
theory Ring_Views
  imports Transfer_Ring
begin

text \<open>
  What the history of a ring says: the chunks that reached the backend and the completions that were delivered; the fields
  and views that the helpers of the ring leave alone; and the contiguous watermark as the prefix of confirmed chunks.
\<close>

section \<open>Views of the history\<close>

text \<open>
  A chunk reached the backend when \<^verbatim>\<open>submit\<close> accepted it or threw, since an exception does not say that nothing was sent.
\<close>

definition reached_backend :: "submit_outcome \<Rightarrow> bool" where
  "reached_backend outcome \<longleftrightarrow> outcome = Threw \<or> outcome = Returned Submit_accepted"

primrec handed_over :: "history \<Rightarrow> transfer_submission list" where
  "handed_over [] = []"
| "handed_over (e # h) =
     handed_over h @ (case e of Chunk_submitted s outcome \<Rightarrow> (if reached_backend outcome then [s] else []) | _ \<Rightarrow> [])"

primrec completions :: "history \<Rightarrow> transfer_completion list" where
  "completions [] = []"
| "completions (e # h) = completions h @ (case e of Completion_delivered c \<Rightarrow> [c] | _ \<Rightarrow> [])"

text \<open>A chunk is confirmed when its completion reports success for all its octets.\<close>

definition confirms :: "transfer_completion \<Rightarrow> transfer_submission \<Rightarrow> bool" where
  "confirms c s \<longleftrightarrow> cmp_id c = sub_id s \<and> cmp_code c = Code_success \<and> cmp_transferred c = length (sub_payload s)"

definition confirmed :: "history \<Rightarrow> transfer_submission \<Rightarrow> bool" where
  "confirmed h s \<longleftrightarrow> (\<exists>c \<in> set (completions h). confirms c s)"

definition payload_bytes :: "transfer_submission list \<Rightarrow> nat" where
  "payload_bytes cs = sum_list (map (length \<circ> sub_payload) cs)"

lemma payload_bytes_simps [simp]:
  "payload_bytes [] = 0" "payload_bytes (s # cs) = length (sub_payload s) + payload_bytes cs"
  "payload_bytes (cs @ ds) = payload_bytes cs + payload_bytes ds"
  by (simp_all add: payload_bytes_def)

section \<open>What the helpers leave alone\<close>

definition ring_core where
  "ring_core r = ((rg_in_flight r, rg_segments r, rg_next_id r, rg_total_bytes r), rg_next_offset r, rg_completed_bytes r,
     rg_watermark r, rg_logical_message_end r, handed_over (rg_history r), completions (rg_history r))"

lemma ring_coreD:
  assumes "ring_core r = ring_core r'"
  shows "rg_in_flight r = rg_in_flight r'" "rg_segments r = rg_segments r'" "rg_next_id r = rg_next_id r'"
    "rg_total_bytes r = rg_total_bytes r'" "rg_next_offset r = rg_next_offset r'"
    "rg_completed_bytes r = rg_completed_bytes r'" "rg_watermark r = rg_watermark r'"
    "rg_logical_message_end r = rg_logical_message_end r'" "handed_over (rg_history r) = handed_over (rg_history r')"
    "completions (rg_history r) = completions (rg_history r')" "current_certainty r = current_certainty r'"
  using assms by (simp_all add: ring_core_def current_certainty_def)

text \<open>An event that is neither a submission nor a completion.\<close>

definition benign :: "ring_event \<Rightarrow> bool" where
  "benign e \<longleftrightarrow> (case e of Chunk_submitted _ _ \<Rightarrow> False | Completion_delivered _ \<Rightarrow> False | _ \<Rightarrow> True)"

lemma benign_simps [simp]:
  "benign (Permit_requested n g)" "benign (Permit_settled t n x)" "benign (Buffer_released n)"
  "benign (Source_was_read f n os)" "benign (Cancel_requested i)" "benign Wait_was_cancelled" "benign (Waited n w)"
  by (simp_all add: benign_def)

lemma core_observe [simp]: "ring_core (observe_telemetry f r) = ring_core r"
  by (simp add: ring_core_def observe_telemetry_def)

lemma core_emit [simp]: "benign e \<Longrightarrow> ring_core (emit e r) = ring_core r"
  by (cases e) (simp_all add: ring_core_def emit_def benign_def)

lemma core_updates [simp]:
  "ring_core (r\<lparr>rg_state := st\<rparr>) = ring_core r" "ring_core (r\<lparr>rg_error := err\<rparr>) = ring_core r"
  "ring_core (r\<lparr>rg_wait_generation := g\<rparr>) = ring_core r"
  by (simp_all add: ring_core_def)

lemma phase_observe [simp]:
  "rg_state (observe_telemetry f r) = rg_state r" "rg_error (observe_telemetry f r) = rg_error r" "rg_history (observe_telemetry f r) = rg_history r"
  by (simp_all add: observe_telemetry_def)

lemma phase_emit [simp]:
  "rg_state (emit e r) = rg_state r" "rg_error (emit e r) = rg_error r" "rg_history (emit e r) = e # rg_history r"
  by (simp_all add: emit_def)

lemma cancel_outstanding_keeps [simp]:
  "ring_core (cancel_outstanding r) = ring_core r" "rg_state (cancel_outstanding r) = rg_state r"
  "rg_error (cancel_outstanding r) = rg_error r"
proof -
  let ?step = "\<lambda>r id. observe_telemetry record_backend_cancel (emit (Cancel_requested id) r)"
  have "ring_core (foldl ?step r ids) = ring_core r \<and> rg_state (foldl ?step r ids) = rg_state r \<and>
      rg_error (foldl ?step r ids) = rg_error r" for r ids
    by (induction ids arbitrary: r) simp_all
  then show "ring_core (cancel_outstanding r) = ring_core r" "rg_state (cancel_outstanding r) = rg_state r"
    "rg_error (cancel_outstanding r) = rg_error r"
    by (simp_all add: cancel_outstanding_def)
qed

lemma cancel_wait_keeps [simp]:
  "ring_core (cancel_wait env r) = ring_core r" "rg_state (cancel_wait env r) = rg_state r"
  "rg_error (cancel_wait env r) = rg_error r"
  by (simp_all add: cancel_wait_def)

lemma settle_permit_keeps [simp]:
  "ring_core (settle_permit env p x r) = ring_core r" "rg_state (settle_permit env p x r) = rg_state r"
  "rg_error (settle_permit env p x r) = rg_error r"
  by (simp_all add: settle_permit_def Let_def)

lemma destroy_permit_keeps [simp]:
  "ring_core (destroy_permit env p r) = ring_core r" "rg_state (destroy_permit env p r) = rg_state r"
  "rg_error (destroy_permit env p r) = rg_error r"
  by (simp_all add: destroy_permit_def)

lemma core_settle_terminal_state [simp]: "ring_core (settle_terminal_state r) = ring_core r"
  by (simp add: settle_terminal_state_def)

lemma core_begin_failure [simp]: "ring_core (begin_failure env kind r) = ring_core r"
  by (simp add: begin_failure_def Let_def)

lemma acquire_permit_keeps:
  assumes "acquire_permit env n r = (p, r')"
  shows "ring_core r' = ring_core r" "rg_state r' = rg_state r" "rg_error r' = rg_error r"
  using assms by (auto simp: acquire_permit_def Let_def)

lemma read_chunk_source_keeps:
  assumes "read_chunk_source env n r = (octets, r')"
  shows "ring_core r' = ring_core r" "rg_state r' = rg_state r" "rg_error r' = rg_error r"
    "octets = env_read_exact env (rg_history r) (rg_next_offset r) n"
  using assms by (auto simp: read_chunk_source_def Let_def)

lemmas observe_fields [simp] = ring_coreD [OF core_observe]
lemmas emit_fields [simp] = ring_coreD [OF core_emit]
lemmas update_fields [simp] = core_updates [THEN ring_coreD(9)] core_updates [THEN ring_coreD(10)] core_updates [THEN ring_coreD(11)]
lemmas cancel_outstanding_fields [simp] = ring_coreD [OF cancel_outstanding_keeps(1)]
lemmas cancel_wait_fields [simp] = ring_coreD [OF cancel_wait_keeps(1)]
lemmas settle_permit_fields [simp] = ring_coreD [OF settle_permit_keeps(1)]
lemmas destroy_permit_fields [simp] = ring_coreD [OF destroy_permit_keeps(1)]
lemmas settle_terminal_state_fields [simp] = ring_coreD [OF core_settle_terminal_state]
lemmas begin_failure_fields [simp] = ring_coreD [OF core_begin_failure]

section \<open>Contiguous chunks\<close>

fun contiguous :: "nat \<Rightarrow> transfer_submission list \<Rightarrow> nat \<Rightarrow> bool" where
  "contiguous first [] stop = (first = stop)"
| "contiguous first (s # cs) stop =
     (sub_offset s = first \<and> sub_payload s \<noteq> [] \<and> contiguous (first + length (sub_payload s)) cs stop)"

lemma contiguous_append:
  "contiguous first (cs @ ds) stop \<longleftrightarrow>
     contiguous first cs (first + payload_bytes cs) \<and> contiguous (first + payload_bytes cs) ds stop"
  by (induction cs arbitrary: first) (simp_all add: ac_simps)

lemma contiguous_last: "contiguous first cs stop \<Longrightarrow> stop = first + payload_bytes cs"
  by (induction cs arbitrary: first) (auto, fastforce)

lemma contiguous_offsets:
  assumes "contiguous first cs stop" "s \<in> set cs"
  shows "first \<le> sub_offset s" "sub_offset s + length (sub_payload s) \<le> stop"
proof -
  from assms(2) obtain ds es where "cs = ds @ s # es" by (meson split_list)
  with assms(1) have "sub_offset s = first + payload_bytes ds"
    "stop = first + payload_bytes ds + length (sub_payload s) + payload_bytes es"
    by (auto simp: contiguous_append dest: contiguous_last)
  then show "first \<le> sub_offset s" "sub_offset s + length (sub_payload s) \<le> stop" by simp_all
qed

lemma contiguous_distinct:
  assumes "contiguous first cs stop"
  shows "distinct (map sub_offset cs)"
  using assms
proof (induction cs arbitrary: first)
  case (Cons s cs)
  then have "first + length (sub_payload s) \<le> sub_offset t" if "t \<in> set cs" for t
    using contiguous_offsets that by fastforce
  with Cons show ?case by fastforce
qed simp

section \<open>The watermark\<close>

definition interval :: "transfer_submission \<Rightarrow> nat \<times> nat" where
  "interval s = (sub_offset s, length (sub_payload s))"

text \<open>
  \<open>waiting_segments P cs w S\<close>: the watermark \<open>w\<close> stands behind a prefix of confirmed chunks, and \<open>S\<close> holds the
  confirmed chunks after it.
\<close>

definition waiting_segments ::
    "(transfer_submission \<Rightarrow> bool) \<Rightarrow> transfer_submission list \<Rightarrow> nat \<Rightarrow> (nat \<times> nat) list \<Rightarrow> bool" where
  "waiting_segments P cs w S \<longleftrightarrow>
     (\<exists>ds es. cs = ds @ es \<and> w = payload_bytes ds \<and> (\<forall>s \<in> set ds. P s) \<and> map_of S = map_of (map interval (filter P es)))"

text \<open>\<open>watermark_of P cs w\<close>: the watermark stands behind the longest prefix of confirmed chunks.\<close>

definition watermark_of :: "(transfer_submission \<Rightarrow> bool) \<Rightarrow> transfer_submission list \<Rightarrow> nat \<Rightarrow> bool" where
  "watermark_of P cs w \<longleftrightarrow> w = payload_bytes (takeWhile P cs)"

lemma map_of_interval_fresh:
  "(\<And>s. s \<in> set cs \<Longrightarrow> sub_offset s \<noteq> k) \<Longrightarrow> map_of (map interval cs) k = None"
  by (force simp: map_of_eq_None_iff interval_def)

lemma advance_watermark_correct:
  assumes "contiguous 0 cs stop" "waiting_segments P cs w S" "advance_watermark w S = (w', S')"
  shows "waiting_segments P cs w' S' \<and> watermark_of P cs w'"
  using assms(2,3)
proof (induction w S rule: advance_watermark.induct)
  case (1 w S)
  from "1.prems"(1) obtain ds es where split: "cs = ds @ es" "w = payload_bytes ds" "\<forall>s \<in> set ds. P s"
    "map_of S = map_of (map interval (filter P es))"
    by (auto simp: waiting_segments_def)
  from assms(1) split(1,2) have tail: "contiguous w es stop" by (simp add: contiguous_append)
  show ?case
  proof (cases es)
    case Nil
    then have "takeWhile P cs = ds" using split(1,3) by simp
    moreover from Nil split(4) "1.prems"(2) have "w' = w \<and> S' = S" by (simp add: advance_watermark.simps [of w])
    ultimately show ?thesis using "1.prems"(1) split(2) by (simp add: watermark_of_def)
  next
    case (Cons s es')
    with tail have s: "sub_offset s = w" "sub_payload s \<noteq> []" "contiguous (w + length (sub_payload s)) es' stop" by simp_all
    have fresh: "sub_offset t \<noteq> w" if "t \<in> set es'" for t
      using contiguous_offsets(1) [OF s(3) that] s(2) by auto
    then have none: "map_of (map interval (filter P es')) w = None" by (intro map_of_interval_fresh) auto
    show ?thesis
    proof (cases "P s")
      case True
      with split(4) Cons s(1) have found: "map_of S w = Some (length (sub_payload s))" by (simp add: interval_def)
      have "map_of (AList.delete w S) = map_of (map interval (filter P es'))"
        using split(4) Cons True s(1) none by (auto simp: AList.delete_conv' interval_def fun_eq_iff)
      then have "waiting_segments P cs (w + length (sub_payload s)) (AList.delete w S)"
        unfolding waiting_segments_def using split Cons True by (intro exI [of _ "ds @ [s]"] exI [of _ es']) simp
      with "1.IH" [OF found] "1.prems"(2) found show ?thesis by (simp add: advance_watermark.simps [of w])
    next
      case False
      with split(4) Cons none have "map_of S w = None" by simp
      with "1.prems"(2) have "w' = w \<and> S' = S" by (simp add: advance_watermark.simps [of w])
      moreover from split(1,3) Cons False have "takeWhile P cs = ds" by simp
      ultimately show ?thesis using "1.prems"(1) split(2) by (simp add: watermark_of_def)
    qed
  qed
qed

lemma map_of_intervals_add:
  assumes "distinct (map sub_offset es)" "s \<in> set es" "\<And>t. t \<in> set es \<Longrightarrow> Q t \<longleftrightarrow> P t \<or> t = s"
  shows "map_of (map interval (filter Q es)) = (map_of (map interval (filter P es)))(sub_offset s \<mapsto> length (sub_payload s))"
  using assms
proof (induction es)
  case (Cons t es)
  show ?case
  proof (cases "t = s")
    case True
    have "s \<notin> set es" using Cons.prems(1) True by auto
    with Cons.prems(3) have "filter Q es = filter P es" by (intro filter_cong) auto
    with True Cons.prems(3) [of t] show ?thesis by (auto simp: interval_def fun_upd_twist)
  next
    case False
    with Cons.prems have "sub_offset t \<noteq> sub_offset s" by auto
    with Cons False show ?thesis by (auto simp: interval_def fun_upd_twist)
  qed
qed simp

lemma waiting_segments_confirm:
  assumes "contiguous 0 cs stop" "waiting_segments P cs w S" "s \<in> set cs" "\<not> P s"
    "\<And>t. t \<in> set cs \<Longrightarrow> Q t \<longleftrightarrow> P t \<or> t = s"
  shows "waiting_segments Q cs w (AList.update (sub_offset s) (length (sub_payload s)) S)"
proof -
  from assms(2) obtain ds es where split: "cs = ds @ es" "w = payload_bytes ds" "\<forall>s \<in> set ds. P s"
    "map_of S = map_of (map interval (filter P es))"
    by (auto simp: waiting_segments_def)
  from split assms(3,4) have "s \<in> set es" by auto
  moreover have "distinct (map sub_offset es)" using contiguous_distinct [OF assms(1)] split(1) by simp
  ultimately have "map_of (map interval (filter Q es)) =
      (map_of (map interval (filter P es)))(sub_offset s \<mapsto> length (sub_payload s))"
    using assms(5) split(1) by (intro map_of_intervals_add) auto
  then show ?thesis
    unfolding waiting_segments_def
    using split assms(5) by (intro exI [of _ ds] exI [of _ es]) (auto simp: AList.update_conv')
qed

lemma waiting_segments_cong:
  assumes "\<And>t. t \<in> set cs \<Longrightarrow> Q t \<longleftrightarrow> P t"
  shows "waiting_segments Q cs w S \<longleftrightarrow> waiting_segments P cs w S"
proof -
  have "waiting_segments Q' cs w S" if "waiting_segments P' cs w S" "\<And>t. t \<in> set cs \<Longrightarrow> Q' t \<longleftrightarrow> P' t" for P' Q'
  proof -
    from that(1) obtain ds es where split: "cs = ds @ es" "w = payload_bytes ds" "\<forall>s \<in> set ds. P' s"
      "map_of S = map_of (map interval (filter P' es))"
      by (auto simp: waiting_segments_def)
    moreover from split(1) that(2) have "filter Q' es = filter P' es" by (intro filter_cong) auto
    ultimately show ?thesis unfolding waiting_segments_def using that(2) by (intro exI [of _ ds] exI [of _ es]) auto
  qed
  from this [of P Q] this [of Q P] assms show ?thesis by blast
qed

lemma waiting_segments_extend:
  assumes "waiting_segments P cs w S" "\<not> P s"
  shows "waiting_segments P (cs @ [s]) w S"
proof -
  from assms(1) obtain ds es where split: "cs = ds @ es" "w = payload_bytes ds" "\<forall>s \<in> set ds. P s"
    "map_of S = map_of (map interval (filter P es))"
    by (auto simp: waiting_segments_def)
  with assms(2) show ?thesis unfolding waiting_segments_def by (intro exI [of _ ds] exI [of _ "es @ [s]"]) auto
qed

lemma watermark_of_cong:
  assumes "\<And>t. t \<in> set cs \<Longrightarrow> Q t \<longleftrightarrow> P t"
  shows "watermark_of Q cs w \<longleftrightarrow> watermark_of P cs w"
  using assms by (simp add: watermark_of_def cong: takeWhile_cong)

lemma watermark_of_extend: "watermark_of P cs w \<Longrightarrow> \<not> P s \<Longrightarrow> watermark_of P (cs @ [s]) w"
  by (induction cs arbitrary: w) (auto simp: watermark_of_def)

end
