(* ===== verification/Ring_Invariant.thy ===== *)
theory Ring_Invariant
  imports Ring_Views
begin

text \<open>
  The invariant of a transfer ring and that every operation keeps it: which chunks were handed to the backend, which are in
  flight, what the watermark and the counters stand for, and what each state of the ring means.
\<close>

section \<open>Invariant\<close>

text \<open>Every chunk that reached the backend is in flight or had its one completion.\<close>

definition ids_ok :: "ring \<Rightarrow> bool" where
  "ids_ok r \<longleftrightarrow>
     (let cs = handed_over (rg_history r); answered = cmp_id ` set (completions (rg_history r));
          flying = fst ` set (rg_in_flight r)
      in distinct (map sub_id cs) \<and> (\<forall>s \<in> set cs. sub_id s < rg_next_id r) \<and> distinct (map fst (rg_in_flight r)) \<and>
         answered \<inter> flying = {} \<and> answered \<union> flying = sub_id ` set cs \<and>
         (\<forall>s \<in> set cs. \<forall>e. (sub_id s, e) \<in> set (rg_in_flight r) \<longrightarrow>
            fl_offset e = sub_offset s \<and> fl_requested e = length (sub_payload s)))"

text \<open>
  The chunks are the source cut without gaps, up to the next offset, and only the last one ends the message, when the caller
  asked for it.
\<close>

definition content_ok :: "byte list \<Rightarrow> ring \<Rightarrow> bool" where
  "content_ok content r \<longleftrightarrow>
     contiguous 0 (handed_over (rg_history r)) (rg_next_offset r) \<and>
     concat (map sub_payload (handed_over (rg_history r))) = take (rg_next_offset r) content \<and>
     rg_next_offset r \<le> rg_total_bytes r \<and> rg_total_bytes r \<le> length content \<and>
     (\<forall>s \<in> set (handed_over (rg_history r)).
        sub_logical_message_end s = (rg_logical_message_end r \<and> sub_offset s + length (sub_payload s) = rg_total_bytes r))"

definition marks_ok :: "ring \<Rightarrow> bool" where
  "marks_ok r \<longleftrightarrow>
     (let cs = handed_over (rg_history r); P = confirmed (rg_history r)
      in waiting_segments P cs (rg_watermark r) (rg_segments r) \<and> watermark_of P cs (rg_watermark r) \<and>
         rg_completed_bytes r = payload_bytes (filter P cs))"

definition chunks_ok :: "byte list \<Rightarrow> ring \<Rightarrow> bool" where
  "chunks_ok content r \<longleftrightarrow> ids_ok r \<and> content_ok content r \<and> marks_ok r"

text \<open>Without an error, every chunk that reached the backend is in flight or confirmed.\<close>

definition lossless :: "ring \<Rightarrow> bool" where
  "lossless r \<longleftrightarrow>
     (rg_error r = None \<longrightarrow>
       (\<forall>s \<in> set (handed_over (rg_history r)). sub_id s \<in> fst ` set (rg_in_flight r) \<or> confirmed (rg_history r) s))"

text \<open>What the states mean between two operations.\<close>

definition phase_ok :: "ring \<Rightarrow> bool" where
  "phase_ok r =
     (case rg_state r of
        Ring_idle \<Rightarrow> rg_error r = None \<and> rg_in_flight r = [] \<and> rg_next_offset r = 0 \<and> rg_total_bytes r = 0
      | Ring_running \<Rightarrow> rg_error r = None \<and> (rg_in_flight r = [] \<longrightarrow> rg_next_offset r < rg_total_bytes r)
      | Ring_cancelling \<Rightarrow> map_option te_kind (rg_error r) = Some User_cancelled \<and> rg_in_flight r \<noteq> []
      | Ring_draining_failure \<Rightarrow> rg_error r \<noteq> None \<and> rg_in_flight r \<noteq> []
      | Ring_completed \<Rightarrow> rg_error r = None \<and> rg_in_flight r = [] \<and> rg_next_offset r = rg_total_bytes r
      | Ring_cancelled \<Rightarrow>
          rg_error r = Some \<lparr>te_kind = User_cancelled, te_certainty = current_certainty r\<rparr> \<and> rg_in_flight r = []
      | Ring_failed \<Rightarrow> map_option te_certainty (rg_error r) = Some (current_certainty r) \<and> rg_in_flight r = [])"

text \<open>A ring in the middle of an operation.\<close>

definition busy :: "ring \<Rightarrow> bool" where
  "busy r \<longleftrightarrow>
     (rg_state r = Ring_running \<and> rg_error r = None) \<or>
     (rg_state r = Ring_cancelling \<and> map_option te_kind (rg_error r) = Some User_cancelled) \<or>
     (rg_state r = Ring_draining_failure \<and> rg_error r \<noteq> None)"

definition ring_ok :: "ring_env \<Rightarrow> byte list \<Rightarrow> ring \<Rightarrow> bool" where
  "ring_ok env content r \<longleftrightarrow>
     chunks_ok content r \<and> lossless r \<and> phase_ok r \<and> length (rg_in_flight r) \<le> rc_depth (env_config env) \<and>
     (rg_total_bytes r = length content \<or> rg_total_bytes r = 0 \<and> rg_state r \<in> {Ring_idle, Ring_failed})"

section \<open>The phase\<close>

lemma phase_settle_terminal_state:
  assumes "busy r" "rg_next_offset r \<le> rg_total_bytes r"
  shows "phase_ok (settle_terminal_state r)"
proof -
  have "current_certainty (r\<lparr>rg_state := s, rg_error := e\<rparr>) = current_certainty r" for s e
    by (simp add: current_certainty_def)
  with assms show ?thesis
    by (auto simp: busy_def settle_terminal_state_def phase_ok_def map_option_case split: option.splits)
qed

lemma phase_begin_failure:
  assumes "busy r"
  shows "phase_ok (begin_failure env kind r)" "rg_error (begin_failure env kind r) \<noteq> None"
proof -
  have certainty: "current_certainty (r\<lparr>rg_state := s, rg_error := e\<rparr>) = current_certainty r" for s e r
    by (simp add: current_certainty_def)
  show "phase_ok (begin_failure env kind r)" "rg_error (begin_failure env kind r) \<noteq> None"
    using assms
    by (auto simp: busy_def begin_failure_def settle_terminal_state_def phase_ok_def Let_def certainty split: option.splits)
qed

lemma settled [simp]: "phase_ok r \<Longrightarrow> settle_terminal_state r = r"
  by (auto simp: phase_ok_def settle_terminal_state_def split: ring_state.splits)

lemma phase_ok_keep:
  assumes "ring_core r' = ring_core r" "rg_state r' = rg_state r" "rg_error r' = rg_error r"
  shows "phase_ok r' = phase_ok r"
  using assms(2,3) by (cases "rg_state r") (simp_all add: phase_ok_def ring_coreD [OF assms(1)])

lemma phase_error: "phase_ok r \<Longrightarrow> rg_error r = None \<longleftrightarrow> rg_state r \<in> {Ring_idle, Ring_running, Ring_completed}"
  by (auto simp: phase_ok_def split: ring_state.splits)

section \<open>The chunks\<close>

lemma confirmed_cong: "completions h = completions h' \<Longrightarrow> confirmed h = confirmed h'"
  by (simp add: confirmed_def fun_eq_iff)

lemma chunks_ok_core:
  assumes "ring_core r' = ring_core r"
  shows "chunks_ok content r' = chunks_ok content r"
  using confirmed_cong [OF ring_coreD(10) [OF assms]]
  by (simp add: chunks_ok_def ids_ok_def content_ok_def marks_ok_def ring_coreD [OF assms])

lemma lossless_core:
  assumes "ring_core r' = ring_core r" "rg_error r' = rg_error r"
  shows "lossless r' = lossless r"
  using confirmed_cong [OF ring_coreD(10) [OF assms(1)]] by (simp add: lossless_def ring_coreD [OF assms(1)] assms(2))

lemma lossless_error: "rg_error r \<noteq> None \<Longrightarrow> lossless r"
  by (auto simp: lossless_def)

lemma chunks_ok_next_id:
  assumes "chunks_ok content r"
  shows "chunks_ok content (r\<lparr>rg_next_id := Suc (rg_next_id r)\<rparr>)"
  using assms by (auto simp: chunks_ok_def ids_ok_def content_ok_def marks_ok_def Let_def)

lemma next_id_fresh:
  assumes "chunks_ok content r"
  shows "rg_next_id r \<notin> fst ` set (rg_in_flight r)" "rg_next_id r \<notin> cmp_id ` set (completions (rg_history r))"
proof -
  from assms have below: "\<forall>s \<in> set (handed_over (rg_history r)). sub_id s < rg_next_id r"
    and ids: "cmp_id ` set (completions (rg_history r)) \<union> fst ` set (rg_in_flight r) = sub_id ` set (handed_over (rg_history r))"
    by (auto simp: chunks_ok_def ids_ok_def Let_def)
  from below have "rg_next_id r \<notin> sub_id ` set (handed_over (rg_history r))" by auto
  with ids show "rg_next_id r \<notin> fst ` set (rg_in_flight r)" "rg_next_id r \<notin> cmp_id ` set (completions (rg_history r))"
    by blast+
qed

lemma nothing_delivered: "chunks_ok content r \<Longrightarrow> rg_next_offset r = 0 \<longleftrightarrow> handed_over (rg_history r) = []"
  using contiguous_last [of 0 "handed_over (rg_history r)" "rg_next_offset r"]
  by (cases "handed_over (rg_history r)") (auto simp: chunks_ok_def content_ok_def)

text \<open>A chunk reaches the backend.\<close>

lemma chunks_ok_deliver:
  assumes r: "chunks_ok content r"
    and history: "handed_over (rg_history r') = handed_over (rg_history r) @ [s]"
      "completions (rg_history r') = completions (rg_history r)"
    and fields: "rg_in_flight r' = rg_in_flight r @ [(rg_next_id r, e)]" "rg_next_id r' = Suc (rg_next_id r)"
      "rg_total_bytes r' = rg_total_bytes r" "rg_next_offset r' = rg_next_offset r + length (sub_payload s)"
      "rg_segments r' = rg_segments r" "rg_completed_bytes r' = rg_completed_bytes r" "rg_watermark r' = rg_watermark r"
      "rg_logical_message_end r' = rg_logical_message_end r"
    and s: "sub_id s = rg_next_id r" "sub_offset s = rg_next_offset r" "sub_payload s \<noteq> []"
      "sub_payload s = take (length (sub_payload s)) (drop (rg_next_offset r) content)"
      "rg_next_offset r + length (sub_payload s) \<le> rg_total_bytes r"
      "sub_logical_message_end s = (rg_logical_message_end r \<and> rg_next_offset r + length (sub_payload s) = rg_total_bytes r)"
    and e: "fl_offset e = sub_offset s" "fl_requested e = length (sub_payload s)"
  shows "chunks_ok content r'"
proof -
  have "\<not> confirmed (rg_history r) s"
    using next_id_fresh(2) [OF r] s(1) by (force simp: confirmed_def confirms_def)
  moreover have same: "confirmed (rg_history r') = confirmed (rg_history r)" by (rule confirmed_cong) (fact history(2))
  ultimately have "marks_ok r'"
    using r by (auto simp: chunks_ok_def marks_ok_def Let_def history fields waiting_segments_extend watermark_of_extend)
  moreover have "ids_ok r'"
  proof -
    have "(rg_next_id r, x) \<notin> set (rg_in_flight r)" for x using next_id_fresh(1) [OF r] by force
    with r next_id_fresh [OF r] s(1) e show ?thesis unfolding chunks_ok_def ids_ok_def Let_def history fields by auto
  qed
  moreover have "content_ok content r'"
  proof -
    from r have "contiguous 0 (handed_over (rg_history r)) (rg_next_offset r)" by (simp add: chunks_ok_def content_ok_def)
    with contiguous_last [OF this] s(2,3)
    have "contiguous 0 (handed_over (rg_history r')) (rg_next_offset r')" by (simp add: history fields contiguous_append)
    moreover from r s(4) have "concat (map sub_payload (handed_over (rg_history r'))) = take (rg_next_offset r') content"
      by (simp add: chunks_ok_def content_ok_def history fields take_add)
    ultimately show ?thesis using r s(2,5,6) by (auto simp: chunks_ok_def content_ok_def fields history(1))
  qed
  ultimately show ?thesis by (simp add: chunks_ok_def)
qed

lemma lossless_deliver:
  assumes "lossless r" "rg_error r' = rg_error r" "handed_over (rg_history r') = handed_over (rg_history r) @ [s]"
    "completions (rg_history r') = completions (rg_history r)" "rg_in_flight r' = rg_in_flight r @ [(sub_id s, e)]"
  shows "lossless r'"
  using assms confirmed_cong [OF assms(4)] by (auto simp: lossless_def)

end
