(* ===== verification/Ring_Steps.thy ===== *)
theory Ring_Steps
  imports Ring_Invariant
begin

text \<open>
  Every operation of the ring keeps its invariant, whatever the backend, the permit provider and the clock answer, when the
  source returns its own content. A ring is reachable when it is the result of any sequence of calls and completions.
\<close>

section \<open>Completions\<close>

lemma payload_bytes_filter_add:
  assumes "distinct cs" "s \<in> set cs" "\<not> P s" "\<And>t. t \<in> set cs \<Longrightarrow> Q t \<longleftrightarrow> P t \<or> t = s"
  shows "payload_bytes (filter Q cs) = payload_bytes (filter P cs) + length (sub_payload s)"
proof -
  from assms(2) obtain ds es where cs: "cs = ds @ s # es" by (meson split_list)
  with assms(1,4) have "filter Q ds = filter P ds" "filter Q es = filter P es" by (auto intro!: filter_cong)
  moreover from assms(4) [OF assms(2)] have "Q s" by simp
  ultimately show ?thesis using cs assms(3) by simp
qed

lemma chunk_in_flight:
  assumes "ids_ok r" "map_of (rg_in_flight r) i = Some e"
  obtains s where "s \<in> set (handed_over (rg_history r))" "sub_id s = i" "fl_offset e = sub_offset s"
    "fl_requested e = length (sub_payload s)" "\<not> confirmed (rg_history r) s"
proof -
  from assms(2) have e: "(i, e) \<in> set (rg_in_flight r)" by (rule map_of_SomeD)
  then have "i \<in> fst ` set (rg_in_flight r)" by force
  moreover from assms(1)
  have "cmp_id ` set (completions (rg_history r)) \<inter> fst ` set (rg_in_flight r) = {}"
    "cmp_id ` set (completions (rg_history r)) \<union> fst ` set (rg_in_flight r) = sub_id ` set (handed_over (rg_history r))"
    by (simp_all add: ids_ok_def Let_def)
  ultimately have "i \<in> sub_id ` set (handed_over (rg_history r))" and fresh: "i \<notin> cmp_id ` set (completions (rg_history r))"
    by blast+
  then obtain s where s: "s \<in> set (handed_over (rg_history r))" "sub_id s = i" by auto
  with assms(1) e have "fl_offset e = sub_offset s" "fl_requested e = length (sub_payload s)"
    by (auto simp: ids_ok_def Let_def)
  moreover from fresh s(2) have "\<not> confirmed (rg_history r) s" by (force simp: confirmed_def confirms_def)
  ultimately show thesis using that s by blast
qed

text \<open>The ring after a completion has entered the history and its transfer has left the table.\<close>

definition answer :: "transfer_completion \<Rightarrow> ring \<Rightarrow> ring" where
  "answer c r =
     (emit (Completion_delivered c) r)\<lparr>rg_in_flight := AList.delete (cmp_id c) (rg_in_flight (emit (Completion_delivered c) r))\<rparr>"

lemma answer_fields [simp]:
  "rg_in_flight (answer c r) = AList.delete (cmp_id c) (rg_in_flight r)" "rg_segments (answer c r) = rg_segments r"
  "rg_next_id (answer c r) = rg_next_id r" "rg_total_bytes (answer c r) = rg_total_bytes r"
  "rg_next_offset (answer c r) = rg_next_offset r" "rg_completed_bytes (answer c r) = rg_completed_bytes r"
  "rg_watermark (answer c r) = rg_watermark r" "rg_logical_message_end (answer c r) = rg_logical_message_end r"
  "rg_state (answer c r) = rg_state r" "rg_error (answer c r) = rg_error r"
  "handed_over (rg_history (answer c r)) = handed_over (rg_history r)"
  "completions (rg_history (answer c r)) = completions (rg_history r) @ [c]"
  by (simp_all add: answer_def emit_def)

lemma ids_ok_answer:
  assumes "ids_ok r" "map_of (rg_in_flight r) (cmp_id c) = Some e"
  shows "ids_ok (answer c r)"
proof -
  have "cmp_id c \<in> fst ` set (rg_in_flight r)" using map_of_SomeD [OF assms(2)] by force
  with assms(1) show ?thesis
    unfolding ids_ok_def Let_def answer_fields
    by (auto simp: AList.delete_eq distinct_map_filter image_iff)
qed

lemma ids_inj: "ids_ok r \<Longrightarrow> inj_on sub_id (set (handed_over (rg_history r)))"
  by (simp add: ids_ok_def Let_def distinct_map)

lemma confirmed_answer:
  assumes "ids_ok r" "s \<in> set (handed_over (rg_history r))" "sub_id s = cmp_id c" "t \<in> set (handed_over (rg_history r))"
  shows "confirmed (rg_history (answer c r)) t \<longleftrightarrow> confirmed (rg_history r) t \<or> t = s \<and> confirms c s"
proof -
  from ids_inj [OF assms(1)] assms(2-4) have "confirms c t \<Longrightarrow> t = s" by (auto simp: confirms_def dest: inj_onD)
  then show ?thesis by (auto simp: confirmed_def)
qed

lemma chunks_ok_answer:
  assumes r: "chunks_ok content r" and e: "map_of (rg_in_flight r) (cmp_id c) = Some e"
    and failed: "\<not> (cmp_code c = Code_success \<and> cmp_transferred c = fl_requested e)"
  shows "chunks_ok content (answer c r)"
proof -
  from r have ids: "ids_ok r" by (simp add: chunks_ok_def)
  from ids e obtain s where s: "s \<in> set (handed_over (rg_history r))" "sub_id s = cmp_id c"
    "fl_requested e = length (sub_payload s)" by (rule chunk_in_flight)
  with failed have "\<not> confirms c s" by (simp add: confirms_def)
  then have same: "confirmed (rg_history (answer c r)) t = confirmed (rg_history r) t"
    if "t \<in> set (handed_over (rg_history r))" for t using confirmed_answer [OF ids s(1,2) that] by simp
  have "marks_ok (answer c r)"
    using r waiting_segments_cong [of "handed_over (rg_history r)", OF same]
      watermark_of_cong [of "handed_over (rg_history r)", OF same] filter_cong [OF refl [of "handed_over (rg_history r)"] same]
    by (simp add: chunks_ok_def marks_ok_def Let_def)
  with r ids_ok_answer [OF ids e] show ?thesis by (simp add: chunks_ok_def content_ok_def)
qed

lemma record_success_fields [simp]:
  "rg_in_flight (record_success offset n r) = rg_in_flight r" "rg_next_id (record_success offset n r) = rg_next_id r"
  "rg_total_bytes (record_success offset n r) = rg_total_bytes r"
  "rg_next_offset (record_success offset n r) = rg_next_offset r" "rg_state (record_success offset n r) = rg_state r"
  "rg_error (record_success offset n r) = rg_error r"
  "rg_logical_message_end (record_success offset n r) = rg_logical_message_end r" "rg_history (record_success offset n r) = rg_history r"
  by (simp_all add: record_success_def split: prod.splits)

lemma chunks_ok_confirm:
  assumes r: "chunks_ok content r" and e: "map_of (rg_in_flight r) (cmp_id c) = Some e"
    and ok: "cmp_code c = Code_success" "cmp_transferred c = fl_requested e"
    and r': "ring_core r' = ring_core (answer c r)"
  shows "chunks_ok content (record_success (fl_offset e) (fl_requested e) r')"
proof -
  from r have ids: "ids_ok r" by (simp add: chunks_ok_def)
  from ids e obtain s where s: "s \<in> set (handed_over (rg_history r))" "sub_id s = cmp_id c" "fl_offset e = sub_offset s"
    "fl_requested e = length (sub_payload s)" "\<not> confirmed (rg_history r) s" by (rule chunk_in_flight)
  with ok have "confirms c s" by (simp add: confirms_def)
  then have now: "confirmed (rg_history r') t \<longleftrightarrow> confirmed (rg_history r) t \<or> t = s"
    if "t \<in> set (handed_over (rg_history r))" for t
    using confirmed_answer [OF ids s(1,2) that] confirmed_cong [OF ring_coreD(10) [OF r']] by simp
  let ?cs = "handed_over (rg_history r)"
  from r have contiguous: "contiguous 0 ?cs (rg_next_offset r)" by (simp add: chunks_ok_def content_ok_def)
  have "waiting_segments (confirmed (rg_history r')) ?cs (rg_watermark r)
      (AList.update (fl_offset e) (fl_requested e) (rg_segments r))"
    unfolding s(3,4)
    by (rule waiting_segments_confirm [OF contiguous _ s(1,5) now]) (use r in \<open>simp_all add: chunks_ok_def marks_ok_def Let_def\<close>)
  then have marks: "waiting_segments (confirmed (rg_history r')) ?cs w S \<and> watermark_of (confirmed (rg_history r')) ?cs w"
    if "advance_watermark (rg_watermark r) (AList.update (fl_offset e) (fl_requested e) (rg_segments r)) = (w, S)" for w S
    using that by (rule advance_watermark_correct [OF contiguous])
  have "distinct ?cs" using ids by (simp add: ids_ok_def Let_def distinct_map)
  from payload_bytes_filter_add [where P = "confirmed (rg_history r)", OF this s(1,5) now]
  have "payload_bytes (filter (confirmed (rg_history r')) ?cs) = rg_completed_bytes r + fl_requested e"
    using r s(4) by (simp add: chunks_ok_def marks_ok_def Let_def)
  with marks have "marks_ok (record_success (fl_offset e) (fl_requested e) r')"
    by (auto simp: marks_ok_def record_success_def Let_def ring_coreD [OF r'] split: prod.splits)
  moreover have "ids_ok (record_success (fl_offset e) (fl_requested e) r')"
    using ids_ok_answer [OF ids e] ring_coreD [OF r'] by (simp add: ids_ok_def)
  ultimately show ?thesis using r ring_coreD [OF r'] by (simp add: chunks_ok_def content_ok_def)
qed

lemma lossless_confirm:
  assumes ids: "ids_ok r" and e: "map_of (rg_in_flight r) (cmp_id c) = Some e" and "lossless r"
    and ok: "cmp_code c = Code_success" "cmp_transferred c = fl_requested e"
    and r': "ring_core r' = ring_core (answer c r)" "rg_error r' = rg_error r"
  shows "lossless r'"
proof -
  from ids e obtain s where s: "s \<in> set (handed_over (rg_history r))" "sub_id s = cmp_id c"
    "fl_requested e = length (sub_payload s)" by (rule chunk_in_flight)
  with ok have "confirms c s" by (simp add: confirms_def)
  then have now: "confirmed (rg_history r') t \<longleftrightarrow> confirmed (rg_history r) t \<or> t = s"
    if "t \<in> set (handed_over (rg_history r))" for t
    using confirmed_answer [OF ids s(1,2) that] confirmed_cong [OF ring_coreD(10) [OF r'(1)]] by simp
  have inj: "t = s" if "t \<in> set (handed_over (rg_history r))" "sub_id t = cmp_id c" for t
    by (rule inj_onD [OF ids_inj [OF ids]]) (use that s in simp_all)
  show ?thesis
    using assms(3) r'(2) now inj by (auto simp: lossless_def ring_coreD [OF r'(1)] AList.delete_eq image_iff) force
qed

section \<open>The pump\<close>

text \<open>A source that returns the octets of its content, or fails.\<close>

locale faithful_source =
  fixes env :: ring_env and content :: "byte list"
  assumes read_exact: "env_read_exact env h offset n = Some octets \<Longrightarrow> octets = take n (drop offset content) \<and> length octets = n"

text \<open>Between two iterations of the loop.\<close>

definition pumping :: "ring_env \<Rightarrow> byte list \<Rightarrow> ring \<Rightarrow> bool" where
  "pumping env content r \<longleftrightarrow>
     chunks_ok content r \<and> lossless r \<and> length (rg_in_flight r) \<le> rc_depth (env_config env) \<and>
     rg_total_bytes r = length content \<and> (rg_state r = Ring_running \<and> rg_error r = None \<or> phase_ok r)"

lemma pumping_keep:
  assumes "pumping env content r" "ring_core r' = ring_core r" "rg_state r' = rg_state r" "rg_error r' = rg_error r"
  shows "pumping env content r'"
  using assms(1,3,4) chunks_ok_core [OF assms(2)] lossless_core [OF assms(2,4)] phase_ok_keep [OF assms(2-4)]
  by (simp add: pumping_def ring_coreD [OF assms(2)])

lemma pumping_begin_failure:
  assumes "chunks_ok content r" "length (rg_in_flight r) \<le> rc_depth (env_config env)" "rg_total_bytes r = length content"
    "rg_state r = Ring_running" "rg_error r = None"
  shows "pumping env content (begin_failure env kind r)"
proof -
  have "busy r" using assms(4,5) by (simp add: busy_def)
  from phase_begin_failure [OF this] assms(1-3) show ?thesis
    by (simp add: pumping_def lossless_error chunks_ok_core [of "begin_failure env kind r" r])
qed

lemma delete_last_fresh: "i \<notin> fst ` set xs \<Longrightarrow> AList.delete i (xs @ [(i, x)]) = xs"
  by (auto simp: AList.delete_eq filter_id_conv image_iff)

text \<open>The submission of a chunk in its parts: what is handed over, the entry of the table, the answer, and the ring then.\<close>

definition chunk_submission :: "permit \<Rightarrow> nat \<Rightarrow> ring \<Rightarrow> transfer_submission" where
  "chunk_submission p chunk r =
     \<lparr>sub_id = rg_next_id r, sub_offset = rg_next_offset r, sub_payload = lease_bytes (pm_buffer p),
      sub_logical_message_end = (rg_logical_message_end r \<and> rg_next_offset r + chunk = rg_total_bytes r)\<rparr>"

definition chunk_entry :: "permit \<Rightarrow> nat \<Rightarrow> ring \<Rightarrow> in_flight" where
  "chunk_entry p chunk r = \<lparr>fl_offset = rg_next_offset r, fl_requested = chunk, fl_permit = p\<lparr>pm_accepted := True\<rparr>\<rparr>"

definition chunk_outcome :: "ring_env \<Rightarrow> permit \<Rightarrow> nat \<Rightarrow> ring \<Rightarrow> submit_outcome" where
  "chunk_outcome env p chunk r = env_submit env (rg_history r) (chunk_submission p chunk r)"

definition attempted :: "ring_env \<Rightarrow> permit \<Rightarrow> nat \<Rightarrow> ring \<Rightarrow> ring" where
  "attempted env p chunk r =
     emit (Chunk_submitted (chunk_submission p chunk r) (chunk_outcome env p chunk r))
       (observe_telemetry record_submit_attempt
         (r\<lparr>rg_next_id := rg_next_id r + 1, rg_in_flight := rg_in_flight r @ [(rg_next_id r, chunk_entry p chunk r)]\<rparr>))"

lemma submit_chunk_cases:
  assumes "rg_next_id r \<notin> fst ` set (rg_in_flight r)"
  shows "submit_chunk env p chunk r =
    (let r' = (attempted env p chunk r)\<lparr>rg_next_offset := rg_next_offset r + chunk\<rparr>
     in case chunk_outcome env p chunk r of
       Threw \<Rightarrow> (False, begin_failure env Submit_err_io r')
     | Returned result \<Rightarrow>
         if result = Submit_accepted then (True, observe_telemetry (record_submit chunk (length (rg_in_flight r'))) r')
         else (False, begin_failure env (submit_error_kind result)
            (settle_permit env (p\<lparr>pm_accepted := True\<rparr>) Not_submitted
              ((attempted env p chunk r)\<lparr>rg_in_flight := AList.delete (rg_next_id r) (rg_in_flight (attempted env p chunk r))\<rparr>))))"
  using assms
  by (cases "chunk_outcome env p chunk r")
    (simp_all add: submit_chunk_def Let_def chunk_submission_def chunk_entry_def chunk_outcome_def attempted_def)

lemma attempted_fields [simp]:
  "rg_in_flight (attempted env p chunk r) = rg_in_flight r @ [(rg_next_id r, chunk_entry p chunk r)]"
  "rg_next_id (attempted env p chunk r) = Suc (rg_next_id r)" "rg_total_bytes (attempted env p chunk r) = rg_total_bytes r"
  "rg_segments (attempted env p chunk r) = rg_segments r"
  "rg_completed_bytes (attempted env p chunk r) = rg_completed_bytes r"
  "rg_watermark (attempted env p chunk r) = rg_watermark r" "rg_next_offset (attempted env p chunk r) = rg_next_offset r"
  "rg_logical_message_end (attempted env p chunk r) = rg_logical_message_end r"
  "rg_state (attempted env p chunk r) = rg_state r" "rg_error (attempted env p chunk r) = rg_error r"
  "completions (rg_history (attempted env p chunk r)) = completions (rg_history r)"
  "handed_over (rg_history (attempted env p chunk r)) =
     handed_over (rg_history r) @ (if reached_backend (chunk_outcome env p chunk r) then [chunk_submission p chunk r] else [])"
  by (simp_all add: attempted_def emit_def observe_telemetry_def)

lemma chunks_ok_attempted:
  assumes r: "chunks_ok content r" and chunk: "chunk = length (lease_bytes (pm_buffer p))" "chunk \<noteq> 0"
      "rg_next_offset r + chunk \<le> rg_total_bytes r"
    and payload: "lease_bytes (pm_buffer p) = take chunk (drop (rg_next_offset r) content)"
  shows "reached_backend (chunk_outcome env p chunk r) \<Longrightarrow>
      chunks_ok content ((attempted env p chunk r)\<lparr>rg_next_offset := rg_next_offset r + chunk\<rparr>)"
    "\<not> reached_backend (chunk_outcome env p chunk r) \<Longrightarrow>
      chunks_ok content ((attempted env p chunk r)\<lparr>rg_in_flight := rg_in_flight r\<rparr>)"
proof -
  let ?s = "chunk_submission p chunk r"
  have s: "sub_id ?s = rg_next_id r" "sub_offset ?s = rg_next_offset r" "length (sub_payload ?s) = chunk" "sub_payload ?s \<noteq> []"
    "sub_payload ?s = take chunk (drop (rg_next_offset r) content)"
    "sub_logical_message_end ?s = (rg_logical_message_end r \<and> rg_next_offset r + chunk = rg_total_bytes r)"
    using chunk payload by (auto simp: chunk_submission_def)
  show "chunks_ok content ((attempted env p chunk r)\<lparr>rg_next_offset := rg_next_offset r + chunk\<rparr>)"
    if "reached_backend (chunk_outcome env p chunk r)"
    by (rule chunks_ok_deliver [OF r, of _ ?s "chunk_entry p chunk r"])
      (use s chunk that in \<open>simp_all add: chunk_entry_def\<close>)
  show "chunks_ok content ((attempted env p chunk r)\<lparr>rg_in_flight := rg_in_flight r\<rparr>)"
    if "\<not> reached_backend (chunk_outcome env p chunk r)"
  proof -
    have "ring_core ((attempted env p chunk r)\<lparr>rg_in_flight := rg_in_flight r\<rparr>) = ring_core (r\<lparr>rg_next_id := Suc (rg_next_id r)\<rparr>)"
      using that by (simp add: ring_core_def)
    with chunks_ok_next_id [OF r] show ?thesis using chunks_ok_core by blast
  qed
qed

lemma pumping_submit_chunk:
  assumes r: "pumping env content r" "rg_state r = Ring_running" "rg_error r = None"
    and room: "length (rg_in_flight r) < rc_depth (env_config env)"
    and chunk: "chunk = length (lease_bytes (pm_buffer p))" "chunk \<noteq> 0" "rg_next_offset r + chunk \<le> rg_total_bytes r"
    and payload: "lease_bytes (pm_buffer p) = take chunk (drop (rg_next_offset r) content)"
  shows "pumping env content (snd (submit_chunk env p chunk r))"
proof -
  have chunks: "chunks_ok content r" and size: "rg_total_bytes r = length content" and loss: "lossless r"
    using r(1) by (simp_all add: pumping_def)
  note fresh = next_id_fresh(1) [OF chunks]
  note attempt = chunks_ok_attempted [OF chunks chunk payload, of env]
  let ?r' = "(attempted env p chunk r)\<lparr>rg_next_offset := rg_next_offset r + chunk\<rparr>"
  consider (threw) "chunk_outcome env p chunk r = Threw" | (accepted) "chunk_outcome env p chunk r = Returned Submit_accepted"
    | (rejected) result where "chunk_outcome env p chunk r = Returned result" "result \<noteq> Submit_accepted"
    by (cases "chunk_outcome env p chunk r") auto
  then show ?thesis
  proof cases
    case threw
    then have "pumping env content (begin_failure env Submit_err_io ?r')"
      using attempt(1) room size r(2,3) by (intro pumping_begin_failure) (simp_all add: reached_backend_def)
    with threw show ?thesis by (simp add: submit_chunk_cases [OF fresh])
  next
    case accepted
    then have "lossless ?r'"
      by (intro lossless_deliver [OF loss, of _ "chunk_submission p chunk r" "chunk_entry p chunk r"])
        (simp_all add: reached_backend_def chunk_submission_def)
    with accepted attempt(1) room size r(2,3) have "pumping env content ?r'" by (simp add: pumping_def reached_backend_def)
    with accepted show ?thesis by (simp add: submit_chunk_cases [OF fresh] Let_def pumping_keep [OF \<open>pumping env content ?r'\<close>])
  next
    case rejected
    let ?undone = "settle_permit env (p\<lparr>pm_accepted := True\<rparr>) Not_submitted ((attempted env p chunk r)\<lparr>rg_in_flight := rg_in_flight r\<rparr>)"
    have "chunks_ok content ?undone" using attempt(2) rejected by (simp add: chunks_ok_core [of ?undone] reached_backend_def)
    then have "pumping env content (begin_failure env (submit_error_kind result) ?undone)"
      using room size r(2,3) by (intro pumping_begin_failure) simp_all
    with rejected show ?thesis by (simp add: submit_chunk_cases [OF fresh] delete_last_fresh [OF fresh])
  qed
qed

lemma lease_bytes_fill:
  assumes "length octets = lease_size (pm_buffer p)" "lease_size (pm_buffer p) \<noteq> 0"
  shows "lease_bytes (pm_buffer (fill_permit octets p)) = octets"
  using assms by (auto simp: fill_permit_def lease_size_def lease_bytes_def write_span_def split: option.splits)

text \<open>What one iteration keeps, the loop keeps.\<close>

lemma pump_loop_invariant:
  assumes "P r"
    and step: "\<And>r. P r \<Longrightarrow> rg_state r = Ring_running \<Longrightarrow> length (rg_in_flight r) < rc_depth (env_config env) \<Longrightarrow>
      P (snd (pump_step env r))"
  shows "P (snd (pump_loop env submitted r))"
  using assms(1)
proof (induction "rg_total_bytes r - rg_next_offset r" arbitrary: submitted r rule: less_induct)
  case less
  show ?case
  proof (cases "rg_state r = Ring_running \<and> length (rg_in_flight r) < rc_depth (env_config env) \<and> rg_next_offset r < rg_total_bytes r")
    case True
    obtain go r' where pump: "pump_step env r = (go, r')" by fastforce
    have r': "P r'" using step [OF less.prems] True pump by simp
    show ?thesis
    proof (cases go)
      case go: True
      from pump_step_advances pump go True have "rg_total_bytes r' - rg_next_offset r' < rg_total_bytes r - rg_next_offset r"
        by fastforce
      then have "P (snd (pump_loop env True r'))" using r' by (rule less.hyps)
      with True pump go show ?thesis by (simp add: pump_loop.simps [of env submitted])
    qed (use True pump r' in \<open>simp add: pump_loop.simps [of env submitted]\<close>)
  next
    case False
    with less.prems show ?thesis by (auto simp: pump_loop.simps [of env submitted])
  qed
qed

lemma pumping_running: "pumping env content r \<Longrightarrow> rg_state r = Ring_running \<Longrightarrow> rg_error r = None"
  by (auto simp: pumping_def phase_ok_def)

lemma lossless_settle_terminal_state: "lossless r \<Longrightarrow> lossless (settle_terminal_state r)"
  using confirmed_cong [of "rg_history (settle_terminal_state r)" "rg_history r"]
  by (auto simp: lossless_def settle_terminal_state_def)

context faithful_source
begin

lemma pumping_fill_submit:
  assumes r: "pumping env content r" "rg_state r = Ring_running" "rg_error r = None"
    and room: "length (rg_in_flight r) < rc_depth (env_config env)"
    and chunk: "lease_size (pm_buffer p) \<noteq> 0" "lease_size (pm_buffer p) \<le> rg_total_bytes r - rg_next_offset r"
    and bytes: "env_read_exact env h (rg_next_offset r) (lease_size (pm_buffer p)) = Some bytes"
  shows "pumping env content (snd (submit_chunk env (fill_permit bytes p) (lease_size (pm_buffer p)) r))"
proof -
  have own: "bytes = take (lease_size (pm_buffer p)) (drop (rg_next_offset r) content)" "length bytes = lease_size (pm_buffer p)"
    using read_exact [OF bytes] by blast+
  have payload: "lease_bytes (pm_buffer (fill_permit bytes p)) = bytes" by (rule lease_bytes_fill) (use own chunk in simp_all)
  show ?thesis
    by (rule pumping_submit_chunk [OF r room]) (use chunk payload own in auto)
qed

lemma pumping_read_submit:
  assumes r: "pumping env content r" "rg_state r = Ring_running" "rg_error r = None"
    and room: "length (rg_in_flight r) < rc_depth (env_config env)"
    and chunk: "chunk = lease_size (pm_buffer p)" "chunk \<noteq> 0" "chunk \<le> rg_total_bytes r - rg_next_offset r"
  shows "pumping env content
    (snd (case read_chunk_source env chunk r of
            (None, r) \<Rightarrow> (False, destroy_permit env p (begin_failure env Source_read r))
          | (Some octets, r) \<Rightarrow> submit_chunk env (fill_permit octets p) chunk r))"
proof -
  obtain octets r' where source: "read_chunk_source env chunk r = (octets, r')" by fastforce
  note keep = read_chunk_source_keeps [OF source]
  have r': "pumping env content r'" by (rule pumping_keep [OF r(1) keep(1-3)])
  show ?thesis
  proof (cases octets)
    case None
    have "pumping env content (begin_failure env Source_read r')"
      using r' room r(2,3) keep by (intro pumping_begin_failure) (simp_all add: pumping_def ring_coreD [OF keep(1)])
    then have "pumping env content (destroy_permit env p (begin_failure env Source_read r'))" by (rule pumping_keep) simp_all
    with source None show ?thesis by simp
  next
    case (Some bytes)
    then have "pumping env content (snd (submit_chunk env (fill_permit bytes p) (lease_size (pm_buffer p)) r'))"
      using room r(2,3) keep chunk
      by (intro pumping_fill_submit [OF r', where h = "rg_history r"]) (simp_all add: ring_coreD [OF keep(1)])
    with source Some chunk(1) show ?thesis by simp
  qed
qed

lemma pumping_pump_step:
  assumes r: "pumping env content r" "rg_state r = Ring_running" "rg_error r = None"
    and room: "length (rg_in_flight r) < rc_depth (env_config env)"
  shows "pumping env content (snd (pump_step env r))"
proof -
  let ?maximum = "min (rg_total_bytes r - rg_next_offset r) (rc_chunk_size (env_config env))"
  obtain granted r' where acquire: "acquire_permit env ?maximum r = (granted, r')" by fastforce
  note keep = acquire_permit_keeps [OF acquire]
  have r': "pumping env content r'" by (rule pumping_keep [OF r(1) keep])
  show ?thesis
  proof (cases granted)
    case None
    have "pumping env content (r'\<lparr>rg_wait_generation := g\<rparr>)" for g by (rule pumping_keep [OF r']) simp_all
    with acquire None show ?thesis by (simp add: pump_step_def Let_def)
  next
    case (Some p)
    let ?chunk = "lease_size (pm_buffer p)"
    let ?undone = "settle_permit env p Not_submitted r'"
    have "pumping env content (begin_failure env Invalid_configuration ?undone)"
      using r' room r(2,3) keep
      by (intro pumping_begin_failure) (simp_all add: pumping_def chunks_ok_core [of ?undone r'] ring_coreD [OF keep(1)])
    moreover have "pumping env content
      (snd (case read_chunk_source env ?chunk r' of
            (None, r) \<Rightarrow> (False, destroy_permit env p (begin_failure env Source_read r))
          | (Some octets, r) \<Rightarrow> submit_chunk env (fill_permit octets p) ?chunk r))" if "\<not> (?chunk = 0 \<or> ?maximum < ?chunk)"
      using r' room r(2,3) keep that by (intro pumping_read_submit) (auto simp: ring_coreD [OF keep(1)])
    ultimately show ?thesis using acquire Some by (simp add: pump_step_def Let_def)
  qed
qed

lemma pumping_pump_loop: "pumping env content r \<Longrightarrow> pumping env content (snd (pump_loop env submitted r))"
  by (erule pump_loop_invariant) (auto intro: pumping_pump_step simp: pumping_running)

lemma ring_ok_pump:
  assumes "pumping env content r" "rg_state r = Ring_running"
  shows "ring_ok env content (snd (pump env r))"
proof -
  let ?r = "snd (pump_loop env False r)"
  have r': "pumping env content ?r" by (rule pumping_pump_loop [OF assms(1)])
  have "phase_ok (settle_terminal_state ?r)"
  proof (cases "phase_ok ?r")
    case False
    with r' have "busy ?r" "rg_next_offset ?r \<le> rg_total_bytes ?r"
      by (auto simp: pumping_def busy_def chunks_ok_def content_ok_def)
    then show ?thesis by (rule phase_settle_terminal_state)
  qed simp
  moreover have "lossless (settle_terminal_state ?r)"
    using r' lossless_settle_terminal_state by (simp add: pumping_def)
  moreover have "chunks_ok content (settle_terminal_state ?r)"
    using r' by (simp add: pumping_def chunks_ok_core [of "settle_terminal_state ?r" ?r])
  ultimately have "ring_ok env content (settle_terminal_state ?r)" using r' by (simp add: ring_ok_def pumping_def)
  with assms(2) show ?thesis by (simp add: pump_def case_prod_beta)
qed

end

end
