(* ===== verification/Ring_Reach.thy ===== *)
theory Ring_Reach
  imports Ring_Steps
begin

text \<open>
  The operations of the ring keep its invariant; rings that are reachable by any sequence of calls and completions.
\<close>

section \<open>Completions\<close>

lemma ring_ok_settled:
  assumes "chunks_ok content r" "lossless r" "busy r \<or> phase_ok r"
    "length (rg_in_flight r) \<le> rc_depth (env_config env)" "rg_total_bytes r = length content"
  shows "ring_ok env content (settle_terminal_state r)"
proof -
  have "rg_next_offset r \<le> rg_total_bytes r" using assms(1) by (simp add: chunks_ok_def content_ok_def)
  with assms(3) phase_settle_terminal_state have "phase_ok (settle_terminal_state r)" by auto
  with assms lossless_settle_terminal_state show ?thesis
    by (simp add: ring_ok_def chunks_ok_core [of "settle_terminal_state r" r])
qed

text \<open>What a completion leaves behind, before the pump runs again.\<close>

definition answered_ok :: "byte list \<Rightarrow> ring \<Rightarrow> bool" where
  "answered_ok content r \<longleftrightarrow> chunks_ok content r \<and> lossless r \<and> (busy r \<or> phase_ok r)"

lemma answered_begin_failure:
  assumes "chunks_ok content r" "busy r"
  shows "answered_ok content (begin_failure env kind r)"
  using assms phase_begin_failure [OF assms(2)]
  by (simp add: answered_ok_def lossless_error chunks_ok_core [of "begin_failure env kind r" r])

lemma busy_cong: "rg_state r' = rg_state r \<Longrightarrow> rg_error r' = rg_error r \<Longrightarrow> busy r' = busy r"
  by (simp add: busy_def)

lemma answered_settle_completion:
  assumes r: "chunks_ok content r" "lossless r" "busy r" and e: "map_of (rg_in_flight r) (cmp_id c) = Some e"
  shows "answered_ok content (settle_completion env e c (answer c r))"
proof -
  let ?settle = "\<lambda>x. settle_permit env (fl_permit e) x (answer c r)"
  have core: "ring_core (?settle x) = ring_core (answer c r)" "busy (?settle x)" "rg_error (?settle x) = rg_error r" for x
    using r(3) by (simp_all add: busy_cong [of "?settle x" r])
  show ?thesis
  proof (cases "cmp_code c = Code_success \<and> cmp_transferred c = fl_requested e")
    case True
    let ?r' = "record_success (fl_offset e) (fl_requested e) (?settle Fully_transferred)"
    have "chunks_ok content ?r'" using True by (intro chunks_ok_confirm [OF r(1) e _ _ core(1)]) simp_all
    moreover have "lossless (?settle Fully_transferred)"
      using True r(1) by (intro lossless_confirm [OF _ e r(2) _ _ core(1) core(3)]) (simp_all add: chunks_ok_def)
    then have "lossless ?r'" by (simp add: lossless_def)
    moreover have "busy ?r'" using core(2) by (simp add: busy_def)
    ultimately show ?thesis using True by (simp add: settle_completion_def answered_ok_def)
  next
    case False
    have chunks: "chunks_ok content (?settle x)" for x
      using chunks_ok_answer [OF r(1) e False] chunks_ok_core [OF core(1)] by simp
    have "answered_ok content (?settle Partial_or_unknown)" if "rg_state r \<noteq> Ring_running"
      using chunks core(2,3) r(3) that by (auto simp: answered_ok_def lossless_def busy_def)
    with False answered_begin_failure [OF chunks core(2)] show ?thesis
      by (auto simp: settle_completion_def Let_def)
  qed
qed

lemma settle_completion_fields [simp]:
  "rg_in_flight (settle_completion env e c r) = rg_in_flight r"
  "rg_total_bytes (settle_completion env e c r) = rg_total_bytes r"
  "rg_next_offset (settle_completion env e c r) = rg_next_offset r"
  by (simp_all add: settle_completion_def Let_def)

lemma handle_completion_answered:
  assumes "map_of (rg_in_flight r) (cmp_id c) = Some e"
  shows "handle_completion env c r =
    (let r1 = settle_completion env e c (answer c r);
         r2 = settle_terminal_state (if rg_state r1 = Ring_running then snd (pump env r1) else r1)
     in (True, observe_telemetry (record_completion (if cmp_transferred c \<le> fl_requested e then cmp_transferred c else 0)
          (length (rg_in_flight r2)) (rg_watermark r2) (cmp_code c = Code_cancelled)) r2))"
  by (simp only: handle_completion_def assms Let_def option.case answer_def)

lemma in_flight_busy: "phase_ok r \<Longrightarrow> rg_in_flight r \<noteq> [] \<Longrightarrow> busy r"
  by (auto simp: phase_ok_def busy_def split: ring_state.splits)

lemma delete_length: "length (AList.delete i xs) \<le> length xs"
  by (simp add: AList.delete_eq)

lemma ring_ok_observe: "ring_ok env content r \<Longrightarrow> ring_ok env content (observe_telemetry f r)"
  by (simp add: ring_ok_def chunks_ok_core [of "observe_telemetry f r" r] lossless_core [of "observe_telemetry f r" r] phase_ok_keep [of "observe_telemetry f r" r])

lemma pumping_started:
  assumes r: "ring_ok env content r" and idle: "rg_state r = Ring_idle"
  shows "pumping env content (r\<lparr>rg_total_bytes := length content, rg_logical_message_end := lme, rg_state := Ring_running\<rparr>)"
proof -
  from r idle have "rg_error r = None" "rg_in_flight r = []" "rg_next_offset r = 0" "rg_total_bytes r = 0"
    by (simp_all add: ring_ok_def phase_ok_def)
  moreover from r this(3) have "handed_over (rg_history r) = []" using nothing_delivered by (auto simp: ring_ok_def)
  ultimately show ?thesis using r by (simp add: ring_ok_def pumping_def chunks_ok_def ids_ok_def content_ok_def marks_ok_def lossless_def)
qed

context faithful_source
begin

lemma ring_ok_answered:
  assumes "answered_ok content r" "length (rg_in_flight r) \<le> rc_depth (env_config env)" "rg_total_bytes r = length content"
  shows "ring_ok env content (settle_terminal_state (if rg_state r = Ring_running then snd (pump env r) else r))"
proof (cases "rg_state r = Ring_running")
  case True
  with assms(1) have "rg_error r = None" by (auto simp: answered_ok_def busy_def phase_ok_def)
  with True assms have "ring_ok env content (snd (pump env r))" by (intro ring_ok_pump) (auto simp: answered_ok_def pumping_def)
  with True show ?thesis by (simp add: ring_ok_def)
qed (use assms ring_ok_settled in \<open>simp add: answered_ok_def\<close>)

lemma ring_ok_handle_completion:
  assumes r: "ring_ok env content r"
  shows "ring_ok env content (snd (handle_completion env c r))"
proof (cases "map_of (rg_in_flight r) (cmp_id c)")
  case None
  with r show ?thesis by (simp add: handle_completion_def)
next
  case (Some e)
  then have "rg_in_flight r \<noteq> []" by auto
  with r have busy: "busy r" by (simp add: ring_ok_def in_flight_busy)
  with r have size: "rg_total_bytes r = length content" by (auto simp: ring_ok_def busy_def)
  let ?r = "settle_completion env e c (answer c r)"
  have "answered_ok content ?r" using r busy Some by (intro answered_settle_completion) (simp_all add: ring_ok_def)
  moreover have "length (rg_in_flight ?r) \<le> rc_depth (env_config env)"
    using r delete_length [of "cmp_id c" "rg_in_flight r"] by (simp add: ring_ok_def)
  ultimately have "ring_ok env content (settle_terminal_state (if rg_state ?r = Ring_running then snd (pump env ?r) else ?r))"
    using size by (intro ring_ok_answered) simp_all
  then show ?thesis unfolding handle_completion_answered [OF Some] Let_def snd_conv by (rule ring_ok_observe)
qed

lemma ring_ok_start:
  assumes r: "ring_ok env content r" and source: "source = None \<or> source = Some (length content)"
  shows "ring_ok env content (snd (start env source lme r))"
proof (cases "rg_state r = Ring_idle")
  case False
  with r show ?thesis by (simp add: start_def Let_def)
next
  case True
  with r have idle: "rg_error r = None" "rg_in_flight r = []" "rg_next_offset r = 0" "rg_total_bytes r = 0"
    by (simp_all add: ring_ok_def phase_ok_def)
  let ?failed = "r\<lparr>rg_error := Some \<lparr>te_kind = Invalid_configuration, te_certainty = Delivery_not_sent\<rparr>, rg_state := Ring_failed\<rparr>"
  have "ring_ok env content ?failed"
    using r idle by (simp add: ring_ok_def phase_ok_def lossless_def current_certainty_def chunks_ok_core [of ?failed r])
  then have failed: "ring_ok env content (observe_telemetry record_error ?failed)" by (rule ring_ok_observe)
  let ?run = "r\<lparr>rg_total_bytes := length content, rg_logical_message_end := lme, rg_state := Ring_running\<rparr>"
  have "pumping env content ?run" using r True by (rule pumping_started)
  then have run: "ring_ok env content (snd (pump env ?run))" using idle by (intro ring_ok_pump) simp_all
  let ?empty = "r\<lparr>rg_total_bytes := 0, rg_logical_message_end := lme, rg_state := Ring_completed\<rparr>"
  have "handed_over (rg_history r) = []" using r idle(3) nothing_delivered by (auto simp: ring_ok_def)
  then have "ring_ok env content ?empty" if "content = []"
    using r idle that
    by (simp add: ring_ok_def chunks_ok_def ids_ok_def content_ok_def marks_ok_def lossless_def phase_ok_def)
  with failed run True source show ?thesis by (auto simp: start_def Let_def)
qed

lemma ring_ok_emit: "benign e \<Longrightarrow> ring_ok env content r \<Longrightarrow> ring_ok env content (emit e r)"
  by (simp add: ring_ok_def chunks_ok_core [of "emit e r" r] lossless_core [of "emit e r" r] phase_ok_keep [of "emit e r" r])

lemma ring_ok_public_pump:
  assumes "ring_ok env content r"
  shows "ring_ok env content (snd (pump env r))"
proof (cases "rg_state r = Ring_running")
  case True
  with assms have "pumping env content r" by (auto simp: ring_ok_def pumping_def phase_ok_def)
  with True show ?thesis by (simp add: ring_ok_pump)
qed (use assms in \<open>simp add: pump_def\<close>)

lemma ring_ok_wait:
  assumes "ring_ok env content r"
  shows "ring_ok env content (snd (wait_for_permit_until env r))"
  using assms by (auto simp: wait_for_permit_until_def Let_def ring_ok_emit ring_ok_public_pump)

lemma ring_ok_cancel:
  assumes r: "ring_ok env content r"
  shows "ring_ok env content (cancel env r)"
proof (cases "rg_state r = Ring_running")
  case True
  define r1 where "r1 = observe_telemetry record_cancel r"
  define r2 where "r2 = cancel_outstanding (cancel_wait env
    (r1\<lparr>rg_error := Some \<lparr>te_kind = User_cancelled, te_certainty = current_certainty r1\<rparr>, rg_state := Ring_cancelling\<rparr>))"
  have core: "ring_core r2 = ring_core r" by (simp add: r2_def r1_def)
  have "busy r2" "lossless r2" by (simp_all add: r2_def busy_def lossless_def)
  with r True have "ring_ok env content (settle_terminal_state r2)"
    by (intro ring_ok_settled) (auto simp: ring_ok_def chunks_ok_core [OF core] ring_coreD [OF core])
  with True show ?thesis by (simp add: cancel_def Let_def r1_def r2_def)
qed (use r in \<open>simp add: cancel_def\<close>)

end

section \<open>Reachable rings\<close>

text \<open>
  Any sequence of calls and of completions, in any order and with any content; the source, when there is one, has the
  octets \<open>content\<close>.
\<close>

inductive ring_reach :: "ring_env \<Rightarrow> byte list \<Rightarrow> ring \<Rightarrow> bool" for env content where
  reach_new: "ring_reach env content (new_ring telemetry_enabled)"
| reach_start: "ring_reach env content r \<Longrightarrow> source = None \<or> source = Some (length content) \<Longrightarrow>
    ring_reach env content (snd (start env source logical_message_end r))"
| reach_pump: "ring_reach env content r \<Longrightarrow> ring_reach env content (snd (pump env r))"
| reach_wait: "ring_reach env content r \<Longrightarrow> ring_reach env content (snd (wait_for_permit_until env r))"
| reach_completion: "ring_reach env content r \<Longrightarrow> ring_reach env content (snd (handle_completion env c r))"
| reach_cancel: "ring_reach env content r \<Longrightarrow> ring_reach env content (cancel env r)"

lemma ring_ok_new: "ring_ok env content (new_ring t)"
  by (simp add: ring_ok_def new_ring_def chunks_ok_def ids_ok_def content_ok_def marks_ok_def waiting_segments_def
      watermark_of_def lossless_def phase_ok_def)

context faithful_source
begin

theorem reachable_ring_ok: "ring_reach env content r \<Longrightarrow> ring_ok env content r"
  by (induction rule: ring_reach.induct)
    (simp_all add: ring_ok_new ring_ok_start ring_ok_public_pump ring_ok_wait ring_ok_handle_completion ring_ok_cancel)

end

end
