(* ===== verification/Ring_Permits.thy ===== *)
theory Ring_Permits
  imports Ring_Reach
begin

text \<open>
  Permits: with a permit provider, every permit that was granted with a buffer is settled exactly once or belongs to a
  transfer in flight, and the settlements tell the provider what happened to the octets.
\<close>

section \<open>Views of the history\<close>

primrec grants :: "history \<Rightarrow> (nat \<times> nat) list" where
  "grants [] = []"
| "grants (e # h) =
     (case e of
        Permit_requested _ (Some (buffer, token)) \<Rightarrow> (if lease_holds buffer then [(token, lease_size buffer)] else [])
      | _ \<Rightarrow> []) @ grants h"

primrec settlements :: "history \<Rightarrow> ((nat \<times> nat) \<times> transfer_permit_settlement) list" where
  "settlements [] = []"
| "settlements (e # h) = (case e of Permit_settled token bytes result \<Rightarrow> [((token, bytes), result)] | _ \<Rightarrow> []) @ settlements h"

definition permit_bytes :: "transfer_permit_settlement \<Rightarrow> history \<Rightarrow> nat" where
  "permit_bytes result h = sum_list (map (snd \<circ> fst) (filter (\<lambda>s. snd s = result) (settlements h)))"

definition permit_key :: "permit \<Rightarrow> nat \<times> nat" where
  "permit_key p = (pm_token p, lease_size (pm_buffer p))"

definition permits_in_flight :: "ring \<Rightarrow> (nat \<times> nat) list" where
  "permits_in_flight r = map (permit_key \<circ> fl_permit \<circ> snd) (rg_in_flight r)"

definition bytes_in_flight :: "ring \<Rightarrow> nat" where
  "bytes_in_flight r = sum_list (map (fl_requested \<circ> snd) (rg_in_flight r))"

section \<open>Invariant\<close>

text \<open>\<open>held\<close> are the permits in the hands of the operation that runs.\<close>

definition permits_ok :: "permit list \<Rightarrow> ring \<Rightarrow> bool" where
  "permits_ok held r \<longleftrightarrow>
     mset (grants (rg_history r)) =
       mset (map fst (settlements (rg_history r))) + mset (permits_in_flight r) +
       mset (map permit_key (filter (lease_holds \<circ> pm_buffer) held)) \<and>
     (\<forall>(i, e) \<in> set (rg_in_flight r). lease_holds (pm_buffer (fl_permit e)) \<and> fl_requested e = lease_size (pm_buffer (fl_permit e)))"

definition bytes_ok :: "ring \<Rightarrow> bool" where
  "bytes_ok r \<longleftrightarrow>
     rg_next_offset r =
       permit_bytes Fully_transferred (rg_history r) + permit_bytes Partial_or_unknown (rg_history r) + bytes_in_flight r \<and>
     rg_completed_bytes r = permit_bytes Fully_transferred (rg_history r)"

definition permit_core where
  "permit_core r = (rg_in_flight r, rg_next_offset r, rg_completed_bytes r, grants (rg_history r), settlements (rg_history r))"

lemma permits_ok_core:
  assumes "permit_core r' = permit_core r"
  shows "permits_ok held r' = permits_ok held r" "bytes_ok r' = bytes_ok r"
  using assms
  by (simp_all add: permit_core_def permits_ok_def bytes_ok_def permits_in_flight_def bytes_in_flight_def permit_bytes_def)

definition unrelated :: "ring_event \<Rightarrow> bool" where
  "unrelated e \<longleftrightarrow> (case e of Permit_requested _ _ \<Rightarrow> False | Permit_settled _ _ _ \<Rightarrow> False | _ \<Rightarrow> True)"

lemma unrelated_simps [simp]:
  "unrelated (Buffer_released n)" "unrelated (Source_was_read f n os)" "unrelated (Cancel_requested i)"
  "unrelated Wait_was_cancelled" "unrelated (Waited n w)" "unrelated (Chunk_submitted s outcome)"
  "unrelated (Completion_delivered c)"
  by (simp_all add: unrelated_def)

lemma permit_core_emit [simp]: "unrelated e \<Longrightarrow> permit_core (emit e r) = permit_core r"
  by (cases e) (simp_all add: unrelated_def permit_core_def emit_def)

lemma permit_core_observe [simp]: "permit_core (observe_telemetry f r) = permit_core r"
  by (simp add: permit_core_def observe_telemetry_def)

lemma permit_core_updates [simp]:
  "permit_core (r\<lparr>rg_state := st\<rparr>) = permit_core r" "permit_core (r\<lparr>rg_error := err\<rparr>) = permit_core r"
  "permit_core (r\<lparr>rg_wait_generation := g\<rparr>) = permit_core r" "permit_core (r\<lparr>rg_next_id := n\<rparr>) = permit_core r"
  "permit_core (r\<lparr>rg_total_bytes := n\<rparr>) = permit_core r" "permit_core (r\<lparr>rg_logical_message_end := b\<rparr>) = permit_core r"
  by (simp_all add: permit_core_def)

lemma permit_core_cancel_outstanding [simp]: "permit_core (cancel_outstanding r) = permit_core r"
proof -
  have "permit_core (foldl (\<lambda>r i. observe_telemetry record_backend_cancel (emit (Cancel_requested i) r)) r ids) = permit_core r" for r ids
    by (induction ids arbitrary: r) simp_all
  then show ?thesis by (simp add: cancel_outstanding_def)
qed

lemma permit_core_helpers [simp]:
  "permit_core (cancel_wait env r) = permit_core r" "permit_core (settle_terminal_state r) = permit_core r"
  "permit_core (begin_failure env kind r) = permit_core r"
  by (simp_all add: cancel_wait_def settle_terminal_state_def begin_failure_def Let_def)

lemmas permits_core_simps [simp] =
  permits_ok_core [OF permit_core_observe] permits_ok_core [OF permit_core_helpers(1)]
  permits_ok_core [OF permit_core_helpers(2)] permits_ok_core [OF permit_core_helpers(3)]
  permits_ok_core [OF permit_core_cancel_outstanding]

section \<open>Settling\<close>

lemma permit_bytes_settle:
  assumes "env_provider env" "lease_holds (pm_buffer p)"
  shows "permit_bytes x (rg_history (settle_permit env p y r)) =
    (if x = y then lease_size (pm_buffer p) else 0) + permit_bytes x (rg_history r)"
  using assms by (simp add: settle_permit_def Let_def permit_bytes_def)

lemma permits_ok_settle:
  assumes "env_provider env" "permits_ok (p # held) r"
  shows "permits_ok held (settle_permit env p x r)"
  using assms by (simp add: settle_permit_def Let_def permits_ok_def permits_in_flight_def permit_key_def emit_def)

lemma bytes_ok_settle_not_submitted:
  assumes "env_provider env" "bytes_ok r"
  shows "bytes_ok (settle_permit env p Not_submitted r)"
proof (cases "lease_holds (pm_buffer p)")
  case True
  with assms show ?thesis by (simp add: bytes_ok_def permit_bytes_settle bytes_in_flight_def)
qed (use assms in \<open>simp add: settle_permit_def\<close>)

lemma permits_ok_acquire:
  assumes "env_provider env" "permits_ok [] r" "bytes_ok r" "acquire_permit env n r = (granted, r')"
  shows "permits_ok (case granted of None \<Rightarrow> [] | Some p \<Rightarrow> [p]) r' \<and> bytes_ok r' \<and> (\<forall>p. granted = Some p \<longrightarrow> \<not> pm_accepted p)"
  using assms
  by (auto simp: acquire_permit_def Let_def permits_ok_def bytes_ok_def permits_in_flight_def bytes_in_flight_def
      permit_bytes_def permit_key_def emit_def observe_telemetry_def split: option.splits)

lemma permit_core_read:
  assumes "read_chunk_source env n r = (octets, r')"
  shows "permit_core r' = permit_core r"
  using assms by (auto simp: read_chunk_source_def Let_def)

lemma fill_permit_keeps [simp]:
  "permit_key (fill_permit octets p) = permit_key p" "lease_holds (pm_buffer (fill_permit octets p)) = lease_holds (pm_buffer p)"
  "pm_accepted (fill_permit octets p) = pm_accepted p" "lease_size (pm_buffer (fill_permit octets p)) = lease_size (pm_buffer p)"
  by (auto simp: fill_permit_def permit_key_def lease_holds_def lease_size_def write_span_def split: option.splits)

lemma permits_ok_same_key:
  "permit_key q = permit_key p \<Longrightarrow> lease_holds (pm_buffer q) = lease_holds (pm_buffer p) \<Longrightarrow> permits_ok (q # held) r = permits_ok (p # held) r"
  by (simp add: permits_ok_def)

section \<open>The operations\<close>

definition accounted :: "ring \<Rightarrow> bool" where
  "accounted r \<longleftrightarrow> permits_ok [] r \<and> bytes_ok r"

lemma accounted_core:
  assumes "permit_core r' = permit_core r"
  shows "accounted r' = accounted r"
  using permits_ok_core [OF assms] by (simp add: accounted_def)

lemmas accounted_simps [simp] =
  accounted_core [OF permit_core_observe] accounted_core [OF permit_core_helpers(1)]
  accounted_core [OF permit_core_helpers(2)] accounted_core [OF permit_core_helpers(3)]
  accounted_core [OF permit_core_cancel_outstanding] permit_core_updates [THEN accounted_core]

lemma accounted_reached:
  assumes "permits_ok [p] r" "bytes_ok r" "lease_holds (pm_buffer p)" "chunk = lease_size (pm_buffer p)"
  shows "accounted ((attempted env p chunk r)\<lparr>rg_next_offset := rg_next_offset r + chunk\<rparr>)"
proof -
  have "grants (rg_history (attempted env p chunk r)) = grants (rg_history r)"
    "settlements (rg_history (attempted env p chunk r)) = settlements (rg_history r)"
    by (simp_all add: attempted_def)
  with assms show ?thesis
    by (auto simp: accounted_def permits_ok_def bytes_ok_def permits_in_flight_def bytes_in_flight_def permit_bytes_def
        chunk_entry_def permit_key_def)
qed

lemma accounted_submit_chunk:
  assumes env: "env_provider env" and fresh: "rg_next_id r \<notin> fst ` set (rg_in_flight r)"
    and r: "permits_ok [p] r" "bytes_ok r" "lease_holds (pm_buffer p)" "chunk = lease_size (pm_buffer p)"
  shows "accounted (snd (submit_chunk env p chunk r))"
proof -
  let ?undone = "(attempted env p chunk r)\<lparr>rg_in_flight := rg_in_flight r\<rparr>"
  have "permit_core ?undone = permit_core r" by (simp add: permit_core_def attempted_def emit_def observe_telemetry_def)
  then have "permits_ok [p] ?undone" "bytes_ok ?undone" using r(1,2) permits_ok_core by blast+
  then have "permits_ok [p\<lparr>pm_accepted := True\<rparr>] ?undone" "bytes_ok ?undone"
    by (simp_all add: permits_ok_same_key [of "p\<lparr>pm_accepted := True\<rparr>" p] permit_key_def)
  then have "accounted (settle_permit env (p\<lparr>pm_accepted := True\<rparr>) Not_submitted ?undone)"
    using permits_ok_settle [OF env] bytes_ok_settle_not_submitted [OF env] by (simp add: accounted_def)
  with accounted_reached [OF r, of env] show ?thesis
    by (auto simp: submit_chunk_cases [OF fresh] delete_last_fresh [OF fresh] Let_def split: submit_outcome.splits)
qed

lemma accounted_read_submit:
  assumes env: "env_provider env" and fresh: "rg_next_id r \<notin> fst ` set (rg_in_flight r)"
    and r: "permits_ok [p] r" "bytes_ok r" "lease_holds (pm_buffer p)" "\<not> pm_accepted p"
  shows "accounted
    (snd (case read_chunk_source env (lease_size (pm_buffer p)) r of
            (None, r) \<Rightarrow> (False, destroy_permit env p (begin_failure env Source_read r))
          | (Some octets, r) \<Rightarrow> submit_chunk env (fill_permit octets p) (lease_size (pm_buffer p)) r))"
proof -
  obtain octets r' where source: "read_chunk_source env (lease_size (pm_buffer p)) r = (octets, r')" by fastforce
  note core = permits_ok_core [OF permit_core_read [OF source]]
  note same = ring_coreD [OF read_chunk_source_keeps(1) [OF source]]
  have "accounted (destroy_permit env p (begin_failure env Source_read r'))"
    using r core permits_ok_settle [OF env] bytes_ok_settle_not_submitted [OF env] by (simp add: accounted_def destroy_permit_def)
  moreover have "accounted (snd (submit_chunk env (fill_permit bytes p) (lease_size (pm_buffer p)) r'))" for bytes
    by (rule accounted_submit_chunk [OF env])
      (use fresh same r core permits_ok_same_key [of "fill_permit bytes p" p "[]" r] in simp_all)
  ultimately show ?thesis using source by (simp split: option.splits)
qed

lemma accounted_pump_step:
  assumes env: "env_provider env" and fresh: "rg_next_id r \<notin> fst ` set (rg_in_flight r)" and r: "accounted r"
  shows "accounted (snd (pump_step env r))"
proof -
  let ?maximum = "min (rg_total_bytes r - rg_next_offset r) (rc_chunk_size (env_config env))"
  obtain granted r' where acquire: "acquire_permit env ?maximum r = (granted, r')" by fastforce
  note same = ring_coreD [OF acquire_permit_keeps(1) [OF acquire]]
  from permits_ok_acquire [OF env _ _ acquire] r
  have r': "permits_ok (case granted of None \<Rightarrow> [] | Some p \<Rightarrow> [p]) r'" "bytes_ok r'" "\<forall>p. granted = Some p \<longrightarrow> \<not> pm_accepted p"
    by (simp_all add: accounted_def)
  show ?thesis
  proof (cases granted)
    case None
    with acquire r' show ?thesis
      by (simp add: pump_step_def Let_def accounted_def permits_ok_core [of "r'\<lparr>rg_wait_generation := _\<rparr>" r'])
  next
    case (Some p)
    have "accounted (settle_permit env p Not_submitted r')"
      using r' Some permits_ok_settle [OF env] bytes_ok_settle_not_submitted [OF env] by (simp add: accounted_def)
    moreover have "lease_holds (pm_buffer p)" if "lease_size (pm_buffer p) \<noteq> 0"
      using that by (auto simp: lease_holds_def lease_size_def split: option.splits)
    ultimately show ?thesis
      using acquire Some accounted_read_submit [OF env, of r' p] r' fresh same by (auto simp: pump_step_def Let_def)
  qed
qed

lemma accounted_answer:
  assumes r: "accounted r" and ids: "distinct (map fst (rg_in_flight r))" and e: "map_of (rg_in_flight r) (cmp_id c) = Some e"
  shows "permits_ok [fl_permit e] (answer c r)" "lease_holds (pm_buffer (fl_permit e))"
    "fl_requested e = lease_size (pm_buffer (fl_permit e))"
    "rg_next_offset r = permit_bytes Fully_transferred (rg_history (answer c r)) +
       permit_bytes Partial_or_unknown (rg_history (answer c r)) + bytes_in_flight (answer c r) + fl_requested e"
    "rg_completed_bytes r = permit_bytes Fully_transferred (rg_history (answer c r))"
proof -
  from e have member: "(cmp_id c, e) \<in> set (rg_in_flight r)" by (rule map_of_SomeD)
  then obtain xs ys where split: "rg_in_flight r = xs @ (cmp_id c, e) # ys" by (meson split_list)
  with ids have "AList.delete (cmp_id c) (rg_in_flight r) = xs @ ys"
    by (force simp: AList.delete_eq filter_id_conv intro!: arg_cong2 [where f = append])
  moreover have "grants (rg_history (answer c r)) = grants (rg_history r)"
    "settlements (rg_history (answer c r)) = settlements (rg_history r)"
    by (simp_all add: answer_def)
  ultimately show "permits_ok [fl_permit e] (answer c r)" "lease_holds (pm_buffer (fl_permit e))"
    "fl_requested e = lease_size (pm_buffer (fl_permit e))"
    "rg_next_offset r = permit_bytes Fully_transferred (rg_history (answer c r)) +
       permit_bytes Partial_or_unknown (rg_history (answer c r)) + bytes_in_flight (answer c r) + fl_requested e"
    "rg_completed_bytes r = permit_bytes Fully_transferred (rg_history (answer c r))"
    using r split
    by (auto simp: accounted_def permits_ok_def bytes_ok_def permits_in_flight_def bytes_in_flight_def permit_bytes_def)
qed

lemma record_success_completed [simp]: "rg_completed_bytes (record_success offset n r) = rg_completed_bytes r + n"
  by (simp add: record_success_def split: prod.splits)

lemma accounted_settle_completion:
  assumes env: "env_provider env" and r: "accounted r" and ids: "distinct (map fst (rg_in_flight r))"
    and e: "map_of (rg_in_flight r) (cmp_id c) = Some e"
  shows "accounted (settle_completion env e c (answer c r))"
proof -
  note answer = accounted_answer [OF r ids e]
  let ?settle = "\<lambda>x. settle_permit env (fl_permit e) x (answer c r)"
  have permits: "permits_ok [] (?settle x)" for x by (rule permits_ok_settle [OF env answer(1)])
  have "bytes_ok (?settle Partial_or_unknown)"
    using answer by (simp add: bytes_ok_def permit_bytes_settle [OF env answer(2)] bytes_in_flight_def)
  with permits have lost: "accounted (?settle Partial_or_unknown)" by (simp add: accounted_def)
  have "bytes_ok (record_success (fl_offset e) (fl_requested e) (?settle Fully_transferred))"
    using answer by (simp add: bytes_ok_def permit_bytes_settle [OF env answer(2)] bytes_in_flight_def)
  moreover have "permits_ok [] (record_success (fl_offset e) (fl_requested e) (?settle Fully_transferred))"
    using permits [of Fully_transferred] by (simp add: permits_ok_def permits_in_flight_def)
  ultimately show ?thesis using lost by (simp add: settle_completion_def Let_def accounted_def)
qed

context faithful_source
begin

lemma accounted_pump:
  assumes "env_provider env" "pumping env content r" "accounted r"
  shows "accounted (snd (pump env r))"
proof -
  have "pumping env content (snd (pump_loop env False r)) \<and> accounted (snd (pump_loop env False r))"
  proof (rule pump_loop_invariant)
    fix r
    assume r: "pumping env content r \<and> accounted r" "rg_state r = Ring_running" "length (rg_in_flight r) < rc_depth (env_config env)"
    then have "rg_next_id r \<notin> fst ` set (rg_in_flight r)" using next_id_fresh(1) by (auto simp: pumping_def)
    with r show "pumping env content (snd (pump_step env r)) \<and> accounted (snd (pump_step env r))"
      using accounted_pump_step [OF assms(1)] pumping_pump_step pumping_running by blast
  qed (use assms in simp)
  with assms(3) show ?thesis by (simp add: pump_def case_prod_beta)
qed

lemma accounted_public_pump:
  assumes "env_provider env" "ring_ok env content r" "accounted r"
  shows "accounted (snd (pump env r))"
proof (cases "rg_state r = Ring_running")
  case True
  with assms(2) have "pumping env content r" by (auto simp: ring_ok_def pumping_def phase_ok_def)
  with assms show ?thesis by (intro accounted_pump)
qed (use assms in \<open>simp add: pump_def\<close>)

lemma accounted_handle_completion:
  assumes env: "env_provider env" and r: "ring_ok env content r" "accounted r"
  shows "accounted (snd (handle_completion env c r))"
proof (cases "map_of (rg_in_flight r) (cmp_id c)")
  case None
  with r show ?thesis by (simp add: handle_completion_def)
next
  case (Some e)
  then have flight: "rg_in_flight r \<noteq> []" by auto
  with r have busy: "busy r" by (simp add: ring_ok_def in_flight_busy)
  let ?r = "settle_completion env e c (answer c r)"
  have answered: "answered_ok content ?r" using r(1) busy Some by (intro answered_settle_completion) (simp_all add: ring_ok_def)
  have "distinct (map fst (rg_in_flight r))" using r(1) by (simp add: ring_ok_def chunks_ok_def ids_ok_def Let_def)
  then have accounted: "accounted ?r" by (rule accounted_settle_completion [OF env r(2) _ Some])
  have "pumping env content ?r" if "rg_state ?r = Ring_running"
    using answered r(1) busy that delete_length [of "cmp_id c" "rg_in_flight r"]
    by (auto simp: pumping_def answered_ok_def ring_ok_def busy_def)
  with accounted accounted_pump [OF env] show ?thesis by (simp add: handle_completion_answered [OF Some] Let_def)
qed

lemma accounted_start:
  assumes "env_provider env" "ring_ok env content r" "accounted r" "source = None \<or> source = Some (length content)"
  shows "accounted (snd (start env source lme r))"
proof (cases "rg_state r = Ring_idle")
  case True
  let ?run = "r\<lparr>rg_total_bytes := length content, rg_logical_message_end := lme, rg_state := Ring_running\<rparr>"
  have "accounted ?run" using assms(3) by simp
  moreover have "pumping env content ?run" using assms(2) True by (rule pumping_started)
  ultimately have "accounted (snd (pump env ?run))" using accounted_pump [OF assms(1)] by blast
  with True assms(3,4) show ?thesis by (auto simp: start_def Let_def)
qed (use assms in \<open>simp add: start_def Let_def\<close>)

theorem reachable_accounted:
  assumes "env_provider env" "ring_reach env content r"
  shows "accounted r"
  using assms(2)
proof (induction rule: ring_reach.induct)
  case (reach_new t)
  show ?case by (simp add: accounted_def permits_ok_def bytes_ok_def new_ring_def permits_in_flight_def bytes_in_flight_def permit_bytes_def)
next
  case (reach_start r source lme)
  then show ?case using accounted_start [OF assms(1)] reachable_ring_ok by blast
next
  case (reach_pump r)
  then show ?case using accounted_public_pump [OF assms(1)] reachable_ring_ok by blast
next
  case (reach_wait r)
  then show ?case
    using accounted_public_pump [OF assms(1)] reachable_ring_ok ring_ok_emit accounted_core [OF permit_core_emit]
    by (auto simp: wait_for_permit_until_def Let_def)
next
  case (reach_completion r c)
  then show ?case using accounted_handle_completion [OF assms(1)] reachable_ring_ok by blast
next
  case (reach_cancel r)
  then show ?case by (simp add: cancel_def Let_def)
qed

end

end
