(* ===== verification/Ring_Drive.thy ===== *)
theory Ring_Drive
  imports Ring_Permits
begin

text \<open>
  Progress of the ring: a ring that drains after a cancellation or a failure ends when the transfers in flight have
  completed, and with cooperating partners a transfer completes, in whatever order the completions arrive.
\<close>

section \<open>Draining\<close>

definition drained_state :: "ring_state \<Rightarrow> ring_state" where
  "drained_state st = (if st = Ring_cancelling then Ring_cancelled else Ring_failed)"

lemma settle_terminal_state_draining:
  assumes "rg_state r \<in> {Ring_cancelling, Ring_draining_failure}"
  shows "rg_state (settle_terminal_state r) = (if rg_in_flight r = [] then drained_state (rg_state r) else rg_state r)"
  using assms by (auto simp: settle_terminal_state_def drained_state_def)

lemma settle_terminal_state_final:
  "rg_state r \<in> {Ring_cancelled, Ring_failed, Ring_completed} \<Longrightarrow> settle_terminal_state r = r"
  by (auto simp: settle_terminal_state_def)

lemma settle_completion_draining:
  assumes "rg_state r \<in> {Ring_cancelling, Ring_draining_failure}"
  shows "rg_state (settle_terminal_state (settle_completion env e c r)) =
      (if rg_in_flight r = [] then drained_state (rg_state r) else rg_state r)"
    "rg_state (settle_completion env e c r) \<noteq> Ring_running"
    "handed_over (rg_history (settle_completion env e c r)) = handed_over (rg_history r)"
proof -
  have fail: "rg_state (begin_failure env kind r) = (if rg_in_flight r = [] then drained_state (rg_state r) else rg_state r)"
    if "rg_state r \<in> {Ring_cancelling, Ring_draining_failure}" for kind and r :: ring
    using that by (auto simp: begin_failure_def Let_def settle_terminal_state_draining)
  have again: "rg_state (settle_terminal_state (begin_failure env kind r)) = rg_state (begin_failure env kind r)"
    if "rg_state r \<in> {Ring_cancelling, Ring_draining_failure}" for kind and r :: ring
  proof (cases "rg_in_flight r = []")
    case True
    with fail [OF that] show ?thesis by (subst settle_terminal_state_final) (auto simp: drained_state_def)
  next
    case False
    with fail [OF that] that settle_terminal_state_draining [of "begin_failure env kind r"] show ?thesis by auto
  qed
  show "rg_state (settle_terminal_state (settle_completion env e c r)) =
      (if rg_in_flight r = [] then drained_state (rg_state r) else rg_state r)"
    using assms by (auto simp: settle_completion_def Let_def again fail settle_terminal_state_draining)
  show "rg_state (settle_completion env e c r) \<noteq> Ring_running"
    using assms by (auto simp: settle_completion_def Let_def fail drained_state_def)
  show "handed_over (rg_history (settle_completion env e c r)) = handed_over (rg_history r)"
    by (simp add: settle_completion_def Let_def)
qed

lemma delete_absent: "map_of xs i = None \<Longrightarrow> AList.delete i xs = xs"
  by (force simp: AList.delete_eq filter_id_conv map_of_eq_None_iff)

lemma handle_completion_draining:
  fixes env :: ring_env and c :: transfer_completion
  assumes "rg_state r \<in> {Ring_cancelling, Ring_draining_failure}" "rg_in_flight r \<noteq> []"
  defines "r' \<equiv> snd (handle_completion env c r)"
  shows "rg_in_flight r' = AList.delete (cmp_id c) (rg_in_flight r)"
    "rg_state r' = (if rg_in_flight r' = [] then drained_state (rg_state r) else rg_state r)"
    "handed_over (rg_history r') = handed_over (rg_history r)"
proof -
  have "rg_in_flight r' = AList.delete (cmp_id c) (rg_in_flight r) \<and>
    rg_state r' = (if rg_in_flight r' = [] then drained_state (rg_state r) else rg_state r) \<and>
    handed_over (rg_history r') = handed_over (rg_history r)"
  proof (cases "map_of (rg_in_flight r) (cmp_id c)")
    case None
    with assms(1,2) show ?thesis by (auto simp: r'_def handle_completion_def delete_absent)
  next
    case (Some e)
    have "rg_state (answer c r) \<in> {Ring_cancelling, Ring_draining_failure}" using assms(1) by simp
    from settle_completion_draining [OF this, of env e c] show ?thesis
      by (simp add: r'_def handle_completion_answered [OF Some] Let_def)
  qed
  then show "rg_in_flight r' = AList.delete (cmp_id c) (rg_in_flight r)"
    "rg_state r' = (if rg_in_flight r' = [] then drained_state (rg_state r) else rg_state r)"
    "handed_over (rg_history r') = handed_over (rg_history r)"
    by blast+
qed

lemma handle_completions_idle: "rg_in_flight r = [] \<Longrightarrow> foldl (\<lambda>r c. snd (handle_completion env c r)) r cs = r"
  by (induction cs) (simp_all add: handle_completion_def)

lemma drains:
  fixes env :: ring_env
  assumes "rg_state r \<in> {Ring_cancelling, Ring_draining_failure}" "rg_in_flight r \<noteq> []"
    "fst ` set (rg_in_flight r) \<subseteq> cmp_id ` set cs"
  defines "r' \<equiv> foldl (\<lambda>r c. snd (handle_completion env c r)) r cs"
  shows "rg_in_flight r' = [] \<and> rg_state r' = drained_state (rg_state r) \<and> handed_over (rg_history r') = handed_over (rg_history r)"
  unfolding r'_def using assms(1-3)
proof (induction cs arbitrary: r)
  case (Cons c cs)
  let ?r = "snd (handle_completion env c r)"
  note step = handle_completion_draining [OF Cons.prems(1,2), where c = c and env = env]
  show ?case
  proof (cases "rg_in_flight ?r = []")
    case True
    with step show ?thesis by (simp add: handle_completions_idle)
  next
    case False
    with step Cons.prems have "rg_state ?r \<in> {Ring_cancelling, Ring_draining_failure}" by simp
    moreover from step(1) Cons.prems(3) have "fst ` set (rg_in_flight ?r) \<subseteq> cmp_id ` set cs"
      by (auto simp: AList.delete_eq image_iff)
    ultimately show ?thesis using Cons.IH [of ?r] False step by simp
  qed
qed simp

section \<open>Completing\<close>

text \<open>
  Partners that never refuse: permits are granted, with no more than was asked for, the source can be read and the backend
  accepts.
\<close>

definition grants_permits :: "ring_env \<Rightarrow> bool" where
  "grants_permits env \<longleftrightarrow>
     (\<forall>h n. 0 < n \<longrightarrow>
        (if env_provider env
         then \<exists>storage token. env_try_acquire env h n = Some (Some storage, token) \<and> lease_buffer storage \<noteq> [] \<and>
           length (lease_buffer storage) \<le> n
         else env_budget_acquire env h n))"

definition startable :: "ring_env \<Rightarrow> bool" where
  "startable env \<longleftrightarrow>
     0 < rc_chunk_size (env_config env) \<and> 0 < rc_depth (env_config env) \<and>
     (env_provider env \<or> (\<exists>limit. env_budget_limit env = Some limit \<and> rc_chunk_size (env_config env) \<le> limit))"

definition cooperative :: "ring_env \<Rightarrow> byte list \<Rightarrow> bool" where
  "cooperative env content \<longleftrightarrow>
     startable env \<and> grants_permits env \<and> (\<forall>h s. env_submit env h s = Returned Submit_accepted) \<and>
     (\<forall>h offset n. offset + n \<le> length content \<longrightarrow> env_read_exact env h offset n = Some (take n (drop offset content)))"

lemma acquire_granted:
  assumes "grants_permits env" "0 < n"
  obtains p r' where "acquire_permit env n r = (Some p, r')" "0 < lease_size (pm_buffer p)" "lease_size (pm_buffer p) \<le> n"
proof (cases "env_provider env")
  case True
  with assms obtain storage token where "env_try_acquire env (rg_history r) n = Some (Some storage, token)"
    "lease_buffer storage \<noteq> []" "length (lease_buffer storage) \<le> n" unfolding grants_permits_def by metis
  with True that show thesis by (simp add: acquire_permit_def Let_def lease_size_def)
next
  case False
  with assms have "env_budget_acquire env (rg_history r) n" unfolding grants_permits_def by metis
  with False assms(2) that show thesis by (simp add: acquire_permit_def Let_def lease_size_def make_lease_storage_def)
qed

lemma cooperative_pump_step:
  assumes env: "cooperative env content" and r: "pumping env content r" "rg_next_offset r < rg_total_bytes r"
  shows "fst (pump_step env r)"
proof -
  let ?maximum = "min (rg_total_bytes r - rg_next_offset r) (rc_chunk_size (env_config env))"
  have "grants_permits env" "0 < ?maximum" using env r(2) by (simp_all add: cooperative_def startable_def)
  then obtain p r1 where acquire: "acquire_permit env ?maximum r = (Some p, r1)" and chunk: "0 < lease_size (pm_buffer p)"
    "lease_size (pm_buffer p) \<le> ?maximum" by (rule acquire_granted)
  note same1 = acquire_permit_keeps(1) [OF acquire]
  obtain octets r2 where source: "read_chunk_source env (lease_size (pm_buffer p)) r1 = (octets, r2)" by fastforce
  note keep2 = read_chunk_source_keeps [OF source]
  have "rg_next_offset r1 + lease_size (pm_buffer p) \<le> length content"
    using r chunk ring_coreD(5) [OF same1] by (auto simp: pumping_def)
  with env keep2(4) obtain bytes where bytes: "octets = Some bytes" by (simp add: cooperative_def)
  have "chunks_ok content r2" using r(1) chunks_ok_core [OF trans [OF keep2(1) same1]] by (simp add: pumping_def)
  from next_id_fresh(1) [OF this] env
  have "fst (submit_chunk env (fill_permit bytes p) (lease_size (pm_buffer p)) r2)"
    by (simp add: submit_chunk_cases chunk_outcome_def cooperative_def Let_def)
  with acquire chunk source bytes show ?thesis by (auto simp: pump_step_def Let_def)
qed

lemma pump_step_goes_on:
  assumes "fst (pump_step env r)"
  shows "rg_state (snd (pump_step env r)) = rg_state r" "rg_error (snd (pump_step env r)) = rg_error r"
    "rg_completed_bytes (snd (pump_step env r)) = rg_completed_bytes r"
proof -
  obtain r' where r': "pump_step env r = (True, r')" using assms by (cases "pump_step env r") simp
  then have "rg_state r' = rg_state r \<and> rg_error r' = rg_error r \<and> rg_completed_bytes r' = rg_completed_bytes r"
    by (auto simp: pump_step_def acquire_permit_def read_chunk_source_def submit_chunk_def Let_def emit_def observe_telemetry_def
        split: option.splits prod.splits if_splits submit_outcome.splits)
  with r' show "rg_state (snd (pump_step env r)) = rg_state r" "rg_error (snd (pump_step env r)) = rg_error r"
    "rg_completed_bytes (snd (pump_step env r)) = rg_completed_bytes r" by simp_all
qed

text \<open>When no iteration gives up, the loop ends because the ring is full or everything was submitted.\<close>

definition may_submit :: "ring_env \<Rightarrow> ring \<Rightarrow> bool" where
  "may_submit env r \<longleftrightarrow>
     rg_state r = Ring_running \<and> length (rg_in_flight r) < rc_depth (env_config env) \<and> rg_next_offset r < rg_total_bytes r"

lemma pump_loop_exhausts:
  assumes "P r" and step: "\<And>r. P r \<Longrightarrow> may_submit env r \<Longrightarrow> fst (pump_step env r) \<and> P (snd (pump_step env r))"
  shows "P (snd (pump_loop env submitted r)) \<and> \<not> may_submit env (snd (pump_loop env submitted r))"
  using assms(1)
proof (induction "rg_total_bytes r - rg_next_offset r" arbitrary: submitted r rule: less_induct)
  case less
  show ?case
  proof (cases "may_submit env r")
    case True
    obtain r' where pump: "pump_step env r = (True, r')" using step [OF less.prems True] by (cases "pump_step env r") simp
    have "rg_total_bytes r' - rg_next_offset r' < rg_total_bytes r - rg_next_offset r"
      using pump_step_advances [OF pump] True by (auto simp: may_submit_def)
    with less.hyps [of r' True] step [OF less.prems True] pump True show ?thesis
      by (simp add: pump_loop.simps [of env submitted] may_submit_def)
  next
    case False
    with less.prems show ?thesis by (auto simp: pump_loop.simps [of env submitted] may_submit_def)
  qed
qed

definition advancing :: "ring_env \<Rightarrow> byte list \<Rightarrow> ring \<Rightarrow> bool" where
  "advancing env content r \<longleftrightarrow>
     ring_ok env content r \<and> (rg_state r = Ring_running \<and> rg_in_flight r \<noteq> [] \<or> rg_state r = Ring_completed)"

context faithful_source
begin

lemma cooperative_pump:
  assumes env: "cooperative env content" and r: "pumping env content r" "rg_state r = Ring_running"
  shows "advancing env content (snd (pump env r)) \<and> rg_completed_bytes (snd (pump env r)) = rg_completed_bytes r"
proof -
  let ?P = "\<lambda>r'. pumping env content r' \<and> rg_state r' = Ring_running \<and> rg_completed_bytes r' = rg_completed_bytes r"
  let ?loop = "snd (pump_loop env False r)"
  have loop: "?P ?loop \<and> \<not> may_submit env ?loop"
  proof (rule pump_loop_exhausts)
    fix r'
    assume r': "?P r'" "may_submit env r'"
    then have go: "fst (pump_step env r')" using cooperative_pump_step [OF env] by (simp add: may_submit_def)
    moreover have "pumping env content (snd (pump_step env r'))"
      using pumping_pump_step r' pumping_running by (auto simp: may_submit_def)
    ultimately show "fst (pump_step env r') \<and> ?P (snd (pump_step env r'))" using r' pump_step_goes_on [OF go] by simp
  qed (use r in simp)
  have ok: "ring_ok env content (snd (pump env r))" by (rule ring_ok_pump [OF r])
  have result: "snd (pump env r) = settle_terminal_state ?loop" using r(2) by (simp add: pump_def case_prod_beta)
  have "0 < rc_depth (env_config env)" using env by (simp add: cooperative_def startable_def)
  with loop have "rg_in_flight ?loop = [] \<Longrightarrow> rg_next_offset ?loop = rg_total_bytes ?loop"
    by (auto simp: may_submit_def pumping_def chunks_ok_def content_ok_def)
  with loop ok show ?thesis unfolding result by (auto simp: advancing_def settle_terminal_state_def)
qed

lemma cooperative_start:
  assumes "cooperative env content"
  shows "advancing env content (snd (start env (Some (length content)) lme (new_ring t)))"
proof -
  let ?run = "(new_ring t)\<lparr>rg_total_bytes := length content, rg_logical_message_end := lme, rg_state := Ring_running\<rparr>"
  have new: "ring_ok env content (new_ring t)" by (rule ring_ok_new)
  have "pumping env content ?run" using new by (rule pumping_started) (simp add: new_ring_def)
  then have run: "advancing env content (snd (pump env ?run))" using cooperative_pump [OF assms] by simp
  have "ring_ok env content (snd (start env (Some (length content)) lme (new_ring t)))" by (rule ring_ok_start [OF new]) simp
  moreover have "rg_state (new_ring t) = Ring_idle" by (simp add: new_ring_def)
  ultimately show ?thesis
    using assms run by (auto simp: start_def Let_def advancing_def cooperative_def startable_def)
qed

end

text \<open>
  The backend completes the transfers in flight one after the other, with success, in an order that \<open>pick\<close> chooses.
\<close>

primrec drive :: "(history \<Rightarrow> nat) \<Rightarrow> ring_env \<Rightarrow> nat \<Rightarrow> ring \<Rightarrow> ring" where
  "drive pick env 0 r = r"
| "drive pick env (Suc n) r =
     (if rg_in_flight r = [] then r
      else
        let (i, e) = rg_in_flight r ! (pick (rg_history r) mod length (rg_in_flight r))
        in drive pick env n
             (snd (handle_completion env \<lparr>cmp_id = i, cmp_code = Code_success, cmp_transferred = fl_requested e\<rparr> r)))"

lemma contiguous_nonempty: "contiguous first cs stop \<Longrightarrow> s \<in> set cs \<Longrightarrow> sub_payload s \<noteq> []"
  by (induction cs arbitrary: first) auto

lemma completed_bytes_bound:
  assumes "ring_ok env content r"
  shows "rg_completed_bytes r \<le> length content"
proof -
  have "payload_bytes (filter P cs) \<le> payload_bytes cs" for P cs by (induction cs) simp_all
  then have "rg_completed_bytes r \<le> payload_bytes (handed_over (rg_history r))"
    using assms by (simp add: ring_ok_def chunks_ok_def marks_ok_def Let_def)
  also have "\<dots> \<le> length content"
    using assms contiguous_last [of 0 "handed_over (rg_history r)" "rg_next_offset r"]
    by (auto simp: ring_ok_def chunks_ok_def content_ok_def)
  finally show ?thesis .
qed

context faithful_source
begin

lemma cooperative_completion:
  assumes env: "cooperative env content" and r: "advancing env content r" and e: "(i, e) \<in> set (rg_in_flight r)"
  defines "c \<equiv> \<lparr>cmp_id = i, cmp_code = Code_success, cmp_transferred = fl_requested e\<rparr>"
  shows "advancing env content (snd (handle_completion env c r)) \<and> rg_completed_bytes r < rg_completed_bytes (snd (handle_completion env c r))"
proof -
  from r have ok: "ring_ok env content r" by (simp add: advancing_def)
  from r e have run: "rg_state r = Ring_running" by (auto simp: advancing_def ring_ok_def phase_ok_def)
  from ok have ids: "ids_ok r" by (simp add: ring_ok_def chunks_ok_def)
  then have found: "map_of (rg_in_flight r) (cmp_id c) = Some e" using e by (simp add: ids_ok_def Let_def c_def)
  from ids found obtain s where s: "s \<in> set (handed_over (rg_history r))" "fl_requested e = length (sub_payload s)" by (rule chunk_in_flight)
  have "sub_payload s \<noteq> []"
    using ok s(1) contiguous_nonempty by (auto simp: ring_ok_def chunks_ok_def content_ok_def)
  with s(2) have positive: "0 < fl_requested e" by simp
  let ?r = "settle_completion env e c (answer c r)"
  have settled: "rg_state ?r = Ring_running" "rg_completed_bytes ?r = rg_completed_bytes r + fl_requested e"
    using run by (simp_all add: settle_completion_def Let_def c_def)
  have "busy r" using ok run by (auto simp: ring_ok_def phase_ok_def busy_def)
  then have "answered_ok content ?r" using ok found by (intro answered_settle_completion) (simp_all add: ring_ok_def)
  then have "pumping env content ?r"
    using ok run settled(1) delete_length [of "cmp_id c" "rg_in_flight r"]
    by (auto simp: answered_ok_def pumping_def ring_ok_def busy_def)
  note pump = cooperative_pump [OF env this settled(1)]
  then have "settle_terminal_state (snd (pump env ?r)) = snd (pump env ?r)" by (simp add: advancing_def ring_ok_def)
  then have "\<exists>f. snd (handle_completion env c r) = observe_telemetry f (snd (pump env ?r))"
    using settled(1) by (auto simp: handle_completion_answered [OF found] Let_def)
  with pump settled(2) positive show ?thesis by (auto simp: advancing_def ring_ok_observe)
qed

lemma cooperative_drive:
  assumes env: "cooperative env content" and "advancing env content r" "length content - rg_completed_bytes r \<le> n"
  shows "advancing env content (drive pick env n r) \<and> rg_state (drive pick env n r) = Ring_completed"
  using assms(2,3)
proof (induction n arbitrary: r)
  case 0
  have "rg_in_flight r = []"
  proof (rule ccontr)
    assume "rg_in_flight r \<noteq> []"
    then obtain i e where "(i, e) \<in> set (rg_in_flight r)" by (cases "rg_in_flight r") auto
    from cooperative_completion [OF env "0.prems"(1) this] completed_bytes_bound "0.prems"(2) show False
      by (fastforce simp: advancing_def)
  qed
  with "0.prems" show ?case by (auto simp: advancing_def)
next
  case (Suc n)
  show ?case
  proof (cases "rg_in_flight r = []")
    case True
    with Suc.prems show ?thesis by (auto simp: advancing_def)
  next
    case False
    obtain i e where entry: "rg_in_flight r ! (pick (rg_history r) mod length (rg_in_flight r)) = (i, e)" by fastforce
    with False have "(i, e) \<in> set (rg_in_flight r)" by (metis length_greater_0_conv mod_less_divisor nth_mem)
    note step = cooperative_completion [OF env Suc.prems(1) this]
    then have "length content - rg_completed_bytes (snd (handle_completion env
        \<lparr>cmp_id = i, cmp_code = Code_success, cmp_transferred = fl_requested e\<rparr> r)) \<le> n"
      using Suc.prems(2) by linarith
    with Suc.IH [OF conjunct1 [OF step]] False entry show ?thesis by simp
  qed
qed

end

end
