(* ===== verification/Ring_Correct.thy ===== *)
theory Ring_Correct
  imports Ring_Drive
begin

text \<open>
  The correctness of the transfer ring: what its offsets and its watermark stand for, what its final states say about the
  transfer, that permits are settled exactly once, and that it drains and completes. Below, the ring over a source in
  memory, on which the contract of sources holds.
\<close>

section \<open>Final states\<close>

lemma payload_bytes_takeWhile:
  assumes "contiguous first cs stop" "payload_bytes cs \<le> payload_bytes (takeWhile P cs)"
  shows "\<forall>s \<in> set cs. P s"
  using assms by (induction cs arbitrary: first) (auto split: if_splits)

text \<open>Everything was handed over and confirmed.\<close>

definition fully_confirmed :: "byte list \<Rightarrow> ring \<Rightarrow> bool" where
  "fully_confirmed content r \<longleftrightarrow>
     concat (map sub_payload (handed_over (rg_history r))) = content \<and> (\<forall>s \<in> set (handed_over (rg_history r)). confirmed (rg_history r) s)"

lemma chunks_size:
  assumes "chunks_ok content r"
  shows "payload_bytes (handed_over (rg_history r)) = rg_next_offset r" "rg_watermark r \<le> rg_next_offset r"
    "rg_watermark r = rg_next_offset r \<longleftrightarrow> (\<forall>s \<in> set (handed_over (rg_history r)). confirmed (rg_history r) s)"
proof -
  let ?cs = "handed_over (rg_history r)" and ?P = "confirmed (rg_history r)"
  from assms have contiguous: "contiguous 0 ?cs (rg_next_offset r)" and mark: "rg_watermark r = payload_bytes (takeWhile ?P ?cs)"
    by (simp_all add: chunks_ok_def content_ok_def marks_ok_def watermark_of_def Let_def)
  show size: "payload_bytes ?cs = rg_next_offset r" using contiguous_last [OF contiguous] by simp
  have "payload_bytes ?cs = payload_bytes (takeWhile ?P ?cs) + payload_bytes (dropWhile ?P ?cs)"
    by (metis payload_bytes_simps(3) takeWhile_dropWhile_id)
  with size mark show "rg_watermark r \<le> rg_next_offset r" by simp
  show "rg_watermark r = rg_next_offset r \<longleftrightarrow> (\<forall>s \<in> set ?cs. ?P s)"
  proof
    assume "rg_watermark r = rg_next_offset r"
    with size mark show "\<forall>s \<in> set ?cs. ?P s" by (intro payload_bytes_takeWhile [OF contiguous]) simp
  next
    assume "\<forall>s \<in> set ?cs. ?P s"
    then have "takeWhile ?P ?cs = ?cs" by simp
    with size mark show "rg_watermark r = rg_next_offset r" by simp
  qed
qed

lemma fully_confirmed_iff:
  assumes "ring_ok env content r" "content \<noteq> []"
  shows "fully_confirmed content r \<longleftrightarrow> rg_total_bytes r \<noteq> 0 \<and> rg_watermark r = rg_total_bytes r"
proof -
  have chunks: "chunks_ok content r" and total: "rg_total_bytes r = length content \<or> rg_total_bytes r = 0"
    using assms(1) by (auto simp: ring_ok_def)
  note size = chunks_size [OF chunks]
  have bound: "rg_next_offset r \<le> rg_total_bytes r" "rg_total_bytes r \<le> length content"
    and prefix: "concat (map sub_payload (handed_over (rg_history r))) = take (rg_next_offset r) content"
    using chunks by (simp_all add: chunks_ok_def content_ok_def)
  have "concat (map sub_payload (handed_over (rg_history r))) = content \<longleftrightarrow> rg_next_offset r = length content"
    using prefix bound by (metis le_trans length_take min.absorb2 order_refl take_all)
  with size bound total assms(2) show ?thesis unfolding fully_confirmed_def by fastforce
qed

context faithful_source
begin

lemma completed_fully:
  assumes "ring_reach env content r" "rg_state r = Ring_completed"
  shows "rg_error r = None \<and> fully_confirmed content r \<and> rg_watermark r = length content"
proof -
  have ok: "ring_ok env content r" by (rule reachable_ring_ok [OF assms(1)])
  with assms(2) have final: "rg_error r = None" "rg_in_flight r = []" "rg_next_offset r = length content"
    and chunks: "chunks_ok content r" and loss: "lossless r"
    by (auto simp: ring_ok_def phase_ok_def)
  from loss final(1,2) have "\<forall>s \<in> set (handed_over (rg_history r)). confirmed (rg_history r) s" by (simp add: lossless_def)
  with chunks_size [OF chunks] chunks final show ?thesis by (simp add: fully_confirmed_def chunks_ok_def content_ok_def)
qed

lemma stopped_certainty:
  assumes "ring_reach env content r" "rg_state r \<in> {Ring_cancelled, Ring_failed}"
  obtains err where "rg_error r = Some err" "te_certainty err = Delivery_not_sent \<longleftrightarrow> handed_over (rg_history r) = []"
    "te_certainty err = Delivery_fully_transferred \<longleftrightarrow> content \<noteq> [] \<and> fully_confirmed content r"
proof -
  have ok: "ring_ok env content r" by (rule reachable_ring_ok [OF assms(1)])
  with assms(2) obtain err where err: "rg_error r = Some err" "te_certainty err = current_certainty r"
    by (auto simp: ring_ok_def phase_ok_def)
  have chunks: "chunks_ok content r" using ok by (simp add: ring_ok_def)
  have "te_certainty err = Delivery_not_sent \<longleftrightarrow> handed_over (rg_history r) = []"
    using err(2) nothing_delivered [OF chunks] chunks_size(2) [OF chunks] by (auto simp: current_certainty_def)
  moreover have "content \<noteq> []" if "rg_total_bytes r \<noteq> 0" using that chunks by (auto simp: chunks_ok_def content_ok_def)
  then have "te_certainty err = Delivery_fully_transferred \<longleftrightarrow> content \<noteq> [] \<and> fully_confirmed content r"
    using err(2) fully_confirmed_iff [OF ok] by (auto simp: current_certainty_def)
  ultimately show thesis using that err(1) by blast
qed

end

section \<open>Properties\<close>

text \<open>
  C8. At every moment of every run of a ring, whatever the backend, the permit provider and the order of completions do: at
  most \<open>depth\<close> chunks are in flight; the chunks that reached the backend are the source from its start up to
  \<^verbatim>\<open>submitted_bytes()\<close>, without gap, overlap or reordering; only the chunk that ends the source may be marked as the end of
  the message; the completion watermark is the length of the longest prefix of chunks whose completions reported complete
  success; and \<^verbatim>\<open>completed_bytes()\<close> counts the octets of all such chunks.
\<close>

theorem ring_pipeline_invariant:
  assumes source: "\<forall>h offset n octets. env_read_exact env h offset n = Some octets \<longrightarrow>
      octets = take n (drop offset content) \<and> length octets = n"
    and reach: "ring_reach env content r"
  shows "length (rg_in_flight r) \<le> rc_depth (env_config env) \<and>
    contiguous 0 (handed_over (rg_history r)) (rg_next_offset r) \<and>
    concat (map sub_payload (handed_over (rg_history r))) = take (rg_next_offset r) content \<and>
    (\<forall>s \<in> set (handed_over (rg_history r)).
       sub_logical_message_end s = (rg_logical_message_end r \<and> sub_offset s + length (sub_payload s) = rg_total_bytes r)) \<and>
    rg_watermark r = payload_bytes (takeWhile (confirmed (rg_history r)) (handed_over (rg_history r))) \<and>
    rg_completed_bytes r = payload_bytes (filter (confirmed (rg_history r)) (handed_over (rg_history r)))"
proof -
  have "faithful_source env content" by unfold_locales (use source in blast)
  from faithful_source.reachable_ring_ok [OF this reach] show ?thesis
    by (simp add: ring_ok_def chunks_ok_def content_ok_def marks_ok_def watermark_of_def Let_def)
qed

text \<open>
  C9. The final states tell the truth. A ring in state \<open>completed\<close> has no error, the backend was given the whole source and
  confirmed every chunk of it. A ring that ended as \<open>cancelled\<close> or \<open>failed\<close> has nothing in flight and reports an error
  whose certainty is \<open>not_sent\<close> exactly when no chunk reached the backend (an exception of \<^verbatim>\<open>submit\<close> counts as
  reached), and \<open>fully_transferred\<close> exactly when the whole non-empty source was confirmed.
\<close>

theorem ring_verdict_truthful:
  assumes source: "\<forall>h offset n octets. env_read_exact env h offset n = Some octets \<longrightarrow>
      octets = take n (drop offset content) \<and> length octets = n"
    and reach: "ring_reach env content r"
  shows "(rg_state r = Ring_completed \<longrightarrow>
      rg_error r = None \<and> fully_confirmed content r \<and> rg_watermark r = length content) \<and>
    (rg_state r \<in> {Ring_cancelled, Ring_failed} \<longrightarrow>
      rg_in_flight r = [] \<and>
      (\<exists>err. rg_error r = Some err \<and> (te_certainty err = Delivery_not_sent \<longleftrightarrow> handed_over (rg_history r) = []) \<and>
        (te_certainty err = Delivery_fully_transferred \<longleftrightarrow> content \<noteq> [] \<and> fully_confirmed content r)))"
proof -
  have faithful: "faithful_source env content" by unfold_locales (use source in blast)
  have "ring_ok env content r" by (rule faithful_source.reachable_ring_ok [OF faithful reach])
  then have "rg_in_flight r = []" if "rg_state r \<in> {Ring_cancelled, Ring_failed}"
    using that by (auto simp: ring_ok_def phase_ok_def)
  with faithful_source.completed_fully [OF faithful reach] faithful_source.stopped_certainty [OF faithful reach]
  show ?thesis by metis
qed

text \<open>
  C23. With a permit provider, every permit that was granted with a buffer is settled exactly once or belongs to a transfer in
  flight, so that in a final state all have been settled once; and the settlements account for the octets: what reached the
  backend was settled as transferred, settled as uncertain, or is in flight, never as not submitted, and what was settled as
  transferred is exactly what the ring counts as completed.
\<close>

theorem ring_permits_settled_once:
  assumes source: "\<forall>h offset n octets. env_read_exact env h offset n = Some octets \<longrightarrow>
      octets = take n (drop offset content) \<and> length octets = n"
    and provider: "env_provider env" and reach: "ring_reach env content r"
  shows "mset (grants (rg_history r)) = mset (map fst (settlements (rg_history r))) + mset (permits_in_flight r) \<and>
    rg_next_offset r = permit_bytes Fully_transferred (rg_history r) + permit_bytes Partial_or_unknown (rg_history r) +
      bytes_in_flight r \<and>
    rg_completed_bytes r = permit_bytes Fully_transferred (rg_history r)"
proof -
  have "faithful_source env content" by unfold_locales (use source in blast)
  from faithful_source.reachable_accounted [OF this provider reach] show ?thesis
    by (simp add: accounted_def permits_ok_def bytes_ok_def)
qed

text \<open>
  C24. A ring that was cancelled or has failed drains: when the transfers in flight have completed, in whatever order and with
  whatever result, it is in the state \<open>cancelled\<close> or \<open>failed\<close>, nothing is in flight and nothing more was submitted.
\<close>

theorem ring_drains:
  assumes source: "\<forall>h offset n octets. env_read_exact env h offset n = Some octets \<longrightarrow>
      octets = take n (drop offset content) \<and> length octets = n"
    and reach: "ring_reach env content r" and draining: "rg_state r \<in> {Ring_cancelling, Ring_draining_failure}"
    and completions: "fst ` set (rg_in_flight r) \<subseteq> cmp_id ` set cs"
  shows "let r' = foldl (\<lambda>r c. snd (handle_completion env c r)) r cs
    in rg_in_flight r' = [] \<and> handed_over (rg_history r') = handed_over (rg_history r) \<and>
       rg_state r' = (if rg_state r = Ring_cancelling then Ring_cancelled else Ring_failed)"
proof -
  have "faithful_source env content" by unfold_locales (use source in blast)
  from faithful_source.reachable_ring_ok [OF this reach] draining have "rg_in_flight r \<noteq> []"
    by (auto simp: ring_ok_def phase_ok_def)
  from drains [OF draining this completions] show ?thesis by (simp add: drained_state_def Let_def)
qed

text \<open>
  C22. With cooperating partners a transfer completes: when permits are granted, the source can be read and the backend accepts
  every chunk, a started ring whose transfers in flight complete with success, in any order, reaches \<open>completed\<close> after at
  most as many completions as the source has octets, and the backend has received the source.
\<close>

theorem ring_completes:
  assumes source: "\<forall>h offset n octets. env_read_exact env h offset n = Some octets \<longrightarrow>
      octets = take n (drop offset content) \<and> length octets = n"
    and cooperative: "cooperative env content" and enough: "length content \<le> n"
  shows "let r = drive pick env n (snd (start env (Some (length content)) logical_message_end (new_ring telemetry_enabled)))
    in rg_state r = Ring_completed \<and> concat (map sub_payload (handed_over (rg_history r))) = content"
proof -
  have faithful: "faithful_source env content" by unfold_locales (use source in blast)
  let ?start = "snd (start env (Some (length content)) logical_message_end (new_ring telemetry_enabled))"
  have "advancing env content ?start" by (rule faithful_source.cooperative_start [OF faithful cooperative])
  then have end_state: "advancing env content (drive pick env n ?start)" "rg_state (drive pick env n ?start) = Ring_completed"
    using faithful_source.cooperative_drive [OF faithful cooperative] enough by simp_all
  then have "concat (map sub_payload (handed_over (rg_history (drive pick env n ?start)))) = content"
    by (auto simp: advancing_def ring_ok_def phase_ok_def chunks_ok_def content_ok_def)
  with end_state(2) show ?thesis by (simp add: Let_def)
qed

section \<open>The ring over a source in memory\<close>

definition memory_ring_env :: "ring_env \<Rightarrow> byte list \<Rightarrow> ring_env" where
  "memory_ring_env env bytes = env\<lparr>env_read_exact := (\<lambda>h. memory_transfer_source_read_exact bytes)\<rparr>"

interpretation memory_ring: faithful_source "memory_ring_env env bytes" bytes
  by unfold_locales (auto simp: memory_ring_env_def memory_transfer_source_read_exact_def split: if_splits)

text \<open>A small ring: chunks of two octets, two in flight, a provider that grants what is asked for.\<close>

definition small_env :: ring_env where
  "small_env = memory_ring_env
     \<lparr>env_config = \<lparr>rc_chunk_size = 2, rc_depth = 2\<rparr>, env_provider = True, env_budget_limit = None,
      env_try_acquire = (\<lambda>h n. Some (Some (make_lease_storage n), length h)), env_budget_acquire = (\<lambda>h n. False),
      env_generation = (\<lambda>h. 0), env_wait_for_ready = (\<lambda>h g. Wait_ready), env_read_exact = (\<lambda>h offset n. None),
      env_submit = (\<lambda>h s. Returned Submit_accepted), env_now = length\<rparr> [1, 2, 3]"

definition small_started :: ring where
  "small_started = snd (start small_env (Some 3) True (new_ring True))"

definition small_cancelling :: ring where
  "small_cancelling = cancel small_env (snd (handle_completion small_env \<lparr>cmp_id = 2, cmp_code = Code_success, cmp_transferred = 1\<rparr> small_started))"

lemma small_reach: "ring_reach small_env [1, 2, 3] small_started" "ring_reach small_env [1, 2, 3] small_cancelling"
proof -
  show started: "ring_reach small_env [1, 2, 3] small_started"
    unfolding small_started_def by (intro reach_start reach_new) simp
  show "ring_reach small_env [1, 2, 3] small_cancelling"
    unfolding small_cancelling_def by (intro reach_cancel reach_completion started)
qed

lemma small_source:
  "\<forall>h offset n octets. env_read_exact small_env h offset n = Some octets \<longrightarrow>
     octets = take n (drop offset [1, 2, 3]) \<and> length octets = n"
  unfolding small_env_def using memory_ring.read_exact by blast

section \<open>Witnesses\<close>

theorem ring_pipeline_invariant_witness:
  "rg_next_offset small_cancelling = 3 \<and> rg_watermark small_cancelling = 0 \<and> rg_completed_bytes small_cancelling = 1 \<and>
   concat (map sub_payload (handed_over (rg_history small_cancelling))) = [1, 2, 3] \<and>
   payload_bytes (takeWhile (confirmed (rg_history small_cancelling)) (handed_over (rg_history small_cancelling))) = 0"
proof -
  have run: "rg_next_offset small_cancelling = 3" "rg_watermark small_cancelling = 0" "rg_completed_bytes small_cancelling = 1"
    by code_simp+
  with ring_pipeline_invariant [OF small_source small_reach(2)] show ?thesis by simp
qed

theorem ring_verdict_truthful_witness:
  "let r = cancel small_env (snd (start small_env (Some 3) True (new_ring True)));
       r' = foldl (\<lambda>r c. snd (handle_completion small_env c r)) r
         [\<lparr>cmp_id = 1, cmp_code = Code_success, cmp_transferred = 2\<rparr>, \<lparr>cmp_id = 2, cmp_code = Code_success, cmp_transferred = 1\<rparr>]
   in rg_state r' = Ring_cancelled \<and> rg_in_flight r' = [] \<and>
      rg_error r' = Some \<lparr>te_kind = User_cancelled, te_certainty = Delivery_fully_transferred\<rparr> \<and> fully_confirmed [1, 2, 3] r'"
proof -
  define r where "r = cancel small_env (snd (start small_env (Some 3) True (new_ring True)))"
  define r' where "r' = foldl (\<lambda>r c. snd (handle_completion small_env c r)) r
    [\<lparr>cmp_id = 1, cmp_code = Code_success, cmp_transferred = 2\<rparr>, \<lparr>cmp_id = 2, cmp_code = Code_success, cmp_transferred = 1\<rparr>]"
  have "ring_reach small_env [1, 2, 3] r'"
    unfolding r'_def r_def by (auto intro!: reach_cancel reach_completion reach_start reach_new)
  note truthful = ring_verdict_truthful [OF small_source this]
  have "rg_state r' = Ring_cancelled" "rg_error r' = Some \<lparr>te_kind = User_cancelled, te_certainty = Delivery_fully_transferred\<rparr>"
    unfolding r'_def r_def by code_simp+
  with truthful have "rg_state r' = Ring_cancelled \<and> rg_in_flight r' = [] \<and>
      rg_error r' = Some \<lparr>te_kind = User_cancelled, te_certainty = Delivery_fully_transferred\<rparr> \<and> fully_confirmed [1, 2, 3] r'"
    by auto
  then show ?thesis unfolding Let_def r'_def r_def .
qed

theorem ring_permits_settled_once_witness:
  "rg_completed_bytes small_cancelling = 1 \<and> permit_bytes Fully_transferred (rg_history small_cancelling) = 1 \<and>
   bytes_in_flight small_cancelling = 2 \<and> rg_next_offset small_cancelling = 3"
proof -
  have run: "rg_next_offset small_cancelling = 3" "rg_completed_bytes small_cancelling = 1" "bytes_in_flight small_cancelling = 2"
    by code_simp+
  have "env_provider small_env" by code_simp
  from ring_permits_settled_once [OF small_source this small_reach(2)] run show ?thesis by simp
qed

theorem ring_drains_witness:
  "rg_state small_cancelling = Ring_cancelling \<and>
   rg_state (snd (handle_completion small_env \<lparr>cmp_id = 1, cmp_code = Code_stall, cmp_transferred = 0\<rparr> small_cancelling)) = Ring_cancelled"
proof -
  have run: "rg_state small_cancelling = Ring_cancelling" "map fst (rg_in_flight small_cancelling) = [1]" by code_simp+
  then have "rg_state small_cancelling \<in> {Ring_cancelling, Ring_draining_failure}"
    "fst ` set (rg_in_flight small_cancelling) \<subseteq> cmp_id ` set [\<lparr>cmp_id = 1, cmp_code = Code_stall, cmp_transferred = 0\<rparr>]"
    by (simp_all flip: set_map)
  from ring_drains [OF small_source small_reach(2) this] run(1) show ?thesis by (simp add: Let_def)
qed

theorem ring_completes_witness:
  "rg_state (drive (\<lambda>h. length h) small_env 3 small_started) = Ring_completed"
proof -
  have "cooperative small_env [1, 2, 3]"
    by (auto simp: cooperative_def startable_def grants_permits_def small_env_def memory_ring_env_def make_lease_storage_def
        memory_transfer_source_read_exact_def)
  from ring_completes [OF small_source this, of 3 length True True] show ?thesis
    by (simp add: Let_def small_started_def flip: numeral_3_eq_3)
qed

end
