(* ===== verification/Spec2Isabelle.thy ===== *)
theory Spec2Isabelle
  imports Session_Receive Vbmeta_Flags Sparse_Cancel Scheduler_Progress Sha256_Vector
    Adaptive_Tuner Variable_Parser Update_Locations Flash_Cancel Flash_Example Boot_Correct Operation_Contract
    Super_Example Ring_Correct
begin

text \<open>
  \<^bold>\<open>KairosBoot: a fastboot host library.\<close>

  KairosBoot flashes Android devices over the fastboot protocol. A device is reached through a transport; a
  session speaks the protocol over it (commands, downloads to the device, uploads from it); images are random-access
  sources, possibly Android sparse images that expand on the device; several devices share the bandwidth of their USB
  controllers and one memory budget; an update package is described by two manifest files. The development models
  these parts as they are written and proves what each promises.

  \<^bold>\<open>Parts and theories\<close> (paths are under \<^verbatim>\<open>src/src\<close> of the repository).

  \<^item> \<open>KB_Prelude\<close>: conventions (sums for \<^verbatim>\<open>std::expected\<close>, words for octets and inspected fields, naturals for sizes whose
    range the source checks), \<^verbatim>\<open>std::from_chars\<close>, spans, and the reader of a \<^verbatim>\<open>std::stop_token\<close>: a token is a function from
    the number of the poll to whether a stop is seen there, so that a request may arrive between any two polls.
  \<^item> \<open>Transport_Session\<close>: \<^verbatim>\<open>protocol/transport_session.hpp\<close>, \<^verbatim>\<open>transport/sequential_streaming_transport.cpp\<close> and the
    memory endpoints of \<^verbatim>\<open>kairosboot.cpp\<close>. A transport is a record of operations over an arbitrary world; the locale
    \<open>wire_transport\<close> states how the octets at the device grow: by exactly the reported count when the outcome of a write is
    certain, by an unknown number at least as large when it is partial or unknown. Every logged transport meets it, for every
    choice of those numbers. It also shows a defect of the adapter: a first write that counts nothing with an unknown outcome
    is reported as not transferred.
  \<^item> \<open>Fastboot_Response\<close>, \<open>Fastboot_Session\<close>: \<^verbatim>\<open>protocol/fastboot_protocol.{hpp,cpp}\<close>, every call of the session with its
    state machine (ready, busy, poisoned, closed) and its evidence about transferred octets. \<open>Session_Contract\<close>: reachable
    states and finality of poisoning, for every transport. \<open>Session_Wire\<close>, \<open>Session_Receive\<close>: what is on the wire and in
    the sink after a download or an upload, and that the reported result is truthful, up to that defect of the adapter.
  \<^item> \<open>Image_Source\<close>: \<^verbatim>\<open>IImageSource\<close> and \<^verbatim>\<open>transport/image_transfer_source.cpp\<close>; the locale \<open>image_content\<close> is the contract
    of a source, with short reads and errors left free. \<open>Vbmeta_Flags\<close>: \<^verbatim>\<open>image/vbmeta_flag_source.{hpp,cpp}\<close>.
  \<^item> \<open>Sparse_Source\<close>, \<open>Sparse_Crc\<close>, \<open>Sparse_Image\<close>: \<^verbatim>\<open>image/sparse_image.{hpp,cpp}\<close> and \<^verbatim>\<open>image/flash_artifact.hpp\<close>.
    \<open>Sparse_Crc\<close>: the CRC of a repeated pattern by repeated squaring of a linear operator equals the bitwise CRC.
    \<open>Sparse_Table\<close>: an opened image has a table that tiles its output, with verified checksums. \<open>Sparse_Read\<close>: a read of a
    window is that window of the reference expansion. \<open>Sparse_Cancel\<close>: cancellation replaces an outcome and never changes
    it, and the classification of artifacts.
  \<^item> \<open>Flash_Plan\<close>, \<open>Flash_Resparse\<close>: \<^verbatim>\<open>image/sparse_flash_plan.{hpp,cpp}\<close>, the planner that cuts an artifact into sparse
    payloads below the download limit of the device. \<open>Flash_Content\<close> gives fragments their meaning as writes to a device and
    shows that merging and cutting keep it, \<open>Flash_Import\<close> that the fragments of an artifact write what it expands to,
    \<open>Flash_Passes\<close> that both passes keep the writes. \<open>Flash_Part\<close> and \<open>Flash_Part_Read\<close>: the octets behind the pieces of a
    part and the reads of it. \<open>Flash_Decode\<close>: the sparse reader opens a built part and finds its fragments again.
    \<open>Flash_Correct\<close>: the payloads of a plan flash the artifact. \<open>Flash_Cancel\<close>: cancellation. \<open>Flash_Example\<close>: a plan in
    full.
  \<^item> \<open>Boot_Image\<close>: \<^verbatim>\<open>image/boot_image_builder.{hpp,cpp}\<close>, boot images of header versions 0 to 4 as tables of pieces.
    \<open>Boot_Layout\<close>: alignment, the table and its reads; \<open>Boot_Header\<close>: the fields of the header page; \<open>Boot_Correct\<close>: a built
    image is its header and its padded components. \<open>Word_Octets\<close>: words and their little-endian octets.
  \<^item> \<open>Super_Metadata\<close>, \<open>Super_Resize\<close>, \<open>Super_Serialize\<close>: \<^verbatim>\<open>image/super_metadata.{hpp,cpp}\<close>, resizing a logical partition in the
    metadata fetched from a super partition: parser, allocator, serializer and the sparse image of the slot. \<open>Super_Fields\<close>:
    little-endian fields. \<open>Super_Invariant\<close>: what the parser guarantees. \<open>Super_Space\<close>, \<open>Super_Grow\<close>, \<open>Super_Resized\<close>: free
    intervals are free, and the allocator keeps the sector maps of all partitions apart. \<open>Super_Tables\<close>, \<open>Super_Roundtrip\<close>:
    a written slot is read back. \<open>Super_Correct\<close>: the whole path, from the fetched octets to the metadata after the flash.
    \<open>Super_Example\<close>: a resize in full, and two defects of the checks, an unguarded subtraction that accepts extents behind
    the end of their device and extents without sectors that grow into other extents.
  \<^item> \<open>Operation_State\<close>: \<^verbatim>\<open>api/operation_state.{hpp,cpp}\<close>, the asynchronous operation behind the API, as an interleaving of
    its locked sections; \<open>Operation_Contract\<close>: invariant, finality of the terminal phase, and progress without deadlock.
  \<^item> \<open>Buffer_Budget\<close>: \<^verbatim>\<open>transport/buffer_budget.{hpp,cpp}\<close>, the lock-free counter as a step relation of atomic accesses
    under arbitrary interleaving (the locale \<open>byte_budget\<close> is its contract), the observers, and the process-wide limit.
  \<^item> \<open>Scheduler_Model\<close>: \<^verbatim>\<open>fleet/controller_scheduler.{hpp,cpp}\<close>, the deficit round robin over controllers and devices. Other
    owners of the budget act between two accesses: \<open>budget_env\<close>. \<open>Scheduler_Invariant\<close>, \<open>Scheduler_Grants\<close>, \<open>Scheduler_Runs\<close>:
    the accounting invariant, soundness of grants, settlement. \<open>Scheduler_Progress\<close>: the rotation is work conserving.
  \<^item> \<open>Transfer_Ring\<close>: \<^verbatim>\<open>transport/transfer_ring.{hpp,cpp}\<close>, the pipeline of chunks between a source and an asynchronous backend. The
    partners of the ring answer as functions of the history of events, so nothing is assumed about their state. \<open>Ring_Views\<close>:
    what the history says, and the watermark. \<open>Ring_Invariant\<close>, \<open>Ring_Steps\<close>, \<open>Ring_Reach\<close>: the invariant of every sequence of
    calls and completions, for sources that return their content (the locale \<open>faithful_source\<close>). \<open>Ring_Permits\<close>: permits are
    settled once. \<open>Ring_Drive\<close>: draining and completing. \<open>Ring_Correct\<close>: the properties, and the ring over a source in memory.
  \<^item> \<open>Sha256\<close>: \<^verbatim>\<open>image/sha256.{hpp,cpp}\<close>; \<open>Sha256_Spec\<close> relates the incremental state to the standard's definition,
    \<open>Sha256_Vector\<close> evaluates the published digest of \<^verbatim>\<open>abc\<close>.
  \<^item> \<open>Adaptive_Tuner\<close>: \<^verbatim>\<open>transport/adaptive_tuner.{hpp,cpp}\<close>; the operations on \<^verbatim>\<open>double\<close> are a parameter, and the bounds hold
    for every outcome of them. \<open>Variable_Parser\<close>: \<^verbatim>\<open>fastboot/variable_parser.hpp\<close>.
  \<^item> \<open>Update_Plan\<close>: \<^verbatim>\<open>fastboot/update_plan.{hpp,cpp}\<close>, the two manifest grammars and the plan. \<open>Update_Lines\<close> proves the line
    driver once against three contracts of its callback (the locales \<open>line_keeps\<close>, \<open>line_located\<close>, \<open>line_costs\<close>), which
    \<open>Update_Manifest\<close> and \<open>Update_Locations\<close> establish for both callbacks: accepted manifests are safe, errors point at
    the byte they are about, and scanning is linear.

  \<^bold>\<open>Loops and fuel.\<close> Every loop of the sources is a terminating function with its measure, so results are results of the
  code and not of a bounded run. The one exception is the search for an unused dispatch token, whose fuel is two more than
  the number of outstanding grants; \<open>Scheduler_Grants\<close> proves that this always finds a token while one exists.

  \<^bold>\<open>Not modelled.\<close> Socket, file, process and libusb calls; the C ABI (\<^verbatim>\<open>kairosboot.cpp\<close> but for its memory endpoints) and
  the command line; topology discovery. Allocation failure is modelled where the code turns it into a value and otherwise not.
  Also left out so far: the super image optimizer, the vendor boot repacker, the reconnect coordinator, the update executor and the
  framing of the network transports.
\<close>

end
